(* ===== verification/Pilot_Prelude.thy ===== *)
theory Pilot_Prelude
  imports Main "HOL-Library.Word"
begin

unbundle bit_operations_syntax

text \<open>
  Names and lemmas shared by every component.

  The integer types are those of \<^verbatim>\<open>common/pl_type.h\<close>: a fixed-width unsigned integer is a
  word of that width, so that \<open>+\<close> and \<open>-\<close> wrap around as they do in C++.  The generic
  lemmas are about lists, which stand for arrays and linked lists, and about the
  power-of-two masks with which the code takes remainders.
\<close>

section \<open>Fixed-width integers\<close>

type_synonym U8 = "8 word"
type_synonym U16 = "16 word"
type_synonym U32 = "32 word"
type_synonym U64 = "64 word"

abbreviation C_TRUE :: U8 where "C_TRUE \<equiv> 1"
abbreviation C_FALSE :: U8 where "C_FALSE \<equiv> 0"

named_theorems heap_frame \<open>updates of the node store that leave a list alone\<close>
named_theorems timer_simps \<open>projections of the timer-manager operations\<close>
named_theorems mbox_simps \<open>projections of the mailbox operations\<close>

lemma unat_lt_U32: "unat (x::U32) < 2 ^ 32"
  using unsigned_less[of x] by simp

lemma unat_add_bounded:
  assumes "unat (c::U32) + k \<le> unat (s::U32)"
  shows "unat (c + of_nat k) = unat c + k"
  using assms unat_lt_U32[of s] by (simp add: unat_word_ariths unat_of_nat)

section \<open>Words in memory\<close>

text \<open>The bytes of a word on a little-endian machine, and the word that bytes stand for.\<close>

definition le_bytes :: "nat \<Rightarrow> 'a::len word \<Rightarrow> U8 list" where
  "le_bytes n w = map (\<lambda>i. ucast (drop_bit (8 * i) w)) [0..<n]"

fun le_word :: "U8 list \<Rightarrow> 'a::len word" where
  "le_word [] = 0"
| "le_word (b # bs) = ucast b OR push_bit 8 (le_word bs)"

lemma length_le_bytes [simp]: "length (le_bytes n w) = n"
  by (simp add: le_bytes_def)

lemma bit_le_word:
  "bit (le_word bs :: 'a::len word) i \<longleftrightarrow> i < LENGTH('a) \<and> i div 8 < length bs \<and> bit (bs ! (i div 8)) (i mod 8)"
proof (induction bs arbitrary: i)
  case (Cons b bs)
  show ?case
  proof (cases "i < 8")
    case True
    then show ?thesis by (auto simp: bit_or_iff bit_push_bit_iff bit_ucast_iff)
  next
    case False
    then have "i div 8 = Suc ((i - 8) div 8)" "i mod 8 = (i - 8) mod 8" by (simp_all add: div_if mod_if)
    moreover have "\<not> bit b i" using False by (simp add: impossible_bit)
    ultimately show ?thesis using False Cons.IH[of "i - 8"] by (auto simp: bit_or_iff bit_push_bit_iff bit_ucast_iff)
  qed
qed simp

lemma le_word_le_bytes:
  assumes "LENGTH('a::len) \<le> 8 * n"
  shows "le_word (le_bytes n (w :: 'a word)) = w"
proof (rule bit_word_eqI)
  fix i
  assume i: "i < LENGTH('a)"
  then have "i div 8 < n" using assms by (simp add: less_mult_imp_div_less mult.commute)
  then show "bit (le_word (le_bytes n w) :: 'a word) i = bit w i"
    using i by (simp add: bit_le_word le_bytes_def bit_ucast_iff bit_drop_bit_eq)
qed

section \<open>Masks\<close>

lemma unat_and_mask_le: "unat ((x::U32) AND m) \<le> unat m"
  using word_and_le1[of x m] by (simp add: word_le_nat_alt)

lemma low_mask_U32:
  assumes "unat (m::U32) = 2 ^ k - 1"
  shows "m = mask k"
proof -
  have "m = of_nat (unat m)" by simp
  also have "\<dots> = of_nat (mask k)" using assms by (simp only: mask_eq_exp_minus_1)
  finally show ?thesis by (simp add: of_nat_mask_eq)
qed

lemma unat_and_low_mask:
  assumes "unat (m::U32) = 2 ^ k - 1"
  shows "unat (x AND m) = unat x mod 2 ^ k"
proof -
  have "x AND m = take_bit k x"
    by (simp only: low_mask_U32[OF assms] take_bit_eq_mask)
  then have "unat (x AND m) = take_bit k (unat x)"
    by (simp only: unsigned_take_bit_eq)
  then show ?thesis by (simp only: take_bit_eq_mod)
qed

text \<open>The test \<open>(n & (n - 1)) == 0\<close>.\<close>

lemma power2_test_nat: "\<lbrakk>n AND (n - 1) = 0; n > 0\<rbrakk> \<Longrightarrow> \<exists>k. n = (2::nat) ^ k"
proof (induction n rule: less_induct)
  case (less n)
  show ?case
  proof (cases "even n")
    case True
    then obtain m where m: "n = 2 * m" by blast
    with less.prems have "m > 0" by simp
    then have "n - 1 = Suc (2 * (m - 1))" using m by simp
    with less.prems(1) m have "m AND (m - 1) = 0"
      by (subst (asm) and_rec) simp
    with less.IH[of m] \<open>m > 0\<close> m obtain k where "m = 2 ^ k" by auto
    with m have "n = 2 ^ Suc k" by simp
    then show ?thesis by blast
  next
    case False
    then obtain m where m: "n = Suc (2 * m)" by (auto elim: oddE)
    with less.prems(1) have "m = 0"
      by (subst (asm) and_rec) simp
    with m have "n = 2 ^ 0" by simp
    then show ?thesis by blast
  qed
qed

lemma power2_test:
  assumes "s \<noteq> 0" "s AND (s - 1) = (0::U32)"
  shows "\<exists>k. unat (s - 1) = 2 ^ k - 1" "unat s = Suc (unat (s - 1))"
proof -
  from assms(1) have p: "unat s > 0" "unat (s - 1) = unat s - 1"
    by (simp_all add: unat_gt_0 unat_minus_one)
  have "unat s AND (unat s - 1) = unat (s AND (s - 1))"
    using p(2) by (simp add: unsigned_and_eq)
  with assms(2) have "unat s AND (unat s - 1) = 0" by simp
  from power2_test_nat[OF this p(1)] p show "\<exists>k. unat (s - 1) = 2 ^ k - 1" "unat s = Suc (unat (s - 1))"
    by auto
qed

section \<open>Lists\<close>

lemma distinct_map_inj: "inj f \<Longrightarrow> distinct (map f xs) = distinct xs"
  by (simp add: distinct_map) (meson inj_on_subset subset_UNIV)

lemma remove1_idem_id: "x \<notin> set xs \<Longrightarrow> remove1 x xs = xs"
  by (induction xs) auto

lemma nth_update_notin: "\<lbrakk>i \<notin> A; j \<in> A\<rbrakk> \<Longrightarrow> xs[i := x] ! j = xs ! j"
  by (metis nth_list_update_neq)

lemma count_list_distinct: "distinct xs \<Longrightarrow> count_list xs x = (if x \<in> set xs then 1 else 0)"
  by (induction xs) auto

lemma set_diff_remove1: "set xs - {x} \<subseteq> set (remove1 x xs)"
  by (induction xs) auto

lemma remove1_split: "x \<notin> set xs \<Longrightarrow> remove1 x (xs @ x # ys) = xs @ ys"
  by (induction xs) auto

end
