(* ===== verification/Double_List.thy ===== *)
theory Double_List
  imports Pilot_Prelude
begin

text \<open>
  The circular doubly linked list of \<^verbatim>\<open>platform/linux/double_list.h\<close>.  A node lives at an
  address; the store gives for every address the three fields of \<open>DOUBLE_LIST_S\<close>.  The
  macros assign to the fields one after the other, and so do the definitions here: the
  order of the assignments is kept, because the addresses may coincide (inserting into
  an empty list, removing the only node).

  A list head with its nodes is described by \<open>dlist\<close>.  The locale \<open>node_store\<close> is the
  interface that the timer manager uses: what each macro does to the list it works on,
  and that it leaves every list at other addresses alone.
\<close>

section \<open>Nodes and macros\<close>

record ('a, 'd) dheap =
  pPrev :: "'a \<Rightarrow> 'a"
  pNext :: "'a \<Rightarrow> 'a"
  ullData :: "'a \<Rightarrow> 'd"

definition DOUBLE_LIST_INIT :: "'a \<Rightarrow> ('a, 'd) dheap \<Rightarrow> ('a, 'd) dheap" where
  "DOUBLE_LIST_INIT pHead h =
     (let h = h\<lparr>pNext := (pNext h)(pHead := pHead)\<rparr>
      in h\<lparr>pPrev := (pPrev h)(pHead := pHead)\<rparr>)"

definition DOUBLE_LIST_INSERT_HEAD :: "'a \<Rightarrow> 'a \<Rightarrow> ('a, 'd) dheap \<Rightarrow> ('a, 'd) dheap" where
  "DOUBLE_LIST_INSERT_HEAD pHead pNode h =
     (let h = h\<lparr>pNext := (pNext h)(pNode := pNext h pHead)\<rparr>;
          h = h\<lparr>pPrev := (pPrev h)(pNext h pNode := pNode)\<rparr>;
          h = h\<lparr>pPrev := (pPrev h)(pNode := pHead)\<rparr>
      in h\<lparr>pNext := (pNext h)(pHead := pNode)\<rparr>)"

definition DOUBLE_LIST_INSERT_TAIL :: "'a \<Rightarrow> 'a \<Rightarrow> ('a, 'd) dheap \<Rightarrow> ('a, 'd) dheap" where
  "DOUBLE_LIST_INSERT_TAIL pHead pNode h =
     (let h = h\<lparr>pPrev := (pPrev h)(pNode := pPrev h pHead)\<rparr>;
          h = h\<lparr>pNext := (pNext h)(pNode := pHead)\<rparr>;
          h = h\<lparr>pNext := (pNext h)(pPrev h pNode := pNode)\<rparr>
      in h\<lparr>pPrev := (pPrev h)(pHead := pNode)\<rparr>)"

definition DOUBLE_LIST_REMOVE :: "'a \<Rightarrow> ('a, 'd) dheap \<Rightarrow> ('a, 'd) dheap" where
  "DOUBLE_LIST_REMOVE pNode h =
     (let h = h\<lparr>pPrev := (pPrev h)(pNext h pNode := pPrev h pNode)\<rparr>
      in h\<lparr>pNext := (pNext h)(pPrev h pNode := pNext h pNode)\<rparr>)"

definition DOUBLE_LIST_FIRST :: "'a \<Rightarrow> ('a, 'd) dheap \<Rightarrow> 'a" where
  "DOUBLE_LIST_FIRST pHead h = pNext h pHead"

definition DOUBLE_LIST_NEXT :: "'a \<Rightarrow> ('a, 'd) dheap \<Rightarrow> 'a" where
  "DOUBLE_LIST_NEXT pNode h = pNext h pNode"

lemmas double_list_defs =
  DOUBLE_LIST_INIT_def DOUBLE_LIST_INSERT_HEAD_def DOUBLE_LIST_INSERT_TAIL_def
  DOUBLE_LIST_REMOVE_def DOUBLE_LIST_FIRST_def DOUBLE_LIST_NEXT_def Let_def

section \<open>What a list is\<close>

text \<open>\<open>dseg h a xs b\<close>: from \<open>a\<close> the \<open>pNext\<close> links pass through \<open>xs\<close> and reach \<open>b\<close>, and
  the \<open>pPrev\<close> links lead back.\<close>

fun dseg :: "('a, 'd) dheap \<Rightarrow> 'a \<Rightarrow> 'a list \<Rightarrow> 'a \<Rightarrow> bool" where
  "dseg h a [] b = (pNext h a = b \<and> pPrev h b = a)"
| "dseg h a (x # xs) b = (pNext h a = x \<and> pPrev h x = a \<and> dseg h x xs b)"

definition dlist :: "('a, 'd) dheap \<Rightarrow> 'a \<Rightarrow> 'a list \<Rightarrow> bool" where
  "dlist h pHead xs \<longleftrightarrow> distinct (pHead # xs) \<and> dseg h pHead xs pHead"

lemma dseg_append:
  "dseg h a (xs @ x # ys) b \<longleftrightarrow> dseg h a xs x \<and> dseg h x ys b"
  by (induction xs arbitrary: a) auto

lemma dseg_cong:
  "\<lbrakk>\<And>y. y \<in> set (a # xs) \<Longrightarrow> pNext h' y = pNext h y;
    \<And>y. y \<in> set (xs @ [b]) \<Longrightarrow> pPrev h' y = pPrev h y\<rbrakk>
   \<Longrightarrow> dseg h' a xs b = dseg h a xs b"
  by (induction xs arbitrary: a) auto

lemma dlist_cong:
  "\<lbrakk>\<And>y. y \<in> set (a # xs) \<Longrightarrow> pNext h' y = pNext h y;
    \<And>y. y \<in> set (a # xs) \<Longrightarrow> pPrev h' y = pPrev h y\<rbrakk>
   \<Longrightarrow> dlist h' a xs = dlist h a xs"
  unfolding dlist_def by (subst dseg_cong[where h = h]) auto

lemma dseg_first: "dseg h a xs b \<Longrightarrow> pNext h a = hd (xs @ [b])"
  by (cases xs) auto

lemma dseg_last: "dseg h a xs b \<Longrightarrow> pPrev h b = last (a # xs)"
  by (induction xs arbitrary: a) auto

lemma dlist_distinct: "dlist h a xs \<Longrightarrow> distinct xs \<and> a \<notin> set xs"
  by (simp add: dlist_def)

section \<open>The macros on lists\<close>

lemma dlist_INIT: "dlist (DOUBLE_LIST_INIT a h) a []"
  by (simp add: dlist_def double_list_defs)

lemma dlist_INSERT_HEAD:
  assumes "dlist h a xs" "n \<notin> set (a # xs)"
  shows "dlist (DOUBLE_LIST_INSERT_HEAD a n h) a (n # xs)"
proof (cases xs)
  case Nil
  with assms show ?thesis by (auto simp: dlist_def double_list_defs)
next
  case (Cons y ys)
  let ?h = "DOUBLE_LIST_INSERT_HEAD a n h"
  from assms Cons have d: "distinct (a # n # y # ys)" and s: "dseg h y ys a" and f: "pNext h a = y"
    by (auto simp: dlist_def)
  have "dseg ?h y ys a = dseg h y ys a"
    using d f by (intro dseg_cong) (auto simp: double_list_defs)
  with s d f Cons show ?thesis by (auto simp: dlist_def double_list_defs)
qed

lemma dlist_INSERT_TAIL:
  assumes "dlist h a xs" "n \<notin> set (a # xs)"
  shows "dlist (DOUBLE_LIST_INSERT_TAIL a n h) a (xs @ [n])"
proof (cases xs rule: rev_cases)
  case Nil
  with assms show ?thesis by (auto simp: dlist_def double_list_defs)
next
  case (snoc ys y)
  let ?h = "DOUBLE_LIST_INSERT_TAIL a n h"
  from assms snoc have d: "distinct (a # n # y # ys)" and s: "dseg h a ys y" and f: "pPrev h a = y"
    by (auto simp: dlist_def dseg_append)
  have "dseg ?h a ys y = dseg h a ys y"
    using d f by (intro dseg_cong) (auto simp: double_list_defs)
  with s d f snoc show ?thesis by (auto simp: dlist_def dseg_append double_list_defs)
qed

lemma dseg_REMOVE:
  assumes "dseg h a xs n" "dseg h n ys b" "distinct (a # xs @ n # ys)" "b \<notin> set (xs @ n # ys)"
  shows "dseg (DOUBLE_LIST_REMOVE n h) a (xs @ ys) b"
  using assms
proof (induction xs arbitrary: a)
  case Nil
  show ?case
  proof (cases ys)
    case Nil
    with \<open>dseg h a [] n\<close> Nil.prems show ?thesis by (auto simp: double_list_defs)
  next
    case (Cons y zs)
    have "dseg (DOUBLE_LIST_REMOVE n h) y zs b = dseg h y zs b"
      using Nil.prems Cons by (intro dseg_cong) (auto simp: double_list_defs)
    with Nil.prems Cons show ?thesis by (auto simp: double_list_defs)
  qed
next
  case (Cons x xs)
  then have "dseg (DOUBLE_LIST_REMOVE n h) x (xs @ ys) b" by auto
  moreover from Cons.prems have "pNext h a = x" "pPrev h x = a" by auto
  moreover have "pPrev h n \<noteq> a" "pNext h n \<noteq> x"
    using Cons.prems dseg_last[of h x xs n] dseg_first[of h n ys b]
    by (auto simp: hd_append split: if_splits) (cases ys; auto)+
  ultimately show ?case by (auto simp: double_list_defs)
qed

lemma dlist_REMOVE:
  assumes "dlist h a (xs @ n # ys)"
  shows "dlist (DOUBLE_LIST_REMOVE n h) a (xs @ ys)"
proof -
  from assms have "dseg h a xs n" "dseg h n ys a" "distinct (a # xs @ n # ys)"
    by (auto simp: dlist_def dseg_append)
  moreover from this have "a \<notin> set (xs @ n # ys)" by auto
  ultimately show ?thesis
    unfolding dlist_def by (auto intro: dseg_REMOVE)
qed

section \<open>Lists at other addresses\<close>

lemma frame_INSERT_HEAD [heap_frame]:
  assumes "dlist h a xs" "set (b # zs) \<inter> set (n # a # xs) = {}"
  shows "dlist (DOUBLE_LIST_INSERT_HEAD a n h) b zs = dlist h b zs"
proof -
  have "pNext h a \<in> set (a # xs)"
    using assms(1) dseg_first[of h a xs a] by (cases xs) (auto simp: dlist_def)
  with assms(2) show ?thesis
    by (intro dlist_cong) (auto simp: double_list_defs)
qed

lemma frame_INSERT_TAIL [heap_frame]:
  assumes "dlist h a xs" "set (b # zs) \<inter> set (n # a # xs) = {}"
  shows "dlist (DOUBLE_LIST_INSERT_TAIL a n h) b zs = dlist h b zs"
proof -
  have "pPrev h a \<in> set (a # xs)"
    using assms(1) dseg_last[of h a xs a] by (auto simp: dlist_def)
  with assms(2) show ?thesis
    by (intro dlist_cong) (auto simp: double_list_defs)
qed

lemma dlist_neighbours:
  assumes "dlist h a (xs @ n # ys)"
  shows "pNext h n = hd (ys @ [a])" "pPrev h n = last (a # xs)"
  using assms dseg_first[of h n ys a] dseg_last[of h a xs n]
  by (auto simp: dlist_def dseg_append)

lemma frame_REMOVE [heap_frame]:
  assumes "dlist h a (xs @ n # ys)" "set (b # zs) \<inter> set (a # xs @ n # ys) = {}"
  shows "dlist (DOUBLE_LIST_REMOVE n h) b zs = dlist h b zs"
proof -
  have "pNext h n \<in> set (a # ys)" "pPrev h n \<in> set (a # xs)"
    using dlist_neighbours[OF assms(1)] by (cases ys; auto)+
  with assms(2) show ?thesis
    by (intro dlist_cong) (auto simp: double_list_defs)
qed

section \<open>The interface the timer manager relies on\<close>

locale node_store =
  fixes lst :: "'h \<Rightarrow> 'a \<Rightarrow> 'a list \<Rightarrow> bool"
    and ins_head :: "'a \<Rightarrow> 'a \<Rightarrow> 'h \<Rightarrow> 'h"
    and ins_tail :: "'a \<Rightarrow> 'a \<Rightarrow> 'h \<Rightarrow> 'h"
    and rem :: "'a \<Rightarrow> 'h \<Rightarrow> 'h"
    and first :: "'a \<Rightarrow> 'h \<Rightarrow> 'a"
    and next_of :: "'a \<Rightarrow> 'h \<Rightarrow> 'a"
  assumes lst_distinct: "lst h a xs \<Longrightarrow> distinct (a # xs)"
    and lst_ins_head: "\<lbrakk>lst h a xs; n \<notin> set (a # xs)\<rbrakk> \<Longrightarrow> lst (ins_head a n h) a (n # xs)"
    and lst_ins_tail: "\<lbrakk>lst h a xs; n \<notin> set (a # xs)\<rbrakk> \<Longrightarrow> lst (ins_tail a n h) a (xs @ [n])"
    and lst_rem: "lst h a (xs @ n # ys) \<Longrightarrow> lst (rem n h) a (xs @ ys)"
    and lst_first: "lst h a xs \<Longrightarrow> first a h = hd (xs @ [a])"
    and lst_next: "lst h a (xs @ n # ys) \<Longrightarrow> next_of n h = hd (ys @ [a])"
    and other_ins_head:
      "\<lbrakk>lst h a xs; set (b # zs) \<inter> set (n # a # xs) = {}\<rbrakk> \<Longrightarrow> lst (ins_head a n h) b zs = lst h b zs"
    and other_ins_tail:
      "\<lbrakk>lst h a xs; set (b # zs) \<inter> set (n # a # xs) = {}\<rbrakk> \<Longrightarrow> lst (ins_tail a n h) b zs = lst h b zs"
    and other_rem:
      "\<lbrakk>lst h a (xs @ n # ys); set (b # zs) \<inter> set (a # xs @ n # ys) = {}\<rbrakk> \<Longrightarrow> lst (rem n h) b zs = lst h b zs"
begin

text \<open>Moving a node from one list to the front of another, and to the end of another or of
  the same list: the three combinations the timer manager performs.\<close>

lemma move_head:
  assumes "lst h a (xs @ n # ys)" "lst h b zs" "set (b # zs) \<inter> set (a # xs @ n # ys) = {}"
  shows "lst (ins_head b n (rem n h)) a (xs @ ys)" "lst (ins_head b n (rem n h)) b (n # zs)"
proof -
  from assms have a: "lst (rem n h) a (xs @ ys)" and b: "lst (rem n h) b zs"
    by (simp_all add: lst_rem other_rem)
  have "set (a # xs @ ys) \<inter> set (n # b # zs) = {}" "n \<notin> set (b # zs)"
    using assms lst_distinct[OF assms(1)] by auto
  with a b show "lst (ins_head b n (rem n h)) a (xs @ ys)"
    "lst (ins_head b n (rem n h)) b (n # zs)"
    by (simp_all add: other_ins_head lst_ins_head)
qed

lemma move_tail:
  assumes "lst h a (xs @ n # ys)" "lst h b zs" "set (b # zs) \<inter> set (a # xs @ n # ys) = {}"
  shows "lst (ins_tail b n (rem n h)) a (xs @ ys)" "lst (ins_tail b n (rem n h)) b (zs @ [n])"
proof -
  from assms have a: "lst (rem n h) a (xs @ ys)" and b: "lst (rem n h) b zs"
    by (simp_all add: lst_rem other_rem)
  have "set (a # xs @ ys) \<inter> set (n # b # zs) = {}" "n \<notin> set (b # zs)"
    using assms lst_distinct[OF assms(1)] by auto
  with a b show "lst (ins_tail b n (rem n h)) a (xs @ ys)"
    "lst (ins_tail b n (rem n h)) b (zs @ [n])"
    by (simp_all add: other_ins_tail lst_ins_tail)
qed

lemma requeue_tail:
  assumes "lst h a (xs @ n # ys)"
  shows "lst (ins_tail a n (rem n h)) a (xs @ ys @ [n])"
proof -
  from lst_distinct[OF assms] have "n \<notin> set (a # xs @ ys)" by auto
  with lst_ins_tail[OF lst_rem[OF assms]] show ?thesis by simp
qed

lemma move_other:
  assumes "lst h a (xs @ n # ys)" "lst h b zs" "set (c # ws) \<inter> set (a # xs @ n # ys) = {}"
    "set (c # ws) \<inter> set (b # zs) = {}" "set (b # zs) \<inter> set (a # xs @ n # ys) = {}"
  shows "lst (ins_head b n (rem n h)) c ws = lst h c ws"
    "lst (ins_tail b n (rem n h)) c ws = lst h c ws"
proof -
  from assms have b: "lst (rem n h) b zs" by (simp add: other_rem)
  have d: "set (c # ws) \<inter> set (n # b # zs) = {}"
    using assms by auto
  have "lst (rem n h) c ws = lst h c ws" using assms by (intro other_rem)
  with other_ins_head[OF b d] other_ins_tail[OF b d]
  show "lst (ins_head b n (rem n h)) c ws = lst h c ws"
    "lst (ins_tail b n (rem n h)) c ws = lst h c ws" by simp_all
qed

lemma requeue_other:
  assumes "lst h a (xs @ n # ys)" "set (c # ws) \<inter> set (a # xs @ n # ys) = {}"
  shows "lst (ins_tail a n (rem n h)) c ws = lst h c ws"
proof -
  have "set (c # ws) \<inter> set (n # a # xs @ ys) = {}"
    using assms by auto
  with other_ins_tail[OF lst_rem[OF assms(1)] this] other_rem[OF assms]
  show ?thesis by simp
qed

end

interpretation dl: node_store dlist DOUBLE_LIST_INSERT_HEAD DOUBLE_LIST_INSERT_TAIL
  DOUBLE_LIST_REMOVE DOUBLE_LIST_FIRST DOUBLE_LIST_NEXT
proof
  fix h :: "('a, 'd) dheap" and a xs
  assume "dlist h a xs"
  then show "DOUBLE_LIST_FIRST a h = hd (xs @ [a])"
    by (simp add: DOUBLE_LIST_FIRST_def dlist_def dseg_first)
qed (simp_all add: dlist_INSERT_HEAD dlist_INSERT_TAIL dlist_REMOVE frame_INSERT_HEAD
    frame_INSERT_TAIL frame_REMOVE dlist_neighbours DOUBLE_LIST_NEXT_def dlist_distinct)

end
