(* ===== verification/Timer_Manager.thy ===== *)
theory Timer_Manager
  imports Double_List
begin

text \<open>
  The timer manager of \<^verbatim>\<open>platform/linux/pf_timer_manager.cpp\<close>.

  The timer array, the two timer lists (free and allocated) and the hash table of active
  lists are kept as the code keeps them: an array of timer units and circular lists
  threaded through a node store (theory \<open>Double_List\<close>), whose addresses are the two list
  heads, the heads of the hash buckets and the two nodes of each timer unit.  The field
  \<open>ullData\<close> of a node is the index of the timer unit that the code points it to.

  The expiry message leaves through \<open>pf_copy_try_msg\<close>; here that is the argument \<open>send\<close>,
  which takes the target module, the message and the state of the receivers and tells
  whether the message was taken.  The theory \<open>Timer_Service\<close> instantiates it with the
  mailboxes.

  \<open>tm_inv\<close> relates the pointer structure to three plain lists; each operation is shown to
  act on these lists as a list operation, and the properties follow from that.
\<close>

section \<open>Data\<close>

datatype PF_TIMER_RETURN_VALUE_E =
  PF_TIMER_SUCCESS | PF_TIMER_FAIL | PF_TIMER_PARAM_ERROR | PF_TIMER_NOT_EXIST
| PF_TIMER_NOT_PERMIT | PF_TIMER_NO_RESOURCE | PF_TIMER_OUT_OF_SERVICE

datatype tm_addr = NullNode | FreeHead | AllocHead | HashHead nat | TNode nat | THash nat

record timer_expire_msg =
  ulTimerId :: U32
  ulTypeId :: U32
  ullPara :: U64

record timer_unit =
  u32Duration :: U32
  u32AbsExpTick :: U32
  u8Running :: U8
  u8Cycle :: U8
  u32ModuleId :: U32
  stTmExpMsg :: timer_expire_msg

type_synonym tm_heap = "(tm_addr, nat) dheap"

record timer_manager =
  u32TickInterval :: U32
  u32CurrentTick :: U32
  u32TimerArraySize :: U32
  pstTimerArray :: "timer_unit list"
  u32HashTblLastIdx :: U32
  tmNodes :: tm_heap
  u32TimerCount :: U32
  u32TimerCountHistory :: U32
  u32TimerMsgFailCount :: U32

type_synonym 'e sender = "U32 \<Rightarrow> timer_expire_msg \<Rightarrow> 'e \<Rightarrow> bool \<times> 'e"

definition PF_TIMER_ARRAY_INDEX_BIT_LEN :: nat where
  "PF_TIMER_ARRAY_INDEX_BIT_LEN = 14"

definition PF_TIMER_ARRAY_INDEX_MASK :: U32 where
  "PF_TIMER_ARRAY_INDEX_MASK = push_bit PF_TIMER_ARRAY_INDEX_BIT_LEN 1 - 1"

definition PF_TIMER_ARRAY_MAX_SIZE :: U32 where
  "PF_TIMER_ARRAY_MAX_SIZE = PF_TIMER_ARRAY_INDEX_MASK"

definition PF_INVALID_TIMER_ID :: U32 where
  "PF_INVALID_TIMER_ID = 0xFFFFFFFF"

definition LIST_NODE_TO_TIMER :: "tm_addr \<Rightarrow> tm_heap \<Rightarrow> nat" where
  "LIST_NODE_TO_TIMER pnode h = ullData h pnode"

definition zero_unit :: timer_unit where
  "zero_unit = \<lparr>u32Duration = 0, u32AbsExpTick = 0, u8Running = 0, u8Cycle = 0, u32ModuleId = 0,
     stTmExpMsg = \<lparr>ulTimerId = 0, ulTypeId = 0, ullPara = 0\<rparr>\<rparr>"

abbreviation nodes_upd :: "(tm_heap \<Rightarrow> tm_heap) \<Rightarrow> timer_manager \<Rightarrow> timer_manager" where
  "nodes_upd f t \<equiv> t\<lparr>tmNodes := f (tmNodes t)\<rparr>"

abbreviation unit_upd :: "nat \<Rightarrow> (timer_unit \<Rightarrow> timer_unit) \<Rightarrow> timer_manager \<Rightarrow> timer_manager" where
  "unit_upd i f t \<equiv> t\<lparr>pstTimerArray := (pstTimerArray t)[i := f (pstTimerArray t ! i)]\<rparr>"

section \<open>Internal operations\<close>

definition tm_alloc_timer ::
  "timer_manager \<Rightarrow> PF_TIMER_RETURN_VALUE_E \<times> nat option \<times> timer_manager" where
  "tm_alloc_timer t =
     (let pstNode = DOUBLE_LIST_FIRST FreeHead (tmNodes t) in
      if pstNode = FreeHead then (PF_TIMER_NO_RESOURCE, None, t)
      else
        let t = t\<lparr>u32TimerCount := u32TimerCount t + 1\<rparr>;
            pstTimer = LIST_NODE_TO_TIMER pstNode (tmNodes t);
            t = nodes_upd (DOUBLE_LIST_REMOVE pstNode) t;
            t = nodes_upd (DOUBLE_LIST_INSERT_HEAD AllocHead pstNode) t
        in (PF_TIMER_SUCCESS, Some pstTimer, t))"

definition tm_delete_timer :: "nat \<Rightarrow> timer_manager \<Rightarrow> timer_manager" where
  "tm_delete_timer i t =
     (let t = unit_upd i (u8Running_update (\<lambda>_. C_FALSE)) t;
          t = nodes_upd (DOUBLE_LIST_REMOVE (TNode i)) t;
          t = nodes_upd (DOUBLE_LIST_INSERT_HEAD FreeHead (TNode i)) t
      in t\<lparr>u32TimerCount := u32TimerCount t - 1\<rparr>)"

definition tm_bucket :: "timer_manager \<Rightarrow> U32 \<Rightarrow> nat" where
  "tm_bucket t tick = unat (tick AND u32HashTblLastIdx t)"

definition tm_insert_timer :: "nat \<Rightarrow> timer_manager \<Rightarrow> timer_manager" where
  "tm_insert_timer i t =
     (let u32Index = tm_bucket t (u32AbsExpTick (pstTimerArray t ! i))
      in nodes_upd (DOUBLE_LIST_INSERT_TAIL (HashHead u32Index) (THash i)) t)"

definition tm_remove_timer :: "nat \<Rightarrow> timer_manager \<Rightarrow> timer_manager" where
  "tm_remove_timer i t = nodes_upd (DOUBLE_LIST_REMOVE (THash i)) t"

definition tm_expire_timer :: "'e sender \<Rightarrow> nat \<Rightarrow> timer_manager \<times> 'e \<Rightarrow> timer_manager \<times> 'e" where
  "tm_expire_timer send i s =
     (let (t, e) = s;
          t = tm_remove_timer i t;
          u = pstTimerArray t ! i;
          (ok, e) = send (u32ModuleId u) (stTmExpMsg u) e
      in if \<not> ok then
           let t = unit_upd i (u32AbsExpTick_update (\<lambda>_. u32CurrentTick t + 1)) t;
               t = tm_insert_timer i t
           in (t\<lparr>u32TimerMsgFailCount := u32TimerMsgFailCount t + 1\<rparr>, e)
         else if u8Cycle u = C_FALSE then (tm_delete_timer i t, e)
         else
           let t = unit_upd i (u32AbsExpTick_update (\<lambda>_. u32CurrentTick t + u32Duration u)) t
           in (tm_insert_timer i t, e))"

section \<open>Initialisation\<close>

text \<open>\<open>memset\<close> to zero of the nodes inside the timer units, and the loop that fills the
  free list.\<close>

definition tm_clear_nodes :: "nat \<Rightarrow> tm_heap \<Rightarrow> tm_heap" where
  "tm_clear_nodes n h =
     (let inside = (\<lambda>a. case a of TNode i \<Rightarrow> i < n | THash i \<Rightarrow> i < n | _ \<Rightarrow> False)
      in \<lparr>pPrev = (\<lambda>a. if inside a then NullNode else pPrev h a),
          pNext = (\<lambda>a. if inside a then NullNode else pNext h a),
          ullData = (\<lambda>a. if inside a then 0 else ullData h a)\<rparr>)"

definition tm_init_unit :: "nat \<Rightarrow> timer_manager \<Rightarrow> timer_manager" where
  "tm_init_unit i t =
     (let t = nodes_upd (\<lambda>h. h\<lparr>ullData := (ullData h)(TNode i := i)\<rparr>) t;
          t = nodes_upd (\<lambda>h. h\<lparr>ullData := (ullData h)(THash i := i)\<rparr>) t;
          t = unit_upd i (\<lambda>u. u\<lparr>stTmExpMsg :=
                (stTmExpMsg u)\<lparr>ulTimerId := of_nat i AND PF_TIMER_ARRAY_INDEX_MASK\<rparr>\<rparr>) t
      in nodes_upd (DOUBLE_LIST_INSERT_HEAD FreeHead (TNode i)) t)"

text \<open>The flags \<open>arr_ok\<close> and \<open>tbl_ok\<close> tell whether the two \<open>pf_malloc\<close> calls succeed;
  \<open>None\<close> is the null pointer.\<close>

definition tm_init_timer_manager ::
  "bool \<Rightarrow> bool \<Rightarrow> timer_manager option \<Rightarrow> U32 \<Rightarrow> U32 \<Rightarrow> U32
   \<Rightarrow> PF_TIMER_RETURN_VALUE_E \<times> timer_manager option" where
  "tm_init_timer_manager arr_ok tbl_ok pstTMGR u32MaxTimerNum u32HashTableSize u32TickIntervl =
     (case pstTMGR of
        None \<Rightarrow> (PF_TIMER_PARAM_ERROR, None)
      | Some t \<Rightarrow>
        if u32MaxTimerNum > PF_TIMER_ARRAY_MAX_SIZE then (PF_TIMER_PARAM_ERROR, Some t)
        else if u32HashTableSize = 0 \<or> (u32HashTableSize AND (u32HashTableSize - 1)) \<noteq> 0
        then (PF_TIMER_PARAM_ERROR, Some t)
        else if u32TickIntervl \<noteq> 1 \<and> u32TickIntervl \<noteq> 10 then (PF_TIMER_PARAM_ERROR, Some t)
        else
          let t = t\<lparr>u32TickInterval := u32TickIntervl, u32CurrentTick := 0, u32TimerCount := 0,
                    u32TimerCountHistory := 0, u32TimerMsgFailCount := 0\<rparr>;
              t = nodes_upd (DOUBLE_LIST_INIT FreeHead) t;
              t = nodes_upd (DOUBLE_LIST_INIT AllocHead) t;
              t = t\<lparr>u32TimerArraySize := u32MaxTimerNum\<rparr>
          in if \<not> arr_ok then (PF_TIMER_NO_RESOURCE, Some (t\<lparr>pstTimerArray := []\<rparr>))
             else
               let n = unat u32MaxTimerNum;
                   t = t\<lparr>pstTimerArray := replicate n zero_unit\<rparr>;
                   t = nodes_upd (tm_clear_nodes n) t;
                   t = fold tm_init_unit [0..<n] t;
                   t = t\<lparr>u32HashTblLastIdx := u32HashTableSize - 1\<rparr>
               in if \<not> tbl_ok then (PF_TIMER_NO_RESOURCE, Some (t\<lparr>pstTimerArray := []\<rparr>))
                  else
                    let t = fold (\<lambda>b. nodes_upd (DOUBLE_LIST_INIT (HashHead b)))
                                 [0..<unat u32HashTableSize] t
                    in (PF_TIMER_SUCCESS, Some t))"

definition tm_uninit_timer_manager :: "timer_manager \<Rightarrow> timer_manager" where
  "tm_uninit_timer_manager t = t\<lparr>pstTimerArray := []\<rparr>"

section \<open>Operations\<close>

definition tm_set_timer ::
  "U32 \<Rightarrow> U32 \<Rightarrow> U32 \<Rightarrow> U64 \<Rightarrow> U8 \<Rightarrow> timer_manager
   \<Rightarrow> PF_TIMER_RETURN_VALUE_E \<times> U32 option \<times> timer_manager" where
  "tm_set_timer moduleId duration typeId para cycle t =
     (case tm_alloc_timer t of
        (PF_TIMER_SUCCESS, Some i, t) \<Rightarrow>
          let t = unit_upd i (\<lambda>u. u\<lparr>u32AbsExpTick := u32CurrentTick t + duration,
                                    u32Duration := duration,
                                    u8Running := C_TRUE, u8Cycle := cycle,
                                    u32ModuleId := moduleId\<rparr>) t;
              t = t\<lparr>u32TimerCountHistory := u32TimerCountHistory t + 1\<rparr>;
              timerId = (ulTimerId (stTmExpMsg (pstTimerArray t ! i)) AND PF_TIMER_ARRAY_INDEX_MASK)
                        OR push_bit PF_TIMER_ARRAY_INDEX_BIT_LEN (u32TimerCountHistory t);
              t = unit_upd i (\<lambda>u. u\<lparr>stTmExpMsg := (stTmExpMsg u)\<lparr>ulTimerId := timerId\<rparr>\<rparr>) t;
              t = unit_upd i (\<lambda>u. u\<lparr>stTmExpMsg :=
                    (stTmExpMsg u)\<lparr>ullPara := para, ulTypeId := typeId\<rparr>\<rparr>) t
          in (PF_TIMER_SUCCESS, Some timerId, tm_insert_timer i t)
      | (_, _, t) \<Rightarrow> (PF_TIMER_NO_RESOURCE, None, t))"

text \<open>The checks with which kill, query and restart begin.\<close>

definition tm_lookup :: "U32 \<Rightarrow> U32 \<Rightarrow> timer_manager \<Rightarrow> PF_TIMER_RETURN_VALUE_E" where
  "tm_lookup timerId moduleId t =
     (let u32Index = timerId AND PF_TIMER_ARRAY_INDEX_MASK in
      if u32Index \<ge> u32TimerArraySize t then PF_TIMER_PARAM_ERROR
      else
        let u = pstTimerArray t ! unat u32Index in
        if ulTimerId (stTmExpMsg u) \<noteq> timerId \<or> u8Running u \<noteq> C_TRUE then PF_TIMER_NOT_EXIST
        else if u32ModuleId u \<noteq> moduleId then PF_TIMER_NOT_PERMIT
        else PF_TIMER_SUCCESS)"

definition tm_kill_timer ::
  "U32 \<Rightarrow> U32 \<Rightarrow> timer_manager \<Rightarrow> PF_TIMER_RETURN_VALUE_E \<times> timer_manager" where
  "tm_kill_timer timerId moduleId t =
     (case tm_lookup timerId moduleId t of
        PF_TIMER_SUCCESS \<Rightarrow>
          let i = unat (timerId AND PF_TIMER_ARRAY_INDEX_MASK)
          in (PF_TIMER_SUCCESS, tm_delete_timer i (tm_remove_timer i t))
      | r \<Rightarrow> (r, t))"

definition tm_is_set_timer :: "U32 \<Rightarrow> U32 \<Rightarrow> timer_manager \<Rightarrow> PF_TIMER_RETURN_VALUE_E" where
  "tm_is_set_timer timerId moduleId t = tm_lookup timerId moduleId t"

definition tm_restart_timer ::
  "U32 \<Rightarrow> U32 \<Rightarrow> timer_manager \<Rightarrow> PF_TIMER_RETURN_VALUE_E \<times> timer_manager" where
  "tm_restart_timer timerId moduleId t =
     (case tm_lookup timerId moduleId t of
        PF_TIMER_SUCCESS \<Rightarrow>
          let i = unat (timerId AND PF_TIMER_ARRAY_INDEX_MASK);
              t = tm_remove_timer i t;
              t = unit_upd i (\<lambda>u. u\<lparr>u32AbsExpTick := u32CurrentTick t + u32Duration u\<rparr>) t
          in (PF_TIMER_SUCCESS, tm_insert_timer i t)
      | r \<Rightarrow> (r, t))"

text \<open>The loop of \<open>tm_tick\<close> follows the links of the bucket while the body changes them; that
  it ends is a theorem below, not part of the definition.\<close>

partial_function (option) tm_tick_loop ::
  "'e sender \<Rightarrow> U32 \<Rightarrow> tm_addr \<Rightarrow> tm_addr \<Rightarrow> timer_manager \<times> 'e \<Rightarrow> (timer_manager \<times> 'e) option" where
  "tm_tick_loop send u32CurTick pstListHead pstHashNode s =
     (if pstHashNode = pstListHead then Some s
      else
        let i = LIST_NODE_TO_TIMER pstHashNode (tmNodes (fst s));
            pstNext = DOUBLE_LIST_NEXT pstHashNode (tmNodes (fst s))
        in if u32AbsExpTick (pstTimerArray (fst s) ! i) = u32CurTick
           then tm_tick_loop send u32CurTick pstListHead pstNext (tm_expire_timer send i s)
           else tm_tick_loop send u32CurTick pstListHead pstNext s)"

definition tm_tick :: "'e sender \<Rightarrow> timer_manager \<Rightarrow> 'e \<Rightarrow> (timer_manager \<times> 'e) option" where
  "tm_tick send t e =
     (let u32CurTick = u32CurrentTick t + 1;
          t = t\<lparr>u32CurrentTick := u32CurTick\<rparr>;
          pstListHead = HashHead (tm_bucket t u32CurTick);
          pstHashNode = DOUBLE_LIST_FIRST pstListHead (tmNodes t)
      in tm_tick_loop send u32CurTick pstListHead pstHashNode (t, e))"

definition tm_get_timer_count :: "timer_manager \<Rightarrow> U32" where
  "tm_get_timer_count t = u32TimerCount t"

text \<open>The three counting loops of \<open>tm_get_status\<close>.  The first two go on after they found too
  many nodes, the third stops.\<close>

partial_function (option) tm_count_list ::
  "timer_manager \<Rightarrow> tm_addr \<Rightarrow> tm_addr \<Rightarrow> U32 \<Rightarrow> PF_TIMER_RETURN_VALUE_E
   \<Rightarrow> (U32 \<times> PF_TIMER_RETURN_VALUE_E) option" where
  "tm_count_list t pHead pstNode count rslt =
     (if pstNode = pHead then Some (count, rslt)
      else tm_count_list t pHead (DOUBLE_LIST_NEXT pstNode (tmNodes t)) (count + 1)
             (if count + 1 > u32TimerArraySize t then PF_TIMER_FAIL else rslt))"

partial_function (option) tm_count_bucket ::
  "timer_manager \<Rightarrow> tm_addr \<Rightarrow> tm_addr \<Rightarrow> U32 \<Rightarrow> PF_TIMER_RETURN_VALUE_E
   \<Rightarrow> (U32 \<times> PF_TIMER_RETURN_VALUE_E) option" where
  "tm_count_bucket t pHead pstNode count rslt =
     (if pstNode = pHead then Some (count, rslt)
      else if count + 1 > u32TimerArraySize t then Some (count + 1, PF_TIMER_FAIL)
      else tm_count_bucket t pHead (DOUBLE_LIST_NEXT pstNode (tmNodes t)) (count + 1) rslt)"

fun tm_count_table ::
  "timer_manager \<Rightarrow> nat list \<Rightarrow> U32 \<Rightarrow> PF_TIMER_RETURN_VALUE_E
   \<Rightarrow> (U32 \<times> PF_TIMER_RETURN_VALUE_E) option" where
  "tm_count_table t [] count rslt = Some (count, rslt)"
| "tm_count_table t (b # bs) count rslt =
     (case tm_count_bucket t (HashHead b) (DOUBLE_LIST_FIRST (HashHead b) (tmNodes t)) count rslt of
        None \<Rightarrow> None
      | Some (count, rslt) \<Rightarrow>
          if count > u32TimerArraySize t then Some (count, rslt)
          else tm_count_table t bs count rslt)"

definition tm_get_status ::
  "timer_manager \<Rightarrow> (PF_TIMER_RETURN_VALUE_E \<times> U32 \<times> U32 \<times> U32) option" where
  "tm_get_status t =
     (case tm_count_list t FreeHead (DOUBLE_LIST_FIRST FreeHead (tmNodes t)) 0 PF_TIMER_SUCCESS of
        None \<Rightarrow> None
      | Some (freeCount, r) \<Rightarrow>
     (case tm_count_list t AllocHead (DOUBLE_LIST_FIRST AllocHead (tmNodes t)) 0 r of
        None \<Rightarrow> None
      | Some (allocCount, r) \<Rightarrow>
     (case tm_count_table t [0..<Suc (unat (u32HashTblLastIdx t))] 0 r of
        None \<Rightarrow> None
      | Some (hashCount, r) \<Rightarrow>
          let r = if freeCount + allocCount \<noteq> u32TimerArraySize t then PF_TIMER_FAIL else r;
              r = if allocCount \<noteq> hashCount then PF_TIMER_FAIL else r
          in Some (r, freeCount, allocCount, hashCount))))"

section \<open>The invariant\<close>

text \<open>\<open>tm_inv t fs al bs\<close>: the free list holds the units \<open>fs\<close>, the list of allocated units holds
  \<open>al\<close>, and bucket \<open>b\<close> of the hash table holds \<open>bs b\<close>.  Every unit is in exactly one of the
  first two lists; an allocated unit is running and is in the bucket of its expiry tick, and
  in no other; the low bits of a unit's timer id are its index.\<close>

definition tm_lists :: "timer_manager \<Rightarrow> nat list \<Rightarrow> nat list \<Rightarrow> (nat \<Rightarrow> nat list) \<Rightarrow> bool" where
  "tm_lists t fs al bs \<longleftrightarrow>
     dlist (tmNodes t) FreeHead (map TNode fs) \<and>
     dlist (tmNodes t) AllocHead (map TNode al) \<and>
     (\<forall>b \<le> unat (u32HashTblLastIdx t). dlist (tmNodes t) (HashHead b) (map THash (bs b))) \<and>
     (\<forall>i < length (pstTimerArray t). ullData (tmNodes t) (TNode i) = i \<and> ullData (tmNodes t) (THash i) = i) \<and>
     distinct (fs @ al) \<and>
     (\<forall>b \<le> unat (u32HashTblLastIdx t). \<forall>c \<le> unat (u32HashTblLastIdx t).
        b \<noteq> c \<longrightarrow> set (bs b) \<inter> set (bs c) = {})"

definition tm_array :: "timer_manager \<Rightarrow> bool" where
  "tm_array t \<longleftrightarrow>
     length (pstTimerArray t) = unat (u32TimerArraySize t) \<and>
     u32TimerArraySize t \<le> PF_TIMER_ARRAY_MAX_SIZE \<and>
     (\<exists>k. unat (u32HashTblLastIdx t) = 2 ^ k - 1) \<and>
     (\<forall>i < length (pstTimerArray t).
        ulTimerId (stTmExpMsg (pstTimerArray t ! i)) AND PF_TIMER_ARRAY_INDEX_MASK = of_nat i)"

definition tm_places :: "timer_manager \<Rightarrow> nat list \<Rightarrow> nat list \<Rightarrow> (nat \<Rightarrow> nat list) \<Rightarrow> bool" where
  "tm_places t fs al bs \<longleftrightarrow>
     set (fs @ al) = {..<length (pstTimerArray t)} \<and>
     (\<forall>i < length (pstTimerArray t).
        u8Running (pstTimerArray t ! i) = (if i \<in> set al then C_TRUE else C_FALSE)) \<and>
     (\<forall>b \<le> unat (u32HashTblLastIdx t). \<forall>i.
        i \<in> set (bs b) \<longleftrightarrow> i \<in> set al \<and> tm_bucket t (u32AbsExpTick (pstTimerArray t ! i)) = b) \<and>
     u32TimerCount t = of_nat (length al)"

definition tm_inv :: "timer_manager \<Rightarrow> nat list \<Rightarrow> nat list \<Rightarrow> (nat \<Rightarrow> nat list) \<Rightarrow> bool" where
  "tm_inv t fs al bs \<longleftrightarrow> tm_lists t fs al bs \<and> tm_array t \<and> tm_places t fs al bs"

definition tm_wf :: "timer_manager \<Rightarrow> bool" where
  "tm_wf t \<longleftrightarrow> (\<exists>fs al bs. tm_inv t fs al bs)"

section \<open>The operations on the lists\<close>

lemma ullData_macros [simp]:
  "ullData (DOUBLE_LIST_INIT a h) = ullData h"
  "ullData (DOUBLE_LIST_INSERT_HEAD a n h) = ullData h"
  "ullData (DOUBLE_LIST_INSERT_TAIL a n h) = ullData h"
  "ullData (DOUBLE_LIST_REMOVE n h) = ullData h"
  by (simp_all add: double_list_defs)

lemma tm_bucket_le: "tm_bucket t x \<le> unat (u32HashTblLastIdx t)"
  by (simp add: tm_bucket_def unat_and_mask_le)

lemma lists_alloc:
  assumes "tm_lists t (i # fs) al bs"
  shows "tm_lists (nodes_upd (\<lambda>h. DOUBLE_LIST_INSERT_HEAD AllocHead (TNode i) (DOUBLE_LIST_REMOVE (TNode i) h)) t)
           fs (i # al) bs"
proof -
  let ?h = "tmNodes t"
  from assms have f: "dlist ?h FreeHead (map TNode [] @ TNode i # map TNode fs)"
    and a: "dlist ?h AllocHead (map TNode al)"
    and d: "set (AllocHead # map TNode al) \<inter> set (FreeHead # map TNode [] @ TNode i # map TNode fs) = {}"
    by (auto simp: tm_lists_def)
  note mv = dl.move_head[OF f a d] and ot = dl.move_other(1)[OF f a _ _ d]
  have "dlist (DOUBLE_LIST_INSERT_HEAD AllocHead (TNode i) (DOUBLE_LIST_REMOVE (TNode i) ?h))
          (HashHead b) (map THash zs) = dlist ?h (HashHead b) (map THash zs)" for b zs
    by (rule ot) auto
  with mv assms show ?thesis by (auto simp: tm_lists_def)
qed

lemma lists_delete:
  assumes "tm_lists t fs (xs @ i # ys) bs"
  shows "tm_lists (nodes_upd (\<lambda>h. DOUBLE_LIST_INSERT_HEAD FreeHead (TNode i) (DOUBLE_LIST_REMOVE (TNode i) h)) t)
           (i # fs) (xs @ ys) bs"
proof -
  let ?h = "tmNodes t"
  from assms have a: "dlist ?h AllocHead (map TNode xs @ TNode i # map TNode ys)"
    and f: "dlist ?h FreeHead (map TNode fs)"
    and d: "set (FreeHead # map TNode fs) \<inter> set (AllocHead # map TNode xs @ TNode i # map TNode ys) = {}"
    by (auto simp: tm_lists_def)
  note mv = dl.move_head[OF a f d] and ot = dl.move_other(1)[OF a f _ _ d]
  have "dlist (DOUBLE_LIST_INSERT_HEAD FreeHead (TNode i) (DOUBLE_LIST_REMOVE (TNode i) ?h))
          (HashHead b) (map THash zs) = dlist ?h (HashHead b) (map THash zs)" for b zs
    by (rule ot) auto
  with mv assms show ?thesis by (auto simp: tm_lists_def)
qed

lemma lists_remove:
  assumes "tm_lists t fs al bs" "b \<le> unat (u32HashTblLastIdx t)" "bs b = xs @ i # ys"
  shows "tm_lists (tm_remove_timer i t) fs al (bs(b := xs @ ys))"
proof -
  let ?h = "tmNodes t"
  from assms have l: "dlist ?h (HashHead b) (map THash xs @ THash i # map THash ys)"
    by (auto simp: tm_lists_def)
  have fr: "dlist (DOUBLE_LIST_REMOVE (THash i) ?h) c zs = dlist ?h c zs"
    if "set (c # zs) \<inter> set (HashHead b # map THash xs @ THash i # map THash ys) = {}" for c zs
    by (rule dl.other_rem[OF l that])
  have "dlist (DOUBLE_LIST_REMOVE (THash i) ?h) (HashHead c) (map THash (bs c))"
    if "c \<le> unat (u32HashTblLastIdx t)" "c \<noteq> b" for c
  proof -
    have "set (bs c) \<inter> set (xs @ i # ys) = {}"
      using that assms unfolding tm_lists_def by metis
    then have "set (HashHead c # map THash (bs c)) \<inter> set (HashHead b # map THash xs @ THash i # map THash ys) = {}"
      using that(2) by auto
    from fr[OF this] that(1) assms(1) show ?thesis by (simp add: tm_lists_def)
  qed
  moreover have "dlist (DOUBLE_LIST_REMOVE (THash i) ?h) FreeHead (map TNode fs)"
    "dlist (DOUBLE_LIST_REMOVE (THash i) ?h) AllocHead (map TNode al)"
    using assms(1) by (subst fr; auto simp: tm_lists_def)+
  moreover have "set (xs @ ys) \<subseteq> set (bs b)" using assms(3) by auto
  ultimately show ?thesis
    using dl.lst_rem[OF l] assms(1,2) unfolding tm_lists_def tm_remove_timer_def
    by (auto simp del: fun_upd_apply simp: fun_upd_def) blast+
qed

lemma lists_insert:
  assumes "tm_lists t fs al bs" "b = tm_bucket t (u32AbsExpTick (pstTimerArray t ! i))"
    "\<forall>c \<le> unat (u32HashTblLastIdx t). i \<notin> set (bs c)"
  shows "tm_lists (tm_insert_timer i t) fs al (bs(b := bs b @ [i]))"
proof -
  let ?h = "tmNodes t"
  have b: "b \<le> unat (u32HashTblLastIdx t)" by (simp add: assms(2) tm_bucket_le)
  with assms have l: "dlist ?h (HashHead b) (map THash (bs b))" and n: "THash i \<notin> set (HashHead b # map THash (bs b))"
    by (auto simp: tm_lists_def)
  have fr: "dlist (DOUBLE_LIST_INSERT_TAIL (HashHead b) (THash i) ?h) c zs = dlist ?h c zs"
    if "set (c # zs) \<inter> set (THash i # HashHead b # map THash (bs b)) = {}" for c zs
    by (rule dl.other_ins_tail[OF l that])
  have "dlist (DOUBLE_LIST_INSERT_TAIL (HashHead b) (THash i) ?h) (HashHead c) (map THash (bs c))"
    if "c \<le> unat (u32HashTblLastIdx t)" "c \<noteq> b" for c
  proof -
    have "set (bs c) \<inter> set (bs b) = {}"
      using that assms(1) b unfolding tm_lists_def by metis
    then have "set (HashHead c # map THash (bs c)) \<inter> set (THash i # HashHead b # map THash (bs b)) = {}"
      using that assms(3) by auto
    from fr[OF this] that(1) assms(1) show ?thesis by (simp add: tm_lists_def)
  qed
  moreover have "dlist (DOUBLE_LIST_INSERT_TAIL (HashHead b) (THash i) ?h) FreeHead (map TNode fs)"
    "dlist (DOUBLE_LIST_INSERT_TAIL (HashHead b) (THash i) ?h) AllocHead (map TNode al)"
    using assms(1) by (subst fr; auto simp: tm_lists_def)+
  ultimately show ?thesis
    using dl.lst_ins_tail[OF l n] assms(1,3) b
    unfolding tm_lists_def tm_insert_timer_def assms(2)[symmetric] Let_def
    by (auto simp del: fun_upd_apply simp: fun_upd_def)
qed

section \<open>Timer identifiers\<close>

lemma index_mask: "PF_TIMER_ARRAY_INDEX_MASK = mask PF_TIMER_ARRAY_INDEX_BIT_LEN"
  by (simp add: PF_TIMER_ARRAY_INDEX_MASK_def mask_eq_decr_exp PF_TIMER_ARRAY_INDEX_BIT_LEN_def)

lemma unat_index_mask: "unat PF_TIMER_ARRAY_INDEX_MASK = 2 ^ 14 - 1"
  by (simp add: PF_TIMER_ARRAY_INDEX_MASK_def PF_TIMER_ARRAY_INDEX_BIT_LEN_def)

lemma id_index:
  "((x AND PF_TIMER_ARRAY_INDEX_MASK) OR push_bit PF_TIMER_ARRAY_INDEX_BIT_LEN y)
     AND PF_TIMER_ARRAY_INDEX_MASK = x AND PF_TIMER_ARRAY_INDEX_MASK"
  unfolding index_mask by (rule bit_word_eqI) (auto simp: bit_simps)

lemma id_history:
  "drop_bit PF_TIMER_ARRAY_INDEX_BIT_LEN
     ((x AND PF_TIMER_ARRAY_INDEX_MASK) OR push_bit PF_TIMER_ARRAY_INDEX_BIT_LEN (y::U32))
   = take_bit 18 y"
  unfolding index_mask PF_TIMER_ARRAY_INDEX_BIT_LEN_def
  by (rule bit_word_eqI) (auto simp: bit_simps)

lemma small_index:
  assumes "i < 2 ^ 14"
  shows "(of_nat i :: U32) AND PF_TIMER_ARRAY_INDEX_MASK = of_nat i"
proof (rule word_unat_eq_iff[THEN iffD2])
  show "unat ((of_nat i :: U32) AND PF_TIMER_ARRAY_INDEX_MASK) = unat (of_nat i :: U32)"
    using assms unat_and_low_mask[OF unat_index_mask, of "of_nat i"] by (simp add: unat_of_nat)
qed

lemma slot_index:
  assumes "tm_array t" "i < length (pstTimerArray t)"
  shows "unat (of_nat i :: U32) = i"
    "(of_nat i :: U32) < u32TimerArraySize t"
    "i < 2 ^ 14 - 1"
proof -
  from assms have "i < unat (u32TimerArraySize t)" "unat (u32TimerArraySize t) \<le> 2 ^ 14 - 1"
    using unat_index_mask
    by (simp_all add: tm_array_def PF_TIMER_ARRAY_MAX_SIZE_def word_le_nat_alt)
  then show "i < 2 ^ 14 - 1" "unat (of_nat i :: U32) = i" "(of_nat i :: U32) < u32TimerArraySize t"
    by (simp_all add: unat_of_nat word_less_nat_alt)
qed

lemma slot_of_id:
  assumes "tm_array t" "i < length (pstTimerArray t)"
  shows "unat (ulTimerId (stTmExpMsg (pstTimerArray t ! i)) AND PF_TIMER_ARRAY_INDEX_MASK) = i"
  using assms slot_index[OF assms] by (simp add: tm_array_def)

section \<open>Setting a timer\<close>

lemma tm_lists_cong:
  "\<lbrakk>tmNodes t' = tmNodes t; u32HashTblLastIdx t' = u32HashTblLastIdx t;
    length (pstTimerArray t') = length (pstTimerArray t)\<rbrakk>
   \<Longrightarrow> tm_lists t' fs al bs = tm_lists t fs al bs"
  by (simp add: tm_lists_def)

lemma lists_first_free:
  "tm_lists t fs al bs \<Longrightarrow> DOUBLE_LIST_FIRST FreeHead (tmNodes t) = hd (map TNode fs @ [FreeHead])"
  by (auto simp: tm_lists_def dl.lst_first)

definition tm_fresh_id :: "timer_manager \<Rightarrow> nat \<Rightarrow> U32" where
  "tm_fresh_id t i =
     (ulTimerId (stTmExpMsg (pstTimerArray t ! i)) AND PF_TIMER_ARRAY_INDEX_MASK)
     OR push_bit PF_TIMER_ARRAY_INDEX_BIT_LEN (u32TimerCountHistory t + 1)"

lemma tm_fresh_id_index:
  "tm_fresh_id t i AND PF_TIMER_ARRAY_INDEX_MASK
   = ulTimerId (stTmExpMsg (pstTimerArray t ! i)) AND PF_TIMER_ARRAY_INDEX_MASK"
  unfolding tm_fresh_id_def by (rule id_index)

definition tm_set_unit :: "timer_manager \<Rightarrow> nat \<Rightarrow> U32 \<Rightarrow> U32 \<Rightarrow> U32 \<Rightarrow> U64 \<Rightarrow> U8 \<Rightarrow> timer_unit" where
  "tm_set_unit t i m d ty p c =
     \<lparr>u32Duration = d, u32AbsExpTick = u32CurrentTick t + d, u8Running = C_TRUE, u8Cycle = c,
      u32ModuleId = m,
      stTmExpMsg = \<lparr>ulTimerId = tm_fresh_id t i, ulTypeId = ty, ullPara = p\<rparr>\<rparr>"

lemma tm_set_none:
  "tm_inv t [] al bs \<Longrightarrow> tm_set_timer m d ty p c t = (PF_TIMER_NO_RESOURCE, None, t)"
  using lists_first_free[of t "[]" al bs]
  by (simp add: tm_inv_def tm_set_timer_def tm_alloc_timer_def)

lemma set_unit_eq:
  "(u::timer_unit)\<lparr>u32AbsExpTick := a, u32Duration := d, u8Running := r, u8Cycle := c, u32ModuleId := m,
     stTmExpMsg := (stTmExpMsg u)\<lparr>ulTimerId := x, ullPara := p, ulTypeId := ty\<rparr>\<rparr>
   = \<lparr>u32Duration = d, u32AbsExpTick = a, u8Running = r, u8Cycle = c, u32ModuleId = m,
      stTmExpMsg = \<lparr>ulTimerId = x, ulTypeId = ty, ullPara = p\<rparr>\<rparr>"
  by (cases u; cases "stTmExpMsg u") simp

lemma tm_set_some:
  assumes "tm_inv t (i # fs) al bs"
  obtains t' where "tm_set_timer m d ty p c t = (PF_TIMER_SUCCESS, Some (tm_fresh_id t i), t')"
    "tm_inv t' fs (i # al)
       (bs(tm_bucket t (u32CurrentTick t + d) := bs (tm_bucket t (u32CurrentTick t + d)) @ [i]))"
    "pstTimerArray t' = (pstTimerArray t)[i := tm_set_unit t i m d ty p c]"
    "u32CurrentTick t' = u32CurrentTick t" "u32TimerCountHistory t' = u32TimerCountHistory t + 1"
    "u32TimerArraySize t' = u32TimerArraySize t"
    "u32HashTblLastIdx t' = u32HashTblLastIdx t"
proof -
  let ?u = "tm_set_unit t i m d ty p c" and ?b = "tm_bucket t (u32CurrentTick t + d)"
  let ?h = "DOUBLE_LIST_INSERT_HEAD AllocHead (TNode i) (DOUBLE_LIST_REMOVE (TNode i) (tmNodes t))"
  let ?t1 = "t\<lparr>u32TimerCount := u32TimerCount t + 1, tmNodes := ?h,
               u32TimerCountHistory := u32TimerCountHistory t + 1,
               pstTimerArray := (pstTimerArray t)[i := ?u]\<rparr>"
  let ?t' = "tm_insert_timer i ?t1"
  from assms have L: "tm_lists t (i # fs) al bs" and A: "tm_array t" and P: "tm_places t (i # fs) al bs"
    by (simp_all add: tm_inv_def)
  then have i: "i < length (pstTimerArray t)" "i \<notin> set al" and n: "ullData (tmNodes t) (TNode i) = i"
    by (auto simp: tm_places_def tm_lists_def)
  have eq: "tm_set_timer m d ty p c t = (PF_TIMER_SUCCESS, Some (tm_fresh_id t i), ?t')"
    using i n lists_first_free[OF L]
    by (simp add: tm_set_timer_def tm_alloc_timer_def Let_def LIST_NODE_TO_TIMER_def
        tm_fresh_id_def tm_set_unit_def set_unit_eq)
  have L1: "tm_lists ?t1 fs (i # al) bs"
    using lists_alloc[OF L] by (simp add: tm_lists_def)
  have nb: "\<forall>b \<le> unat (u32HashTblLastIdx t). i \<notin> set (bs b)"
    using P i by (auto simp: tm_places_def)
  have L': "tm_lists ?t' fs (i # al) (bs(?b := bs ?b @ [i]))"
    using lists_insert[OF L1, of ?b i] nb i
    by (simp add: tm_bucket_def tm_set_unit_def)
  have "tm_fresh_id t i AND PF_TIMER_ARRAY_INDEX_MASK = of_nat i"
    using A i(1) by (simp add: tm_fresh_id_index tm_array_def)
  then have A': "tm_array ?t'"
    using A i by (auto simp: tm_array_def tm_insert_timer_def Let_def nth_list_update tm_set_unit_def)
  have "tm_places ?t' fs (i # al) (bs(?b := bs ?b @ [i]))"
    using P i nb L unfolding tm_places_def
    by (auto simp: tm_insert_timer_def Let_def nth_list_update tm_set_unit_def tm_bucket_def
        tm_lists_def)
  with L' A' have "tm_inv ?t' fs (i # al) (bs(?b := bs ?b @ [i]))" by (simp add: tm_inv_def)
  with eq show thesis
    by (rule that) (simp_all add: tm_insert_timer_def Let_def)
qed

section \<open>Removing and requeueing a timer\<close>

lemma tm_inv_irrelevant [timer_simps]:
  "tm_inv (t\<lparr>u32CurrentTick := x\<rparr>) fs al bs = tm_inv t fs al bs"
  "tm_inv (t\<lparr>u32TimerMsgFailCount := y\<rparr>) fs al bs = tm_inv t fs al bs"
  by (simp_all add: tm_inv_def tm_lists_def tm_array_def tm_places_def tm_bucket_def)

lemma tm_bucket_state [timer_simps]:
  "tm_bucket (t\<lparr>u32CurrentTick := x\<rparr>) k = tm_bucket t k"
  "tm_bucket (t\<lparr>pstTimerArray := arr\<rparr>) k = tm_bucket t k"
  "tm_bucket (t\<lparr>tmNodes := h\<rparr>) k = tm_bucket t k"
  by (simp_all add: tm_bucket_def)

lemma tm_inv_slot:
  assumes "tm_inv t fs al bs" "i \<in> set al"
  shows "i < length (pstTimerArray t)" "u8Running (pstTimerArray t ! i) = C_TRUE"
    "i \<in> set (bs (tm_bucket t (u32AbsExpTick (pstTimerArray t ! i))))"
  using assms by (auto simp: tm_inv_def tm_places_def tm_bucket_le)

lemma tm_inv_bucket:
  assumes "tm_inv t fs al bs" "b \<le> unat (u32HashTblLastIdx t)" "i \<in> set (bs b)"
  shows "i \<in> set al" "tm_bucket t (u32AbsExpTick (pstTimerArray t ! i)) = b"
  using assms by (simp_all add: tm_inv_def tm_places_def)

lemma lists_bs_cong:
  assumes "tm_lists t fs al bs" "\<And>b. b \<le> unat (u32HashTblLastIdx t) \<Longrightarrow> bs' b = bs b"
  shows "tm_lists t fs al bs'"
  using assms by (simp add: tm_lists_def)

lemma lists_remove1:
  assumes "tm_inv t fs al bs" "i \<in> set al"
  shows "tm_lists (tm_remove_timer i t) fs al (\<lambda>c. remove1 i (bs c))"
    "\<forall>b \<le> unat (u32HashTblLastIdx t). i \<notin> set ((\<lambda>c. remove1 i (bs c)) b)"
proof -
  let ?b = "tm_bucket t (u32AbsExpTick (pstTimerArray t ! i))"
  from assms have L: "tm_lists t fs al bs" and P: "tm_places t fs al bs"
    by (simp_all add: tm_inv_def)
  from tm_inv_slot(3)[OF assms] obtain xs ys where split: "bs ?b = xs @ i # ys"
    by (auto dest: split_list)
  have dist: "distinct (bs b)" if "b \<le> unat (u32HashTblLastIdx t)" for b
  proof -
    have "distinct (map THash (bs b))"
      using dl.lst_distinct[of "tmNodes t" "HashHead b" "map THash (bs b)"] L that
      by (simp add: tm_lists_def)
    then show ?thesis by (simp add: distinct_map)
  qed
  then show "\<forall>b \<le> unat (u32HashTblLastIdx t). i \<notin> set ((\<lambda>c. remove1 i (bs c)) b)"
    by simp
  have "i \<notin> set xs" using dist[of ?b] split by (simp add: tm_bucket_le)
  then have "(\<lambda>c. remove1 i (bs c)) b = (bs(?b := xs @ ys)) b" if "b \<le> unat (u32HashTblLastIdx t)" for b
    using that P split by (auto simp: tm_places_def remove1_split remove1_idem_id)
  then show "tm_lists (tm_remove_timer i t) fs al (\<lambda>c. remove1 i (bs c))"
    by (intro lists_bs_cong[OF lists_remove[OF L _ split]])
      (simp_all add: tm_bucket_le tm_remove_timer_def)
qed

lemma tm_delete_step:
  assumes "tm_inv t fs al bs" "i \<in> set al"
  defines "t' \<equiv> tm_delete_timer i (tm_remove_timer i t)"
  shows "tm_inv t' (i # fs) (remove1 i al) (\<lambda>c. remove1 i (bs c))"
    "pstTimerArray t' = (pstTimerArray t)[i := (pstTimerArray t ! i)\<lparr>u8Running := C_FALSE\<rparr>]"
    "u32CurrentTick t' = u32CurrentTick t" "u32HashTblLastIdx t' = u32HashTblLastIdx t"
    "u32TimerCountHistory t' = u32TimerCountHistory t" "u32TimerArraySize t' = u32TimerArraySize t"
proof -
  let ?t1 = "unit_upd i (u8Running_update (\<lambda>_. C_FALSE)) (tm_remove_timer i t)"
  from assms(1) have A: "tm_array t" and P: "tm_places t fs al bs" and L: "tm_lists t fs al bs"
    by (simp_all add: tm_inv_def)
  from assms(2) obtain us vs where al: "al = us @ i # vs" "i \<notin> set us"
    by (meson split_list_first)
  then have r: "remove1 i al = us @ vs" by (simp add: remove1_split)
  have L1: "tm_lists ?t1 fs (us @ i # vs) (\<lambda>c. remove1 i (bs c))"
    using lists_remove1(1)[OF assms(1,2)] al by (simp add: tm_lists_def tm_remove_timer_def)
  have "tm_lists t' (i # fs) (remove1 i al) (\<lambda>c. remove1 i (bs c))"
    using lists_delete[OF L1] r
    by (simp add: t'_def tm_delete_timer_def Let_def tm_lists_def)
  moreover have "tm_array t'"
    using A tm_inv_slot(1)[OF assms(1,2)]
    by (auto simp: t'_def tm_array_def tm_delete_timer_def tm_remove_timer_def Let_def nth_list_update)
  moreover have "tm_places t' (i # fs) (remove1 i al) (\<lambda>c. remove1 i (bs c))"
  proof -
    have sets: "set (remove1 i al) = set al - {i}" "length al = Suc (length (remove1 i al))"
      using L al(2) unfolding r unfolding al(1) by (auto simp: tm_lists_def)
    have rb: "j \<in> set (remove1 i (bs b)) \<longleftrightarrow> j \<noteq> i \<and> j \<in> set (bs b)"
      if "b \<le> unat (u32HashTblLastIdx t)" for b j
      using lists_remove1(2)[OF assms(1,2)] that
      by (metis comp_apply in_set_remove1 notin_set_remove1)
    have arr: "pstTimerArray t' ! j = (if j = i then (pstTimerArray t ! i)\<lparr>u8Running := C_FALSE\<rparr> else pstTimerArray t ! j)"
      if "j < length (pstTimerArray t)" for j
      using that by (simp add: t'_def tm_delete_timer_def tm_remove_timer_def Let_def)
    have o: "length (pstTimerArray t') = length (pstTimerArray t)" "tm_bucket t' = tm_bucket t"
      "u32HashTblLastIdx t' = u32HashTblLastIdx t" "u32TimerCount t' = u32TimerCount t - 1"
      by (simp_all add: t'_def tm_delete_timer_def tm_remove_timer_def Let_def tm_bucket_def fun_eq_iff)
    have slots: "j < length (pstTimerArray t)" if "j \<in> set al" for j
      using P that by (auto simp: tm_places_def)
    show ?thesis
      unfolding tm_places_def o
    proof (intro conjI allI impI)
      show "set ((i # fs) @ remove1 i al) = {..<length (pstTimerArray t)}"
        using P assms(2) sets by (auto simp: tm_places_def)
      show "u8Running (pstTimerArray t' ! j) = (if j \<in> set (remove1 i al) then C_TRUE else C_FALSE)"
        if "j < length (pstTimerArray t)" for j
        using P that by (simp add: tm_places_def arr sets)
      show "j \<in> set ((\<lambda>c. remove1 i (bs c)) b) \<longleftrightarrow>
          j \<in> set (remove1 i al) \<and> tm_bucket t (u32AbsExpTick (pstTimerArray t' ! j)) = b"
        if "b \<le> unat (u32HashTblLastIdx t)" for b j
        using P that rb[OF that] slots by (auto simp: tm_places_def arr sets)
      show "u32TimerCount t - 1 = of_nat (length (remove1 i al))"
        using P sets by (simp add: tm_places_def)
    qed
  qed
  ultimately show "tm_inv t' (i # fs) (remove1 i al) (\<lambda>c. remove1 i (bs c))" by (simp add: tm_inv_def)
qed (simp_all add: t'_def tm_delete_timer_def tm_remove_timer_def Let_def)

definition tm_requeue :: "nat \<Rightarrow> U32 \<Rightarrow> timer_manager \<Rightarrow> timer_manager" where
  "tm_requeue i x t =
     tm_insert_timer i (unit_upd i (u32AbsExpTick_update (\<lambda>_. x)) (tm_remove_timer i t))"

lemma tm_requeue_step:
  fixes x :: U32
  assumes "tm_inv t fs al bs" "i \<in> set al"
  defines "t' \<equiv> tm_requeue i x t" and "b \<equiv> tm_bucket t x"
  shows "tm_inv t' fs al ((\<lambda>c. remove1 i (bs c))(b := remove1 i (bs b) @ [i]))"
    "pstTimerArray t' = (pstTimerArray t)[i := (pstTimerArray t ! i)\<lparr>u32AbsExpTick := x\<rparr>]"
    "u32CurrentTick t' = u32CurrentTick t" "u32HashTblLastIdx t' = u32HashTblLastIdx t"
    "u32TimerCountHistory t' = u32TimerCountHistory t" "u32TimerArraySize t' = u32TimerArraySize t"
proof -
  let ?t1 = "unit_upd i (u32AbsExpTick_update (\<lambda>_. x)) (tm_remove_timer i t)"
  note r1 = lists_remove1[OF assms(1,2)] and i = tm_inv_slot[OF assms(1,2)]
  from assms(1) have A: "tm_array t" and P: "tm_places t fs al bs" by (simp_all add: tm_inv_def)
  have L1: "tm_lists ?t1 fs al (\<lambda>c. remove1 i (bs c))"
    using r1(1) by (simp add: tm_lists_def tm_remove_timer_def)
  have b: "b = tm_bucket ?t1 (u32AbsExpTick (pstTimerArray ?t1 ! i))"
    using i(1) by (simp add: b_def tm_bucket_def tm_remove_timer_def)
  have n: "\<forall>c \<le> unat (u32HashTblLastIdx ?t1). i \<notin> set ((\<lambda>c. remove1 i (bs c)) c)"
    using r1(2) by (simp add: tm_remove_timer_def)
  have L: "tm_lists t' fs al ((\<lambda>c. remove1 i (bs c))(b := remove1 i (bs b) @ [i]))"
    using lists_insert[OF L1 b n] by (simp add: t'_def tm_requeue_def)
  moreover have "tm_array t'"
    using A i(1)
    by (auto simp: t'_def tm_requeue_def tm_array_def tm_insert_timer_def tm_remove_timer_def Let_def
        nth_list_update)
  moreover have "tm_places t' fs al ((\<lambda>c. remove1 i (bs c))(b := remove1 i (bs b) @ [i]))"
  proof -
    have rb: "j \<in> set (remove1 i (bs c)) \<longleftrightarrow> j \<noteq> i \<and> j \<in> set (bs c)"
      if "c \<le> unat (u32HashTblLastIdx t)" for c j
      using r1(2) that by (metis comp_apply in_set_remove1 notin_set_remove1)
    have arr: "pstTimerArray t' ! j = (if j = i then (pstTimerArray t ! i)\<lparr>u32AbsExpTick := x\<rparr> else pstTimerArray t ! j)"
      if "j < length (pstTimerArray t)" for j
      using that by (simp add: t'_def tm_requeue_def tm_insert_timer_def tm_remove_timer_def Let_def)
    have o: "length (pstTimerArray t') = length (pstTimerArray t)" "tm_bucket t' = tm_bucket t"
      "u32HashTblLastIdx t' = u32HashTblLastIdx t" "u32TimerCount t' = u32TimerCount t"
      by (simp_all add: t'_def tm_requeue_def tm_insert_timer_def tm_remove_timer_def Let_def
          tm_bucket_def fun_eq_iff)
    have slots: "j < length (pstTimerArray t)" if "j \<in> set al" for j
      using P that by (auto simp: tm_places_def)
    show ?thesis
      unfolding tm_places_def o
    proof (intro conjI allI impI)
      show "u8Running (pstTimerArray t' ! j) = (if j \<in> set al then C_TRUE else C_FALSE)"
        if "j < length (pstTimerArray t)" for j
        using P that by (simp add: tm_places_def arr)
      show "j \<in> set (((\<lambda>c. remove1 i (bs c))(b := remove1 i (bs b) @ [i])) c) \<longleftrightarrow>
          j \<in> set al \<and> tm_bucket t (u32AbsExpTick (pstTimerArray t' ! j)) = c"
        if "c \<le> unat (u32HashTblLastIdx t)" for c j
        using P that rb[OF that] slots assms(2)
        by (cases "j = i") (auto simp: tm_places_def arr b_def)
    qed (use P in \<open>simp_all add: tm_places_def\<close>)
  qed
  ultimately show "tm_inv t' fs al ((\<lambda>c. remove1 i (bs c))(b := remove1 i (bs b) @ [i]))"
    by (simp add: tm_inv_def)
qed (simp_all add: t'_def tm_requeue_def tm_insert_timer_def tm_remove_timer_def Let_def)

section \<open>Expiry and the tick\<close>

text \<open>What an expiry makes of the unit of the timer, given the current tick and whether the
  message was taken.\<close>

definition tm_expired_unit :: "bool \<Rightarrow> U32 \<Rightarrow> timer_unit \<Rightarrow> timer_unit" where
  "tm_expired_unit ok cur u =
     (if \<not> ok then u\<lparr>u32AbsExpTick := cur + 1\<rparr>
      else if u8Cycle u = C_FALSE then u\<lparr>u8Running := C_FALSE\<rparr>
      else u\<lparr>u32AbsExpTick := cur + u32Duration u\<rparr>)"

definition tm_send_to :: "'e sender \<Rightarrow> timer_unit \<Rightarrow> 'e \<Rightarrow> bool \<times> 'e" where
  "tm_send_to send u e = send (u32ModuleId u) (stTmExpMsg u) e"

lemma tm_expire_eq:
  "tm_expire_timer send i (t, e) =
     (let u = pstTimerArray t ! i; (ok, e') = tm_send_to send u e
      in if \<not> ok then
           ((tm_requeue i (u32CurrentTick t + 1) t)\<lparr>u32TimerMsgFailCount := u32TimerMsgFailCount t + 1\<rparr>, e')
         else if u8Cycle u = C_FALSE then (tm_delete_timer i (tm_remove_timer i t), e')
         else (tm_requeue i (u32CurrentTick t + u32Duration u) t, e'))"
  by (simp add: tm_expire_timer_def tm_requeue_def tm_remove_timer_def tm_insert_timer_def
      tm_send_to_def Let_def split: prod.split)

lemma tm_expire_step:
  assumes "tm_inv t fs al bs" "i \<in> set al"
  defines "u \<equiv> pstTimerArray t ! i"
  obtains t' fs' al' bs' where
    "tm_expire_timer send i (t, e) = (t', snd (tm_send_to send u e))"
    "tm_inv t' fs' al' bs'"
    "pstTimerArray t' = (pstTimerArray t)[i := tm_expired_unit (fst (tm_send_to send u e)) (u32CurrentTick t) u]"
    "u32CurrentTick t' = u32CurrentTick t" "u32HashTblLastIdx t' = u32HashTblLastIdx t"
    "\<And>b. bs' b = remove1 i (bs b) \<or> bs' b = remove1 i (bs b) @ [i]"
    "set al - {i} \<subseteq> set al'"
proof -
  obtain ok e' where s: "tm_send_to send u e = (ok, e')" by (cases "tm_send_to send u e")
  have alsub: "set al - {i} \<subseteq> set (remove1 i al)" by (rule set_diff_remove1)
  consider (retry) "\<not> ok" | (once) "ok" "u8Cycle u = C_FALSE" | (cycle) "ok" "u8Cycle u \<noteq> C_FALSE"
    by blast
  then show thesis
  proof cases
    case retry
    note r = tm_requeue_step[OF assms(1,2), of "u32CurrentTick t + 1"]
    show thesis
      by (rule that[OF _ iffD2[OF tm_inv_irrelevant(2) r(1)]])
        (use retry s r in \<open>auto simp: tm_expire_eq u_def tm_expired_unit_def Let_def\<close>)
  next
    case once
    note r = tm_delete_step[OF assms(1,2)]
    show thesis
      by (rule that[OF _ r(1)])
        (use once s r alsub in \<open>auto simp: tm_expire_eq u_def tm_expired_unit_def Let_def\<close>)
  next
    case cycle
    note r = tm_requeue_step[OF assms(1,2), of "u32CurrentTick t + u32Duration u"]
    show thesis
      by (rule that[OF _ r(1)])
        (use cycle s r in \<open>auto simp: tm_expire_eq u_def tm_expired_unit_def Let_def\<close>)
  qed
qed

definition tm_no_zero_cycle :: "timer_manager \<Rightarrow> bool" where
  "tm_no_zero_cycle t \<longleftrightarrow>
     (\<forall>u \<in> set (pstTimerArray t). u8Running u = C_TRUE \<longrightarrow> u8Cycle u \<noteq> C_FALSE \<longrightarrow> u32Duration u \<noteq> 0)"

definition tm_due :: "timer_manager \<Rightarrow> nat \<Rightarrow> bool" where
  "tm_due t i \<longleftrightarrow> u32AbsExpTick (pstTimerArray t ! i) = u32CurrentTick t"

lemma tm_expired_not_due:
  assumes "u8Cycle u \<noteq> C_FALSE \<Longrightarrow> u32Duration u \<noteq> 0" "ok \<longrightarrow> u8Cycle u \<noteq> C_FALSE"
  shows "u32AbsExpTick (tm_expired_unit ok cur u) \<noteq> cur"
  using assms by (auto simp: tm_expired_unit_def)

lemma no_zero_cycle_expired:
  assumes "tm_no_zero_cycle t" "i < length (pstTimerArray t)"
    "pstTimerArray t' = (pstTimerArray t)[i := tm_expired_unit ok cur (pstTimerArray t ! i)]"
  shows "tm_no_zero_cycle t'"
proof -
  have "pstTimerArray t ! i \<in> set (pstTimerArray t)" using assms(2) by simp
  with assms(1,3) show ?thesis
    unfolding tm_no_zero_cycle_def
    by (auto simp: tm_expired_unit_def dest!: subsetD[OF set_update_subset_insert] split: if_splits)
qed

text \<open>The pointer loop visits the nodes that were in the bucket when it started, in their order;
  a timer that an expiry puts back at the end of the same bucket is visited again, but is
  not due.  \<open>rest\<close> is what the loop still has ahead of it.\<close>

lemma tm_tick_loop_eq:
  fixes t :: timer_manager
  assumes "tm_inv t fs al bs" "tm_no_zero_cycle t"
    "b \<le> unat (u32HashTblLastIdx t)" "bs b = pre @ rest @ post" "rest = [] \<or> post = []"
    "u32CurrentTick t = cur"
  shows "tm_tick_loop send cur (HashHead b) (hd (map THash rest @ [HashHead b])) (t, e)
         = Some (fold (tm_expire_timer send) (filter (tm_due t) rest) (t, e))"
  using assms
proof (induction "length rest + length (filter (tm_due t) rest)"
    arbitrary: t fs al bs pre rest post e rule: less_induct)
  case less
  show ?case
  proof (cases rest)
    case Nil
    then show ?thesis by (simp add: tm_tick_loop.simps)
  next
    case (Cons i rest')
    with less.prems have bsb: "bs b = pre @ i # rest'" and cur: "u32CurrentTick t = cur" by auto
    let ?u = "pstTimerArray t ! i" and ?head = "HashHead b"
    from less.prems(1) have L: "tm_lists t fs al bs" by (simp add: tm_inv_def)
    have al: "i \<in> set al"
      using tm_inv_bucket[OF less.prems(1,3), of i] bsb by simp
    note sl = tm_inv_slot[OF less.prems(1) al]
    have dl: "dlist (tmNodes t) ?head (map THash pre @ THash i # map THash rest')"
      using L bsb less.prems(3) by (auto simp: tm_lists_def)
    then have dist: "distinct (pre @ i # rest')"
      using dl.lst_distinct by (fastforce simp: distinct_map)
    have node: "LIST_NODE_TO_TIMER (THash i) (tmNodes t) = i"
      using L sl(1) by (simp add: tm_lists_def LIST_NODE_TO_TIMER_def)
    have nxt: "DOUBLE_LIST_NEXT (THash i) (tmNodes t) = hd (map THash rest' @ [?head])"
      by (rule dl.lst_next[OF dl])
    note step = tm_tick_loop.simps[of send cur ?head "THash i" "(t, e)", simplified fst_conv node nxt Let_def]
    show ?thesis
    proof (cases "tm_due t i")
      case False
      have "length rest' + length (filter (tm_due t) rest') < length rest + length (filter (tm_due t) rest)"
        using Cons False by simp
      from less.hyps[OF this less.prems(1,2,3) _ _ cur, of "pre @ [i]" "[]" e]
      show ?thesis using False bsb Cons cur step by (simp add: tm_due_def)
    next
      case True
      then have due: "u32AbsExpTick ?u = cur" using cur by (simp add: tm_due_def)
      obtain t' fs' al' bs' where ex: "tm_expire_timer send i (t, e) = (t', snd (tm_send_to send ?u e))"
        and inv': "tm_inv t' fs' al' bs'"
        and arr': "pstTimerArray t' = (pstTimerArray t)[i := tm_expired_unit (fst (tm_send_to send ?u e)) (u32CurrentTick t) ?u]"
        and same: "u32CurrentTick t' = u32CurrentTick t" "u32HashTblLastIdx t' = u32HashTblLastIdx t"
        and bs': "bs' b = remove1 i (bs b) \<or> bs' b = remove1 i (bs b) @ [i]"
        by (rule tm_expire_step[OF less.prems(1) al, of send e]) metis
      let ?e = "snd (tm_send_to send ?u e)"
      have nz': "tm_no_zero_cycle t'"
        by (rule no_zero_cycle_expired[OF less.prems(2) sl(1) arr'])
      have rm: "remove1 i (bs b) = pre @ rest'"
        using bsb dist by (simp add: remove1_split)
      have others: "filter (tm_due t') rest' = filter (tm_due t) rest'"
      proof (rule filter_cong)
        fix j assume "j \<in> set rest'"
        with dist have "i \<noteq> j" by auto
        then show "tm_due t' j = tm_due t j" using arr' same by (simp add: tm_due_def)
      qed simp
      have fires: "fold (tm_expire_timer send) (filter (tm_due t) rest) (t, e)
            = fold (tm_expire_timer send) (filter (tm_due t') rest') (t', ?e)"
        using Cons True ex others by simp
      have loop: "tm_tick_loop send cur ?head (hd (map THash rest @ [?head])) (t, e)
            = tm_tick_loop send cur ?head (hd (map THash rest' @ [?head])) (t', ?e)"
        using Cons due ex step by simp
      have "tm_tick_loop send cur ?head (hd (map THash rest' @ [?head])) (t', ?e)
            = Some (fold (tm_expire_timer send) (filter (tm_due t') rest') (t', ?e))"
      proof (cases "rest' = [] \<or> bs' b = pre @ rest'")
        case True
        have m: "length rest' + length (filter (tm_due t') rest') < length rest + length (filter (tm_due t) rest)"
          using Cons others by simp
        from True obtain post' where p: "bs' b = pre @ rest' @ post'" "rest' = [] \<or> post' = []"
          using bs' rm by (metis append.right_neutral append_assoc append_Nil2 append_Nil)
        show ?thesis
          using less.hyps[OF m inv' nz' _ p, of ?e] less.prems(3) same cur by simp
      next
        case False
        then have p: "bs' b = pre @ (rest' @ [i]) @ []" and r: "rest' \<noteq> []"
          using bs' rm by auto
        have "i \<in> set al'"
          using tm_inv_bucket(1)[OF inv', of b i] p less.prems(3) same by simp
        then have run: "u8Running (pstTimerArray t' ! i) = C_TRUE"
          using tm_inv_slot(2)[OF inv'] by simp
        have "?u \<in> set (pstTimerArray t)" using sl(1) by simp
        then have "u8Cycle ?u \<noteq> C_FALSE \<Longrightarrow> u32Duration ?u \<noteq> 0"
          using less.prems(2) sl(2) by (auto simp: tm_no_zero_cycle_def)
        moreover have "fst (tm_send_to send ?u e) \<longrightarrow> u8Cycle ?u \<noteq> C_FALSE"
          using run arr' sl(1) by (auto simp: tm_expired_unit_def split: if_splits)
        ultimately have nd: "\<not> tm_due t' i"
          using tm_expired_not_due arr' sl(1) same by (simp add: tm_due_def)
        have m: "length (rest' @ [i]) + length (filter (tm_due t') (rest' @ [i]))
            < length rest + length (filter (tm_due t) rest)"
          using Cons others nd True by simp
        show ?thesis
          using less.hyps[OF m inv' nz' _ p, of ?e] less.prems(3) same cur r nd
          by (simp add: hd_append)
      qed
      with fires loop show ?thesis by simp
    qed
  qed
qed

text \<open>The receivers' state after the messages of the units \<open>ds\<close>, in this order.\<close>

definition tm_deliver :: "'e sender \<Rightarrow> timer_unit list \<Rightarrow> nat list \<Rightarrow> 'e \<Rightarrow> 'e" where
  "tm_deliver send arr ds e = fold (\<lambda>i e. snd (tm_send_to send (arr ! i) e)) ds e"

text \<open>Whether the message of unit \<open>i\<close> was taken when its turn came.\<close>

definition tm_taken :: "'e sender \<Rightarrow> timer_unit list \<Rightarrow> nat list \<Rightarrow> 'e \<Rightarrow> nat \<Rightarrow> bool" where
  "tm_taken send arr ds e i =
     fst (tm_send_to send (arr ! i) (tm_deliver send arr (takeWhile (\<lambda>j. j \<noteq> i) ds) e))"

lemma tm_deliver_simps [timer_simps]:
  "tm_deliver send arr [] e = e"
  "tm_deliver send arr (d # ds) e = tm_deliver send arr ds (snd (tm_send_to send (arr ! d) e))"
  by (simp_all add: tm_deliver_def)

lemma tm_deliver_cong:
  "(\<And>i. i \<in> set ds \<Longrightarrow> arr' ! i = arr ! i) \<Longrightarrow> tm_deliver send arr' ds e = tm_deliver send arr ds e"
  unfolding tm_deliver_def by (intro fold_cong) auto

lemma tm_expire_all:
  assumes "tm_inv t fs al bs" "tm_no_zero_cycle t" "distinct ds" "set ds \<subseteq> set al"
  obtains t' where "fold (tm_expire_timer send) ds (t, e) = (t', tm_deliver send (pstTimerArray t) ds e)"
    "tm_wf t'" "tm_no_zero_cycle t'" "u32CurrentTick t' = u32CurrentTick t"
    "length (pstTimerArray t') = length (pstTimerArray t)"
    "\<forall>i < length (pstTimerArray t). pstTimerArray t' ! i =
       (if i \<in> set ds then tm_expired_unit (tm_taken send (pstTimerArray t) ds e i) (u32CurrentTick t) (pstTimerArray t ! i)
        else pstTimerArray t ! i)"
  using assms
proof (induction ds arbitrary: t fs al bs e thesis)
  case Nil
  then show ?case by (force simp: tm_deliver_def tm_wf_def)
next
  case (Cons d ds)
  let ?u = "pstTimerArray t ! d"
  let ?e = "snd (tm_send_to send ?u e)"
  from Cons.prems have d: "d \<in> set al" "d \<notin> set ds" and d': "d < length (pstTimerArray t)"
    using tm_inv_slot(1) by auto
  obtain t1 fs1 al1 bs1 where ex: "tm_expire_timer send d (t, e) = (t1, ?e)"
    and inv1: "tm_inv t1 fs1 al1 bs1"
    and arr1: "pstTimerArray t1 = (pstTimerArray t)[d := tm_expired_unit (fst (tm_send_to send ?u e)) (u32CurrentTick t) ?u]"
    and cur1: "u32CurrentTick t1 = u32CurrentTick t" and al1: "set al - {d} \<subseteq> set al1"
    by (rule tm_expire_step[OF Cons.prems(2) d(1), of send e]) metis
  have nz1: "tm_no_zero_cycle t1"
    by (rule no_zero_cycle_expired[OF Cons.prems(3) d' arr1])
  have sub: "set ds \<subseteq> set al1" "distinct ds" using al1 Cons.prems(4,5) by auto
  have same: "pstTimerArray t1 ! j = pstTimerArray t ! j" if "j \<noteq> d" for j
    using arr1 that by simp
  have same_ds: "pstTimerArray t1 ! i = pstTimerArray t ! i" if "set ds' \<subseteq> set ds" "i \<in> set ds'" for ds' i
  proof (rule same)
    show "i \<noteq> d" using that d(2) by auto
  qed
  have del: "tm_deliver send (pstTimerArray t1) ds ?e = tm_deliver send (pstTimerArray t) (d # ds) e"
    using tm_deliver_cong[OF same_ds[OF subset_refl]] by (simp add: tm_deliver_def)
  have tk: "tm_taken send (pstTimerArray t1) ds ?e i = tm_taken send (pstTimerArray t) (d # ds) e i"
    if "i \<in> set ds" for i
  proof -
    have "set (takeWhile (\<lambda>j. j \<noteq> i) ds) \<subseteq> set ds" by (auto dest: set_takeWhileD)
    then have "tm_deliver send (pstTimerArray t1) (takeWhile (\<lambda>j. j \<noteq> i) ds) ?e
        = tm_deliver send (pstTimerArray t) (takeWhile (\<lambda>j. j \<noteq> i) ds) ?e"
      by (intro tm_deliver_cong same_ds)
    moreover have "d \<noteq> i" using that d(2) by auto
    ultimately show ?thesis using same[of i] by (simp add: tm_taken_def) (simp add: tm_deliver_def)
  qed
  have tkd: "tm_taken send (pstTimerArray t) (d # ds) e d = fst (tm_send_to send ?u e)"
    by (simp add: tm_taken_def tm_deliver_def)
  obtain t' where r: "fold (tm_expire_timer send) ds (t1, ?e) = (t', tm_deliver send (pstTimerArray t1) ds ?e)"
      "tm_wf t'" "tm_no_zero_cycle t'" "u32CurrentTick t' = u32CurrentTick t1"
      "length (pstTimerArray t') = length (pstTimerArray t1)"
    and arr': "\<forall>i < length (pstTimerArray t1). pstTimerArray t' ! i =
       (if i \<in> set ds then tm_expired_unit (tm_taken send (pstTimerArray t1) ds ?e i) (u32CurrentTick t1) (pstTimerArray t1 ! i)
        else pstTimerArray t1 ! i)"
    by (rule Cons.IH[OF _ inv1 nz1 sub(2,1), of ?e])
  have len: "length (pstTimerArray t1) = length (pstTimerArray t)" by (simp add: arr1)
  show ?case
  proof (rule Cons.prems(1)[of t'])
    show "\<forall>i < length (pstTimerArray t). pstTimerArray t' ! i =
       (if i \<in> set (d # ds)
        then tm_expired_unit (tm_taken send (pstTimerArray t) (d # ds) e i) (u32CurrentTick t) (pstTimerArray t ! i)
        else pstTimerArray t ! i)"
    proof (intro allI impI)
      fix i assume "i < length (pstTimerArray t)"
      with arr' len cur1 tk tkd same[of i] d(2) show "pstTimerArray t' ! i =
        (if i \<in> set (d # ds)
         then tm_expired_unit (tm_taken send (pstTimerArray t) (d # ds) e i) (u32CurrentTick t) (pstTimerArray t ! i)
         else pstTimerArray t ! i)"
        by (cases "i = d") (simp_all add: arr1)
    qed
  qed (use r ex del cur1 len in simp_all)
qed

definition tm_expiring :: "timer_manager \<Rightarrow> nat set" where
  "tm_expiring t = {i. i < length (pstTimerArray t) \<and> u8Running (pstTimerArray t ! i) = C_TRUE \<and>
                       u32AbsExpTick (pstTimerArray t ! i) = u32CurrentTick t + 1}"

lemma tm_tick_wf:
  assumes "tm_wf t" "tm_no_zero_cycle t"
  obtains t' ds where "tm_tick send t e = Some (t', tm_deliver send (pstTimerArray t) ds e)"
    "distinct ds" "set ds = tm_expiring t" "tm_wf t'" "tm_no_zero_cycle t'"
    "u32CurrentTick t' = u32CurrentTick t + 1" "length (pstTimerArray t') = length (pstTimerArray t)"
    "\<forall>i < length (pstTimerArray t). pstTimerArray t' ! i =
       (if i \<in> set ds then tm_expired_unit (tm_taken send (pstTimerArray t) ds e i) (u32CurrentTick t + 1) (pstTimerArray t ! i)
        else pstTimerArray t ! i)"
proof -
  from assms(1) obtain fs al bs where inv: "tm_inv t fs al bs" by (auto simp: tm_wf_def)
  let ?t = "t\<lparr>u32CurrentTick := u32CurrentTick t + 1\<rparr>"
  let ?b = "tm_bucket t (u32CurrentTick t + 1)"
  let ?ds = "filter (tm_due ?t) (bs ?b)"
  have inv1: "tm_inv ?t fs al bs" and nz1: "tm_no_zero_cycle ?t"
    using inv assms(2) by (simp_all add: timer_simps tm_no_zero_cycle_def)
  have b: "?b \<le> unat (u32HashTblLastIdx ?t)" by (simp add: tm_bucket_le)
  have dl: "dlist (tmNodes t) (HashHead ?b) (map THash (bs ?b))"
    using inv by (auto simp: tm_inv_def tm_lists_def tm_bucket_le)
  then have ds: "distinct ?ds"
    using dl.lst_distinct by (fastforce simp: distinct_map)
  have sub: "set ?ds \<subseteq> set al"
    using tm_inv_bucket(1)[OF inv tm_bucket_le] by auto
  have set_ds: "set ?ds = tm_expiring t"
    using inv by (auto simp: tm_expiring_def tm_due_def tm_inv_def tm_places_def tm_bucket_le split: if_splits)
  have "tm_tick send t e = Some (fold (tm_expire_timer send) ?ds (?t, e))"
    using tm_tick_loop_eq[OF inv1 nz1 b, of "[]" "bs ?b" "[]" _ send e] dl.lst_first[OF dl]
    by (simp add: tm_tick_def Let_def timer_simps)
  with tm_expire_all[OF inv1 nz1 ds sub, of send e] ds set_ds that show thesis
    by (smt (verit) timer_manager.select_convs(2,4) timer_manager.surjective timer_manager.update_convs(2))
qed

section \<open>Initialisation establishes the invariant\<close>

definition tm_init_part :: "nat \<Rightarrow> nat \<Rightarrow> timer_manager \<Rightarrow> bool" where
  "tm_init_part n k t \<longleftrightarrow>
     dlist (tmNodes t) FreeHead (map TNode (rev [0..<k])) \<and> dlist (tmNodes t) AllocHead [] \<and>
     (\<forall>j < k. ullData (tmNodes t) (TNode j) = j \<and> ullData (tmNodes t) (THash j) = j) \<and>
     length (pstTimerArray t) = n \<and>
     (\<forall>j < n. u8Running (pstTimerArray t ! j) = C_FALSE) \<and>
     (\<forall>j < k. ulTimerId (stTmExpMsg (pstTimerArray t ! j)) = of_nat j AND PF_TIMER_ARRAY_INDEX_MASK)"

lemma dlist_ullData [simp]: "dlist (h\<lparr>ullData := f\<rparr>) a xs = dlist h a xs"
  by (rule dlist_cong) simp_all

lemma dlist_INIT_other:
  "a \<notin> set (b # xs) \<Longrightarrow> dlist (DOUBLE_LIST_INIT a h) b xs = dlist h b xs"
  by (rule dlist_cong) (auto simp: double_list_defs)

lemma tm_init_unit_part:
  assumes "tm_init_part n k t" "k < n"
  shows "tm_init_part n (Suc k) (tm_init_unit k t)"
proof -
  let ?h = "tmNodes t\<lparr>ullData := (ullData (tmNodes t))(TNode k := k, THash k := k)\<rparr>"
  from assms have f: "dlist ?h FreeHead (map TNode (rev [0..<k]))" and a: "dlist ?h AllocHead []"
    by (simp_all add: tm_init_part_def)
  have "dlist (DOUBLE_LIST_INSERT_HEAD FreeHead (TNode k) ?h) FreeHead (TNode k # map TNode (rev [0..<k]))"
    by (rule dl.lst_ins_head[OF f]) auto
  moreover have "dlist (DOUBLE_LIST_INSERT_HEAD FreeHead (TNode k) ?h) AllocHead []"
    using a dl.other_ins_head[OF f, of AllocHead "[]"] by auto
  ultimately show ?thesis
    using assms by (auto simp: tm_init_part_def tm_init_unit_def Let_def nth_list_update less_Suc_eq)
qed

lemma tm_init_units_part:
  "\<lbrakk>tm_init_part n 0 t; k \<le> n\<rbrakk> \<Longrightarrow> tm_init_part n k (fold tm_init_unit [0..<k] t)"
  by (induction k) (auto intro: tm_init_unit_part)

lemma tm_init_unit_fields [simp]:
  "u32TimerArraySize (tm_init_unit i t) = u32TimerArraySize t"
  "u32CurrentTick (tm_init_unit i t) = u32CurrentTick t"
  "u32TimerCount (tm_init_unit i t) = u32TimerCount t"
  "u32TimerCountHistory (tm_init_unit i t) = u32TimerCountHistory t"
  by (simp_all add: tm_init_unit_def Let_def)

lemma fold_init_fields [simp]:
  "u32TimerArraySize (fold tm_init_unit xs t) = u32TimerArraySize t"
  "u32CurrentTick (fold tm_init_unit xs t) = u32CurrentTick t"
  "u32TimerCount (fold tm_init_unit xs t) = u32TimerCount t"
  "u32TimerCountHistory (fold tm_init_unit xs t) = u32TimerCountHistory t"
  by (induction xs arbitrary: t) simp_all

lemma tmNodes_again: "t' = t\<lparr>tmNodes := h\<rparr> \<Longrightarrow> t'\<lparr>tmNodes := g\<rparr> = (t :: timer_manager)\<lparr>tmNodes := g\<rparr>"
  by simp

lemma tm_init_buckets:
  defines "f \<equiv> fold (\<lambda>b. nodes_upd (DOUBLE_LIST_INIT (HashHead b)))"
  shows "f [0..<m] t = t\<lparr>tmNodes := tmNodes (f [0..<m] t)\<rparr>"
    "ullData (tmNodes (f [0..<m] t)) = ullData (tmNodes t)"
    "b < m \<Longrightarrow> dlist (tmNodes (f [0..<m] t)) (HashHead b) []"
    "(\<And>b. HashHead b \<notin> set (a # xs)) \<Longrightarrow> dlist (tmNodes (f [0..<m] t)) a xs = dlist (tmNodes t) a xs"
proof -
  show "f [0..<m] t = t\<lparr>tmNodes := tmNodes (f [0..<m] t)\<rparr>"
    by (induction m) (auto simp: f_def intro: tmNodes_again)
  show "ullData (tmNodes (f [0..<m] t)) = ullData (tmNodes t)"
    by (induction m) (auto simp: f_def)
  show "b < m \<Longrightarrow> dlist (tmNodes (f [0..<m] t)) (HashHead b) []"
    by (induction m) (auto simp: f_def dlist_INIT dlist_INIT_other less_Suc_eq)
  show "dlist (tmNodes (f [0..<m] t)) a xs = dlist (tmNodes t) a xs"
    if "\<And>b. HashHead b \<notin> set (a # xs)"
    using that by (induction m) (auto simp: f_def dlist_INIT_other)
qed

text \<open>The arguments that initialisation accepts.\<close>

definition tm_init_args_ok :: "U32 \<Rightarrow> U32 \<Rightarrow> U32 \<Rightarrow> bool" where
  "tm_init_args_ok maxNum hashSize interval \<longleftrightarrow>
     maxNum \<le> PF_TIMER_ARRAY_MAX_SIZE \<and> hashSize \<noteq> 0 \<and> hashSize AND (hashSize - 1) = 0 \<and>
     (interval = 1 \<or> interval = 10)"

lemma tm_init_success:
  assumes "tm_init_args_ok n m iv"
  obtains t' where "tm_init_timer_manager True True (Some t) n m iv = (PF_TIMER_SUCCESS, Some t')"
    "tm_inv t' (rev [0..<unat n]) [] (\<lambda>_. [])" "u32CurrentTick t' = 0" "u32TimerCountHistory t' = 0"
    "u32TimerArraySize t' = n" "length (pstTimerArray t') = unat n"
proof -
  let ?n = "unat n"
  let ?t0 = "t\<lparr>u32TickInterval := iv, u32CurrentTick := 0, u32TimerCount := 0,
               u32TimerCountHistory := 0, u32TimerMsgFailCount := 0\<rparr>"
  let ?t1 = "nodes_upd (DOUBLE_LIST_INIT AllocHead) (nodes_upd (DOUBLE_LIST_INIT FreeHead) ?t0)"
  let ?t2 = "nodes_upd (tm_clear_nodes ?n)
               (?t1\<lparr>u32TimerArraySize := n, pstTimerArray := replicate ?n zero_unit\<rparr>)"
  define t3 where "t3 = (fold tm_init_unit [0..<?n] ?t2)\<lparr>u32HashTblLastIdx := m - 1\<rparr>"
  define t4 where "t4 = fold (\<lambda>b. nodes_upd (DOUBLE_LIST_INIT (HashHead b))) [0..<unat m] t3"
  from assms have c: "\<not> n > PF_TIMER_ARRAY_MAX_SIZE" "m \<noteq> 0" "m AND (m - 1) = 0" "iv = 1 \<or> iv = 10"
    by (auto simp: tm_init_args_ok_def)
  have eq: "tm_init_timer_manager True True (Some t) n m iv = (PF_TIMER_SUCCESS, Some t4)"
    using c unfolding tm_init_timer_manager_def t3_def t4_def by (simp add: Let_def)
  have clear: "dlist (tm_clear_nodes k h) a [] = dlist h a []" if "a = FreeHead \<or> a = AllocHead" for k h a
    using that by (auto simp: tm_clear_nodes_def dlist_def Let_def)
  have "tm_init_part ?n 0 ?t2"
    by (simp add: tm_init_part_def clear dlist_INIT dlist_INIT_other zero_unit_def)
  from tm_init_units_part[OF this order_refl] have p3: "tm_init_part ?n ?n t3"
    by (simp add: tm_init_part_def t3_def)
  have f3: "u32HashTblLastIdx t3 = m - 1" "u32TimerArraySize t3 = n" "u32CurrentTick t3 = 0"
    "u32TimerCount t3 = 0" "u32TimerCountHistory t3 = 0"
    by (simp_all add: t3_def)
  note b = tm_init_buckets[where m = "unat m" and t = t3, folded t4_def]
  have same: "pstTimerArray t4 = pstTimerArray t3" "u32HashTblLastIdx t4 = m - 1"
    "u32TimerArraySize t4 = n" "u32CurrentTick t4 = 0" "u32TimerCount t4 = 0" "u32TimerCountHistory t4 = 0"
    using f3 by (subst b(1); simp)+
  have len: "length (pstTimerArray t4) = ?n" using p3 same by (simp add: tm_init_part_def)
  have "dlist (tmNodes t4) FreeHead (map TNode (rev [0..<?n])) = dlist (tmNodes t3) FreeHead (map TNode (rev [0..<?n]))"
    "dlist (tmNodes t4) AllocHead [] = dlist (tmNodes t3) AllocHead []"
    by (rule b(4); auto)+
  then have "tm_lists t4 (rev [0..<?n]) [] (\<lambda>_. [])"
    using p3 b(2,3) power2_test(2)[OF c(2,3)] len
    by (auto simp: tm_lists_def tm_init_part_def same(2))
  moreover have "tm_array t4"
  proof -
    have "unat n \<le> 2 ^ 14 - 1"
      using c(1) unat_index_mask by (simp add: PF_TIMER_ARRAY_MAX_SIZE_def word_less_nat_alt)
    then have "j < unat n \<Longrightarrow> (of_nat j :: U32) AND PF_TIMER_ARRAY_INDEX_MASK = of_nat j" for j
      by (intro small_index) simp
    with p3 len c power2_test(1)[OF c(2,3)] show ?thesis
      by (auto simp: tm_array_def same tm_init_part_def not_less)
  qed
  moreover have "tm_places t4 (rev [0..<?n]) [] (\<lambda>_. [])"
    using p3 len by (auto simp: tm_places_def same tm_init_part_def)
  ultimately have "tm_inv t4 (rev [0..<?n]) [] (\<lambda>_. [])" by (simp add: tm_inv_def)
  with eq same len show thesis by (intro that)
qed

section \<open>Looking a timer up\<close>

definition tm_running :: "timer_manager \<Rightarrow> U32 \<Rightarrow> U32 \<Rightarrow> bool" where
  "tm_running t timerId moduleId \<longleftrightarrow>
     (\<exists>u \<in> set (pstTimerArray t). u8Running u = C_TRUE \<and> ulTimerId (stTmExpMsg u) = timerId
        \<and> u32ModuleId u = moduleId)"

lemma tm_lookup_slot:
  assumes "tm_wf t" "tm_lookup timerId moduleId t = PF_TIMER_SUCCESS"
  defines "i \<equiv> unat (timerId AND PF_TIMER_ARRAY_INDEX_MASK)"
  shows "i < length (pstTimerArray t)" "u8Running (pstTimerArray t ! i) = C_TRUE"
    "ulTimerId (stTmExpMsg (pstTimerArray t ! i)) = timerId" "u32ModuleId (pstTimerArray t ! i) = moduleId"
  using assms
  by (auto simp: tm_lookup_def Let_def tm_wf_def tm_inv_def tm_array_def not_le word_less_nat_alt
      split: if_splits)

lemma tm_lookup_at:
  assumes "tm_wf t" "i < length (pstTimerArray t)"
    "ulTimerId (stTmExpMsg (pstTimerArray t ! i)) = timerId"
  shows "tm_lookup timerId moduleId t =
     (if u8Running (pstTimerArray t ! i) \<noteq> C_TRUE then PF_TIMER_NOT_EXIST
      else if u32ModuleId (pstTimerArray t ! i) \<noteq> moduleId then PF_TIMER_NOT_PERMIT
      else PF_TIMER_SUCCESS)"
proof -
  from assms(1) have A: "tm_array t" by (auto simp: tm_wf_def tm_inv_def)
  then have "timerId AND PF_TIMER_ARRAY_INDEX_MASK = of_nat i"
    using assms(2,3) by (auto simp: tm_array_def)
  with slot_index[OF A assms(2)] assms(3) show ?thesis
    by (simp add: tm_lookup_def not_le Let_def)
qed

lemma tm_lookup_success:
  assumes "tm_wf t"
  shows "tm_lookup timerId moduleId t = PF_TIMER_SUCCESS \<longleftrightarrow> tm_running t timerId moduleId"
proof
  assume "tm_lookup timerId moduleId t = PF_TIMER_SUCCESS"
  from tm_lookup_slot[OF assms this] show "tm_running t timerId moduleId"
    unfolding tm_running_def by (metis nth_mem)
next
  assume "tm_running t timerId moduleId"
  then obtain i where "i < length (pstTimerArray t)" "u8Running (pstTimerArray t ! i) = C_TRUE"
    "ulTimerId (stTmExpMsg (pstTimerArray t ! i)) = timerId" "u32ModuleId (pstTimerArray t ! i) = moduleId"
    by (auto simp: tm_running_def in_set_conv_nth)
  with tm_lookup_at[OF assms this(1,3)] show "tm_lookup timerId moduleId t = PF_TIMER_SUCCESS"
    by simp
qed

lemma tm_slot_allocated:
  assumes "tm_inv t fs al bs" "i < length (pstTimerArray t)" "u8Running (pstTimerArray t ! i) = C_TRUE"
  shows "i \<in> set al"
  using assms by (auto simp: tm_inv_def tm_places_def split: if_splits)

text \<open>What kill and restart make of the array.\<close>

lemma tm_kill_wf:
  assumes "tm_wf t" "tm_lookup timerId moduleId t = PF_TIMER_SUCCESS"
  defines "i \<equiv> unat (timerId AND PF_TIMER_ARRAY_INDEX_MASK)"
  obtains t' where "tm_kill_timer timerId moduleId t = (PF_TIMER_SUCCESS, t')" "tm_wf t'"
    "pstTimerArray t' = (pstTimerArray t)[i := (pstTimerArray t ! i)\<lparr>u8Running := C_FALSE\<rparr>]"
    "u32CurrentTick t' = u32CurrentTick t"
proof -
  note sl = tm_lookup_slot[OF assms(1,2), folded i_def]
  from assms(1) obtain fs al bs where inv: "tm_inv t fs al bs" by (auto simp: tm_wf_def)
  note d = tm_delete_step[OF inv tm_slot_allocated[OF inv sl(1,2)]]
  show thesis
    by (rule that[of "tm_delete_timer i (tm_remove_timer i t)"])
      (use d assms(2) in \<open>auto simp: tm_kill_timer_def i_def tm_wf_def Let_def\<close>)
qed

lemma tm_restart_wf:
  assumes "tm_wf t" "tm_lookup timerId moduleId t = PF_TIMER_SUCCESS"
  defines "i \<equiv> unat (timerId AND PF_TIMER_ARRAY_INDEX_MASK)"
  obtains t' where "tm_restart_timer timerId moduleId t = (PF_TIMER_SUCCESS, t')" "tm_wf t'"
    "pstTimerArray t' = (pstTimerArray t)[i := (pstTimerArray t ! i)
       \<lparr>u32AbsExpTick := u32CurrentTick t + u32Duration (pstTimerArray t ! i)\<rparr>]"
    "u32CurrentTick t' = u32CurrentTick t"
proof -
  note sl = tm_lookup_slot[OF assms(1,2), folded i_def]
  from assms(1) obtain fs al bs where inv: "tm_inv t fs al bs" by (auto simp: tm_wf_def)
  let ?x = "u32CurrentTick t + u32Duration (pstTimerArray t ! i)"
  note d = tm_requeue_step[OF inv tm_slot_allocated[OF inv sl(1,2)], of ?x]
  have "tm_restart_timer timerId moduleId t = (PF_TIMER_SUCCESS, tm_requeue i ?x t)"
    using assms(2) sl(1)
    by (simp add: tm_restart_timer_def i_def Let_def tm_requeue_def tm_remove_timer_def)
  with d show thesis by (intro that[of "tm_requeue i ?x t"]) (auto simp: tm_wf_def)
qed

section \<open>The moment of expiry\<close>

fun tm_ticks :: "'e sender \<Rightarrow> nat \<Rightarrow> timer_manager \<Rightarrow> 'e \<Rightarrow> (timer_manager \<times> 'e) option" where
  "tm_ticks send 0 t e = Some (t, e)"
| "tm_ticks send (Suc n) t e =
     (case tm_ticks send n t e of None \<Rightarrow> None | Some (t, e) \<Rightarrow> tm_tick send t e)"

text \<open>A sender that also records what it is given, whether or not the message is taken.\<close>

definition tm_logged :: "'e sender \<Rightarrow> ('e \<times> (U32 \<times> timer_expire_msg) list) sender" where
  "tm_logged send m msg s = (let (ok, e) = send m msg (fst s) in (ok, (e, snd s @ [(m, msg)])))"

lemma deliver_logged:
  "snd (tm_deliver (tm_logged send) arr ds s) =
     snd s @ map (\<lambda>i. (u32ModuleId (arr ! i), stTmExpMsg (arr ! i))) ds"
proof (induction ds arbitrary: s)
  case (Cons d ds)
  have "snd (snd (tm_send_to (tm_logged send) (arr ! d) s)) = snd s @ [(u32ModuleId (arr ! d), stTmExpMsg (arr ! d))]"
    by (simp add: tm_send_to_def tm_logged_def Let_def split: prod.split)
  with Cons show ?case by (simp add: timer_simps)
qed (simp add: timer_simps)

lemma deliver_logged_pair:
  obtains e' where "tm_deliver (tm_logged send) arr ds (e, l) =
     (e', l @ map (\<lambda>i. (u32ModuleId (arr ! i), stTmExpMsg (arr ! i))) ds)"
  using deliver_logged[of send arr ds "(e, l)"] that by (cases "tm_deliver (tm_logged send) arr ds (e, l)") simp

lemma tm_msgs_distinct:
  assumes "tm_wf t" "i < length (pstTimerArray t)" "j < length (pstTimerArray t)"
    "stTmExpMsg (pstTimerArray t ! i) = stTmExpMsg (pstTimerArray t ! j)"
  shows "i = j"
proof -
  from assms(1) have A: "tm_array t" by (auto simp: tm_wf_def tm_inv_def)
  have "i = unat (ulTimerId (stTmExpMsg (pstTimerArray t ! i)) AND PF_TIMER_ARRAY_INDEX_MASK)"
    by (rule slot_of_id[OF A assms(2), symmetric])
  also have "\<dots> = j" by (simp only: assms(4) slot_of_id[OF A assms(3)])
  finally show ?thesis .
qed

text \<open>A running timer, \<open>d\<close> ticks before its expiry tick, keeps quiet for \<open>d - 1\<close> ticks.\<close>

lemma tm_ticks_quiet:
  assumes "tm_wf t" "tm_no_zero_cycle t" "i < length (pstTimerArray t)"
    "u8Running (pstTimerArray t ! i) = C_TRUE"
    "n < unat (u32AbsExpTick (pstTimerArray t ! i) - u32CurrentTick t)"
  shows "\<exists>t' e' l'. tm_ticks (tm_logged send) n t (e, l) = Some (t', (e', l @ l')) \<and> tm_wf t' \<and>
     tm_no_zero_cycle t' \<and> u32CurrentTick t' = u32CurrentTick t + of_nat n \<and>
     length (pstTimerArray t') = length (pstTimerArray t) \<and>
     pstTimerArray t' ! i = pstTimerArray t ! i \<and>
     (u32ModuleId (pstTimerArray t ! i), stTmExpMsg (pstTimerArray t ! i)) \<notin> set l'"
  using assms(5)
proof (induction n)
  case 0
  with assms show ?case by simp
next
  case (Suc n)
  let ?u = "pstTimerArray t ! i"
  from Suc obtain t1 e1 l1 where IH: "tm_ticks (tm_logged send) n t (e, l) = Some (t1, (e1, l @ l1))"
      "tm_wf t1" "tm_no_zero_cycle t1" "u32CurrentTick t1 = u32CurrentTick t + of_nat n"
      "length (pstTimerArray t1) = length (pstTimerArray t)" "pstTimerArray t1 ! i = ?u"
      "(u32ModuleId ?u, stTmExpMsg ?u) \<notin> set l1"
    by auto
  obtain t2 ds where T: "tm_tick (tm_logged send) t1 (e1, l @ l1)
        = Some (t2, tm_deliver (tm_logged send) (pstTimerArray t1) ds (e1, l @ l1))"
      "set ds = tm_expiring t1" "tm_wf t2" "tm_no_zero_cycle t2"
      "u32CurrentTick t2 = u32CurrentTick t1 + 1" "length (pstTimerArray t2) = length (pstTimerArray t1)"
    and arr: "\<forall>j < length (pstTimerArray t1). j \<notin> set ds \<longrightarrow> pstTimerArray t2 ! j = pstTimerArray t1 ! j"
    by (rule tm_tick_wf[OF IH(2,3), of "tm_logged send" "(e1, l @ l1)"]) auto
  have "u32AbsExpTick ?u \<noteq> u32CurrentTick t1 + 1"
  proof
    assume "u32AbsExpTick ?u = u32CurrentTick t1 + 1"
    then have "u32AbsExpTick ?u - u32CurrentTick t = of_nat (Suc n)" using IH(4) by simp
    then have "unat (u32AbsExpTick ?u - u32CurrentTick t) \<le> Suc n" by (simp add: unat_of_nat del: of_nat_Suc)
    with Suc.prems show False by simp
  qed
  then have i: "i \<notin> set ds" using T(2) IH(6) by (simp add: tm_expiring_def)
  let ?sent = "map (\<lambda>j. (u32ModuleId (pstTimerArray t1 ! j), stTmExpMsg (pstTimerArray t1 ! j))) ds"
  have "(u32ModuleId ?u, stTmExpMsg ?u) \<notin> set ?sent"
  proof
    assume "(u32ModuleId ?u, stTmExpMsg ?u) \<in> set ?sent"
    then obtain j where j: "j \<in> set ds" and e: "stTmExpMsg (pstTimerArray t1 ! i) = stTmExpMsg (pstTimerArray t1 ! j)"
      using IH(6) by auto
    from j T(2) have "j < length (pstTimerArray t1)" by (simp add: tm_expiring_def)
    from tm_msgs_distinct[OF IH(2) _ this e] i j IH(5) assms(3) show False by simp
  qed
  moreover obtain e2 where "tm_deliver (tm_logged send) (pstTimerArray t1) ds (e1, l @ l1) = (e2, l @ l1 @ ?sent)"
    by (rule deliver_logged_pair[of send "pstTimerArray t1" ds e1 "l @ l1"]) simp
  moreover from this T(1) IH(1) have "tm_ticks (tm_logged send) (Suc n) t (e, l) = Some (t2, (e2, l @ l1 @ ?sent))"
    by simp
  moreover have "u32CurrentTick t2 = u32CurrentTick t + of_nat (Suc n)"
    using T(5) IH(4) by simp
  moreover have "pstTimerArray t2 ! i = ?u" "length (pstTimerArray t2) = length (pstTimerArray t)"
    using arr i IH(5,6) T(6) assms(3) by simp_all
  ultimately show ?case
    using T(3,4) IH(7) by (intro exI[of _ t2] exI[of _ e2] exI[of _ "l1 @ ?sent"]) simp
qed

text \<open>At its expiry tick it is offered once, and then is what its receiver made of it.\<close>

lemma tm_ticks_fire:
  assumes "tm_wf t" "tm_no_zero_cycle t" "i < length (pstTimerArray t)"
    "u8Running (pstTimerArray t ! i) = C_TRUE"
    "unat (u32AbsExpTick (pstTimerArray t ! i) - u32CurrentTick t) = Suc n"
  shows "\<exists>t' e' l' ok. tm_ticks (tm_logged send) (Suc n) t (e, l) = Some (t', (e', l @ l')) \<and> tm_wf t' \<and>
     tm_no_zero_cycle t' \<and> u32CurrentTick t' = u32AbsExpTick (pstTimerArray t ! i) \<and>
     length (pstTimerArray t') = length (pstTimerArray t) \<and>
     pstTimerArray t' ! i = tm_expired_unit ok (u32CurrentTick t') (pstTimerArray t ! i) \<and>
     (ok \<or> (\<exists>m msg e. \<not> fst (send m msg e))) \<and>
     count_list l' (u32ModuleId (pstTimerArray t ! i), stTmExpMsg (pstTimerArray t ! i)) = 1"
proof -
  let ?u = "pstTimerArray t ! i"
  let ?x = "(u32ModuleId ?u, stTmExpMsg ?u)"
  obtain t1 e1 l1 where Q: "tm_ticks (tm_logged send) n t (e, l) = Some (t1, (e1, l @ l1))"
      "tm_wf t1" "tm_no_zero_cycle t1" "u32CurrentTick t1 = u32CurrentTick t + of_nat n"
      "length (pstTimerArray t1) = length (pstTimerArray t)" "pstTimerArray t1 ! i = ?u"
      "?x \<notin> set l1"
    using tm_ticks_quiet[OF assms(1-4), of n send e l] assms(5) by auto
  obtain t2 ds where T: "tm_tick (tm_logged send) t1 (e1, l @ l1)
        = Some (t2, tm_deliver (tm_logged send) (pstTimerArray t1) ds (e1, l @ l1))"
      "distinct ds" "set ds = tm_expiring t1" "tm_wf t2" "tm_no_zero_cycle t2"
      "u32CurrentTick t2 = u32CurrentTick t1 + 1" "length (pstTimerArray t2) = length (pstTimerArray t1)"
    and arr: "\<forall>i < length (pstTimerArray t1). pstTimerArray t2 ! i =
       (if i \<in> set ds then tm_expired_unit (tm_taken (tm_logged send) (pstTimerArray t1) ds (e1, l @ l1) i)
            (u32CurrentTick t1 + 1) (pstTimerArray t1 ! i)
        else pstTimerArray t1 ! i)"
    by (rule tm_tick_wf[OF Q(2,3), of "tm_logged send" "(e1, l @ l1)"])
  have "u32AbsExpTick ?u - u32CurrentTick t = of_nat (Suc n)"
  proof -
    have "of_nat (unat (u32AbsExpTick ?u - u32CurrentTick t)) = u32AbsExpTick ?u - u32CurrentTick t"
      by simp
    with assms(5) show ?thesis by simp
  qed
  then have now: "u32AbsExpTick ?u = u32CurrentTick t1 + 1" using Q(4) by (simp add: algebra_simps)
  then have i: "i \<in> set ds" using T(3) Q(5,6) assms(3,4) by (simp add: tm_expiring_def)
  let ?f = "\<lambda>j. (u32ModuleId (pstTimerArray t1 ! j), stTmExpMsg (pstTimerArray t1 ! j))"
  have "distinct (map ?f ds)"
    using T(2,3) tm_msgs_distinct[OF Q(2)] by (auto simp: distinct_map inj_on_def tm_expiring_def)
  moreover have "?x \<in> set (map ?f ds)" using i Q(6) by force
  ultimately have "count_list (l1 @ map ?f ds) ?x = 1"
    using Q(7) by (simp add: count_list_distinct count_list_append count_list_0_iff)
  moreover obtain e2 where "tm_deliver (tm_logged send) (pstTimerArray t1) ds (e1, l @ l1) = (e2, l @ l1 @ map ?f ds)"
    by (rule deliver_logged_pair[of send "pstTimerArray t1" ds e1 "l @ l1"]) simp
  moreover from this T(1) Q(1) have "tm_ticks (tm_logged send) (Suc n) t (e, l) = Some (t2, (e2, l @ l1 @ map ?f ds))"
    by simp
  moreover have "tm_taken (tm_logged send) (pstTimerArray t1) ds (e1, l @ l1) i \<or> (\<exists>m msg e. \<not> fst (send m msg e))"
    by (auto simp: tm_taken_def tm_send_to_def tm_logged_def Let_def case_prod_beta)
  moreover have "pstTimerArray t2 ! i =
      tm_expired_unit (tm_taken (tm_logged send) (pstTimerArray t1) ds (e1, l @ l1) i) (u32CurrentTick t2) ?u"
    using arr i Q(5,6) T(6) assms(3) by simp
  ultimately show ?thesis
    using T(4-7) Q(5) now
    by (intro exI[of _ t2] exI[of _ e2] exI[of _ "l1 @ map ?f ds"]
        exI[of _ "tm_taken (tm_logged send) (pstTimerArray t1) ds (e1, l @ l1) i"]) simp
qed

end
