(* ===== verification/Timer_Properties.thy ===== *)
theory Timer_Properties
  imports Timer_Manager
begin

text \<open>
  What the timer manager promises to its callers: the properties of initialisation, of
  set, kill, restart and query, of the tick, and of the self-check \<open>tm_get_status\<close>.  The
  last section has a small manager on which the properties are exercised.
\<close>

section \<open>The self-check on a well-formed manager\<close>

lemma tm_count_list_eq:
  assumes "dlist (tmNodes t) a (pre @ rest)" "unat c + length rest \<le> unat (u32TimerArraySize t)"
  shows "tm_count_list t a (hd (rest @ [a])) c r = Some (c + of_nat (length rest), r)"
  using assms
proof (induction rest arbitrary: pre c)
  case (Cons x rest)
  then have d: "dlist (tmNodes t) a (pre @ x # rest)" by simp
  from Cons.prems have le: "unat (c + 1) = Suc (unat c)"
    using unat_add_bounded[of c 1 "u32TimerArraySize t"] by simp
  have "x \<noteq> a" using dl.lst_distinct[OF d] by auto
  then show ?case
    using Cons.IH[of "pre @ [x]" "c + 1"] Cons.prems dl.lst_next[OF d] le
    by (subst tm_count_list.simps) (auto simp: word_less_nat_alt)
qed (simp add: tm_count_list.simps)

lemma tm_count_bucket_eq:
  assumes "dlist (tmNodes t) a (pre @ rest)" "unat c + length rest \<le> unat (u32TimerArraySize t)"
  shows "tm_count_bucket t a (hd (rest @ [a])) c r = Some (c + of_nat (length rest), r)"
  using assms
proof (induction rest arbitrary: pre c)
  case (Cons x rest)
  then have d: "dlist (tmNodes t) a (pre @ x # rest)" by simp
  from Cons.prems have le: "unat (c + 1) = Suc (unat c)"
    using unat_add_bounded[of c 1 "u32TimerArraySize t"] by simp
  have "x \<noteq> a" using dl.lst_distinct[OF d] by auto
  then show ?case
    using Cons.IH[of "pre @ [x]" "c + 1"] Cons.prems dl.lst_next[OF d] le
    by (subst tm_count_bucket.simps) (auto simp: word_less_nat_alt)
qed (simp add: tm_count_bucket.simps)

lemma tm_count_table_eq:
  assumes "\<forall>b \<in> set ns. dlist (tmNodes t) (HashHead b) (map THash (bs b))"
    "unat c + length (concat (map bs ns)) \<le> unat (u32TimerArraySize t)"
  shows "tm_count_table t ns c r = Some (c + of_nat (length (concat (map bs ns))), r)"
  using assms
proof (induction ns arbitrary: c)
  case (Cons b ns)
  then have d: "dlist (tmNodes t) (HashHead b) ([] @ map THash (bs b))" by simp
  have f: "DOUBLE_LIST_FIRST (HashHead b) (tmNodes t) = hd (map THash (bs b) @ [HashHead b])"
    using dl.lst_first[OF d] by simp
  from Cons.prems have le: "unat (c + of_nat (length (bs b))) = unat c + length (bs b)"
    by (intro unat_add_bounded[of c _ "u32TimerArraySize t"]) simp
  then have "\<not> c + of_nat (length (bs b)) > u32TimerArraySize t"
    using Cons.prems by (simp add: word_less_nat_alt)
  then show ?case
    using Cons.IH[of "c + of_nat (length (bs b))"] Cons.prems le f
      tm_count_bucket_eq[OF d, of c r]
    by simp
qed simp

lemma tm_bucket_lengths:
  assumes "tm_inv t fs al bs"
  shows "length (concat (map bs [0..<Suc (unat (u32HashTblLastIdx t))])) = length al"
proof -
  let ?ns = "[0..<Suc (unat (u32HashTblLastIdx t))]"
  from assms have L: "tm_lists t fs al bs" by (simp add: tm_inv_def)
  have bd: "distinct (bs b)" if "b \<le> unat (u32HashTblLastIdx t)" for b
    using L that dl.lst_distinct[of "tmNodes t" "HashHead b" "map THash (bs b)"]
    by (simp add: tm_lists_def distinct_map)
  have "distinct (concat (map bs ?ns)) \<and> set (concat (map bs ?ns)) = set al"
  proof
    have "m \<le> Suc (unat (u32HashTblLastIdx t)) \<Longrightarrow> distinct (concat (map bs [0..<m]))" for m
    proof (induction m)
      case (Suc m)
      moreover have "set (bs m) \<inter> set (bs b) = {}" if "b < m" for b
      proof -
        have "b \<le> unat (u32HashTblLastIdx t)" "m \<le> unat (u32HashTblLastIdx t)" "m \<noteq> b"
          using Suc.prems that by auto
        with L show ?thesis unfolding tm_lists_def by blast
      qed
      ultimately show ?case using bd[of m] by fastforce
    qed simp
    then show "distinct (concat (map bs ?ns))" by blast
    show "set (concat (map bs ?ns)) = set al"
    proof (rule set_eqI)
      fix i
      have "i \<in> set (concat (map bs ?ns)) \<longleftrightarrow> (\<exists>b \<le> unat (u32HashTblLastIdx t). i \<in> set (bs b))"
        by (auto simp: less_Suc_eq_le simp del: upt_Suc)
      also have "\<dots> \<longleftrightarrow> i \<in> set al"
        using tm_inv_bucket(1)[OF assms] tm_inv_slot(3)[OF assms] tm_bucket_le by blast
      finally show "i \<in> set (concat (map bs ?ns)) \<longleftrightarrow> i \<in> set al" .
    qed
  qed
  moreover have "distinct al" using L by (simp add: tm_lists_def)
  ultimately show ?thesis by (metis distinct_card)
qed

lemma tm_status_eq:
  assumes "tm_inv t fs al bs"
  shows "tm_get_status t = Some (PF_TIMER_SUCCESS, of_nat (length fs), of_nat (length al), of_nat (length al))"
    "length fs + length al = unat (u32TimerArraySize t)" "u32TimerCount t = of_nat (length al)"
proof -
  from assms have L: "tm_lists t fs al bs" and A: "tm_array t" and P: "tm_places t fs al bs"
    by (simp_all add: tm_inv_def)
  have "card (set (fs @ al)) = length (fs @ al)"
    using L unfolding tm_lists_def by (intro distinct_card) blast
  then show n: "length fs + length al = unat (u32TimerArraySize t)"
    using P A by (simp add: tm_places_def tm_array_def)
  show "u32TimerCount t = of_nat (length al)" using P by (simp add: tm_places_def)
  have f: "dlist (tmNodes t) FreeHead ([] @ map TNode fs)" and a: "dlist (tmNodes t) AllocHead ([] @ map TNode al)"
    and b: "\<forall>b \<in> set [0..<Suc (unat (u32HashTblLastIdx t))]. dlist (tmNodes t) (HashHead b) (map THash (bs b))"
    using L by (simp_all add: tm_lists_def less_Suc_eq_le del: upt_Suc)
  have sum: "of_nat (length fs) + of_nat (length al) = u32TimerArraySize t"
  proof -
    have "of_nat (unat (u32TimerArraySize t)) = u32TimerArraySize t" by simp
    with n[symmetric] show ?thesis by simp
  qed
  show "tm_get_status t = Some (PF_TIMER_SUCCESS, of_nat (length fs), of_nat (length al), of_nat (length al))"
    using tm_count_list_eq[OF f, of 0 PF_TIMER_SUCCESS] tm_count_list_eq[OF a, of 0 PF_TIMER_SUCCESS]
      tm_count_table_eq[OF b, of 0 PF_TIMER_SUCCESS] n sum tm_bucket_lengths[OF assms]
      dl.lst_first[OF f] dl.lst_first[OF a]
    by (simp add: tm_get_status_def del: upt_Suc)
qed

section \<open>Properties\<close>

lemma tm_init_refused:
  assumes "\<not> tm_init_args_ok n m iv"
  shows "tm_init_timer_manager a b (Some t) n m iv = (PF_TIMER_PARAM_ERROR, Some t)"
  using assms unfolding tm_init_args_ok_def tm_init_timer_manager_def by (auto simp: not_le)

lemma tm_init_no_memory:
  assumes "tm_init_args_ok n m iv" "\<not> (a \<and> b)"
  shows "fst (tm_init_timer_manager a b (Some t) n m iv) = PF_TIMER_NO_RESOURCE"
  using assms unfolding tm_init_args_ok_def tm_init_timer_manager_def by (auto simp: not_le Let_def)

lemma tm_idle:
  assumes "tm_inv t fs [] bs"
  shows "\<forall>u \<in> set (pstTimerArray t). u8Running u = C_FALSE"
  using assms by (auto simp: tm_inv_def tm_places_def in_set_conv_nth)

text \<open>
  Initialisation checks its arguments and establishes the invariant.  It answers
  \<open>PF_TIMER_PARAM_ERROR\<close>, and changes nothing, exactly when there are more timers than
  \<open>PF_TIMER_ARRAY_MAX_SIZE\<close>, the hash size is not a power of two or the interval is neither 1 nor
  10; it answers \<open>PF_TIMER_NO_RESOURCE\<close> when an allocation fails; otherwise the manager is well
  formed, has the requested number of timers and none of them runs.
\<close>

theorem tm_init_outcome:
  "case tm_init_timer_manager arr_ok tbl_ok (Some t) n m iv of
     (r, mgr) \<Rightarrow>
       if \<not> tm_init_args_ok n m iv then r = PF_TIMER_PARAM_ERROR \<and> mgr = Some t
       else if \<not> (arr_ok \<and> tbl_ok) then r = PF_TIMER_NO_RESOURCE
       else r = PF_TIMER_SUCCESS \<and>
         (case mgr of None \<Rightarrow> False
          | Some t' \<Rightarrow> tm_wf t' \<and> tm_no_zero_cycle t' \<and> u32CurrentTick t' = 0 \<and> tm_get_timer_count t' = 0 \<and>
                      length (pstTimerArray t') = unat n \<and>
                      (\<forall>u \<in> set (pstTimerArray t'). u8Running u = C_FALSE))"
proof (cases "tm_init_args_ok n m iv \<and> arr_ok \<and> tbl_ok")
  case True
  then obtain t' where t': "tm_init_timer_manager arr_ok tbl_ok (Some t) n m iv = (PF_TIMER_SUCCESS, Some t')"
      "tm_inv t' (rev [0..<unat n]) [] (\<lambda>_. [])" "u32CurrentTick t' = 0" "length (pstTimerArray t') = unat n"
    using tm_init_success[of n m iv t] by auto
  moreover have "tm_no_zero_cycle t'" using tm_idle[OF t'(2)] by (simp add: tm_no_zero_cycle_def)
  moreover have "u32TimerCount t' = 0" using tm_status_eq(3)[OF t'(2)] by simp
  ultimately show ?thesis
    using True tm_idle[OF t'(2)] by (auto simp: tm_wf_def tm_get_timer_count_def)
next
  case False
  then show ?thesis
    using tm_init_refused[of n m iv arr_ok tbl_ok t] tm_init_no_memory[of n m iv arr_ok tbl_ok t]
    by (auto split: prod.split)
qed

lemma tm_set_wf:
  assumes "tm_wf t"
  shows "if \<forall>u \<in> set (pstTimerArray t). u8Running u = C_TRUE
     then tm_set_timer m d ty p c t = (PF_TIMER_NO_RESOURCE, None, t)
     else \<exists>i t'. tm_set_timer m d ty p c t = (PF_TIMER_SUCCESS, Some (tm_fresh_id t i), t') \<and> tm_wf t' \<and>
          i < length (pstTimerArray t) \<and> u8Running (pstTimerArray t ! i) = C_FALSE \<and>
          pstTimerArray t' = (pstTimerArray t)[i := tm_set_unit t i m d ty p c] \<and>
          u32CurrentTick t' = u32CurrentTick t"
proof -
  from assms obtain fs al bs where inv: "tm_inv t fs al bs" by (auto simp: tm_wf_def)
  show ?thesis
  proof (cases fs)
    case Nil
    have "\<forall>u \<in> set (pstTimerArray t). u8Running u = C_TRUE"
      using inv Nil by (simp add: tm_inv_def tm_places_def all_set_conv_all_nth)
    with tm_set_none[OF inv[unfolded Nil]] show ?thesis by simp
  next
    case (Cons i fs')
    have i: "i < length (pstTimerArray t)" "i \<notin> set al" "u8Running (pstTimerArray t ! i) = C_FALSE"
      using inv Cons by (auto simp: tm_inv_def tm_places_def tm_lists_def)
    then have "\<not> (\<forall>u \<in> set (pstTimerArray t). u8Running u = C_TRUE)" by (metis nth_mem zero_neq_one)
    with i show ?thesis
      by (simp only: if_False) (rule tm_set_some[OF inv[unfolded Cons], of m d ty p c], force simp: tm_wf_def)
  qed
qed

lemma tm_fresh_id_valid:
  assumes "tm_wf t" "i < length (pstTimerArray t)"
  shows "tm_fresh_id t i \<noteq> PF_INVALID_TIMER_ID"
    "unat (tm_fresh_id t i AND PF_TIMER_ARRAY_INDEX_MASK) = i"
proof -
  from assms(1) have A: "tm_array t" by (auto simp: tm_wf_def tm_inv_def)
  show i: "unat (tm_fresh_id t i AND PF_TIMER_ARRAY_INDEX_MASK) = i"
    by (simp only: tm_fresh_id_index slot_of_id[OF A assms(2)])
  have "unat (PF_INVALID_TIMER_ID AND PF_TIMER_ARRAY_INDEX_MASK) = 2 ^ 14 - 1"
    by (simp add: PF_INVALID_TIMER_ID_def PF_TIMER_ARRAY_INDEX_MASK_def PF_TIMER_ARRAY_INDEX_BIT_LEN_def)
  with i slot_index(3)[OF A assms(2)] show "tm_fresh_id t i \<noteq> PF_INVALID_TIMER_ID" by auto
qed

lemma tm_id_slot:
  assumes "tm_wf t" "u \<in> set (pstTimerArray t)"
  shows "unat (ulTimerId (stTmExpMsg u) AND PF_TIMER_ARRAY_INDEX_MASK) < length (pstTimerArray t)"
    "pstTimerArray t ! unat (ulTimerId (stTmExpMsg u) AND PF_TIMER_ARRAY_INDEX_MASK) = u"
proof -
  from assms(1) have A: "tm_array t" by (auto simp: tm_wf_def tm_inv_def)
  from assms(2) obtain i where i: "i < length (pstTimerArray t)" "u = pstTimerArray t ! i"
    by (auto simp: in_set_conv_nth)
  from slot_of_id[OF A i(1)] i show
    "unat (ulTimerId (stTmExpMsg u) AND PF_TIMER_ARRAY_INDEX_MASK) < length (pstTimerArray t)"
    "pstTimerArray t ! unat (ulTimerId (stTmExpMsg u) AND PF_TIMER_ARRAY_INDEX_MASK) = u"
    by simp_all
qed

text \<open>
  C28. Setting a timer.  It fails, with \<open>PF_TIMER_NO_RESOURCE\<close> and without any effect, exactly when
  every unit of the array runs.  Otherwise it takes a unit that does not run, records in it
  what was asked for with the expiry tick \<open>current + duration\<close> (modulo \<open>2\<^sup>3\<^sup>2\<close>), leaves all other
  units alone, and returns an identifier that is not the reserved invalid one, that no running
  timer carries, and that a query with the same module confirms.
\<close>

theorem tm_set_timer_outcome:
  assumes "tm_wf t"
  shows "if \<forall>u \<in> set (pstTimerArray t). u8Running u = C_TRUE
     then tm_set_timer m d ty p c t = (PF_TIMER_NO_RESOURCE, None, t)
     else \<exists>i timerId t'. tm_set_timer m d ty p c t = (PF_TIMER_SUCCESS, Some timerId, t') \<and>
          tm_wf t' \<and> i < length (pstTimerArray t) \<and> u8Running (pstTimerArray t ! i) = C_FALSE \<and>
          pstTimerArray t' = (pstTimerArray t)[i :=
            \<lparr>u32Duration = d, u32AbsExpTick = u32CurrentTick t + d, u8Running = C_TRUE, u8Cycle = c,
             u32ModuleId = m, stTmExpMsg = \<lparr>ulTimerId = timerId, ulTypeId = ty, ullPara = p\<rparr>\<rparr>] \<and>
          timerId \<noteq> PF_INVALID_TIMER_ID \<and> (\<forall>m'. \<not> tm_running t timerId m') \<and>
          tm_is_set_timer timerId m t' = PF_TIMER_SUCCESS"
proof (cases "\<forall>u \<in> set (pstTimerArray t). u8Running u = C_TRUE")
  case False
  then obtain i t' where s: "tm_set_timer m d ty p c t = (PF_TIMER_SUCCESS, Some (tm_fresh_id t i), t')"
      "tm_wf t'" and i: "i < length (pstTimerArray t)" "u8Running (pstTimerArray t ! i) = C_FALSE"
      and arr: "pstTimerArray t' = (pstTimerArray t)[i := tm_set_unit t i m d ty p c]"
    using tm_set_wf[OF assms, of m d ty p c, unfolded if_not_P[OF False]] by blast
  note id = tm_fresh_id_valid[OF assms i(1)]
  have "\<not> tm_running t (tm_fresh_id t i) m'" for m'
    using tm_id_slot[OF assms] id(2) i(2) by (force simp: tm_running_def)
  moreover have "tm_is_set_timer (tm_fresh_id t i) m t' = PF_TIMER_SUCCESS"
    using tm_lookup_at[OF s(2), of i "tm_fresh_id t i" m] arr i(1)
    by (simp add: tm_is_set_timer_def tm_set_unit_def)
  ultimately show ?thesis
    using False s i arr id(1) by (auto simp: tm_set_unit_def)
qed (use tm_set_wf[OF assms, of m d ty p c] in simp)

lemma tm_kill_unchanged:
  "fst (tm_kill_timer i m t) = tm_lookup i m t"
  "tm_lookup i m t \<noteq> PF_TIMER_SUCCESS \<Longrightarrow> tm_kill_timer i m t = (tm_lookup i m t, t)"
  by (auto simp: tm_kill_timer_def Let_def split: PF_TIMER_RETURN_VALUE_E.split)

lemma tm_restart_unchanged:
  "fst (tm_restart_timer i m t) = tm_lookup i m t"
  "tm_lookup i m t \<noteq> PF_TIMER_SUCCESS \<Longrightarrow> tm_restart_timer i m t = (tm_lookup i m t, t)"
  by (auto simp: tm_restart_timer_def Let_def split: PF_TIMER_RETURN_VALUE_E.split)

lemma tm_lookup_cong:
  assumes "length (pstTimerArray t') = length (pstTimerArray t)" "u32TimerArraySize t' = u32TimerArraySize t"
    "pstTimerArray t' ! unat (timerId AND PF_TIMER_ARRAY_INDEX_MASK) = pstTimerArray t ! unat (timerId AND PF_TIMER_ARRAY_INDEX_MASK)"
  shows "tm_lookup timerId m t' = tm_lookup timerId m t"
  using assms by (simp add: tm_lookup_def Let_def)

lemma tm_wf_size: "tm_wf t \<Longrightarrow> u32TimerArraySize t = of_nat (length (pstTimerArray t))"
  by (auto simp: tm_wf_def tm_inv_def tm_array_def)

text \<open>
  Querying a timer tells four cases apart: the index bits of the identifier are outside
  the array; no running timer has the identifier; one has it but belongs to another module;
  one has it for this module.
\<close>

theorem tm_is_set_outcome:
  assumes "tm_wf t"
  shows "tm_is_set_timer timerId m t =
     (if unat (timerId AND PF_TIMER_ARRAY_INDEX_MASK) \<ge> length (pstTimerArray t) then PF_TIMER_PARAM_ERROR
      else if \<forall>m'. \<not> tm_running t timerId m' then PF_TIMER_NOT_EXIST
      else if \<not> tm_running t timerId m then PF_TIMER_NOT_PERMIT
      else PF_TIMER_SUCCESS)"
proof -
  let ?i = "unat (timerId AND PF_TIMER_ARRAY_INDEX_MASK)"
  have le: "u32TimerArraySize t \<le> timerId AND PF_TIMER_ARRAY_INDEX_MASK \<longleftrightarrow> length (pstTimerArray t) \<le> ?i"
    using assms by (auto simp: word_le_nat_alt tm_wf_def tm_inv_def tm_array_def)
  have run: "tm_running t timerId m' \<longleftrightarrow> ?i < length (pstTimerArray t) \<and> u8Running (pstTimerArray t ! ?i) = C_TRUE \<and>
      ulTimerId (stTmExpMsg (pstTimerArray t ! ?i)) = timerId \<and> u32ModuleId (pstTimerArray t ! ?i) = m'" for m'
    using tm_id_slot[OF assms] by (fastforce simp: tm_running_def)
  show ?thesis
    unfolding tm_is_set_timer_def tm_lookup_def Let_def run using le by auto
qed

text \<open>
  C31. Killing a timer succeeds exactly when a timer with this identifier runs for this module,
  and changes nothing otherwise.  After a kill the identifier is unknown to every module, and
  every other identifier is answered as before.
\<close>

theorem tm_kill_outcome:
  assumes "tm_wf t"
  shows "case tm_kill_timer timerId m t of (r, t') \<Rightarrow>
     r = tm_is_set_timer timerId m t \<and> tm_wf t' \<and>
     (if \<not> tm_running t timerId m then t' = t
      else (\<forall>m'. tm_is_set_timer timerId m' t' = PF_TIMER_NOT_EXIST) \<and>
           (\<forall>otherId m'. otherId \<noteq> timerId \<longrightarrow> tm_is_set_timer otherId m' t' = tm_is_set_timer otherId m' t))"
proof (cases "tm_running t timerId m")
  case False
  then show ?thesis
    using tm_lookup_success[OF assms, of timerId m] tm_kill_unchanged(2)[of timerId m t] assms
    by (simp add: tm_is_set_timer_def)
next
  case True
  let ?i = "unat (timerId AND PF_TIMER_ARRAY_INDEX_MASK)"
  have ok: "tm_lookup timerId m t = PF_TIMER_SUCCESS"
    using True tm_lookup_success[OF assms] by simp
  note sl = tm_lookup_slot[OF assms ok]
  obtain t' where k: "tm_kill_timer timerId m t = (PF_TIMER_SUCCESS, t')" "tm_wf t'"
    and arr: "pstTimerArray t' = (pstTimerArray t)[?i := (pstTimerArray t ! ?i)\<lparr>u8Running := C_FALSE\<rparr>]"
    by (rule tm_kill_wf[OF assms ok])
  have size: "u32TimerArraySize t' = u32TimerArraySize t"
    using tm_wf_size[OF assms] tm_wf_size[OF k(2)] arr by simp
  have gone: "tm_is_set_timer timerId m' t' = PF_TIMER_NOT_EXIST" for m'
    using tm_lookup_at[OF k(2), of ?i timerId m'] arr sl by (simp add: tm_is_set_timer_def)
  have other: "tm_is_set_timer otherId m' t' = tm_is_set_timer otherId m' t" if "otherId \<noteq> timerId" for otherId m'
  proof (cases "unat (otherId AND PF_TIMER_ARRAY_INDEX_MASK) = ?i")
    case True
    then show ?thesis
      using arr sl that by (simp add: tm_is_set_timer_def tm_lookup_def Let_def size)
  next
    case False
    then show ?thesis
      unfolding tm_is_set_timer_def by (intro tm_lookup_cong) (simp_all add: arr size)
  qed
  from k gone other ok True show ?thesis by (simp add: tm_is_set_timer_def)
qed

text \<open>
  C24. One tick.  The pointer loop of \<open>tm_tick\<close> ends although the expiries relink the list it
  walks on, provided that no running periodic timer has duration zero.  It offers the message
  of every running timer whose expiry tick is the new tick to its module exactly once, in some
  order \<open>ds\<close>, and no other message.  A timer whose message was refused is due again one tick
  later; a taken one-shot timer stops; a taken periodic timer is due again after its duration;
  all other units are as before, and the manager is well formed.
\<close>

theorem tm_tick_outcome:
  assumes "tm_wf t" "tm_no_zero_cycle t"
  shows "\<exists>t' ds. tm_tick send t e = Some (t', tm_deliver send (pstTimerArray t) ds e) \<and>
     distinct ds \<and> set ds = tm_expiring t \<and> tm_wf t' \<and> tm_no_zero_cycle t' \<and>
     u32CurrentTick t' = u32CurrentTick t + 1 \<and> length (pstTimerArray t') = length (pstTimerArray t) \<and>
     (\<forall>i < length (pstTimerArray t). pstTimerArray t' ! i =
        (let u = pstTimerArray t ! i in
         if i \<notin> set ds then u
         else if \<not> tm_taken send (pstTimerArray t) ds e i then u\<lparr>u32AbsExpTick := u32CurrentTick t + 2\<rparr>
         else if u8Cycle u = C_FALSE then u\<lparr>u8Running := C_FALSE\<rparr>
         else u\<lparr>u32AbsExpTick := u32CurrentTick t + 1 + u32Duration u\<rparr>))"
proof -
  obtain t' ds where T: "tm_tick send t e = Some (t', tm_deliver send (pstTimerArray t) ds e)"
    "distinct ds" "set ds = tm_expiring t" "tm_wf t'" "tm_no_zero_cycle t'"
    "u32CurrentTick t' = u32CurrentTick t + 1" "length (pstTimerArray t') = length (pstTimerArray t)"
    and arr: "\<forall>i < length (pstTimerArray t). pstTimerArray t' ! i =
       (if i \<in> set ds then tm_expired_unit (tm_taken send (pstTimerArray t) ds e i) (u32CurrentTick t + 1) (pstTimerArray t ! i)
        else pstTimerArray t ! i)"
    by (rule tm_tick_wf[OF assms])
  have "\<forall>i < length (pstTimerArray t). pstTimerArray t' ! i =
        (let u = pstTimerArray t ! i in
         if i \<notin> set ds then u
         else if \<not> tm_taken send (pstTimerArray t) ds e i then u\<lparr>u32AbsExpTick := u32CurrentTick t + 2\<rparr>
         else if u8Cycle u = C_FALSE then u\<lparr>u8Running := C_FALSE\<rparr>
         else u\<lparr>u32AbsExpTick := u32CurrentTick t + 1 + u32Duration u\<rparr>)"
    using arr by (simp add: tm_expired_unit_def Let_def add.assoc)
  with T show ?thesis by blast
qed

lemma tm_set_no_zero_cycle:
  assumes "tm_no_zero_cycle t" "c = C_FALSE \<or> d \<noteq> 0"
    "pstTimerArray t' = (pstTimerArray t)[i := tm_set_unit t i m d ty p c]"
  shows "tm_no_zero_cycle t'"
  using assms unfolding tm_no_zero_cycle_def
  by (auto simp: tm_set_unit_def dest!: subsetD[OF set_update_subset_insert])

lemma tm_set_expires:
  assumes "tm_wf t" "tm_no_zero_cycle t" "0 < d"
    and set: "tm_set_timer m d ty p c t = (PF_TIMER_SUCCESS, Some timerId, t1)"
  defines "msg \<equiv> \<lparr>ulTimerId = timerId, ulTypeId = ty, ullPara = p\<rparr>"
  shows "(\<forall>n < unat d. \<exists>t' e' offered. tm_ticks (tm_logged send) n t1 (e, []) = Some (t', (e', offered)) \<and>
            (m, msg) \<notin> set offered \<and> tm_is_set_timer timerId m t' = PF_TIMER_SUCCESS) \<and>
         (\<exists>t' e' offered. tm_ticks (tm_logged send) (unat d) t1 (e, []) = Some (t', (e', offered)) \<and>
            count_list offered (m, msg) = 1)"
proof -
  have "\<not> (\<forall>u \<in> set (pstTimerArray t). u8Running u = C_TRUE)"
    using tm_set_wf[OF assms(1), of m d ty p c] set by (auto split: if_splits)
  with tm_set_wf[OF assms(1), of m d ty p c] set obtain i where
    wf1: "tm_wf t1" and i: "i < length (pstTimerArray t)" and id: "timerId = tm_fresh_id t i"
    and arr: "pstTimerArray t1 = (pstTimerArray t)[i := tm_set_unit t i m d ty p c]"
    and cur: "u32CurrentTick t1 = u32CurrentTick t"
    by (simp only: if_False) auto
  from assms(3) have d: "unat d = Suc (unat d - 1)" by (simp add: word_less_nat_alt)
  from assms(3) have nz1: "tm_no_zero_cycle t1"
    by (intro tm_set_no_zero_cycle[OF assms(2) _ arr]) auto
  have u: "pstTimerArray t1 ! i = tm_set_unit t i m d ty p c" "i < length (pstTimerArray t1)"
    using arr i by simp_all
  then have run: "u8Running (pstTimerArray t1 ! i) = C_TRUE"
    and left: "u32AbsExpTick (pstTimerArray t1 ! i) - u32CurrentTick t1 = d"
    and msg: "u32ModuleId (pstTimerArray t1 ! i) = m" "stTmExpMsg (pstTimerArray t1 ! i) = msg"
    using cur id by (simp_all add: tm_set_unit_def msg_def)
  show ?thesis
  proof (intro conjI allI impI)
    fix n assume "n < unat d"
    then obtain t' e' l' where "tm_ticks (tm_logged send) n t1 (e, []) = Some (t', (e', l'))"
      "tm_wf t'" "length (pstTimerArray t') = length (pstTimerArray t1)"
      "pstTimerArray t' ! i = pstTimerArray t1 ! i" "(m, msg) \<notin> set l'"
      using tm_ticks_quiet[OF wf1 nz1 u(2) run, of n send e "[]"] left msg by auto
    moreover from this have "tm_is_set_timer timerId m t' = PF_TIMER_SUCCESS"
      using tm_lookup_at[of t' i timerId m] u run msg by (simp add: tm_is_set_timer_def msg_def)
    ultimately show "\<exists>t' e' offered. tm_ticks (tm_logged send) n t1 (e, []) = Some (t', (e', offered)) \<and>
            (m, msg) \<notin> set offered \<and> tm_is_set_timer timerId m t' = PF_TIMER_SUCCESS" by blast
  next
    show "\<exists>t' e' offered. tm_ticks (tm_logged send) (unat d) t1 (e, []) = Some (t', (e', offered)) \<and>
            count_list offered (m, msg) = 1"
      using tm_ticks_fire[OF wf1 nz1 u(2) run, of "unat d - 1" send e "[]"] left msg d by fastforce
  qed
qed

text \<open>
  C26. A timer set with a duration of \<open>d > 0\<close> ticks expires on the \<open>d\<close>-th tick: during the ticks
  before, its message is not offered to anybody and the timer stays set; after the \<open>d\<close>-th tick
  the message has been offered exactly once.  The receivers (\<open>send\<close>) are arbitrary: they may
  refuse any messages, of this timer or of others.
\<close>

theorem tm_expires_on_time:
  assumes "tm_wf t" "tm_no_zero_cycle t" "0 < d"
    and set: "tm_set_timer m d ty p c t = (PF_TIMER_SUCCESS, Some timerId, t1)"
  defines "msg \<equiv> \<lparr>ulTimerId = timerId, ulTypeId = ty, ullPara = p\<rparr>"
  shows "(\<forall>n < unat d. \<exists>t' e' offered. tm_ticks (tm_logged send) n t1 (e, []) = Some (t', (e', offered)) \<and>
            (m, msg) \<notin> set offered \<and> tm_is_set_timer timerId m t' = PF_TIMER_SUCCESS) \<and>
         (\<exists>t' e' offered. tm_ticks (tm_logged send) (unat d) t1 (e, []) = Some (t', (e', offered)) \<and>
            count_list offered (m, msg) = 1)"
  unfolding msg_def by (rule tm_set_expires[OF assms(1-4)])

text \<open>
  A restarted timer starts over: nothing is offered for it until its duration has passed
  again, whatever was left of it before, and then it is offered exactly once.
\<close>

theorem tm_restart_outcome:
  assumes "tm_wf t" "tm_no_zero_cycle t" "u \<in> set (pstTimerArray t)" "u8Running u = C_TRUE" "0 < u32Duration u"
  shows "\<exists>t1. tm_restart_timer (ulTimerId (stTmExpMsg u)) (u32ModuleId u) t = (PF_TIMER_SUCCESS, t1) \<and>
     (\<forall>n < unat (u32Duration u). \<exists>t' e' offered. tm_ticks (tm_logged send) n t1 (e, []) = Some (t', (e', offered)) \<and>
        (u32ModuleId u, stTmExpMsg u) \<notin> set offered) \<and>
     (\<exists>t' e' offered. tm_ticks (tm_logged send) (unat (u32Duration u)) t1 (e, []) = Some (t', (e', offered)) \<and>
        count_list offered (u32ModuleId u, stTmExpMsg u) = 1)"
proof -
  let ?i = "unat (ulTimerId (stTmExpMsg u) AND PF_TIMER_ARRAY_INDEX_MASK)"
  note sl = tm_id_slot[OF assms(1,3)]
  have ok: "tm_lookup (ulTimerId (stTmExpMsg u)) (u32ModuleId u) t = PF_TIMER_SUCCESS"
    using assms by (auto simp: tm_lookup_success tm_running_def)
  obtain t1 where r: "tm_restart_timer (ulTimerId (stTmExpMsg u)) (u32ModuleId u) t = (PF_TIMER_SUCCESS, t1)"
      "tm_wf t1" and arr: "pstTimerArray t1 = (pstTimerArray t)[?i := u\<lparr>u32AbsExpTick := u32CurrentTick t + u32Duration u\<rparr>]"
    and cur: "u32CurrentTick t1 = u32CurrentTick t"
    by (rule tm_restart_wf[OF assms(1) ok, unfolded sl(2)])
  have nz1: "tm_no_zero_cycle t1"
    using assms(2-5) unfolding tm_no_zero_cycle_def arr
    by (auto dest!: subsetD[OF set_update_subset_insert])
  have v: "?i < length (pstTimerArray t1)" "u8Running (pstTimerArray t1 ! ?i) = C_TRUE"
    and left: "u32AbsExpTick (pstTimerArray t1 ! ?i) - u32CurrentTick t1 = u32Duration u"
    and msg: "u32ModuleId (pstTimerArray t1 ! ?i) = u32ModuleId u" "stTmExpMsg (pstTimerArray t1 ! ?i) = stTmExpMsg u"
    using arr sl(1) cur assms(4) by simp_all
  have d: "unat (u32Duration u) = Suc (unat (u32Duration u) - 1)"
    using assms(5) by (simp add: word_less_nat_alt)
  have quiet: "\<exists>t' e' offered. tm_ticks (tm_logged send) n t1 (e, []) = Some (t', (e', offered)) \<and>
        (u32ModuleId u, stTmExpMsg u) \<notin> set offered" if "n < unat (u32Duration u)" for n
    using tm_ticks_quiet[OF r(2) nz1 v, of n send e "[]"] left msg that by auto
  have "\<exists>t' e' offered. tm_ticks (tm_logged send) (unat (u32Duration u)) t1 (e, []) = Some (t', (e', offered)) \<and>
        count_list offered (u32ModuleId u, stTmExpMsg u) = 1"
    using tm_ticks_fire[OF r(2) nz1 v, of "unat (u32Duration u) - 1" send e "[]"] left msg d by fastforce
  with quiet r(1) show ?thesis by blast
qed

text \<open>
  The self-check never reports an error on a well-formed manager: its three loops end, the
  free and the allocated units add up to the array, and the hash table holds as many nodes as
  there are allocated units, which is also the timer count.
\<close>

theorem tm_get_status_success:
  assumes "tm_wf t"
  shows "\<exists>free alloc. tm_get_status t = Some (PF_TIMER_SUCCESS, free, alloc, alloc) \<and>
     alloc = tm_get_timer_count t \<and> unat free + unat alloc = length (pstTimerArray t)"
proof -
  from assms obtain fs al bs where inv: "tm_inv t fs al bs" by (auto simp: tm_wf_def)
  note st = tm_status_eq[OF inv]
  have "length (pstTimerArray t) = unat (u32TimerArraySize t)" using inv by (simp add: tm_inv_def tm_array_def)
  moreover have "unat (of_nat (length fs) :: U32) = length fs" "unat (of_nat (length al) :: U32) = length al"
    using st(2) unat_lt_U32[of "u32TimerArraySize t"] by (simp_all add: unat_of_nat)
  ultimately show ?thesis using st by (simp add: tm_get_timer_count_def)
qed

section \<open>A small manager\<close>

text \<open>Four timers, four buckets; then one one-shot timer of three ticks for module 7.\<close>

definition tm_blank :: timer_manager where
  "tm_blank = \<lparr>u32TickInterval = 0, u32CurrentTick = 0, u32TimerArraySize = 0, pstTimerArray = [],
     u32HashTblLastIdx = 0,
     tmNodes = \<lparr>pPrev = \<lambda>_. NullNode, pNext = \<lambda>_. NullNode, ullData = \<lambda>_. 0\<rparr>,
     u32TimerCount = 0, u32TimerCountHistory = 0, u32TimerMsgFailCount = 0\<rparr>"

definition tm_example :: timer_manager where
  "tm_example = (case tm_init_timer_manager True True (Some tm_blank) 4 4 1 of
                   (_, Some t) \<Rightarrow> t | (_, None) \<Rightarrow> tm_blank)"

definition tm_example1 :: timer_manager where
  "tm_example1 = snd (snd (tm_set_timer 7 3 1 0 0 tm_example))"

lemma tm_example_args: "tm_init_args_ok 4 4 1"
  by (simp add: tm_init_args_ok_def PF_TIMER_ARRAY_MAX_SIZE_def PF_TIMER_ARRAY_INDEX_MASK_def
      PF_TIMER_ARRAY_INDEX_BIT_LEN_def)

lemma tm_example_inv:
  "tm_inv tm_example [3, 2, 1, 0] [] (\<lambda>_. [])" "u32TimerCountHistory tm_example = 0"
  "u32CurrentTick tm_example = 0" "length (pstTimerArray tm_example) = 4"
proof -
  obtain t' where t': "tm_init_timer_manager True True (Some tm_blank) 4 4 1 = (PF_TIMER_SUCCESS, Some t')"
      "tm_inv t' (rev [0..<unat (4::U32)]) [] (\<lambda>_. [])" "u32TimerCountHistory t' = 0"
      "u32CurrentTick t' = 0" "length (pstTimerArray t') = unat (4::U32)"
    by (rule tm_init_success[OF tm_example_args, of tm_blank])
  then have e: "tm_example = t'" by (simp add: tm_example_def)
  have "rev [0..<unat (4::U32)] = [3, 2, 1, 0]" by (simp add: upt_rec)
  with t' show "tm_inv tm_example [3, 2, 1, 0] [] (\<lambda>_. [])" "u32TimerCountHistory tm_example = 0"
    "u32CurrentTick tm_example = 0" "length (pstTimerArray tm_example) = 4"
    by (simp_all add: e)
qed

lemma tm_example_wf: "tm_wf tm_example" "tm_no_zero_cycle tm_example"
  "\<not> (\<forall>u \<in> set (pstTimerArray tm_example). u8Running u = C_TRUE)"
proof -
  note idle = tm_idle[OF tm_example_inv(1)]
  show "tm_wf tm_example" using tm_example_inv(1) by (auto simp: tm_wf_def)
  show "tm_no_zero_cycle tm_example" using idle by (simp add: tm_no_zero_cycle_def)
  have "pstTimerArray tm_example ! 0 \<in> set (pstTimerArray tm_example)"
    using tm_example_inv(4) by (intro nth_mem) simp
  with idle show "\<not> (\<forall>u \<in> set (pstTimerArray tm_example). u8Running u = C_TRUE)" by auto
qed

lemma tm_example_set:
  "tm_set_timer 7 3 1 0 0 tm_example = (PF_TIMER_SUCCESS, Some 0x4003, tm_example1)"
  "tm_wf tm_example1" "tm_no_zero_cycle tm_example1"
  "pstTimerArray tm_example1 ! 3 = tm_set_unit tm_example 3 7 3 1 0 0" "length (pstTimerArray tm_example1) = 4"
  "u32CurrentTick tm_example1 = 0" "tm_fresh_id tm_example 3 = 0x4003"
proof -
  obtain t' where t': "tm_set_timer 7 3 1 0 0 tm_example = (PF_TIMER_SUCCESS, Some (tm_fresh_id tm_example 3), t')"
    "tm_inv t' [2, 1, 0] [3] ((\<lambda>_. [])(tm_bucket tm_example (u32CurrentTick tm_example + 3) := [3]))"
    "pstTimerArray t' = (pstTimerArray tm_example)[3 := tm_set_unit tm_example 3 7 3 1 0 0]"
    "u32CurrentTick t' = u32CurrentTick tm_example"
    by (rule tm_set_some[OF tm_example_inv(1), of 7 3 1 0 0]) simp
  then have e: "tm_example1 = t'" by (simp add: tm_example1_def)
  have "ulTimerId (stTmExpMsg (pstTimerArray tm_example ! 3)) AND PF_TIMER_ARRAY_INDEX_MASK = 3"
    using tm_example_inv(1,4) by (simp add: tm_inv_def tm_array_def)
  then show id: "tm_fresh_id tm_example 3 = 0x4003"
    by (simp add: tm_fresh_id_def tm_example_inv PF_TIMER_ARRAY_INDEX_BIT_LEN_def)
  show "tm_set_timer 7 3 1 0 0 tm_example = (PF_TIMER_SUCCESS, Some 0x4003, tm_example1)"
    using t'(1) by (simp add: id e)
  show "tm_wf tm_example1" using t'(2) by (auto simp: tm_wf_def e)
  show "tm_no_zero_cycle tm_example1"
    using tm_set_no_zero_cycle[OF tm_example_wf(2) _ t'(3)] by (simp add: e)
  show "pstTimerArray tm_example1 ! 3 = tm_set_unit tm_example 3 7 3 1 0 0" "length (pstTimerArray tm_example1) = 4"
    "u32CurrentTick tm_example1 = 0"
    using t'(3,4) tm_example_inv(3,4) by (simp_all add: e)
qed

lemma tm_init_witness:
  "(\<exists>t'. tm_init_timer_manager True True (Some tm_blank) 4 4 1 = (PF_TIMER_SUCCESS, Some t') \<and> tm_wf t') \<and>
   tm_init_timer_manager True True (Some tm_blank) 4 5 1 = (PF_TIMER_PARAM_ERROR, Some tm_blank)"
proof
  have "\<not> tm_init_args_ok 4 5 1" by (simp add: tm_init_args_ok_def)
  with tm_init_outcome[where arr_ok = True and tbl_ok = True and t = tm_blank and n = 4 and m = 5 and iv = 1]
  show "tm_init_timer_manager True True (Some tm_blank) 4 5 1 = (PF_TIMER_PARAM_ERROR, Some tm_blank)"
    by (auto split: prod.splits)
  from tm_init_outcome[where arr_ok = True and tbl_ok = True and t = tm_blank and n = 4 and m = 4 and iv = 1] tm_example_args
  show "\<exists>t'. tm_init_timer_manager True True (Some tm_blank) 4 4 1 = (PF_TIMER_SUCCESS, Some t') \<and> tm_wf t'"
    by (auto split: prod.splits option.splits)
qed

lemma tm_set_timer_witness:
  "\<exists>i timerId t'. tm_set_timer 7 3 1 0 0 tm_example = (PF_TIMER_SUCCESS, Some timerId, t') \<and>
     i < (4::nat) \<and> tm_is_set_timer timerId 7 t' = PF_TIMER_SUCCESS"
  using tm_set_timer_outcome[OF tm_example_wf(1), of 7 3 1 0 0, unfolded if_not_P[OF tm_example_wf(3)]]
    tm_example_inv(4) by auto

lemma tm_example_running: "tm_running tm_example1 0x4003 m \<longleftrightarrow> m = 7"
proof -
  have "tm_lookup 0x4003 m tm_example1 = PF_TIMER_SUCCESS \<longleftrightarrow> m = 7"
    using tm_lookup_at[OF tm_example_set(2), of 3 "0x4003" m] tm_example_set(4,5,7)
    by (simp add: tm_set_unit_def)
  then show ?thesis using tm_lookup_success[OF tm_example_set(2)] by simp
qed

lemma tm_example_index: "unat (0x4003 AND PF_TIMER_ARRAY_INDEX_MASK) = 3"
  by (simp add: PF_TIMER_ARRAY_INDEX_MASK_def PF_TIMER_ARRAY_INDEX_BIT_LEN_def)

lemma tm_is_set_witness:
  "tm_is_set_timer 0x4003 7 tm_example1 = PF_TIMER_SUCCESS \<and>
   tm_is_set_timer 0x4003 8 tm_example1 = PF_TIMER_NOT_PERMIT"
  using tm_is_set_outcome[OF tm_example_set(2), of "0x4003" 7] tm_is_set_outcome[OF tm_example_set(2), of "0x4003" 8]
  by (auto simp: tm_example_running tm_example_index tm_example_set(5))

lemma tm_kill_witness:
  "fst (tm_kill_timer 0x4003 8 tm_example1) \<noteq> PF_TIMER_SUCCESS \<and>
   tm_is_set_timer 0x4003 7 (snd (tm_kill_timer 0x4003 7 tm_example1)) = PF_TIMER_NOT_EXIST"
  using tm_kill_outcome[OF tm_example_set(2), of "0x4003" 7] tm_kill_outcome[OF tm_example_set(2), of "0x4003" 8]
    tm_lookup_success[OF tm_example_set(2), of "0x4003" 8]
  by (auto simp: tm_example_running tm_is_set_timer_def split: prod.splits)

lemma tm_tick_witness:
  "\<exists>t' e'. tm_tick (\<lambda>m msg l. (True, l @ [m])) tm_example1 [] = Some (t', e') \<and> u32CurrentTick t' = 1"
  using tm_tick_outcome[OF tm_example_set(2,3), of "\<lambda>m msg l. (True, l @ [m])" "[]"] tm_example_set(6)
  by auto

lemma tm_expires_witness:
  "\<exists>t' e' offered. tm_ticks (tm_logged (\<lambda>m msg n. (n > 5, n + 1))) 3 tm_example1 (0::nat, []) = Some (t', (e', offered)) \<and>
     count_list offered (7, \<lparr>ulTimerId = 0x4003, ulTypeId = 1, ullPara = 0\<rparr>) = 1"
  using tm_expires_on_time[OF tm_example_wf(1,2) _ tm_example_set(1), of "\<lambda>m msg n. (n > 5, n + 1)" "0::nat"]
  by simp

lemma tm_restart_witness:
  "\<exists>t1. tm_restart_timer 0x4003 7 tm_example1 = (PF_TIMER_SUCCESS, t1)"
proof -
  have "tm_set_unit tm_example 3 7 3 1 0 0 \<in> set (pstTimerArray tm_example1)"
    using tm_example_set(4,5) nth_mem[of 3 "pstTimerArray tm_example1"] by simp
  from tm_restart_outcome[OF tm_example_set(2,3) this, of "\<lambda>m msg n. (True, n)" "0::nat"] show ?thesis
    by (auto simp: tm_set_unit_def tm_example_set(7))
qed

lemma tm_get_status_witness:
  "\<exists>free alloc. tm_get_status tm_example1 = Some (PF_TIMER_SUCCESS, free, alloc, alloc)"
  using tm_get_status_success[OF tm_example_set(2)] by blast

end
