(* ===== verification/Ring.thy ===== *)
theory Ring
  imports Pilot_Prelude
begin

text \<open>
  Index arithmetic of a circular array: the entries from \<open>head\<close> up to, not including,
  \<open>tail\<close>, modulo the size \<open>n\<close> of the array.  One slot always stays free, so that
  \<open>head = tail\<close> means empty and \<open>tail + 1 = head\<close> means full.
\<close>

definition ring_count :: "nat \<Rightarrow> nat \<Rightarrow> nat \<Rightarrow> nat" where
  "ring_count n head tail = (tail + n - head) mod n"

definition ring_slots :: "nat \<Rightarrow> nat \<Rightarrow> nat \<Rightarrow> nat list" where
  "ring_slots n head tail = map (\<lambda>k. (head + k) mod n) [0..<ring_count n head tail]"

lemma ring_count_alt:
  "\<lbrakk>head < n; tail < n\<rbrakk> \<Longrightarrow> ring_count n head tail = (if head \<le> tail then tail - head else tail + n - head)"
  by (auto simp: ring_count_def mod_if)

lemma ring_count_less: "0 < n \<Longrightarrow> ring_count n head tail < n"
  by (simp add: ring_count_def)

lemma ring_empty: "\<lbrakk>head < n; tail < n\<rbrakk> \<Longrightarrow> ring_count n head tail = 0 \<longleftrightarrow> tail = head"
  by (auto simp: ring_count_alt)

lemma ring_full: "\<lbrakk>head < n; tail < n\<rbrakk> \<Longrightarrow> (tail + 1) mod n = head \<longleftrightarrow> ring_count n head tail = n - 1"
  by (auto simp: ring_count_alt mod_if)

lemma ring_count_push:
  "\<lbrakk>head < n; tail < n; (tail + 1) mod n \<noteq> head\<rbrakk>
   \<Longrightarrow> ring_count n head ((tail + 1) mod n) = Suc (ring_count n head tail)"
  by (auto simp: ring_count_alt mod_if split: if_splits)

lemma ring_count_push_front:
  "\<lbrakk>head < n; tail < n; (tail + 1) mod n \<noteq> head\<rbrakk>
   \<Longrightarrow> ring_count n ((head + n - 1) mod n) tail = Suc (ring_count n head tail)"
  by (auto simp: ring_count_alt mod_if split: if_splits)

lemma ring_count_pop:
  "\<lbrakk>head < n; tail < n; tail \<noteq> head\<rbrakk>
   \<Longrightarrow> Suc (ring_count n ((head + 1) mod n) tail) = ring_count n head tail"
  by (auto simp: ring_count_alt mod_if split: if_splits)

lemma ring_last_slot:
  "\<lbrakk>head < n; tail < n\<rbrakk> \<Longrightarrow> (head + ring_count n head tail) mod n = tail"
  by (auto simp: ring_count_alt mod_if)

lemma ring_slots_push:
  "\<lbrakk>head < n; tail < n; (tail + 1) mod n \<noteq> head\<rbrakk>
   \<Longrightarrow> ring_slots n head ((tail + 1) mod n) = ring_slots n head tail @ [tail]"
  using ring_count_push[of head n tail] by (simp add: ring_slots_def ring_last_slot)

lemma ring_slots_shift:
  assumes "head < n"
  shows "map (\<lambda>k. (head + k) mod n) [0..<Suc m] = head # map (\<lambda>k. ((head + 1) mod n + k) mod n) [0..<m]"
  using assms by (simp add: upt_rec[of 0] map_Suc_upt[symmetric] mod_simps del: upt_Suc)

lemma ring_slots_pop:
  assumes "head < n" "tail < n" "tail \<noteq> head"
  shows "ring_slots n head tail = head # ring_slots n ((head + 1) mod n) tail"
  using ring_slots_shift[OF assms(1)] ring_count_pop[OF assms]
  unfolding ring_slots_def by metis

lemma ring_pred_succ: "head < (n::nat) \<Longrightarrow> ((head + n - 1) mod n + 1) mod n = head"
  by (cases "head = 0") (auto simp: mod_if)

lemma ring_slots_push_front:
  assumes "head < n" "tail < n" "(tail + 1) mod n \<noteq> head"
  shows "ring_slots n ((head + n - 1) mod n) tail = (head + n - 1) mod n # ring_slots n head tail"
proof -
  have "(head + n - 1) mod n < n" using assms by simp
  from ring_slots_shift[OF this] ring_pred_succ[OF assms(1)] ring_count_push_front[OF assms]
  show ?thesis by (simp add: ring_slots_def del: upt_Suc)
qed

lemma ring_slots_distinct:
  assumes "head < n"
  shows "distinct (ring_slots n head tail)" "set (ring_slots n head tail) \<subseteq> {..<n}"
proof -
  have "inj_on (\<lambda>k. (head + k) mod n) {0..<ring_count n head tail}"
  proof (rule inj_onI)
    fix a b assume "a \<in> {0..<ring_count n head tail}" "b \<in> {0..<ring_count n head tail}"
      and e: "(head + a) mod n = (head + b) mod n"
    then have "a < n" "b < n" using ring_count_less[of n head tail] assms by auto
    with e assms show "a = b" by (auto simp: mod_if split: if_splits)
  qed
  then show "distinct (ring_slots n head tail)" by (simp add: ring_slots_def distinct_map)
  show "set (ring_slots n head tail) \<subseteq> {..<n}" using assms by (auto simp: ring_slots_def)
qed

lemma ring_free_slot:
  assumes "head < n" "tail < n" "(tail + 1) mod n \<noteq> head"
  shows "tail \<notin> set (ring_slots n head tail)" "(head + n - 1) mod n \<notin> set (ring_slots n head tail)"
proof -
  have "(tail + 1) mod n < n" using assms by simp
  from ring_slots_distinct(1)[OF assms(1), of "(tail + 1) mod n"] ring_slots_push[OF assms]
  show "tail \<notin> set (ring_slots n head tail)" by simp
  have "(head + n - 1) mod n < n" using assms by simp
  from ring_slots_distinct(1)[OF this, of tail] ring_slots_push_front[OF assms]
  show "(head + n - 1) mod n \<notin> set (ring_slots n head tail)" by simp
qed

lemma ring_head_slot:
  assumes "head < n" "tail < n" "tail \<noteq> head"
  shows "head \<notin> set (ring_slots n ((head + 1) mod n) tail)"
  using ring_slots_distinct(1)[OF assms(1), of tail] ring_slots_pop[OF assms] by simp

end
