(* ===== verification/Fifo.thy ===== *)
theory Fifo
  imports Pilot_Prelude
begin

text \<open>
  The contract of a bounded first-in first-out queue, which the queues of \<^verbatim>\<open>pf_comm.cpp\<close> and the mailboxes
  of \<^verbatim>\<open>pf_mbox.cpp\<close> provide, and what follows from it for those who only push and pop.
\<close>

primrec push_all :: "('m \<Rightarrow> 'q \<Rightarrow> 'q option) \<Rightarrow> 'm list \<Rightarrow> 'q \<Rightarrow> 'q option" where
  "push_all push [] q = Some q"
| "push_all push (m # ms) q = Option.bind (push m q) (push_all push ms)"

primrec pop_many :: "('q \<Rightarrow> ('m \<times> 'q) option) \<Rightarrow> nat \<Rightarrow> 'q \<Rightarrow> ('m list \<times> 'q) option" where
  "pop_many pop 0 q = Some ([], q)"
| "pop_many pop (Suc n) q =
     (case pop q of None \<Rightarrow> None | Some (m, q) \<Rightarrow> map_option (\<lambda>(ms, q). (m # ms, q)) (pop_many pop n q))"

locale bounded_fifo =
  fixes ok :: "'q \<Rightarrow> bool" and view :: "'q \<Rightarrow> 'm list" and cap :: "'q \<Rightarrow> nat" and valid :: "'m \<Rightarrow> bool"
    and push_back :: "'m \<Rightarrow> 'q \<Rightarrow> 'q option" and pop :: "'q \<Rightarrow> ('m \<times> 'q) option"
  assumes push_back: "\<lbrakk>ok q; valid m\<rbrakk> \<Longrightarrow>
      (case push_back m q of None \<Rightarrow> length (view q) = cap q
       | Some q' \<Rightarrow> length (view q) < cap q \<and> ok q' \<and> view q' = view q @ [m] \<and> cap q' = cap q)"
    and pop: "ok q \<Longrightarrow>
      (case pop q of None \<Rightarrow> view q = []
       | Some (m, q') \<Rightarrow> ok q' \<and> view q = m # view q' \<and> cap q' = cap q)"
begin

lemma push_room:
  assumes "ok q" "valid m" "length (view q) < cap q"
  obtains q' where "push_back m q = Some q'" "ok q'" "view q' = view q @ [m]" "cap q' = cap q"
  using push_back[OF assms(1,2)] assms(3) by (auto split: option.splits)

text \<open>Pushing as many as there is room for, and taking them out again in the same order.\<close>

lemma push_all_ok:
  assumes "ok q" "\<forall>m \<in> set ms. valid m" "length (view q) + length ms \<le> cap q"
  shows "\<exists>q'. push_all push_back ms q = Some q' \<and> ok q' \<and> view q' = view q @ ms \<and> cap q' = cap q"
  using assms
proof (induction ms arbitrary: q)
  case (Cons m ms)
  obtain q1 where "push_back m q = Some q1" "ok q1" "view q1 = view q @ [m]" "cap q1 = cap q"
    using push_room[of q m] Cons.prems by auto
  with Cons.IH[of q1] Cons.prems show ?case by auto
qed simp

lemma pop_many_ok:
  assumes "ok q" "n \<le> length (view q)"
  shows "\<exists>q'. pop_many pop n q = Some (take n (view q), q') \<and> ok q' \<and> view q' = drop n (view q) \<and> cap q' = cap q"
  using assms
proof (induction n arbitrary: q)
  case (Suc n)
  then obtain m q1 where "pop q = Some (m, q1)" "ok q1" "view q = m # view q1" "cap q1 = cap q"
    using pop[OF Suc.prems(1)] by (cases "pop q") auto
  with Suc.IH[of q1] Suc.prems(2) show ?case by auto
qed simp

end

end
