(* ===== verification/Mbox.thy ===== *)
theory Mbox
  imports Ring Fifo "HOL-Library.Multiset"
begin

text \<open>
  The message boxes of \<^verbatim>\<open>platform/linux/pf_mbox.cpp\<close> with the message type of
  \<^verbatim>\<open>common/pl.h\<close>, built with \<open>SHORT_PACK_SIZE\<close> 100.

  A message of at most 100 bytes is copied into the slot of the ring (\<open>shortpayload\<close>) and
  \<open>pucData\<close> points there; a longer one is copied into a block from \<open>pf_malloc\<close>.  A pointer is
  therefore null, a heap block, the payload of a ring slot, or, after \<open>restore()\<close>, the
  payload of the message object itself.  The ring indices are C \<open>int\<close>s that stay
  below the queue size (at most 16384), so they are naturals here.

  An operation that waits on the condition variable returns \<open>None\<close> as long as it would wait.
  The result of \<open>pf_malloc\<close> is an argument: \<open>None\<close> when it fails, else the address of the
  block.
\<close>

section \<open>Data\<close>

definition SHORT_PACK_SIZE :: nat where "SHORT_PACK_SIZE = 100"
definition MESSAGE_QUEUE_SIZE :: nat where "MESSAGE_QUEUE_SIZE = 16384"
definition MODULE_MAX :: U32 where "MODULE_MAX = 90"
definition MODULE_TASK_MAX :: nat where "MODULE_TASK_MAX = 94"

definition PF_RET_SUCCESS :: int where "PF_RET_SUCCESS = 0"
definition PF_RET_FAILURE :: int where "PF_RET_FAILURE = -1"

datatype data_ptr = PNull | PHeap nat | PSlot nat | POwn

record stMboxMessage =
  ulSrcModuleId :: U32
  ulDstModuleId :: U32
  ulLength :: U32
  ulMsgId :: U32
  pucData :: data_ptr
  shortpayload :: "U8 list"
  ulTick :: U32

record pf_mbox =
  p_array :: "stMboxMessage list"
  m_size :: nat
  m_tail :: nat
  m_head :: nat

type_synonym heap_blocks = "nat \<Rightarrow> U8 list option"

text \<open>\<open>pf_memcpy(dst + off, src, n)\<close>.  Bytes written past the end of the destination make
  the list longer: a payload longer than the array it stands for is a buffer overrun.\<close>

definition memcpy_at :: "nat \<Rightarrow> U8 list \<Rightarrow> nat \<Rightarrow> U8 list \<Rightarrow> U8 list" where
  "memcpy_at off src n dst = take off dst @ take n src @ drop (off + n) dst"

definition mbox_new :: "stMboxMessage list \<Rightarrow> pf_mbox" where
  "mbox_new arr = \<lparr>p_array = arr, m_size = length arr, m_tail = 0, m_head = 0\<rparr>"

definition msg_restore :: "stMboxMessage \<Rightarrow> stMboxMessage" where
  "msg_restore m =
     (if ulLength m \<noteq> 0 \<and> unat (ulLength m) \<le> SHORT_PACK_SIZE then m\<lparr>pucData := POwn\<rparr> else m)"

definition msg_free :: "stMboxMessage \<Rightarrow> heap_blocks \<Rightarrow> heap_blocks" where
  "msg_free m hp =
     (if unat (ulLength m) > SHORT_PACK_SIZE \<and> pucData m \<noteq> PNull
      then case pucData m of PHeap a \<Rightarrow> hp(a := None) | _ \<Rightarrow> hp
      else hp)"

section \<open>Taking messages out\<close>

definition mbox_get :: "pf_mbox \<Rightarrow> (stMboxMessage \<times> pf_mbox) option" where
  "mbox_get b =
     (if m_tail b = m_head b then None
      else Some (p_array b ! m_head b, b\<lparr>m_head := (m_head b + 1) mod m_size b\<rparr>))"

definition mbox_try_get :: "stMboxMessage \<Rightarrow> pf_mbox \<Rightarrow> bool \<times> stMboxMessage \<times> pf_mbox" where
  "mbox_try_get pstMsg b =
     (if m_tail b = m_head b then (False, pstMsg, b)
      else (True, p_array b ! m_head b, b\<lparr>m_head := (m_head b + 1) mod m_size b\<rparr>))"

definition mbox_size :: "pf_mbox \<Rightarrow> nat" where
  "mbox_size b = (m_tail b + m_size b - m_head b) mod m_size b"

section \<open>Putting messages in\<close>

definition mbox_full :: "pf_mbox \<Rightarrow> bool" where
  "mbox_full b \<longleftrightarrow> (m_tail b + 1) mod m_size b = m_head b"

abbreviation slot_upd :: "nat \<Rightarrow> (stMboxMessage \<Rightarrow> stMboxMessage) \<Rightarrow> pf_mbox \<Rightarrow> pf_mbox" where
  "slot_upd i f b \<equiv> b\<lparr>p_array := (p_array b)[i := f (p_array b ! i)]\<rparr>"

text \<open>The assignments to the header fields of slot \<open>i\<close>.\<close>

definition mbox_header ::
  "nat \<Rightarrow> U32 \<Rightarrow> U32 \<Rightarrow> U32 \<Rightarrow> U32 \<Rightarrow> data_ptr \<Rightarrow> U32 \<Rightarrow> pf_mbox \<Rightarrow> pf_mbox" where
  "mbox_header i src msgId dst len ptr ticks =
     slot_upd i (\<lambda>m. m\<lparr>ulSrcModuleId := src, ulMsgId := msgId, ulDstModuleId := dst,
                       ulLength := len, pucData := ptr, ulTick := ticks\<rparr>)"

definition mbox_payload :: "nat \<Rightarrow> nat \<Rightarrow> U8 list \<Rightarrow> nat \<Rightarrow> pf_mbox \<Rightarrow> pf_mbox" where
  "mbox_payload i off data n = slot_upd i (\<lambda>m. m\<lparr>shortpayload := memcpy_at off data n (shortpayload m)\<rparr>)"

definition mbox_try_put ::
  "U32 \<Rightarrow> U32 \<Rightarrow> U32 \<Rightarrow> data_ptr \<Rightarrow> U32 \<Rightarrow> U32 \<Rightarrow> pf_mbox \<Rightarrow> bool \<times> pf_mbox" where
  "mbox_try_put src msgId dst pData len ticks b =
     (if mbox_full b then (False, b)
      else
        let b = mbox_header (m_tail b) src msgId dst len pData ticks b
        in (True, b\<lparr>m_tail := (m_tail b + 1) mod m_size b\<rparr>))"

definition mbox_try_put_copy_data ::
  "U32 \<Rightarrow> U32 \<Rightarrow> U32 \<Rightarrow> U8 list \<Rightarrow> U32 \<Rightarrow> U32 \<Rightarrow> pf_mbox \<Rightarrow> bool \<times> pf_mbox" where
  "mbox_try_put_copy_data src msgId dst data len ticks b =
     (if mbox_full b then (False, b)
      else
        let b = mbox_header (m_tail b) src msgId dst len (PSlot (m_tail b)) ticks b;
            b = mbox_payload (m_tail b) 0 data (unat len) b
        in (True, b\<lparr>m_tail := (m_tail b + 1) mod m_size b\<rparr>))"

definition mbox_put ::
  "U32 \<Rightarrow> U32 \<Rightarrow> U32 \<Rightarrow> data_ptr \<Rightarrow> U32 \<Rightarrow> U32 \<Rightarrow> pf_mbox \<Rightarrow> pf_mbox option" where
  "mbox_put src msgId dst pData len ticks b =
     (if mbox_full b then None
      else
        let b = mbox_header (m_tail b) src msgId dst len pData ticks b
        in Some (b\<lparr>m_tail := (m_tail b + 1) mod m_size b\<rparr>))"

definition mbox_put_copy_data ::
  "U32 \<Rightarrow> U32 \<Rightarrow> U32 \<Rightarrow> U8 list \<Rightarrow> U32 \<Rightarrow> U32 \<Rightarrow> pf_mbox \<Rightarrow> pf_mbox option" where
  "mbox_put_copy_data src msgId dst data len ticks b =
     (if mbox_full b then None
      else
        let b = mbox_header (m_tail b) src msgId dst len (PSlot (m_tail b)) ticks b;
            b = mbox_payload (m_tail b) 0 data (unat len) b
        in Some (b\<lparr>m_tail := (m_tail b + 1) mod m_size b\<rparr>))"

definition mbox_put_copy_data2 ::
  "U32 \<Rightarrow> U32 \<Rightarrow> U32 \<Rightarrow> U8 list \<Rightarrow> U32 \<Rightarrow> U8 list \<Rightarrow> U32 \<Rightarrow> U32 \<Rightarrow> pf_mbox \<Rightarrow> pf_mbox option" where
  "mbox_put_copy_data2 src msgId dst data len data2 len2 ticks b =
     (if mbox_full b then None
      else
        let b = mbox_header (m_tail b) src msgId dst (len + len2) (PSlot (m_tail b)) ticks b;
            b = mbox_payload (m_tail b) 0 data (unat len) b;
            b = mbox_payload (m_tail b) (unat len) data2 (unat len2) b
        in Some (b\<lparr>m_tail := (m_tail b + 1) mod m_size b\<rparr>))"

text \<open>The two \<open>try\<close> operations at the head take the lock with \<open>pthread_mutex_trylock\<close>;
  \<open>busy\<close> tells that another thread holds it.\<close>

definition mbox_try_put_head ::
  "bool \<Rightarrow> U32 \<Rightarrow> U32 \<Rightarrow> U32 \<Rightarrow> data_ptr \<Rightarrow> U32 \<Rightarrow> U32 \<Rightarrow> pf_mbox \<Rightarrow> bool \<times> pf_mbox" where
  "mbox_try_put_head busy src msgId dst pData len ticks b =
     (if busy then (False, b)
      else if mbox_full b then (False, b)
      else
        let b = b\<lparr>m_head := (m_head b + m_size b - 1) mod m_size b\<rparr>
        in (True, mbox_header (m_head b) src msgId dst len pData ticks b))"

definition mbox_try_put_head_copy_data ::
  "bool \<Rightarrow> U32 \<Rightarrow> U32 \<Rightarrow> U32 \<Rightarrow> U8 list \<Rightarrow> U32 \<Rightarrow> U32 \<Rightarrow> pf_mbox \<Rightarrow> bool \<times> pf_mbox" where
  "mbox_try_put_head_copy_data busy src msgId dst data len ticks b =
     (if busy then (False, b)
      else if mbox_full b then (False, b)
      else
        let b = b\<lparr>m_head := (m_head b + m_size b - 1) mod m_size b\<rparr>;
            b = mbox_header (m_head b) src msgId dst len (PSlot (m_head b)) ticks b
        in (True, mbox_payload (m_head b) 0 data (unat len) b))"

definition mbox_put_head ::
  "U32 \<Rightarrow> U32 \<Rightarrow> U32 \<Rightarrow> data_ptr \<Rightarrow> U32 \<Rightarrow> U32 \<Rightarrow> pf_mbox \<Rightarrow> pf_mbox option" where
  "mbox_put_head src msgId dst pData len ticks b =
     (if mbox_full b then None
      else
        let b = b\<lparr>m_head := (m_head b + m_size b - 1) mod m_size b\<rparr>
        in Some (mbox_header (m_head b) src msgId dst len pData ticks b))"

definition mbox_put_head_copy_data ::
  "U32 \<Rightarrow> U32 \<Rightarrow> U32 \<Rightarrow> U8 list \<Rightarrow> U32 \<Rightarrow> U32 \<Rightarrow> pf_mbox \<Rightarrow> pf_mbox option" where
  "mbox_put_head_copy_data src msgId dst data len ticks b =
     (if mbox_full b then None
      else
        let b = b\<lparr>m_head := (m_head b + m_size b - 1) mod m_size b\<rparr>;
            b = mbox_header (m_head b) src msgId dst len (PSlot (m_head b)) ticks b
        in Some (mbox_payload (m_head b) 0 data (unat len) b))"

section \<open>Sending between modules\<close>

record mbox_sys =
  msgQArray :: "pf_mbox option list"
  blocks :: heap_blocks

abbreviation queue_upd :: "U32 \<Rightarrow> pf_mbox \<Rightarrow> mbox_sys \<Rightarrow> mbox_sys" where
  "queue_upd dst b s \<equiv> s\<lparr>msgQArray := (msgQArray s)[unat dst := Some b]\<rparr>"

text \<open>\<open>pData\<close> is the memory that the caller's pointer designates, \<open>None\<close> for the null
  pointer.  \<open>pf_copy_msg\<close> and \<open>pf_copy_urgent_msg\<close> return \<open>None\<close> when the caller waits for room.\<close>

definition pf_copy_try_msg ::
  "nat option \<Rightarrow> U32 \<Rightarrow> U32 \<Rightarrow> U32 \<Rightarrow> U32 \<Rightarrow> U8 list option \<Rightarrow> U32 \<Rightarrow> mbox_sys \<Rightarrow> int \<times> mbox_sys" where
  "pf_copy_try_msg malloc ticks src msgId dst pData len s =
     (if dst \<ge> MODULE_MAX \<or> (pData = None \<and> len > 0) then (PF_RET_FAILURE, s)
      else case msgQArray s ! unat dst of
        None \<Rightarrow> (PF_RET_FAILURE, s)
      | Some q \<Rightarrow>
        if unat len > SHORT_PACK_SIZE then
          (case malloc of
             None \<Rightarrow> (PF_RET_FAILURE, s)
           | Some mdata \<Rightarrow>
             let s = s\<lparr>blocks := (blocks s)(mdata := Some (take (unat len) (the pData)))\<rparr>;
                 (ret, q) = mbox_try_put src msgId dst (PHeap mdata) len ticks q
             in if \<not> ret then (PF_RET_FAILURE, s\<lparr>blocks := (blocks s)(mdata := None)\<rparr>)
                else (PF_RET_SUCCESS, queue_upd dst q s))
        else
          let (ret, q) = mbox_try_put_copy_data src msgId dst (case pData of None \<Rightarrow> [] | Some d \<Rightarrow> d) len ticks q
          in if \<not> ret then (PF_RET_FAILURE, s) else (PF_RET_SUCCESS, queue_upd dst q s))"

definition pf_copy_try_urgent_msg ::
  "nat option \<Rightarrow> bool \<Rightarrow> U32 \<Rightarrow> U32 \<Rightarrow> U32 \<Rightarrow> U32 \<Rightarrow> U8 list option \<Rightarrow> U32 \<Rightarrow> mbox_sys \<Rightarrow> int \<times> mbox_sys" where
  "pf_copy_try_urgent_msg malloc busy ticks src msgId dst pData len s =
     (if dst \<ge> MODULE_MAX \<or> (pData = None \<and> len > 0) then (PF_RET_FAILURE, s)
      else case msgQArray s ! unat dst of
        None \<Rightarrow> (PF_RET_FAILURE, s)
      | Some q \<Rightarrow>
        if unat len > SHORT_PACK_SIZE then
          (case malloc of
             None \<Rightarrow> (PF_RET_FAILURE, s)
           | Some mdata \<Rightarrow>
             let s = s\<lparr>blocks := (blocks s)(mdata := Some (take (unat len) (the pData)))\<rparr>;
                 (ret, q) = mbox_try_put_head busy src msgId dst (PHeap mdata) len ticks q
             in if \<not> ret then (PF_RET_FAILURE, s\<lparr>blocks := (blocks s)(mdata := None)\<rparr>)
                else (PF_RET_SUCCESS, queue_upd dst q s))
        else
          let (ret, q) = mbox_try_put_head_copy_data busy src msgId dst (case pData of None \<Rightarrow> [] | Some d \<Rightarrow> d) len ticks q
          in if \<not> ret then (PF_RET_FAILURE, s) else (PF_RET_SUCCESS, queue_upd dst q s))"

definition pf_copy_msg ::
  "nat option \<Rightarrow> U32 \<Rightarrow> U32 \<Rightarrow> U32 \<Rightarrow> U32 \<Rightarrow> U8 list option \<Rightarrow> U32 \<Rightarrow> mbox_sys \<Rightarrow> (int \<times> mbox_sys) option" where
  "pf_copy_msg malloc ticks src msgId dst pData len s =
     (if dst \<ge> MODULE_MAX \<or> (pData = None \<and> len > 0) then Some (PF_RET_FAILURE, s)
      else case msgQArray s ! unat dst of
        None \<Rightarrow> Some (PF_RET_FAILURE, s)
      | Some q \<Rightarrow>
        if unat len > SHORT_PACK_SIZE then
          (case malloc of
             None \<Rightarrow> Some (PF_RET_FAILURE, s)
           | Some mdata \<Rightarrow>
             let s = s\<lparr>blocks := (blocks s)(mdata := Some (take (unat len) (the pData)))\<rparr>
             in map_option (\<lambda>q. (PF_RET_SUCCESS, queue_upd dst q s))
                  (mbox_put src msgId dst (PHeap mdata) len ticks q))
        else map_option (\<lambda>q. (PF_RET_SUCCESS, queue_upd dst q s))
               (mbox_put_copy_data src msgId dst (case pData of None \<Rightarrow> [] | Some d \<Rightarrow> d) len ticks q))"

definition pf_copy_urgent_msg ::
  "nat option \<Rightarrow> U32 \<Rightarrow> U32 \<Rightarrow> U32 \<Rightarrow> U32 \<Rightarrow> U8 list option \<Rightarrow> U32 \<Rightarrow> mbox_sys \<Rightarrow> (int \<times> mbox_sys) option" where
  "pf_copy_urgent_msg malloc ticks src msgId dst pData len s =
     (if dst \<ge> MODULE_MAX \<or> (pData = None \<and> len > 0) then Some (PF_RET_FAILURE, s)
      else case msgQArray s ! unat dst of
        None \<Rightarrow> Some (PF_RET_FAILURE, s)
      | Some q \<Rightarrow>
        if unat len > SHORT_PACK_SIZE then
          (case malloc of
             None \<Rightarrow> Some (PF_RET_FAILURE, s)
           | Some mdata \<Rightarrow>
             let s = s\<lparr>blocks := (blocks s)(mdata := Some (take (unat len) (the pData)))\<rparr>
             in map_option (\<lambda>q. (PF_RET_SUCCESS, queue_upd dst q s))
                  (mbox_put_head src msgId dst (PHeap mdata) len ticks q))
        else map_option (\<lambda>q. (PF_RET_SUCCESS, queue_upd dst q s))
               (mbox_put_head_copy_data src msgId dst (case pData of None \<Rightarrow> [] | Some d \<Rightarrow> d) len ticks q))"

text \<open>\<open>pf_copy_msg2\<close> joins two pieces; the sum of the lengths wraps at \<open>2\<^sup>3\<^sup>2\<close>.\<close>

definition pf_copy_msg2 ::
  "nat option \<Rightarrow> U32 \<Rightarrow> U32 \<Rightarrow> U32 \<Rightarrow> U32 \<Rightarrow> U8 list option \<Rightarrow> U32 \<Rightarrow> U8 list option \<Rightarrow> U32
   \<Rightarrow> mbox_sys \<Rightarrow> (int \<times> mbox_sys) option" where
  "pf_copy_msg2 malloc ticks src msgId dst pData len pData2 len2 s =
     (let msgLen = len + len2 in
      if dst \<ge> MODULE_MAX \<or> (pData = None \<and> len > 0) \<or> (pData2 = None \<and> len2 > 0) then Some (PF_RET_FAILURE, s)
      else case msgQArray s ! unat dst of
        None \<Rightarrow> Some (PF_RET_FAILURE, s)
      | Some q \<Rightarrow>
        let d = (case pData of None \<Rightarrow> [] | Some d \<Rightarrow> d);
            d2 = (case pData2 of None \<Rightarrow> [] | Some d \<Rightarrow> d)
        in if unat msgLen > SHORT_PACK_SIZE then
          (case malloc of
             None \<Rightarrow> Some (PF_RET_FAILURE, s)
           | Some mdata \<Rightarrow>
             let s = s\<lparr>blocks := (blocks s)(mdata := Some (take (unat len) d @ take (unat len2) d2))\<rparr>
             in map_option (\<lambda>q. (PF_RET_SUCCESS, queue_upd dst q s))
                  (mbox_put src msgId dst (PHeap mdata) msgLen ticks q))
        else map_option (\<lambda>q. (PF_RET_SUCCESS, queue_upd dst q s))
               (mbox_put_copy_data2 src msgId dst d len d2 len2 ticks q))"

definition pf_get_message :: "pf_mbox \<Rightarrow> (stMboxMessage \<times> pf_mbox) option" where
  "pf_get_message b = map_option (\<lambda>(m, b). (msg_restore m, b)) (mbox_get b)"

definition pf_try_get_message :: "stMboxMessage \<Rightarrow> pf_mbox \<Rightarrow> bool \<times> stMboxMessage \<times> pf_mbox" where
  "pf_try_get_message pstMsg b = mbox_try_get pstMsg b"

definition pf_mbox_peek :: "pf_mbox option \<Rightarrow> nat" where
  "pf_mbox_peek pMsgQ = (case pMsgQ of Some b \<Rightarrow> mbox_size b | None \<Rightarrow> 0)"

text \<open>One turn of the loop in \<open>msg_entry\<close>: wait for a message (\<open>None\<close>), call the entry of the module
  it is addressed to with the bytes at \<open>pucData\<close>, release the message.  The entry gets and returns
  the state of its module together with the mailboxes, to which it may send.  A module thread is
  created after its queue has been stored in \<open>msgQArray\<close> (\<open>CREATEMODULE\<close>), so the case without a
  queue, where the source would dereference a null pointer, does not arise; it has no outcome here.
  Every queue stands at one index: \<open>COMBINEMODULE\<close>, which shares one, is used nowhere.\<close>

type_synonym 'a module_entry = "U32 \<Rightarrow> U32 \<Rightarrow> U32 \<Rightarrow> U8 list \<Rightarrow> U32 \<Rightarrow> 'a \<times> mbox_sys \<Rightarrow> 'a \<times> mbox_sys"

definition msg_bytes :: "stMboxMessage \<Rightarrow> pf_mbox \<Rightarrow> heap_blocks \<Rightarrow> U8 list" where
  "msg_bytes m b hp =
     take (unat (ulLength m))
       (case pucData m of PNull \<Rightarrow> [] | POwn \<Rightarrow> shortpayload m
        | PSlot i \<Rightarrow> shortpayload (p_array b ! i)
        | PHeap a \<Rightarrow> (case hp a of Some bs \<Rightarrow> bs | None \<Rightarrow> []))"

definition msg_entry_turn :: "(U32 \<Rightarrow> 'a module_entry) \<Rightarrow> nat \<Rightarrow> 'a \<times> mbox_sys \<Rightarrow> ('a \<times> mbox_sys) option" where
  "msg_entry_turn moduleArray mid st =
     (let (x, s) = st in
      case msgQArray s ! mid of
        None \<Rightarrow> None
      | Some q \<Rightarrow>
        (case pf_get_message q of
           None \<Rightarrow> None
         | Some (m, q') \<Rightarrow>
           let s = s\<lparr>msgQArray := (msgQArray s)[mid := Some q']\<rparr>;
               dst = ulDstModuleId m;
               (x, s) = moduleArray dst (ulSrcModuleId m) (ulMsgId m) dst (msg_bytes m q' (blocks s)) (ulLength m) (x, s)
           in Some (x, s\<lparr>blocks := msg_free m (blocks s)\<rparr>)))"

section \<open>What a mailbox holds\<close>

text \<open>A message as its receiver sees it: source, identifier, destination, bytes, time.\<close>

type_synonym amsg = "U32 \<times> U32 \<times> U32 \<times> U8 list \<times> U32"

definition msg_long :: "stMboxMessage \<Rightarrow> bool" where
  "msg_long m \<longleftrightarrow> unat (ulLength m) > SHORT_PACK_SIZE"

definition msg_view :: "heap_blocks \<Rightarrow> stMboxMessage \<Rightarrow> amsg" where
  "msg_view hp m =
     (ulSrcModuleId m, ulMsgId m, ulDstModuleId m,
      (if msg_long m then (case pucData m of PHeap a \<Rightarrow> the (hp a) | _ \<Rightarrow> [])
       else take (unat (ulLength m)) (shortpayload m)),
      ulTick m)"

definition slot_ok :: "heap_blocks \<Rightarrow> nat \<Rightarrow> stMboxMessage \<Rightarrow> bool" where
  "slot_ok hp i m \<longleftrightarrow>
     (if msg_long m then \<exists>a bs. pucData m = PHeap a \<and> hp a = Some bs \<and> length bs = unat (ulLength m)
      else pucData m = PSlot i)"

abbreviation mbox_slots :: "pf_mbox \<Rightarrow> nat list" where
  "mbox_slots b \<equiv> ring_slots (m_size b) (m_head b) (m_tail b)"

definition mbox_shape :: "pf_mbox \<Rightarrow> bool" where
  "mbox_shape b \<longleftrightarrow> length (p_array b) = m_size b \<and> m_head b < m_size b \<and> m_tail b < m_size b \<and>
     (\<forall>m \<in> set (p_array b). length (shortpayload m) = SHORT_PACK_SIZE)"

definition mbox_ok :: "heap_blocks \<Rightarrow> pf_mbox \<Rightarrow> bool" where
  "mbox_ok hp b \<longleftrightarrow> mbox_shape b \<and> (\<forall>i \<in> set (mbox_slots b). slot_ok hp i (p_array b ! i))"

definition mbox_view :: "heap_blocks \<Rightarrow> pf_mbox \<Rightarrow> amsg list" where
  "mbox_view hp b = map (\<lambda>i. msg_view hp (p_array b ! i)) (mbox_slots b)"

definition msg_blocks :: "stMboxMessage \<Rightarrow> nat list" where
  "msg_blocks m = (case pucData m of PHeap a \<Rightarrow> [a] | _ \<Rightarrow> [])"

definition mbox_blocks :: "pf_mbox \<Rightarrow> nat list" where
  "mbox_blocks b = concat (map (\<lambda>i. msg_blocks (p_array b ! i)) (mbox_slots b))"

section \<open>The ring operations on the contents\<close>

definition mbox_add_back :: "stMboxMessage \<Rightarrow> pf_mbox \<Rightarrow> pf_mbox" where
  "mbox_add_back m b = b\<lparr>p_array := (p_array b)[m_tail b := m], m_tail := (m_tail b + 1) mod m_size b\<rparr>"

definition mbox_prev :: "pf_mbox \<Rightarrow> nat" where
  "mbox_prev b = (m_head b + m_size b - 1) mod m_size b"

definition mbox_add_front :: "stMboxMessage \<Rightarrow> pf_mbox \<Rightarrow> pf_mbox" where
  "mbox_add_front m b = b\<lparr>m_head := mbox_prev b, p_array := (p_array b)[mbox_prev b := m]\<rparr>"

lemma mbox_full_count: "mbox_shape b \<Longrightarrow> mbox_full b \<longleftrightarrow> length (mbox_slots b) = m_size b - 1"
  unfolding mbox_full_def mbox_shape_def using ring_full[of "m_head b" "m_size b" "m_tail b"]
  by (simp add: ring_slots_def)

lemma map_slots_upd:
  assumes "i \<notin> set xs"
  shows "map (\<lambda>j. f ((arr[i := m]) ! j)) xs = map (\<lambda>j. f (arr ! j)) xs"
  using assms by (intro map_cong) (simp_all add: nth_update_notin)

lemma add_back:
  assumes "mbox_shape b" "\<not> mbox_full b" "length (shortpayload m) = SHORT_PACK_SIZE"
  shows "mbox_shape (mbox_add_back m b)"
    "mbox_slots (mbox_add_back m b) = mbox_slots b @ [m_tail b]"
    "map (\<lambda>i. f (p_array (mbox_add_back m b) ! i)) (mbox_slots (mbox_add_back m b))
       = map (\<lambda>i. f (p_array b ! i)) (mbox_slots b) @ [f m]"
    "\<And>i. i \<in> set (mbox_slots b) \<Longrightarrow> p_array (mbox_add_back m b) ! i = p_array b ! i"
    "p_array (mbox_add_back m b) ! m_tail b = m"
proof -
  from assms(1,2) have b: "m_head b < m_size b" "m_tail b < m_size b" "(m_tail b + 1) mod m_size b \<noteq> m_head b"
      "length (p_array b) = m_size b"
    by (simp_all add: mbox_shape_def mbox_full_def)
  show slots: "mbox_slots (mbox_add_back m b) = mbox_slots b @ [m_tail b]"
    using ring_slots_push[OF b(1-3)] by (simp add: mbox_add_back_def)
  have free: "m_tail b \<notin> set (mbox_slots b)" by (rule ring_free_slot(1)[OF b(1-3)])
  show "mbox_shape (mbox_add_back m b)"
    using assms b by (auto simp: mbox_shape_def mbox_add_back_def dest!: subsetD[OF set_update_subset_insert])
  show "map (\<lambda>i. f (p_array (mbox_add_back m b) ! i)) (mbox_slots (mbox_add_back m b))
       = map (\<lambda>i. f (p_array b ! i)) (mbox_slots b) @ [f m]"
    unfolding slots using map_slots_upd[OF free] b by (simp add: mbox_add_back_def)
  show "p_array (mbox_add_back m b) ! i = p_array b ! i" if "i \<in> set (mbox_slots b)" for i
    using nth_update_notin[OF free that] by (simp add: mbox_add_back_def)
  show "p_array (mbox_add_back m b) ! m_tail b = m" using b by (simp add: mbox_add_back_def)
qed

lemma add_front:
  assumes "mbox_shape b" "\<not> mbox_full b" "length (shortpayload m) = SHORT_PACK_SIZE"
  shows "mbox_shape (mbox_add_front m b)"
    "mbox_slots (mbox_add_front m b) = mbox_prev b # mbox_slots b"
    "map (\<lambda>i. f (p_array (mbox_add_front m b) ! i)) (mbox_slots (mbox_add_front m b))
       = f m # map (\<lambda>i. f (p_array b ! i)) (mbox_slots b)"
    "\<And>i. i \<in> set (mbox_slots b) \<Longrightarrow> p_array (mbox_add_front m b) ! i = p_array b ! i"
    "p_array (mbox_add_front m b) ! mbox_prev b = m"
proof -
  from assms(1,2) have b: "m_head b < m_size b" "m_tail b < m_size b" "(m_tail b + 1) mod m_size b \<noteq> m_head b"
      "length (p_array b) = m_size b"
    by (simp_all add: mbox_shape_def mbox_full_def)
  then have p: "mbox_prev b < m_size b" by (simp add: mbox_prev_def)
  show slots: "mbox_slots (mbox_add_front m b) = mbox_prev b # mbox_slots b"
    using ring_slots_push_front[OF b(1-3)] by (simp add: mbox_add_front_def mbox_prev_def)
  have free: "mbox_prev b \<notin> set (mbox_slots b)"
    unfolding mbox_prev_def by (rule ring_free_slot(2)[OF b(1-3)])
  show "mbox_shape (mbox_add_front m b)"
    using assms b p by (auto simp: mbox_shape_def mbox_add_front_def dest!: subsetD[OF set_update_subset_insert])
  show "map (\<lambda>i. f (p_array (mbox_add_front m b) ! i)) (mbox_slots (mbox_add_front m b))
       = f m # map (\<lambda>i. f (p_array b ! i)) (mbox_slots b)"
    unfolding slots using map_slots_upd[OF free] b p by (simp add: mbox_add_front_def)
  show "p_array (mbox_add_front m b) ! i = p_array b ! i" if "i \<in> set (mbox_slots b)" for i
    using nth_update_notin[OF free that] by (simp add: mbox_add_front_def)
  show "p_array (mbox_add_front m b) ! mbox_prev b = m" using b p by (simp add: mbox_add_front_def)
qed

lemma take_first:
  assumes "mbox_shape b" "m_tail b \<noteq> m_head b"
  defines "b' \<equiv> b\<lparr>m_head := (m_head b + 1) mod m_size b\<rparr>"
  shows "mbox_shape b'" "mbox_slots b = m_head b # mbox_slots b'"
proof -
  from assms have b: "m_head b < m_size b" "m_tail b < m_size b" by (simp_all add: mbox_shape_def)
  then show "mbox_shape b'" using assms by (simp add: mbox_shape_def b'_def)
  show "mbox_slots b = m_head b # mbox_slots b'"
    using ring_slots_pop[OF b assms(2)] by (simp add: b'_def)
qed

text \<open>What is written into the slot: the header, and for a short message the bytes.\<close>

definition mbox_msg :: "U32 \<Rightarrow> U32 \<Rightarrow> U32 \<Rightarrow> U32 \<Rightarrow> data_ptr \<Rightarrow> U8 list \<Rightarrow> U32 \<Rightarrow> stMboxMessage" where
  "mbox_msg src msgId dst len ptr payload ticks =
     \<lparr>ulSrcModuleId = src, ulDstModuleId = dst, ulLength = len, ulMsgId = msgId, pucData = ptr,
      shortpayload = payload, ulTick = ticks\<rparr>"

lemma header_msg:
  "m\<lparr>ulSrcModuleId := src, ulMsgId := msgId, ulDstModuleId := dst, ulLength := len, pucData := ptr, ulTick := ticks\<rparr>
   = mbox_msg src msgId dst len ptr (shortpayload m) ticks"
  by (cases m) (simp add: mbox_msg_def)

lemma msg_payload_upd [simp]:
  "(mbox_msg src msgId dst len ptr p ticks)\<lparr>shortpayload := p'\<rparr> = mbox_msg src msgId dst len ptr p' ticks"
  "shortpayload (mbox_msg src msgId dst len ptr p ticks) = p"
  "pucData (mbox_msg src msgId dst len ptr p ticks) = ptr"
  "ulLength (mbox_msg src msgId dst len ptr p ticks) = len"
  by (simp_all add: mbox_msg_def)

lemma length_memcpy_at [simp]:
  "off + n \<le> length dst \<Longrightarrow> n \<le> length src \<Longrightarrow> length (memcpy_at off src n dst) = length dst"
  by (simp add: memcpy_at_def)

lemma take_memcpy_at [simp]:
  "n \<le> length src \<Longrightarrow> take n (memcpy_at 0 src n dst) = take n src"
  by (simp add: memcpy_at_def)

lemma mbox_put_eqs:
  assumes "mbox_shape b"
  defines "pay i \<equiv> shortpayload (p_array b ! i)"
  shows "mbox_try_put src msgId dst ptr len ticks b =
      (if mbox_full b then (False, b)
       else (True, mbox_add_back (mbox_msg src msgId dst len ptr (pay (m_tail b)) ticks) b))"
    "mbox_put src msgId dst ptr len ticks b =
      (if mbox_full b then None
       else Some (mbox_add_back (mbox_msg src msgId dst len ptr (pay (m_tail b)) ticks) b))"
    "mbox_try_put_copy_data src msgId dst data len ticks b =
      (if mbox_full b then (False, b)
       else (True, mbox_add_back (mbox_msg src msgId dst len (PSlot (m_tail b))
               (memcpy_at 0 data (unat len) (pay (m_tail b))) ticks) b))"
    "mbox_put_copy_data src msgId dst data len ticks b =
      (if mbox_full b then None
       else Some (mbox_add_back (mbox_msg src msgId dst len (PSlot (m_tail b))
               (memcpy_at 0 data (unat len) (pay (m_tail b))) ticks) b))"
    "mbox_put_copy_data2 src msgId dst data len data2 len2 ticks b =
      (if mbox_full b then None
       else Some (mbox_add_back (mbox_msg src msgId dst (len + len2) (PSlot (m_tail b))
               (memcpy_at (unat len) data2 (unat len2) (memcpy_at 0 data (unat len) (pay (m_tail b)))) ticks) b))"
    "mbox_try_put_head busy src msgId dst ptr len ticks b =
      (if busy \<or> mbox_full b then (False, b)
       else (True, mbox_add_front (mbox_msg src msgId dst len ptr (pay (mbox_prev b)) ticks) b))"
    "mbox_put_head src msgId dst ptr len ticks b =
      (if mbox_full b then None
       else Some (mbox_add_front (mbox_msg src msgId dst len ptr (pay (mbox_prev b)) ticks) b))"
    "mbox_try_put_head_copy_data busy src msgId dst data len ticks b =
      (if busy \<or> mbox_full b then (False, b)
       else (True, mbox_add_front (mbox_msg src msgId dst len (PSlot (mbox_prev b))
               (memcpy_at 0 data (unat len) (pay (mbox_prev b))) ticks) b))"
    "mbox_put_head_copy_data src msgId dst data len ticks b =
      (if mbox_full b then None
       else Some (mbox_add_front (mbox_msg src msgId dst len (PSlot (mbox_prev b))
               (memcpy_at 0 data (unat len) (pay (mbox_prev b))) ticks) b))"
proof -
  from assms(1) have t: "m_tail b < length (p_array b)" and p: "(m_head b + m_size b - 1) mod m_size b < length (p_array b)"
    by (auto simp: mbox_shape_def)
  note defs = mbox_header_def mbox_payload_def header_msg mbox_add_back_def mbox_add_front_def mbox_prev_def
    pay_def Let_def
  show "mbox_try_put src msgId dst ptr len ticks b =
      (if mbox_full b then (False, b)
       else (True, mbox_add_back (mbox_msg src msgId dst len ptr (pay (m_tail b)) ticks) b))"
    using t by (simp add: mbox_try_put_def defs)
  show "mbox_put src msgId dst ptr len ticks b =
      (if mbox_full b then None
       else Some (mbox_add_back (mbox_msg src msgId dst len ptr (pay (m_tail b)) ticks) b))"
    using t by (simp add: mbox_put_def defs)
  show "mbox_try_put_copy_data src msgId dst data len ticks b =
      (if mbox_full b then (False, b)
       else (True, mbox_add_back (mbox_msg src msgId dst len (PSlot (m_tail b))
               (memcpy_at 0 data (unat len) (pay (m_tail b))) ticks) b))"
    using t by (simp add: mbox_try_put_copy_data_def defs)
  show "mbox_put_copy_data src msgId dst data len ticks b =
      (if mbox_full b then None
       else Some (mbox_add_back (mbox_msg src msgId dst len (PSlot (m_tail b))
               (memcpy_at 0 data (unat len) (pay (m_tail b))) ticks) b))"
    using t by (simp add: mbox_put_copy_data_def defs)
  show "mbox_put_copy_data2 src msgId dst data len data2 len2 ticks b =
      (if mbox_full b then None
       else Some (mbox_add_back (mbox_msg src msgId dst (len + len2) (PSlot (m_tail b))
               (memcpy_at (unat len) data2 (unat len2) (memcpy_at 0 data (unat len) (pay (m_tail b)))) ticks) b))"
    using t by (simp add: mbox_put_copy_data2_def defs)
  show "mbox_try_put_head busy src msgId dst ptr len ticks b =
      (if busy \<or> mbox_full b then (False, b)
       else (True, mbox_add_front (mbox_msg src msgId dst len ptr (pay (mbox_prev b)) ticks) b))"
    using p by (simp add: mbox_try_put_head_def defs)
  show "mbox_put_head src msgId dst ptr len ticks b =
      (if mbox_full b then None
       else Some (mbox_add_front (mbox_msg src msgId dst len ptr (pay (mbox_prev b)) ticks) b))"
    using p by (simp add: mbox_put_head_def defs)
  show "mbox_try_put_head_copy_data busy src msgId dst data len ticks b =
      (if busy \<or> mbox_full b then (False, b)
       else (True, mbox_add_front (mbox_msg src msgId dst len (PSlot (mbox_prev b))
               (memcpy_at 0 data (unat len) (pay (mbox_prev b))) ticks) b))"
    using p by (simp add: mbox_try_put_head_copy_data_def defs)
  show "mbox_put_head_copy_data src msgId dst data len ticks b =
      (if mbox_full b then None
       else Some (mbox_add_front (mbox_msg src msgId dst len (PSlot (mbox_prev b))
               (memcpy_at 0 data (unat len) (pay (mbox_prev b))) ticks) b))"
    using p by (simp add: mbox_put_head_copy_data_def defs)
qed

lemma add_back_ok:
  assumes "mbox_ok hp b" "\<not> mbox_full b" "length (shortpayload m) = SHORT_PACK_SIZE" "slot_ok hp (m_tail b) m"
  shows "mbox_ok hp (mbox_add_back m b)" "mbox_view hp (mbox_add_back m b) = mbox_view hp b @ [msg_view hp m]"
    "mbox_blocks (mbox_add_back m b) = mbox_blocks b @ msg_blocks m"
proof -
  from assms(1) have sh: "mbox_shape b" by (simp add: mbox_ok_def)
  note ab = add_back[OF sh assms(2,3)]
  show "mbox_view hp (mbox_add_back m b) = mbox_view hp b @ [msg_view hp m]"
    using ab(3)[of "msg_view hp"] by (simp add: mbox_view_def)
  show "mbox_blocks (mbox_add_back m b) = mbox_blocks b @ msg_blocks m"
    using ab(3)[of msg_blocks] by (simp add: mbox_blocks_def)
  show "mbox_ok hp (mbox_add_back m b)"
    using ab(1,2,4,5) assms(1,4) by (auto simp: mbox_ok_def)
qed

lemma add_front_ok:
  assumes "mbox_ok hp b" "\<not> mbox_full b" "length (shortpayload m) = SHORT_PACK_SIZE" "slot_ok hp (mbox_prev b) m"
  shows "mbox_ok hp (mbox_add_front m b)" "mbox_view hp (mbox_add_front m b) = msg_view hp m # mbox_view hp b"
    "mbox_blocks (mbox_add_front m b) = msg_blocks m @ mbox_blocks b"
proof -
  from assms(1) have sh: "mbox_shape b" by (simp add: mbox_ok_def)
  note ab = add_front[OF sh assms(2,3)]
  show "mbox_view hp (mbox_add_front m b) = msg_view hp m # mbox_view hp b"
    using ab(3)[of "msg_view hp"] by (simp add: mbox_view_def)
  show "mbox_blocks (mbox_add_front m b) = msg_blocks m @ mbox_blocks b"
    using ab(3)[of msg_blocks] by (simp add: mbox_blocks_def)
  show "mbox_ok hp (mbox_add_front m b)"
    using ab(1,2,4,5) assms(1,4) by (auto simp: mbox_ok_def)
qed

lemma mbox_get_ok:
  assumes "mbox_ok hp b"
  shows "mbox_get b = None \<longleftrightarrow> mbox_view hp b = []"
    "mbox_get b = Some (m, b') \<Longrightarrow> mbox_ok hp b' \<and> mbox_view hp b = msg_view hp m # mbox_view hp b' \<and>
       mbox_blocks b = msg_blocks m @ mbox_blocks b' \<and> slot_ok hp (m_head b) m \<and>
       length (shortpayload m) = SHORT_PACK_SIZE \<and> m_size b' = m_size b"
proof -
  from assms have sh: "mbox_shape b" by (simp add: mbox_ok_def)
  then have e: "m_tail b = m_head b \<longleftrightarrow> mbox_slots b = []"
    using ring_empty[of "m_head b" "m_size b" "m_tail b"] by (simp add: mbox_shape_def ring_slots_def)
  then show "mbox_get b = None \<longleftrightarrow> mbox_view hp b = []"
    by (simp add: mbox_get_def mbox_view_def)
  assume g: "mbox_get b = Some (m, b')"
  then have ne: "m_tail b \<noteq> m_head b" and m: "m = p_array b ! m_head b"
    and b': "b' = b\<lparr>m_head := (m_head b + 1) mod m_size b\<rparr>"
    by (auto simp: mbox_get_def split: if_splits)
  note tf = take_first[OF sh ne, folded b']
  have "m \<in> set (p_array b)" using sh m by (auto simp: mbox_shape_def)
  then show "mbox_ok hp b' \<and> mbox_view hp b = msg_view hp m # mbox_view hp b' \<and>
       mbox_blocks b = msg_blocks m @ mbox_blocks b' \<and> slot_ok hp (m_head b) m \<and>
       length (shortpayload m) = SHORT_PACK_SIZE \<and> m_size b' = m_size b"
    using tf assms sh m by (simp add: mbox_ok_def mbox_view_def mbox_blocks_def mbox_shape_def b')
qed

lemma mbox_size_view: "mbox_ok hp b \<Longrightarrow> mbox_size b = length (mbox_view hp b)"
  by (simp add: mbox_size_def mbox_view_def ring_slots_def ring_count_def)

section \<open>The mailbox as a bounded double-ended queue\<close>

datatype 'm dq_op = PushBack 'm | PushFront 'm | PopFront

text \<open>Running a list of operations; a push that finds no room is skipped, as is a pop that finds
  nothing.  The result has the messages taken out, the messages accepted, and the queue.\<close>

fun dq_run ::
  "('m \<Rightarrow> 'q \<Rightarrow> 'q option) \<Rightarrow> ('m \<Rightarrow> 'q \<Rightarrow> 'q option) \<Rightarrow> ('q \<Rightarrow> ('m \<times> 'q) option)
   \<Rightarrow> 'm dq_op list \<Rightarrow> 'q \<Rightarrow> 'm list \<times> 'm list \<times> 'q" where
  "dq_run pb pf pop [] q = ([], [], q)"
| "dq_run pb pf pop (PushBack m # ops) q =
     (case pb m q of None \<Rightarrow> dq_run pb pf pop ops q
      | Some q \<Rightarrow> (let (r, s, q) = dq_run pb pf pop ops q in (r, m # s, q)))"
| "dq_run pb pf pop (PushFront m # ops) q =
     (case pf m q of None \<Rightarrow> dq_run pb pf pop ops q
      | Some q \<Rightarrow> (let (r, s, q) = dq_run pb pf pop ops q in (r, m # s, q)))"
| "dq_run pb pf pop (PopFront # ops) q =
     (case pop q of None \<Rightarrow> dq_run pb pf pop ops q
      | Some (m, q) \<Rightarrow> (let (r, s, q) = dq_run pb pf pop ops q in (m # r, s, q)))"

fun dq_msg :: "'m dq_op \<Rightarrow> 'm list" where
  "dq_msg (PushBack m) = [m]" | "dq_msg (PushFront m) = [m]" | "dq_msg PopFront = []"

locale bounded_deque = bounded_fifo ok view cap valid push_back pop
  for ok :: "'q \<Rightarrow> bool" and view :: "'q \<Rightarrow> 'm list" and cap :: "'q \<Rightarrow> nat" and valid :: "'m \<Rightarrow> bool"
    and push_back :: "'m \<Rightarrow> 'q \<Rightarrow> 'q option" and pop :: "'q \<Rightarrow> ('m \<times> 'q) option" +
  fixes push_front :: "'m \<Rightarrow> 'q \<Rightarrow> 'q option"
  assumes push_front: "\<lbrakk>ok q; valid m\<rbrakk> \<Longrightarrow>
      (case push_front m q of None \<Rightarrow> length (view q) = cap q
       | Some q' \<Rightarrow> length (view q) < cap q \<and> ok q' \<and> view q' = m # view q \<and> cap q' = cap q)"
begin

lemma run_ok:
  assumes "ok q" "\<forall>m \<in> set (concat (map dq_msg ops)). valid m" "dq_run push_back push_front pop ops q = (r, s, q')"
  shows "ok q' \<and> cap q' = cap q \<and> mset r + mset (view q') = mset (view q) + mset s"
  using assms
proof (induction ops arbitrary: q r s)
  case (Cons p ops)
  show ?case
  proof (cases p)
    case (PushBack m)
    then show ?thesis
      using Cons.IH Cons.prems push_back[of q m] by (fastforce split: option.splits prod.splits)
  next
    case (PushFront m)
    then show ?thesis
      using Cons.IH Cons.prems push_front[of q m] by (fastforce split: option.splits prod.splits)
  next
    case PopFront
    then show ?thesis
      using Cons.IH Cons.prems pop[of q] by (fastforce split: option.splits prod.splits)
  qed
qed simp

lemma run_fifo:
  assumes "ok q" "\<forall>m \<in> set (concat (map dq_msg ops)). valid m" "\<forall>m. PushFront m \<notin> set ops"
    "dq_run push_back push_front pop ops q = (r, s, q')"
  shows "r @ view q' = view q @ s"
  using assms
proof (induction ops arbitrary: q r s)
  case (Cons p ops)
  show ?case
  proof (cases p)
    case (PushBack m)
    then show ?thesis
      using Cons.IH Cons.prems push_back[of q m] by (fastforce split: option.splits prod.splits)
  next
    case (PushFront m)
    then show ?thesis using Cons.prems(3) by auto
  next
    case PopFront
    then show ?thesis
      using Cons.IH Cons.prems pop[of q] by (fastforce split: option.splits prod.splits)
  qed
qed simp

end

text \<open>Short messages through the copying operations: the operations whose contract the mailbox
  provides.\<close>

definition short_msg :: "amsg \<Rightarrow> bool" where
  "short_msg m \<longleftrightarrow> (case m of (src, msgId, dst, bytes, ticks) \<Rightarrow> length bytes \<le> SHORT_PACK_SIZE)"

definition mbox_send_back :: "amsg \<Rightarrow> pf_mbox \<Rightarrow> pf_mbox option" where
  "mbox_send_back m b = (case m of (src, msgId, dst, bytes, ticks) \<Rightarrow>
     mbox_put_copy_data src msgId dst bytes (of_nat (length bytes)) ticks b)"

definition mbox_send_front :: "amsg \<Rightarrow> pf_mbox \<Rightarrow> pf_mbox option" where
  "mbox_send_front m b = (case m of (src, msgId, dst, bytes, ticks) \<Rightarrow>
     mbox_put_head_copy_data src msgId dst bytes (of_nat (length bytes)) ticks b)"

definition mbox_receive :: "heap_blocks \<Rightarrow> pf_mbox \<Rightarrow> (amsg \<times> pf_mbox) option" where
  "mbox_receive hp b = map_option (\<lambda>(m, b). (msg_view hp m, b)) (mbox_get b)"

lemma slot_payload:
  assumes "mbox_shape b"
  shows "length (shortpayload (p_array b ! m_tail b)) = SHORT_PACK_SIZE"
    "length (shortpayload (p_array b ! mbox_prev b)) = SHORT_PACK_SIZE"
  using assms by (auto simp: mbox_shape_def mbox_prev_def)

lemma short_msg_ok:
  fixes src msgId dst ticks :: U32 and i :: nat
  assumes "length p = SHORT_PACK_SIZE" "unat len \<le> SHORT_PACK_SIZE" "unat len \<le> length bytes"
  defines "m \<equiv> mbox_msg src msgId dst len (PSlot i) (memcpy_at 0 bytes (unat len) p) ticks"
  shows "slot_ok hp i m" "length (shortpayload m) = SHORT_PACK_SIZE" "msg_blocks m = []"
    "msg_view hp m = (src, msgId, dst, take (unat len) bytes, ticks)"
  using assms by (simp_all add: slot_ok_def msg_long_def msg_blocks_def msg_view_def mbox_msg_def)

lemma short_len:
  assumes "length bytes \<le> SHORT_PACK_SIZE"
  shows "unat (of_nat (length bytes) :: U32) = length bytes"
  using assms by (simp add: SHORT_PACK_SIZE_def unat_of_nat)

lemma mbox_full_view: "mbox_ok hp b \<Longrightarrow> mbox_full b \<longleftrightarrow> length (mbox_view hp b) = m_size b - 1"
  by (simp add: mbox_view_def mbox_full_count mbox_ok_def)

lemma mbox_view_bound: "mbox_ok hp b \<Longrightarrow> length (mbox_view hp b) \<le> m_size b - 1"
  using ring_count_less[of "m_size b" "m_head b" "m_tail b"]
  by (auto simp: mbox_ok_def mbox_shape_def mbox_view_def ring_slots_def)

interpretation mq: bounded_deque "mbox_ok hp" "mbox_view hp" "\<lambda>b. m_size b - 1" short_msg
  mbox_send_back "mbox_receive hp" mbox_send_front for hp
proof
  fix q :: pf_mbox and m :: amsg
  assume ok: "mbox_ok hp q" and v: "short_msg m"
  obtain src msgId dst bytes ticks where m: "m = (src, msgId, dst, bytes, ticks)" by (cases m)
  have sh: "mbox_shape q" using ok by (simp add: mbox_ok_def)
  have len: "length bytes \<le> SHORT_PACK_SIZE" using v m by (simp add: short_msg_def)
  note u = short_len[OF len]
  have b: "unat (of_nat (length bytes) :: U32) \<le> SHORT_PACK_SIZE" "unat (of_nat (length bytes) :: U32) \<le> length bytes"
    using u len by simp_all
  note x = short_msg_ok[OF slot_payload(1)[OF sh] b] and y = short_msg_ok[OF slot_payload(2)[OF sh] b]
  have lt: "\<not> mbox_full q \<Longrightarrow> length (mbox_view hp q) < m_size q - 1"
    using mbox_full_view[OF ok] mbox_view_bound[OF ok] by simp
  show "case mbox_send_back m q of None \<Rightarrow> length (mbox_view hp q) = m_size q - 1
       | Some q' \<Rightarrow> length (mbox_view hp q) < m_size q - 1 \<and> mbox_ok hp q' \<and>
           mbox_view hp q' = mbox_view hp q @ [m] \<and> m_size q' - 1 = m_size q - 1"
    using add_back_ok[OF ok _ x(2) x(1)] mbox_full_view[OF ok] lt x(4) u
    by (auto simp: mbox_send_back_def m mbox_put_eqs[OF sh] mbox_add_back_def)
  show "case mbox_send_front m q of None \<Rightarrow> length (mbox_view hp q) = m_size q - 1
       | Some q' \<Rightarrow> length (mbox_view hp q) < m_size q - 1 \<and> mbox_ok hp q' \<and>
           mbox_view hp q' = m # mbox_view hp q \<and> m_size q' - 1 = m_size q - 1"
    using add_front_ok[OF ok _ y(2) y(1)] mbox_full_view[OF ok] lt y(4) u
    by (auto simp: mbox_send_front_def m mbox_put_eqs[OF sh] mbox_add_front_def)
next
  fix q :: pf_mbox
  assume ok: "mbox_ok hp q"
  show "case mbox_receive hp q of None \<Rightarrow> mbox_view hp q = []
       | Some (m, q') \<Rightarrow> mbox_ok hp q' \<and> mbox_view hp q = m # mbox_view hp q' \<and> m_size q' - 1 = m_size q - 1"
    using mbox_get_ok[OF ok] by (auto simp: mbox_receive_def split: option.splits)
qed

section \<open>The mailboxes of the process\<close>

text \<open>Every block that was allocated for a long message belongs to exactly one queued message.\<close>

definition queue_blocks :: "pf_mbox option \<Rightarrow> nat list" where
  "queue_blocks q = (case q of None \<Rightarrow> [] | Some b \<Rightarrow> mbox_blocks b)"

definition sys_blocks :: "mbox_sys \<Rightarrow> nat list" where
  "sys_blocks s = concat (map queue_blocks (msgQArray s))"

definition sys_ok :: "mbox_sys \<Rightarrow> bool" where
  "sys_ok s \<longleftrightarrow> length (msgQArray s) = MODULE_TASK_MAX \<and>
     (\<forall>b. Some b \<in> set (msgQArray s) \<longrightarrow> mbox_ok (blocks s) b) \<and>
     distinct (sys_blocks s) \<and> set (sys_blocks s) = dom (blocks s)"

definition sys_view :: "mbox_sys \<Rightarrow> amsg list option list" where
  "sys_view s = map (map_option (mbox_view (blocks s))) (msgQArray s)"

lemma msg_cong:
  assumes "\<forall>a \<in> set (msg_blocks m). hp' a = hp a"
  shows "slot_ok hp' i m = slot_ok hp i m" "msg_view hp' m = msg_view hp m"
  using assms by (auto simp: msg_blocks_def slot_ok_def msg_view_def split: data_ptr.splits)

lemma mbox_cong:
  assumes "\<forall>a \<in> set (mbox_blocks b). hp' a = hp a"
  shows "mbox_ok hp' b = mbox_ok hp b" "mbox_view hp' b = mbox_view hp b"
proof -
  have "\<forall>a \<in> set (msg_blocks (p_array b ! i)). hp' a = hp a" if "i \<in> set (mbox_slots b)" for i
    using assms that by (auto simp: mbox_blocks_def)
  from msg_cong[OF this] show "mbox_ok hp' b = mbox_ok hp b" "mbox_view hp' b = mbox_view hp b"
    by (simp_all add: mbox_ok_def mbox_view_def)
qed

text \<open>Replacing one queue, with the blocks it gains or gives back.\<close>

lemma sys_replace:
  assumes ok: "sys_ok s" and d: "d < MODULE_TASK_MAX" "msgQArray s ! d = Some q"
    and q': "mbox_ok hp' q'" "distinct (mbox_blocks q')"
    and agree: "\<forall>a \<in> dom (blocks s) - set (mbox_blocks q). hp' a = blocks s a"
    and blk: "set (mbox_blocks q') \<inter> (dom (blocks s) - set (mbox_blocks q)) = {}"
      "dom hp' = (dom (blocks s) - set (mbox_blocks q)) \<union> set (mbox_blocks q')"
  defines "s' \<equiv> s\<lparr>msgQArray := (msgQArray s)[d := Some q'], blocks := hp'\<rparr>"
  shows "sys_ok s'" "sys_view s' = (sys_view s)[d := Some (mbox_view hp' q')]"
proof -
  define xs ys where "xs = take d (msgQArray s)" and "ys = drop (Suc d) (msgQArray s)"
  have len: "length (msgQArray s) = MODULE_TASK_MAX" and dst: "distinct (sys_blocks s)"
    and dom: "set (sys_blocks s) = dom (blocks s)"
    using ok by (simp_all add: sys_ok_def)
  have arr: "msgQArray s = xs @ Some q # ys" and lx: "length xs = d"
    using id_take_nth_drop[of d "msgQArray s"] d len by (simp_all add: xs_def ys_def)
  have arr': "msgQArray s' = xs @ Some q' # ys" using arr lx by (auto simp: s'_def)
  let ?A = "concat (map queue_blocks xs)" and ?B = "concat (map queue_blocks ys)"
  have B: "sys_blocks s = ?A @ mbox_blocks q @ ?B" by (simp add: sys_blocks_def arr queue_blocks_def)
  have B': "sys_blocks s' = ?A @ mbox_blocks q' @ ?B" by (simp add: sys_blocks_def arr' queue_blocks_def)
  have rest: "set ?A \<union> set ?B = dom (blocks s) - set (mbox_blocks q)"
    using dst dom unfolding B by auto
  have other: "mbox_ok hp' b \<and> mbox_view hp' b = mbox_view (blocks s) b" if "Some b \<in> set xs \<union> set ys" for b
  proof -
    have "set (mbox_blocks b) \<subseteq> set ?A \<union> set ?B" using that by (force simp: queue_blocks_def)
    then have "\<forall>a \<in> set (mbox_blocks b). hp' a = blocks s a" using agree rest by blast
    moreover have "mbox_ok (blocks s) b" using ok that by (auto simp: sys_ok_def arr)
    ultimately show ?thesis using mbox_cong by blast
  qed
  have "set ?A \<inter> set (mbox_blocks q') = {}" "set (mbox_blocks q') \<inter> set ?B = {}"
    using blk(1) rest by blast+
  with dst q'(2) have "distinct (sys_blocks s')"
    unfolding B B' distinct_append set_append by blast
  moreover have "set (sys_blocks s') = dom (blocks s')"
    using rest blk(2) unfolding B' set_append by (simp add: s'_def) blast
  ultimately show "sys_ok s'"
    using other q'(1) len arr by (auto simp: sys_ok_def arr') (auto simp: s'_def)
  have "map (map_option (mbox_view hp')) zs = map (map_option (mbox_view (blocks s))) zs"
    if "set zs \<subseteq> set xs \<union> set ys" for zs
    using that other by (auto split: option.split intro!: option.map_cong)
  from this[of xs] this[of ys] show "sys_view s' = (sys_view s)[d := Some (mbox_view hp' q')]"
    using lx by (simp add: sys_view_def arr arr' list_update_append) (simp add: s'_def)
qed

lemma sys_queue_blocks:
  assumes "sys_ok s" "d < MODULE_TASK_MAX" "msgQArray s ! d = Some q"
  shows "mbox_ok (blocks s) q" "set (mbox_blocks q) \<subseteq> dom (blocks s)" "distinct (mbox_blocks q)"
proof -
  have m: "Some q \<in> set (msgQArray s)" using assms by (metis nth_mem sys_ok_def)
  then show "mbox_ok (blocks s) q" using assms(1) by (simp add: sys_ok_def)
  show "set (mbox_blocks q) \<subseteq> dom (blocks s)"
    using assms(1) m by (force simp: sys_ok_def sys_blocks_def queue_blocks_def)
  have "queue_blocks (Some q) \<in> set (map queue_blocks (msgQArray s))" using m by simp
  then show "distinct (mbox_blocks q)"
    using assms(1) unfolding sys_ok_def sys_blocks_def queue_blocks_def
    by (auto simp: distinct_concat_iff)
qed

text \<open>A message enters a queue at either end; a long one brings its block, which is new.\<close>

definition brings :: "heap_blocks \<Rightarrow> stMboxMessage \<Rightarrow> heap_blocks \<Rightarrow> bool" where
  "brings hp m hp' \<longleftrightarrow> (msg_blocks m = [] \<and> hp' = hp) \<or>
     (\<exists>a bs. msg_blocks m = [a] \<and> hp a = None \<and> hp' = hp(a \<mapsto> bs))"

lemma sys_add:
  assumes ok: "sys_ok s" and d: "d < MODULE_TASK_MAX" "msgQArray s ! d = Some q" and nf: "\<not> mbox_full q"
    and m: "length (shortpayload m) = SHORT_PACK_SIZE" "brings (blocks s) m hp'"
  shows "slot_ok hp' (m_tail q) m \<Longrightarrow>
      sys_ok (s\<lparr>msgQArray := (msgQArray s)[d := Some (mbox_add_back m q)], blocks := hp'\<rparr>) \<and>
      sys_view (s\<lparr>msgQArray := (msgQArray s)[d := Some (mbox_add_back m q)], blocks := hp'\<rparr>)
        = (sys_view s)[d := Some (mbox_view (blocks s) q @ [msg_view hp' m])]"
    "slot_ok hp' (mbox_prev q) m \<Longrightarrow>
      sys_ok (s\<lparr>msgQArray := (msgQArray s)[d := Some (mbox_add_front m q)], blocks := hp'\<rparr>) \<and>
      sys_view (s\<lparr>msgQArray := (msgQArray s)[d := Some (mbox_add_front m q)], blocks := hp'\<rparr>)
        = (sys_view s)[d := Some (msg_view hp' m # mbox_view (blocks s) q)]"
proof -
  note q = sys_queue_blocks[OF ok d]
  have agree: "\<forall>a \<in> dom (blocks s). hp' a = blocks s a"
    using m(2) by (auto simp: brings_def)
  then have agree_rest: "\<forall>a \<in> dom (blocks s) - set (mbox_blocks q). hp' a = blocks s a" by blast
  have dom: "dom hp' = dom (blocks s) \<union> set (msg_blocks m)" "set (msg_blocks m) \<inter> dom (blocks s) = {}"
    "distinct (msg_blocks m)"
    using m(2) by (auto simp: brings_def)
  have "\<forall>a \<in> set (mbox_blocks q). hp' a = blocks s a" using agree q(2) by blast
  from mbox_cong[OF this] q(1) have cong: "mbox_ok hp' q" "mbox_view hp' q = mbox_view (blocks s) q"
    by simp_all
  show "sys_ok (s\<lparr>msgQArray := (msgQArray s)[d := Some (mbox_add_back m q)], blocks := hp'\<rparr>) \<and>
      sys_view (s\<lparr>msgQArray := (msgQArray s)[d := Some (mbox_add_back m q)], blocks := hp'\<rparr>)
        = (sys_view s)[d := Some (mbox_view (blocks s) q @ [msg_view hp' m])]"
    if "slot_ok hp' (m_tail q) m"
  proof -
    note a = add_back_ok[OF cong(1) nf m(1) that]
    have D: "distinct (mbox_blocks (mbox_add_back m q))"
      "set (mbox_blocks (mbox_add_back m q)) \<inter> (dom (blocks s) - set (mbox_blocks q)) = {}"
      "dom hp' = (dom (blocks s) - set (mbox_blocks q)) \<union> set (mbox_blocks (mbox_add_back m q))"
      unfolding a(3) distinct_append set_append dom(1) using q(2,3) dom(2,3) by blast+
    show ?thesis
      using sys_replace[OF ok d a(1) D(1) agree_rest D(2,3)] unfolding a(2) cong(2) by simp
  qed
  show "sys_ok (s\<lparr>msgQArray := (msgQArray s)[d := Some (mbox_add_front m q)], blocks := hp'\<rparr>) \<and>
      sys_view (s\<lparr>msgQArray := (msgQArray s)[d := Some (mbox_add_front m q)], blocks := hp'\<rparr>)
        = (sys_view s)[d := Some (msg_view hp' m # mbox_view (blocks s) q)]"
    if "slot_ok hp' (mbox_prev q) m"
  proof -
    note a = add_front_ok[OF cong(1) nf m(1) that]
    have D: "distinct (mbox_blocks (mbox_add_front m q))"
      "set (mbox_blocks (mbox_add_front m q)) \<inter> (dom (blocks s) - set (mbox_blocks q)) = {}"
      "dom hp' = (dom (blocks s) - set (mbox_blocks q)) \<union> set (mbox_blocks (mbox_add_front m q))"
      unfolding a(3) distinct_append set_append dom(1) using q(2,3) dom(2,3) by blast+
    show ?thesis
      using sys_replace[OF ok d a(1) D(1) agree_rest D(2,3)] unfolding a(2) cong(2) by simp
  qed
qed

section \<open>What a send does\<close>

text \<open>The sender's data must be readable up to the length, and \<open>pf_malloc\<close> returns memory that is
  not in use.\<close>

definition send_args_ok :: "nat option \<Rightarrow> U8 list option \<Rightarrow> U32 \<Rightarrow> mbox_sys \<Rightarrow> bool" where
  "send_args_ok malloc pData len s \<longleftrightarrow>
     (\<forall>d. pData = Some d \<longrightarrow> unat len \<le> length d) \<and> (\<forall>a. malloc = Some a \<longrightarrow> blocks s a = None)"

text \<open>The checks that come before the mailbox: the target module, the data pointer, the queue
  and the memory for a long message.\<close>

definition send_checks :: "nat option \<Rightarrow> U32 \<Rightarrow> U8 list option \<Rightarrow> U32 \<Rightarrow> mbox_sys \<Rightarrow> bool" where
  "send_checks malloc dst pData len s \<longleftrightarrow>
     dst < MODULE_MAX \<and> (pData = None \<longrightarrow> len = 0) \<and> msgQArray s ! unat dst \<noteq> None \<and>
     (unat len > SHORT_PACK_SIZE \<longrightarrow> malloc \<noteq> None)"

definition data_of :: "U8 list option \<Rightarrow> U8 list" where
  "data_of pData = (case pData of None \<Rightarrow> [] | Some d \<Rightarrow> d)"

definition send_msg :: "U32 \<Rightarrow> U32 \<Rightarrow> U32 \<Rightarrow> U8 list option \<Rightarrow> U32 \<Rightarrow> U32 \<Rightarrow> amsg" where
  "send_msg src msgId dst pData len ticks = (src, msgId, dst, take (unat len) (data_of pData), ticks)"

lemma dst_bound: "dst < MODULE_MAX \<Longrightarrow> unat dst < MODULE_TASK_MAX"
  by (simp add: MODULE_MAX_def MODULE_TASK_MAX_def word_less_nat_alt)

lemma long_msg_ok:
  fixes src msgId dst ticks :: U32 and i :: nat
  assumes "length p = SHORT_PACK_SIZE" "unat len > SHORT_PACK_SIZE" "hp a = None" "length bs = unat len"
  defines "m \<equiv> mbox_msg src msgId dst len (PHeap a) p ticks"
  shows "slot_ok (hp(a \<mapsto> bs)) i m" "length (shortpayload m) = SHORT_PACK_SIZE" "brings hp m (hp(a \<mapsto> bs))"
    "msg_view (hp(a \<mapsto> bs)) m = (src, msgId, dst, bs, ticks)"
  using assms by (auto simp: slot_ok_def msg_long_def msg_blocks_def msg_view_def mbox_msg_def brings_def)

lemma brings_short: "msg_blocks m = [] \<Longrightarrow> brings hp m hp"
  by (simp add: brings_def)

text \<open>The message that the queue gets, and the state after it is in.\<close>

definition queued :: "nat option \<Rightarrow> U32 \<Rightarrow> U32 \<Rightarrow> U32 \<Rightarrow> U8 list option \<Rightarrow> U32 \<Rightarrow> U32 \<Rightarrow> pf_mbox \<Rightarrow> nat \<Rightarrow> stMboxMessage" where
  "queued malloc src msgId dst pData len ticks q i =
     (if unat len > SHORT_PACK_SIZE
      then mbox_msg src msgId dst len (PHeap (the malloc)) (shortpayload (p_array q ! i)) ticks
      else mbox_msg src msgId dst len (PSlot i)
             (memcpy_at 0 (data_of pData) (unat len) (shortpayload (p_array q ! i))) ticks)"

definition queued_blocks :: "nat option \<Rightarrow> U8 list option \<Rightarrow> U32 \<Rightarrow> mbox_sys \<Rightarrow> heap_blocks" where
  "queued_blocks malloc pData len s =
     (if unat len > SHORT_PACK_SIZE then (blocks s)(the malloc \<mapsto> take (unat len) (the pData)) else blocks s)"

lemma queued_ok:
  fixes src msgId ticks :: U32
  assumes "mbox_shape q" "send_checks malloc dst pData len s" "send_args_ok malloc pData len s"
    "i = m_tail q \<or> i = mbox_prev q"
  defines "m \<equiv> queued malloc src msgId dst pData len ticks q i" and "hp \<equiv> queued_blocks malloc pData len s"
  shows "slot_ok hp i m" "length (shortpayload m) = SHORT_PACK_SIZE" "brings (blocks s) m hp"
    "msg_view hp m = send_msg src msgId dst pData len ticks"
proof -
  have p: "length (shortpayload (p_array q ! i)) = SHORT_PACK_SIZE"
    using slot_payload[OF assms(1)] assms(4) by auto
  have "slot_ok hp i m \<and> length (shortpayload m) = SHORT_PACK_SIZE \<and> brings (blocks s) m hp \<and>
      msg_view hp m = send_msg src msgId dst pData len ticks"
  proof (cases "unat len > SHORT_PACK_SIZE")
    case True
    then obtain a d where a: "malloc = Some a" "pData = Some d" using assms(2) by (auto simp: send_checks_def)
    then have "blocks s a = None" "length (take (unat len) d) = unat len"
      using assms(3) by (auto simp: send_args_ok_def)
    note x = long_msg_ok[where hp = "blocks s" and a = a and bs = "take (unat len) d" and len = len,
        OF p True this, where src = src and msgId = msgId and dst = dst and ticks = ticks]
    show ?thesis
      using x True a by (simp_all add: m_def hp_def queued_def queued_blocks_def send_msg_def data_of_def)
  next
    case False
    then have l: "unat len \<le> SHORT_PACK_SIZE" "unat len \<le> length (data_of pData)"
      using assms(2,3) by (auto simp: send_checks_def send_args_ok_def data_of_def split: option.splits)
    note x = short_msg_ok[OF p l, where src = src and msgId = msgId and dst = dst and ticks = ticks and i = i]
    show ?thesis
      using x(1,2,4) brings_short[OF x(3)] False
      by (simp_all add: m_def hp_def queued_def queued_blocks_def send_msg_def)
  qed
  then show "slot_ok hp i m" "length (shortpayload m) = SHORT_PACK_SIZE" "brings (blocks s) m hp"
    "msg_view hp m = send_msg src msgId dst pData len ticks" by simp_all
qed

lemma send_steps:
  fixes src msgId ticks :: U32
  assumes "send_checks malloc dst pData len s" "send_args_ok malloc pData len s"
    "msgQArray s ! unat dst = Some q" "mbox_shape q"
  defines "put \<equiv> \<lambda>q'. s\<lparr>msgQArray := (msgQArray s)[unat dst := Some q'], blocks := queued_blocks malloc pData len s\<rparr>"
    and "msg \<equiv> queued malloc src msgId dst pData len ticks q"
  shows "pf_copy_try_msg malloc ticks src msgId dst pData len s =
      (if mbox_full q then (PF_RET_FAILURE, s) else (PF_RET_SUCCESS, put (mbox_add_back (msg (m_tail q)) q)))"
    "pf_copy_msg malloc ticks src msgId dst pData len s =
      (if mbox_full q then None else Some (PF_RET_SUCCESS, put (mbox_add_back (msg (m_tail q)) q)))"
    "pf_copy_try_urgent_msg malloc busy ticks src msgId dst pData len s =
      (if busy \<or> mbox_full q then (PF_RET_FAILURE, s)
       else (PF_RET_SUCCESS, put (mbox_add_front (msg (mbox_prev q)) q)))"
    "pf_copy_urgent_msg malloc ticks src msgId dst pData len s =
      (if mbox_full q then None else Some (PF_RET_SUCCESS, put (mbox_add_front (msg (mbox_prev q)) q)))"
proof -
  have c: "\<not> (MODULE_MAX \<le> dst)" "\<not> (pData = None \<and> len > 0)"
    using assms(1) by (auto simp: send_checks_def word_neq_0_conv)
  note eqs = mbox_put_eqs[OF assms(4)]
  have undo: "s\<lparr>blocks := (blocks s)(a := None)\<rparr> = s" if "malloc = Some a" for a
  proof -
    have "(blocks s)(a := None) = blocks s" using assms(2) that by (simp add: send_args_ok_def fun_upd_idem)
    then show ?thesis by simp
  qed
  have "\<exists>a d. malloc = Some a \<and> pData = Some d" if "unat len > SHORT_PACK_SIZE"
    using that assms(1) by (auto simp: send_checks_def)
  then show "pf_copy_try_msg malloc ticks src msgId dst pData len s =
      (if mbox_full q then (PF_RET_FAILURE, s) else (PF_RET_SUCCESS, put (mbox_add_back (msg (m_tail q)) q)))"
    "pf_copy_msg malloc ticks src msgId dst pData len s =
      (if mbox_full q then None else Some (PF_RET_SUCCESS, put (mbox_add_back (msg (m_tail q)) q)))"
    "pf_copy_try_urgent_msg malloc busy ticks src msgId dst pData len s =
      (if busy \<or> mbox_full q then (PF_RET_FAILURE, s)
       else (PF_RET_SUCCESS, put (mbox_add_front (msg (mbox_prev q)) q)))"
    "pf_copy_urgent_msg malloc ticks src msgId dst pData len s =
      (if mbox_full q then None else Some (PF_RET_SUCCESS, put (mbox_add_front (msg (mbox_prev q)) q)))"
    using c undo
    by (auto simp: pf_copy_try_msg_def pf_copy_msg_def pf_copy_try_urgent_msg_def pf_copy_urgent_msg_def
        assms(3) eqs put_def msg_def queued_def queued_blocks_def data_of_def Let_def)
qed

lemma send_rejected:
  assumes "\<not> send_checks malloc dst pData len s"
  shows "pf_copy_try_msg malloc ticks src msgId dst pData len s = (PF_RET_FAILURE, s)"
    "pf_copy_msg malloc ticks src msgId dst pData len s = Some (PF_RET_FAILURE, s)"
    "pf_copy_try_urgent_msg malloc busy ticks src msgId dst pData len s = (PF_RET_FAILURE, s)"
    "pf_copy_urgent_msg malloc ticks src msgId dst pData len s = Some (PF_RET_FAILURE, s)"
  using assms
  by (auto simp: pf_copy_try_msg_def pf_copy_msg_def pf_copy_try_urgent_msg_def pf_copy_urgent_msg_def
      send_checks_def word_neq_0_conv split: option.splits)

end
