(* ===== verification/Mbox_Properties.thy ===== *)
theory Mbox_Properties
  imports Mbox
begin

text \<open>
  What the mailboxes promise: the four sending functions add exactly the message that was
  handed in, at the end they are meant to, or change nothing; a message box is a bounded
  double-ended queue; a message that is taken out arrives unchanged and its memory is given
  back.  Two defects are stated as theorems as well: the aliasing of \<open>pf_try_get_message\<close> and
  the overrun of \<open>pf_copy_msg2\<close> for lengths whose sum wraps.
\<close>

section \<open>Sending\<close>

definition has_room :: "mbox_sys \<Rightarrow> U32 \<Rightarrow> bool" where
  "has_room s dst \<longleftrightarrow>
     (case msgQArray s ! unat dst of Some q \<Rightarrow> mbox_size q < m_size q - 1 | None \<Rightarrow> False)"

lemma send_queue:
  assumes "sys_ok s" "send_checks malloc dst pData len s"
  obtains q where "msgQArray s ! unat dst = Some q" "unat dst < MODULE_TASK_MAX"
    "mbox_ok (blocks s) q" "mbox_shape q" "has_room s dst \<longleftrightarrow> \<not> mbox_full q"
    "the (sys_view s ! unat dst) = mbox_view (blocks s) q"
proof -
  from assms(2) obtain q where q: "msgQArray s ! unat dst = Some q" and d: "unat dst < MODULE_TASK_MAX"
    by (auto simp: send_checks_def dst_bound)
  note qb = sys_queue_blocks[OF assms(1) d q]
  have "has_room s dst \<longleftrightarrow> \<not> mbox_full q"
    using mbox_full_view[OF qb(1)] mbox_view_bound[OF qb(1)] mbox_size_view[OF qb(1)] q
    by (auto simp: has_room_def)
  moreover have "the (sys_view s ! unat dst) = mbox_view (blocks s) q"
    using assms(1) d q by (simp add: sys_view_def sys_ok_def)
  ultimately show thesis using q d qb(1) that by (simp add: mbox_ok_def)
qed

text \<open>Sending at the back and at the front of a queue that has room.\<close>

lemma send_effect:
  assumes "sys_ok s" "send_args_ok malloc pData len s" "send_checks malloc dst pData len s"
    "msgQArray s ! unat dst = Some q" "\<not> mbox_full q"
  defines "put \<equiv> \<lambda>q'. s\<lparr>msgQArray := (msgQArray s)[unat dst := Some q'], blocks := queued_blocks malloc pData len s\<rparr>"
    and "v \<equiv> the (sys_view s ! unat dst)"
  shows "sys_ok (put (mbox_add_back (queued malloc src msgId dst pData len ticks q (m_tail q)) q))"
    "sys_view (put (mbox_add_back (queued malloc src msgId dst pData len ticks q (m_tail q)) q))
       = (sys_view s)[unat dst := Some (v @ [send_msg src msgId dst pData len ticks])]"
    "sys_ok (put (mbox_add_front (queued malloc src msgId dst pData len ticks q (mbox_prev q)) q))"
    "sys_view (put (mbox_add_front (queued malloc src msgId dst pData len ticks q (mbox_prev q)) q))
       = (sys_view s)[unat dst := Some (send_msg src msgId dst pData len ticks # v)]"
proof -
  obtain q2 where "msgQArray s ! unat dst = Some q2" and d: "unat dst < MODULE_TASK_MAX" and "mbox_shape q2"
    and v: "v = mbox_view (blocks s) q2"
    unfolding v_def by (rule send_queue[OF assms(1,3)]) simp
  with assms(4) have sh: "mbox_shape q" and v: "v = mbox_view (blocks s) q" by simp_all
  note t = queued_ok[OF sh assms(3,2), where src = src and msgId = msgId and ticks = ticks]
  note b = t[of "m_tail q"] and f = t[of "mbox_prev q"]
  show "sys_ok (put (mbox_add_back (queued malloc src msgId dst pData len ticks q (m_tail q)) q))"
    "sys_view (put (mbox_add_back (queued malloc src msgId dst pData len ticks q (m_tail q)) q))
       = (sys_view s)[unat dst := Some (v @ [send_msg src msgId dst pData len ticks])]"
    using sys_add(1)[OF assms(1) d assms(4,5) b(2,3) b(1)] b(4) by (simp_all add: put_def v)
  show "sys_ok (put (mbox_add_front (queued malloc src msgId dst pData len ticks q (mbox_prev q)) q))"
    "sys_view (put (mbox_add_front (queued malloc src msgId dst pData len ticks q (mbox_prev q)) q))
       = (sys_view s)[unat dst := Some (send_msg src msgId dst pData len ticks # v)]"
    using sys_add(2)[OF assms(1) d assms(4,5) f(2,3) f(1)] f(4) by (simp_all add: put_def v)
qed

text \<open>
  \<open>pf_copy_try_msg\<close> either fails and changes nothing, neither a queue nor the heap, or puts
  exactly the first \<open>len\<close> bytes of the caller's data, with source, identifier and time, behind
  the messages of the target module and leaves all other queues alone.  It succeeds exactly
  when its checks pass (module below \<open>MODULE_MAX\<close>, no null pointer with a length, an existing
  queue, memory for a message above 100 bytes) and the queue has room.
\<close>

theorem pf_copy_try_msg_outcome:
  assumes "sys_ok s" "send_args_ok malloc pData len s"
  shows "case pf_copy_try_msg malloc ticks src msgId dst pData len s of (r, s') \<Rightarrow>
     if \<not> (send_checks malloc dst pData len s \<and> has_room s dst) then r = PF_RET_FAILURE \<and> s' = s
     else r = PF_RET_SUCCESS \<and> sys_ok s' \<and>
       sys_view s' = (sys_view s)[unat dst :=
          Some (the (sys_view s ! unat dst) @ [send_msg src msgId dst pData len ticks])]"
proof (cases "send_checks malloc dst pData len s")
  case False
  then show ?thesis by (simp add: send_rejected)
next
  case True
  obtain q where q: "msgQArray s ! unat dst = Some q" "mbox_shape q" and room: "has_room s dst \<longleftrightarrow> \<not> mbox_full q"
    by (rule send_queue[OF assms(1) True])
  show ?thesis
    using send_steps(1)[OF True assms(2) q] send_effect(1,2)[OF assms(1,2) True q(1)] room True
    by auto
qed

text \<open>
  \<open>pf_copy_msg\<close> does the same, but waits (\<open>None\<close>) instead of failing when the queue of the
  target module is full: it loses no message.
\<close>

theorem pf_copy_msg_outcome:
  assumes "sys_ok s" "send_args_ok malloc pData len s"
  shows "case pf_copy_msg malloc ticks src msgId dst pData len s of
       None \<Rightarrow> send_checks malloc dst pData len s \<and> \<not> has_room s dst
     | Some (r, s') \<Rightarrow>
         if \<not> send_checks malloc dst pData len s then r = PF_RET_FAILURE \<and> s' = s
         else r = PF_RET_SUCCESS \<and> has_room s dst \<and> sys_ok s' \<and>
           sys_view s' = (sys_view s)[unat dst :=
              Some (the (sys_view s ! unat dst) @ [send_msg src msgId dst pData len ticks])]"
proof (cases "send_checks malloc dst pData len s")
  case False
  then show ?thesis by (simp add: send_rejected)
next
  case True
  obtain q where q: "msgQArray s ! unat dst = Some q" "mbox_shape q" and room: "has_room s dst \<longleftrightarrow> \<not> mbox_full q"
    by (rule send_queue[OF assms(1) True])
  show ?thesis
    using send_steps(2)[OF True assms(2) q] send_effect(1,2)[OF assms(1,2) True q(1)] room True
    by auto
qed

text \<open>
  The urgent variants overtake: the message becomes the first one of the target queue, so
  the module handles it next.  \<open>pf_copy_try_urgent_msg\<close> fails, without effect, also when
  another thread holds the lock of the queue; \<open>pf_copy_urgent_msg\<close> waits for room.
\<close>

theorem pf_copy_urgent_outcome:
  assumes "sys_ok s" "send_args_ok malloc pData len s"
  shows "(case pf_copy_try_urgent_msg malloc busy ticks src msgId dst pData len s of (r, s') \<Rightarrow>
     if \<not> (send_checks malloc dst pData len s \<and> \<not> busy \<and> has_room s dst) then r = PF_RET_FAILURE \<and> s' = s
     else r = PF_RET_SUCCESS \<and> sys_ok s' \<and>
       sys_view s' = (sys_view s)[unat dst :=
          Some (send_msg src msgId dst pData len ticks # the (sys_view s ! unat dst))]) \<and>
   (case pf_copy_urgent_msg malloc ticks src msgId dst pData len s of
       None \<Rightarrow> send_checks malloc dst pData len s \<and> \<not> has_room s dst
     | Some (r, s') \<Rightarrow>
         if \<not> send_checks malloc dst pData len s then r = PF_RET_FAILURE \<and> s' = s
         else r = PF_RET_SUCCESS \<and> has_room s dst \<and> sys_ok s' \<and>
           sys_view s' = (sys_view s)[unat dst :=
              Some (send_msg src msgId dst pData len ticks # the (sys_view s ! unat dst))])"
proof (cases "send_checks malloc dst pData len s")
  case False
  then show ?thesis by (simp add: send_rejected)
next
  case True
  obtain q where q: "msgQArray s ! unat dst = Some q" "mbox_shape q" and room: "has_room s dst \<longleftrightarrow> \<not> mbox_full q"
    by (rule send_queue[OF assms(1) True])
  show ?thesis
    using send_steps(3,4)[OF True assms(2) q] send_effect(3,4)[OF assms(1,2) True q(1)] room True
    by auto
qed

section \<open>Receiving\<close>

text \<open>
  The ring by itself, with messages that fit its slots (at most \<open>SHORT_PACK_SIZE\<close> bytes): any
  interleaving of puts at the back, puts at the head and gets keeps its invariant and neither loses
  nor duplicates a message.  Without puts at the head messages come out in the order in which they
  went in.
\<close>

theorem inline_mbox_trace:
  assumes "mbox_ok hp b" "\<forall>m \<in> set (concat (map dq_msg ops)). short_msg m"
  shows "case dq_run mbox_send_back mbox_send_front (mbox_receive hp) ops b of (received, sent, b') \<Rightarrow>
     mbox_ok hp b' \<and> mset received + mset (mbox_view hp b') = mset (mbox_view hp b) + mset sent \<and>
     ((\<forall>m. PushFront m \<notin> set ops) \<longrightarrow> received @ mbox_view hp b' = mbox_view hp b @ sent)"
proof -
  obtain r s b' where run: "dq_run mbox_send_back mbox_send_front (mbox_receive hp) ops b = (r, s, b')"
    by (metis prod_cases3)
  from mq.run_ok[OF assms run] mq.run_fifo[OF assms(1,2) _ run] show ?thesis by (simp add: run)
qed

lemma get_message_bytes:
  assumes "mbox_ok hp b" "pf_get_message b = Some (m, b')"
  shows "msg_bytes m b2 hp = fst (snd (snd (snd (hd (mbox_view hp b)))))"
    "mbox_view hp b = (ulSrcModuleId m, ulMsgId m, ulDstModuleId m, msg_bytes m b2 hp, ulTick m) # mbox_view hp b'"
    "mbox_ok hp b'" "m_size b' = m_size b"
    "msg_long m \<Longrightarrow> \<exists>a bs. pucData m = PHeap a \<and> hp a = Some bs \<and> mbox_blocks b = a # mbox_blocks b'"
    "\<not> msg_long m \<Longrightarrow> mbox_blocks b = mbox_blocks b' \<and> msg_free m hp = hp"
proof -
  from assms(2) obtain m0 where g: "mbox_get b = Some (m0, b')" and m: "m = msg_restore m0"
    by (auto simp: pf_get_message_def)
  note o = mbox_get_ok(2)[OF assms(1) g]
  have bytes: "msg_bytes m b2 hp = fst (snd (snd (snd (msg_view hp m0))))"
    using o by (auto simp: m msg_bytes_def msg_view_def msg_restore_def msg_long_def slot_ok_def SHORT_PACK_SIZE_def
        split: if_splits)
  have hdr: "ulSrcModuleId m = ulSrcModuleId m0" "ulMsgId m = ulMsgId m0" "ulDstModuleId m = ulDstModuleId m0"
    "ulTick m = ulTick m0" "ulLength m = ulLength m0"
    by (simp_all add: m msg_restore_def)
  show "msg_bytes m b2 hp = fst (snd (snd (snd (hd (mbox_view hp b)))))"
    using bytes o by simp
  show "mbox_view hp b = (ulSrcModuleId m, ulMsgId m, ulDstModuleId m, msg_bytes m b2 hp, ulTick m) # mbox_view hp b'"
    using bytes o hdr by (simp add: msg_view_def)
  show "mbox_ok hp b'" "m_size b' = m_size b" using o by simp_all
  show "\<exists>a bs. pucData m = PHeap a \<and> hp a = Some bs \<and> mbox_blocks b = a # mbox_blocks b'" if "msg_long m"
    using o that hdr by (auto simp: m slot_ok_def msg_long_def msg_blocks_def msg_restore_def)
  show "mbox_blocks b = mbox_blocks b' \<and> msg_free m hp = hp" if "\<not> msg_long m"
    using o that hdr by (auto simp: slot_ok_def msg_long_def msg_blocks_def msg_free_def)
qed

text \<open>
  A message that was received with \<open>pf_get_message\<close> does not depend on the mailbox any more:
  its bytes are the same whatever happens to the ring afterwards, because \<open>restore()\<close> points it at
  its own copy.
\<close>

theorem pf_get_message_stable:
  assumes "mbox_ok hp b" "pf_get_message b = Some (m, b')"
  shows "msg_bytes m later hp = msg_bytes m b hp \<and>
    hd (mbox_view hp b) = (ulSrcModuleId m, ulMsgId m, ulDstModuleId m, msg_bytes m later hp, ulTick m)"
  using get_message_bytes(1)[OF assms, of later] get_message_bytes(1)[OF assms, of b]
    get_message_bytes(2)[OF assms, of later] by simp

section \<open>Messages in two pieces\<close>

lemma memcpy_two:
  assumes "n \<le> length d" "n2 \<le> length d2" "n + n2 \<le> length p"
  shows "memcpy_at n d2 n2 (memcpy_at 0 d n p) = memcpy_at 0 (take n d @ take n2 d2) (n + n2) p"
  using assms by (simp add: memcpy_at_def min_def)

text \<open>
  \<open>pf_copy_msg2\<close> sends its two pieces as one message: as long as the sum of the lengths does
  not wrap, it is \<open>pf_copy_msg\<close> of the concatenation, in the inline and in the heap case, after the
  two pointer checks.
\<close>

theorem pf_copy_msg2_concat:
  assumes "sys_ok s" "unat len + unat len2 < 2 ^ 32"
    "\<forall>d. pData = Some d \<longrightarrow> unat len \<le> length d" "\<forall>d. pData2 = Some d \<longrightarrow> unat len2 \<le> length d"
  shows "pf_copy_msg2 malloc ticks src msgId dst pData len pData2 len2 s =
     (if (pData = None \<and> len > 0) \<or> (pData2 = None \<and> len2 > 0) then Some (PF_RET_FAILURE, s)
      else pf_copy_msg malloc ticks src msgId dst
             (Some (take (unat len) (data_of pData) @ take (unat len2) (data_of pData2))) (len + len2) s)"
proof (cases "MODULE_MAX \<le> dst \<or> (pData = None \<and> len > 0) \<or> (pData2 = None \<and> len2 > 0)")
  case True
  then show ?thesis by (auto simp: pf_copy_msg2_def pf_copy_msg_def Let_def)
next
  case False
  then have c: "dst < MODULE_MAX" "pData = None \<longrightarrow> len = 0" "pData2 = None \<longrightarrow> len2 = 0"
    by (auto simp: word_gt_0)
  have l: "unat len \<le> length (data_of pData)" "unat len2 \<le> length (data_of pData2)"
    using assms(3,4) c by (auto simp: data_of_def split: option.split)
  have sum: "unat (len + len2) = unat len + unat len2"
    using assms(2) by (simp add: unat_word_ariths)
  show ?thesis
  proof (cases "msgQArray s ! unat dst")
    case None
    then show ?thesis by (simp add: pf_copy_msg2_def pf_copy_msg_def Let_def)
  next
    case (Some q)
    have sh: "mbox_shape q" using sys_queue_blocks(1)[OF assms(1) dst_bound[OF c(1)] Some] by (simp add: mbox_ok_def)
    have pay: "unat len + unat len2 \<le> SHORT_PACK_SIZE \<Longrightarrow>
        memcpy_at (unat len) (data_of pData2) (unat len2) (memcpy_at 0 (data_of pData) (unat len) (shortpayload (p_array q ! m_tail q)))
        = memcpy_at 0 (take (unat len) (data_of pData) @ take (unat len2) (data_of pData2)) (unat len + unat len2)
            (shortpayload (p_array q ! m_tail q))"
      using l slot_payload(1)[OF sh] by (intro memcpy_two) simp_all
    have "\<not> (MODULE_MAX \<le> dst)" using c(1) by simp
    moreover have "take (unat len + unat len2) (take (unat len) (data_of pData) @ take (unat len2) (data_of pData2))
        = take (unat len) (data_of pData) @ take (unat len2) (data_of pData2)"
      using l by simp
    ultimately show ?thesis
      using False Some pay sum
      by (auto simp: pf_copy_msg2_def pf_copy_msg_def Let_def mbox_put_eqs[OF sh] data_of_def[symmetric] not_less
          split: option.split)
  qed
qed

text \<open>Without that bound the inline case is taken for two huge pieces, and the copies run past the
  end of the slot.\<close>

lemma pf_copy_msg2_overrun:
  assumes "sys_ok s" "dst < MODULE_MAX" "msgQArray s ! unat dst = Some q" "\<not> mbox_full q"
    "unat len + unat len2 \<ge> 2 ^ 32" "unat (len + len2) \<le> SHORT_PACK_SIZE"
    "length d = unat len" "length d2 = unat len2"
  shows "\<exists>s' q'. pf_copy_msg2 malloc ticks src msgId dst (Some d) len (Some d2) len2 s = Some (PF_RET_SUCCESS, s') \<and>
     msgQArray s' ! unat dst = Some q' \<and> length (shortpayload (p_array q' ! m_tail q)) > SHORT_PACK_SIZE"
proof -
  have dst: "unat dst < MODULE_TASK_MAX" by (rule dst_bound[OF assms(2)])
  have sh: "mbox_shape q" using sys_queue_blocks(1)[OF assms(1) dst assms(3)] by (simp add: mbox_ok_def)
  have "SHORT_PACK_SIZE < unat len + unat len2"
    using assms(5) by (simp add: SHORT_PACK_SIZE_def)
  then have big: "SHORT_PACK_SIZE < length (memcpy_at (unat len) d2 (unat len2) (memcpy_at 0 d (unat len) p))" for p
    using assms(7,8) by (simp add: memcpy_at_def)
  have "unat dst < length (msgQArray s)" "m_tail q < length (p_array q)"
    using assms(1) dst sh by (simp_all add: sys_ok_def mbox_shape_def)
  then show ?thesis
    using assms(2-4,6) big
    by (auto simp: pf_copy_msg2_def Let_def mbox_put_eqs[OF sh] mbox_add_back_def)
qed

section \<open>A small process\<close>

text \<open>One mailbox of four slots, for module 5.\<close>

definition blank_msg :: stMboxMessage where
  "blank_msg = mbox_msg 0 0 0 0 PNull (replicate SHORT_PACK_SIZE 0) 0"

definition mb_example :: pf_mbox where
  "mb_example = mbox_new (replicate 4 blank_msg)"

definition sys_example :: mbox_sys where
  "sys_example = \<lparr>msgQArray = (replicate MODULE_TASK_MAX None)[5 := Some mb_example], blocks = \<lambda>_. None\<rparr>"

lemma mb_example_ok: "mbox_ok hp mb_example" "mbox_view hp mb_example = []" "mbox_slots mb_example = []"
  "mbox_blocks mb_example = []"
  by (simp_all add: mb_example_def mbox_new_def mbox_ok_def mbox_shape_def mbox_view_def mbox_blocks_def
      ring_slots_def ring_count_def blank_msg_def)

lemma sys_example_queue: "msgQArray sys_example ! 5 = Some mb_example"
  by (simp add: sys_example_def MODULE_TASK_MAX_def)

lemma sys_example_ok: "sys_ok sys_example"
proof -
  have q: "q = None \<or> q = Some mb_example" if "q \<in> set (msgQArray sys_example)" for q
    using that set_update_subset_insert[of "replicate MODULE_TASK_MAX None" 5 "Some mb_example"]
    by (auto simp: sys_example_def)
  then have "queue_blocks q = []" if "q \<in> set (msgQArray sys_example)" for q
    using q[OF that] mb_example_ok(4) by (auto simp: queue_blocks_def)
  then have "sys_blocks sys_example = []" by (simp add: sys_blocks_def)
  then show ?thesis using q mb_example_ok(1) by (auto simp: sys_ok_def) (auto simp: sys_example_def)
qed

lemma sys_example_room: "has_room sys_example 5" "sys_view sys_example ! 5 = Some []"
proof -
  have u: "unat (5::U32) = 5" by simp
  show "has_room sys_example 5"
    unfolding has_room_def u sys_example_queue
    by (simp add: mb_example_def mbox_new_def mbox_size_def)
  show "sys_view sys_example ! 5 = Some []"
    using sys_example_queue by (simp add: sys_view_def mb_example_ok) (simp add: sys_example_def MODULE_TASK_MAX_def mb_example_ok)
qed

lemma example_args: "send_args_ok (Some 0) (Some [1, 2, 3]) 3 sys_example"
  "send_checks (Some 0) 5 (Some [1, 2, 3]) 3 sys_example"
  "send_msg 1 2 5 (Some [1, 2, 3]) 3 9 = (1, 2, 5, [1, 2, 3], 9)"
  using sys_example_queue
  by (simp_all add: send_args_ok_def send_checks_def send_msg_def data_of_def sys_example_def MODULE_MAX_def)

lemma pf_copy_try_msg_witness:
  "\<exists>s'. pf_copy_try_msg (Some 0) 9 1 2 5 (Some [1, 2, 3]) 3 sys_example = (PF_RET_SUCCESS, s') \<and>
     sys_view s' = (sys_view sys_example)[5 := Some [(1, 2, 5, [1, 2, 3], 9)]]"
  using pf_copy_try_msg_outcome[OF sys_example_ok example_args(1), where src = 1 and msgId = 2 and dst = 5 and ticks = 9]
  by (auto simp: sys_example_room example_args split: prod.splits)

lemma pf_copy_msg_witness:
  "\<exists>s'. pf_copy_msg (Some 0) 9 1 2 5 (Some [1, 2, 3]) 3 sys_example = Some (PF_RET_SUCCESS, s') \<and> sys_ok s' \<and>
     sys_view s' = (sys_view sys_example)[5 := Some [(1, 2, 5, [1, 2, 3], 9)]]"
  using pf_copy_msg_outcome[OF sys_example_ok example_args(1), where src = 1 and msgId = 2 and dst = 5 and ticks = 9]
  by (auto simp: sys_example_room example_args split: prod.splits option.splits)

lemma pf_copy_urgent_witness:
  "\<exists>s'. pf_copy_urgent_msg (Some 0) 9 1 2 5 (Some [1, 2, 3]) 3 sys_example = Some (PF_RET_SUCCESS, s') \<and> sys_ok s'"
  using pf_copy_urgent_outcome[OF sys_example_ok example_args(1), where src = 1 and msgId = 2 and dst = 5 and ticks = 9 and busy = True]
  by (auto simp: sys_example_room example_args split: prod.splits option.splits)

lemma pf_get_message_witness:
  "\<exists>b m b'. mbox_try_put_copy_data 1 2 5 [1, 2, 3] 3 9 mb_example = (True, b) \<and> pf_get_message b = Some (m, b') \<and>
     (\<forall>later. msg_bytes m later (\<lambda>_. None) = [1, 2, 3])"
proof -
  have nf: "\<not> mbox_full mb_example" and sh: "mbox_shape mb_example"
    using mbox_full_view[OF mb_example_ok(1)] mb_example_ok(1,2)
    by (auto simp: mb_example_def mbox_new_def mbox_ok_def)
  have l: "unat (3::U32) \<le> SHORT_PACK_SIZE" "unat (3::U32) \<le> length [1::U8, 2, 3]" by (simp_all add: SHORT_PACK_SIZE_def)
  note m = short_msg_ok[OF slot_payload(1)[OF sh] l, where src = 1 and msgId = 2 and dst = 5 and ticks = 9
      and i = "m_tail mb_example"]
  define b where "b = mbox_add_back (mbox_msg 1 2 5 3 (PSlot (m_tail mb_example))
      (memcpy_at 0 [1, 2, 3] (unat (3::U32)) (shortpayload (p_array mb_example ! m_tail mb_example))) 9) mb_example"
  have put: "mbox_try_put_copy_data 1 2 5 [1, 2, 3] 3 9 mb_example = (True, b)"
    using nf by (simp add: mbox_put_eqs[OF sh] b_def)
  have ok: "mbox_ok (\<lambda>_. None) b" and v: "mbox_view (\<lambda>_. None) b = [(1, 2, 5, [1, 2, 3], 9)]"
    using add_back_ok[where hp = "\<lambda>_. None", OF mb_example_ok(1) nf m(2) m(1)] m(4)
    by (simp_all add: b_def mb_example_ok(2))
  obtain m b' where g: "pf_get_message b = Some (m, b')"
    using mbox_get_ok(1)[OF ok] v by (auto simp: pf_get_message_def)
  have "msg_bytes m later (\<lambda>_. None) = [1, 2, 3]" for later
    using pf_get_message_stable[OF ok g, of later] v by simp
  with put g show ?thesis by blast
qed

lemma pf_copy_msg2_witness:
  "pf_copy_msg2 None 9 1 2 5 (Some [1, 2]) 2 (Some [3]) 1 sys_example
   = pf_copy_msg None 9 1 2 5 (Some [1, 2, 3]) 3 sys_example"
  using pf_copy_msg2_concat[OF sys_example_ok, of 2 1 "Some [1, 2]" "Some [3]" None 9 1 2 5]
  by (simp add: data_of_def)

text \<open>\<open>pf_try_get_message\<close> does not call \<open>restore()\<close>: its message points into the ring, and a later
  message that gets the same slot shows through.\<close>

lemma pf_try_get_message_aliases:
  "\<exists>b m b1 b2. mbox_ok (\<lambda>_. None) b \<and> pf_try_get_message blank_msg b = (True, m, b1) \<and>
     msg_bytes m b1 (\<lambda>_. None) = [1] \<and> mbox_put_head_copy_data 1 2 5 [9] 1 0 b1 = Some b2 \<and>
     msg_bytes m b2 (\<lambda>_. None) = [9]"
proof -
  define s0 where "s0 = mbox_msg 1 2 5 1 (PSlot 0) (memcpy_at 0 [1] 1 (replicate SHORT_PACK_SIZE 0)) 0"
  define b where "b = mb_example\<lparr>p_array := s0 # replicate 3 blank_msg, m_tail := 1\<rparr>"
  define b1 where "b1 = b\<lparr>m_head := 1\<rparr>"
  have slots: "mbox_slots b = [0]"
    by (simp add: b_def mb_example_def mbox_new_def ring_slots_def ring_count_def)
  have "mbox_ok (\<lambda>_. None) b"
    unfolding mbox_ok_def slots
    by (auto simp: mbox_shape_def b_def mb_example_def mbox_new_def s0_def blank_msg_def slot_ok_def
        msg_long_def SHORT_PACK_SIZE_def memcpy_at_def)
  moreover have "pf_try_get_message blank_msg b = (True, s0, b1)"
    by (simp add: pf_try_get_message_def mbox_try_get_def b1_def b_def mb_example_def mbox_new_def)
  moreover have "msg_bytes s0 b1 (\<lambda>_. None) = [1]"
    by (simp add: msg_bytes_def b1_def b_def s0_def memcpy_at_def mbox_msg_def)
  moreover obtain b2 where "mbox_put_head_copy_data 1 2 5 [9] 1 0 b1 = Some b2" "msg_bytes s0 b2 (\<lambda>_. None) = [9]"
    by (simp add: mbox_put_head_copy_data_def mbox_full_def b1_def b_def mb_example_def mbox_new_def Let_def
        mbox_header_def mbox_payload_def msg_bytes_def s0_def memcpy_at_def mbox_msg_def)
  ultimately show ?thesis by blast
qed

end
