(* ===== verification/Mbox_Threads.thy ===== *)
theory Mbox_Threads
  imports Mbox_Properties
begin

text \<open>
  The module threads on the mailboxes (\<open>msg_entry\<close> of \<^verbatim>\<open>platform/linux/pf_mbox.cpp\<close>).  A thread takes
  the oldest message of its queue, runs the entry of the module the message names, and releases the
  message.  In between it holds the message, and with a long one the heap block behind it, while it
  and all other threads send.  The state is the mailboxes together with the message in the hands of
  each thread; the invariant is the one of the mailboxes for the heap without the held blocks.
\<close>

section \<open>Mailboxes beside held blocks\<close>

definition without :: "nat set \<Rightarrow> mbox_sys \<Rightarrow> mbox_sys" where
  "without A s = s\<lparr>blocks := blocks s |` (- A)\<rparr>"

definition sys_held :: "nat set \<Rightarrow> mbox_sys \<Rightarrow> bool" where
  "sys_held A s \<longleftrightarrow> A \<subseteq> dom (blocks s) \<and> sys_ok (without A s)"

lemma sys_held_empty [simp]: "sys_held {} s \<longleftrightarrow> sys_ok s"
  by (simp add: sys_held_def without_def restrict_map_def)

lemma without_sel [simp]: "msgQArray (without A s) = msgQArray s" "blocks (without A s) = blocks s |` (- A)"
  by (simp_all add: without_def)

lemma held_queue:
  assumes "sys_held A s" "d < MODULE_TASK_MAX" "msgQArray s ! d = Some q"
  shows "mbox_ok (blocks s) q" "mbox_view (blocks s |` (- A)) q = mbox_view (blocks s) q"
    "set (mbox_blocks q) \<subseteq> dom (blocks s) - A"
proof -
  note b = sys_queue_blocks[of "without A s", OF _ assms(2)]
  have ok: "sys_ok (without A s)" using assms(1) by (simp add: sys_held_def)
  have d: "set (mbox_blocks q) \<subseteq> dom (blocks s |` (- A))" using b(2)[OF ok] assms(3) by simp
  then have "\<forall>a \<in> set (mbox_blocks q). (blocks s |` (- A)) a = blocks s a" by (auto simp: restrict_map_def)
  from mbox_cong[OF this] b(1)[OF ok] assms(3) d
  show "mbox_ok (blocks s) q" "mbox_view (blocks s |` (- A)) q = mbox_view (blocks s) q"
    "set (mbox_blocks q) \<subseteq> dom (blocks s) - A" by auto
qed

lemma held_length: "sys_held A s \<Longrightarrow> length (msgQArray s) = MODULE_TASK_MAX"
  by (simp add: sys_held_def sys_ok_def)

lemma held_view:
  assumes "sys_held A s"
  shows "sys_view (without A s) = sys_view s"
proof (rule nth_equalityI)
  fix d assume "d < length (sys_view (without A s))"
  then have d: "d < MODULE_TASK_MAX" "d < length (msgQArray s)" using held_length[OF assms] by (simp_all add: sys_view_def)
  then show "sys_view (without A s) ! d = sys_view s ! d"
    using held_queue(2)[OF assms d(1)] by (cases "msgQArray s ! d") (simp_all add: sys_view_def)
qed (simp add: sys_view_def)

lemma held_view_nth:
  assumes "sys_held A s" "d < MODULE_TASK_MAX"
  shows "sys_view s ! d = map_option (mbox_view (blocks s)) (msgQArray s ! d)"
  using assms held_length[OF assms(1)] by (simp add: sys_view_def)

section \<open>Sending beside held blocks\<close>

text \<open>A send neither reads nor writes the blocks in the hands of threads.\<close>

lemma restrict_upd_other: "a \<notin> A \<Longrightarrow> (f(a := v)) |` (- A) = (f |` (- A))(a := v)"
  by (auto simp: restrict_map_def fun_eq_iff)

lemma send_without:
  assumes "send_args_ok malloc pData len s" "A \<subseteq> dom (blocks s)"
  shows "pf_copy_try_msg malloc ticks src msgId dst pData len (without A s) =
      map_prod id (without A) (pf_copy_try_msg malloc ticks src msgId dst pData len s)"
    "pf_copy_try_urgent_msg malloc busy ticks src msgId dst pData len (without A s) =
      map_prod id (without A) (pf_copy_try_urgent_msg malloc busy ticks src msgId dst pData len s)"
    "pf_copy_msg malloc ticks src msgId dst pData len (without A s) =
      map_option (map_prod id (without A)) (pf_copy_msg malloc ticks src msgId dst pData len s)"
    "pf_copy_urgent_msg malloc ticks src msgId dst pData len (without A s) =
      map_option (map_prod id (without A)) (pf_copy_urgent_msg malloc ticks src msgId dst pData len s)"
proof -
  obtain qs hp where s: "s = \<lparr>msgQArray = qs, blocks = hp\<rparr>" by (cases s)
  have "a \<notin> A" if "malloc = Some a" for a using assms that by (auto simp: send_args_ok_def)
  then show "pf_copy_try_msg malloc ticks src msgId dst pData len (without A s) =
      map_prod id (without A) (pf_copy_try_msg malloc ticks src msgId dst pData len s)"
    "pf_copy_try_urgent_msg malloc busy ticks src msgId dst pData len (without A s) =
      map_prod id (without A) (pf_copy_try_urgent_msg malloc busy ticks src msgId dst pData len s)"
    "pf_copy_msg malloc ticks src msgId dst pData len (without A s) =
      map_option (map_prod id (without A)) (pf_copy_msg malloc ticks src msgId dst pData len s)"
    "pf_copy_urgent_msg malloc ticks src msgId dst pData len (without A s) =
      map_option (map_prod id (without A)) (pf_copy_urgent_msg malloc ticks src msgId dst pData len s)"
    by (auto simp: s pf_copy_try_msg_def pf_copy_msg_def pf_copy_try_urgent_msg_def pf_copy_urgent_msg_def
        without_def Let_def restrict_upd_other option.map_comp comp_def split: option.splits prod.splits)
qed

lemma send_args_without: "send_args_ok malloc pData len s \<Longrightarrow> send_args_ok malloc pData len (without A s)"
  by (auto simp: send_args_ok_def restrict_map_def)

text \<open>What a send did to the blocks it does not own.\<close>

lemma send_keeps_blocks:
  assumes "send_args_ok malloc pData len s" "blocks s a \<noteq> None"
  shows "blocks (snd (pf_copy_try_msg malloc ticks src msgId dst pData len s)) a = blocks s a"
    "blocks (snd (pf_copy_try_urgent_msg malloc busy ticks src msgId dst pData len s)) a = blocks s a"
    "pf_copy_msg malloc ticks src msgId dst pData len s = Some (r, s') \<Longrightarrow> blocks s' a = blocks s a"
    "pf_copy_urgent_msg malloc ticks src msgId dst pData len s = Some (r, s') \<Longrightarrow> blocks s' a = blocks s a"
  using assms
  by (auto simp: pf_copy_try_msg_def pf_copy_msg_def pf_copy_try_urgent_msg_def pf_copy_urgent_msg_def send_args_ok_def
      Let_def split: option.splits prod.splits if_splits)

text \<open>The outcome of the four sending functions in one form: at the back or at the front, and whether
  the message was accepted.\<close>

definition send_result :: "bool \<Rightarrow> U32 \<Rightarrow> amsg \<Rightarrow> mbox_sys \<Rightarrow> int \<times> mbox_sys \<Rightarrow> bool" where
  "send_result urgent dst m s out \<longleftrightarrow> (case out of (r, s') \<Rightarrow>
     if r = PF_RET_SUCCESS
     then unat dst < MODULE_TASK_MAX \<and> (\<exists>q. sys_view s ! unat dst = Some q \<and>
            sys_view s' = (sys_view s)[unat dst := Some (if urgent then m # q else q @ [m])])
     else s' = s)"

definition held_same :: "nat set \<Rightarrow> mbox_sys \<Rightarrow> mbox_sys \<Rightarrow> bool" where
  "held_same A s s' \<longleftrightarrow> sys_held A s' \<and> (\<forall>a\<in>A. blocks s' a = blocks s a)"

lemma sent_view_some:
  "sys_ok s \<Longrightarrow> send_checks malloc dst pData len s \<Longrightarrow> unat dst < MODULE_TASK_MAX \<and> (\<exists>q. sys_view s ! unat dst = Some q)"
  by (auto simp: send_checks_def sys_view_def sys_ok_def dst_bound)

lemma send_sys_ok:
  assumes "sys_ok s" "send_args_ok malloc pData len s"
  shows "(case pf_copy_try_msg malloc ticks src msgId dst pData len s of (r, s') \<Rightarrow> sys_ok s') \<and>
      send_result False dst (send_msg src msgId dst pData len ticks) s (pf_copy_try_msg malloc ticks src msgId dst pData len s)"
    "(case pf_copy_try_urgent_msg malloc busy ticks src msgId dst pData len s of (r, s') \<Rightarrow> sys_ok s') \<and>
      send_result True dst (send_msg src msgId dst pData len ticks) s (pf_copy_try_urgent_msg malloc busy ticks src msgId dst pData len s)"
    "pf_copy_msg malloc ticks src msgId dst pData len s = Some (r, s') \<Longrightarrow> sys_ok s' \<and>
      send_result False dst (send_msg src msgId dst pData len ticks) s (r, s')"
    "pf_copy_urgent_msg malloc ticks src msgId dst pData len s = Some (r, s') \<Longrightarrow> sys_ok s' \<and>
      send_result True dst (send_msg src msgId dst pData len ticks) s (r, s')"
proof -
  note v = sent_view_some[OF assms(1), of malloc dst pData len]
  have ne: "PF_RET_FAILURE \<noteq> PF_RET_SUCCESS" by (simp add: PF_RET_FAILURE_def PF_RET_SUCCESS_def)
  note o = pf_copy_try_msg_outcome[OF assms] pf_copy_msg_outcome[OF assms] pf_copy_urgent_outcome[OF assms]
  show "(case pf_copy_try_msg malloc ticks src msgId dst pData len s of (r, s') \<Rightarrow> sys_ok s') \<and>
      send_result False dst (send_msg src msgId dst pData len ticks) s (pf_copy_try_msg malloc ticks src msgId dst pData len s)"
    using o(1)[where dst = dst and ticks = ticks and src = src and msgId = msgId] v ne assms(1) by (auto simp: send_result_def split: prod.splits if_splits)
  show "(case pf_copy_try_urgent_msg malloc busy ticks src msgId dst pData len s of (r, s') \<Rightarrow> sys_ok s') \<and>
      send_result True dst (send_msg src msgId dst pData len ticks) s (pf_copy_try_urgent_msg malloc busy ticks src msgId dst pData len s)"
    using o(3)[where dst = dst and ticks = ticks and src = src and msgId = msgId and busy = busy] v ne assms(1) by (auto simp: send_result_def split: prod.splits if_splits)
  show "sys_ok s' \<and> send_result False dst (send_msg src msgId dst pData len ticks) s (r, s')"
    if "pf_copy_msg malloc ticks src msgId dst pData len s = Some (r, s')"
    using o(2)[where dst = dst and ticks = ticks and src = src and msgId = msgId] v ne assms(1) that by (auto simp: send_result_def split: if_splits)
  show "sys_ok s' \<and> send_result True dst (send_msg src msgId dst pData len ticks) s (r, s')"
    if "pf_copy_urgent_msg malloc ticks src msgId dst pData len s = Some (r, s')"
    using o(3)[where dst = dst and ticks = ticks and src = src and msgId = msgId and busy = busy] v ne assms(1) that by (auto simp: send_result_def split: prod.splits if_splits)
qed

text \<open>A call of one of the four sending functions, with arguments the caller may pass; a call that waits
  has no result yet.\<close>

inductive send_call :: "mbox_sys \<Rightarrow> bool \<Rightarrow> U32 \<Rightarrow> amsg \<Rightarrow> int \<times> mbox_sys \<Rightarrow> bool" where
  try_msg: "send_args_ok malloc pData len s \<Longrightarrow> pf_copy_try_msg malloc ticks src msgId dst pData len s = out \<Longrightarrow>
    send_call s False dst (send_msg src msgId dst pData len ticks) out"
| wait_msg: "send_args_ok malloc pData len s \<Longrightarrow> pf_copy_msg malloc ticks src msgId dst pData len s = Some out \<Longrightarrow>
    send_call s False dst (send_msg src msgId dst pData len ticks) out"
| try_urgent: "send_args_ok malloc pData len s \<Longrightarrow>
    pf_copy_try_urgent_msg malloc busy ticks src msgId dst pData len s = out \<Longrightarrow>
    send_call s True dst (send_msg src msgId dst pData len ticks) out"
| wait_urgent: "send_args_ok malloc pData len s \<Longrightarrow> pf_copy_urgent_msg malloc ticks src msgId dst pData len s = Some out \<Longrightarrow>
    send_call s True dst (send_msg src msgId dst pData len ticks) out"

lemma send_call_ok:
  assumes "send_call s u dst m (r, s')" "sys_ok s"
  shows "sys_ok s' \<and> send_result u dst m s (r, s')"
  using assms(1)
proof cases
  case (try_msg malloc pData len ticks src msgId)
  with send_sys_ok(1)[OF assms(2) try_msg(3), of ticks src msgId dst] show ?thesis by simp
next
  case (wait_msg malloc pData len ticks src msgId)
  with send_sys_ok(3)[OF assms(2) wait_msg(3,4)] show ?thesis by simp
next
  case (try_urgent malloc pData len busy ticks src msgId)
  with send_sys_ok(2)[OF assms(2) try_urgent(3), where busy = busy and ticks = ticks and src = src and msgId = msgId and dst = dst]
  show ?thesis by simp
next
  case (wait_urgent malloc pData len ticks src msgId)
  with send_sys_ok(4)[OF assms(2) wait_urgent(3,4)] show ?thesis by simp
qed

lemma send_call_without:
  assumes "send_call s u dst m (r, s')" "A \<subseteq> dom (blocks s)"
  shows "send_call (without A s) u dst m (r, without A s') \<and> (\<forall>a\<in>A. blocks s' a = blocks s a)"
  using assms(1)
proof cases
  case (try_msg malloc pData len ticks src msgId)
  with assms(2) send_without(1)[OF try_msg(3) assms(2)] send_keeps_blocks(1)[OF try_msg(3), of _ ticks src msgId dst]
  show ?thesis by (auto intro!: send_call.try_msg[OF send_args_without[OF try_msg(3)]])
next
  case (wait_msg malloc pData len ticks src msgId)
  with assms(2) send_without(3)[OF wait_msg(3) assms(2)] send_keeps_blocks(3)[OF wait_msg(3) _ wait_msg(4)]
  show ?thesis by (auto intro!: send_call.wait_msg[OF send_args_without[OF wait_msg(3)]])
next
  case (try_urgent malloc pData len busy ticks src msgId)
  with assms(2) send_without(2)[OF try_urgent(3) assms(2)] send_keeps_blocks(2)[OF try_urgent(3), of _ busy ticks src msgId dst]
  show ?thesis by (auto intro!: send_call.try_urgent[OF send_args_without[OF try_urgent(3)], where busy = busy])
next
  case (wait_urgent malloc pData len ticks src msgId)
  with assms(2) send_without(4)[OF wait_urgent(3) assms(2)] send_keeps_blocks(4)[OF wait_urgent(3) _ wait_urgent(4)]
  show ?thesis by (auto intro!: send_call.wait_urgent[OF send_args_without[OF wait_urgent(3)]])
qed

lemma send_call_held:
  assumes "send_call s u dst m (r, s')" "sys_held A s"
  shows "held_same A s s' \<and> send_result u dst m s (r, s')"
proof -
  have A: "A \<subseteq> dom (blocks s)" and ok: "sys_ok (without A s)" using assms(2) by (simp_all add: sys_held_def)
  note w = send_call_without[OF assms(1) A]
  from send_call_ok[OF conjunct1[OF w] ok]
  have ok': "sys_ok (without A s')" and res: "send_result u dst m (without A s) (r, without A s')" by simp_all
  have A': "A \<subseteq> dom (blocks s')" using A w by (auto simp: dom_def)
  then have held': "sys_held A s'" using ok' by (simp add: sys_held_def)
  have "s' = s" if "without A s' = without A s"
  proof -
    have "blocks s' a = blocks s a" for a
    proof (cases "a \<in> A")
      case False
      then show ?thesis using arg_cong[OF that, of "\<lambda>s. blocks s a"] by simp
    qed (use w in blast)
    moreover have "msgQArray s' = msgQArray s" using arg_cong[OF that, of msgQArray] by simp
    ultimately show ?thesis by (cases s; cases s') (auto simp: fun_eq_iff)
  qed
  with res held_view[OF assms(2)] held_view[OF held'] have "send_result u dst m s (r, s')"
    by (cases u) (auto simp: send_result_def)
  with held' w show ?thesis by (simp add: held_same_def)
qed

section \<open>Taking a message and releasing it\<close>

text \<open>A message as the entry of its module sees it.\<close>

definition received :: "stMboxMessage \<Rightarrow> pf_mbox \<Rightarrow> heap_blocks \<Rightarrow> amsg" where
  "received m q hp = (ulSrcModuleId m, ulMsgId m, ulDstModuleId m, msg_bytes m q hp, ulTick m)"

definition hand_valid :: "heap_blocks \<Rightarrow> stMboxMessage \<Rightarrow> bool" where
  "hand_valid hp m \<longleftrightarrow>
     (if msg_long m then \<exists>a bs. pucData m = PHeap a \<and> hp a = Some bs \<and> length bs = unat (ulLength m)
      else (\<forall>a. pucData m \<noteq> PHeap a) \<and> (ulLength m \<noteq> 0 \<longrightarrow> pucData m = POwn) \<and>
        length (shortpayload m) = SHORT_PACK_SIZE)"

lemma received_cong:
  assumes "hand_valid hp m" "\<forall>a \<in> set (msg_blocks m). hp' a = hp a"
  shows "received m q' hp' = received m q hp" "hand_valid hp' m" "length (msg_bytes m q hp) = unat (ulLength m)"
  using assms
  by (auto simp: hand_valid_def received_def msg_bytes_def msg_blocks_def msg_long_def SHORT_PACK_SIZE_def unat_eq_zero
      split: data_ptr.splits if_splits)

lemma get_hand_valid:
  assumes "mbox_ok hp q" "pf_get_message q = Some (m, q')"
  shows "hand_valid hp m" "mbox_blocks q = msg_blocks m @ mbox_blocks q'"
    "mbox_view hp q = received m q2 hp # mbox_view hp q'" "mbox_ok hp q'"
proof -
  obtain m0 where g0: "mbox_get q = Some (m0, q')" and m: "m = msg_restore m0"
    using assms(2) by (auto simp: pf_get_message_def)
  note o = mbox_get_ok(2)[OF assms(1) g0]
  show "hand_valid hp m" using o
    by (auto simp: m hand_valid_def msg_restore_def slot_ok_def msg_long_def unat_eq_zero split: if_splits)
  show "mbox_blocks q = msg_blocks m @ mbox_blocks q'" using o
    by (auto simp: m msg_restore_def slot_ok_def msg_long_def msg_blocks_def split: if_splits)
  show "mbox_view hp q = received m q2 hp # mbox_view hp q'" "mbox_ok hp q'"
    using get_message_bytes(2)[OF assms, of q2] get_message_bytes(3)[OF assms] by (simp_all add: received_def)
qed

lemma free_blocks: "hand_valid hp m \<Longrightarrow> msg_free m hp = hp |` (- set (msg_blocks m))"
  by (auto simp: hand_valid_def msg_free_def msg_long_def msg_blocks_def restrict_map_def fun_eq_iff split: data_ptr.splits if_splits)

lemma take_held:
  assumes "sys_held A s" "mid < MODULE_TASK_MAX" "msgQArray s ! mid = Some q" "pf_get_message q = Some (m, q')"
  defines "s' \<equiv> s\<lparr>msgQArray := (msgQArray s)[mid := Some q']\<rparr>"
  shows "sys_held (A \<union> set (msg_blocks m)) s'" "A \<inter> set (msg_blocks m) = {}" "hand_valid (blocks s) m"
    "sys_view s ! mid = Some (received m q2 (blocks s) # mbox_view (blocks s) q')"
    "sys_view s' = (sys_view s)[mid := Some (mbox_view (blocks s) q')]"
proof -
  have ok: "sys_ok (without A s)" and A: "A \<subseteq> dom (blocks s)" using assms(1) by (simp_all add: sys_held_def)
  note h = held_queue[OF assms(1-3)]
  note g = get_hand_valid[OF h(1) assms(4)]
  show "hand_valid (blocks s) m" by (rule g(1))
  show "sys_view s ! mid = Some (received m q2 (blocks s) # mbox_view (blocks s) q')"
    using held_view_nth[OF assms(1,2)] assms(3) g(3) by simp
  show disj: "A \<inter> set (msg_blocks m) = {}" using h(3) g(2) by auto
  let ?B = "A \<union> set (msg_blocks m)"
  let ?hp = "blocks s |` (- ?B)"
  have dist: "distinct (mbox_blocks q)" using sys_queue_blocks(3)[OF ok assms(2)] assms(3) by simp
  have sub: "set (mbox_blocks q') \<subseteq> dom (blocks s) - ?B" using h(3) g(2) dist by auto
  have same: "\<forall>a\<in>set (mbox_blocks q'). ?hp a = blocks s a" using sub by (auto simp: restrict_map_def)
  from mbox_cong[OF this] g(4) have ok': "mbox_ok ?hp q'" and v': "mbox_view ?hp q' = mbox_view (blocks s) q'" by simp_all
  have d1: "\<forall>a\<in>dom (blocks (without A s)) - set (mbox_blocks q). ?hp a = blocks (without A s) a"
    using g(2) by (auto simp: restrict_map_def)
  have d2: "set (mbox_blocks q') \<inter> (dom (blocks (without A s)) - set (mbox_blocks q)) = {}" using g(2) by auto
  have d3: "dom ?hp = dom (blocks (without A s)) - set (mbox_blocks q) \<union> set (mbox_blocks q')"
    using g(2) sub by auto
  have dq': "distinct (mbox_blocks q')" using dist g(2) by simp
  have q: "msgQArray (without A s) ! mid = Some q" using assms(3) by simp
  note r = sys_replace[OF ok assms(2) q ok' dq' d1 d2 d3]
  have eq: "(without A s)\<lparr>msgQArray := (msgQArray (without A s))[mid := Some q'], blocks := ?hp\<rparr> = without ?B s'"
    by (simp add: without_def s'_def)
  have "?B \<subseteq> dom (blocks s')" using A h(3) g(2) by (auto simp: s'_def)
  then show held': "sys_held ?B s'" using r(1) eq by (simp add: sys_held_def)
  show "sys_view s' = (sys_view s)[mid := Some (mbox_view (blocks s) q')]"
    using r(2) eq v' held_view[OF assms(1)] held_view[OF held'] by simp
qed

lemma release_held:
  assumes "sys_held (A \<union> set (msg_blocks m)) s" "hand_valid (blocks s) m" "A \<inter> set (msg_blocks m) = {}"
  defines "s' \<equiv> s\<lparr>blocks := msg_free m (blocks s)\<rparr>"
  shows "sys_held A s'" "sys_view s' = sys_view s" "\<forall>a\<in>A. blocks s' a = blocks s a"
proof -
  have eq: "without A s' = without (A \<union> set (msg_blocks m)) s"
    by (simp add: without_def s'_def free_blocks[OF assms(2)] Int_commute)
  have "A \<subseteq> dom (blocks s')"
    using assms(1,3) by (auto simp: s'_def free_blocks[OF assms(2)] sys_held_def)
  then show held': "sys_held A s'" using assms(1) eq by (simp add: sys_held_def)
  show "sys_view s' = sys_view s" using held_view[OF held'] held_view[OF assms(1)] eq by simp
  show "\<forall>a\<in>A. blocks s' a = blocks s a"
    using assms(3) by (auto simp: s'_def free_blocks[OF assms(2)] restrict_map_def)
qed

section \<open>The turn of a module thread\<close>

text \<open>What an entry may do to the mailboxes: with any blocks \<open>A\<close> in the hands of threads, it leaves
  these blocks alone and keeps the invariant of the rest.  The four sending functions do.\<close>

definition keeps_mailboxes :: "'a module_entry \<Rightarrow> bool" where
  "keeps_mailboxes e \<longleftrightarrow> (\<forall>A src msgId dst bytes len x s. unat len = length bytes \<longrightarrow> sys_held A s \<longrightarrow>
     held_same A s (snd (e src msgId dst bytes len (x, s))))"

text \<open>
  C36. One turn of the message loop of a module whose queue exists (\<open>pf_create_module_group\<close> stores the
  queue before it creates the thread), for any table of module entries that leave the blocks they do not
  own alone; they may send.  The turn waits exactly when the queue is empty.  Otherwise it removes the
  oldest message and calls exactly the entry of the module the message names, with the source, the
  identifier, the destination, the bytes and the length of the message, in the state without the
  message; then it releases the message: the result is what the entry left behind less the block \<open>A\<close> of
  the message, and the heap again holds nothing but the blocks of queued messages.
\<close>

theorem msg_entry_turn_outcome:
  assumes "sys_ok s" "mid < MODULE_TASK_MAX" "sys_view s ! mid \<noteq> None" "\<And>dst. keeps_mailboxes (moduleArray dst)"
  shows "case msg_entry_turn moduleArray mid (x, s) of
       None \<Rightarrow> sys_view s ! mid = Some []
     | Some (x', s') \<Rightarrow>
         (\<exists>src msgId dst bytes len ticks rest A s1 s2.
            sys_view s ! mid = Some ((src, msgId, dst, bytes, ticks) # rest) \<and> unat len = length bytes \<and>
            sys_held A s1 \<and> blocks s1 = blocks s \<and> sys_view s1 = (sys_view s)[mid := Some rest] \<and>
            moduleArray dst src msgId dst bytes len (x, s1) = (x', s2) \<and>
            s' = without A s2 \<and> sys_view s' = sys_view s2 \<and> sys_ok s')"
proof -
  obtain q where q: "msgQArray s ! mid = Some q" and v: "sys_view s ! mid = Some (mbox_view (blocks s) q)"
    using assms(1-3) held_view_nth[of "{}" s mid] by auto
  have held: "sys_held {} s" using assms(1) by simp
  show ?thesis
  proof (cases "pf_get_message q")
    case None
    then have "mbox_view (blocks s) q = []"
      using mbox_get_ok(1) sys_queue_blocks(1)[OF assms(1,2) q] by (auto simp: pf_get_message_def)
    then show ?thesis using v q None by (simp add: msg_entry_turn_def)
  next
    case (Some r)
    then obtain m q' where g: "pf_get_message q = Some (m, q')" by (cases r) simp
    let ?s1 = "s\<lparr>msgQArray := (msgQArray s)[mid := Some q']\<rparr>" and ?A = "set (msg_blocks m)"
    let ?b = "msg_bytes m q' (blocks s)"
    note t = take_held[OF held assms(2) q g]
    have len: "unat (ulLength m) = length ?b" using received_cong(3)[OF t(3), of "blocks s" q'] by simp
    obtain x2 s2 where e: "moduleArray (ulDstModuleId m) (ulSrcModuleId m) (ulMsgId m) (ulDstModuleId m) ?b (ulLength m) (x, ?s1) = (x2, s2)"
      by (meson surj_pair)
    have "held_same ?A ?s1 s2"
      using assms(4)[of "ulDstModuleId m", unfolded keeps_mailboxes_def, rule_format, OF len, of ?A ?s1] t(1) e
      by (metis sup_bot_left snd_conv)
    then have h2: "sys_held ?A s2" and same: "\<forall>a\<in>?A. blocks s2 a = blocks s a" by (simp_all add: held_same_def)
    have valid: "hand_valid (blocks s2) m" by (rule received_cong(2)[OF t(3) same])
    let ?s' = "s2\<lparr>blocks := msg_free m (blocks s2)\<rparr>"
    have s': "?s' = without ?A s2" by (simp add: without_def free_blocks[OF valid])
    have fin: "sys_ok ?s' \<and> sys_view ?s' = sys_view s2"
      using release_held(1,2)[where A = "{}" and s = s2 and m = m] h2 valid by simp
    have turn: "msg_entry_turn moduleArray mid (x, s) = Some (x2, ?s')"
      using q g e by (simp add: msg_entry_turn_def Let_def)
    have "sys_held ?A ?s1" using t(1) by simp
    moreover have "sys_view s ! mid = Some ((ulSrcModuleId m, ulMsgId m, ulDstModuleId m, ?b, ulTick m) # mbox_view (blocks s) q')"
      using t(4)[of q'] by (simp add: received_def)
    moreover have "blocks ?s1 = blocks s" by simp
    ultimately show ?thesis
      unfolding turn option.case prod.case using len t(5) e s' fin by blast
  qed
qed

section \<open>All threads together\<close>

text \<open>The mailboxes and the message each module thread is working on.\<close>

record mbox_run =
  boxes :: mbox_sys
  hand :: "nat \<Rightarrow> stMboxMessage option"

datatype mbox_event = Sent bool nat amsg | Handled nat amsg | Silent

text \<open>Any thread may send; a module thread takes a message when it has none, and releases the one it
  has.  \<open>Sent\<close> is a send that was accepted (\<open>True\<close>: urgent), \<open>Handled\<close> the message as the entry can read
  it until its release.\<close>

inductive mbox_step :: "mbox_run \<Rightarrow> mbox_event \<Rightarrow> mbox_run \<Rightarrow> bool" where
  send: "send_call (boxes g) u dst m (r, s) \<Longrightarrow>
    mbox_step g (if r = PF_RET_SUCCESS then Sent u (unat dst) m else Silent) (g\<lparr>boxes := s\<rparr>)"
| take: "mid < MODULE_TASK_MAX \<Longrightarrow> hand g mid = None \<Longrightarrow> msgQArray (boxes g) ! mid = Some q \<Longrightarrow>
    pf_get_message q = Some (m, q') \<Longrightarrow>
    mbox_step g Silent (g\<lparr>boxes := (boxes g)\<lparr>msgQArray := (msgQArray (boxes g))[mid := Some q']\<rparr>,
      hand := (hand g)(mid \<mapsto> m)\<rparr>)"
| release: "hand g mid = Some m \<Longrightarrow> msgQArray (boxes g) ! mid = Some q \<Longrightarrow>
    mbox_step g (Handled mid (received m q (blocks (boxes g))))
      (g\<lparr>boxes := (boxes g)\<lparr>blocks := msg_free m (blocks (boxes g))\<rparr>, hand := (hand g)(mid := None)\<rparr>)"

inductive mbox_steps :: "mbox_run \<Rightarrow> mbox_event list \<Rightarrow> mbox_run \<Rightarrow> bool" where
  none: "mbox_steps g [] g"
| more: "mbox_steps g evs g' \<Longrightarrow> mbox_step g' ev g'' \<Longrightarrow> mbox_steps g (evs @ [ev]) g''"

definition start_run :: "mbox_sys \<Rightarrow> mbox_run" where
  "start_run s = \<lparr>boxes = s, hand = (\<lambda>_. None)\<rparr>"

fun sent_to :: "nat \<Rightarrow> mbox_event \<Rightarrow> amsg list" where
  "sent_to d (Sent u d' m) = (if d' = d then [m] else [])"
| "sent_to d ev = []"

fun handled_by :: "nat \<Rightarrow> mbox_event \<Rightarrow> amsg list" where
  "handled_by d (Handled d' m) = (if d' = d then [m] else [])"
| "handled_by d ev = []"

fun urgent_to :: "nat \<Rightarrow> mbox_event \<Rightarrow> bool" where
  "urgent_to d (Sent u d' m) \<longleftrightarrow> u \<and> d' = d"
| "urgent_to d ev \<longleftrightarrow> False"

text \<open>The message in the hands of a thread, and all it has still to handle.\<close>

definition in_hand :: "nat \<Rightarrow> mbox_run \<Rightarrow> amsg list" where
  "in_hand d g = (case hand g d of None \<Rightarrow> []
     | Some m \<Rightarrow> [received m (the (msgQArray (boxes g) ! d)) (blocks (boxes g))])"

definition pending :: "nat \<Rightarrow> mbox_run \<Rightarrow> amsg list option" where
  "pending d g = map_option ((@) (in_hand d g)) (sys_view (boxes g) ! d)"

definition hand_blocks :: "(nat \<Rightarrow> stMboxMessage option) \<Rightarrow> nat set" where
  "hand_blocks h = {a. \<exists>d m. h d = Some m \<and> a \<in> set (msg_blocks m)}"

definition run_ok :: "mbox_run \<Rightarrow> bool" where
  "run_ok g \<longleftrightarrow> sys_held (hand_blocks (hand g)) (boxes g) \<and>
     (\<forall>d m. hand g d = Some m \<longrightarrow> hand_valid (blocks (boxes g)) m) \<and>
     (\<forall>d d' m m'. d \<noteq> d' \<longrightarrow> hand g d = Some m \<longrightarrow> hand g d' = Some m' \<longrightarrow> set (msg_blocks m) \<inter> set (msg_blocks m') = {})"

lemma start_run_ok: "sys_ok s \<Longrightarrow> run_ok (start_run s)" "pending d (start_run s) = sys_view s ! d"
  by (simp_all add: run_ok_def start_run_def hand_blocks_def pending_def in_hand_def option.map_ident cong: option.map_cong)

text \<open>Each kind of step, for the messages one module has still to handle.\<close>

definition pending_step :: "nat \<Rightarrow> mbox_event \<Rightarrow> mbox_run \<Rightarrow> mbox_run \<Rightarrow> bool" where
  "pending_step d ev g g' \<longleftrightarrow> (\<forall>p. pending d g = Some p \<longrightarrow> (\<exists>p'. pending d g' = Some p' \<and>
     mset (handled_by d ev) + mset p' = mset p + mset (sent_to d ev) \<and>
     (\<not> urgent_to d ev \<longrightarrow> handled_by d ev @ p' = p @ sent_to d ev)))"

lemma hand_blocks_memb: "h d = Some m \<Longrightarrow> a \<in> set (msg_blocks m) \<Longrightarrow> a \<in> hand_blocks h"
  by (auto simp: hand_blocks_def)

lemma hand_keeps:
  assumes "run_ok g" "\<forall>a\<in>hand_blocks (hand g). blocks s' a = blocks (boxes g) a" "hand g d = Some m"
  shows "hand_valid (blocks s') m" "received m q' (blocks s') = received m q (blocks (boxes g))"
proof -
  have v: "hand_valid (blocks (boxes g)) m" using assms(1,3) by (simp add: run_ok_def)
  have same: "\<forall>a\<in>set (msg_blocks m). blocks s' a = blocks (boxes g) a"
    using assms(2) hand_blocks_memb[of "hand g" d m] assms(3) by blast
  show "hand_valid (blocks s') m" "received m q' (blocks s') = received m q (blocks (boxes g))"
    by (rule received_cong[OF v same])+
qed

lemma send_step_ok:
  assumes "run_ok g" "send_call (boxes g) u dst m (r, s)" "d < MODULE_TASK_MAX"
  defines "ev \<equiv> if r = PF_RET_SUCCESS then Sent u (unat dst) m else Silent"
  shows "run_ok (g\<lparr>boxes := s\<rparr>) \<and> pending_step d ev g (g\<lparr>boxes := s\<rparr>)"
proof -
  let ?A = "hand_blocks (hand g)"
  have held: "sys_held ?A (boxes g)" using assms(1) by (simp add: run_ok_def)
  from send_call_held[OF assms(2) held]
  have h: "sys_held ?A s" and same: "\<forall>a\<in>?A. blocks s a = blocks (boxes g) a"
    and res: "send_result u dst m (boxes g) (r, s)" by (simp_all add: held_same_def)
  note k = hand_keeps[OF assms(1) same]
  have ok: "run_ok (g\<lparr>boxes := s\<rparr>)" using assms(1) h k(1) by (simp add: run_ok_def)
  have hd: "in_hand d (g\<lparr>boxes := s\<rparr>) = in_hand d g"
    using k(2) by (simp add: in_hand_def split: option.split)
  have len: "length (sys_view (boxes g)) = MODULE_TASK_MAX" using held_length[OF held] by (simp add: sys_view_def)
  have "pending_step d ev g (g\<lparr>boxes := s\<rparr>)"
  proof (cases "r = PF_RET_SUCCESS \<and> unat dst = d")
    case True
    then show ?thesis using res len assms(3)
      by (cases u) (auto simp: send_result_def pending_step_def pending_def hd ev_def)
  next
    case False
    then have "sys_view s ! d = sys_view (boxes g) ! d" using res by (auto simp: send_result_def split: if_splits)
    then show ?thesis using False by (auto simp: pending_step_def pending_def hd ev_def)
  qed
  with ok show ?thesis by simp
qed

lemma take_step_ok:
  assumes "run_ok g" "mid < MODULE_TASK_MAX" "hand g mid = None" "msgQArray (boxes g) ! mid = Some q"
    "pf_get_message q = Some (m, q')" "d < MODULE_TASK_MAX"
  defines "g' \<equiv> g\<lparr>boxes := (boxes g)\<lparr>msgQArray := (msgQArray (boxes g))[mid := Some q']\<rparr>, hand := (hand g)(mid \<mapsto> m)\<rparr>"
  shows "run_ok g' \<and> pending_step d Silent g g'"
proof -
  let ?A = "hand_blocks (hand g)"
  have held: "sys_held ?A (boxes g)" using assms(1) by (simp add: run_ok_def)
  note t = take_held[OF held assms(2,4,5)]
  have hb: "hand_blocks (hand g') = ?A \<union> set (msg_blocks m)"
    using assms(3) unfolding g'_def hand_blocks_def by (auto split: if_splits) (metis option.distinct(1))
  have b: "blocks (boxes g') = blocks (boxes g)" by (simp add: g'_def)
  have disj: "set (msg_blocks m') \<inter> set (msg_blocks m) = {}" if "hand g d' = Some m'" for d' m'
    using t(2) hand_blocks_memb[of "hand g" d' m'] that by blast
  have "run_ok g'"
    using assms(1) t(1,3) hb disj unfolding run_ok_def b by (auto simp: g'_def split: if_splits)
  moreover have "pending_step d Silent g g'"
  proof (cases "mid = d")
    case True
    have "pending d g = pending d g'"
      using t(4)[of "the (Some q')"] t(5) True held_length[OF held] assms(2,3)
      by (simp add: pending_def in_hand_def g'_def sys_view_def)
    then show ?thesis by (simp add: pending_step_def)
  next
    case False
    have "in_hand d g' = in_hand d g" using False by (simp add: in_hand_def g'_def split: option.split)
    moreover have "sys_view (boxes g') ! d = sys_view (boxes g) ! d" using t(5) False by (simp add: g'_def)
    ultimately show ?thesis by (simp add: pending_step_def pending_def)
  qed
  ultimately show ?thesis by simp
qed

lemma release_step_ok:
  assumes "run_ok g" "hand g mid = Some m" "d < MODULE_TASK_MAX"
  defines "g' \<equiv> g\<lparr>boxes := (boxes g)\<lparr>blocks := msg_free m (blocks (boxes g))\<rparr>, hand := (hand g)(mid := None)\<rparr>"
  shows "run_ok g' \<and> pending_step d (Handled mid (received m q (blocks (boxes g)))) g g'"
proof -
  let ?A = "hand_blocks (hand g')"
  have held: "sys_held (hand_blocks (hand g)) (boxes g)" and valid: "hand_valid (blocks (boxes g)) m"
    using assms(1,2) by (simp_all add: run_ok_def)
  have hb: "hand_blocks (hand g) = ?A \<union> set (msg_blocks m)"
    using assms(2) unfolding g'_def hand_blocks_def by (auto split: if_splits) (metis option.inject)
  have disj: "?A \<inter> set (msg_blocks m) = {}"
    using assms(1,2) by (fastforce simp: g'_def hand_blocks_def run_ok_def split: option.splits if_splits)
  note r = release_held[OF held[unfolded hb] valid disj]
  have keep: "hand_valid (blocks (boxes g')) m' \<and> (\<forall>q q'. received m' q' (blocks (boxes g')) = received m' q (blocks (boxes g)))"
    if "hand g d' = Some m'" "d' \<noteq> mid" for d' m'
  proof -
    have v: "hand_valid (blocks (boxes g)) m'" using assms(1) that(1) by (simp add: run_ok_def)
    have "set (msg_blocks m') \<subseteq> ?A" using that hand_blocks_memb[of "hand g'" d' m'] by (auto simp: g'_def)
    then have "\<forall>a\<in>set (msg_blocks m'). blocks (boxes g') a = blocks (boxes g) a" using r(3) by (auto simp: g'_def)
    from received_cong(1,2)[OF v this] show ?thesis by blast
  qed
  have "run_ok g'"
    using assms(1) r(1) keep unfolding run_ok_def by (auto simp: g'_def split: if_splits)
  moreover have view: "sys_view (boxes g') = sys_view (boxes g)" using r(2) by (simp add: g'_def)
  have "pending_step d (Handled mid (received m q (blocks (boxes g)))) g g'"
  proof (cases "mid = d")
    case True
    have "in_hand d g = [received m q (blocks (boxes g))]"
      using assms(2) True received_cong(1)[OF valid] by (simp add: in_hand_def)
    moreover have "in_hand d g' = []" using True by (simp add: in_hand_def g'_def)
    ultimately show ?thesis using True by (auto simp: pending_step_def pending_def view)
  next
    case False
    have "in_hand d g' = in_hand d g"
      using keep[of d] False by (auto simp: in_hand_def g'_def split: option.split)
    then show ?thesis using False by (auto simp: pending_step_def pending_def view)
  qed
  ultimately show ?thesis by simp
qed

lemma mbox_step_ok:
  assumes "mbox_step g ev g'" "run_ok g" "d < MODULE_TASK_MAX"
  shows "run_ok g' \<and> pending_step d ev g g'"
  using assms
proof (induction rule: mbox_step.induct)
  case (send g u dst m r s)
  show ?case by (rule send_step_ok[OF send.prems(1) send.hyps send.prems(2)])
next
  case (take mid g q m q')
  show ?case by (rule take_step_ok[OF take.prems(1) take.hyps take.prems(2)])
next
  case (release g mid m q)
  show ?case by (rule release_step_ok[OF release.prems(1) release.hyps(1) release.prems(2)])
qed

text \<open>The account of a run, and that steps extend it.\<close>

definition accounted :: "nat \<Rightarrow> amsg list \<Rightarrow> amsg list \<Rightarrow> amsg list \<Rightarrow> mbox_run \<Rightarrow> bool \<Rightarrow> bool" where
  "accounted d p hs ss g urgent \<longleftrightarrow> (\<exists>p'. pending d g = Some p' \<and> mset hs + mset p' = mset p + mset ss \<and>
     (\<not> urgent \<longrightarrow> hs @ p' = p @ ss))"

lemma accounted_step:
  assumes "accounted d p hs ss g urgent" "pending_step d ev g g'"
  shows "accounted d p (hs @ handled_by d ev) (ss @ sent_to d ev) g' (urgent \<or> urgent_to d ev)"
proof -
  obtain p' where p': "pending d g = Some p'" "mset hs + mset p' = mset p + mset ss" "\<not> urgent \<longrightarrow> hs @ p' = p @ ss"
    using assms(1) by (auto simp: accounted_def)
  obtain p'' where s: "pending d g' = Some p''" "mset (handled_by d ev) + mset p'' = mset p' + mset (sent_to d ev)"
    "\<not> urgent_to d ev \<longrightarrow> handled_by d ev @ p'' = p' @ sent_to d ev"
    using assms(2) p'(1) by (auto simp: pending_step_def)
  have "(mset hs + mset (handled_by d ev)) + mset p'' = mset hs + (mset p' + mset (sent_to d ev))"
    by (simp only: add.assoc s(2))
  also have "\<dots> = mset p + (mset ss + mset (sent_to d ev))"
    by (simp only: add.assoc[symmetric] p'(2))
  finally have m: "mset (hs @ handled_by d ev) + mset p'' = mset p + mset (ss @ sent_to d ev)" by simp
  have "(hs @ handled_by d ev) @ p'' = p @ (ss @ sent_to d ev)" if "\<not> (urgent \<or> urgent_to d ev)"
  proof -
    have "(hs @ handled_by d ev) @ p'' = (hs @ p') @ sent_to d ev" using s(3) that by simp
    also have "\<dots> = (p @ ss) @ sent_to d ev" using p'(3) that by simp
    finally show ?thesis by simp
  qed
  with s(1) m show ?thesis unfolding accounted_def by blast
qed

lemma mbox_steps_ok:
  assumes "mbox_steps g evs g'" "run_ok g" "d < MODULE_TASK_MAX" "pending d g = Some p"
  shows "run_ok g' \<and> accounted d p (concat (map (handled_by d) evs)) (concat (map (sent_to d) evs)) g'
     (\<exists>ev\<in>set evs. urgent_to d ev)"
  using assms
proof (induction rule: mbox_steps.induct)
  case (none g)
  then show ?case by (simp add: accounted_def)
next
  case (more g evs g' ev g'')
  note ih = more.IH[OF more.prems]
  note st = mbox_step_ok[OF more.hyps(2) conjunct1[OF ih] more.prems(2)]
  from conjunct1[OF st] accounted_step[OF conjunct2[OF ih] conjunct2[OF st]] show ?case
    by (simp add: bex_Un disj_commute)
qed

text \<open>
  C35. Any interleaving of sends by any threads (with or without waiting, urgent or not, of any length:
  up to \<open>SHORT_PACK_SIZE\<close> bytes go into the slot, more into a heap block), of module threads that take
  their next message, and of their releases of the message they handled, loses and duplicates no message:
  for every module with a queue, the messages handled, in its thread's hands and in its queue are together those
  queued at the start and those accepted since.  Without urgent sends to the module they are
  handled in the order in which they were sent.  A handled message has, until its release, the bytes
  that were sent.  And the heap holds exactly the blocks of queued messages and of those in hands.
\<close>

theorem mailbox_trace:
  assumes "sys_ok s" "mbox_steps (start_run s) evs g" "d < MODULE_TASK_MAX" "sys_view s ! d = Some q0"
  shows "\<exists>q. sys_view (boxes g) ! d = Some q \<and>
     mset (concat (map (handled_by d) evs)) + mset (in_hand d g @ q) = mset q0 + mset (concat (map (sent_to d) evs)) \<and>
     ((\<forall>ev\<in>set evs. \<not> urgent_to d ev) \<longrightarrow>
        concat (map (handled_by d) evs) @ in_hand d g @ q = q0 @ concat (map (sent_to d) evs)) \<and>
     sys_held (hand_blocks (hand g)) (boxes g)"
proof -
  have "pending d (start_run s) = Some q0" using start_run_ok(2) assms(4) by simp
  from mbox_steps_ok[OF assms(2) start_run_ok(1)[OF assms(1)] assms(3) this]
  show ?thesis unfolding accounted_def pending_def run_ok_def by fastforce
qed

section \<open>The small process at work\<close>

text \<open>A message of 101 bytes, which goes through the heap.\<close>

definition long_example :: "U8 list" where "long_example = replicate 101 7"

lemma long_example_args:
  "send_args_ok (Some 0) (Some long_example) 101 sys_example" "send_checks (Some 0) 5 (Some long_example) 101 sys_example"
  "send_msg 1 2 5 (Some long_example) 101 9 = (1, 2, 5, long_example, 9)"
  using sys_example_queue
  by (simp_all add: send_args_ok_def send_checks_def send_msg_def data_of_def sys_example_def MODULE_MAX_def long_example_def)

lemma mailbox_trace_witness:
  "\<exists>evs g. mbox_steps (start_run sys_example) evs g \<and>
     evs = [Sent False 5 (1, 2, 5, long_example, 9), Silent, Handled 5 (1, 2, 5, long_example, 9)] \<and>
     sys_view (boxes g) ! 5 = Some [] \<and> SHORT_PACK_SIZE < length long_example"
proof -
  let ?msg = "(1, 2, 5, long_example, 9)"
  obtain s1 where s1: "pf_copy_try_msg (Some 0) 9 1 2 5 (Some long_example) 101 sys_example = (PF_RET_SUCCESS, s1)"
    "sys_ok s1" "sys_view s1 = (sys_view sys_example)[5 := Some [?msg]]"
    using pf_copy_try_msg_outcome[OF sys_example_ok long_example_args(1), where src = 1 and msgId = 2 and dst = 5 and ticks = 9]
    by (auto simp: sys_example_room long_example_args split: prod.splits)
  have five: "5 < MODULE_TASK_MAX" by (simp add: MODULE_TASK_MAX_def)
  have v: "sys_view s1 ! 5 = Some [?msg]" using s1(3) by (simp add: sys_view_def sys_example_def MODULE_TASK_MAX_def)
  have h1: "sys_held {} s1" using s1(2) by simp
  obtain q where q: "msgQArray s1 ! 5 = Some q" "mbox_view (blocks s1) q = [?msg]"
    using v held_view_nth[OF h1 five] by auto
  obtain m q' where g: "pf_get_message q = Some (m, q')"
    using mbox_get_ok(1)[OF held_queue(1)[OF h1 five q(1)]] q(2) by (auto simp: pf_get_message_def)
  let ?g1 = "(start_run sys_example)\<lparr>boxes := s1\<rparr>"
  have step1: "mbox_step (start_run sys_example) (Sent False 5 ?msg) ?g1"
    using mbox_step.send[OF send_call.try_msg, of "Some 0" "Some long_example" 101 "start_run sys_example" 9 1 2 5
        PF_RET_SUCCESS s1] s1(1) long_example_args(1,3) by (simp add: start_run_def)
  have "msgQArray (boxes ?g1) ! 5 = Some q" "hand ?g1 5 = None" using q(1) by (simp_all add: start_run_def)
  from mbox_step.take[OF five this(2,1) g]
  obtain g2 where step2: "mbox_step ?g1 Silent g2" and h2: "hand g2 5 = Some m"
    and q2: "msgQArray (boxes g2) ! 5 = Some q'" 
    using held_length[OF h1] five by (auto simp: start_run_def)
  from mbox_step.release[OF h2 q2] obtain g3 m3 where step3: "mbox_step g2 (Handled 5 m3) g3" by blast
  have run: "mbox_steps (start_run sys_example) [Sent False 5 ?msg, Silent, Handled 5 m3] g3"
    using mbox_steps.more[OF mbox_steps.more[OF mbox_steps.more[OF mbox_steps.none step1] step2] step3] by simp
  from mailbox_trace[OF sys_example_ok run five sys_example_room(2)]
  have "m3 = ?msg" "sys_view (boxes g3) ! 5 = Some []" by auto
  with run show ?thesis by (auto simp: long_example_def SHORT_PACK_SIZE_def)
qed

text \<open>Entries that note the module they belong to with the bytes, and post the message to that module
  again.\<close>

definition repost :: "U32 \<Rightarrow> (U32 \<times> U8 list) list module_entry" where
  "repost i src msgId dst bytes len = (\<lambda>(x, s). (x @ [(i, bytes)], snd (pf_copy_try_msg None 0 i msgId i (Some bytes) len s)))"

lemma repost_keeps: "keeps_mailboxes (repost i)"
  unfolding keeps_mailboxes_def
proof (intro allI impI)
  fix A src msgId dst x s and bytes :: "U8 list" and len :: U32
  assume len: "unat len = length bytes" and held: "sys_held A s"
  obtain r s' where out: "pf_copy_try_msg None 0 i msgId i (Some bytes) len s = (r, s')" by (meson surj_pair)
  have "send_args_ok None (Some bytes) len s" using len by (simp add: send_args_ok_def)
  from send_call_held[OF send_call.try_msg[OF this out] held] out
  show "held_same A s (snd (repost i src msgId dst bytes len (x, s)))" by (simp add: repost_def)
qed

lemma msg_entry_turn_witness:
  "\<exists>s1 s2. pf_copy_try_msg (Some 0) 9 1 2 5 (Some [1, 2, 3]) 3 sys_example = (PF_RET_SUCCESS, s1) \<and>
     msg_entry_turn repost 5 ([], s1) = Some ([(5, [1, 2, 3])], s2) \<and> sys_ok s2"
proof -
  obtain s1 where s1: "pf_copy_try_msg (Some 0) 9 1 2 5 (Some [1, 2, 3]) 3 sys_example = (PF_RET_SUCCESS, s1)"
    "sys_ok s1" "sys_view s1 = (sys_view sys_example)[5 := Some [(1, 2, 5, [1, 2, 3], 9)]]"
    using pf_copy_try_msg_outcome[OF sys_example_ok example_args(1), where src = 1 and msgId = 2 and dst = 5 and ticks = 9]
    by (auto simp: sys_example_room example_args split: prod.splits)
  have v: "sys_view s1 ! 5 = Some [(1, 2, 5, [1, 2, 3], 9)]"
    using s1(3) by (simp add: sys_view_def sys_example_def MODULE_TASK_MAX_def)
  have five: "5 < MODULE_TASK_MAX" by (simp add: MODULE_TASK_MAX_def)
  from msg_entry_turn_outcome[where x = "[]" and moduleArray = repost, OF s1(2) five _ repost_keeps] s1(1) v
  show ?thesis by (auto simp: repost_def split: option.splits prod.splits)
qed

end
