(* ===== verification/Id_Tables.thy ===== *)
theory Id_Tables
  imports Pilot_Prelude
begin

text \<open>
  The tables of message, error and alarm identifiers, one list per header \<open>common/decl_*.h\<close>,
  entry by entry.  The headers are included several times with different definitions of their
  macros: as the enumeration of the identifiers, as the array of their names, and as the array
  from which the segment map is built.  Here an entry is data, and the three readings are
  functions, at the end of this theory and in \<open>Id_Maps\<close>.  An entry \<open>DECL x\<close> stands for \<open>DECL_EVENT(x, 0)\<close>, \<open>DECL_ERRID(x)\<close>
  and \<open>DECL_ALARMID(x)\<close>, an entry \<open>DECL_BEGIN x z\<close> for the macros that also fix the value.  A header
  of more than 150 lines is the concatenation of its parts.
\<close>

datatype id_decl = DECL string | DECL_BEGIN string nat

definition EVENT_SEG_LEN :: nat where "EVENT_SEG_LEN = 256"
definition ERRID_SEG_LEN :: nat where "ERRID_SEG_LEN = 256"
definition ALARMID_SEG_LEN :: nat where "ALARMID_SEG_LEN = 256"


section \<open>decl_event_cloud.h\<close>

definition decl_event_cloud :: "id_decl list" where
  "decl_event_cloud =
    [DECL_BEGIN ''INTER_BEGIN_MSG'' (96 * EVENT_SEG_LEN),
     DECL ''COMMON_REG_IND'',
     DECL ''FLYTO_RESULT_DATA_IND'',
     DECL ''FLYTO_RESULT_HEARTBEAT_DATA_IND'',
     DECL ''FLYTO_DRC_OSD_DATA_IND'',
     DECL ''PAYLOAD_RESULT_DATA_IND'',
     DECL ''PAYLOAD_GIMBAL_DATA_IND'',
     DECL ''PAYLOAD_CAMERA_DATA_IND'',
     DECL ''PAYLOAD_LIGHT_DATA_IND'',
     DECL ''WAYPOINT_RESULT_DATA_IND'',
     DECL ''TRACK_PUBLISH_DATA_IND'',
     DECL ''DJI_SERVICES_PUBLISH_DATA_IND'',
     DECL ''DJI_REAUESTS_REPLY_PUBLISH_DATA_IND'',
     DECL ''DJI_DRC_DOWN_PUBLISH_DATA_IND'',
     DECL ''BXT_UAV_STATUS_PUBLISH_DATA_IND'',
     DECL ''BXT_UAV_RESULT_PUBLISH_DATA_IND'',
     DECL ''PAYLOAD_PARAM_PUBLISH_DATA_IND'',
     DECL ''KMZ_REQUEST_PUBLISH_DATA_IND'',
     DECL ''KMZ_RESPONSE_DATA_IND'',
     DECL ''WAYPOINT_TASK_READY_DATA_IND'',
     DECL ''WAYPOINT_RESOURCE_GET_DATA_IND'',
     DECL ''WAYPOINT_TASK_PROGRESS_DATA_IND'',
     DECL ''DEVICES_RESULT_DATA_IND'',
     DECL ''REMOTE_DEBUG_DATA_IND'',
     DECL ''FLYTO_PROGRESS_DATA_IND'',
     DECL ''TRACK_STATE_DATA_IND'']"


section \<open>decl_event_drc_crm_r4.h\<close>

definition decl_event_drc_crm_r4 :: "id_decl list" where
  "decl_event_drc_crm_r4 =
    [DECL_BEGIN ''DRC_CRM_BEGIN_MSG'' (8 * EVENT_SEG_LEN),
     DECL ''DRC_CRM_EVENT_IND'',
     DECL ''CRM_DRC_EVENT_RSP'',
     DECL ''DRC_CRM_TCI_IND'',
     DECL ''DRC_CRM_FUSED_TRAFFIC_DATA_IND'',
     DECL ''DRC_CRM_TRAFFICLIGHT_DATA_IND'',
     DECL ''DRC_CRM_ACU_STATE_IND'',
     DECL ''DRC_CRM_TRAFFIC_INFO_IND'',
     DECL ''DRC_CRM_VT_POSITION_IND'']"


section \<open>decl_event_drc.h\<close>

definition decl_event_drc_1 :: "id_decl list" where
  "decl_event_drc_1 =
    [DECL_BEGIN ''DRC_INTER_BEGIN_MSG'' (16 * EVENT_SEG_LEN),
     DECL ''CLUSTER_NODE_REGIST_REQ'',
     DECL ''CLUSTER_NODE_REGIST_RSP'',
     DECL ''DEVICE_KEEP_ALIVE_IND'',
     DECL ''DEVICE_NODE_AWAKEN_IND'',
     DECL ''DCSM_OAM_NEW_DRSU_REQ'',
     DECL ''OAM_DCSM_NEW_DRSU_RSP'',
     DECL ''DCSM_OAM_DRSU_DEVICE_INFO_IND'',
     DECL ''OAM_DCSM_ALLDRSU_PARA_CFG_REQ'',
     DECL ''DCSM_OAM_ALLDRSU_PARA_CFG_RSP'',
     DECL ''OAM_DCSM_DEDIDRSU_PARA_CFG_REQ'',
     DECL ''DCSM_OAM_DEDIDRSU_PARA_CFG_RSP'',
     DECL ''OAM_DCSM_MAP_UPDATE_REQ'',
     DECL ''DCSM_OAM_MAP_UPDATE_RSP'',
     DECL ''DCSM_OAM_MAP_UPDATE_IND'',
     DECL ''OAM_DCSM_DRSU_SWUPDATE_REQ'',
     DECL ''DCSM_OAM_DRSU_SWUPDATE_RSP'',
     DECL ''DCSM_OAM_DRSU_SWUPDATE_IND'',
     DECL ''OAM_DCSM_DEDIDRSU_SWUPDATE_REQ'',
     DECL ''DCSM_OAM_DEDIDRSU_SWUPDATE_RSP'',
     DECL ''DCSM_OAM_DEDIDRSU_SWUPDATE_IND'',
     DECL ''DCSM_OAM_DRSU_ALARM_IND'',
     DECL ''OAM_DCSM_DRSU_ALARM_CFM'',
     DECL ''DCSM_OAM_DRSU_ALARM_CANCEL_IND'',
     DECL ''OAM_DCSM_DRSU_ALARM_CANCEL_CFM'',
     DECL ''OAM_DCSM_DEDIDRSU_SUBDEV_POWCTRL_REQ'',
     DECL ''DCSM_OAM_DEDIDRSU_SUBDEV_POWCTRL_RSP'',
     DECL ''OAM_DCSM_ALLDRSU_SUBDEV_POWCTRL_REQ'',
     DECL ''DCSM_OAM_ALLDRSU_SUBDEV_POWCTRL_RSP'',
     DECL ''OAM_DCSM_DRSU_ALLSUBDEV_POWCTRL_REQ'',
     DECL ''DCSM_OAM_DRSU_ALLSUBDEV_POWCTRL_RSP'',
     DECL ''OAM_DCSM_ALLDRSU_FANS_AUTO_TEMP_REQ'',
     DECL ''DCSM_OAM_ALLDRSU_FANS_AUTO_TEMP_RSP'',
     DECL ''OAM_DCSM_DEDIDRSU_BOX_OPEN_AUTO_ALARM_REQ'',
     DECL ''DCSM_OAM_DEDIDRSU_BOX_OPEN_AUTO_ALARM_RSP'',
     DECL ''DCSM_OAM_DEDIDRSU_EQUIP_BOX_STATUS_IND'',
     DECL ''OAM_DCSM_ALLDRSU_BUS_OPERATION_TIME_REQ'',
     DECL ''DCSM_OAM_ALLDRSU_BUS_OPERATION_TIME_RSP'',
     DECL ''OAM_DCSM_DRSU_RESTART_REQ'',
     DECL ''DCSM_OAM_DRSU_RESTART_RSP'',
     DECL ''DCSM_OAM_DRSU_OFF_IND'',
     DECL ''OAM_DCSM_DRC_REGISTER_IND'',
     DECL ''OAM_DCSM_LOG_PARA_CFG_CMD'',
     DECL ''OAM_DCSM_LOG_SWITCH_CTRL_CMD'',
     DECL ''DCSM_OAM_LOG_UPLOAD_IND'',
     DECL ''OAM_DCSM_ALLDRSU_LOG_LEVEL_CFG_REQ'',
     DECL ''OAM_DCSM_DEDIDRSU_LOG_LEVEL_CFG_REQ'',
     DECL ''OAM_DCSM_DEDIDRSU_LOG_LEVEL_QUERY_REQ'',
     DECL ''DCSM_OAM_ALLDRSU_LOG_LEVEL_CFG_RSP'',
     DECL ''DCSM_OAM_DEDIDRSU_LOG_LEVEL_CFG_RSP'',
     DECL ''DCSM_OAM_DEDIDRSU_LOG_LEVEL_QUERY_RSP'',
     DECL ''DCSM_OAM_FAIL_IND'',
     DECL ''ACSM_OAM_FAIL_IND'',
     DECL ''OAM_DCSM_START_REAL_PLAY_VIDEO_REQ'',
     DECL ''DCSM_OAM_START_REAL_PLAY_VIDEO_RSP'',
     DECL ''OAM_DCSM_STOP_REAL_PLAY_VIDEO_REQ'',
     DECL ''DCSM_OAM_STOP_REAL_PLAY_VIDEO_RSP'',
     DECL ''OAM_DCSM_REPLAY_VIDEO_REQ'',
     DECL ''DCSM_OAM_REPLAY_VIDEO_RSP'',
     DECL ''OAM_DCSM_VIDEO_PLATFORM_CTRL_REQ'',
     DECL ''DCSM_OAM_VIDEO_PLATFORM_CTRL_RSP'',
     DECL ''OAM_DCSM_AI_CFG_REQ'',
     DECL ''DCSM_OAM_AI_CFG_RSP'',
     DECL ''OAM_DCSM_DEBUGFILE_UPLOAD_IMMEDIATELY_REQ'',
     DECL ''DCSM_OAM_DEBUGFILE_UPLOAD_IMMEDIATELY_RSP'',
     DECL ''DCSM_OAM_SINGLE_SUBDEV_STATUS_RPT_IND'',
     DECL ''DCSM_OAM_ALL_DEV_STATUS_IND'',
     DECL ''DCSM_OAM_DRSU_ALLSUBDEV_POWCTRL_FAIL_IND'',
     DECL ''OAM_RCII_TWOD_ALLDRSU_OBSTACLE_RPT_REQ'',
     DECL ''RCII_OAM_TWOD_ALLDRSU_OBSTACLE_RPT_RSP'',
     DECL ''OAM_RCII_TWOD_DEDIDRSU_OBSTACLE_RPT_REQ'',
     DECL ''RCII_OAM_TWOD_DEDIDRSU_OBSTACLE_RPT_RSP'',
     DECL ''OAM_RCII_THREED_DEDIDRSU_OBSTACLE_RPT_REQ'',
     DECL ''RCII_OAM_THREED_DEDIDRSU_OBSTACLE_RPT_RSP'',
     DECL ''RCII_OAM_TWOD_ALLDRSU_OBSTACLE_RPT_IND'',
     DECL ''RCII_OAM_TWOD_DEDIDRSU_OBSTACLE_RPT_IND'',
     DECL ''RCII_OAM_THREED_DEDIDRSU_OBSTACLE_RPT_IND'',
     DECL ''OAM_RCII_THREED_ALLDRSU_OBSTACLE_RPT_CMD'',
     DECL ''NETWORK_DCSM_DRSU_CP_DATA_IND'',
     DECL ''NETWORK_RCII_DRSU_UP_DATA_IND'',
     DECL ''NETWORK_RCII_DRSU_UP_CONNECT_IND'',
     DECL ''NETWORK_DCSM_DRSU_CP_RELEASE_IND'',
     DECL ''NETWORK_RCII_DRSU_UP_RELEASE_IND'',
     DECL ''DCSM_RCII_NEW_DRSU_CFG_REQ'',
     DECL ''RCII_DCSM_NEW_DRSU_CFG_RSP'',
     DECL ''DCSM_RCII_DELETE_DRSU_IND'',
     DECL ''RCII_DCSM_DELETE_DRSU_RSP'',
     DECL ''RCII_DCSM_DELETE_DRSU_IND'',
     DECL ''RCII_DCSM_DRSU_NEED_SYNC_IND'',
     DECL ''NET_OAM_DATA_IND'',
     DECL ''NET_ACSM_DATA_IND'',
     DECL ''NET_ACSM_NEW_ACU'',
     DECL ''NET_ADSM_DATA_IND'',
     DECL ''NET_ACSM_ACU_CLIENT_DISCONNECT_IND'',
     DECL ''NET_OAM_CRM_CLIENT_DISCONNECT_IND'',
     DECL ''NET_BMSM_NEW_DEVICE'',
     DECL ''NET_BMSM_DATA_IND'',
     DECL ''NET_BMSM_DEVICE_CLIENT_DISCONNECT_IND'',
     DECL ''ADSM_RCII_ACU_DATA_REQ'',
     DECL ''RCII_ADSM_ACU_DATA_RSP'',
     DECL ''ACSM_ADSM_NEW_ACU_CFG_REQ'',
     DECL ''ADSM_ACSM_NEW_ACU_CFG_CFM'',
     DECL ''ACSM_ADSM_ACU_OFF_REQ'',
     DECL ''ADSM_ACSM_ACU_OFF_CFM'',
     DECL ''ADSM_ACSM_CHECK_ACU_ALIVE_REQ'',
     DECL ''ADSM_RCII_CHECKING_ACU_ALIVE_IND'',
     DECL ''ACSM_ADSM_CHECK_ACU_ALIVE_RSP'',
     DECL ''ADSM_OAM_ACU_ROAD_INFO_IND'',
     DECL ''ADSM_OAM_ACU_COORDINATE_IND'',
     DECL ''ADSM_OAM_BUS_INFO_RPT'',
     DECL ''ACSM_OAM_ACU_BUS_CTRL_RPT'',
     DECL ''RCTP0_MC_INIT_IND'',
     DECL ''RCTP1_MC_INIT_IND'',
     DECL ''RCTP2_MC_INIT_IND'',
     DECL ''RCTP3_MC_INIT_IND'',
     DECL ''RCTP4_MC_INIT_IND'',
     DECL ''RCTP5_MC_INIT_IND'',
     DECL ''RCTP6_MC_INIT_IND'',
     DECL ''RCTP7_MC_INIT_IND'',
     DECL ''RCER_MC_INIT_IND'',
     DECL ''OAM_RCII_INIT_CONFIG_REQ'',
     DECL ''RCII_OAM_INIT_CONFIG_RSP'',
     DECL ''OAM_RCER_INIT_CONFIG_REQ'',
     DECL ''RCER_OAM_INIT_CONFIG_RSP'',
     DECL ''RCII_RCTP_DRSU_DATA_INFO_IND'',
     DECL ''RCII_RCTP_CLEAR_INVALID_DRSU_REQ'',
     DECL ''RCTP_RCII_CLEAR_INVALID_DRSU_RSP'',
     DECL ''ADSM_RCII_ACU_OBS_INF_REQ'',
     DECL ''RCTP_ADSM_ACU_OBS_INF_RSP'',
     DECL ''RCER_RCTP_EVENT_ANALYZE_REQ'',
     DECL ''RCTP_RCER_EVENT_ANALYZE_RSP'',
     DECL ''RCER_DCSM_TRAFFIC_WARNING_EVENT_START_IND'',
     DECL ''RCER_DCSM_TRAFFIC_WARNING_EVENT_UPDATE_IND'',
     DECL ''RCER_DCSM_TRAFFIC_WARNING_EVENT_END_IND'',
     DECL ''RCER_OAM_SINGLE_VEHICLE_TRAFFIC_ACCIDENT_WARNING_IND'',
     DECL ''RCER_OAM_TWO_VEHICLE_TRAFFIC_ACCIDENT_WARNING_IND'',
     DECL ''RCER_OAM_MULTIPLE_VEHICLE_TRAFFIC_ACCIDENT_WARNING_IND'',
     DECL ''RCER_OAM_SINGLE_VEHICLE_ABNORMAL_PARKING_WARNING_IND'',
     DECL ''RCER_OAM_VEHICLE_CONVERSE_RUNNING_WARNING_IND'',
     DECL ''RCER_OAM_LOW_SPEED_WARNING_IND'',
     DECL ''RCER_OAM_ULTRA_LOW_SPEED_WARNING_IND'',
     DECL ''RCER_OAM_TRAFFIC_JAM_WARNING_IND'']"

definition decl_event_drc_2 :: "id_decl list" where
  "decl_event_drc_2 =
    [DECL ''RCER_OAM_ROAD_CLOSE_WARNING_IND'',
     DECL ''RCER_OAM_SPOILING_WARNING_IND'',
     DECL ''RCER_OAM_ICING_WARNING_IND'',
     DECL ''RCER_OAM_WET_SLIDING_WARNING_IND'',
     DECL ''RCER_OAM_CLUSTER_FOG_WARNING_IND'',
     DECL ''RCER_OAM_VIOLATION_PERSON_WARNING_IND'',
     DECL ''RCER_OAM_ACCIDENT_RELIEVE_IND'',
     DECL ''OAM_RCER_EVENT_RECOGNIZE_CONFIG_REQ'',
     DECL ''RCER_OAM_EVENT_RECOGNIZE_CONFIG_RSP'',
     DECL ''RCER_OAM_TWO_VEHICLE_ABNORMAL_PARKING_WARNING_IND'',
     DECL ''OAM_DCSM_INIT_CFG_REQ'',
     DECL ''DCSM_OAM_INIT_CFG_RSP'',
     DECL ''OAM_RCTPX_INIT_CFG_REQ'',
     DECL ''RCTPX_OAM_INIT_CFG_RSP'',
     DECL ''OAM_ACSM_INIT_CFG_REQ'',
     DECL ''ACSM_OAM_INIT_CFG_RSP'',
     DECL ''OAM_ADSM_INIT_CFG_REQ'',
     DECL ''ADSM_OAM_INIT_CFG_RSP'',
     DECL ''OAM_BMSM_INIT_CFG_REQ'',
     DECL ''OAM_BMSM_OAM_REGISTED_IND'',
     DECL ''BMSM_OAM_INIT_CFG_RSP'',
     DECL ''RCII_DCSM_NOT_RECEIVED_DATA_IND'',
     DECL ''RCII_RCTP_ACU_OBS_INF_REQ'',
     DECL ''RCER_OAM_EXCEED_SPEED_WARNING_IND'',
     DECL ''OAM_RCER_CRM_OFF_LINE_IND'',
     DECL ''OAM_RCER_CRM_ON_LINE_IND'',
     DECL ''BMSM_OAM_NEW_BANMA_REQ'',
     DECL ''OAM_BMSM_NEW_BANMA_RSP'',
     DECL ''BMSM_OAM_BANMA_CONNECT_IND'',
     DECL ''BMSM_OAM_BANMA_DISCONNECT_IND'',
     DECL ''OAM_BMSM_BANMA_ONLINE_LIST_REQ'',
     DECL ''BMSM_OAM_BANMA_ONLINE_LIST_RSP'',
     DECL ''BMSM_RCTP_2D_DATA_REQ'',
     DECL ''RCTP_BMSM_2D_DATA_RSP'',
     DECL ''BMSM_MC_INIT_IND'',
     DECL ''RCII_RCTP_ALL_2D_DATA_INFO_REQ'',
     DECL ''RCTP_OAM_ALL_2D_DATA_INFO_RSP'',
     DECL ''RCER_OAM_ROAD_MAINTENANCE_WARNING_IND'',
     DECL ''DCSM_RCER_IP_CAM_STATUS_IND'',
     DECL ''RCER_OAM_OCCUPY_EMERGENCY_LANE_WARNING_IND'',
     DECL ''OAM_RCTP_ALL_2D_DATA_INFO_CFM'',
     DECL ''RCER_OAM_TRUCK_OCCUPY_THE_FAST_LANE_WARNING_IND'',
     DECL ''ADSM_BMSM_ACU_STATE_IND'',
     DECL ''MQTT_MC_INIT_IND'',
     DECL ''OAM_MQTT_INIT_CFG_REQ'',
     DECL ''MQTT_OAM_INIT_CFG_RSP'',
     DECL ''TO_MQTT_DATA_IND'',
     DECL ''ADSM_BMSM_BRAKE_STATE_IND'',
     DECL ''OAM_ACSM_OAM_REGISTED_IND'',
     DECL ''MQTT_BMSM_DIS_IND'',
     DECL ''RCER_OAM_VEHICLE_TRAFFIC_ACCIDENT_WARNING_IND'',
     DECL ''RCER_OAM_VEHICLE_ABNORMAL_PARKING_WARNING_IND'',
     DECL ''BMSM_OAM_BANMA_CLIENT_INFO_IND'',
     DECL_BEGIN ''DRC_INTER_BEGIN_MSG_2'' (17 * EVENT_SEG_LEN),
     DECL ''CFGCMD_MC_INIT_IND'',
     DECL ''OAM_CFGCMD_INIT_CFG_REQ'',
     DECL ''CFGCMD_OAM_INIT_CFG_RSP'',
     DECL ''OAM_CFGCMD_DRC_REGISTER_IND'',
     DECL ''CFG_ADSM_ACUSTATE_TO_VT_SWITCH_REQ'',
     DECL ''ADSM_CFG_ACUSTATE_TO_VT_SWITCH_RSP'',
     DECL ''CFG_ADSM_ACUSTATE_TO_VT_SWITCH_QUERY_REQ'',
     DECL ''ADSM_CFG_ACUSTATE_TO_VT_SWITCH_QUERY_RSP'',
     DECL ''CFG_ADSM_ACUBRAKEINFO_TO_VT_SWITCH_REQ'',
     DECL ''ADSM_CFG_ACUBRAKEINFO_TO_VT_SWITCH_RSP'',
     DECL ''CFG_ADSM_ACUBRAKEINFO_TO_VT_SWITCH_QUERY_REQ'',
     DECL ''ADSM_CFG_ACUBRAKEINFO_TO_VT_SWITCH_QUERY_RSP'',
     DECL ''CFG_RCER_EVENT_RECOGNIZE_SWITCH_REQ'',
     DECL ''RCER_CFG_EVENT_RECOGNIZE_SWITCH_RSP'',
     DECL ''CFG_RCER_EVENT_RECOGNIZE_SWITCH_QUERY_REQ'',
     DECL ''RCER_CFG_EVENT_RECOGNIZE_SWITCH_QUERY_RSP'',
     DECL ''CFG_ACSM_ALLACU_VIDEO_SWITCH_QUERY_REQ'',
     DECL ''ACSM_CFG_ALLACU_VIDEO_SWITCH_QUERY_RSP'',
     DECL ''CFG_ACSM_ALLACU_OBSTACLE_SWITCH_QUERY_REQ'',
     DECL ''ACSM_CFG_ALLACU_OBSTACLE_SWITCH_QUERY_RSP'',
     DECL ''CFG_RCII_TWOD_ALLDRSU_SWITCH_REQ'',
     DECL ''RCII_CFG_TWOD_ALLDRSU_SWITCH_RSP'',
     DECL ''CFG_RCII_TWOD_ALLDRSU_SWITCH_QUERY_REQ'',
     DECL ''RCII_CFG_TWOD_ALLDRSU_SWITCH_QUERY_RSP'',
     DECL ''CFG_RCII_THREED_ALLDRSU_SWITCH_REQ'',
     DECL ''RCII_CFG_THREED_ALLDRSU_SWITCH_RSP'',
     DECL ''CFG_RCII_THREED_ALLDRSU_SWITCH_QUERY_REQ'',
     DECL ''RCII_CFG_THREED_ALLDRSU_SWITCH_QUERY_RSP'',
     DECL ''CFG_ADSM_REDIS_SWITCH_IND'',
     DECL ''CFG_BMSM_REDIS_SWITCH_IND'',
     DECL ''CFG_OAM_REDIS_SWITCH_IND'',
     DECL ''CFG_RCTP_REDIS_SWITCH_IND'',
     DECL ''CFG_ADSM_REDIS_SWITCH_QUERY_REQ'',
     DECL ''ADSM_CFG_REDIS_SWITCH_QUERY_RSP'',
     DECL ''CFG_BMSM_TRAJECTORYMATCH_SWITCH_IND'',
     DECL ''CFG_BMSM_TRAJECTORYMATCH_SWITCH_QUERY_REQ'',
     DECL ''BMSM_CFG_TRAJECTORYMATCH_SWITCH_QUERY_RSP'',
     DECL ''ACSM_OAM_ACU_VIDEO_DATA_RPT'',
     DECL ''OAM_ACSM_ALLACU_VIDEO_SWITCH_CMD'',
     DECL ''RCER_OAM_OCCUPY_BUS_LANE_WARNING_IND'',
     DECL ''BMSM_RCTP_TAJECTOR_MATCH_REQ'',
     DECL ''RCTP_BMSM_TAJECTOR_MATCH_RSP'',
     DECL ''RCII_RCTP_DATA_INTIGRATION_IND'',
     DECL ''RCTP0_OAM_INTIGRATION_DATA_IND'',
     DECL ''VTSM_MC_INIT_IND'',
     DECL ''VTSM_REGC_MC_INIT_IND'',
     DECL ''VTSM_RECM_MC_INIT_IND'',
     DECL ''VTSM_MC_REGC_READY_IND'',
     DECL ''NET_VTSM_REGC_CLIENT_DISCONNECT_IND'',
     DECL ''VTSM_REGC_RECM_INIT_CFG_REQ'',
     DECL ''NET_VTSM_REGC_DATA_IND'',
     DECL ''VTSM_REGC_VTSM_CFG_IND'',
     DECL ''VTSM_REGC_VTSM_CFG_REQ'',
     DECL ''VTSM_VTSM_REGC_CFG_RSP'',
     DECL ''ACU_VTSM_ACU_STATE_IND'',
     DECL ''ADSM_VTSM_ACU_BRAKE_STATE_IND'',
     DECL ''VTSM_REGC_RECM_INIT_FINISH_IND'',
     DECL ''VTSM_REGC_VTSM_INIT_FINISH_IND'',
     DECL ''NET_VTSM_NEW_DEVICE'',
     DECL ''NET_VTSM_DATA_IND'',
     DECL ''NET_VTSM_DEVICE_CLIENT_DISCONNECT_IND'',
     DECL ''VTSM_VTSM_REGC_VT_POSITION_IND'',
     DECL ''VTSM_REGC_START_CFG_IND'',
     DECL ''VTSM_RECM_REGC_CFG_RSP'',
     DECL ''VTSM_REGC_RECM_CFG_REQ'',
     DECL ''RECM_VTSM_VTSM_ACU_STATE_IND'',
     DECL ''RCTP_REGC_MC_INIT_IND'',
     DECL ''RCTP_RECM_MC_INIT_IND'',
     DECL ''RCTP_MC_REGC_READY_IND'',
     DECL ''NET_REGC_DATA_IND'',
     DECL ''RCTP_REGC_RCTPX_INIT_CFG_REQ'',
     DECL ''RCTP_REGC_RCTPX_INIT_CFG_RSP'',
     DECL ''RCTP_REGC_RECM_INIT_CFG_REQ'',
     DECL ''RCTP_RECM_REGC_INIT_CFG_RSP'',
     DECL ''RCTP_REGC_RECM_WORK_IND'',
     DECL ''RCTP_RECM_RCTP_DRSU_IND'']"

definition decl_event_drc_3 :: "id_decl list" where
  "decl_event_drc_3 =
    [DECL ''RCTP_RCTP_REGC_ALL_2D_DATA_INFO_REQ'',
     DECL ''RCTP_REGC_RCTP_ALL_2D_DATA_INFO_CFM'',
     DECL ''RCTP_REGC_RECR_WAKE_UP_IND'',
     DECL ''RCTP_REGC_RCTP_EVENT_ANALYZE_REQ'',
     DECL ''RCTP_REGC_RCTP_ALL_2D_DATA_INFO_REQ'',
     DECL ''RCTP_REGC_RCTP_DRSU_DATA_INFO_IND'',
     DECL ''RCTP_REGC_REGC_TCI_TIMER_IND'',
     DECL ''RCTP_REGC_RCTP_TCI_REQ_IND'',
     DECL ''RCTP_RCTP_REGC_TCI_RSP_IND'']"

definition decl_event_drc :: "id_decl list" where
  "decl_event_drc = decl_event_drc_1 @ decl_event_drc_2 @ decl_event_drc_3"


section \<open>decl_event_pl.h\<close>

definition decl_event_pl :: "id_decl list" where
  "decl_event_pl =
    [DECL_BEGIN ''PLATFORM_BEGIN_MSG'' (255 * EVENT_SEG_LEN),
     DECL ''PF_MC_READY_IND'',
     DECL ''TIMER_EXPIRY_MSG'',
     DECL ''FRAME_REPORT_IND'',
     DECL ''TRACE_PC_LOG_INFO_IND'',
     DECL ''GTEST_SOCKET_MSG_IND'',
     DECL ''OAM_FTP_GET_NEW_VERSION_REQ'',
     DECL ''FTP_OAM_GET_NEW_VERSION_RSP'',
     DECL ''OAM_FTP_GET_NEW_FILE_REQ'',
     DECL ''FTP_OAM_GET_NEW_FILE_RSP'',
     DECL ''OAM_PLATFORM_LOG_PARA_CFG_CMD'',
     DECL ''OAM_PLATFORM_LOG_SWITCH_CTRL_CMD'',
     DECL ''PLATFORM_OAM_LOG_UPLOAD_IND'',
     DECL ''OAM_FTP_PUT_NEW_FILE_REQ'',
     DECL ''FTP_OAM_PUT_NEW_FILE_RSP'',
     DECL ''LOG_RECORD_PUT_FTP_FILE_REQ'',
     DECL ''OAM_PLATFORM_LOG_UPLOAD_NOW_REQ'',
     DECL ''OAM_FTP_PUT_NEW_FILE_NOW_REQ'',
     DECL ''FTP_OAM_PUT_NEW_FILE_NOW_RSP'',
     DECL ''OAM_FTP_PUT_LOG_FILE_REQ'',
     DECL ''PF_DAILY_RECORD_LOG_INFO'',
     DECL ''DRTS_CRM_SIMULATION_DATA_INFO'',
     DECL ''PF_LOG_KAFKA_INFO'']"


section \<open>decl_event_drc_acu.h\<close>

definition decl_event_drc_acu :: "id_decl list" where
  "decl_event_drc_acu =
    [DECL_BEGIN ''DRC_ACU_BEGIN_MSG'' 0,
     DECL ''ACU_MSG_TYPE_CONNECT_REQ'',
     DECL ''ACU_MSG_TYPE_CONNECT_RSP'',
     DECL ''ACU_MSG_TYPE_DISCONNECT_REQ'',
     DECL ''ACU_MSG_TYPE_DISCONNECT_RSP'',
     DECL ''ACU_MSG_TYPE_VEHICLE_STATE'',
     DECL ''ACU_MSG_TYPE_RESERVED'',
     DECL ''ACU_MSG_TYPE_RESERVED1'',
     DECL ''ACU_MSG_TYPE_BUS_INFO'',
     DECL ''ACU_MSG_TYPE_ALARM_RPT'',
     DECL ''ACU_MSG_TYPE_ALARM_CFM'',
     DECL ''ACU_MSG_TYPE_ALARM_CLEAN_RPT'',
     DECL ''ACU_MSG_TYPE_ALARM_CLEAN_CFM'',
     DECL ''ACU_MSG_TYPE_MAP_UPDATE_REQ'',
     DECL ''ACU_MSG_TYPE_MAP_UPDATE_CFM'',
     DECL ''ACU_MSG_TYPE_MAP_UPDATE_IND'',
     DECL ''ACU_MSG_TYPE_SW_UPDATE_REQ'',
     DECL ''ACU_MSG_TYPE_SW_UPDATE_CFM'',
     DECL ''ACU_MSG_TYPE_SW_UPDATE_IND'',
     DECL ''ACU_MSG_TYPE_ALIVE_REQ'',
     DECL ''ACU_MSG_TYPE_ALIVE_RSP'',
     DECL ''ACU_MSG_TYPE_SCHEDULE_REQ'',
     DECL ''ACU_MSG_TYPE_SCHEDULE_CFM'',
     DECL ''ACU_MSG_TYPE_DATA'',
     DECL ''ACU_MSG_TYPE_CONFIG_REQ'',
     DECL ''ACU_MSG_TYPE_CONFIG_CFM'',
     DECL ''ACU_MSG_TYPE_OBSTACLE_RPT'',
     DECL ''ACU_MSG_TYPE_BUS_CTRL_RPT'',
     DECL ''ACU_MSG_TYPE_BUS_FUNCTION_DISABLE_RPT'',
     DECL ''ACU_MSG_TYPE_VIDEO_DATA_RPT'']"


section \<open>decl_event_drc_drsu.h\<close>

definition decl_event_drc_drsu :: "id_decl list" where
  "decl_event_drc_drsu =
    [DECL_BEGIN ''DRC_DRSU_BEGIN'' (4 * EVENT_SEG_LEN),
     DECL ''DRC_DRSU_REG_RSP'',
     DECL ''DRC_DRSU_CFG_REQ'',
     DECL ''DRC_DRSU_HDM_UPDATE_REQ'',
     DECL ''DRC_DRSU_SOFTWARE_UPDATE_REQ'',
     DECL ''DRC_DRSU_ALARM_CRITICAL_RSP'',
     DECL ''DRC_DRSU_ALARM_CLEAR_CFM'',
     DECL ''DRC_DRSU_RESTART_IND'',
     DECL ''DRC_DRSU_LOGUPLOAD_CFG_REQ'',
     DECL ''DRC_DRSU_LOGSWICH_CFG_REQ'',
     DECL ''DRC_DRSU_FANS_TMPRT_CFG_REQ'',
     DECL ''DRC_DRSU_EQUIP_BOX_OPEN_ALARM_DISABLE_TIME_CFG_REQ'',
     DECL ''DRC_DRSU_WORK_TIME_CFG_REQ'',
     DECL ''DRC_DRSU_LOGLEVEL_CFG_REQ'',
     DECL ''DRC_DRSU_LOGLEVEL_QUERY_REQ'',
     DECL ''DRC_DRSU_TRAFFIC_WARNING_EVENT_START_REQ'',
     DECL ''DRC_DRSU_TRAFFIC_WARNING_EVENT_UPDATE_REQ'',
     DECL ''DRC_DRSU_TRAFFIC_WARNING_EVENT_END_REQ'',
     DECL ''DRC_DRSU_START_VIDEO_PREVIEW_REQ'',
     DECL ''DRC_DRSU_STOP_VIDEO_PREVIEW_REQ'',
     DECL ''DRC_DRSU_VIDEO_REPORT_REQ'',
     DECL ''DRC_DRSU_VIDEO_PTZ_CTRL_REQ'',
     DECL ''DRC_DRSU_AI_CFG_REQ'',
     DECL ''DRC_DRSU_DEBUGFILE_UPLOAD_IMMEDIATELY_REQ'',
     DECL ''DRC_DRSU_DEVICE_POWEROFF_REQ'',
     DECL ''DRC_DRSU_DEVICE_POWERON_REQ'',
     DECL ''DRC_DRSU_ALL_SENSOR_POWEROFF_REQ'',
     DECL ''DRC_DRSU_ALL_SENSOR_POWERON_REQ'',
     DECL ''DRC_DRSU_DATA_SYNC_REQ'',
     DECL ''DRC_DRSU_DEVICE_STATUS_REPORT_RSP'',
     DECL ''DRC_DRSU_ALL_DEVICE_STATUS_REPORT_RSP'',
     DECL ''DRC_DRSU_IDLE_START_VIDEO_PREVIEW_REQ'',
     DECL ''DRC_DRSU_MODIFY_DRSU_VIDEO_DEFINITION_REQ'',
     DECL ''DRC_DRSU_ALARM_RPT_PERIOD_CFG_REQ'',
     DECL ''DRC_DRSU_NOT_RECEIVED_DATA_NOTIFY'',
     DECL_BEGIN ''DRSU_DRC_BEGIN_MSG'' (64 * EVENT_SEG_LEN),
     DECL ''DRSU_DRC_REG_REQ'',
     DECL ''DRSU_DRC_HDM_UPDATE_CFM'',
     DECL ''DRSU_DRC_HDM_UPDATE_IND'',
     DECL ''DRSU_DRC_SOFTWARE_UPDATE_CFM'',
     DECL ''DRSU_DRC_SOFTWARE_UPDATE_IND'',
     DECL ''DRSU_DRC_ALARM_CRITICAL_REQ'',
     DECL ''DRSU_DRC_ALARM_NORMAL_IND'',
     DECL ''DRSU_DRC_ALARM_CLEAR_IND'',
     DECL ''DRSU_DRC_RAW_DATA_INFO_IND'',
     DECL ''DRSU_DRC_LOGUPLOAD_CFG_RSP'',
     DECL ''DRSU_DRC_LOGSWITCH_CFG_RSP'',
     DECL ''DRSU_DRC_LOG_FILE_RECORDINFO_IND'',
     DECL ''DRSU_DRC_FANS_TMPRT_CFG_RSP'',
     DECL ''DRSU_DRC_EQUIP_BOX_OPEN_ALARM_DISABLE_TIME_CFG_RSP'',
     DECL ''DRSU_DRC_DEVICE_STATUS_REPORT'',
     DECL ''DRSU_DRC_ALL_DEVICE_STATUS_REPORT'',
     DECL ''DRSU_DRC_WORK_TIME_CFG_RSP'',
     DECL ''DRSU_DRC_LOGLEVEL_CFG_RSP'',
     DECL ''DRSU_DRC_LOGLEVEL_QUERY_RSP'',
     DECL ''DRSU_DRC_TRAFFIC_WARNING_EVENT_START_RSP'',
     DECL ''DRSU_DRC_TRAFFIC_WARNING_EVENT_UPDATE_RSP'',
     DECL ''DRSU_DRC_TRAFFIC_WARNING_EVENT_END_RSP'',
     DECL ''DRSU_DRC_START_VIDEO_PREVIEW_RSP'',
     DECL ''DRSU_DRC_STOP_VIDEO_PREVIEW_RSP'',
     DECL ''DRSU_DRC_VIDEO_REPORT_RSP'',
     DECL ''DRSU_DRC_VIDEO_PTZ_CTRL_RSP'',
     DECL ''DRSU_DRC_AI_CFG_RSP'',
     DECL ''DRSU_DRC_DEBUGFILE_UPLOAD_IMMEDIATELY_RSP'',
     DECL ''DRSU_DRC_DEVICE_POWEROFF_RSP'',
     DECL ''DRSU_DRC_DEVICE_POWERON_RSP'',
     DECL ''DRSU_DRC_ALL_SENSOR_POWEROFF_RSP'',
     DECL ''DRSU_DRC_ALL_SENSOR_POWERON_RSP'',
     DECL ''DRSU_DRC_EQUIP_BOX_TMPRT_REPORT_IND'',
     DECL ''DRSU_DRC_CFG_RSP'',
     DECL ''DRSU_DRC_DATA_SYNC_RSP'',
     DECL ''DRSU_DRC_IDLE_START_VIDEO_PREVIEW_RSP'',
     DECL ''DRSU_DRC_MODIFY_DRSU_VIDEO_DEFINITION_RSP'',
     DECL ''DRSU_DRC_ALARM_RPT_PERIOD_CFG_RSP'',
     DECL ''DRSU_DRC_DATA_INFO_IND'']"


section \<open>decl_event_drc_banma.h\<close>

definition decl_event_drc_banma :: "id_decl list" where
  "decl_event_drc_banma =
    [DECL_BEGIN ''DRC_BANMA_BEGIN_MSG'' (250 * EVENT_SEG_LEN),
     DECL ''BANMA_MSG_TYPE_CONNECT_REQ'',
     DECL ''BANMA_MSG_TYPE_CONNECT_RSP'',
     DECL ''BANMA_MSG_TYPE_POSITION_REQ'',
     DECL ''BANMA_MSG_TYPE_POSITION_RSP'',
     DECL ''BANMA_MSG_TYPE_DISCONNECT_REQ'',
     DECL ''BANMA_MSG_TYPE_DISCONNECT_COMMAND'',
     DECL ''BANMA_MSG_TYPE_DISCONNECT_COMPLETE'',
     DECL ''BANMA_MSG_TYPE_ACU_STATE_IND'',
     DECL ''BANMA_MSG_TYPE_EMERGENC_YBRAKE_WARNING'',
     DECL ''BANMA_MSG_TYPE_QUIT_EMERGENCY_LANEIND'']"


section \<open>decl_event_drsu.h\<close>

definition decl_event_drsu_1 :: "id_decl list" where
  "decl_event_drsu_1 =
    [DECL_BEGIN ''DRSU_INTER_BEGIN_MSG'' (80 * EVENT_SEG_LEN),
     DECL ''CTRL_MODULE_REG_TIMER_OUT'',
     DECL ''CTRL_DRSU_REG_TIMER_OUT'',
     DECL ''CTRL_HDM_UPDATE_TIMER_OUT'',
     DECL ''CTRL_DEVICE_REPORT_TIMEROUT'',
     DECL ''CTRL_SENSOR_POWER_TIMEROUT'',
     DECL ''CTRL_SENSOR_ALL_POWER_TIMEROUT'',
     DECL ''CTRL_MODULE_POWER_TIMEROUT'',
     DECL ''CTRL_MODULE_ALL_POWER_TIMEROUT'',
     DECL ''CTRL_WAIT_POWERON_TIMEROUT'',
     DECL ''CTRL_WAIT_ALL_POWERON_TIMEROUT'',
     DECL ''PF_CTRL_BREAK_CHAIN_REPORT'',
     DECL ''PF_CTRL_MODULE_CFG_TIMEROUT'',
     DECL ''PF_CTRL_ALARM_REPORT_TIMEOUT'',
     DECL ''PF_CTRL_AUTO_POWER_TIMEOUT'',
     DECL ''PF_CTRL_SINGLE_STATUS_REPORT_TIMEOUT'',
     DECL ''PF_CTRL_ALL_STATUS_REPORT_TIMEOUT'',
     DECL ''PF_CTRL_WAIT_MONITDP_RSP_TIMEOUT'',
     DECL ''PF_CTRL_EQUIT_BOX_TMPRT_TIMEOUT'',
     DECL ''MODULE_ALARM_REPORT_NOTIFY'',
     DECL ''CTRL_MODULE_REG_RSP'',
     DECL ''CTRL_MODULE_REG_RSP_TIMEOUT'',
     DECL ''MODULE_CTRL_ALARM_NOTIFY'',
     DECL ''AIDATA_CTRL_REG_IND'',
     DECL ''CTRL_AIDATA_CFG_REQ'',
     DECL ''AIDATA_CTRL_CFG_RSP'',
     DECL ''AI_DS_DATA_NOTIFY'',
     DECL ''CAMERAADAPTER_CTRL_REG_IND'',
     DECL ''CTRL_CAMERAADAPTER_CFG_REQ'',
     DECL ''CAMERAADAPTER_CTRL_CFG_RSP'',
     DECL ''AIDATA_CAMERAADAPTER_PIC_DATA'',
     DECL ''CAMERAADAPTER_AIDATA_ADJUST_RESULT'',
     DECL ''AICTRL_CTRL_REG_IND'',
     DECL ''CTRL_AICTRL_CFG_REQ'',
     DECL ''AICTRL_CTRL_CFG_RSP'',
     DECL ''CTRL_AICTRL_ROAD_SURFACE_CFG_REQ'',
     DECL ''AICTRL_CTRL_ROAD_SURFACE_CFG_RSP'',
     DECL ''DM_CTRL_REG_IND'',
     DECL ''CTRL_DM_CFG_REQ'',
     DECL ''DM_CTRL_CFG_RSP'',
     DECL ''CTRL_DM_DEVICE_POWEROFF_REQ'',
     DECL ''DM_CTRL_DEVICE_POWEROFF_RSP'',
     DECL ''CTRL_DM_DEVICE_POWERON_REQ'',
     DECL ''DM_CTRL_DEVICE_POWERON_RSP'',
     DECL ''CTRL_DM_ALL_SENSOR_POWEROFF_REQ'',
     DECL ''DM_CTRL_ALL_SENSOR_POWEROFF_RSP'',
     DECL ''CTRL_DM_ALL_SENSOR_POWERON_REQ'',
     DECL ''DM_CTRL_ALL_SENSOR_POWERON_RSP'',
     DECL ''CTRL_DM_FANS_TMPRT_CFG_REQ'',
     DECL ''DM_CTRL_FANS_TMPRT_CFG_RSP'',
     DECL ''CTRL_DM_EQUIP_BOX_OPEN_ALARM_DISABLE_TIME_CFG_REQ'',
     DECL ''DM_CTRL_EQUIT_BOX_OPEN_ALARM_DISABLE_TIME_CFG_RSP'',
     DECL ''DM_CTRL_EQUIT_BOX_TMPRT_REPORT_IND'',
     DECL ''DM_CTRL_BOX_DOOR_STATUS_REPORT_IND'',
     DECL ''DM_CTRL_CHANGE_POWERON_REPORT_IND'',
     DECL ''DM_CTRL_CHANGE_POWEROFF_REPORT_IND'',
     DECL ''LIDARDP_CTRL_REG_IND'',
     DECL ''CTRL_LIDARDP_CFG_REQ'',
     DECL ''LIDARDP_CTRL_CFG_RSP'',
     DECL ''CTRL_LIDARDP_POWERON_REQ'',
     DECL ''LIDARDP_CTRL_POWERON_RSP'',
     DECL ''CTRL_LIDARDP_POWEROFF_IND'',
     DECL ''LIDARDP_CTRL_ALARM_NOTIFY'',
     DECL ''LIDAR_LIDARDP_DATA_NOTIFY'',
     DECL ''PF_LIDARDP_FAST_CHECK_STATUS_TIMEOUT'',
     DECL ''PF_LIDARDP_FIRST_FRAME_NOT_RECV_TIMEOUT'',
     DECL ''PF_LIDARDP_RECONN_LIDAR_TIMEOUT'',
     DECL ''PF_LIDARDP_CHECK_LIDAR_DATA_STATUS_TIMEOUT'',
     DECL ''LIDARDP_CTRL_STATUS_CHANGE_REPORT_IND'',
     DECL ''CTRL_LIDARDP_DATASYNC_IND'',
     DECL ''LIDARDP_CTRL_SENSOR_DATA_SYNC_RSP'',
     DECL ''LIDARDP_CTRL_RECONN_OVER_MAX_COUNT_IND'',
     DECL ''LIDARDP_CTRL_CHANGE_REPORT_IND'',
     DECL ''LIDARDP_AIDATA_DATA_NOTIFY'',
     DECL ''CAMERADP_CTRL_REG_IND'',
     DECL ''CAMERADP_VA_HANDSHAKE'',
     DECL ''CTRL_CAMERADP_DATASYNC_IND'',
     DECL ''CAMERADP_CTRL_DATA_SYNC_RSP'',
     DECL ''CAMERADP_CTRL_FRAME_RETE_ALARM_IND'',
     DECL ''PF_CAMERADP_FRAME_RATE_CHECK_TIMEOUT'',
     DECL ''PF_CAMERADP_DATA_NOTIFY'',
     DECL ''CAMERADP_CTRL_STATUS_CHANGE_REPORT_IND'',
     DECL ''CAMERADP_AIDATA_DATA_NOTIFY'',
     DECL ''CTRL_CAMERADP_REG_RSP'',
     DECL ''CTRL_CAMERADP_REG_RSP_TIMEOUT'',
     DECL ''CTRL_CAMERADP_CFG_REQ'',
     DECL ''CAMERADP_WAIT_CTRL_CFG_TIMEOUT'',
     DECL ''CAMERADP_CTRL_CFG_RSP'',
     DECL ''CTRL_CAMERADP_POWER_REQ'',
     DECL ''CAMERADP_CTRL_POWER_RSP'',
     DECL ''CAMERADP_CTRL_ALARM_NOTIFY'',
     DECL ''CAMERADP_AI_DATA_NOTIFY'',
     DECL ''CAMERADP_DS_RAWDATA_NOTIFY'',
     DECL ''CTRL_CAMERADP_DEVICE_STATUS_REQ'',
     DECL ''CAMERADP_CTRL_RECONN_OVER_MAX_COUNT_IND'',
     DECL ''CAMERADP_CTRL_CHANGE_REPORT_IND'',
     DECL ''CTRL_CAMERADP_POWERON_REQ'',
     DECL ''CAMERADP_CTRL_POWERON_RSP'',
     DECL ''CTRL_CAMERADP_POWEROFF_IND'',
     DECL ''PF_CAMERADP_FAST_CHECK_STATUS_TIMEOUT'',
     DECL ''PF_CAMERADP_CHECK_CAMERA_DATA_STATUS_TIMEOUT'',
     DECL ''PF_CAMERADP_DISCONN_NOTIFY'',
     DECL ''DS_CTRL_REG_IND'',
     DECL ''CTRL_DS_CFG_REQ'',
     DECL ''DS_CTRL_CFG_RSP'',
     DECL ''PF_DS_RECONN_TIMEROUT'',
     DECL ''PF_DS_BREAK_CHAIN_IND'',
     DECL ''PF_DS_FRAME_RATE_CHECK_TIMEOUT'',
     DECL ''DS_CTRL_FRAME_RETE_ALARM_IND'',
     DECL ''MONITDP_CTRL_REG_IND'',
     DECL ''CTRL_MONITDP_CFG_REQ'',
     DECL ''MONITDP_CTRL_CFG_RSP'',
     DECL ''CTRL_MONITDP_START_VIDEO_REQ'',
     DECL ''MONITDP_CTRL_START_VIDEO_RSP'',
     DECL ''CTRL_MONITDP_IDLE_START_VIDEO_REQ'',
     DECL ''MONITDP_CTRL_IDLE_START_VIDEO_RSP'',
     DECL ''CTRL_MONITDP_UPDATE_VIDEO_REQ'',
     DECL ''MONITDP_CTRL_UPDATE_VIDEO_RSP'',
     DECL ''CTRL_MONITDP_STOP_VIDEO_REQ'',
     DECL ''MONITDP_CTRL_STOP_VIDEO_RSP'',
     DECL ''CTRL_MONITDP_VIDEO_PTZ_CTRL_REQ'']"

definition decl_event_drsu_2 :: "id_decl list" where
  "decl_event_drsu_2 =
    [DECL ''MONITDP_CTRL_VIDEO_PTZ_CTRL_RSP'',
     DECL ''CTRL_MONITDP_VIDEO_REPORT_REQ'',
     DECL ''MONITDP_CTRL_VIDEO_REPORT_RSP'',
     DECL ''CTRL_MONITDP_MODIFY_VIDEO_DEFINITION_REQ'',
     DECL ''MONITDP_CTRL_MODIFY_VIDEO_DEFINITION_RSP'',
     DECL ''MONITDP_CTRL_CAMERA_STATUS_CHANGE_REPORT_IND'',
     DECL ''PF_MONITDP_CYCLE_RECV_CAMERA_KEEPALIVE_TIMEOUT'',
     DECL ''PF_MONITDP_WAIT_IPC_REGISTER_TIMEOUT'',
     DECL ''MONITDP_CTRL_IPC_STATE_ALARM_IND'',
     DECL ''SENSOR_LIDARDP_DATA_NOTIFY'',
     DECL ''CTRL_SOFT_UPDATE_TIMER_OUT'',
     DECL ''CTRL_DS_DATA_CHAIN_NOTIFY_REQ'',
     DECL ''CTRL_DS_DATA_CHAIN_NOTIFY_RSP'',
     DECL ''CTRL_LIDARDP_DEVICE_STATUS_REQ'',
     DECL ''DS_NET_SESSION_TIMEROUT'',
     DECL ''DS_BREAK_CHAIN_REPORT'',
     DECL ''CTRL_NET_SESSION_TIMEROUT'',
     DECL ''CTRL_NOTIFY_DS_OBSTACLE_TIMEROUT'',
     DECL ''CTRL_BREAK_CHAIN_REPORT'',
     DECL ''DM_VA_HANDSHAKE'',
     DECL ''DM_SENSOR_CONN_TIMEOUT'',
     DECL ''DM_CTRL_DYNAMIC_REPORT_REQ'',
     DECL ''CTRL_DM_DYNAMIC_REPORT_RSP'',
     DECL ''CTRL_WAIT_DS_CHAIN_STATE_OPER_TIMEROUT'',
     DECL ''CTRL_RELOAD_RUNTIME_CONFIG_TIMEROUT'',
     DECL ''CTRL_WAIT_CFG_POWER_CTRL_TIMEOUT'',
     DECL ''CTRL_GET_CURRENT_TIME_TIMEOUT'',
     DECL ''PF_DM_POWER_CTRL_RSP_TIMEOUT'',
     DECL ''PF_DM_CYCLE_QUERY_POWER_CTRL_TIMEOUT'',
     DECL ''CAMERADRV_CTRL_REG_IND'',
     DECL ''CTRL_CAMERADRV_CFG_REQ'',
     DECL ''CAMERADRV_CTRL_CFG_RSP'',
     DECL ''CAMERADRV_CTRL_FRAME_RETE_ALARM_IND'',
     DECL ''CTRL_CAMERADRV_DATASYNC_IND'',
     DECL ''PF_CAMERADRV_GET_DATA_TIMEOUT'',
     DECL ''PF_CAMERADRV_FRAME_RATE_CHECK_TIMEOUT'',
     DECL ''CAMERADRV_CAMERADP_DATA_NOTIFY'',
     DECL ''CAMERADRV_GET_CAMERADATA_IND'',
     DECL ''CAMERADRV_CAMERAENC_DATA_NOTIFY'',
     DECL ''CAMERADRV_AIDATA_DATA_NOTIFY'',
     DECL ''PF_DM_POWER_CTRL_MSG_RSP'',
     DECL ''RADARDP_CTRL_REG_IND'',
     DECL ''PF_RADARDP_RECONN_CAMERA_TIMEOUT'',
     DECL ''PF_RADARDP_FIRST_FRAME_NOT_RECV_TIMEOUT'',
     DECL ''RADARDP_CTRL_STATUS_CHANGE_REPORT_IND'',
     DECL ''RADARDP_AIDATA_DATA_NOTIFY'',
     DECL ''CTRL_RADARDP_REG_RSP'',
     DECL ''CTRL_RADARDP_REG_RSP_TIMEOUT'',
     DECL ''CTRL_RADARDP_CFG_REQ'',
     DECL ''RADARDP_WAIT_CTRL_CFG_TIMEOUT'',
     DECL ''RADARDP_CTRL_CFG_RSP'',
     DECL ''CTRL_RADARDP_POWER_REQ'',
     DECL ''RADARDP_CTRL_POWER_RSP'',
     DECL ''RADARDP_CTRL_ALARM_NOTIFY'',
     DECL ''RADARDP_AI_DATA_NOTIFY'',
     DECL ''RADARDP_DS_RAWDATA_NOTIFY'',
     DECL ''CTRL_RADARDP_DEVICE_STATUS_REQ'',
     DECL ''RADARDP_CTRL_RECONN_OVER_MAX_COUNT_IND'',
     DECL ''RADARDP_CTRL_CHANGE_REPORT_IND'',
     DECL ''CTRL_RADARDP_POWERON_REQ'',
     DECL ''RADARDP_CTRL_POWERON_RSP'',
     DECL ''CTRL_RADARDP_POWEROFF_IND'',
     DECL ''PF_RADARDP_FAST_CHECK_STATUS_TIMEOUT'',
     DECL ''PF_RADARDP_CHECK_RADAR_DATA_STATUS_TIMEOUT'',
     DECL ''PF_RADARDP_RECONN_RADAR_TIMEOUT'',
     DECL ''RADARDRV_CTRL_REG_IND'',
     DECL ''CTRL_RADARDRV_CFG_REQ'',
     DECL ''RADARDRV_CTRL_CFG_RSP'',
     DECL ''PF_RADARDRV_FRAME_RATE_CHECK_TIMEOUT'',
     DECL ''RADARDRV_CTRL_FRAME_RETE_ALARM_IND'',
     DECL ''CTRL_RADARDRV_DATASYNC_IND'',
     DECL ''RADARDRV_CTRL_SENSOR_DATA_SYNC_RSP'',
     DECL ''RADARDRV_RADARDP_DATA_NOTIFY'',
     DECL ''RADARDP_RADARDRV_RECONN_IND'',
     DECL ''RADARDRV_RADARENC_DATA_NOTIFY'',
     DECL ''RADARDRV_AIDATA_DATA_NOTIFY'',
     DECL ''UPLOAD_CTRL_REG_IND'',
     DECL ''CTRL_UPLOAD_CFG_REQ'',
     DECL ''UPLOAD_CTRL_CFG_RSP'',
     DECL ''CAMERAENC_UPLOAD_FILE_UPLOAD_IND'',
     DECL ''RADARENC_UPLOAD_FILE_UPLOAD_IND'',
     DECL ''PF_UPLOAD_CYCLE_CHECK_FILE_TIMEOUT'',
     DECL ''CAMERAENC_CTRL_REG_IND'',
     DECL ''CAMERAENC_CTRL_CFG_RSP'',
     DECL ''CTRL_CAMERAENC_CFG_REQ'',
     DECL ''RADARENC_CTRL_REG_IND'',
     DECL ''CTRL_RADARENC_CFG_REQ'',
     DECL ''RADARENC_CTRL_CFG_RSP'',
     DECL ''DOWNLOAD_CTRL_REG_IND'',
     DECL ''CTRL_DOWNLOAD_CFG_REQ'',
     DECL ''DOWNLOAD_CTRL_CFG_RSP'',
     DECL ''DOWNLOAD_CAMERADEC_DECODE_REQ'',
     DECL ''CAMERADEC_DOWNLOAD_DECODE_RSP'',
     DECL ''DOWNLOAD_RADARDEC_DECODE_REQ'',
     DECL ''RADARDEC_DOWNLOAD_DECODE_RSP'',
     DECL ''PF_DOWNLOAD_MID_DECODE_RSP_TIMEOUT'',
     DECL ''PF_DOWNLOAD_LONG_DECODE_RSP_TIMEOUT'',
     DECL ''PF_DOWNLOAD_RADAR_DECODE_RSP_TIMEOUT'',
     DECL ''CTRL_DOWNLOAD_DATASYNC_IND'',
     DECL ''CAMERADEC_CTRL_REG_IND'',
     DECL ''CTRL_CAMERADEC_CFG_REQ'',
     DECL ''CAMERADEC_CTRL_CFG_RSP'',
     DECL ''CAMERADEC_AIDATA_DATA_NOTIFY'',
     DECL ''PF_CAMERADEC_GET_CAMERA_DATA_TIMEOUT'',
     DECL ''CAMERADEC_RADARDEC_DATA_NOTIFY'',
     DECL ''CAMERADEC_CAMERADEC_DATA_SYNC_NOTIFY'',
     DECL ''CAMERADEC_CAMERADEC_VIDEO_DEC_SUCC'',
     DECL ''PF_CAMERADEC_SEND_CAMERA_DATA_TIMEOUT'',
     DECL ''RADARDEC_CTRL_REG_IND'',
     DECL ''CTRL_RADARDEC_CFG_REQ'',
     DECL ''RADARDEC_CTRL_CFG_RSP'',
     DECL ''RADARDEC_AIDATA_DATA_NOTIFY'',
     DECL ''PF_RDARDEC_SEND_DATA_TIMEOUT'']"

definition decl_event_drsu_3 :: "id_decl list" where
  "decl_event_drsu_3 =
    [DECL ''DRSU_COMMON_REG_IND'',
     DECL ''CTRL_UNINIT_IND'']"

definition decl_event_drsu :: "id_decl list" where
  "decl_event_drsu = decl_event_drsu_1 @ decl_event_drsu_2 @ decl_event_drsu_3"


section \<open>decl_event_crm.h\<close>

definition decl_event_crm :: "id_decl list" where
  "decl_event_crm =
    [DECL_BEGIN ''DRCRM_INTER_BEGIN_MSG'' (144 * EVENT_SEG_LEN)]"


section \<open>decl_event_drc_crm.h\<close>

definition decl_event_drc_crm_1 :: "id_decl list" where
  "decl_event_drc_crm_1 =
    [DECL_BEGIN ''DRC_CRM_BEGIN_MSG'' (8 * EVENT_SEG_LEN),
     DECL ''DRC_CRM_DRC_SWUPDATE_RSP'',
     DECL ''DRC_CRM_DRC_SWUPDATE_IND'',
     DECL ''DRC_CRM_DRSU_SWUPDATE_RSP'',
     DECL ''DRC_CRM_DRSU_SWUPDATE_IND'',
     DECL ''DRC_CRM_DEDIDRSU_SWUPDATE_RSP'',
     DECL ''DRC_CRM_DEDIDRSU_SWUPDATE_IND'',
     DECL ''DRC_CRM_ACU_SWUPDATE_RSP'',
     DECL ''DRC_CRM_ACU_SWUPDATE_IND'',
     DECL ''DRC_CRM_DEDIACU_SWUPDATE_RSP'',
     DECL ''DRC_CRM_DEDIACU_SWUPDATE_IND'',
     DECL ''DRC_CRM_DRC_VERSION_RSP'',
     DECL ''DRC_CRM_DRSU_VERSION_RSP'',
     DECL ''DRC_CRM_DEDIDRSU_VERSION_RSP'',
     DECL ''DRC_CRM_ACU_VERSION_RSP'',
     DECL ''DRC_CRM_DEDIACU_VERSION_RSP'',
     DECL ''DRC_CRM_INIT_REGISTER_REQ'',
     DECL ''DRC_CRM_REGISTER_REQ'',
     DECL ''DRC_CRM_DRSU_AUTH_REQ'',
     DECL ''DRC_CRM_ACU_AUTH_REQ'',
     DECL ''DRC_CRM_DRC_REBOOT_RSP'',
     DECL ''DRC_CRM_DRSU_POWCTRL_RSP'',
     DECL ''DRC_CRM_DRSU_SUBDEV_POWCTRL_RSP'',
     DECL ''DRC_CRM_DRCPARA_CFG_RSP'',
     DECL ''DRC_CRM_ALLDRSU_PARA_CFG_RSP'',
     DECL ''DRC_CRM_DEDIDRSU_PARA_CFG_RSP'',
     DECL ''DRC_CRM_ALLACU_PARA_CFG_RSP'',
     DECL ''DRC_CRM_DEDIACU_PARA_CFG_RSP'',
     DECL ''DRC_CRM_DRCPARA_QUERY_RSP'',
     DECL ''DRC_CRM_ALLDRSU_PARA_QUERY_RSP'',
     DECL ''DRC_CRM_DEDIDRSU_PARA_QUERY_RSP'',
     DECL ''DRC_CRM_ALLACU_PARA_QUERY_RSP'',
     DECL ''DRC_CRM_DEDIACU_PARA_QUERY_RSP'',
     DECL ''DRC_CRM_MAP_UPDATE_RSP'',
     DECL ''DRC_CRM_MAP_UPDATE_IND'',
     DECL ''DRC_CRM_MAP_DEDI_UPDATE_RSP'',
     DECL ''DRC_CRM_MAP_DEDI_UPDATE_IND'',
     DECL ''DRC_CRM_DRC_STATE_IND'',
     DECL ''DRC_CRM_GET_DRSULIST_RSP'',
     DECL ''DRC_CRM_DRSU_STATE_IND'',
     DECL ''DRC_CRM_GET_ACULIST_RSP'',
     DECL ''DRC_CRM_ACU_STATE_IND'',
     DECL ''DRC_CRM_ALARM_IND'',
     DECL ''DRC_CRM_ALARM_CLEAR_IND'',
     DECL ''DRC_CRM_PUSH_LOG_INFO_IND'',
     DECL ''DRC_CRM_ACU_DISPATCH_RSP'',
     DECL ''DRC_CRM_TRAFFIC_INFO_IND'',
     DECL ''DRC_CRM_DRSUT2D_TRAFFIC_INFO_IND'',
     DECL ''DRC_CRM_DEFAULTPARA_QUERY_RSP'',
     DECL ''DRC_CRM_ALLDRSU_2DSWITCH_CFG_RSP'',
     DECL ''DRC_CRM_ALLDRSU_3DSWITCH_CFG_RSP'',
     DECL ''DRC_CRM_DEDIDRSU_2DSWITCH_CFG_RSP'',
     DECL ''DRC_CRM_DEDIDRSU_3DSWITCH_CFG_RSP'',
     DECL ''DRC_CRM_ALLACU_2DSWITCH_CFG_RSP'',
     DECL ''DRC_CRM_ALLACU_3DSWITCH_CFG_RSP'',
     DECL ''DRC_CRM_DEDIACU_2DSWITCH_CFG_RSP'',
     DECL ''DRC_CRM_DEDIACU_3DSWITCH_CFG_RSP'',
     DECL ''DRC_CRM_ALLDRSU_2DCTRL_QUERY_RSP'',
     DECL ''DRC_CRM_ALLDRSU_3DCTRL_QUERY_RSP'',
     DECL ''DRC_CRM_DEDIDRSU_2DCTRL_QUERY_RSP'',
     DECL ''DRC_CRM_DEDIDRSU_3DCTRL_QUERY_RSP'',
     DECL ''DRC_CRM_ALLACU_3DCTRL_QUERY_RSP'',
     DECL ''DRC_CRM_ALLACU_2DCTRL_QUERY_RSP'',
     DECL ''DRC_CRM_DEDIACU_3DCTRL_QUERY_RSP'',
     DECL ''DRC_CRM_DEDIACU_2DCTRL_QUERY_RSP'',
     DECL ''DRC_CRM_LOGUPLOAD_CFG_RSP'',
     DECL ''DRC_CRM_LOGUPLOAD_CFG_QUERY_RSP'',
     DECL ''DRC_CRM_LOG_FILE_RECORDINFO_IND'',
     DECL ''DRC_CRM_LOGSWITCH_CFG_RSP'',
     DECL ''DRC_CRM_BUS_INFO_RPT_IND'',
     DECL ''DRC_CRM_DRSU_POWERMANAGEMENT_PARA_QUERY_RSP'',
     DECL ''DRC_CRM_ALLDRSU_SUBDEV_AUTO_START_TIME_CFG_RSP'',
     DECL ''DRC_CRM_DEDIDRSU_EQUIP_BOX_STATUS_IND'',
     DECL ''DRC_CRM_DEDIDRSU_AUTO_OPEN_BOX_ALARM_RSP'',
     DECL ''DRC_CRM_ALLDRSU_FANS_AUTO_TEMP_CFG_RSP'',
     DECL ''DRC_CRM_ALLDRSU_SUBDEV_POWCTRL_RSP'',
     DECL ''DRC_CRM_ACU_CTRL_BUS_RPT_IND'',
     DECL ''DRC_CRM_DRC_LOGLEVEL_QUERY_RSP'',
     DECL ''DRC_CRM_ALLDRSU_LOGLEVEL_CFG_RSP'',
     DECL ''DRC_CRM_DEDIDRSU_LOGLEVEL_CFG_RSP'',
     DECL ''DRC_CRM_DEDIDRSU_LOGLEVEL_QUERY_RSP'',
     DECL ''DRC_CRM_DRC_LOGLEVEL_CFG_RSP'',
     DECL ''DRC_CRM_DRSU_LOGUPLOAD_CFG_FAIL_IND'',
     DECL ''DRC_CRM_DRSU_LOGSWITCH_CFG_FAIL_IND'',
     DECL ''DRC_CRM_DEVICE_POWER_FAIL_IND'',
     DECL ''DRC_CRM_BUS_OPERATION_TIME_FAIL_IND'',
     DECL ''DRC_CRM_FANS_AUTO_TEMP_FAIL_IND'',
     DECL ''DRC_CRM_ACU_CFG_FAIL_IND'',
     DECL ''DRC_CRM_EVENT_VIDEO_REALTIME_START_RSP'',
     DECL ''DRC_CRM_VIDEO_REALTIME_STOP_RSP'',
     DECL ''DRC_CRM_DRSU_AI_CFG_RSP'',
     DECL ''DRC_CRM_DEBUGFILE_UPLOAD_IMMEDIATELY_RSP'',
     DECL ''DRC_CRM_SINGLE_VEHICLE_TRAFFIC_ACCIDENT_WARNING'',
     DECL ''DRC_CRM_TWO_VEHICLES_TRAFFIC_ACCIDENT_WARNING'',
     DECL ''DRC_CRM_MULTIPLE_VEHICLES_TRAFFIC_ACCIDENT_WARNING'',
     DECL ''DRC_CRM_SINGLE_VEHICLE_ABNORMAL_PARKING_WARNING'',
     DECL ''DRC_CRM_TWO_VEHICLES_ABNORMAL_PARKING_WARNING'',
     DECL ''DRC_CRM_VEHICLE_CONVERSE_RUNNING_WARNING'',
     DECL ''DRC_CRM_VIOLATION_PERSON_WARNING'',
     DECL ''DRC_CRM_ULTRA_LOW_SPEED_WARNING'',
     DECL ''DRC_CRM_LOW_SPEED_WARNING'',
     DECL ''DRC_CRM_TRAFFIC_JAM_WARNING'',
     DECL ''DRC_CRM_SPOILING_WARNING'',
     DECL ''DRC_CRM_ROAD_CLOSE_WARNING'',
     DECL ''DRC_CRM_CROSS_LANE_DRIVING_WARNING'',
     DECL ''DRC_CRM_ICING_WARNING'',
     DECL ''DRC_CRM_WET_SLIDING_WARNING'',
     DECL ''DRC_CRM_CLUSTER_FOG_WARNING'',
     DECL ''DRC_CRM_ACCIDENT_RELIEVE_INFO'',
     DECL ''DRC_CRM_DRSU_AI_CFG_FAIL_IND'',
     DECL ''DRC_CRM_DRSU_AI_QUERY_RSP'',
     DECL ''DRC_CRM_EVENT_RECOGNIZE_SWITCH_RSP'',
     DECL ''DRC_CRM_EVENT_RECOGNIZE_SWITCH_QUERY_RSP'',
     DECL ''DRC_CRM_DRSU_ALLSUBDEV_POWCTRL_RSP'',
     DECL ''DRC_CRM_VIDEO_REPORT_RSP'',
     DECL ''DRC_CRM_VIDEO_PLATFORM_RSP'',
     DECL ''DRC_CRM_DRSU_SUBDEV_STATE_IND'',
     DECL ''DRC_CRM_DRSU_VIDEO_REALTIME_START_RSP'',
     DECL ''DRC_CRM_MODIFY_DRSU_VIDEO_DEFINITION_RSP'',
     DECL ''DRC_CRM_EXCEED_SPEED_WARNING'',
     DECL ''DRC_CRM_KEEP_ALIVE_REQ'',
     DECL ''DRC_CRM_BANMA_AUTH_REQ'',
     DECL ''DRC_CRM_BANMA_STATE_IND'',
     DECL ''DRC_CRM_BANMA_ONLINE_LIST'',
     DECL ''DRC_CRM_BUS_INVALID_INFO_RPT_IND'',
     DECL ''DRC_CRM_ROAD_MAINTENANCE_WARNING'',
     DECL ''DRC_CRM_OCCUPY_EMERGENCY_LANE_WARNING'',
     DECL ''DRC_CRM_TRUCK_OCCUPY_THE_FAST_LANE_WARNING'',
     DECL ''DRC_CRM_VT_AUTH_REQ'',
     DECL ''DRC_CRM_TRAFFIC_ACCIDENT_WARNING'',
     DECL ''DRC_CRM_ABNORMAL_PARKING_WARNING'',
     DECL ''DRC_CRM_VT_POSITION_IND'',
     DECL ''DRC_CRM_VT_STATISTICS_REPORT'',
     DECL ''DRC_CRM_ACU_STATISTICS_REPORT'',
     DECL ''DRC_CRM_DRSU_STATISTICS_REPORT'',
     DECL ''DRC_CRM_DATA_INTIGRATION_REPORT'',
     DECL ''DRC_CRM_DATA_TRACE_REPORT'',
     DECL ''DRC_CRM_EVENT_GENERATION_REPORT'',
     DECL ''DRC_CRM_ACU_VIDEO_RPT'',
     DECL ''DRC_CRM_OCCUPY_BUS_LANE_WARNING'']"

definition decl_event_drc_crm_2 :: "id_decl list" where
  "decl_event_drc_crm_2 =
    [DECL_BEGIN ''CRM_DRC_BEGIN_MSG'' (128 * EVENT_SEG_LEN),
     DECL ''CRM_DRC_DRC_SWUPDATE_REQ'',
     DECL ''CRM_DRC_DRSU_SWUPDATE_REQ'',
     DECL ''CRM_DRC_DEDIDRSU_SWUPDATE_REQ'',
     DECL ''CRM_DRC_ACU_SWUPDATE_REQ'',
     DECL ''CRM_DRC_DEDIACU_SWUPDATE_REQ'',
     DECL ''CRM_DRC_DRC_VERSION_REQ'',
     DECL ''CRM_DRC_DRSU_VERSION_REQ'',
     DECL ''CRM_DRC_DEDIDRSU_VERSION_REQ'',
     DECL ''CRM_DRC_ACU_VERSION_REQ'',
     DECL ''CRM_DRC_DEDIACU_VERSION_REQ'',
     DECL ''CRM_DRC_INIT_REGISTER_RSP'',
     DECL ''CRM_DRC_REGISTER_RSP'',
     DECL ''CRM_DRC_DRSU_AUTH_RSP'',
     DECL ''CRM_DRC_ACU_AUTH_RSP'',
     DECL ''CRM_DRC_DRC_REBOOT_REQ'',
     DECL ''CRM_DRC_DRSU_SUBDEV_POWCTRL_REQ'',
     DECL ''CRM_DRC_DRSU_POWCTRL_REQ'',
     DECL ''CRM_DRC_DRCPARA_CFG_REQ'',
     DECL ''CRM_DRC_ALLDRSU_PARA_CFG_REQ'',
     DECL ''CRM_DRC_DEDIDRSU_PARA_CFG_REQ'',
     DECL ''CRM_DRC_ALLACU_PARA_CFG_REQ'',
     DECL ''CRM_DRC_DEDIACU_PARA_CFG_REQ'',
     DECL ''CRM_DRC_DRCPARA_QUERY_REQ'',
     DECL ''CRM_DRC_ALLDRSU_PARA_QUERY_REQ'',
     DECL ''CRM_DRC_DEDIDRSU_PARA_QUERY_REQ'',
     DECL ''CRM_DRC_ALLACU_PARA_QUERY_REQ'',
     DECL ''CRM_DRC_DEDIACU_PARA_QUERY_REQ'',
     DECL ''CRM_DRC_MAP_UPDATE_REQ'',
     DECL ''CRM_DRC_MAP_DEDI_UPDATE_REQ'',
     DECL ''CRM_DRC_GET_DRSULIST_REQ'',
     DECL ''CRM_DRC_GET_ACULIST_REQ'',
     DECL ''CRM_DRC_ALARM_CFM'',
     DECL ''CRM_DRC_ALARM_CLEAR_CFM'',
     DECL ''CRM_DRC_PUSH_LOG_INFO_CFM'',
     DECL ''CRM_DRC_ACU_DISPATCH_REQ'',
     DECL ''CRM_DRC_DEFAULTPARA_QUERY_REQ'',
     DECL ''CRM_DRC_ALLDRSU_2DSWITCH_CFG_REQ'',
     DECL ''CRM_DRC_ALLDRSU_3DSWITCH_CFG_REQ'',
     DECL ''CRM_DRC_DEDIDRSU_2DSWITCH_CFG_REQ'',
     DECL ''CRM_DRC_DEDIDRSU_3DSWITCH_CFG_REQ'',
     DECL ''CRM_DRC_ALLACU_2DSWITCH_CFG_REQ'',
     DECL ''CRM_DRC_ALLACU_3DSWITCH_CFG_REQ'',
     DECL ''CRM_DRC_DEDIACU_2DSWITCH_CFG_REQ'',
     DECL ''CRM_DRC_DEDIACU_3DSWITCH_CFG_REQ'',
     DECL ''CRM_DRC_ALLDRSU_2DCTRL_QUERY_REQ'',
     DECL ''CRM_DRC_ALLDRSU_3DCTRL_QUERY_REQ'',
     DECL ''CRM_DRC_DEDIDRSU_2DCTRL_QUERY_REQ'',
     DECL ''CRM_DRC_DEDIDRSU_3DCTRL_QUERY_REQ'',
     DECL ''CRM_DRC_ALLACU_3DCTRL_QUERY_REQ'',
     DECL ''CRM_DRC_ALLACU_2DCTRL_QUERY_REQ'',
     DECL ''CRM_DRC_DEDIACU_3DCTRL_QUERY_REQ'',
     DECL ''CRM_DRC_DEDIACU_2DCTRL_QUERY_REQ'',
     DECL ''CRM_DRC_LOGSWICH_CFG_REQ'',
     DECL ''CRM_DRC_LOGUPLOAD_CFG_QUERY_REQ'',
     DECL ''CRM_DRC_LOGUPLOAD_CFG_REQ'',
     DECL ''CRM_DRC_ALLDRSU_SUBDEV_POWCTRL_REQ'',
     DECL ''CRM_DRC_DRSU_ALLSUBDEV_POWCTRL_REQ'',
     DECL ''CRM_DRC_ALLDRSU_FANS_AUTO_TEMP_CFG_REQ'',
     DECL ''CRM_DRC_DEDIDRSU_AUTO_OPEN_BOX_ALARM_REQ'',
     DECL ''CRM_DRC_ALLDRSU_SUBDEV_AUTO_START_TIME_CFG_REQ'',
     DECL ''CRM_DRC_ALLDRSU_SUBDEV_AUTO_START_TIME_QUERY_REQ'',
     DECL ''CRM_DRC_DRC_LOGLEVEL_CFG_REQ'',
     DECL ''CRM_DRC_DRC_LOGLEVEL_QUERY_REQ'',
     DECL ''CRM_DRC_ALLDRSU_LOGLEVEL_CFG_REQ'',
     DECL ''CRM_DRC_DEDIDRSU_LOGLEVEL_CFG_REQ'',
     DECL ''CRM_DRC_DEDIDRSU_LOGLEVEL_QUERY_REQ'',
     DECL ''CRM_DRC_EVENT_VIDEO_REALTIME_START_REQ'',
     DECL ''CRM_DRC_VIDEO_REALTIME_STOP_REQ'',
     DECL ''CRM_DRC_VIDEO_PLAYBACK_CFG'',
     DECL ''CRM_DRC_VIDEO_PLATFORM_CFG'',
     DECL ''CRM_DRC_DRSU_AI_CFG_REQ'',
     DECL ''CRM_DRC_DEBUGFILE_UPLOAD_IMMEDIATELY_REQ'',
     DECL ''CRM_DRC_DRSU_POWERMANAGEMENT_PARA_QUERY_REQ'',
     DECL ''CRM_DRC_VIDEO_REPORT_REQ'',
     DECL ''CRM_DRC_VIDEO_PLATFORM_REQ'',
     DECL ''CRM_DRC_EVENT_RECOGNIZE_SWITCH_REQ'',
     DECL ''CRM_DRC_EVENT_RECOGNIZE_SWITCH_QUERY_REQ'',
     DECL ''CRM_DRC_DRSU_AI_QUERY_REQ'',
     DECL ''CRM_DRC_DRSU_VIDEO_REALTIME_START_REQ'',
     DECL ''CRM_DRC_MODIFY_DRSU_VIDEO_DEFINITION_REQ'',
     DECL ''CRM_DRC_SINGLE_VEHICLE_TRAFFIC_ACCIDENT_WARNING_RSP'',
     DECL ''CRM_DRC_TWO_VEHICLES_TRAFFIC_ACCIDENT_WARNING_RSP'',
     DECL ''CRM_DRC_MULTIPLE_VEHICLES_TRAFFIC_ACCIDENT_WARNING_RSP'',
     DECL ''CRM_DRC_SINGLE_VEHICLE_ABNORMAL_PARKING_WARNING_RSP'',
     DECL ''CRM_DRC_TWO_VEHICLES_ABNORMAL_PARKING_WARNING_RSP'',
     DECL ''CRM_DRC_VEHICLE_CONVERSE_RUNNING_WARNING_RSP'',
     DECL ''CRM_DRC_VIOLATION_PERSON_WARNING_RSP'',
     DECL ''CRM_DRC_ULTRA_LOW_SPEED_WARNING_RSP'',
     DECL ''CRM_DRC_LOW_SPEED_WARNING_RSP'',
     DECL ''CRM_DRC_VEHICLE_EXCEED_SPEED_WARNING_RSP'',
     DECL ''CRM_DRC_SPOILING_WARNING_RSP'',
     DECL ''CRM_DRC_TRAFFIC_JAM_WARNING_RSP'',
     DECL ''CRM_DRC_ACCIDENT_RELIEVE_RSP'',
     DECL ''CRM_DRC_KEEP_ALIVE_RSP'',
     DECL ''CRM_DRC_BANMA_AUTH_RSP'',
     DECL ''CRM_DRC_ROAD_MAINTENANCE_WARNING_RSP'',
     DECL ''CRM_DRC_OCCUPY_EMERGENCY_LANE_WARNING_RSP'',
     DECL ''CRM_DRC_TRUCK_OCCUPY_THE_FAST_LANE_WARNING_RSP'',
     DECL ''CRM_DRC_VT_AUTH_RSP'',
     DECL ''CRM_DRC_TRAFFIC_ACCIDENT_WARNING_RSP'',
     DECL ''CRM_DRC_ABNORMAL_PARKING_WARNING_RSP'',
     DECL ''CRM_DRC_OCCUPY_BUS_LANE_WARNING_RSP'']"

definition decl_event_drc_crm :: "id_decl list" where
  "decl_event_drc_crm = decl_event_drc_crm_1 @ decl_event_drc_crm_2"


section \<open>decl_errid.h\<close>

definition decl_errid_1 :: "id_decl list" where
  "decl_errid_1 =
    [DECL_BEGIN ''RET_SUCCESS'' 0,
     DECL ''ERRID_OS_OPERATION_NOT_PERMITTED'',
     DECL ''ERRID_OS_NO_SUCH_FILE_OR_DIRECORY'',
     DECL_BEGIN ''ERRID_DRC_COMMON_BEGIN'' (8 * ERRID_SEG_LEN),
     DECL ''ERRID_DR_OTHERS'',
     DECL_BEGIN ''ERRID_DRC_ACU_BEGIN'' (16 * ERRID_SEG_LEN),
     DECL ''ERRID_DRC_ACU_DISPATCH_FAIL'',
     DECL ''ERRID_DRC_ACU_OTHER'',
     DECL ''ERRID_DRC_ACU_SW_IND_FAIL_CAN_NOT_GET_FILE'',
     DECL ''ERRID_DRC_ACU_SW_IND_FAIL_FILE_ERROR'',
     DECL ''ERRID_DRC_ACU_ILLEGAL_USER'',
     DECL_BEGIN ''ERRID_DRC_DRSU_BEGIN'' (64 * ERRID_SEG_LEN),
     DECL ''ERRID_DRC_DRSU_KEY_PARA_MISSING'',
     DECL ''ERRID_DRC_DRSU_PARTIAL_SUCCESS'',
     DECL ''ERRID_DRC_DRSU_OTHER'',
     DECL ''ERRID_DRC_DRSU_MSG_PARSE_FAIL'',
     DECL ''ERRID_DRC_DRSU_ILLEGAL_USER'',
     DECL ''ERRID_DRC_DRSU_REG_ERRPARA_MAC'',
     DECL ''ERRID_DRC_DRSU_DRSU_REG_TIMEROUT'',
     DECL ''ERRID_DRC_DRSU_DRSU_OVERLOAD'',
     DECL ''ERRID_DRC_DRSU_DRSU_STATE_NOT_ALLOWED'',
     DECL ''ERRID_DRC_DRSU_DRSU_ALREDAY_REGISTER'',
     DECL ''ERRID_DRC_DRSU_SW_UPDATE_SAME_VERSION'',
     DECL ''ERRID_DRC_DRSU_SW_UPDATE_DEVSTAT_NOT_ALLOWED'',
     DECL ''ERRID_DRC_DRSU_SW_UPDATE_OLDER_RVERSION'',
     DECL ''ERRID_DRC_DRSU_SW_UPDATE_SWFILE_ABNORMAL'',
     DECL ''ERRID_DRC_DRSU_SW_UPDATE_FTP_EXPIRY'',
     DECL ''ERRID_DRC_DRSU_SW_UPDATE_FTP_CANNOT_LOGIN'',
     DECL ''ERRID_DRC_DRSU_HDMAP_UPDATE_FAIL'',
     DECL ''ERRID_DRC_DRSU_MAP_UPDATE_MSG_ERR'',
     DECL ''ERRID_DRC_DRSU_POWER_EXEC_FAIL'',
     DECL ''ERRID_DRC_DRSU_POWER_CONTROL_MSG_ERR'',
     DECL ''ERRID_DRC_DRSU_POWER_CONTROL_NOT_SUPPORT'',
     DECL ''ERRID_DRC_DRSU_DEVICE_POWER_MSG_ERR'',
     DECL ''ERRID_DRC_DRSU_HDMAP_SAME_VERSION'',
     DECL ''ERRID_DRC_DRSU_HDMAP_DEVSTAT_ABNORMAL'',
     DECL ''ERRID_DRC_DRSU_HDMAP_UPDATE_REPEAT'',
     DECL ''ERRID_DRC_DRSU_HDMAP_UPDATE_MSG_ERR'',
     DECL ''ERRID_DRC_DRSU_HDMAP_FTP_EXPIRY'',
     DECL ''ERRID_DRC_DRSU_CFG_TEMP_THRESHOLD_FAIL'',
     DECL ''ERRID_DRC_DRSU_CFG_BOX_OPEN_ALARM_TIME_FAIL'',
     DECL ''ERRID_DRC_DRSU_CFG_BUS_OPERATION_TIME_FALT'',
     DECL ''ERRID_DRSU_HADWARE_NOT_SUPPORT'',
     DECL ''ERRID_DRSU_NOT_SUPPORT'',
     DECL ''ERRID_PARA_PARSE_FAIL'',
     DECL ''ERRID_PARA_RANGE_FAIL'',
     DECL ''ERRID_TOTAL_OVER_LIMIT'',
     DECL ''ERRID_REPEAT_EVENT'',
     DECL ''ERRID_REPEAT_OPER'',
     DECL ''ERRID_CFG_HANDLE_FAIL'',
     DECL ''ERRID_CFG_HANDLE_TIMEOUT'',
     DECL ''ERRID_VIDEEO_PREVIEWING'',
     DECL ''ERRID_NON_EXIST_VIDEEO_PREVIEW'',
     DECL ''ERRID_DRC_DRSU_DELAY_REGISTER'',
     DECL ''ERRID_DRSU_INVALID_DEVICE'',
     DECL ''ERRID_DRSU_FANS_TMPRT_CHECK_FAIL'',
     DECL ''ERRID_DRSU_FANS_TMPRT_CFG_FAIL'',
     DECL ''ERRID_DRSU_DISABLE_TIME_CHECK_FAIL'',
     DECL ''ERRID_DRSU_DISABLE_TIME_CFG_FAIL'',
     DECL ''ERRID_DRSU_DEVICE_POWEROFF_FAIL'',
     DECL ''ERRID_DRSU_DEVICE_POWERON_FAIL'',
     DECL ''ERRID_DRSU_TRAFFIC_WARNING_EVENT_NON_EXIST'',
     DECL ''ERRID_EQUIP_BOX_OPEN_ALARM_DISABLE_TIME_OVER_LIMIT'',
     DECL_BEGIN ''ERRID_DRC_CRM_BEGIN'' (128 * ERRID_SEG_LEN),
     DECL ''ERRID_DRC_CRM_KEY_PARA_MISSING'',
     DECL ''ERRID_DRC_CRM_PARTIAL_SUCCESS'',
     DECL ''ERRID_DRC_CRM_OTHER'',
     DECL ''ERRID_DRC_CRM_NO_DEVICE_ON_LINE'',
     DECL ''ERRID_DRC_CRM_DEVICE_OFF_LINE'',
     DECL ''ERRID_DRC_CRM_DRC_INITREG_ILLEGAL_USER'',
     DECL ''ERRID_DRC_CRM_DRC_INITREG_ERRPARA_SERVERMOD'',
     DECL ''ERRID_DRC_CRM_DRC_INITREG_ERRPARA_OSVERSION'',
     DECL ''ERRID_DRC_CRM_DRC_INITREG_OTHER'',
     DECL ''ERRID_DRC_CRM_ACU_REG_ILLEGAL_USER'',
     DECL ''ERRID_DRC_CRM_ACU_REG_ERRPARA_ENGINESERIALNUM'',
     DECL ''ERRID_DRC_CRM_ACU_REG_ERRPARA_PLATENUMBER'',
     DECL ''ERRID_DRC_CRM_ACU_REG_OTHER'',
     DECL ''ERRID_DRC_CRM_DRSU_REG_ILLEGAL_USER'',
     DECL ''ERRID_DRC_CRM_DRSU_REG_ERRPARA_MAC'',
     DECL ''ERRID_DRC_CRM_ACU_REG_TIMEROUT'',
     DECL ''ERRID_DRC_CRM_ACU_CFG_TIME_OUT'',
     DECL ''ERRID_DRC_CRM_ACU_SCHEDULE_FAIL'',
     DECL ''ERRID_DRC_CRM_DRC_SW_RSP_SAME_VERSION'',
     DECL ''ERRID_DRC_CRM_DRC_SW_RSP_DEVSTAT_NOT_ALLOWED'',
     DECL ''ERRID_DRC_CRM_DRC_SW_RSP_OLDER_RVERSION'',
     DECL ''ERRID_DRC_CRM_DRC_SW_IND_SWFILE_ABNORMAL'',
     DECL ''ERRID_DRC_CRM_DRC_SW_IND_FTP_EXPIRY'',
     DECL ''ERRID_DRC_CRM_DRC_SW_IND_FTP_CANNOT_LOGIN'',
     DECL ''ERRID_DRC_CRM_MAP_UPDATE_EXPIRY'',
     DECL ''ERRID_DRC_CRM_ACU_SW_UPDATE_SAME_VERSION'',
     DECL ''ERRID_DRC_CRM_ACU_SW_UPDATE_DEVSTAT_NOT_ALLOWED'',
     DECL ''ERRID_DRC_CRM_ACU_SW_UPDATE_OLDER_RVERSION'',
     DECL ''ERRID_DRC_CRM_ACU_SW_UPDATE_SWFILE_ABNORMAL'',
     DECL ''ERRID_DRC_CRM_ACU_SW_UPDATE_FTP_EXPIRY'',
     DECL ''ERRID_DRC_CRM_ACU_SW_UPDATE_FTP_CANNOT_LOGIN'',
     DECL ''ERRID_DRC_CRM_ACU_SW_TIME_OUT'']"

definition decl_errid_2 :: "id_decl list" where
  "decl_errid_2 =
    [DECL ''ERRID_DRC_CRM_SUBDEV_POWER_EXPIRY'',
     DECL ''ERRID_DRC_CRM_DRSU_POWER_EXPIRY'',
     DECL ''ERRID_DRC_CRM_DISPATCH_FAIL'',
     DECL ''ERRID_DRC_CRM_HDMAP_UPDATE_FAIL'',
     DECL ''ERRID_DRC_CRM_MAP_UPDATE_MSG_ERR'',
     DECL ''ERRID_DRC_CRM_DRSU_SW_UPDATE_SAME_VERSION'',
     DECL ''ERRID_DRC_CRM_DRSU_SW_UPDATE_DEVSTAT_NOT_ALLOWED'',
     DECL ''ERRID_DRC_CRM_DRSU_SW_UPDATE_OLDER_RVERSION'',
     DECL ''ERRID_DRC_CRM_DRSU_SW_UPDATE_SWFILE_ABNORMAL'',
     DECL ''ERRID_DRC_CRM_DRSU_SW_UPDATE_FTP_EXPIRY'',
     DECL ''ERRID_DRC_CRM_DRSU_SW_UPDATE_FTP_CANNOT_LOGIN'',
     DECL ''ERRID_DRC_CRM_DRSU_SW_UPDATE_TIME_OUT'',
     DECL ''ERRID_DRC_CRM_POWER_EXEC_FAIL'',
     DECL ''ERRID_DRC_CRM_POWER_CONTROL_MSG_ERR'',
     DECL ''ERRID_DRC_CRM_POWER_CONTROL_NOT_SUPPORT'',
     DECL ''ERRID_DRC_CRM_DEVICE_POWER_MSG_ERR'',
     DECL ''ERRID_DRC_CRM_BOX_OPEN_AUTO_ALARM_TIME_OUT'',
     DECL ''ERRID_DRC_CRM_ALL_FAIL'',
     DECL ''ERRID_DRC_CRM_TIME_OUT'',
     DECL_BEGIN ''ERRID_DRC_DRSU_ALARM_BEGIN'' (192 * ERRID_SEG_LEN),
     DECL_BEGIN ''ERRID_PLATFORM_BEGIN'' (224 * ERRID_SEG_LEN),
     DECL ''ERRID_FTP_LOGIN_CONNECT_FAIL'',
     DECL ''ERRID_FTP_LOGIN_FDOPEN_FAIL'',
     DECL ''ERRID_FTP_LOGIN_FTPCMD_FAIL'',
     DECL ''ERRID_FTP_LOGIN_PASS_FAIL'',
     DECL ''ERRID_FTP_LOGIN_USER_FAIL'',
     DECL ''ERRID_FTP_LOGIN_TYPEI_FAIL'',
     DECL ''ERRID_FTP_SEND_PASV_FAIL'',
     DECL ''ERRID_FTP_SEND_FTPDATA_FAIL'',
     DECL ''ERRID_FTP_SEND_XOPEN_FAIL'',
     DECL ''ERRID_FTP_SEND_ALLO_FAIL'',
     DECL ''ERRID_FTP_SEND_STOR_FAIL'',
     DECL ''ERRID_FTP_SEND_BBEOF_FAIL'',
     DECL ''ERRID_FTP_SEND_CLOSE_FAIL'',
     DECL ''ERRID_FTP_CMD_FGETS_FAIL'',
     DECL ''ERRID_FTP_RECIEVE_PASV_FAIL'',
     DECL ''ERRID_FTP_RECIEVE_RETR_FAIL'',
     DECL ''ERRID_FTP_RECIEVE_XOPEN_FAIL'',
     DECL ''ERRID_FTP_RECIEVE_COPYFD_FAIL'',
     DECL ''ERRID_FTP_RECIEVE_CLOSE_FAIL'',
     DECL ''ERRID_FTP_SERVER_IP_INPUT_FAIL'',
     DECL ''ERRID_FTP_LOCAL_FILE_OPEN_FAIL'',
     DECL ''ERRID_FTP_CHECK_VERSION_BASE_FAIL'',
     DECL ''ERRID_FTP_CHECK_VERSION_INFOLOG_FAIL'',
     DECL ''ERRID_FTP_CHECK_VERSION_MD5_FAIL'',
     DECL ''ERRID_FTP_CHECK_VERSION_STARTUP_FAIL'',
     DECL ''ERRID_FTP_CHECK_VERSION_DEST_PATH_FAIL'',
     DECL ''ERRID_FTP_CHECK_VERSION_SOURCE_PATH_FAIL'']"

definition decl_errid :: "id_decl list" where
  "decl_errid = decl_errid_1 @ decl_errid_2"


section \<open>decl_alarmid.h\<close>

definition decl_alarmid :: "id_decl list" where
  "decl_alarmid =
    [DECL_BEGIN ''ALARMID_ACU_BEGIN'' 0,
     DECL_BEGIN ''ALARMID_DRSU_BEGIN'' (96 * ALARMID_SEG_LEN),
     DECL ''ERRID_DRC_DRSU_START_TIMER_FAIL'',
     DECL ''ERRID_DRC_DRSU_MODULE_REG_FAIL'',
     DECL ''ERRID_DRC_DRSU_SEND_MSG_FAIL'',
     DECL ''ERRID_DRC_DRSU_RECOVER_MSG_FAIL'',
     DECL ''ERRID_DRC_DRSU_SEND_SOCKET_FAIL'',
     DECL ''ERRID_DRC_DRSU_DRC_REG_FAIL'',
     DECL ''ERRID_DRC_DRSU_MODULE_CFG_FAIL'',
     DECL ''ERRID_DRC_DRSU_MAP_UPDATE_FAIL'',
     DECL ''ERRID_DRC_DRSU_DEVICE_REPORT_FAIL'',
     DECL ''ERRID_DRC_DRSU_DM_POWER_ON_FAIL'',
     DECL ''ERRID_DRC_DRSU_DM_POWER_OFF_FAIL'',
     DECL ''ERRID_DRC_DRSU_DM_ALL_POWER_ON_FAIL'',
     DECL ''ERRID_DRC_DRSU_DM_ALL_POWER_OFF_FAIL'',
     DECL ''ERRID_DRC_DRSU_LIDAR_DP_POWER_ON_FAIL'',
     DECL ''ERRID_DRC_DRSU_LIDAR_DP_POWER_OFF_FAIL'',
     DECL ''ERRID_DRC_DRSU_CAMERA_DP_POWER_ON_FAIL'',
     DECL ''ERRID_DRC_DRSU_CAMERA_DP_POWER_OFF_FAIL'',
     DECL ''ERRID_DRC_DRSU_DP_ALL_POWER_ON_FAIL'',
     DECL ''ERRID_DRC_DRSU_DP_ALL_POWER_OFF_FAIL'',
     DECL ''ERRID_DRC_DRSU_DM_WAIT_POWERON_FAIL'',
     DECL ''ERRID_DRC_DRSU_DM_ALL_WAIT_POWERON_FAIL'',
     DECL ''ERRID_DRC_DRSU_LIDAR_DP_WAIT_POWERON_FAIL'',
     DECL ''ERRID_DRC_DRSU_CAMERA_DP_WAIT_POWERON_FAIL'',
     DECL ''ERRID_DRC_DRSU_DP_ALL_WAIT_POWERON_FAIL'',
     DECL ''ERRID_DM_CTRL_REG_RSP_TIMEROUT'',
     DECL ''ERRID_DM_CTRL_DEV_ALL_POWEROFF'',
     DECL ''ERRID_DS_CTRL_REG_RSP_TIMEROUT'',
     DECL ''ERRID_DS_CTRL_CFG_REQ_TIMEROUT'',
     DECL ''ERRID_DS_DATA_MONITOR_TIMEROUT'',
     DECL ''ERRID_LIDARDP_CTRL_REG_RSP_TIMEROUT'',
     DECL ''ERRID_LIDARDP_CTRL_CFG_REQ_TIMEROUT'',
     DECL ''ERRID_LIDARDP_DATA_MONITOR_TIMEROUT'',
     DECL ''ERRID_LIDARDP_FRAME_RATE_ABNORMAL'',
     DECL ''ERRID_CAMERADP_CTRL_REG_RSP_TIMEROUT'',
     DECL ''ERRID_CAMERADP_CTRL_CFG_REQ_TIMEROUT'',
     DECL ''ERRID_CAMERADP_DATA_MONITOR_TIMEROUT'',
     DECL ''ERRID_CAMERADP_FRAME_RATE_ABNORMAL'',
     DECL ''ERRID_DRSU_DRC_BOX_OPEN_EVENT'',
     DECL ''ERRID_DRSU_DRC_BOX_CLOSE_EVENT'',
     DECL ''ERRID_DRSU_DRC_BOX_HIGHT_TEMP_EVENT'',
     DECL_BEGIN ''ALARMID_CRM_BEGIN'' (160 * ALARMID_SEG_LEN),
     DECL ''ALARMID_CRM_CPU_LOAD_CRITICAL'',
     DECL ''ALARMID_CRM_CPU_LOAD_WARNING'',
     DECL ''ALARMID_CRM_MEMORY_LOAD_CRITICAL'',
     DECL ''ALARMID_CRM_MEMORY_LOAD_WARNING'',
     DECL ''ALARMID_CRM_JVM_LOAD_CRITICAL'',
     DECL ''ALARMID_CRM_JVM_LOAD_WARNING'',
     DECL ''ALARMID_CRM_PG_DATABASE_DISK_LOAD_CRITICAL'',
     DECL ''ALARMID_CRM_PG_DATABASE_DISK_LOAD_WARNING'',
     DECL ''ALARMID_CRM_DISK_LOAD_CRITICAL'',
     DECL ''ALARMID_CRM_DISK_LOAD_WARNING'',
     DECL ''ALARMID_CRM_MAP_OFFLINE_CRITICAL'',
     DECL ''ALARMID_CRM_DRC_OFFLINE_CRITICAL'',
     DECL ''ALARMID_CRM_WEB_OFFLINE_CRITICAL'',
     DECL ''ALARMID_CRM_DRC_INIT_REGISTER_FAIL'',
     DECL ''ALARMID_CRM_DRSU_REGISTER_FAIL'',
     DECL ''ALARMID_CRM_ACU_REGISTER_FAIL'',
     DECL ''ALARMID_CRM_DATACTRL_PROCEDURE_ABNORMAL'',
     DECL_BEGIN ''ALARMID_DRC_BEGIN'' (192 * ALARMID_SEG_LEN),
     DECL ''ERRID_DRC_CRM_CPU_ALARM'',
     DECL ''ERRID_DRC_CRM_MEM_ALARM'',
     DECL_BEGIN ''ALARMID_PLATFORM_BEGIN'' (224 * ALARMID_SEG_LEN)]"


section \<open>Three readings of a table\<close>

text \<open>As an enumeration: \<open>v\<close> is the value of the next enumerator.\<close>

fun enum_from :: "nat \<Rightarrow> id_decl list \<Rightarrow> (string \<times> nat) list" where
  "enum_from v [] = []"
| "enum_from v (DECL x # ds) = (x, v) # enum_from (v + 1) ds"
| "enum_from v (DECL_BEGIN x z # ds) = (x, z) # enum_from (z + 1) ds"

text \<open>As the array of names.\<close>

fun decl_name :: "id_decl \<Rightarrow> string" where
  "decl_name (DECL x) = x"
| "decl_name (DECL_BEGIN x z) = x"

definition name_array :: "string \<Rightarrow> id_decl list \<Rightarrow> string list" where
  "name_array end_name ds = map decl_name ds @ [end_name]"

lemma enum_names: "map fst (enum_from v ds) = map decl_name ds"
  by (induction v ds rule: enum_from.induct) simp_all

lemma enum_nth:
  assumes "k < length ds"
  shows "fst (enum_from v ds ! k) = name_array e ds ! k" "length (enum_from v ds) = length ds"
proof -
  show l: "length (enum_from v ds) = length ds" using enum_names[of v ds] by (metis length_map)
  with assms show "fst (enum_from v ds ! k) = name_array e ds ! k"
    using enum_names[of v ds] by (simp add: name_array_def nth_append) (metis nth_map)
qed

end
