(* ===== verification/Id_Maps.thy ===== *)
theory Id_Maps
  imports Id_Tables "HOL-Library.Multiset"
begin

text \<open>
  The maps between identifiers and names of \<open>common/decl_event.cpp\<close>, \<open>decl_errid.cpp\<close> and
  \<open>decl_alarmid.cpp\<close>, which are one program over three tables, and those of \<open>decl_module.cpp\<close>.
  An identifier space is cut into 256 segments of 256 identifiers; for each segment an index into
  the array of names and a length are computed when the first name is asked for.
\<close>

section \<open>The array of the initialisation\<close>

text \<open>As the local array \<open>aulArr\<close> of the initialisation.\<close>

definition NO_SEGMENT :: U32 where "NO_SEGMENT = 0xFFFFFFFF"

fun decl_segment :: "id_decl \<Rightarrow> U32" where
  "decl_segment (DECL x) = NO_SEGMENT"
| "decl_segment (DECL_BEGIN x z) = of_nat (z div 256)"

section \<open>The segment map\<close>

record seg_state =
  segMap :: "U32 list"
  segLen :: "U32 list"
  idNum :: U32

text \<open>The three zero-initialised globals.\<close>

definition seg_initial :: seg_state where
  "seg_initial = \<lparr>segMap = replicate 256 0, segLen = replicate 256 0, idNum = 0\<rparr>"

text \<open>The loop over \<open>aulArr\<close>.  A failed assertion ends the process: \<open>None\<close>.\<close>

fun seg_loop :: "U32 list \<Rightarrow> U32 \<Rightarrow> U32 \<Rightarrow> seg_state \<Rightarrow> seg_state option" where
  "seg_loop [] cnt ulArrId s = Some s"
| "seg_loop (a # arr) cnt ulArrId s =
     (if a \<noteq> NO_SEGMENT then
        if a > 255 then None
        else seg_loop arr (cnt + 1) a
               (s\<lparr>segMap := (segMap s)[unat a := cnt], segLen := (segLen s)[unat a := 1]\<rparr>)
      else seg_loop arr (cnt + 1) ulArrId
               (s\<lparr>segLen := (segLen s)[unat ulArrId := segLen s ! unat ulArrId + 1]\<rparr>))"

definition seg_init :: "id_decl list \<Rightarrow> seg_state \<Rightarrow> seg_state option" where
  "seg_init ds s =
     (let arr = map decl_segment ds; s = s\<lparr>idNum := of_nat (length arr)\<rparr> in
      if NO_SEGMENT = arr ! 0 then None else seg_loop arr 0 0 s)"

text \<open>The test at the start of every lookup.\<close>

definition seg_ready :: "(seg_state \<Rightarrow> seg_state option) \<Rightarrow> seg_state \<Rightarrow> seg_state option" where
  "seg_ready init s = (if idNum s = 0 then init s else Some s)"

definition seg_name :: "string \<Rightarrow> string list \<Rightarrow> U32 \<Rightarrow> seg_state \<Rightarrow> string" where
  "seg_name unknown names i s =
     (let ulSeg = i div 256; ulOffset = i mod 256 in
      if ulSeg \<ge> 256 then unknown
      else if ulOffset \<ge> segLen s ! unat ulSeg then unknown
      else names ! unat (segMap s ! unat ulSeg + ulOffset))"

text \<open>The two nested loops look at the segments in order, and in each at its identifiers in order.\<close>

definition seg_places :: "seg_state \<Rightarrow> (nat \<times> nat) list" where
  "seg_places s = concat (map (\<lambda>seg. map (Pair seg) [0..<unat (segLen s ! seg)]) [0..<256])"

definition seg_id :: "string list \<Rightarrow> string \<Rightarrow> seg_state \<Rightarrow> int" where
  "seg_id names x s =
     (case find (\<lambda>(seg, off). names ! unat (segMap s ! seg + of_nat off) = x) (seg_places s) of
        Some (seg, off) \<Rightarrow> int (seg * 256 + off)
      | None \<Rightarrow> - 1)"

section \<open>What the segment map holds\<close>

text \<open>A table is usable when it begins with a segment, no segment is opened twice, and no segment
  has more than 256 entries; \<open>v\<close> is the value of the last entry.\<close>

fun segs_ok :: "nat list \<Rightarrow> nat \<Rightarrow> id_decl list \<Rightarrow> bool" where
  "segs_ok used v [] = True"
| "segs_ok used v (DECL x # ds) = ((v + 1) mod 256 \<noteq> 0 \<and> segs_ok used (v + 1) ds)"
| "segs_ok used v (DECL_BEGIN x z # ds) =
     (z mod 256 = 0 \<and> z div 256 < 256 \<and> z div 256 \<notin> set used \<and> segs_ok (z div 256 # used) z ds)"

fun table_ok :: "id_decl list \<Rightarrow> bool" where
  "table_ok (DECL_BEGIN x z # ds) = segs_ok [] 0 (DECL_BEGIN x z # ds)"
| "table_ok _ = False"

text \<open>Offset \<open>off\<close> of segment \<open>seg\<close> is entry \<open>k\<close> of the array of names.\<close>

definition seg_at :: "seg_state \<Rightarrow> nat \<Rightarrow> nat \<Rightarrow> nat \<Rightarrow> bool" where
  "seg_at s seg off k \<longleftrightarrow> off < unat (segLen s ! seg) \<and> unat (segMap s ! seg) + off = k"

text \<open>\<open>seg_holds vs s\<close>: the segment map \<open>s\<close> describes an array whose \<open>k\<close>-th entry has the identifier
  \<open>vs ! k\<close>.\<close>

definition seg_holds :: "nat list \<Rightarrow> seg_state \<Rightarrow> bool" where
  "seg_holds vs s \<longleftrightarrow> length (segMap s) = 256 \<and> length (segLen s) = 256 \<and>
     (\<forall>seg < 256. unat (segLen s ! seg) \<le> 256) \<and> (\<forall>v \<in> set vs. v < 65536) \<and>
     (\<forall>seg off k. seg < 256 \<longrightarrow> off < 256 \<longrightarrow> seg_at s seg off k = (k < length vs \<and> vs ! k = seg * 256 + off))"

lemma seg_holds_at:
  "seg_holds vs s \<Longrightarrow> seg < 256 \<Longrightarrow> off < 256 \<Longrightarrow> seg_at s seg off k = (k < length vs \<and> vs ! k = seg * 256 + off)"
  by (simp add: seg_holds_def)

lemma segment_value: "off < 256 \<Longrightarrow> v = seg * 256 + off \<longleftrightarrow> v div 256 = seg \<and> v mod 256 = (off :: nat)"
  by (auto simp: div_mult_mod_eq)

lemma seg_holds_begin:
  assumes "seg_holds vs s" "z mod 256 = 0" "z div 256 < 256" "z div 256 \<notin> (\<lambda>v. v div 256) ` set vs"
    "length vs < 2 ^ 32"
  shows "seg_holds (vs @ [z]) (s\<lparr>segMap := (segMap s)[z div 256 := of_nat (length vs)],
           segLen := (segLen s)[z div 256 := 1]\<rparr>)"
    (is "seg_holds _ ?s")
proof -
  have n: "unat (of_nat (length vs) :: U32) = length vs" using assms(5) by (simp add: unat_of_nat)
  have len: "length (segMap s) = 256" "length (segLen s) = 256" using assms(1) by (simp_all add: seg_holds_def)
  have new: "seg_at ?s seg off k = (k < length (vs @ [z]) \<and> (vs @ [z]) ! k = seg * 256 + off)"
    if "seg < 256" "off < 256" for seg off k
  proof (cases "seg = z div 256")
    case True
    then have "vs ! k \<noteq> seg * 256 + off" if "k < length vs"
      using assms(4) that segment_value[OF \<open>off < 256\<close>, of "vs ! k" seg] by (metis image_eqI nth_mem)
    moreover have "z = seg * 256 + off \<longleftrightarrow> off = 0"
      using True assms(2) segment_value[OF \<open>off < 256\<close>, of z seg] by auto
    ultimately show ?thesis
      using True assms(3) len n by (auto simp: seg_at_def nth_append)
  next
    case False
    then have "z \<noteq> seg * 256 + off" using segment_value[OF \<open>off < 256\<close>, of z seg] by auto
    with False show ?thesis
      using seg_holds_at[OF assms(1) that, of k] by (auto simp: seg_at_def nth_append)
  qed
  have "z < 65536" using assms(3) by simp
  then show ?thesis
    unfolding seg_holds_def using assms(1) new by (auto simp: seg_holds_def nth_list_update)
qed

lemma seg_holds_next:
  assumes "seg_holds (vs @ [v]) s" "(v + 1) mod 256 \<noteq> 0" "length vs < 2 ^ 32"
  shows "seg_holds (vs @ [v, v + 1]) (s\<lparr>segLen := (segLen s)[v div 256 := segLen s ! (v div 256) + 1]\<rparr>)"
    (is "seg_holds _ ?s")
proof -
  let ?g = "v div 256"
  have v: "v < 65536" and g: "?g < 256" and len: "length (segMap s) = 256" "length (segLen s) = 256"
    using assms(1) by (auto simp: seg_holds_def)
  have o: "v mod 256 + 1 < 256" "(v + 1) div 256 = ?g" "(v + 1) mod 256 = v mod 256 + 1"
    using assms(2) by (simp_all add: mod_Suc div_Suc split: if_splits)
  have at: "seg_at s ?g (v mod 256) (length vs)"
    using seg_holds_at[OF assms(1) g, of "v mod 256" "length vs"] by (simp add: nth_append)
  have last: "off \<le> v mod 256" if "off < unat (segLen s ! ?g)" for off
  proof (rule ccontr)
    assume "\<not> off \<le> v mod 256"
    moreover have "off < 256" using that assms(1) g by (meson less_le_trans seg_holds_def)
    moreover have "seg_at s ?g off (unat (segMap s ! ?g) + off)" using that by (simp add: seg_at_def)
    ultimately have "unat (segMap s ! ?g) + off < Suc (length vs)"
      using seg_holds_at[OF assms(1) g, of off "unat (segMap s ! ?g) + off"] by simp
    with at \<open>\<not> off \<le> v mod 256\<close> show False by (simp add: seg_at_def)
  qed
  have l: "unat (segLen s ! ?g) = v mod 256 + 1"
    using at last[of "unat (segLen s ! ?g) - 1"] unfolding seg_at_def by linarith
  then have l1: "unat (segLen s ! ?g + 1) = v mod 256 + 2"
    using o(1) unat_add_bounded[of "segLen s ! ?g" 1 "256"] by simp
  have new: "seg_at ?s seg off k = (k < length (vs @ [v, v + 1]) \<and> (vs @ [v, v + 1]) ! k = seg * 256 + off)"
    if "seg < 256" "off < 256" for seg off k
  proof -
    have app: "(k < length (vs @ [v, v + 1]) \<and> (vs @ [v, v + 1]) ! k = seg * 256 + off) \<longleftrightarrow>
        seg_at s seg off k \<or> k = Suc (length vs) \<and> v + 1 = seg * 256 + off"
      using seg_holds_at[OF assms(1) that, of k] by (auto simp: nth_append less_Suc_eq)
    have "v + 1 = seg * 256 + off \<longleftrightarrow> seg = ?g \<and> off = v mod 256 + 1"
      using segment_value[OF that(2), of "v + 1" seg] o by auto
    then show ?thesis
      unfolding app using at l l1 len g by (cases "seg = ?g") (auto simp: seg_at_def)
  qed
  have "v + 1 < 65536" using g o(1) div_mult_mod_eq[of v 256] by linarith
  then show ?thesis
    unfolding seg_holds_def using assms(1) new l1 o(1) by (auto simp: seg_holds_def nth_list_update)
qed

lemma decl_segment_begin:
  assumes "z div 256 < 256"
  shows "of_nat (z div 256) \<noteq> NO_SEGMENT" "\<not> (of_nat (z div 256) :: U32) > 255"
    "unat (of_nat (z div 256) :: U32) = z div 256"
proof -
  show u: "unat (of_nat (z div 256) :: U32) = z div 256" using assms by (simp add: unat_of_nat)
  then show "\<not> (of_nat (z div 256) :: U32) > 255" using assms by (simp add: word_less_nat_alt)
  then show "of_nat (z div 256) \<noteq> NO_SEGMENT" by (auto simp: NO_SEGMENT_def)
qed

lemma seg_loop_holds:
  assumes "seg_holds (vs @ [v]) s" "segs_ok used v ds" "(\<lambda>v. v div 256) ` set (vs @ [v]) \<subseteq> set used"
    "length vs + length ds < 2 ^ 31"
  shows "\<exists>s'. seg_loop (map decl_segment ds) (of_nat (length (vs @ [v]))) (of_nat (v div 256)) s = Some s' \<and>
     seg_holds (vs @ [v] @ map snd (enum_from (v + 1) ds)) s' \<and> idNum s' = idNum s"
  using assms
proof (induction ds arbitrary: vs v s used)
  case (Cons d ds)
  have g: "v div 256 < 256" using Cons.prems(1) by (auto simp: seg_holds_def)
  have len: "length (vs @ [v]) + length ds < 2 ^ 31" using Cons.prems(4) by simp
  show ?case
  proof (cases d)
    case (DECL x)
    let ?s = "s\<lparr>segLen := (segLen s)[v div 256 := segLen s ! (v div 256) + 1]\<rparr>"
    have "seg_holds ((vs @ [v]) @ [v + 1]) ?s"
      using seg_holds_next[OF Cons.prems(1)] Cons.prems(2,4) DECL by simp
    moreover have same: "(v + 1) div 256 = v div 256"
      using Cons.prems(2) DECL by (simp add: mod_Suc div_Suc split: if_splits)
    ultimately show ?thesis
      using Cons.IH[of "vs @ [v]" "v + 1" ?s used] Cons.prems(2,3) len DECL decl_segment_begin(3)[OF g]
      by (simp add: add.commute)
  next
    case (DECL_BEGIN x z)
    let ?s = "s\<lparr>segMap := (segMap s)[z div 256 := of_nat (length (vs @ [v]))], segLen := (segLen s)[z div 256 := 1]\<rparr>"
    have "seg_holds ((vs @ [v]) @ [z]) ?s"
      using Cons.prems DECL_BEGIN by (intro seg_holds_begin) auto
    moreover have "(\<lambda>v. v div 256) ` set ((vs @ [v]) @ [z]) \<subseteq> set (z div 256 # used)"
      using Cons.prems(3) by auto
    ultimately show ?thesis
      using Cons.IH[of "vs @ [v]" z ?s "z div 256 # used"] Cons.prems(2) len DECL_BEGIN
        decl_segment_begin[of z]
      by (simp add: add.commute)
  qed
qed simp

lemma seg_init_holds:
  assumes "table_ok ds" "length ds < 2 ^ 31"
  obtains s where "seg_init ds seg_initial = Some s" "seg_holds (map snd (enum_from 0 ds)) s"
    "idNum s = of_nat (length ds)" "idNum s \<noteq> 0"
proof -
  obtain x z rest where ds: "ds = DECL_BEGIN x z # rest" using assms(1) by (cases ds rule: table_ok.cases) auto
  let ?i = "seg_initial\<lparr>idNum := of_nat (length ds)\<rparr>"
  let ?s = "?i\<lparr>segMap := (segMap ?i)[z div 256 := 0], segLen := (segLen ?i)[z div 256 := 1]\<rparr>"
  have z: "z mod 256 = 0" "z div 256 < 256" and rest: "segs_ok [z div 256] z rest"
    using assms(1) ds by auto
  have "seg_holds [] ?i" by (auto simp: seg_holds_def seg_initial_def seg_at_def)
  from seg_holds_begin[OF this z] have "seg_holds ([] @ [z]) ?s" by simp
  from seg_loop_holds[OF this rest] assms(2) ds obtain s' where
    s': "seg_loop (map decl_segment rest) 1 (of_nat (z div 256)) ?s = Some s'"
      "seg_holds (z # map snd (enum_from (z + 1) rest)) s'" "idNum s' = of_nat (length ds)"
    by (auto simp: seg_initial_def)
  have "seg_init ds seg_initial = Some s'"
    using s'(1) decl_segment_begin[OF z(2)] ds by (simp add: seg_init_def Let_def)
  moreover have "(of_nat (length ds) :: U32) \<noteq> 0"
  proof -
    have "unat (of_nat (length ds) :: U32) = length ds" using assms(2) by (simp add: unat_of_nat)
    moreover have "length ds \<noteq> 0" using ds by simp
    ultimately show ?thesis by (metis unat_0)
  qed
  ultimately show thesis using that s'(2,3) ds by simp
qed

section \<open>Names of identifiers, identifiers of names\<close>

lemma seg_name_holds:
  assumes "seg_holds vs s" "length vs < 2 ^ 32"
  shows "k < length vs \<Longrightarrow> vs ! k = unat i \<Longrightarrow> seg_name unknown names i s = names ! k"
    and "unat i \<notin> set vs \<Longrightarrow> seg_name unknown names i s = unknown"
proof -
  let ?g = "unat i div 256" and ?o = "unat i mod 256"
  have w: "unat (i div 256) = ?g" "unat (i mod 256) = ?o" by (simp_all add: unat_div unat_mod)
  have ge: "256 \<le> i div 256 \<longleftrightarrow> 256 \<le> ?g" by (simp add: word_le_nat_alt w)
  have le: "segLen s ! unat (i div 256) \<le> i mod 256 \<longleftrightarrow> unat (segLen s ! ?g) \<le> ?o"
    by (simp only: word_le_nat_alt w)
  show "seg_name unknown names i s = names ! k" if k: "k < length vs" "vs ! k = unat i" for k
  proof -
    have "unat i < 65536" using k assms(1) by (metis nth_mem seg_holds_def)
    then have g: "?g < 256" by simp
    then have at: "seg_at s ?g ?o k" using seg_holds_at[OF assms(1) g, of ?o k] k by simp
    then have "unat (segMap s ! ?g + i mod 256) = k"
      using k(1) assms(2) by (simp add: seg_at_def unat_word_ariths w)
    then show ?thesis using at g ge le w by (simp add: seg_name_def Let_def seg_at_def)
  qed
  show "seg_name unknown names i s = unknown" if "unat i \<notin> set vs"
  proof (cases "?g < 256")
    case True
    have "\<not> seg_at s ?g ?o (unat (segMap s ! ?g) + ?o)"
      using seg_holds_at[OF assms(1) True, of ?o] that by (auto simp: in_set_conv_nth)
    then show ?thesis using le by (simp add: seg_name_def Let_def seg_at_def)
  qed (use ge in \<open>simp add: seg_name_def Let_def\<close>)
qed

lemma seg_places_at:
  assumes "seg_holds vs s" "length vs < 2 ^ 32"
  shows "(seg, off) \<in> set (seg_places s) \<longleftrightarrow> seg < 256 \<and> off < unat (segLen s ! seg)"
    "(seg, off) \<in> set (seg_places s) \<Longrightarrow> unat (segMap s ! seg + of_nat off) < length vs \<and>
       vs ! unat (segMap s ! seg + of_nat off) = seg * 256 + off"
proof -
  show places: "(seg, off) \<in> set (seg_places s) \<longleftrightarrow> seg < 256 \<and> off < unat (segLen s ! seg)"
    by (force simp: seg_places_def)
  assume "(seg, off) \<in> set (seg_places s)"
  then have p: "seg < 256" "off < unat (segLen s ! seg)" using places by auto
  then have "off < 256" using assms(1) by (meson less_le_trans seg_holds_def)
  with seg_holds_at[OF assms(1) p(1), of off "unat (segMap s ! seg) + off"] p(2)
  have k: "unat (segMap s ! seg) + off < length vs" "vs ! (unat (segMap s ! seg) + off) = seg * 256 + off"
    by (simp_all add: seg_at_def)
  moreover have "unat (segMap s ! seg + of_nat off) = unat (segMap s ! seg) + off"
    using k(1) assms(2) by (simp add: unat_word_ariths unat_of_nat)
  ultimately show "unat (segMap s ! seg + of_nat off) < length vs \<and>
       vs ! unat (segMap s ! seg + of_nat off) = seg * 256 + off" by simp
qed

lemma seg_id_holds:
  assumes "seg_holds vs s" "length vs < 2 ^ 32" "length vs \<le> length names"
  shows "distinct (take (length vs) names) \<Longrightarrow> k < length vs \<Longrightarrow> names ! k = x \<Longrightarrow> seg_id names x s = int (vs ! k)"
    and "x \<notin> set (take (length vs) names) \<Longrightarrow> seg_id names x s = - 1"
proof -
  let ?P = "\<lambda>(seg, off). names ! unat (segMap s ! seg + of_nat off) = x"
  note at = seg_places_at[OF assms(1,2)]
  show "seg_id names x s = int (vs ! k)"
    if d: "distinct (take (length vs) names)" and k: "k < length vs" "names ! k = x"
  proof -
    let ?g = "vs ! k div 256" and ?o = "vs ! k mod 256"
    have "vs ! k < 65536" using assms(1) k(1) by (simp add: seg_holds_def)
    then have g: "?g < 256" by simp
    have "seg_at s ?g ?o k" using seg_holds_at[OF assms(1) g, of ?o k] k by simp
    then have "(?g, ?o) \<in> set (seg_places s)" "unat (segMap s ! ?g) + ?o = k"
      using g at(1) by (simp_all add: seg_at_def)
    moreover from this have "unat (segMap s ! ?g + of_nat ?o) = k"
      using k(1) assms(2) by (simp add: unat_word_ariths unat_of_nat)
    ultimately have "find ?P (seg_places s) \<noteq> None"
      unfolding find_None_iff using k(2) by (metis (mono_tags, lifting) case_prod_conv)
    then obtain seg off where f: "find ?P (seg_places s) = Some (seg, off)" by auto
    then have "(seg, off) \<in> set (seg_places s)" and x: "names ! unat (segMap s ! seg + of_nat off) = x"
      by (auto simp: find_Some_iff) (metis nth_mem)
    from at(2)[OF this(1)] d k x assms(3) have "unat (segMap s ! seg + of_nat off) = k"
      by (simp add: distinct_conv_nth) metis
    with at(2)[OF \<open>(seg, off) \<in> set (seg_places s)\<close>] f show ?thesis by (simp add: seg_id_def)
  qed
  show "seg_id names x s = - 1" if "x \<notin> set (take (length vs) names)"
  proof -
    have "\<not> ?P p" if "p \<in> set (seg_places s)" for p
    proof (cases p)
      case (Pair seg off)
      with at(2)[of seg off] that have "unat (segMap s ! seg + of_nat off) < length vs" by simp
      then have "names ! unat (segMap s ! seg + of_nat off) \<in> set (take (length vs) names)"
        using assms(3) by (auto simp: in_set_conv_nth)
      with Pair \<open>x \<notin> _\<close> show ?thesis by auto
    qed
    then have "find ?P (seg_places s) = None" by (auto simp: find_None_iff)
    then show ?thesis by (simp add: seg_id_def)
  qed
qed

section \<open>Events\<close>

text \<open>The process a build is for.  \<open>OTHER_PROCESS\<close> is a build without any of the three macros.\<close>

datatype process = DRC_PROCESS | DRSU_PROCESS | CLOUD_PROCESS | OTHER_PROCESS

text \<open>The headers of the array of names and of the segment map.\<close>

fun event_decls :: "process \<Rightarrow> id_decl list" where
  "event_decls DRC_PROCESS =
     decl_event_drc_acu @ decl_event_drc_drsu @ decl_event_drc_crm_r4 @ decl_event_drc @
     decl_event_drc_banma @ decl_event_pl"
| "event_decls DRSU_PROCESS = decl_event_drc_drsu @ decl_event_drsu @ decl_event_pl"
| "event_decls CLOUD_PROCESS = decl_event_cloud @ decl_event_drc_crm_r4 @ decl_event_drc @ decl_event_pl"
| "event_decls OTHER_PROCESS =
     decl_event_drc_acu @ decl_event_drc_drsu @ decl_event_drc_crm @ decl_event_drc @
     decl_event_drc_banma @ decl_event_drsu @ decl_event_crm @ decl_event_pl"

text \<open>The headers of the enumeration.\<close>

fun event_enum_decls :: "process \<Rightarrow> id_decl list" where
  "event_enum_decls DRC_PROCESS =
     decl_event_drc_acu @ decl_event_drc_drsu @ decl_event_drc_crm_r4 @ decl_event_drc @
     decl_event_drc_banma @ decl_event_pl"
| "event_enum_decls DRSU_PROCESS = decl_event_drc_drsu @ decl_event_pl"
| "event_enum_decls CLOUD_PROCESS = decl_event_cloud @ decl_event_drc_crm_r4 @ decl_event_drc @ decl_event_pl"
| "event_enum_decls OTHER_PROCESS =
     decl_event_drc_acu @ decl_event_drc_drsu @ decl_event_drc_crm_r4 @ decl_event_drc @
     decl_event_crm @ decl_event_pl"

definition event_enum :: "process \<Rightarrow> (string \<times> nat) list" where
  "event_enum p = enum_from 0 (event_enum_decls p)"

definition event_name :: "process \<Rightarrow> string list" where
  "event_name p = name_array ''LAST_EVENT'' (event_decls p)"

definition init_event_map :: "process \<Rightarrow> seg_state \<Rightarrow> seg_state option" where
  "init_event_map p = seg_init (event_decls p)"

definition pf_get_event_name :: "process \<Rightarrow> U32 \<Rightarrow> seg_state \<Rightarrow> (string \<times> seg_state) option" where
  "pf_get_event_name p ulEventId s =
     (case seg_ready (init_event_map p) s of None \<Rightarrow> None
      | Some s \<Rightarrow> Some (seg_name ''Unknown event'' (event_name p) ulEventId s, s))"

definition pf_get_event_id :: "process \<Rightarrow> string \<Rightarrow> seg_state \<Rightarrow> (int \<times> seg_state) option" where
  "pf_get_event_id p pcEventName s =
     (case seg_ready (init_event_map p) s of None \<Rightarrow> None
      | Some s \<Rightarrow> Some (seg_id (event_name p) pcEventName s, s))"

section \<open>Errors and alarms\<close>

definition errid_enum :: "(string \<times> nat) list" where
  "errid_enum = enum_from 0 decl_errid"

definition errid_name :: "string list" where
  "errid_name = name_array ''LAST_ERRID'' decl_errid"

definition init_errid_map :: "seg_state \<Rightarrow> seg_state option" where
  "init_errid_map = seg_init decl_errid"

definition pf_get_errid_name :: "U32 \<Rightarrow> seg_state \<Rightarrow> (string \<times> seg_state) option" where
  "pf_get_errid_name ulErrId s =
     (case seg_ready init_errid_map s of None \<Rightarrow> None
      | Some s \<Rightarrow> Some (seg_name ''Unknown errid'' errid_name ulErrId s, s))"

definition pf_get_errid_id :: "string \<Rightarrow> seg_state \<Rightarrow> (int \<times> seg_state) option" where
  "pf_get_errid_id pcErridName s =
     (case seg_ready init_errid_map s of None \<Rightarrow> None
      | Some s \<Rightarrow> Some (seg_id errid_name pcErridName s, s))"

definition alarmid_enum :: "(string \<times> nat) list" where
  "alarmid_enum = enum_from 0 decl_alarmid"

definition alarmid_name :: "string list" where
  "alarmid_name = name_array ''LAST_ALARMID'' decl_alarmid"

definition init_alarmid_map :: "seg_state \<Rightarrow> seg_state option" where
  "init_alarmid_map = seg_init decl_alarmid"

definition pf_get_alarmid_name :: "U32 \<Rightarrow> seg_state \<Rightarrow> (string \<times> seg_state) option" where
  "pf_get_alarmid_name ulAlarmId s =
     (case seg_ready init_alarmid_map s of None \<Rightarrow> None
      | Some s \<Rightarrow> Some (seg_name ''Unknown alarmid'' alarmid_name ulAlarmId s, s))"

definition pf_get_alarmid_id :: "string \<Rightarrow> seg_state \<Rightarrow> (int \<times> seg_state) option" where
  "pf_get_alarmid_id pcErridName s =
     (case seg_ready init_alarmid_map s of None \<Rightarrow> None
      | Some s \<Rightarrow> Some (seg_id alarmid_name pcErridName s, s))"

section \<open>Checking that names are distinct\<close>

text \<open>A name gets a number, from a register of 24 bits that is shifted by five and combined with
  the bits of each character.  The numbers are sorted, so that distinctness can be evaluated in few
  comparisons: a list whose sorted form ascends strictly has no duplicates.\<close>

fun code_bit :: "bool \<Rightarrow> num \<Rightarrow> num" where
  "code_bit True n = num.Bit1 n"
| "code_bit False n = num.Bit0 n"

fun name_register ::
  "bool \<Rightarrow> bool \<Rightarrow> bool \<Rightarrow> bool \<Rightarrow> bool \<Rightarrow> bool \<Rightarrow> bool \<Rightarrow> bool \<Rightarrow>
   bool \<Rightarrow> bool \<Rightarrow> bool \<Rightarrow> bool \<Rightarrow> bool \<Rightarrow> bool \<Rightarrow> bool \<Rightarrow> bool \<Rightarrow>
   bool \<Rightarrow> bool \<Rightarrow> bool \<Rightarrow> bool \<Rightarrow> bool \<Rightarrow> bool \<Rightarrow> bool \<Rightarrow> bool \<Rightarrow> string \<Rightarrow> int" where
  "name_register s0 s1 s2 s3 s4 s5 s6 s7 s8 s9 s10 s11
      s12 s13 s14 s15 s16 s17 s18 s19 s20 s21 s22 s23 [] =
    numeral (code_bit s0 (code_bit s1 (code_bit s2 (code_bit s3 (code_bit s4 (code_bit s5 (code_bit s6
      (code_bit s7 (code_bit s8 (code_bit s9 (code_bit s10 (code_bit s11 (code_bit s12 (code_bit
      s13 (code_bit s14 (code_bit s15 (code_bit s16 (code_bit s17 (code_bit s18 (code_bit s19
      (code_bit s20 (code_bit s21 (code_bit s22 (code_bit s23 num.One))))))))))))))))))))))))"
| "name_register s0 s1 s2 s3 s4 s5 s6 s7 s8 s9 s10 s11
      s12 s13 s14 s15 s16 s17 s18 s19 s20 s21 s22 s23
     (Char a b c d e f g h # cs) =
   name_register (s5 \<noteq> a) (s6 \<noteq> b) (s7 \<noteq> c) (s8 \<noteq> d) (s9 \<noteq> e) (s10 \<noteq> f) (s11 \<noteq> g) (s12 \<noteq> h)
      s13 s14 s15 s16 s17 s18 s19 s20
      s21 s22 s23 s0 s1 s2 s3 s4 cs"

definition name_code :: "string \<Rightarrow> int" where
  "name_code = name_register False False False False False False False False False False False False
     False False False False False False False False False False False False"

fun merge_codes :: "int list \<Rightarrow> int list \<Rightarrow> int list" where
  "merge_codes [] ys = ys"
| "merge_codes (x # xs) [] = x # xs"
| "merge_codes (x # xs) (y # ys) =
     (if x < y then x # merge_codes xs (y # ys) else y # merge_codes (x # xs) ys)"

fun merge_pairs :: "int list list \<Rightarrow> int list list" where
  "merge_pairs (xs # ys # zss) = merge_codes xs ys # merge_pairs zss"
| "merge_pairs zss = zss"

lemma merge_pairs_length: "length (merge_pairs zss) \<le> length zss"
  by (induction zss rule: merge_pairs.induct) simp_all

function merge_all :: "int list list \<Rightarrow> int list" where
  "merge_all [] = []"
| "merge_all [xs] = xs"
| "merge_all (xs # ys # zss) = merge_all (merge_codes xs ys # merge_pairs zss)"
  by pat_completeness auto
termination by (relation "measure length") (auto simp: less_Suc_eq_le intro: le_SucI merge_pairs_length)

fun ascending :: "int list \<Rightarrow> bool" where
  "ascending (x # y # xs) = (x < y \<and> ascending (y # xs))"
| "ascending _ = True"

lemma merge_codes_mset: "mset (merge_codes xs ys) = mset xs + mset ys"
  by (induction xs ys rule: merge_codes.induct) auto

lemma merge_pairs_mset: "mset (concat (merge_pairs zss)) = mset (concat zss)"
  by (induction zss rule: merge_pairs.induct) (auto simp: merge_codes_mset)

lemma merge_all_mset: "mset (merge_all zss) = mset (concat zss)"
  by (induction zss rule: merge_all.induct) (simp_all add: merge_codes_mset merge_pairs_mset)

lemma ascending_distinct: "ascending xs \<Longrightarrow> distinct xs \<and> (\<forall>x \<in> set (tl xs). hd xs < x)"
  by (induction xs rule: ascending.induct) force+

lemma distinct_by_codes:
  assumes "map (\<lambda>d. name_code (decl_name d)) ds = codes" "ascending (merge_all (map (\<lambda>c. [c]) codes))"
  shows "distinct (map decl_name ds)"
proof -
  have "mset (merge_all (map (\<lambda>c. [c]) codes)) = mset (map (name_code \<circ> decl_name) ds)"
    unfolding merge_all_mset assms(1)[symmetric] by (induction ds) simp_all
  with ascending_distinct[OF assms(2)] have "distinct (map (name_code \<circ> decl_name) ds)"
    by (metis mset_eq_imp_distinct_iff)
  then show ?thesis by (auto simp: distinct_map inj_on_def)
qed

section \<open>The tables are usable\<close>

lemmas event_tables = EVENT_SEG_LEN_def decl_event_cloud_def decl_event_pl_def decl_event_drc_crm_r4_def
  decl_event_drc_def decl_event_drc_1_def decl_event_drc_2_def decl_event_drc_3_def
  decl_event_drc_acu_def decl_event_drc_drsu_def decl_event_drc_banma_def
  decl_event_drsu_def decl_event_drsu_1_def decl_event_drsu_2_def decl_event_drsu_3_def
  decl_event_crm_def decl_event_drc_crm_def decl_event_drc_crm_1_def decl_event_drc_crm_2_def

lemmas status_tables = ERRID_SEG_LEN_def ALARMID_SEG_LEN_def decl_errid_def decl_errid_1_def decl_errid_2_def
  decl_alarmid_def

lemma event_table_ok: "table_ok (event_decls p)"
  by (cases p) (simp_all add: event_tables)

lemma event_names_cloud: "distinct (map decl_name (event_decls CLOUD_PROCESS))"
  by (rule distinct_by_codes[OF refl])
    (simp add: event_tables name_code_def del: merge_all.simps ascending.simps, code_simp)

lemma status_tables_ok: "table_ok decl_errid" "table_ok decl_alarmid"
  by (simp_all add: status_tables)

lemma errid_names_distinct: "distinct (map decl_name decl_errid)"
  by (rule distinct_by_codes[OF refl])
    (simp add: status_tables name_code_def del: merge_all.simps ascending.simps, code_simp)

lemma alarmid_names_distinct: "distinct (map decl_name decl_alarmid)"
  by (rule distinct_by_codes[OF refl])
    (simp add: status_tables name_code_def del: merge_all.simps ascending.simps, code_simp)

lemma table_lengths: "length (event_decls p) < 2 ^ 31" "length decl_errid < 2 ^ 31" "length decl_alarmid < 2 ^ 31"
  by (cases p) (simp_all add: event_tables status_tables)

section \<open>A table of identifiers\<close>

text \<open>The contract between a table and the lookups: the segment map is computed once, from then on
  names and identifiers are each other's inverse on the entries of the table.\<close>

definition seg_started :: "id_decl list \<Rightarrow> seg_state \<Rightarrow> bool" where
  "seg_started ds s \<longleftrightarrow> s = seg_initial \<or> seg_init ds seg_initial = Some s"

locale id_table =
  fixes ds :: "id_decl list" and end_name :: string
  assumes usable: "table_ok ds" and bounded: "length ds < 2 ^ 31"
    and distinct_names: "distinct (map decl_name ds)"
begin

abbreviation names :: "string list" where "names \<equiv> name_array end_name ds"

lemma ready:
  assumes "seg_started ds s"
  obtains s' where "seg_ready (seg_init ds) s = Some s'" "seg_init ds seg_initial = Some s'"
    "seg_holds (map snd (enum_from 0 ds)) s'"
proof -
  obtain s' where s': "seg_init ds seg_initial = Some s'" "seg_holds (map snd (enum_from 0 ds)) s'" "idNum s' \<noteq> 0"
    by (rule seg_init_holds[OF usable bounded])
  have "seg_ready (seg_init ds) s = Some s'"
    using assms s' by (auto simp: seg_started_def seg_ready_def) (simp add: seg_initial_def)
  with s' that show thesis by blast
qed

lemma known:
  assumes "seg_holds (map snd (enum_from 0 ds)) s" "(x, v) \<in> set (enum_from 0 ds)"
  shows "seg_name unknown names (of_nat v) s = x" "seg_id names x s = int v" "v < 65536"
proof -
  have len: "length (enum_from 0 ds) = length ds"
    using enum_names[of 0 ds] by (metis length_map)
  obtain k where k: "k < length ds" "enum_from 0 ds ! k = (x, v)"
    using assms(2) len by (auto simp: in_set_conv_nth)
  then have x: "names ! k = x" using enum_nth(1)[of k ds 0 end_name] by simp
  show v: "v < 65536" using assms by (auto simp: seg_holds_def)
  then have u: "unat (of_nat v :: U32) = v" by (simp add: unat_of_nat)
  show "seg_name unknown names (of_nat v) s = x"
    using seg_name_holds(1)[OF assms(1), of k "of_nat v" unknown names] k len u x bounded by simp
  have "distinct (take (length (map snd (enum_from 0 ds))) names)"
    using distinct_names len by (simp add: name_array_def)
  then show "seg_id names x s = int v"
    using seg_id_holds(1)[OF assms(1), of names k x] k len x bounded by (simp add: name_array_def)
qed

lemma unknown:
  assumes "seg_holds (map snd (enum_from 0 ds)) s"
  shows "unat i \<notin> snd ` set (enum_from 0 ds) \<Longrightarrow> seg_name other names i s = other"
    "x \<notin> fst ` set (enum_from 0 ds) \<Longrightarrow> seg_id names x s = - 1"
proof -
  have len: "length (enum_from 0 ds) = length ds"
    using enum_names[of 0 ds] by (metis length_map)
  show "seg_name other names i s = other" if "unat i \<notin> snd ` set (enum_from 0 ds)"
    using seg_name_holds(2)[OF assms, of i other names] that len bounded by simp
  have "fst ` set (enum_from 0 ds) = set (map decl_name ds)"
    using enum_names[of 0 ds] by (metis set_map)
  then show "seg_id names x s = - 1" if "x \<notin> fst ` set (enum_from 0 ds)"
    using seg_id_holds(2)[OF assms, of names x] that len bounded by (simp add: name_array_def)
qed

end

interpretation ev: id_table "event_decls CLOUD_PROCESS" "''LAST_EVENT''"
  by unfold_locales (rule event_table_ok table_lengths event_names_cloud)+

interpretation er: id_table decl_errid "''LAST_ERRID''"
  by unfold_locales (rule status_tables_ok table_lengths errid_names_distinct)+

interpretation al: id_table decl_alarmid "''LAST_ALARMID''"
  by unfold_locales (rule status_tables_ok table_lengths alarmid_names_distinct)+

end
