(* ===== verification/Id_Properties.thy ===== *)
theory Id_Properties
  imports Id_Maps
begin

text \<open>
  What the identifier tables promise: names and identifiers are inverse to each other on every
  entry, and everything else is answered as unknown.  
\<close>

section \<open>Events, errors, alarms\<close>

text \<open>
  C40. In the cloud build every enumerator of \<open>event.h\<close> is given its own name by
  \<open>pf_get_event_name\<close> and is found under that name by \<open>pf_get_event_id\<close>; an identifier without
  enumerator is answered \<open>Unknown event\<close>, a string that names no event \<open>-1\<close>.  This holds for
  the first call, which computes the segment map, and for every later one.
\<close>

theorem event_round_trip:
  assumes "seg_started (event_decls CLOUD_PROCESS) s"
  shows "\<exists>s'. seg_started (event_decls CLOUD_PROCESS) s' \<and>
     (\<forall>(x, v) \<in> set (event_enum CLOUD_PROCESS).
        pf_get_event_name CLOUD_PROCESS (of_nat v) s = Some (x, s') \<and>
        pf_get_event_id CLOUD_PROCESS x s = Some (int v, s')) \<and>
     (\<forall>i. unat i \<notin> snd ` set (event_enum CLOUD_PROCESS) \<longrightarrow>
        pf_get_event_name CLOUD_PROCESS i s = Some (''Unknown event'', s')) \<and>
     (\<forall>x. x \<notin> fst ` set (event_enum CLOUD_PROCESS) \<longrightarrow>
        pf_get_event_id CLOUD_PROCESS x s = Some (- 1, s'))"
proof -
  have e: "event_enum CLOUD_PROCESS = enum_from 0 (event_decls CLOUD_PROCESS)" by (simp add: event_enum_def)
  obtain s' where s': "seg_ready (seg_init (event_decls CLOUD_PROCESS)) s = Some s'"
    "seg_init (event_decls CLOUD_PROCESS) seg_initial = Some s'"
    "seg_holds (map snd (enum_from 0 (event_decls CLOUD_PROCESS))) s'"
    by (rule ev.ready[OF assms])
  show ?thesis
    unfolding e pf_get_event_name_def pf_get_event_id_def event_name_def init_event_map_def s'(1)
    using ev.known[OF s'(3)] ev.unknown[OF s'(3)] s'(2)
    by (intro exI[of _ s']) (auto simp: seg_started_def)
qed

text \<open>
  The same for the error and the alarm identifiers.
\<close>

theorem status_round_trip:
  assumes "seg_started decl_errid se" "seg_started decl_alarmid sa"
  shows "(\<exists>s'. seg_started decl_errid s' \<and>
     (\<forall>(x, v) \<in> set errid_enum.
        pf_get_errid_name (of_nat v) se = Some (x, s') \<and> pf_get_errid_id x se = Some (int v, s')) \<and>
     (\<forall>i. unat i \<notin> snd ` set errid_enum \<longrightarrow> pf_get_errid_name i se = Some (''Unknown errid'', s')) \<and>
     (\<forall>x. x \<notin> fst ` set errid_enum \<longrightarrow> pf_get_errid_id x se = Some (- 1, s'))) \<and>
   (\<exists>s'. seg_started decl_alarmid s' \<and>
     (\<forall>(x, v) \<in> set alarmid_enum.
        pf_get_alarmid_name (of_nat v) sa = Some (x, s') \<and> pf_get_alarmid_id x sa = Some (int v, s')) \<and>
     (\<forall>i. unat i \<notin> snd ` set alarmid_enum \<longrightarrow> pf_get_alarmid_name i sa = Some (''Unknown alarmid'', s')) \<and>
     (\<forall>x. x \<notin> fst ` set alarmid_enum \<longrightarrow> pf_get_alarmid_id x sa = Some (- 1, s')))"
proof -
  obtain e where e: "seg_ready (seg_init decl_errid) se = Some e" "seg_init decl_errid seg_initial = Some e"
    "seg_holds (map snd (enum_from 0 decl_errid)) e"
    by (rule er.ready[OF assms(1)])
  obtain a where a: "seg_ready (seg_init decl_alarmid) sa = Some a" "seg_init decl_alarmid seg_initial = Some a"
    "seg_holds (map snd (enum_from 0 decl_alarmid)) a"
    by (rule al.ready[OF assms(2)])
  show ?thesis
    unfolding errid_enum_def pf_get_errid_name_def pf_get_errid_id_def errid_name_def init_errid_map_def e(1)
      alarmid_enum_def pf_get_alarmid_name_def pf_get_alarmid_id_def alarmid_name_def init_alarmid_map_def a(1)
    using er.known[OF e(3)] er.unknown[OF e(3)] e(2) al.known[OF a(3)] al.unknown[OF a(3)] a(2)
    by (intro conjI exI[of _ e] exI[of _ a]) (auto simp: seg_started_def)
qed

text \<open>The identifiers of the timer and of the module messages, by name.\<close>

lemma timer_event: "(''TIMER_EXPIRY_MSG'', 0xFF02) \<in> set (event_enum CLOUD_PROCESS)"
  by (simp add: event_enum_def event_tables)

lemma some_status: "(''ERRID_OS_OPERATION_NOT_PERMITTED'', 1) \<in> set errid_enum"
  "(''ALARMID_ACU_BEGIN'', 0) \<in> set alarmid_enum"
  by (simp_all add: errid_enum_def alarmid_enum_def status_tables)

lemma event_round_trip_witness:
  "\<exists>s'. pf_get_event_name CLOUD_PROCESS 0xFF02 seg_initial = Some (''TIMER_EXPIRY_MSG'', s') \<and>
     pf_get_event_id CLOUD_PROCESS ''TIMER_EXPIRY_MSG'' seg_initial = Some (0xFF02, s')"
proof -
  have "seg_started (event_decls CLOUD_PROCESS) seg_initial" by (simp add: seg_started_def)
  from event_round_trip[OF this] timer_event show ?thesis by fastforce
qed

lemma status_round_trip_witness:
  "(\<exists>s'. pf_get_errid_name 1 seg_initial = Some (''ERRID_OS_OPERATION_NOT_PERMITTED'', s')) \<and>
   (\<exists>s'. pf_get_alarmid_id ''ALARMID_ACU_BEGIN'' seg_initial = Some (0, s'))"
proof -
  have i: "seg_started decl_errid seg_initial" "seg_started decl_alarmid seg_initial"
    by (simp_all add: seg_started_def)
  from status_round_trip[OF i] some_status
  have "\<exists>s'. pf_get_errid_name 1 seg_initial = Some (''ERRID_OS_OPERATION_NOT_PERMITTED'', s')"
    "\<exists>s'. pf_get_alarmid_id ''ALARMID_ACU_BEGIN'' seg_initial = Some (0, s')" by fastforce+
  then show ?thesis ..
qed

text \<open>A build without any of the process macros takes its names from another header than its
  enumerators: the event 2049 is called by the name of a different one.\<close>

lemma event_name_other_build:
  "(''DRC_CRM_EVENT_IND'', 2049) \<in> set (event_enum OTHER_PROCESS)"
  "(''DRC_CRM_DRC_SWUPDATE_RSP'', 2049) \<in> set (enum_from 0 (event_decls OTHER_PROCESS))"
  by (simp_all add: event_enum_def event_tables)

end
