(* ===== verification/Module_Ids.thy ===== *)
theory Module_Ids
  imports Id_Tables
begin

text \<open>
  The modules of the cloud process: the tables \<open>common/decl_module*.h\<close>, \<open>decl_log_module.h\<close> and the
  two lookups of \<open>common/decl_module.cpp\<close>.  A module has an identifier, which is the index of its
  mailbox, and a name; the identifiers form two ranges, the array of names only one.
\<close>

section \<open>Modules\<close>

definition MAX_DRSU_MODULE :: nat where "MAX_DRSU_MODULE = 90"

definition decl_module :: "id_decl list" where
  "decl_module = [DECL ''GTEST'', DECL ''DAILYREC'', DECL ''FTP'', DECL ''LOG'']"

definition decl_module_cloud :: "id_decl list" where
  "decl_module_cloud =
    [DECL ''LCF'',
     DECL ''MQTTSUB'',
     DECL ''MQTTPUB'',
     DECL ''DEVICE'',
     DECL ''WAYPOINT'',
     DECL ''FLYTO'',
     DECL ''TRACK'',
     DECL ''PAYLOAD'',
     DECL ''PL_UTILS'',
     DECL ''TOTAL_NUM'',
     DECL_BEGIN ''MAX'' MAX_DRSU_MODULE,
     DECL ''TIMER'',
     DECL ''NETWORK'',
     DECL ''UNSOCK_SERVER'',
     DECL ''TASK_MAX'']"

definition decl_log_module :: "id_decl list" where
  "decl_log_module =
    [DECL ''MODULE_COMM'',
     DECL ''PLATFORM_INTER_MSG'',
     DECL ''PLATFORM_MBOX'',
     DECL ''PLATFORM_EX'',
     DECL ''PLATFORM_ROOT'',
     DECL ''PLATFORM_LOG'',
     DECL ''MODULE_DRC_COMMON'',
     DECL ''LOG_MODULE_MAX'']"

text \<open>The enumeration \<open>CloudModuleId\<close>, without the prefix \<open>MODULE_\<close> of its first enumerators, and the
  array of names.\<close>

definition module_enum :: "(string \<times> nat) list" where
  "module_enum = enum_from 0 (decl_module @ decl_module_cloud @ decl_log_module)"

definition module_names :: "string list" where
  "module_names = map decl_name (decl_module @ decl_module_cloud @ decl_log_module)"

definition MODULE_TOTAL_NUM :: U32 where "MODULE_TOTAL_NUM = 13"
definition MODULE_MAX_ID :: U32 where "MODULE_MAX_ID = 90"
definition LOG_MODULE_MAX :: U32 where "LOG_MODULE_MAX = 102"

definition pf_get_module_name :: "U32 \<Rightarrow> string" where
  "pf_get_module_name ulModuleId =
     (if ulModuleId \<le> MODULE_TOTAL_NUM then module_names ! unat ulModuleId
      else if MODULE_MAX_ID \<le> ulModuleId \<and> ulModuleId < LOG_MODULE_MAX
      then module_names ! unat (ulModuleId + MODULE_TOTAL_NUM + 1 - MODULE_MAX_ID)
      else ''(x)'')"

text \<open>\<open>memcmp\<close> over the length of the argument compares with a prefix of the name; it stops at the
  end of a shorter name.\<close>

definition pf_get_module_id :: "string \<Rightarrow> U32" where
  "pf_get_module_id moduleName =
     (let ulnum = LOG_MODULE_MAX + 1 + MODULE_TOTAL_NUM - MODULE_MAX_ID in
      case find (\<lambda>ulmid. take (length moduleName) (module_names ! ulmid) = moduleName) [0..<unat ulnum] of
        Some ulmid \<Rightarrow>
          if of_nat ulmid > MODULE_TOTAL_NUM then of_nat ulmid + MODULE_MAX_ID - 1 - MODULE_TOTAL_NUM
          else of_nat ulmid
      | None \<Rightarrow> LOG_MODULE_MAX)"

lemmas module_tables = module_enum_def module_names_def decl_module_def decl_module_cloud_def
  decl_log_module_def MAX_DRSU_MODULE_def MODULE_TOTAL_NUM_def MODULE_MAX_ID_def LOG_MODULE_MAX_def

lemma module_constants:
  "map_of module_enum ''TOTAL_NUM'' = Some (unat MODULE_TOTAL_NUM)"
  "map_of module_enum ''MAX'' = Some (unat MODULE_MAX_ID)"
  "map_of module_enum ''LOG_MODULE_MAX'' = Some (unat LOG_MODULE_MAX)"
  by (simp_all add: module_tables)

lemma module_ids: "snd ` set (butlast module_enum) = set ([0..<14] @ [90..<102])"
  by (simp add: module_tables upt_rec)

lemma module_id_of_name: "\<forall>(x, v) \<in> set module_enum. pf_get_module_id x = of_nat v"
  by (simp add: module_tables pf_get_module_id_def Let_def upt_rec)

lemma module_name_of_id: "\<forall>(x, v) \<in> set (butlast module_enum). pf_get_module_name (of_nat v) = x"
  by (simp add: module_tables pf_get_module_name_def)

text \<open>
  Every module of the cloud process, and every pseudo module of the log, has the name it is
  declared with, and is found under it, although the search compares prefixes only; the other
  numbers are answered \<open>(x)\<close>.
\<close>

theorem module_round_trip:
  "(\<forall>(x, v) \<in> set module_enum. pf_get_module_id x = of_nat v) \<and>
   (\<forall>(x, v) \<in> set (butlast module_enum). pf_get_module_name (of_nat v) = x) \<and>
   (\<forall>i. unat i \<notin> snd ` set (butlast module_enum) \<longrightarrow> pf_get_module_name i = ''(x)'')"
proof (intro conjI allI impI)
  show "\<forall>(x, v) \<in> set module_enum. pf_get_module_id x = of_nat v" by (rule module_id_of_name)
  show "\<forall>(x, v) \<in> set (butlast module_enum). pf_get_module_name (of_nat v) = x" by (rule module_name_of_id)
  fix i :: U32
  assume "unat i \<notin> snd ` set (butlast module_enum)"
  then have "\<not> unat i < 14" "\<not> (90 \<le> unat i \<and> unat i < 102)"
    unfolding module_ids set_append set_upt by auto
  then show "pf_get_module_name i = ''(x)''"
    by (auto simp: pf_get_module_name_def MODULE_TOTAL_NUM_def MODULE_MAX_ID_def LOG_MODULE_MAX_def
        word_le_nat_alt word_less_nat_alt)
qed

lemma module_round_trip_witness:
  "pf_get_module_id ''TIMER'' = 91 \<and> pf_get_module_name 91 = ''TIMER'' \<and> pf_get_module_name 40 = ''(x)''"
proof -
  have "(''TIMER'', 91) \<in> set (butlast module_enum)" "(''TIMER'', 91) \<in> set module_enum"
    "unat (40 :: U32) \<notin> snd ` set (butlast module_enum)"
    by (simp_all add: module_tables)
  with module_round_trip show ?thesis by fastforce
qed

text \<open>The search takes a prefix of a name for the name: the first of the two MQTT modules is found
  under \<open>MQTT\<close>, and module 0 under the empty string, where \<open>LOG_MODULE_MAX\<close> would say that there
  is no such module.\<close>

lemma pf_get_module_id_prefix: "pf_get_module_id ''MQTT'' = 5" "pf_get_module_id [] = 0"
  by (simp_all add: module_tables pf_get_module_id_def Let_def upt_rec)

end
