(* ===== verification/Thread_Mid.thy ===== *)
theory Thread_Mid
  imports Pilot_Prelude
begin

text \<open>
  The table from threads to modules of \<open>platform/linux/pf_mbox.cpp\<close>: an open-addressing hash
  table \<open>ulThreadId\<close> of 512 slots, hashed by bits 20 to 28 of the thread handle, with linear
  probing and the marker \<open>0xDEADBEEF\<close> for free slots.  A slot holds a module; the handle it stands
  for is the one in \<open>workerhandles\<close>.  \<open>pf_thread_create_mid\<close> stores the handle of a new thread and
  enters its module; \<open>pf_get_thread_mid\<close> is called by a thread to find its own module.
\<close>

section \<open>Data and operations\<close>

definition THREAD_ARRAY_MAX_ID :: nat where "THREAD_ARRAY_MAX_ID = 512"
definition THREAD_ARRAY_OFFSET :: nat where "THREAD_ARRAY_OFFSET = 20"
definition NO_THREAD :: U32 where "NO_THREAD = 0xDEADBEEF"

record thread_table =
  ulThreadId :: "U32 list"
  workerhandles :: "U64 list"
  g_ulMidCounts :: U32

text \<open>\<open>n\<close> is \<open>MODULE_TASK_MAX\<close>.  The loops over \<open>msgQArray\<close> and \<open>moduleArray\<close> only clear pointers.\<close>

definition thread_mid_init :: "nat \<Rightarrow> thread_table \<Rightarrow> thread_table" where
  "thread_mid_init n s = s\<lparr>ulThreadId := replicate THREAD_ARRAY_MAX_ID NO_THREAD, workerhandles := replicate n 0\<rparr>"

text \<open>The two computations of the slot: the set operation cuts the handle to 32 bits first.\<close>

definition set_slot :: "U64 \<Rightarrow> nat" where
  "set_slot handle = unat (drop_bit THREAD_ARRAY_OFFSET (ucast handle :: U32)) mod THREAD_ARRAY_MAX_ID"

definition get_slot :: "U64 \<Rightarrow> nat" where
  "get_slot handle = unat (ucast (drop_bit THREAD_ARRAY_OFFSET handle mod of_nat THREAD_ARRAY_MAX_ID) :: U32)"

definition pf_set_thread_mid :: "U32 \<Rightarrow> thread_table \<Rightarrow> thread_table" where
  "pf_set_thread_mid ulMid s =
     (let handle = workerhandles s ! unat ulMid; i = set_slot handle;
          s = (if ulThreadId s ! i = NO_THREAD then s\<lparr>ulThreadId := (ulThreadId s)[i := ulMid]\<rparr>
               else case find (\<lambda>k. ulThreadId s ! ((i + k) mod THREAD_ARRAY_MAX_ID) = NO_THREAD) [1..<THREAD_ARRAY_MAX_ID] of
                      Some k \<Rightarrow> s\<lparr>ulThreadId := (ulThreadId s)[(i + k) mod THREAD_ARRAY_MAX_ID := ulMid]\<rparr>
                    | None \<Rightarrow> s)
      in s\<lparr>g_ulMidCounts := g_ulMidCounts s + 1\<rparr>)"

text \<open>\<open>PF_RET_FAILURE\<close>, returned as \<open>U32\<close>.\<close>

definition NO_MID :: U32 where "NO_MID = 0xFFFFFFFF"

text \<open>The probing loop; the argument is the list of the remaining values of its counter.\<close>

fun get_probe :: "thread_table \<Rightarrow> U64 \<Rightarrow> nat \<Rightarrow> nat list \<Rightarrow> U32" where
  "get_probe s handle i [] = NO_MID"
| "get_probe s handle i (k # ks) =
     (let ulTmpId = ulThreadId s ! ((i + k) mod THREAD_ARRAY_MAX_ID) in
      if ulTmpId = NO_THREAD then NO_MID
      else if handle = workerhandles s ! unat ulTmpId then ulTmpId
      else get_probe s handle i ks)"

definition pf_get_thread_mid :: "U64 \<Rightarrow> thread_table \<Rightarrow> U32" where
  "pf_get_thread_mid handle s =
     (let i = get_slot handle; ulMid = ulThreadId s ! i in
      if ulMid = NO_THREAD then NO_MID
      else if handle \<noteq> workerhandles s ! unat ulMid then get_probe s handle i [1..<THREAD_ARRAY_MAX_ID]
      else ulMid)"

definition pf_get_thread_mid_num :: "thread_table \<Rightarrow> U32" where
  "pf_get_thread_mid_num s = g_ulMidCounts s"

text \<open>What \<open>pf_thread_create_mid\<close> does to the table: \<open>pthread_create\<close> stores the handle of the new
  thread, then the module is entered.\<close>

definition thread_started :: "U32 \<times> U64 \<Rightarrow> thread_table \<Rightarrow> thread_table" where
  "thread_started t s =
     pf_set_thread_mid (fst t) (s\<lparr>workerhandles := (workerhandles s)[unat (fst t) := snd t]\<rparr>)"

section \<open>Both operations probe the same slots\<close>

lemma slots_agree: "set_slot h = get_slot h" "get_slot h < THREAD_ARRAY_MAX_ID"
proof -
  let ?n = "unat h div 2 ^ 20"
  have u: "unat (drop_bit 20 h mod 512) = ?n mod 512"
    by (simp add: unat_mod unat_div unat_drop_bit_eq drop_bit_eq_div)
  then have g: "get_slot h = ?n mod 512"
    by (simp add: get_slot_def THREAD_ARRAY_OFFSET_def THREAD_ARRAY_MAX_ID_def unsigned_ucast_eq take_bit_eq_mod)
  have "unat (drop_bit 20 (ucast h :: U32)) = unat h mod 2 ^ 32 div 2 ^ 20"
    by (simp add: unat_drop_bit_eq drop_bit_eq_div unat_div unsigned_ucast_eq take_bit_eq_mod)
  also have "\<dots> = ?n mod 2 ^ 12"
    using mod_mult2_eq[of "unat h" "2 ^ 20" "2 ^ 12"] by simp
  finally have "set_slot h = ?n mod 2 ^ 12 mod 512"
    by (simp add: set_slot_def THREAD_ARRAY_OFFSET_def THREAD_ARRAY_MAX_ID_def)
  then show "set_slot h = get_slot h" unfolding g by (simp add: mod_mod_cancel)
  show "get_slot h < THREAD_ARRAY_MAX_ID" by (simp add: g THREAD_ARRAY_MAX_ID_def)
qed

text \<open>The \<open>k\<close>-th slot probed for a handle, starting with its own.\<close>

definition probe :: "U64 \<Rightarrow> nat \<Rightarrow> nat" where
  "probe h k = (get_slot h + k) mod THREAD_ARRAY_MAX_ID"

lemma set_by_probe:
  "pf_set_thread_mid m s =
     (let h = workerhandles s ! unat m in
      case find (\<lambda>k. ulThreadId s ! probe h k = NO_THREAD) [0..<THREAD_ARRAY_MAX_ID] of
        Some k \<Rightarrow> s\<lparr>ulThreadId := (ulThreadId s)[probe h k := m], g_ulMidCounts := g_ulMidCounts s + 1\<rparr>
      | None \<Rightarrow> s\<lparr>g_ulMidCounts := g_ulMidCounts s + 1\<rparr>)"
proof -
  have "[0..<THREAD_ARRAY_MAX_ID] = 0 # [1..<THREAD_ARRAY_MAX_ID]"
    by (simp add: THREAD_ARRAY_MAX_ID_def upt_conv_Cons)
  then show ?thesis
    using slots_agree[of "workerhandles s ! unat m"]
    by (auto simp: pf_set_thread_mid_def probe_def Let_def split: option.split)
qed

lemma get_by_probe: "pf_get_thread_mid h s = get_probe s h (get_slot h) [0..<THREAD_ARRAY_MAX_ID]"
proof -
  have "[0..<THREAD_ARRAY_MAX_ID] = 0 # [1..<THREAD_ARRAY_MAX_ID]"
    by (simp add: THREAD_ARRAY_MAX_ID_def upt_conv_Cons)
  then show ?thesis using slots_agree(2)[of h] by (simp add: pf_get_thread_mid_def Let_def)
qed

section \<open>The invariant\<close>

text \<open>\<open>mids\<close> are the modules entered so far, each found at the first place of its probe sequence
  that is not taken by another one.\<close>

definition table_inv :: "U32 list \<Rightarrow> thread_table \<Rightarrow> bool" where
  "table_inv mids s \<longleftrightarrow>
     length (ulThreadId s) = THREAD_ARRAY_MAX_ID \<and>
     (\<forall>m \<in> set mids. unat m < length (workerhandles s) \<and> m \<noteq> NO_THREAD) \<and>
     distinct (map (\<lambda>m. workerhandles s ! unat m) mids) \<and>
     (\<forall>i < THREAD_ARRAY_MAX_ID. ulThreadId s ! i \<noteq> NO_THREAD \<longrightarrow> ulThreadId s ! i \<in> set mids) \<and>
     (\<forall>i < THREAD_ARRAY_MAX_ID. \<forall>j < THREAD_ARRAY_MAX_ID.
        ulThreadId s ! i \<noteq> NO_THREAD \<longrightarrow> ulThreadId s ! i = ulThreadId s ! j \<longrightarrow> i = j) \<and>
     (\<forall>m \<in> set mids. \<exists>k < THREAD_ARRAY_MAX_ID. ulThreadId s ! probe (workerhandles s ! unat m) k = m \<and>
        (\<forall>j < k. ulThreadId s ! probe (workerhandles s ! unat m) j \<noteq> NO_THREAD))"

lemma table_invD:
  assumes "table_inv mids s"
  shows "length (ulThreadId s) = THREAD_ARRAY_MAX_ID"
    "m \<in> set mids \<Longrightarrow> m \<noteq> NO_THREAD"
    "i < THREAD_ARRAY_MAX_ID \<Longrightarrow> ulThreadId s ! i \<noteq> NO_THREAD \<Longrightarrow> ulThreadId s ! i \<in> set mids"
    "i < THREAD_ARRAY_MAX_ID \<Longrightarrow> j < THREAD_ARRAY_MAX_ID \<Longrightarrow> ulThreadId s ! i \<noteq> NO_THREAD \<Longrightarrow>
       ulThreadId s ! i = ulThreadId s ! j \<Longrightarrow> i = j"
    "m \<in> set mids \<Longrightarrow> m' \<in> set mids \<Longrightarrow> workerhandles s ! unat m = workerhandles s ! unat m' \<Longrightarrow> m = m'"
proof -
  from assms have "inj_on (\<lambda>m. workerhandles s ! unat m) (set mids)"
    unfolding table_inv_def distinct_map by blast
  then show "m \<in> set mids \<Longrightarrow> m' \<in> set mids \<Longrightarrow> workerhandles s ! unat m = workerhandles s ! unat m' \<Longrightarrow> m = m'"
    by (rule inj_onD)
qed (use assms in \<open>unfold table_inv_def, blast\<close>)+

lemma probe_less [simp]: "probe h k < THREAD_ARRAY_MAX_ID"
  by (simp add: probe_def THREAD_ARRAY_MAX_ID_def)

lemma probe_onto:
  assumes "i < THREAD_ARRAY_MAX_ID"
  shows "\<exists>k < THREAD_ARRAY_MAX_ID. probe h k = i"
proof -
  let ?g = "get_slot h" and ?n = THREAD_ARRAY_MAX_ID
  have g: "?g < ?n" by (rule slots_agree)
  have "probe h (if ?g \<le> i then i - ?g else i + ?n - ?g) = i"
    using assms g by (auto simp: probe_def)
  moreover have "(if ?g \<le> i then i - ?g else i + ?n - ?g) < ?n" using assms g by auto
  ultimately show ?thesis by blast
qed

lemma table_free:
  assumes "table_inv mids s" "length mids < THREAD_ARRAY_MAX_ID"
  obtains i where "i < THREAD_ARRAY_MAX_ID" "ulThreadId s ! i = NO_THREAD"
proof -
  have "\<exists>i < THREAD_ARRAY_MAX_ID. ulThreadId s ! i = NO_THREAD"
  proof (rule ccontr)
    assume a: "\<not> (\<exists>i < THREAD_ARRAY_MAX_ID. ulThreadId s ! i = NO_THREAD)"
    then have "inj_on (\<lambda>i. ulThreadId s ! i) {..<THREAD_ARRAY_MAX_ID}"
      "(\<lambda>i. ulThreadId s ! i) ` {..<THREAD_ARRAY_MAX_ID} \<subseteq> set mids"
      using assms(1) by (auto simp: table_inv_def inj_on_def)
    then have "card {..<THREAD_ARRAY_MAX_ID} \<le> card (set mids)"
      by (intro card_inj_on_le) auto
    with assms(2) card_length[of mids] show False by simp
  qed
  with that show thesis by blast
qed

lemma thread_started_inv:
  assumes "table_inv mids s" "m \<notin> set mids" "unat m < length (workerhandles s)" "m \<noteq> NO_THREAD"
    "h \<notin> (\<lambda>m. workerhandles s ! unat m) ` set mids" "length mids < THREAD_ARRAY_MAX_ID"
  defines "s' \<equiv> thread_started (m, h) s"
  shows "table_inv (m # mids) s' \<and> workerhandles s' = (workerhandles s)[unat m := h] \<and>
    g_ulMidCounts s' = g_ulMidCounts s + 1"
proof -
  let ?n = THREAD_ARRAY_MAX_ID and ?T = "ulThreadId s" and ?H = "(workerhandles s)[unat m := h]"
  have I: "length ?T = ?n" "\<And>i. i < ?n \<Longrightarrow> ?T ! i \<noteq> NO_THREAD \<Longrightarrow> ?T ! i \<in> set mids"
    using assms(1) by (auto simp: table_inv_def)
  let ?P = "\<lambda>k. ?T ! probe h k = NO_THREAD"
  obtain i where "i < ?n" "?T ! i = NO_THREAD" by (rule table_free[OF assms(1,6)])
  then have "\<exists>k < ?n. ?P k" using probe_onto[of i h] by blast
  then have "find ?P [0..<?n] \<noteq> None" by (auto simp: find_None_iff)
  then obtain k where f: "find ?P [0..<?n] = Some k" by blast
  then have k: "k < ?n" "?P k" "\<forall>j < k. \<not> ?P j" by (auto simp: find_Some_iff)
  have s': "s' = s\<lparr>workerhandles := ?H, ulThreadId := ?T[probe h k := m], g_ulMidCounts := g_ulMidCounts s + 1\<rparr>"
    using assms(3) f by (simp add: s'_def thread_started_def set_by_probe Let_def)
  have same: "?H ! unat m' = workerhandles s ! unat m'" if "m' \<in> set mids" for m'
    using that assms(2) by (metis nth_list_update_neq word_unat_eq_iff)
  have dist: "distinct (map (\<lambda>m. ?H ! unat m) (m # mids))"
  proof -
    have "map (\<lambda>m. ?H ! unat m) mids = map (\<lambda>m. workerhandles s ! unat m) mids" using same by simp
    moreover have "h \<notin> set (map (\<lambda>m. workerhandles s ! unat m) mids)" using assms(5) by auto
    moreover have "distinct (map (\<lambda>m. workerhandles s ! unat m) mids)" using assms(1) by (simp add: table_inv_def)
    ultimately show ?thesis using assms(3) by (simp only: list.map distinct.simps nth_list_update_eq simp_thms)
  qed
  have old: "\<exists>k' < ?n. ?T[probe h k := m] ! probe (?H ! unat m') k' = m' \<and>
      (\<forall>j < k'. ?T[probe h k := m] ! probe (?H ! unat m') j \<noteq> NO_THREAD)" if m': "m' \<in> set mids" for m'
  proof -
    obtain k' where k': "k' < ?n" "?T ! probe (?H ! unat m') k' = m'"
      "\<forall>j < k'. ?T ! probe (?H ! unat m') j \<noteq> NO_THREAD"
      using assms(1) m' same[OF m'] by (auto simp: table_inv_def)
    have "m' \<noteq> NO_THREAD" using assms(1) m' by (auto simp: table_inv_def)
    with k'(2) k(2) have "probe (?H ! unat m') k' \<noteq> probe h k" by auto
    with k' assms(4) show ?thesis
      by (intro exI[of _ k']) (auto simp: nth_list_update I(1))
  qed
  have new: "\<exists>k' < ?n. ?T[probe h k := m] ! probe (?H ! unat m) k' = m \<and>
      (\<forall>j < k'. ?T[probe h k := m] ! probe (?H ! unat m) j \<noteq> NO_THREAD)"
    using k assms(3,4) by (intro exI[of _ k]) (auto simp: nth_list_update I(1))
  have inj: "i = j" if "i < ?n" "j < ?n" "?T[probe h k := m] ! i \<noteq> NO_THREAD"
      "?T[probe h k := m] ! i = ?T[probe h k := m] ! j" for i j
  proof -
    have fresh: "?T ! j' \<noteq> m" if "j' < ?n" for j'
      using I(2)[OF that] assms(2,4) by auto
    show ?thesis
      using that table_invD(4)[OF assms(1) that(1,2)] fresh[OF that(1)] fresh[OF that(2)]
      by (cases "i = probe h k"; cases "j = probe h k") (simp_all add: I(1))
  qed
  have mids: "\<forall>m' \<in> set (m # mids). unat m' < length ?H \<and> m' \<noteq> NO_THREAD"
    using assms(1,3,4) by (auto simp: table_inv_def)
  have entries: "\<forall>i < ?n. ?T[probe h k := m] ! i \<noteq> NO_THREAD \<longrightarrow> ?T[probe h k := m] ! i \<in> set (m # mids)"
    using I by (auto simp: nth_list_update)
  have "table_inv (m # mids) s'"
    unfolding table_inv_def s' using mids entries dist old new I(1)
    by (simp add: inj)
  then show ?thesis by (simp add: s')
qed

section \<open>Finding a module\<close>

text \<open>\<open>workerhandles\<close> is injective on the entered modules, so the first handle that fits is the right one.\<close>

lemma get_probe_finds:
  assumes "table_inv mids s" "m \<in> set mids" "workerhandles s ! unat m = h"
    "ulThreadId s ! probe h k = m" "\<forall>j < k. a \<le> j \<longrightarrow> ulThreadId s ! probe h j \<noteq> NO_THREAD"
    "a \<le> k" "k < b"
  shows "get_probe s h (get_slot h) [a..<b] = m"
  using assms(5,6)
proof (induction "k - a" arbitrary: a)
  case 0
  then have "a = k" by simp
  moreover have "m \<noteq> NO_THREAD" using assms(1,2) by (auto simp: table_inv_def)
  ultimately show ?case
    using assms(3,4,7) by (simp add: upt_conv_Cons probe_def Let_def)
next
  case (Suc d)
  let ?x = "ulThreadId s ! probe h a"
  have x: "?x \<noteq> NO_THREAD" using Suc by auto
  then have "?x \<in> set mids" using table_invD(3)[OF assms(1)] by simp
  then have "h = workerhandles s ! unat ?x \<Longrightarrow> ?x = m"
    using table_invD(5)[OF assms(1), of ?x m] assms(2,3) by simp
  moreover have "get_probe s h (get_slot h) [Suc a..<b] = m"
    using Suc.hyps(2) Suc.prems by (intro Suc.hyps(1)) auto
  moreover have "[a..<b] = a # [Suc a..<b]" using Suc.hyps(2) assms(7) by (intro upt_conv_Cons) simp
  ultimately show ?case using x by (cases "h = workerhandles s ! unat ?x") (simp_all add: probe_def[symmetric] Let_def)
qed

lemma get_probe_misses:
  assumes "table_inv mids s" "h \<notin> (\<lambda>m. workerhandles s ! unat m) ` set mids"
  shows "get_probe s h (get_slot h) ks = NO_MID"
proof (induction ks)
  case (Cons k ks)
  have "ulThreadId s ! probe h k \<noteq> NO_THREAD \<Longrightarrow> ulThreadId s ! probe h k \<in> set mids"
    using assms(1) by (simp add: table_inv_def)
  with Cons assms(2) show ?case by (auto simp: probe_def[symmetric] Let_def)
qed simp

text \<open>Starting threads one after another, from the cleared table.\<close>

definition threads_ok :: "nat \<Rightarrow> (U32 \<times> U64) list \<Rightarrow> bool" where
  "threads_ok n ts \<longleftrightarrow> n \<le> THREAD_ARRAY_MAX_ID \<and> distinct (map fst ts) \<and> distinct (map snd ts) \<and>
     (\<forall>t \<in> set ts. unat (fst t) < n)"

lemma threads_inv:
  fixes s0 :: thread_table
  assumes "threads_ok n ts"
  defines "s \<equiv> fold thread_started ts (thread_mid_init n s0)"
  shows "table_inv (rev (map fst ts)) s \<and> length (workerhandles s) = n \<and>
    (\<forall>t \<in> set ts. workerhandles s ! unat (fst t) = snd t) \<and>
    g_ulMidCounts s = g_ulMidCounts s0 + of_nat (length ts)"
  using assms(1) unfolding s_def
proof (induction ts rule: rev_induct)
  case Nil
  show ?case
    by (auto simp: table_inv_def thread_mid_init_def)
next
  case (snoc t ts)
  let ?s = "fold thread_started ts (thread_mid_init n s0)"
  obtain m h where t: "t = (m, h)" by fastforce
  have IH: "table_inv (rev (map fst ts)) ?s" "length (workerhandles ?s) = n"
    "\<forall>t \<in> set ts. workerhandles ?s ! unat (fst t) = snd t" "g_ulMidCounts ?s = g_ulMidCounts s0 + of_nat (length ts)"
    using snoc by (auto simp: threads_ok_def)
  have m: "m \<notin> set (rev (map fst ts))" "unat m < length (workerhandles ?s)"
    using snoc.prems t IH(2) by (auto simp: threads_ok_def)
  have nm: "m \<noteq> NO_THREAD"
    using m(2) IH(2) snoc.prems by (auto simp: threads_ok_def NO_THREAD_def THREAD_ARRAY_MAX_ID_def)
  have h: "h \<notin> (\<lambda>m. workerhandles ?s ! unat m) ` set (rev (map fst ts))"
    using snoc.prems t IH(3) by (force simp: threads_ok_def)
  have "card (unat ` fst ` set (ts @ [t])) \<le> card {..<n}"
    using snoc.prems by (intro card_mono) (auto simp: threads_ok_def)
  moreover have "card (unat ` fst ` set (ts @ [t])) = length (ts @ [t])"
  proof -
    have "distinct (map fst (ts @ [t]))" using snoc.prems by (simp add: threads_ok_def)
    then have "distinct (map unat (map fst (ts @ [t])))"
      by (subst distinct_map) (simp add: inj_on_def word_unat_eq_iff[symmetric] del: map_append)
    from distinct_card[OF this] show ?thesis by (simp only: set_map length_map)
  qed
  ultimately have l: "length (rev (map fst ts)) < THREAD_ARRAY_MAX_ID"
    using snoc.prems by (simp add: threads_ok_def)
  note st = thread_started_inv[OF IH(1) m nm h l]
  have "workerhandles (thread_started t ?s) ! unat (fst t') = snd t'" if "t' \<in> set (ts @ [t])" for t'
  proof (cases "t' = t")
    case True
    then show ?thesis using st m(2) t by simp
  next
    case False
    then have "fst t' \<noteq> m" "t' \<in> set ts" using that snoc.prems t by (auto simp: threads_ok_def)
    then have "unat (fst t') \<noteq> unat m" by (simp add: word_unat_eq_iff)
    with \<open>t' \<in> set ts\<close> show ?thesis using st IH(3) t by simp
  qed
  then show ?case using st IH(2,4) t by simp
qed

text \<open>
  C39. The table of threads.  After any number of modules have been started one after another,
  in any order and whatever slots their handles collide in, every started thread finds exactly
  its own module, every other thread is told that it has none, and the count is the number of
  modules.
\<close>

theorem thread_mid_lookup:
  fixes s0 :: thread_table
  assumes "threads_ok n ts"
  defines "s \<equiv> fold thread_started ts (thread_mid_init n s0)"
  shows "(\<forall>(m, h) \<in> set ts. pf_get_thread_mid h s = m) \<and>
    (\<forall>h. h \<notin> snd ` set ts \<longrightarrow> pf_get_thread_mid h s = NO_MID) \<and>
    pf_get_thread_mid_num s = g_ulMidCounts s0 + of_nat (length ts)"
proof -
  have I: "table_inv (rev (map fst ts)) s" "\<forall>t \<in> set ts. workerhandles s ! unat (fst t) = snd t"
    "g_ulMidCounts s = g_ulMidCounts s0 + of_nat (length ts)"
    using threads_inv[OF assms(1), of s0] by (simp_all add: s_def)
  have found: "pf_get_thread_mid h s = m" if "(m, h) \<in> set ts" for m h
  proof -
    have m: "m \<in> set (rev (map fst ts))" and h: "workerhandles s ! unat m = h" using that I(2) by force+
    obtain k where "k < THREAD_ARRAY_MAX_ID" "ulThreadId s ! probe h k = m"
      "\<forall>j < k. ulThreadId s ! probe h j \<noteq> NO_THREAD"
      using I(1) m h unfolding table_inv_def by blast
    then show ?thesis
      unfolding get_by_probe by (intro get_probe_finds[OF I(1) m h]) auto
  qed
  have "pf_get_thread_mid h s = NO_MID" if "h \<notin> snd ` set ts" for h
    unfolding get_by_probe using that I(2) by (intro get_probe_misses[OF I(1)]) force
  with found I(3) show ?thesis by (auto simp: pf_get_thread_mid_num_def)
qed

text \<open>Two threads whose handles collide in slot 3.\<close>

lemma thread_mid_lookup_witness:
  "\<exists>s. pf_get_thread_mid 0x300000 s = 4 \<and> pf_get_thread_mid 0x7F0020300000 s = 5 \<and> pf_get_thread_mid 0 s = NO_MID"
proof -
  have "threads_ok 94 [(4, 0x300000), (5, 0x7F0020300000)]"
    by (simp add: threads_ok_def THREAD_ARRAY_MAX_ID_def)
  from thread_mid_lookup[OF this, of undefined] show ?thesis by auto
qed

end
