(* ===== verification/Timer_Service.thy ===== *)
theory Timer_Service
  imports Timer_Properties Mbox_Properties
begin

text \<open>
  The timer service, \<open>platform/linux/pf_timer_service_linux_signal.cpp\<close>: the functions the modules
  call to start, stop, restart and query timers, and the timer thread that turns wake-ups of the
  timer descriptor into ticks.  Here the timer manager meets the mailboxes: the receiver of an
  expiry is \<open>pf_copy_try_msg\<close>.  The part of the thread for frame reports (\<open>DRC_PROCESS\<close> only), the
  trace buffer and the thread monitor are left out.
\<close>

section \<open>Expiry messages\<close>

definition MODULE_TIMER :: U32 where "MODULE_TIMER = 91"
definition TIMER_EXPIRY_MSG :: U32 where "TIMER_EXPIRY_MSG = 0xFF02"

text \<open>The memory of a \<open>TIMER_EXPIRE_MSG_S\<close> on a little-endian machine.\<close>

definition expire_bytes :: "timer_expire_msg \<Rightarrow> U8 list" where
  "expire_bytes m = le_bytes 4 (ulTimerId m) @ le_bytes 4 (ulTypeId m) @ le_bytes 8 (ullPara m)"

text \<open>The call of \<open>pf_copy_try_msg\<close> in \<open>tm_expire_timer\<close>; \<open>ticks\<close> is the time stamp of the message.
  Sixteen bytes need no memory from the heap.\<close>

definition timer_send :: "U32 \<Rightarrow> mbox_sys sender" where
  "timer_send ticks moduleId msg s =
     (case pf_copy_try_msg None ticks MODULE_TIMER TIMER_EXPIRY_MSG moduleId (Some (expire_bytes msg)) 16 s of
        (ret, s) \<Rightarrow> (ret = PF_RET_SUCCESS, s))"

section \<open>The service\<close>

record timer_service =
  g_u32TimerServiceEnabled :: bool
  g_stTimerManager1ms :: timer_manager

definition PF_MAX_TIMER_NUM_1MS :: int where "PF_MAX_TIMER_NUM_1MS = 1000"
definition PF_HASH_TABLE_SIZE_1MS :: U32 where "PF_HASH_TABLE_SIZE_1MS = 8192"
definition PF_TIMER_TICK_INTERVAL_1MS :: U32 where "PF_TIMER_TICK_INTERVAL_1MS = 1"

text \<open>\<open>slTime\<close> is the configured number of timers, the flags tell whether the allocations, the
  creation of the timer descriptor and its arming succeed.\<close>

definition pf_timer_init ::
  "bool \<Rightarrow> bool \<Rightarrow> bool \<Rightarrow> bool \<Rightarrow> int \<Rightarrow> timer_service \<Rightarrow> int \<times> timer_service" where
  "pf_timer_init arr_ok tbl_ok create_ok settime_ok slTime s =
     (let slTime = (if slTime \<le> 0 then PF_MAX_TIMER_NUM_1MS else slTime);
          s = s\<lparr>g_u32TimerServiceEnabled := False\<rparr>;
          (u32Rslt, mgr) = tm_init_timer_manager arr_ok tbl_ok (Some (g_stTimerManager1ms s)) (word_of_int slTime)
                             PF_HASH_TABLE_SIZE_1MS PF_TIMER_TICK_INTERVAL_1MS;
          s = s\<lparr>g_stTimerManager1ms := the mgr\<rparr>
      in if PF_TIMER_SUCCESS \<noteq> u32Rslt then (PF_RET_FAILURE, s)
         else if \<not> create_ok then (PF_RET_FAILURE, s)
         else if \<not> settime_ok then (PF_RET_FAILURE, s)
         else (PF_RET_SUCCESS, s\<lparr>g_u32TimerServiceEnabled := True\<rparr>))"

text \<open>The functions that set a timer also return what they write to \<open>*pulTimerId\<close>; \<open>idp\<close> tells
  whether that pointer is not null.\<close>

definition pf_timer_start ::
  "U32 \<Rightarrow> U32 \<Rightarrow> U32 \<Rightarrow> U64 \<Rightarrow> bool \<Rightarrow> timer_service \<Rightarrow> PF_TIMER_RETURN_VALUE_E \<times> U32 option \<times> timer_service" where
  "pf_timer_start srcModuleId ulDuration typeId ullParam idp s =
     (if \<not> g_u32TimerServiceEnabled s then (PF_TIMER_OUT_OF_SERVICE, None, s)
      else if srcModuleId \<ge> MODULE_MAX \<or> \<not> idp then (PF_TIMER_PARAM_ERROR, None, s)
      else case tm_set_timer srcModuleId (ulDuration + 1) typeId ullParam C_FALSE (g_stTimerManager1ms s) of
        (r, timerId, t) \<Rightarrow> (r, timerId, s\<lparr>g_stTimerManager1ms := t\<rparr>))"

definition pf_timer_cycle_start ::
  "U32 \<Rightarrow> U32 \<Rightarrow> U32 \<Rightarrow> U64 \<Rightarrow> bool \<Rightarrow> timer_service \<Rightarrow> PF_TIMER_RETURN_VALUE_E \<times> U32 option \<times> timer_service" where
  "pf_timer_cycle_start srcModuleId ulDuration typeId ullParam idp s =
     (if \<not> g_u32TimerServiceEnabled s then (PF_TIMER_OUT_OF_SERVICE, None, s)
      else if srcModuleId \<ge> MODULE_MAX \<or> \<not> idp \<or> ulDuration = 0 then (PF_TIMER_PARAM_ERROR, None, s)
      else case tm_set_timer srcModuleId ulDuration typeId ullParam C_TRUE (g_stTimerManager1ms s) of
        (r, timerId, t) \<Rightarrow> (r, timerId, s\<lparr>g_stTimerManager1ms := t\<rparr>))"

definition pf_timer_stop ::
  "U32 \<Rightarrow> U32 \<Rightarrow> timer_service \<Rightarrow> PF_TIMER_RETURN_VALUE_E \<times> timer_service" where
  "pf_timer_stop timerId srcModuleId s =
     (if \<not> g_u32TimerServiceEnabled s then (PF_TIMER_OUT_OF_SERVICE, s)
      else case tm_kill_timer timerId srcModuleId (g_stTimerManager1ms s) of
        (r, t) \<Rightarrow> (r, s\<lparr>g_stTimerManager1ms := t\<rparr>))"

definition pf_is_set_timer_internal :: "U32 \<Rightarrow> U32 \<Rightarrow> timer_service \<Rightarrow> PF_TIMER_RETURN_VALUE_E" where
  "pf_is_set_timer_internal timerId moduleId s =
     (if \<not> g_u32TimerServiceEnabled s then PF_TIMER_OUT_OF_SERVICE
      else tm_is_set_timer timerId moduleId (g_stTimerManager1ms s))"

definition pf_timer_restart ::
  "U32 \<Rightarrow> U32 \<Rightarrow> timer_service \<Rightarrow> PF_TIMER_RETURN_VALUE_E \<times> timer_service" where
  "pf_timer_restart timerId srcModuleId s =
     (if \<not> g_u32TimerServiceEnabled s then (PF_TIMER_OUT_OF_SERVICE, s)
      else case tm_restart_timer timerId srcModuleId (g_stTimerManager1ms s) of
        (r, t) \<Rightarrow> (r, s\<lparr>g_stTimerManager1ms := t\<rparr>))"

text \<open>One turn of the loop of the timer thread.  \<open>read\<close> is what was read from the descriptor: the
  number of expirations, or nothing when the read failed.  \<open>None\<close> as a result means that a tick
  did not end.\<close>

definition pf_timer_turn ::
  "U32 \<Rightarrow> U64 option \<Rightarrow> timer_service \<times> mbox_sys \<Rightarrow> (timer_service \<times> mbox_sys) option" where
  "pf_timer_turn ticks read st =
     (case read of
        None \<Rightarrow> Some st
      | Some e \<Rightarrow>
        (case tm_ticks (timer_send ticks) (unat (ucast e :: U32)) (g_stTimerManager1ms (fst st)) (snd st) of
           None \<Rightarrow> None
         | Some (t, m) \<Rightarrow> Some ((fst st)\<lparr>g_stTimerManager1ms := t\<rparr>, m)))"

section \<open>Sending an expiry\<close>

lemma expire_bytes_length [simp]: "length (expire_bytes m) = 16"
  by (simp add: expire_bytes_def le_bytes_def)

lemma expire_args: "send_args_ok None (Some (expire_bytes msg)) 16 s"
  "send_checks None dst (Some (expire_bytes msg)) 16 s \<longleftrightarrow> dst < MODULE_MAX \<and> msgQArray s ! unat dst \<noteq> None"
  "data_of (Some (expire_bytes msg)) = expire_bytes msg"
  by (simp_all add: send_args_ok_def send_checks_def SHORT_PACK_SIZE_def data_of_def)

definition expiry_amsg :: "U32 \<Rightarrow> U32 \<Rightarrow> timer_expire_msg \<Rightarrow> amsg" where
  "expiry_amsg ticks moduleId msg = (MODULE_TIMER, TIMER_EXPIRY_MSG, moduleId, expire_bytes msg, ticks)"

text \<open>The expiry is taken exactly when its module has a mailbox with room.\<close>

definition takes :: "mbox_sys \<Rightarrow> U32 \<Rightarrow> bool" where
  "takes s m \<longleftrightarrow> m < MODULE_MAX \<and> has_room s m"

lemma timer_send_eq:
  assumes "sys_ok s"
  shows "fst (timer_send ticks m msg s) = takes s m" "sys_ok (snd (timer_send ticks m msg s))"
    "\<not> takes s m \<Longrightarrow> snd (timer_send ticks m msg s) = s"
    "takes s m \<Longrightarrow> sys_view (snd (timer_send ticks m msg s)) =
       (sys_view s)[unat m := Some (the (sys_view s ! unat m) @ [expiry_amsg ticks m msg])]"
proof -
  let ?c = "send_checks None m (Some (expire_bytes msg)) 16 s"
  have take: "takes s m \<Longrightarrow> ?c" by (auto simp: takes_def expire_args has_room_def split: option.splits)
  have "fst (timer_send ticks m msg s) = takes s m \<and> sys_ok (snd (timer_send ticks m msg s)) \<and>
    (\<not> takes s m \<longrightarrow> snd (timer_send ticks m msg s) = s) \<and>
    (takes s m \<longrightarrow> sys_view (snd (timer_send ticks m msg s)) =
       (sys_view s)[unat m := Some (the (sys_view s ! unat m) @ [expiry_amsg ticks m msg])])"
  proof (cases ?c)
    case False
    then show ?thesis using take assms by (auto simp: timer_send_def send_rejected PF_RET_FAILURE_def PF_RET_SUCCESS_def)
  next
    case True
    obtain q where q: "msgQArray s ! unat m = Some q" "mbox_shape q" and room: "has_room s m \<longleftrightarrow> \<not> mbox_full q"
      by (rule send_queue[OF assms True])
    have t: "takes s m \<longleftrightarrow> \<not> mbox_full q" using True room by (simp add: takes_def expire_args)
    show ?thesis
      using send_steps(1)[OF True expire_args(1) q] send_effect(1,2)[OF assms expire_args(1) True q(1)] t assms
      by (auto simp: timer_send_def PF_RET_FAILURE_def PF_RET_SUCCESS_def send_msg_def expiry_amsg_def expire_args)
  qed
  then show "fst (timer_send ticks m msg s) = takes s m" "sys_ok (snd (timer_send ticks m msg s))"
    "\<not> takes s m \<Longrightarrow> snd (timer_send ticks m msg s) = s"
    "takes s m \<Longrightarrow> sys_view (snd (timer_send ticks m msg s)) =
       (sys_view s)[unat m := Some (the (sys_view s ! unat m) @ [expiry_amsg ticks m msg])]" by blast+
qed

lemma timer_send_other:
  assumes "m' \<noteq> m"
  shows "takes (snd (timer_send ticks m msg s)) m' = takes s m'"
proof -
  have "unat m' \<noteq> unat m" using assms by (simp add: word_unat_eq_iff)
  then have "msgQArray (snd (timer_send ticks m msg s)) ! unat m' = msgQArray s ! unat m'"
    by (simp add: timer_send_def pf_copy_try_msg_def SHORT_PACK_SIZE_def case_prod_beta Let_def split: option.split)
  then show ?thesis by (simp add: takes_def has_room_def)
qed

text \<open>A full mailbox does not get room by sending.\<close>

lemma timer_send_takes:
  assumes "sys_ok s" "\<not> takes s m'"
  shows "\<not> takes (snd (timer_send ticks m msg s)) m'"
  using timer_send_other[of m' m ticks msg s] timer_send_eq(3)[OF assms(1), of m ticks msg] assms(2)
  by (cases "m' = m") auto

section \<open>What a tick puts into the mailboxes\<close>

text \<open>The units of \<open>ds\<close> whose messages are taken, in order, and the mailboxes after them.\<close>

fun taken_units :: "U32 \<Rightarrow> timer_unit list \<Rightarrow> nat list \<Rightarrow> mbox_sys \<Rightarrow> nat list" where
  "taken_units ticks arr [] s = []"
| "taken_units ticks arr (d # ds) s =
     (let (ok, s') = tm_send_to (timer_send ticks) (arr ! d) s
      in (if ok then [d] else []) @ taken_units ticks arr ds s')"

definition expiry_of :: "U32 \<Rightarrow> timer_unit \<Rightarrow> amsg" where
  "expiry_of ticks u = expiry_amsg ticks (u32ModuleId u) (stTmExpMsg u)"

lemma taken_units_filter:
  assumes "distinct ds"
  shows "taken_units ticks arr ds s = filter (tm_taken (timer_send ticks) arr ds s) ds"
  using assms
proof (induction ds arbitrary: s)
  case (Cons d ds)
  let ?s = "snd (tm_send_to (timer_send ticks) (arr ! d) s)"
  have "tm_taken (timer_send ticks) arr (d # ds) s i = tm_taken (timer_send ticks) arr ds ?s i" if "i \<in> set ds" for i
    using that Cons.prems by (auto simp: tm_taken_def timer_simps)
  then have "filter (tm_taken (timer_send ticks) arr (d # ds) s) ds = filter (tm_taken (timer_send ticks) arr ds ?s) ds"
    by (intro filter_cong) simp_all
  moreover have "tm_taken (timer_send ticks) arr (d # ds) s d = fst (tm_send_to (timer_send ticks) (arr ! d) s)"
    by (simp add: tm_taken_def timer_simps)
  ultimately show ?case using Cons by (simp add: Let_def case_prod_beta)
qed simp

lemma sys_view_queue: "sys_ok s \<Longrightarrow> m < MODULE_TASK_MAX \<Longrightarrow> sys_view s ! m = None \<longleftrightarrow> msgQArray s ! m = None"
  by (simp add: sys_view_def sys_ok_def)

lemma deliver_view:
  assumes "sys_ok s"
  shows "sys_ok (tm_deliver (timer_send ticks) arr ds s) \<and>
    length (sys_view (tm_deliver (timer_send ticks) arr ds s)) = length (sys_view s) \<and>
    (\<forall>m < MODULE_TASK_MAX. sys_view (tm_deliver (timer_send ticks) arr ds s) ! m =
       map_option (\<lambda>v. v @ map (\<lambda>i. expiry_of ticks (arr ! i))
           (filter (\<lambda>i. unat (u32ModuleId (arr ! i)) = m) (taken_units ticks arr ds s))) (sys_view s ! m))"
  using assms
proof (induction ds arbitrary: s)
  case Nil
  then show ?case by (simp add: timer_simps option.map_ident)
next
  case (Cons d ds)
  let ?u = "arr ! d"
  let ?m = "u32ModuleId ?u"
  let ?s = "snd (tm_send_to (timer_send ticks) ?u s)"
  note e = timer_send_eq[OF Cons.prems, where ticks = ticks and m = ?m and msg = "stTmExpMsg ?u", folded tm_send_to_def]
  note IH = Cons.IH[OF e(2)]
  have t: "taken_units ticks arr (d # ds) s = (if takes s ?m then [d] else []) @ taken_units ticks arr ds ?s"
    using e(1) by (simp add: Let_def case_prod_beta)
  have len: "length (sys_view s) = MODULE_TASK_MAX" using Cons.prems by (simp add: sys_view_def sys_ok_def)
  show ?case
  proof (cases "takes s ?m")
    case False
    then show ?thesis using IH e(3) t by (simp add: timer_simps)
  next
    case True
    then have m: "unat ?m < MODULE_TASK_MAX" "msgQArray s ! unat ?m \<noteq> None"
      by (auto simp: takes_def dst_bound has_room_def split: option.splits)
    then obtain v where v: "sys_view s ! unat ?m = Some v"
      using sys_view_queue[OF Cons.prems m(1)] by auto
    show ?thesis
      using IH e(4)[OF True] t v True m(1) len
      by (auto simp: timer_simps nth_list_update expiry_of_def option.map_comp comp_def)
  qed
qed

lemma deliver_takes:
  assumes "sys_ok s" "\<not> takes s m"
  shows "\<not> takes (tm_deliver (timer_send ticks) arr ds s) m"
  using assms
proof (induction ds arbitrary: s)
  case (Cons d ds)
  then show ?case
    using timer_send_takes timer_send_eq(2) by (simp add: timer_simps tm_send_to_def)
qed (simp add: timer_simps)

lemma refused_full:
  assumes "sys_ok s" "i \<in> set ds" "i \<notin> set (taken_units ticks arr ds s)"
  shows "\<not> takes (tm_deliver (timer_send ticks) arr ds s) (u32ModuleId (arr ! i))"
  using assms
proof (induction ds arbitrary: s)
  case (Cons d ds)
  let ?m = "u32ModuleId (arr ! d)" and ?msg = "stTmExpMsg (arr ! d)"
  let ?s = "snd (timer_send ticks ?m ?msg s)"
  have ok: "sys_ok ?s" by (rule timer_send_eq(2)[OF Cons.prems(1)])
  have t: "taken_units ticks arr (d # ds) s = (if takes s ?m then [d] else []) @ taken_units ticks arr ds ?s"
    using timer_send_eq(1)[OF Cons.prems(1), of ticks ?m ?msg] by (simp add: Let_def case_prod_beta tm_send_to_def)
  show ?case
  proof (cases "i \<in> set ds")
    case True
    have "i \<notin> set (taken_units ticks arr ds ?s)" using Cons.prems(3) unfolding t by auto
    from Cons.IH[OF ok True this] show ?thesis by (simp add: timer_simps tm_send_to_def)
  next
    case False
    with Cons.prems(2,3) have "i = d" "\<not> takes s ?m" unfolding t by (auto split: if_splits)
    then have "\<not> takes ?s ?m" using timer_send_takes[OF Cons.prems(1)] by simp
    from deliver_takes[OF ok this] \<open>i = d\<close> show ?thesis by (simp add: timer_simps tm_send_to_def)
  qed
qed simp

section \<open>The service keeps its invariant\<close>

text \<open>Once it is enabled, the manager of the service is well formed and no periodic timer of duration
  zero runs.\<close>

definition service_ok :: "timer_service \<Rightarrow> bool" where
  "service_ok s \<longleftrightarrow> (g_u32TimerServiceEnabled s \<longrightarrow>
     tm_wf (g_stTimerManager1ms s) \<and> tm_no_zero_cycle (g_stTimerManager1ms s))"

text \<open>What the modules and the timer thread can do, one after another; each function holds the mutex
  of the manager.  The mailboxes may also be changed by anybody else at any time.\<close>

inductive service_step :: "timer_service \<times> mbox_sys \<Rightarrow> timer_service \<times> mbox_sys \<Rightarrow> bool" where
  start: "pf_timer_start m d ty p idp s = (r, i, s') \<Longrightarrow> service_step (s, e) (s', e)"
| cycle_start: "pf_timer_cycle_start m d ty p idp s = (r, i, s') \<Longrightarrow> service_step (s, e) (s', e)"
| stop: "pf_timer_stop i m s = (r, s') \<Longrightarrow> service_step (s, e) (s', e)"
| restart: "pf_timer_restart i m s = (r, s') \<Longrightarrow> service_step (s, e) (s', e)"
| turn: "g_u32TimerServiceEnabled s \<Longrightarrow> pf_timer_turn ticks read (s, e) = Some (s', e') \<Longrightarrow>
    service_step (s, e) (s', e')"
| others: "service_step (s, e) (s, e')"

lemma set_timer_service_ok:
  assumes "tm_wf t" "tm_no_zero_cycle t" "c = C_FALSE \<or> d \<noteq> 0" "tm_set_timer m d ty p c t = (r, i, t')"
  shows "tm_wf t'" "tm_no_zero_cycle t'"
  using tm_set_wf[OF assms(1), of m d ty p c] assms tm_set_no_zero_cycle[OF assms(2,3)]
  by (auto split: if_splits)

lemma no_zero_cycle_update:
  assumes "tm_no_zero_cycle t" "i < length (pstTimerArray t)" "pstTimerArray t' = (pstTimerArray t)[i := u]"
    "u8Running u = C_TRUE \<Longrightarrow> u8Running (pstTimerArray t ! i) = C_TRUE"
    "u8Cycle u = u8Cycle (pstTimerArray t ! i)" "u32Duration u = u32Duration (pstTimerArray t ! i)"
  shows "tm_no_zero_cycle t'"
  using assms unfolding tm_no_zero_cycle_def by (auto dest!: subsetD[OF set_update_subset_insert])

lemma kill_service_ok:
  assumes "tm_wf t" "tm_no_zero_cycle t" "tm_kill_timer i m t = (r, t')"
  shows "tm_wf t'" "tm_no_zero_cycle t'"
proof -
  have "tm_wf t' \<and> tm_no_zero_cycle t'"
  proof (cases "tm_lookup i m t = PF_TIMER_SUCCESS")
    case True
    show ?thesis
      by (rule tm_kill_wf[OF assms(1) True])
        (use assms(2,3) tm_lookup_slot(1)[OF assms(1) True] in \<open>auto intro: no_zero_cycle_update\<close>)
  qed (use assms tm_kill_unchanged(2)[of i m t] in auto)
  then show "tm_wf t'" "tm_no_zero_cycle t'" by simp_all
qed

lemma restart_service_ok:
  assumes "tm_wf t" "tm_no_zero_cycle t" "tm_restart_timer i m t = (r, t')"
  shows "tm_wf t'" "tm_no_zero_cycle t'"
proof -
  have "tm_wf t' \<and> tm_no_zero_cycle t'"
  proof (cases "tm_lookup i m t = PF_TIMER_SUCCESS")
    case True
    show ?thesis
      by (rule tm_restart_wf[OF assms(1) True])
        (use assms(2,3) tm_lookup_slot(1)[OF assms(1) True] in \<open>auto intro: no_zero_cycle_update\<close>)
  qed (use assms tm_restart_unchanged(2)[of i m t] in auto)
  then show "tm_wf t'" "tm_no_zero_cycle t'" by simp_all
qed

lemma ticks_service_ok:
  assumes "tm_wf t" "tm_no_zero_cycle t"
  shows "\<exists>t' e'. tm_ticks send n t e = Some (t', e') \<and> tm_wf t' \<and> tm_no_zero_cycle t'"
proof (induction n)
  case (Suc n)
  then obtain t' e' where t': "tm_ticks send n t e = Some (t', e')" "tm_wf t'" "tm_no_zero_cycle t'" by blast
  show ?case by (rule tm_tick_wf[OF t'(2,3), of send e']) (use t' in auto)
qed (use assms in simp)

lemma turn_service_ok:
  assumes "service_ok s" "g_u32TimerServiceEnabled s"
  shows "\<exists>s' e'. pf_timer_turn ticks read (s, e) = Some (s', e') \<and> service_ok s' \<and> g_u32TimerServiceEnabled s'"
proof (cases read)
  case (Some x)
  obtain t' e' where "tm_ticks (timer_send ticks) (unat (ucast x :: U32)) (g_stTimerManager1ms s) e = Some (t', e')"
    "tm_wf t'" "tm_no_zero_cycle t'"
    using ticks_service_ok assms by (metis service_ok_def)
  with Some assms show ?thesis by (simp add: pf_timer_turn_def service_ok_def)
qed (use assms in \<open>simp add: pf_timer_turn_def\<close>)

text \<open>The functions of the service are the operations of the manager behind the test of the flag.\<close>

definition manager_keeps :: "timer_service \<Rightarrow> timer_manager \<Rightarrow> bool" where
  "manager_keeps s t \<longleftrightarrow> (g_u32TimerServiceEnabled s \<longrightarrow> tm_wf t \<and> tm_no_zero_cycle t)"

lemma service_set_manager:
  "service_ok (s\<lparr>g_stTimerManager1ms := t\<rparr>) \<longleftrightarrow> manager_keeps s t"
  by (simp add: service_ok_def manager_keeps_def)

lemma operations_keep:
  assumes "service_ok s" "g_u32TimerServiceEnabled s"
  shows "c = C_FALSE \<or> d \<noteq> 0 \<Longrightarrow> manager_keeps s (snd (snd (tm_set_timer m d ty p c (g_stTimerManager1ms s))))"
    "manager_keeps s (snd (tm_kill_timer i m (g_stTimerManager1ms s)))"
    "manager_keeps s (snd (tm_restart_timer i m (g_stTimerManager1ms s)))"
proof -
  have ok: "tm_wf (g_stTimerManager1ms s)" "tm_no_zero_cycle (g_stTimerManager1ms s)"
    using assms by (simp_all add: service_ok_def)
  show "manager_keeps s (snd (snd (tm_set_timer m d ty p c (g_stTimerManager1ms s))))" if "c = C_FALSE \<or> d \<noteq> 0"
    using set_timer_service_ok[OF ok that, of m ty p]
    by (cases "tm_set_timer m d ty p c (g_stTimerManager1ms s)") (simp add: manager_keeps_def)
  show "manager_keeps s (snd (tm_kill_timer i m (g_stTimerManager1ms s)))"
    using kill_service_ok[OF ok, of i m]
    by (cases "tm_kill_timer i m (g_stTimerManager1ms s)") (simp add: manager_keeps_def)
  show "manager_keeps s (snd (tm_restart_timer i m (g_stTimerManager1ms s)))"
    using restart_service_ok[OF ok, of i m]
    by (cases "tm_restart_timer i m (g_stTimerManager1ms s)") (simp add: manager_keeps_def)
qed

lemma service_step_ok:
  assumes "service_step (s, e) (s', e')" "service_ok s"
  shows "service_ok s' \<and> (g_u32TimerServiceEnabled s' \<longleftrightarrow> g_u32TimerServiceEnabled s)"
  using assms(1)
proof cases
  case (start m d ty p idp r i)
  then show ?thesis
    using operations_keep(1)[OF assms(2), of C_FALSE "d + 1" m ty p] assms(2)
    by (auto simp: pf_timer_start_def service_set_manager case_prod_beta split: if_splits)
next
  case (cycle_start m d ty p idp r i)
  then show ?thesis
    using operations_keep(1)[OF assms(2), of C_TRUE d m ty p] assms(2)
    by (auto simp: pf_timer_cycle_start_def service_set_manager case_prod_beta split: if_splits)
next
  case (stop i m r)
  then show ?thesis
    using operations_keep(2)[OF assms(2), of i m] assms(2)
    by (auto simp: pf_timer_stop_def service_set_manager case_prod_beta split: if_splits)
next
  case (restart i m r)
  then show ?thesis
    using operations_keep(3)[OF assms(2), of i m] assms(2)
    by (auto simp: pf_timer_restart_def service_set_manager case_prod_beta split: if_splits)
next
  case (turn ticks read)
  with turn_service_ok[OF assms(2), of ticks read e] show ?thesis by auto
qed (use assms(2) in simp)

section \<open>Periodic timers\<close>

lemma tm_ticks_add:
  "tm_ticks send (m + n) t e = (case tm_ticks send m t e of None \<Rightarrow> None | Some (t, e) \<Rightarrow> tm_ticks send n t e)"
  by (induction n) (auto split: option.split)

lemma tm_ticks_periodic:
  assumes "tm_wf t" "tm_no_zero_cycle t" "i < length (pstTimerArray t)"
    "u8Running (pstTimerArray t ! i) = C_TRUE" "u8Cycle (pstTimerArray t ! i) \<noteq> C_FALSE"
    "u32AbsExpTick (pstTimerArray t ! i) = u32CurrentTick t + u32Duration (pstTimerArray t ! i)"
    and accept: "\<forall>m msg e. fst (send m msg e)"
  shows "\<exists>t' e' l'. tm_ticks (tm_logged send) (k * unat (u32Duration (pstTimerArray t ! i))) t (e, l) = Some (t', (e', l @ l')) \<and>
     count_list l' (u32ModuleId (pstTimerArray t ! i), stTmExpMsg (pstTimerArray t ! i)) = k"
  using assms(1-6)
proof (induction k arbitrary: t e l)
  case (Suc k)
  let ?u = "pstTimerArray t ! i"
  let ?d = "u32Duration ?u"
  have "?u \<in> set (pstTimerArray t)" using Suc.prems(3) by simp
  with Suc.prems have "?d \<noteq> 0" by (auto simp: tm_no_zero_cycle_def)
  then have d: "unat (u32AbsExpTick ?u - u32CurrentTick t) = Suc (unat ?d - 1)" "unat ?d = Suc (unat ?d - 1)"
    using Suc.prems(6) by (simp_all add: word_neq_0_conv word_less_nat_alt)
  obtain t1 e1 l1 ok where F: "tm_ticks (tm_logged send) (unat ?d) t (e, l) = Some (t1, (e1, l @ l1))"
      "tm_wf t1" "tm_no_zero_cycle t1" "length (pstTimerArray t1) = length (pstTimerArray t)"
      "count_list l1 (u32ModuleId ?u, stTmExpMsg ?u) = 1"
    and u1: "pstTimerArray t1 ! i = tm_expired_unit ok (u32CurrentTick t1) ?u" "ok"
    using tm_ticks_fire[OF Suc.prems(1-4) d(1), of send e l] d(2) accept by auto
  then have u1: "pstTimerArray t1 ! i = ?u\<lparr>u32AbsExpTick := u32CurrentTick t1 + ?d\<rparr>"
    using Suc.prems(5) by (simp add: tm_expired_unit_def)
  obtain t2 e2 l2 where "tm_ticks (tm_logged send) (k * unat ?d) t1 (e1, l @ l1) = Some (t2, (e2, (l @ l1) @ l2))"
    "count_list l2 (u32ModuleId ?u, stTmExpMsg ?u) = k"
    using Suc.IH[OF F(2,3), of e1 "l @ l1"] F(4) Suc.prems(3-5) u1 by auto
  with F(1,5) show ?case
    by (intro exI[of _ t2] exI[of _ e2] exI[of _ "l1 @ l2"]) (simp add: tm_ticks_add count_list_append)
qed simp

section \<open>Properties of the service\<close>

lemma service_init:
  assumes "slTime < 2 ^ 31"
  shows "case pf_timer_init arr_ok tbl_ok create_ok settime_ok slTime s of (r, s') \<Rightarrow>
     if slTime \<le> 16383 \<and> arr_ok \<and> tbl_ok \<and> create_ok \<and> settime_ok
     then r = PF_RET_SUCCESS \<and> g_u32TimerServiceEnabled s' \<and> service_ok s' \<and>
       int (length (pstTimerArray (g_stTimerManager1ms s'))) = (if slTime \<le> 0 then 1000 else slTime) \<and>
       (\<forall>u \<in> set (pstTimerArray (g_stTimerManager1ms s')). u8Running u = C_FALSE)
     else r = PF_RET_FAILURE \<and> \<not> g_u32TimerServiceEnabled s'"
proof -
  define n :: int where "n = (if slTime \<le> 0 then 1000 else slTime)"
  have n: "0 < n" "n < 2 ^ 31" and n_le: "n \<le> 16383 \<longleftrightarrow> slTime \<le> 16383" using assms by (auto simp: n_def)
  have u: "unat (word_of_int n :: U32) = nat n"
    using n by (simp add: unat_eq_nat_uint uint_word_of_int_eq take_bit_eq_mod)
  have args: "tm_init_args_ok (word_of_int n) PF_HASH_TABLE_SIZE_1MS PF_TIMER_TICK_INTERVAL_1MS \<longleftrightarrow> slTime \<le> 16383"
    using n n_le u
    by (auto simp: tm_init_args_ok_def PF_HASH_TABLE_SIZE_1MS_def PF_TIMER_TICK_INTERVAL_1MS_def word_le_nat_alt
        PF_TIMER_ARRAY_MAX_SIZE_def PF_TIMER_ARRAY_INDEX_MASK_def PF_TIMER_ARRAY_INDEX_BIT_LEN_def)
  define t0 where "t0 = g_stTimerManager1ms s"
  let ?init = "tm_init_timer_manager arr_ok tbl_ok (Some t0) (word_of_int n) PF_HASH_TABLE_SIZE_1MS PF_TIMER_TICK_INTERVAL_1MS"
  define s' where "s' = s\<lparr>g_u32TimerServiceEnabled := False, g_stTimerManager1ms := the (snd ?init)\<rparr>"
  have eq: "pf_timer_init arr_ok tbl_ok create_ok settime_ok slTime s =
      (if PF_TIMER_SUCCESS \<noteq> fst ?init then (PF_RET_FAILURE, s') else if \<not> create_ok then (PF_RET_FAILURE, s')
       else if \<not> settime_ok then (PF_RET_FAILURE, s') else (PF_RET_SUCCESS, s'\<lparr>g_u32TimerServiceEnabled := True\<rparr>))"
    unfolding pf_timer_init_def PF_MAX_TIMER_NUM_1MS_def n_def[symmetric] Let_def
    by (simp add: t0_def s'_def case_prod_beta)
  show ?thesis
  proof (cases "slTime \<le> 16383 \<and> arr_ok \<and> tbl_ok")
    case True
    then have args: "tm_init_args_ok (word_of_int n) PF_HASH_TABLE_SIZE_1MS PF_TIMER_TICK_INTERVAL_1MS"
      using args by simp
    obtain t' where t': "?init = (PF_TIMER_SUCCESS, Some t')" "tm_inv t' (rev [0..<unat (word_of_int n :: U32)]) [] (\<lambda>_. [])"
      "length (pstTimerArray t') = unat (word_of_int n :: U32)"
      by (rule tm_init_success[OF args, of t0]) (use True in auto)
    note idle = tm_idle[OF t'(2)]
    have "tm_wf t'" "tm_no_zero_cycle t'"
      using t'(2) idle by (auto simp: tm_wf_def tm_no_zero_cycle_def)
    then show ?thesis
      using True t'(1,3) idle u n
      unfolding eq n_def[symmetric] by (auto simp: s'_def service_ok_def)
  next
    case False
    then have "fst ?init \<noteq> PF_TIMER_SUCCESS"
      using tm_init_refused[of "word_of_int n" PF_HASH_TABLE_SIZE_1MS PF_TIMER_TICK_INTERVAL_1MS arr_ok tbl_ok t0]
        tm_init_no_memory[of "word_of_int n" PF_HASH_TABLE_SIZE_1MS PF_TIMER_TICK_INTERVAL_1MS arr_ok tbl_ok t0] args
      by (cases "slTime \<le> 16383") auto
    with False show ?thesis unfolding eq by (auto simp: s'_def)
  qed
qed

lemma service_init_ok:
  assumes "pf_timer_init arr_ok tbl_ok create_ok settime_ok slTime s0 = (PF_RET_SUCCESS, s1)" "slTime < 2 ^ 31"
  shows "service_ok s1 \<and> g_u32TimerServiceEnabled s1"
proof -
  have "PF_RET_SUCCESS \<noteq> PF_RET_FAILURE" by (simp add: PF_RET_SUCCESS_def PF_RET_FAILURE_def)
  with service_init[OF assms(2), of arr_ok tbl_ok create_ok settime_ok s0] show ?thesis
    unfolding assms(1) prod.case by (meson)
qed

text \<open>
  Starting the service succeeds exactly when at most 16383 timers are configured (1000 when
  nothing sensible is), memory is available and the timer descriptor can be created and armed.
  Then the service is enabled and consistent and no timer runs; otherwise it stays disabled.
\<close>

theorem pf_timer_init_outcome:
  assumes "slTime < 2 ^ 31"
  shows "case pf_timer_init arr_ok tbl_ok create_ok settime_ok slTime s of (r, s') \<Rightarrow>
     if slTime \<le> 16383 \<and> arr_ok \<and> tbl_ok \<and> create_ok \<and> settime_ok
     then r = PF_RET_SUCCESS \<and> g_u32TimerServiceEnabled s' \<and> service_ok s' \<and>
       int (length (pstTimerArray (g_stTimerManager1ms s'))) = (if slTime \<le> 0 then 1000 else slTime) \<and>
       (\<forall>u \<in> set (pstTimerArray (g_stTimerManager1ms s')). u8Running u = C_FALSE)
     else r = PF_RET_FAILURE \<and> \<not> g_u32TimerServiceEnabled s'"
  using assms by (rule service_init)

text \<open>
  C10. Once started, the service cannot be brought into a state in which the timer thread hangs
  or the manager is damaged: after any sequence of calls of the modules, with any arguments, of
  turns of the timer thread, and of anything that happens to the mailboxes, the manager is well
  formed, and every turn of the timer thread ends, however many expirations it has to catch up.
  The check of \<open>pf_timer_cycle_start\<close> against duration zero is what this rests on.
\<close>

theorem service_never_hangs:
  assumes "pf_timer_init arr_ok tbl_ok create_ok settime_ok slTime s0 = (PF_RET_SUCCESS, s1)" "slTime < 2 ^ 31"
    "service_step\<^sup>*\<^sup>* (s1, e1) (s, e)"
  shows "g_u32TimerServiceEnabled s \<and> tm_wf (g_stTimerManager1ms s) \<and>
    (\<forall>ticks read. pf_timer_turn ticks read (s, e) \<noteq> None)"
proof -
  have "service_ok s \<and> g_u32TimerServiceEnabled s"
    using assms(3)
  proof (induction rule: rtranclp_induct2)
    case refl
    from assms(1,2) show ?case
      using service_init_ok by blast
  next
    case (step s e s' e')
    then show ?case using service_step_ok by blast
  qed
  then show ?thesis using turn_service_ok[of s _ _ e] by (fastforce simp: service_ok_def)
qed

lemma started_unit:
  assumes "tm_wf t" "tm_set_timer m d ty p c t = (PF_TIMER_SUCCESS, Some timerId, t1)"
  obtains i where "i < length (pstTimerArray t1)" "tm_wf t1" "u32CurrentTick t1 = u32CurrentTick t"
    "pstTimerArray t1 ! i = \<lparr>u32Duration = d, u32AbsExpTick = u32CurrentTick t + d, u8Running = C_TRUE, u8Cycle = c,
       u32ModuleId = m, stTmExpMsg = \<lparr>ulTimerId = timerId, ulTypeId = ty, ullPara = p\<rparr>\<rparr>"
proof -
  have "\<not> (\<forall>u \<in> set (pstTimerArray t). u8Running u = C_TRUE)"
    using tm_set_wf[OF assms(1), of m d ty p c] assms(2) by (auto split: if_splits)
  then obtain i where "tm_wf t1" "i < length (pstTimerArray t)" "timerId = tm_fresh_id t i"
    "pstTimerArray t1 = (pstTimerArray t)[i := tm_set_unit t i m d ty p c]" "u32CurrentTick t1 = u32CurrentTick t"
    using tm_set_wf[OF assms(1), of m d ty p c] assms(2) by (simp only: if_False) auto
  then show thesis by (intro that[of i]) (simp_all add: tm_set_unit_def)
qed

text \<open>
  C34. \<open>pf_timer_start\<close> refuses a call while the service is off, for a module that has no
  mailbox, and without a place for the identifier, each with its code and without effect.
  Otherwise the outcome is that of the manager, and a timer of \<open>d\<close> milliseconds is offered to its
  module exactly once on the tick after the next \<open>d\<close> ones, never earlier: the running
  millisecond does not count.
\<close>

theorem pf_timer_start_outcome:
  assumes "service_ok s" "d \<noteq> 0xFFFFFFFF"
  shows "case pf_timer_start m d ty p idp s of (r, i, s') \<Rightarrow>
     (if \<not> g_u32TimerServiceEnabled s then r = PF_TIMER_OUT_OF_SERVICE \<and> i = None \<and> s' = s
      else if m \<ge> MODULE_MAX \<or> \<not> idp then r = PF_TIMER_PARAM_ERROR \<and> i = None \<and> s' = s
      else if i = None then r = PF_TIMER_NO_RESOURCE \<and> s' = s
      else r = PF_TIMER_SUCCESS \<and>
        (\<forall>n \<le> unat d. \<exists>t' e' offered.
           tm_ticks (tm_logged send) n (g_stTimerManager1ms s') (e, []) = Some (t', (e', offered)) \<and>
           (m, \<lparr>ulTimerId = the i, ulTypeId = ty, ullPara = p\<rparr>) \<notin> set offered) \<and>
        (\<exists>t' e' offered.
           tm_ticks (tm_logged send) (unat d + 1) (g_stTimerManager1ms s') (e, []) = Some (t', (e', offered)) \<and>
           count_list offered (m, \<lparr>ulTimerId = the i, ulTypeId = ty, ullPara = p\<rparr>) = 1))"
proof (cases "g_u32TimerServiceEnabled s \<and> \<not> m \<ge> MODULE_MAX \<and> idp")
  case False
  then show ?thesis by (auto simp: pf_timer_start_def)
next
  case True
  let ?t = "g_stTimerManager1ms s"
  have ok: "tm_wf ?t" "tm_no_zero_cycle ?t" using assms(1) True by (simp_all add: service_ok_def)
  have d: "unat (d + 1) = unat d + 1" "0 < d + 1"
  proof -
    have "d + 1 \<noteq> 0"
    proof
      assume "d + 1 = 0"
      then have "d = - 1" by (simp add: eq_neg_iff_add_eq_0)
      with assms(2) show False by simp
    qed
    then show "0 < d + 1" "unat (d + 1) = unat d + 1"
      using unatSuc[of d] by (simp_all add: word_neq_0_conv add.commute)
  qed
  obtain r i t' where r: "tm_set_timer m (d + 1) ty p C_FALSE ?t = (r, i, t')" by (cases "tm_set_timer m (d + 1) ty p C_FALSE ?t")
  show ?thesis
  proof (cases i)
    case None
    then show ?thesis
      using tm_set_wf[OF ok(1), of m "d + 1" ty p C_FALSE] r True by (auto simp: pf_timer_start_def split: if_splits)
  next
    case (Some timerId)
    then have s: "tm_set_timer m (d + 1) ty p C_FALSE ?t = (PF_TIMER_SUCCESS, Some timerId, t')"
      using tm_set_wf[OF ok(1), of m "d + 1" ty p C_FALSE] r by (auto split: if_splits)
    note E = tm_set_expires[OF ok d(2) s, of send e, unfolded d(1)]
    have "\<exists>t'' e' offered. tm_ticks (tm_logged send) n t' (e, []) = Some (t'', (e', offered)) \<and>
           (m, \<lparr>ulTimerId = timerId, ulTypeId = ty, ullPara = p\<rparr>) \<notin> set offered" if "n \<le> unat d" for n
    proof -
      have "n < unat d + 1" using that by simp
      with E show ?thesis by blast
    qed
    with E True s show ?thesis by (simp add: pf_timer_start_def)
  qed
qed

text \<open>
  A periodic timer of \<open>d\<close> milliseconds whose module takes every message is offered exactly
  \<open>k\<close> times within \<open>k * d\<close> ticks, for every \<open>k\<close>; a duration of zero is refused.
\<close>

theorem pf_timer_cycle_start_outcome:
  assumes "service_ok s" "\<forall>m msg e. fst (send m msg e)"
  shows "case pf_timer_cycle_start m d ty p idp s of (r, i, s') \<Rightarrow>
     (if \<not> g_u32TimerServiceEnabled s then r = PF_TIMER_OUT_OF_SERVICE \<and> i = None \<and> s' = s
      else if m \<ge> MODULE_MAX \<or> \<not> idp \<or> d = 0 then r = PF_TIMER_PARAM_ERROR \<and> i = None \<and> s' = s
      else if i = None then r = PF_TIMER_NO_RESOURCE \<and> s' = s
      else r = PF_TIMER_SUCCESS \<and>
        (\<forall>k. \<exists>t' e' offered.
           tm_ticks (tm_logged send) (k * unat d) (g_stTimerManager1ms s') (e, []) = Some (t', (e', offered)) \<and>
           count_list offered (m, \<lparr>ulTimerId = the i, ulTypeId = ty, ullPara = p\<rparr>) = k))"
proof (cases "g_u32TimerServiceEnabled s \<and> \<not> m \<ge> MODULE_MAX \<and> idp \<and> d \<noteq> 0")
  case False
  then show ?thesis by (auto simp: pf_timer_cycle_start_def)
next
  case True
  let ?t = "g_stTimerManager1ms s"
  have ok: "tm_wf ?t" "tm_no_zero_cycle ?t" using assms(1) True by (simp_all add: service_ok_def)
  obtain r i t' where r: "tm_set_timer m d ty p C_TRUE ?t = (r, i, t')" by (cases "tm_set_timer m d ty p C_TRUE ?t")
  show ?thesis
  proof (cases i)
    case None
    then show ?thesis
      using tm_set_wf[OF ok(1), of m d ty p C_TRUE] r True by (auto simp: pf_timer_cycle_start_def split: if_splits)
  next
    case (Some timerId)
    then have s: "tm_set_timer m d ty p C_TRUE ?t = (PF_TIMER_SUCCESS, Some timerId, t')"
      using tm_set_wf[OF ok(1), of m d ty p C_TRUE] r by (auto split: if_splits)
    have nz: "tm_no_zero_cycle t'" using set_timer_service_ok(2)[OF ok _ s] True by simp
    obtain j where j: "j < length (pstTimerArray t')" "tm_wf t'" "u32CurrentTick t' = u32CurrentTick ?t"
      "pstTimerArray t' ! j = \<lparr>u32Duration = d, u32AbsExpTick = u32CurrentTick ?t + d, u8Running = C_TRUE, u8Cycle = C_TRUE,
       u32ModuleId = m, stTmExpMsg = \<lparr>ulTimerId = timerId, ulTypeId = ty, ullPara = p\<rparr>\<rparr>"
      by (rule started_unit[OF ok(1) s])
    have "\<exists>t'' e' offered. tm_ticks (tm_logged send) (k * unat d) t' (e, []) = Some (t'', (e', offered)) \<and>
           count_list offered (m, \<lparr>ulTimerId = timerId, ulTypeId = ty, ullPara = p\<rparr>) = k" for k
      using tm_ticks_periodic[OF j(2) nz j(1) _ _ _ assms(2), of k e "[]"] j(3,4) by simp
    with True s show ?thesis by (simp add: pf_timer_cycle_start_def)
  qed
qed

text \<open>
  C8. One tick seen from the mailboxes: each mailbox gets the expiry messages of exactly those
  due timers of its module that were taken, each 16 bytes with the identifier, the type and the
  parameter of the timer, behind the messages it already held and in the order of the
  expiries; nothing else in any mailbox changes.  A due timer that was not taken belongs to a
  module without mailbox or with a full one, and is due again on the next tick.
\<close>

theorem timer_tick_mailboxes:
  assumes "tm_wf t" "tm_no_zero_cycle t" "sys_ok s"
  shows "\<exists>t' s' due sent. tm_tick (timer_send ticks) t s = Some (t', s') \<and> sys_ok s' \<and>
     distinct due \<and> set due = tm_expiring t \<and> sent = filter (\<lambda>i. i \<in> set sent) due \<and>
     (\<forall>m < MODULE_TASK_MAX. sys_view s' ! m =
        map_option (\<lambda>v. v @ map (\<lambda>i. expiry_of ticks (pstTimerArray t ! i))
            (filter (\<lambda>i. unat (u32ModuleId (pstTimerArray t ! i)) = m) sent)) (sys_view s ! m)) \<and>
     (\<forall>i \<in> set due. i \<notin> set sent \<longrightarrow>
        \<not> takes s' (u32ModuleId (pstTimerArray t ! i)) \<and> i \<in> tm_expiring t')"
proof -
  let ?send = "timer_send ticks" and ?arr = "pstTimerArray t"
  obtain t' ds where T: "tm_tick ?send t s = Some (t', tm_deliver ?send ?arr ds s)"
    "distinct ds" "set ds = tm_expiring t" "u32CurrentTick t' = u32CurrentTick t + 1" "length (pstTimerArray t') = length ?arr"
    and arr: "\<forall>i < length ?arr. pstTimerArray t' ! i =
       (if i \<in> set ds then tm_expired_unit (tm_taken ?send ?arr ds s i) (u32CurrentTick t + 1) (?arr ! i) else ?arr ! i)"
    by (rule tm_tick_wf[OF assms(1,2), of ?send s]) blast
  let ?sent = "taken_units ticks ?arr ds s"
  have sent: "?sent = filter (tm_taken ?send ?arr ds s) ds" by (rule taken_units_filter[OF T(2)])
  have again: "i \<in> tm_expiring t'" if i: "i \<in> set ds" "i \<notin> set ?sent" for i
  proof -
    have "i < length ?arr" "u8Running (?arr ! i) = C_TRUE" "\<not> tm_taken ?send ?arr ds s i"
      using i T(3) sent by (auto simp: tm_expiring_def)
    with arr i(1) T(4,5) show ?thesis by (simp add: tm_expiring_def tm_expired_unit_def)
  qed
  have "?sent = filter (\<lambda>i. i \<in> set ?sent) ds"
    unfolding sent by (rule filter_cong) simp_all
  moreover note D = deliver_view[OF assms(3), of ticks ?arr ds]
  moreover have "\<forall>i \<in> set ds. i \<notin> set ?sent \<longrightarrow>
      \<not> takes (tm_deliver ?send ?arr ds s) (u32ModuleId (?arr ! i)) \<and> i \<in> tm_expiring t'"
    using refused_full[OF assms(3)] again by blast
  ultimately show ?thesis
    using T(1-3)
    by (intro exI[of _ t'] exI[of _ "tm_deliver ?send ?arr ds s"] exI[of _ ds] exI[of _ ?sent] conjI) simp_all
qed

section \<open>A small service\<close>

definition service_example :: timer_service where
  "service_example = \<lparr>g_u32TimerServiceEnabled = True, g_stTimerManager1ms = tm_example\<rparr>"

lemma service_example_ok: "service_ok service_example" "g_u32TimerServiceEnabled service_example"
  using tm_example_wf by (simp_all add: service_example_def service_ok_def)

lemma pf_timer_init_witness:
  "fst (pf_timer_init True True True True 4 service_example) = PF_RET_SUCCESS \<and>
   fst (pf_timer_init True True True True 20000 service_example) = PF_RET_FAILURE"
  using pf_timer_init_outcome[of 4 True True True True service_example]
    pf_timer_init_outcome[of 20000 True True True True service_example]
  by (auto split: prod.splits)

lemma pf_timer_start_witness:
  "\<exists>i s'. pf_timer_start 7 2 1 0 True service_example = (PF_TIMER_SUCCESS, Some i, s') \<and>
    (\<exists>t' e' offered. tm_ticks (tm_logged (\<lambda>m msg e. (True, e))) 3 (g_stTimerManager1ms s') ((), []) = Some (t', (e', offered)) \<and>
           count_list offered (7, \<lparr>ulTimerId = i, ulTypeId = 1, ullPara = 0\<rparr>) = 1)"
proof -
  have "\<not> (MODULE_MAX \<le> (7 :: U32))" by (simp add: MODULE_MAX_def)
  moreover have "fst (snd (pf_timer_start 7 2 1 0 True service_example)) \<noteq> None"
    using calculation tm_example_set(1) by (simp add: pf_timer_start_def service_example_def)
  ultimately show ?thesis
    using pf_timer_start_outcome[OF service_example_ok(1), where d = 2 and m = 7 and ty = 1 and p = 0 and idp = True
        and send = "\<lambda>m msg e. (True, e)" and e = "()"] service_example_ok(2)
    by (auto split: prod.splits)
qed

lemma pf_timer_cycle_start_witness:
  "\<exists>s'. pf_timer_cycle_start 7 0 1 0 True service_example = (PF_TIMER_PARAM_ERROR, None, s')"
  using pf_timer_cycle_start_outcome[OF service_example_ok(1), where d = 0 and m = 7 and ty = 1 and p = 0 and idp = True
        and send = "\<lambda>m msg e. (True, e)" and e = "()"] service_example_ok(2)
  by (auto split: prod.splits)

lemma service_never_hangs_witness:
  "\<exists>s1. pf_timer_init True True True True 4 service_example = (PF_RET_SUCCESS, s1) \<and>
     pf_timer_turn 5 (Some 100) (s1, sys_example) \<noteq> None"
proof -
  obtain r s1 where i: "pf_timer_init True True True True 4 service_example = (r, s1)" by fastforce
  then have "r = PF_RET_SUCCESS" using service_init[of 4 True True True True service_example] by simp
  with i have "pf_timer_init True True True True 4 service_example = (PF_RET_SUCCESS, s1)" by simp
  from this service_never_hangs[OF this _ rtranclp.rtrancl_refl, of sys_example] show ?thesis by simp
qed

lemma timer_tick_mailboxes_witness:
  "\<exists>t' s'. tm_tick (timer_send 9) tm_example sys_example = Some (t', s') \<and> sys_ok s'"
  using timer_tick_mailboxes[OF tm_example_wf(1,2) sys_example_ok, of 9] by blast

end
