(* ===== verification/Net_Buffer.thy ===== *)
theory Net_Buffer
  imports Pilot_Prelude "HOL-Library.Monad_Syntax"
begin

text \<open>
  The send buffer of a socket, class \<open>CBuffer\<close> of \<open>platform/network/net_buffer.cpp\<close>.  One block of
  memory is used in one of four ways, by the kind of the socket: as a ring of bytes (TCP) or as a
  queue of records with a header (UDP, raw IP, SCTP).  Pointers are addresses, and every access
  goes through \<open>store\<close> and \<open>load\<close>, which yield \<open>None\<close> outside the block, so that the theorems about
  the operations include that they stay inside the block.
\<close>

text \<open>The error codes after which a socket tries again later.\<close>

definition EWOULDBLOCK :: int where "EWOULDBLOCK = 11"
definition EINTR :: int where "EINTR = 4"

section \<open>The block\<close>

record cbuffer =
  m_nStart :: U32
  m_nEnd :: U32
  m_head :: nat
  m_tail :: nat
  m_write :: nat
  m_read :: nat
  m_nCapacity :: U32
  m_nLength :: U32
  m_pBuf :: nat
  block :: "U8 list"

definition MAX_CAPACITY :: U32 where "MAX_CAPACITY = 1024 * 1024 * 32"

text \<open>\<open>memcpy\<close> into and out of the block.\<close>

definition store :: "nat \<Rightarrow> U8 list \<Rightarrow> cbuffer \<Rightarrow> cbuffer option" where
  "store p bs b =
     (if m_pBuf b \<le> p \<and> p + length bs \<le> m_pBuf b + length (block b)
      then Some (b\<lparr>block := take (p - m_pBuf b) (block b) @ bs @ drop (p - m_pBuf b + length bs) (block b)\<rparr>)
      else None)"

definition load :: "nat \<Rightarrow> nat \<Rightarrow> cbuffer \<Rightarrow> U8 list option" where
  "load p n b =
     (if m_pBuf b \<le> p \<and> p + n \<le> m_pBuf b + length (block b)
      then Some (take n (drop (p - m_pBuf b) (block b))) else None)"

text \<open>\<open>mem\<close> is the block that \<open>new\<close> returns, \<open>p\<close> its address.\<close>

definition CBuffer :: "U32 \<Rightarrow> nat \<Rightarrow> U8 list \<Rightarrow> cbuffer" where
  "CBuffer cap p mem =
     \<lparr>m_nStart = 0, m_nEnd = 0, m_head = p, m_tail = p + unat cap, m_write = p, m_read = p,
      m_nCapacity = cap, m_nLength = 0, m_pBuf = p, block = mem\<rparr>"

definition Clear :: "cbuffer \<Rightarrow> cbuffer" where
  "Clear b = b\<lparr>m_nLength := 0, m_head := 0, m_tail := 0, m_write := 0, m_read := 0\<rparr>"

definition GetLeftData :: "cbuffer \<Rightarrow> U32" where "GetLeftData b = m_nLength b"
definition IsEmpty :: "cbuffer \<Rightarrow> bool" where "IsEmpty b \<longleftrightarrow> m_nLength b = 0"

section \<open>The ring of bytes\<close>

definition AddTcpBuffer :: "U8 list \<Rightarrow> U32 \<Rightarrow> cbuffer \<Rightarrow> (bool \<times> cbuffer) option" where
  "AddTcpBuffer buf nSize b =
     (let nMaxSize = (if m_write b \<ge> m_read b then m_nCapacity b - of_nat (m_write b - m_read b)
                      else of_nat (m_read b - m_write b)) in
      if nSize \<ge> nMaxSize then Some (False, b)
      else do {
        b \<leftarrow> (if m_write b \<ge> m_read b then
                (if int (m_tail b) - int (m_write b) \<ge> int (unat nSize) then do {
                   b \<leftarrow> store (m_write b) (take (unat nSize) buf) b;
                   Some (b\<lparr>m_write := m_write b + unat nSize\<rparr>)
                 } else do {
                   let nCopySize = (of_nat (m_tail b - m_write b) :: U32);
                   b \<leftarrow> store (m_write b) (take (unat nCopySize) buf) b;
                   b \<leftarrow> store (m_head b) (take (unat (nSize - nCopySize)) (drop (unat nCopySize) buf)) b;
                   Some (b\<lparr>m_write := m_head b + unat nSize - unat nCopySize\<rparr>)
                 })
              else do {
                b \<leftarrow> store (m_write b) (take (unat nSize) buf) b;
                Some (b\<lparr>m_write := m_write b + unat nSize\<rparr>)
              });
        Some (True, b\<lparr>m_nLength := m_nLength b + nSize\<rparr>)
      })"

definition ReleaseTcpBuffer :: "U32 \<Rightarrow> cbuffer \<Rightarrow> cbuffer" where
  "ReleaseTcpBuffer nSize b =
     (if nSize > m_nLength b then b
      else
        let b = (if m_read b \<le> m_write b then b\<lparr>m_read := m_read b + unat nSize\<rparr>
                 else let TailSize = of_nat (m_tail b - m_read b) :: U32 in
                   if nSize < TailSize then b\<lparr>m_read := m_read b + unat nSize\<rparr>
                   else let HeadSize = nSize - TailSize in b\<lparr>m_read := m_head b + unat HeadSize\<rparr>)
        in b\<lparr>m_nLength := m_nLength b - nSize\<rparr>)"

definition GetTcpBuffer :: "cbuffer \<Rightarrow> nat" where "GetTcpBuffer b = m_read b"

definition GetTcpLength :: "cbuffer \<Rightarrow> U32" where
  "GetTcpLength b = (if m_write b \<ge> m_read b then m_nLength b else of_nat (m_tail b - m_read b))"

section \<open>The ring holds a sequence of bytes\<close>

text \<open>The bytes between the read pointer and the write pointer.\<close>

definition ring_bytes :: "U8 list \<Rightarrow> nat \<Rightarrow> nat \<Rightarrow> U8 list" where
  "ring_bytes blk r w = (if r \<le> w then take (w - r) (drop r blk) else drop r blk @ take w blk)"

definition tcp_view :: "cbuffer \<Rightarrow> U8 list" where
  "tcp_view b = ring_bytes (block b) (m_read b - m_pBuf b) (m_write b - m_pBuf b)"

definition tcp_ok :: "cbuffer \<Rightarrow> bool" where
  "tcp_ok b \<longleftrightarrow>
     length (block b) = unat (m_nCapacity b) \<and> m_head b = m_pBuf b \<and>
     m_tail b = m_pBuf b + unat (m_nCapacity b) \<and>
     m_pBuf b \<le> m_read b \<and> m_read b \<le> m_tail b \<and> m_pBuf b \<le> m_write b \<and> m_write b \<le> m_tail b \<and>
     unat (m_nLength b) = length (tcp_view b) \<and> length (tcp_view b) < unat (m_nCapacity b)"

lemma ring_bytes_length:
  "r \<le> length blk \<Longrightarrow> w \<le> length blk \<Longrightarrow>
     length (ring_bytes blk r w) = (if r \<le> w then w - r else length blk - r + w)"
  by (simp add: ring_bytes_def)

lemma tcp_okE:
  assumes "tcp_ok b"
  obtains r w where "m_read b = m_pBuf b + r" "m_write b = m_pBuf b + w" "r \<le> unat (m_nCapacity b)" "w \<le> unat (m_nCapacity b)"
    "length (block b) = unat (m_nCapacity b)" "m_head b = m_pBuf b" "m_tail b = m_pBuf b + unat (m_nCapacity b)"
    "unat (m_nLength b) = length (tcp_view b)" "length (tcp_view b) < unat (m_nCapacity b)"
    "tcp_view b = ring_bytes (block b) r w"
    "length (tcp_view b) = (if r \<le> w then w - r else unat (m_nCapacity b) - r + w)"
proof -
  have "m_pBuf b \<le> m_read b" "m_pBuf b \<le> m_write b" using assms by (simp_all add: tcp_ok_def)
  then obtain r w where rw: "m_read b = m_pBuf b + r" "m_write b = m_pBuf b + w" by (auto simp: le_iff_add)
  moreover from this have "tcp_view b = ring_bytes (block b) r w" by (simp add: tcp_view_def)
  moreover have "r \<le> unat (m_nCapacity b)" "w \<le> unat (m_nCapacity b)" "length (block b) = unat (m_nCapacity b)"
    "m_head b = m_pBuf b" "m_tail b = m_pBuf b + unat (m_nCapacity b)"
    "unat (m_nLength b) = length (tcp_view b)" "length (tcp_view b) < unat (m_nCapacity b)"
    using assms rw unfolding tcp_ok_def by simp_all
  ultimately show thesis
    using ring_bytes_length[of r "block b" w] by (intro that[of r w]) simp_all
qed

lemma tcp_ok_offsets:
  assumes "m_read b = m_pBuf b + r" "m_write b = m_pBuf b + w" "r \<le> unat (m_nCapacity b)" "w \<le> unat (m_nCapacity b)"
    "length (block b) = unat (m_nCapacity b)" "m_head b = m_pBuf b" "m_tail b = m_pBuf b + unat (m_nCapacity b)"
    "unat (m_nLength b) = length v" "length v < unat (m_nCapacity b)" "ring_bytes (block b) r w = v"
  shows "tcp_ok b" "tcp_view b = v"
  using assms by (simp_all add: tcp_ok_def tcp_view_def)

lemma tail_fits: "(int t - int w \<ge> int (unat n)) = (w + unat (n :: U32) \<le> t)"
  by linarith

lemma tcp_new:
  assumes "0 < cap" "length mem = unat cap"
  shows "tcp_ok (CBuffer cap p mem)" "tcp_view (CBuffer cap p mem) = []"
  using assms by (simp_all add: tcp_ok_def CBuffer_def tcp_view_def ring_bytes_def word_less_nat_alt)

lemma store_in:
  assumes "m_pBuf b \<le> p" "p + length bs \<le> m_pBuf b + length (block b)"
  shows "store p bs b = Some (b\<lparr>block := take (p - m_pBuf b) (block b) @ bs @ drop (p - m_pBuf b + length bs) (block b)\<rparr>)"
  using assms by (simp add: store_def)

text \<open>The test for room compares with the number of bytes that are free.\<close>

lemma tcp_room:
  assumes "tcp_ok b"
  shows "(if m_write b \<ge> m_read b then m_nCapacity b - of_nat (m_write b - m_read b)
          else of_nat (m_read b - m_write b)) = (of_nat (unat (m_nCapacity b) - length (tcp_view b)) :: U32)"
  using assms by (rule tcp_okE) (auto simp: of_nat_diff split: if_splits)

lemma tcp_room_less:
  assumes "tcp_ok b"
  shows "nSize \<ge> (of_nat (unat (m_nCapacity b) - length (tcp_view b)) :: U32) \<longleftrightarrow>
     \<not> length (tcp_view b) + unat nSize < unat (m_nCapacity b)"
proof -
  have "unat (of_nat (unat (m_nCapacity b) - length (tcp_view b)) :: U32) = unat (m_nCapacity b) - length (tcp_view b)"
    using unat_lt_U32[of "m_nCapacity b"] by (simp add: unat_of_nat)
  then show ?thesis using assms by (simp add: tcp_ok_def word_le_nat_alt) arith
qed

lemma tcp_add_refused:
  assumes "tcp_ok b" "\<not> length (tcp_view b) + unat nSize < unat (m_nCapacity b)"
  shows "AddTcpBuffer buf nSize b = Some (False, b)"
  using assms(2) unfolding AddTcpBuffer_def Let_def tcp_room[OF assms(1)] tcp_room_less[OF assms(1)] by simp

text \<open>Writing at the write pointer, in one piece or around the end of the block.\<close>

lemma ring_add_piece:
  assumes "r \<le> length blk" "w + length bs \<le> length blk" "\<not> r \<le> w \<Longrightarrow> w + length bs < r"
  shows "ring_bytes (take w blk @ bs @ drop (w + length bs) blk) r (w + length bs) = ring_bytes blk r w @ bs"
proof (cases "r \<le> w")
  case True
  have "take (w + length bs - r) (drop r (take w blk) @ bs @ drop (w + length bs) blk) = take (w - r) (drop r blk) @ bs"
    using True assms(2) by (cases "bs = []") (auto simp: drop_take min_def simp flip: length_greater_0_conv)
  then show ?thesis using True assms(2) by (simp add: ring_bytes_def)
next
  case False
  then show ?thesis using assms by (simp add: ring_bytes_def min_def)
qed

lemma ring_add_wrap:
  assumes "r \<le> w" "w + length bs1 = length blk" "length bs2 < r"
  shows "ring_bytes (bs2 @ drop (length bs2) (take w blk @ bs1)) r (length bs2) = ring_bytes blk r w @ bs1 @ bs2"
  using assms by (simp add: ring_bytes_def min_def drop_take)

lemma tcp_add_accepted:
  assumes "tcp_ok b" "length (tcp_view b) + unat nSize < unat (m_nCapacity b)" "length buf = unat nSize"
  obtains b' where "AddTcpBuffer buf nSize b = Some (True, b')" "tcp_ok b'" "tcp_view b' = tcp_view b @ buf"
    "m_nCapacity b' = m_nCapacity b" "m_read b' = m_read b" "m_tail b' = m_tail b" "m_pBuf b' = m_pBuf b"
    "m_write b' = (if m_write b + unat nSize \<le> m_tail b then m_write b + unat nSize
                   else m_write b + unat nSize - unat (m_nCapacity b))"
proof -
  obtain r w where k: "m_read b = m_pBuf b + r" "m_write b = m_pBuf b + w" "r \<le> unat (m_nCapacity b)" "w \<le> unat (m_nCapacity b)"
    "length (block b) = unat (m_nCapacity b)" "m_head b = m_pBuf b" "m_tail b = m_pBuf b + unat (m_nCapacity b)"
    "unat (m_nLength b) = length (tcp_view b)" "length (tcp_view b) < unat (m_nCapacity b)"
    "tcp_view b = ring_bytes (block b) r w"
    "length (tcp_view b) = (if r \<le> w then w - r else unat (m_nCapacity b) - r + w)" by (rule tcp_okE[OF assms(1)])
  let ?n = "unat nSize" and ?c = "unat (m_nCapacity b)"
  have len: "unat (m_nLength b + nSize) = length (tcp_view b @ buf)"
    using k(8) assms(2,3) unat_add_bounded[of "m_nLength b" ?n "m_nCapacity b"] by simp
  have room: "\<not> nSize \<ge> (if m_write b \<ge> m_read b then m_nCapacity b - of_nat (m_write b - m_read b)
          else of_nat (m_read b - m_write b))"
    unfolding tcp_room[OF assms(1)] tcp_room_less[OF assms(1)] using assms(2) by simp
  show thesis
  proof (cases "r \<le> w \<and> \<not> w + ?n \<le> ?c")
    case False
    let ?blk = "take w (block b) @ buf @ drop (w + length buf) (block b)"
    let ?b = "b\<lparr>block := ?blk, m_write := m_write b + ?n, m_nLength := m_nLength b + nSize\<rparr>"
    have fits: "w + ?n \<le> ?c" "\<not> r \<le> w \<Longrightarrow> w + ?n < r"
      using False k(3,4,11) assms(2) by (auto split: if_splits)
    have st: "store (m_write b) buf b = Some (b\<lparr>block := ?blk\<rparr>)"
      using fits(1) k(2,5) assms(3) by (simp add: store_in)
    have add: "AddTcpBuffer buf nSize b = Some (True, ?b)"
      using room False fits(1) st assms(3) k(1,2,7) unfolding AddTcpBuffer_def tail_fits by (simp add: Let_def)
    have v: "ring_bytes ?blk r (w + ?n) = tcp_view b @ buf"
      using ring_add_piece[of r "block b" w buf] fits k(3,5,10) assms(3) by simp
    have ok: "tcp_ok ?b" "tcp_view ?b = tcp_view b @ buf"
      using k fits(1) len v assms(2,3) by (intro tcp_ok_offsets[of ?b r "w + ?n"]; simp)+
    show thesis by (rule that[OF add ok]) (use k(2,7) fits(1) in simp_all)
  next
    case True
    let ?m = "?c - w"
    let ?bs1 = "take ?m buf" and ?bs2 = "drop ?m buf"
    let ?blk1 = "take w (block b) @ ?bs1"
    define blk2 where "blk2 = ?bs2 @ drop (length ?bs2) ?blk1"
    let ?b = "b\<lparr>block := blk2, m_write := m_head b + ?n - ?m, m_nLength := m_nLength b + nSize\<rparr>"
    have m: "unat (of_nat (m_tail b - m_write b) :: U32) = ?m" "?m < ?n" "unat (nSize - of_nat (m_tail b - m_write b)) = ?n - ?m"
    proof -
      show m1: "unat (of_nat (m_tail b - m_write b) :: U32) = ?m"
        using k(2,4,7) unat_lt_U32[of "m_nCapacity b"] by (simp add: unat_of_nat del: of_nat_diff)
      show m2: "?m < ?n" using True k(4) by linarith
      show "unat (nSize - of_nat (m_tail b - m_write b)) = ?n - ?m"
        using m1 m2 by (simp add: unat_sub word_le_nat_alt del: of_nat_diff)
    qed
    have st1: "store (m_write b) ?bs1 b = Some (b\<lparr>block := ?blk1\<rparr>)"
      using True k(2,4,5) assms(3) m(2) by (simp add: store_in)
    have st2: "store (m_head b) ?bs2 (b\<lparr>block := ?blk1\<rparr>) = Some (b\<lparr>block := blk2\<rparr>)"
    proof -
      have "w + ?n < 2 * ?c" using True k(4,11) assms(2) by linarith
      moreover have "length ?blk1 = ?c" "length ?bs2 = w + ?n - ?c" using k(4,5) assms(3) m(2) by simp_all
      ultimately have "length ?blk1 = ?c" "length ?bs2 < ?c" by linarith+
      then show ?thesis using k(6) unfolding blk2_def by (subst store_in) simp_all
    qed
    have add: "AddTcpBuffer buf nSize b = Some (True, ?b)"
      using room True st1 st2 assms(3) k(1,2,7) m unfolding AddTcpBuffer_def tail_fits by (simp add: Let_def)
    have e: "w + length ?bs1 = length (block b)" "length ?bs2 = ?n - ?m" "?n - ?m < r"
      using True k(4,5,11) assms(2,3) m(2) by simp_all
    have v: "ring_bytes blk2 r (?n - ?m) = tcp_view b @ buf"
      unfolding blk2_def k(10) e(2)[symmetric]
      by (subst ring_add_wrap[OF conjunct1[OF True] e(1)]) (use e(2,3) in simp_all)
    have "length blk2 = ?c" "?n - ?m \<le> ?c" "m_head b + ?n - ?m = m_pBuf b + (?n - ?m)"
      using e k(3,4,5,6) True m(2) by (simp_all add: blk2_def)
    then have ok: "tcp_ok ?b" "tcp_view ?b = tcp_view b @ buf"
      using k(1,3,6,7) len v assms(2,3) by (intro tcp_ok_offsets[of ?b r "?n - ?m"]; simp)+
    show thesis by (rule that[OF add ok]) (use k(2,4,7,6) True m(2) in simp_all)
  qed
qed


lemma ring_drop:
  assumes "n \<le> length (ring_bytes blk r w)" "r \<le> length blk" "w \<le> length blk"
  shows "r \<le> w \<Longrightarrow> ring_bytes blk (r + n) w = drop n (ring_bytes blk r w)"
    "\<not> r \<le> w \<Longrightarrow> n < length blk - r \<Longrightarrow> \<not> r + n \<le> w \<Longrightarrow> ring_bytes blk (r + n) w = drop n (ring_bytes blk r w)"
    "\<not> r \<le> w \<Longrightarrow> length blk - r \<le> n \<Longrightarrow> ring_bytes blk (n - (length blk - r)) w = drop n (ring_bytes blk r w)"
  using assms by (auto simp: ring_bytes_def drop_take add.commute)

lemma tcp_release_bad: "unat nSize > unat (m_nLength b) \<Longrightarrow> ReleaseTcpBuffer nSize b = b"
  by (simp add: ReleaseTcpBuffer_def word_less_nat_alt)

lemma tcp_release:
  assumes "tcp_ok b" "unat nSize \<le> length (tcp_view b)"
  defines "b' \<equiv> ReleaseTcpBuffer nSize b"
  shows "tcp_ok b'" "tcp_view b' = drop (unat nSize) (tcp_view b)" "m_write b' = m_write b"
    "m_nCapacity b' = m_nCapacity b" "m_tail b' = m_tail b" "m_pBuf b' = m_pBuf b"
    "m_read b' = (if m_read b \<le> m_write b \<or> unat nSize < m_tail b - m_read b then m_read b + unat nSize
                  else m_read b + unat nSize - unat (m_nCapacity b))"
proof -
  obtain r w where k: "m_read b = m_pBuf b + r" "m_write b = m_pBuf b + w" "r \<le> unat (m_nCapacity b)" "w \<le> unat (m_nCapacity b)"
    "length (block b) = unat (m_nCapacity b)" "m_head b = m_pBuf b" "m_tail b = m_pBuf b + unat (m_nCapacity b)"
    "unat (m_nLength b) = length (tcp_view b)" "length (tcp_view b) < unat (m_nCapacity b)"
    "tcp_view b = ring_bytes (block b) r w"
    "length (tcp_view b) = (if r \<le> w then w - r else unat (m_nCapacity b) - r + w)" by (rule tcp_okE[OF assms(1)])
  let ?n = "unat nSize" and ?c = "unat (m_nCapacity b)"
  have tl: "unat (of_nat (?c - r) :: U32) = ?c - r" using unat_lt_U32[of "m_nCapacity b"] by (simp add: unat_of_nat del: of_nat_diff)
  have n: "\<not> nSize > m_nLength b" using assms(2) k(8) by (simp add: word_less_nat_alt)
  have len: "unat (m_nLength b - nSize) = length (drop ?n (tcp_view b))"
    using assms(2) k(8) by (simp add: unat_sub word_le_nat_alt)
  have lt: "length (drop ?n (tcp_view b)) < ?c" using k(9) by simp
  define r' where "r' = (if r \<le> w \<or> ?n < ?c - r then r + ?n else r + ?n - ?c)"
  have r': "m_read b' = m_pBuf b + r'" "r' \<le> ?c"
  proof -
    have "unat (nSize - of_nat (?c - r)) = ?n - (?c - r)" if "?c - r \<le> ?n"
      using that tl by (simp add: unat_sub word_le_nat_alt del: of_nat_diff)
    then show "m_read b' = m_pBuf b + r'"
      using n tl k(1,2,3,6,7) by (auto simp: b'_def r'_def ReleaseTcpBuffer_def Let_def word_less_nat_alt simp del: of_nat_diff)
    show "r' \<le> ?c" using assms(2) k(3,4,11) by (auto simp: r'_def split: if_splits)
  qed
  have v: "ring_bytes (block b) r' w = drop ?n (tcp_view b)"
  proof -
    consider "r \<le> w" | "\<not> r \<le> w" "?n < ?c - r" "\<not> r + ?n \<le> w" | "\<not> r \<le> w" "?c - r \<le> ?n" by linarith
    then show ?thesis using ring_drop[of ?n "block b" r w] assms(2) k(3,4,5,10) by cases (simp_all add: r'_def add.commute)
  qed
  have fields: "m_write b' = m_pBuf b + w" "m_nCapacity b' = m_nCapacity b" "m_tail b' = m_tail b" "m_pBuf b' = m_pBuf b"
    "m_head b' = m_pBuf b" "block b' = block b" "m_nLength b' = m_nLength b - nSize"
    using n k(2,6) by (simp_all add: b'_def ReleaseTcpBuffer_def Let_def)
  show "tcp_ok b'" "tcp_view b' = drop ?n (tcp_view b)"
    by (rule tcp_ok_offsets[of b' r' w]; use k(4,5,7) r' fields len v lt in simp)+
  show "m_write b' = m_write b" "m_nCapacity b' = m_nCapacity b" "m_tail b' = m_tail b" "m_pBuf b' = m_pBuf b"
    using fields k(2) by simp_all
  show "m_read b' = (if m_read b \<le> m_write b \<or> ?n < m_tail b - m_read b then m_read b + ?n else m_read b + ?n - ?c)"
    unfolding r'(1) using k(1,2,3,7) by (auto simp: r'_def)
qed

text \<open>What the socket may send at once: the bytes up to the end of the block.\<close>

lemma tcp_front:
  assumes "tcp_ok b"
  shows "unat (GetTcpLength b) = (if m_read b \<le> m_write b then length (tcp_view b) else m_tail b - m_read b)"
    "unat (GetTcpLength b) \<le> length (tcp_view b)"
    "load (GetTcpBuffer b) (unat (GetTcpLength b)) b = Some (take (unat (GetTcpLength b)) (tcp_view b))"
proof -
  obtain r w where k: "m_read b = m_pBuf b + r" "m_write b = m_pBuf b + w" "r \<le> unat (m_nCapacity b)" "w \<le> unat (m_nCapacity b)"
    "length (block b) = unat (m_nCapacity b)" "m_head b = m_pBuf b" "m_tail b = m_pBuf b + unat (m_nCapacity b)"
    "unat (m_nLength b) = length (tcp_view b)" "length (tcp_view b) < unat (m_nCapacity b)"
    "tcp_view b = ring_bytes (block b) r w"
    "length (tcp_view b) = (if r \<le> w then w - r else unat (m_nCapacity b) - r + w)" by (rule tcp_okE[OF assms])
  have tl: "unat (of_nat (unat (m_nCapacity b) - r) :: U32) = unat (m_nCapacity b) - r"
    using unat_lt_U32[of "m_nCapacity b"] by (simp add: unat_of_nat del: of_nat_diff)
  show l: "unat (GetTcpLength b) = (if m_read b \<le> m_write b then length (tcp_view b) else m_tail b - m_read b)"
    using k(1,2,7,8) tl by (simp add: GetTcpLength_def del: of_nat_diff)
  then show "unat (GetTcpLength b) \<le> length (tcp_view b)" using k(1,2,7,11) by simp
  show "load (GetTcpBuffer b) (unat (GetTcpLength b)) b = Some (take (unat (GetTcpLength b)) (tcp_view b))"
    unfolding l using k(1-5,7,11)
    by (auto simp: load_def GetTcpBuffer_def k(10) ring_bytes_def)
qed

end
