(* ===== verification/Tcp_Socket.thy ===== *)
theory Tcp_Socket
  imports Net_Buffer
begin

text \<open>
  Sending on a stream socket, class \<open>TcpSocket\<close> of \<open>platform/network/cross_platform_socket.cpp\<close> with
  \<open>SendTcp\<close> and \<open>SendSsl\<close> of \<open>platform/network/Linux/platform_socket.cpp\<close>.  The kernel is a parameter:
  a function from the bytes offered and its own state to the result of \<open>send\<close> (or \<open>SSL_write\<close>), the
  error code beside it and its next state.  Each operation runs under the recursive mutex of the
  socket and is one step.
\<close>

section \<open>The kernel and the socket\<close>

type_synonym 'k kernel = "U8 list \<Rightarrow> 'k \<Rightarrow> int \<times> int \<times> 'k"

definition SSL_ERROR_WANT_WRITE :: int where "SSL_ERROR_WANT_WRITE = 3"

record tcp_socket =
  m_socketFd :: int
  m_encrypted :: bool
  m_ssl :: bool
  m_sendBuffer :: "cbuffer option"

definition DestroySocket :: "tcp_socket \<Rightarrow> tcp_socket" where
  "DestroySocket s = (if m_socketFd s \<ge> 0 then s\<lparr>m_socketFd := -1\<rparr> else s)"

definition SendTcp :: "'k kernel \<Rightarrow> U8 list \<Rightarrow> tcp_socket \<Rightarrow> 'k \<Rightarrow> int \<times> tcp_socket \<times> 'k" where
  "SendTcp net data s k =
     (if m_socketFd s = 0 then (-1, s, k)
      else case net data k of (sendResult, errorCode, k) \<Rightarrow>
        if sendResult > 0 then (sendResult, s, k)
        else if errorCode = EWOULDBLOCK \<or> errorCode = EINTR then (0, s, k)
        else (-1, DestroySocket s, k))"

definition SendSsl :: "'k kernel \<Rightarrow> U8 list \<Rightarrow> tcp_socket \<Rightarrow> 'k \<Rightarrow> int \<times> tcp_socket \<times> 'k" where
  "SendSsl net data s k =
     (if m_socketFd s = 0 \<or> \<not> m_ssl s then (-1, s, k)
      else case net data k of (sendResult, nRes, k) \<Rightarrow>
        if sendResult = -1 \<or> sendResult = 0
        then (if nRes = SSL_ERROR_WANT_WRITE then (0, s, k) else (-1, s, k))
        else (sendResult, s, k))"

text \<open>\<open>alloc\<close> is the result of \<open>new (std::nothrow)\<close>: the address and the bytes of the block, if there
  is memory.\<close>

definition TcpSocket :: "U32 \<Rightarrow> (nat \<times> U8 list) option \<Rightarrow> int \<Rightarrow> bool \<Rightarrow> bool \<Rightarrow> tcp_socket" where
  "TcpSocket u32BufferSize alloc fd enc ssl =
     \<lparr>m_socketFd = fd, m_encrypted = enc, m_ssl = ssl,
      m_sendBuffer = map_option (\<lambda>(p, mem). CBuffer (if u32BufferSize = 0 then MAX_CAPACITY else u32BufferSize) p mem) alloc\<rparr>"

text \<open>The loop of \<open>TcpSocket::Send()\<close>.  \<open>None\<close> is an access outside the buffer or a loop that does not
  end.\<close>

partial_function (option) TcpSocket_Send0 ::
  "'k kernel \<Rightarrow> tcp_socket \<Rightarrow> 'k \<Rightarrow> (bool \<times> tcp_socket \<times> 'k) option" where
  "TcpSocket_Send0 net s k =
     (case m_sendBuffer s of
        None \<Rightarrow> Some (True, s, k)
      | Some b \<Rightarrow>
        (let n = GetTcpLength b in
         if n = 0 then Some (True, s, k)
         else case load (GetTcpBuffer b) (unat n) b of
            None \<Rightarrow> None
          | Some buf \<Rightarrow>
            (case (if m_encrypted s then SendSsl net buf s k else SendTcp net buf s k) of
               (ret, s, k) \<Rightarrow>
                 if ret = 0 then Some (True, s, k)
                 else if ret < 0 then Some (False, s, k)
                 else TcpSocket_Send0 net (s\<lparr>m_sendBuffer := Some (ReleaseTcpBuffer (word_of_int ret) b)\<rparr>) k)))"

definition TcpSocket_Send ::
  "'k kernel \<Rightarrow> U8 list \<Rightarrow> U32 \<Rightarrow> tcp_socket \<Rightarrow> 'k \<Rightarrow> (bool \<times> tcp_socket \<times> 'k) option" where
  "TcpSocket_Send net data n s k =
     (case m_sendBuffer s of
        None \<Rightarrow> Some (False, s, k)
      | Some b \<Rightarrow>
        (let isEmpty = IsEmpty b in
         case AddTcpBuffer data n b of
           None \<Rightarrow> None
         | Some (r, b) \<Rightarrow>
           (let s = s\<lparr>m_sendBuffer := Some b\<rparr> in
            if \<not> r then Some (False, s, k)
            else if isEmpty then TcpSocket_Send0 net s k
            else Some (True, s, k))))"

definition TcpSocket_OnSend ::
  "'k kernel \<Rightarrow> U32 \<Rightarrow> tcp_socket \<Rightarrow> 'k \<Rightarrow> (bool \<times> tcp_socket \<times> 'k) option" where
  "TcpSocket_OnSend net ioSize s k =
     TcpSocket_Send0 net (s\<lparr>m_sendBuffer := map_option (ReleaseTcpBuffer ioSize) (m_sendBuffer s)\<rparr>) k"

definition TcpSocket_GetLeftData :: "tcp_socket \<Rightarrow> U32" where
  "TcpSocket_GetLeftData s = (case m_sendBuffer s of None \<Rightarrow> 0 | Some b \<Rightarrow> GetLeftData b)"

section \<open>A run of a socket\<close>

text \<open>What reaches the socket: a module sends data, or the event loop (\<open>PlatformIO::RunIocp\<close>) finds the
  descriptor writable.  \<open>acc\<close> collects the data that the buffer has taken.\<close>

datatype tcp_call = TcpWrite "U8 list" | TcpWritable

fun tcp_step :: "'k kernel \<Rightarrow> tcp_call \<Rightarrow> tcp_socket \<times> 'k \<Rightarrow> (bool \<times> tcp_socket \<times> 'k) option" where
  "tcp_step net (TcpWrite d) (s, k) = TcpSocket_Send net d (of_nat (length d)) s k"
| "tcp_step net TcpWritable (s, k) = TcpSocket_Send0 net s k"

definition tcp_accepts :: "U8 list \<Rightarrow> tcp_socket \<Rightarrow> bool" where
  "tcp_accepts d s \<longleftrightarrow>
     (case m_sendBuffer s of None \<Rightarrow> False
      | Some b \<Rightarrow> (case AddTcpBuffer d (of_nat (length d)) b of None \<Rightarrow> False | Some (r, _) \<Rightarrow> r))"

fun tcp_taken :: "tcp_call \<Rightarrow> tcp_socket \<Rightarrow> U8 list" where
  "tcp_taken (TcpWrite d) s = (if tcp_accepts d s then d else [])"
| "tcp_taken TcpWritable s = []"

fun tcp_run :: "'k kernel \<Rightarrow> tcp_call list \<Rightarrow> tcp_socket \<Rightarrow> 'k \<Rightarrow> U8 list \<Rightarrow> (tcp_socket \<times> 'k \<times> U8 list) option" where
  "tcp_run net [] s k acc = Some (s, k, acc)"
| "tcp_run net (c # cs) s k acc =
     (case tcp_step net c (s, k) of None \<Rightarrow> None
      | Some (_, s', k') \<Rightarrow> tcp_run net cs s' k' (acc @ tcp_taken c s))"

text \<open>The kernel together with the bytes it has taken.  \<open>send\<close> and \<open>SSL_write\<close> never take more than
  they are offered.\<close>

definition wired :: "'k kernel \<Rightarrow> ('k \<times> U8 list) kernel" where
  "wired net d kw =
     (case net d (fst kw) of (r, e, k') \<Rightarrow> (r, e, (k', snd kw @ take (nat r) d)))"

definition kernel_ok :: "'k kernel \<Rightarrow> bool" where
  "kernel_ok net \<longleftrightarrow> (\<forall>d k. fst (net d k) \<le> int (length d))"

section \<open>The send loop\<close>

definition transmit :: "'k kernel \<Rightarrow> U8 list \<Rightarrow> tcp_socket \<Rightarrow> 'k \<Rightarrow> int \<times> tcp_socket \<times> 'k" where
  "transmit net buf s k = (if m_encrypted s then SendSsl net buf s k else SendTcp net buf s k)"

lemma wired_ok: "kernel_ok net \<Longrightarrow> kernel_ok (wired net)"
  by (auto simp: kernel_ok_def wired_def split: prod.split) (metis fst_conv)

lemma transmit_ok:
  assumes "kernel_ok net" "transmit net buf s k = (ret, s', k')"
  shows "ret \<le> int (length buf)" "m_sendBuffer s' = m_sendBuffer s"
proof -
  obtain r e k2 where r: "net buf k = (r, e, k2)" by (cases "net buf k")
  with assms(1) have "r \<le> int (length buf)" unfolding kernel_ok_def by (metis fst_conv)
  with r show "ret \<le> int (length buf)" "m_sendBuffer s' = m_sendBuffer s"
    using assms(2) by (auto simp: transmit_def SendSsl_def SendTcp_def DestroySocket_def split: if_splits)
qed

lemma transmit_wired:
  assumes "transmit (wired net) buf s (k, wire) = (ret, s', k')"
  shows "snd k' = wire @ take (nat ret) buf"
  using assms by (cases "net buf k") (auto simp: transmit_def SendSsl_def SendTcp_def wired_def split: if_splits)

lemma unat_ret:
  assumes "0 < ret" "ret \<le> int (length (take (unat (sz :: U32)) xs))"
  shows "unat (word_of_int ret :: U32) = nat ret" "nat ret \<le> unat sz" "nat ret \<le> length xs"
proof -
  show l: "nat ret \<le> unat sz" "nat ret \<le> length xs" using assms by simp_all
  then have "nat ret < 2 ^ 32" using unat_lt_U32[of sz] by simp
  moreover have "(word_of_int ret :: U32) = of_nat (nat ret)" using assms(1) by simp
  ultimately show "unat (word_of_int ret :: U32) = nat ret" by (simp add: unat_of_nat)
qed

lemma Send0_step:
  assumes "m_sendBuffer s = Some b" "tcp_ok b"
  shows "TcpSocket_Send0 net s k =
     (if GetTcpLength b = 0 then Some (True, s, k)
      else case transmit net (take (unat (GetTcpLength b)) (tcp_view b)) s k of (ret, s, k) \<Rightarrow>
        if ret = 0 then Some (True, s, k)
        else if ret < 0 then Some (False, s, k)
        else TcpSocket_Send0 net (s\<lparr>m_sendBuffer := Some (ReleaseTcpBuffer (word_of_int ret) b)\<rparr>) k)"
  by (subst TcpSocket_Send0.simps) (simp add: assms tcp_front(3)[OF assms(2)] Let_def transmit_def)

text \<open>The loop ends, and hands a prefix of the bytes in the buffer to the kernel.\<close>

lemma Send0_prefix:
  assumes "kernel_ok net" "m_sendBuffer s = Some b" "tcp_ok b"
  shows "\<exists>ret s' k' n b'. TcpSocket_Send0 (wired net) s (k, wire) = Some (ret, s', (k', wire @ take n (tcp_view b))) \<and>
     m_sendBuffer s' = Some b' \<and> tcp_ok b' \<and> tcp_view b' = drop n (tcp_view b) \<and> m_nCapacity b' = m_nCapacity b"
  using assms
proof (induction "length (tcp_view b)" arbitrary: s b k wire rule: less_induct)
  case less
  let ?d = "take (unat (GetTcpLength b)) (tcp_view b)"
  note step = Send0_step[OF less.prems(2,3), of "wired net" "(k, wire)"]
  have stop: "?case" if "TcpSocket_Send0 (wired net) s (k, wire) = Some (ret, s', (k', wire))" "m_sendBuffer s' = Some b" for ret s' k'
    using that less.prems(3) by (intro exI[of _ ret] exI[of _ s'] exI[of _ k'] exI[of _ "0::nat"] exI[of _ b]) simp
  show ?case
  proof (cases "GetTcpLength b = 0")
    case True
    then show ?thesis using stop step less.prems(2) by simp
  next
    case False
    obtain ret s' kw where t: "transmit (wired net) ?d s (k, wire) = (ret, s', kw)" by (cases "transmit (wired net) ?d s (k, wire)")
    note w = transmit_ok[OF wired_ok[OF less.prems(1)] t]
    obtain k' where kw: "kw = (k', wire @ take (nat ret) ?d)" using transmit_wired[OF t] by (cases kw) simp
    show ?thesis
    proof (cases "ret \<le> 0")
      case True
      then show ?thesis using stop[of "ret = 0" s' k'] step False t kw w(2) less.prems(2) by (auto split: if_splits)
    next
      case False': False
      let ?m = "nat ret" and ?b = "ReleaseTcpBuffer (word_of_int ret) b"
      have m: "?m \<le> unat (GetTcpLength b)" "?m \<le> length (tcp_view b)" "0 < ?m" "unat (word_of_int ret :: U32) = ?m"
        using unat_ret[OF _ w(1)] False' by simp_all
      note rel = tcp_release[OF less.prems(3), of "word_of_int ret", unfolded m(4), OF m(2)]
      have "TcpSocket_Send0 (wired net) s (k, wire) =
          TcpSocket_Send0 (wired net) (s'\<lparr>m_sendBuffer := Some ?b\<rparr>) (k', wire @ take ?m (tcp_view b))"
        using step False False' t kw m(1) by (simp add: min_absorb1)
      moreover have "length (tcp_view ?b) < length (tcp_view b)" using rel(2) m(2,3) by simp
      from less.hyps[OF this less.prems(1) _ rel(1), of "s'\<lparr>m_sendBuffer := Some ?b\<rparr>" k' "wire @ take ?m (tcp_view b)"]
      obtain ret2 s2 k2 n b2 where
        "TcpSocket_Send0 (wired net) (s'\<lparr>m_sendBuffer := Some ?b\<rparr>) (k', wire @ take ?m (tcp_view b)) =
           Some (ret2, s2, (k2, (wire @ take ?m (tcp_view b)) @ take n (tcp_view ?b)))"
        "m_sendBuffer s2 = Some b2" "tcp_ok b2" "tcp_view b2 = drop n (tcp_view ?b)" "m_nCapacity b2 = m_nCapacity ?b"
        by auto
      ultimately show ?thesis
        using rel(2,4)
        by (intro exI[of _ ret2] exI[of _ s2] exI[of _ k2] exI[of _ "?m + n"] exI[of _ b2]) (simp add: take_add add.commute[of n])
    qed
  qed
qed


section \<open>Runs\<close>

definition tcp_socket_ok :: "tcp_socket \<Rightarrow> bool" where
  "tcp_socket_ok s \<longleftrightarrow> (\<forall>b. m_sendBuffer s = Some b \<longrightarrow> tcp_ok b)"

text \<open>The bytes a socket still holds.\<close>

definition pending :: "tcp_socket \<Rightarrow> U8 list" where
  "pending s = (case m_sendBuffer s of None \<Rightarrow> [] | Some b \<Rightarrow> tcp_view b)"

lemma Send0_pending:
  assumes "kernel_ok net" "tcp_socket_ok s"
  shows "\<exists>ret s' k' sent. TcpSocket_Send0 (wired net) s (k, wire) = Some (ret, s', (k', wire @ sent)) \<and>
     tcp_socket_ok s' \<and> sent @ pending s' = pending s"
proof (cases "m_sendBuffer s")
  case None
  then show ?thesis
    using assms(2) by (subst TcpSocket_Send0.simps) (auto intro: exI[of _ "[]"])
next
  case (Some b)
  then have "tcp_ok b" using assms(2) by (simp add: tcp_socket_ok_def)
  from Send0_prefix[OF assms(1) Some this, of k wire]
  obtain ret s' k' n b' where "TcpSocket_Send0 (wired net) s (k, wire) = Some (ret, s', (k', wire @ take n (tcp_view b)))"
    "m_sendBuffer s' = Some b'" "tcp_ok b'" "tcp_view b' = drop n (tcp_view b)" by blast
  then show ?thesis
    using Some by (intro exI[of _ ret] exI[of _ s'] exI[of _ k'] exI[of _ "take n (tcp_view b)"])
      (simp add: tcp_socket_ok_def pending_def)
qed

text \<open>What the buffer does with new data.\<close>

lemma unat_length: "length d < 2 ^ 32 \<Longrightarrow> unat (of_nat (length d) :: U32) = length d"
  by (simp add: unat_of_nat)

lemma Send_cases:
  assumes "tcp_socket_ok s" "length d < 2 ^ 32"
  shows "\<not> tcp_accepts d s \<Longrightarrow> TcpSocket_Send net d (of_nat (length d)) s k = Some (False, s, k)"
    "tcp_accepts d s \<Longrightarrow> \<exists>b'. tcp_ok b' \<and> tcp_view b' = pending s @ d \<and>
       TcpSocket_Send net d (of_nat (length d)) s k =
         (if pending s = [] then TcpSocket_Send0 net (s\<lparr>m_sendBuffer := Some b'\<rparr>) k
          else Some (True, s\<lparr>m_sendBuffer := Some b'\<rparr>, k))"
proof -
  have "(\<not> tcp_accepts d s \<longrightarrow> TcpSocket_Send net d (of_nat (length d)) s k = Some (False, s, k)) \<and>
    (tcp_accepts d s \<longrightarrow> (\<exists>b'. tcp_ok b' \<and> tcp_view b' = pending s @ d \<and>
       TcpSocket_Send net d (of_nat (length d)) s k =
         (if pending s = [] then TcpSocket_Send0 net (s\<lparr>m_sendBuffer := Some b'\<rparr>) k
          else Some (True, s\<lparr>m_sendBuffer := Some b'\<rparr>, k))))"
  proof (cases "m_sendBuffer s")
    case None
    then show ?thesis by (simp add: tcp_accepts_def TcpSocket_Send_def)
  next
    case (Some b)
    then have ok: "tcp_ok b" using assms(1) by (simp add: tcp_socket_ok_def)
    have e: "IsEmpty b \<longleftrightarrow> tcp_view b = []"
      using ok by (auto simp: IsEmpty_def tcp_ok_def unat_eq_0[symmetric])
    have same: "s\<lparr>m_sendBuffer := Some b\<rparr> = s" using Some by simp
    show ?thesis
    proof (cases "length (tcp_view b) + length d < unat (m_nCapacity b)")
      case True
      obtain b' where "AddTcpBuffer d (of_nat (length d)) b = Some (True, b')" "tcp_ok b'" "tcp_view b' = tcp_view b @ d"
        by (rule tcp_add_accepted[OF ok, of "of_nat (length d)" d]) (use True unat_length[OF assms(2)] in simp_all)
      then show ?thesis
        using Some e by (auto simp: tcp_accepts_def TcpSocket_Send_def pending_def Let_def)
    next
      case False
      then have "AddTcpBuffer d (of_nat (length d)) b = Some (False, b)"
        using unat_length[OF assms(2)] by (simp add: tcp_add_refused[OF ok])
      then show ?thesis
        using Some same by (auto simp: tcp_accepts_def TcpSocket_Send_def Let_def)
    qed
  qed
  then show "\<not> tcp_accepts d s \<Longrightarrow> TcpSocket_Send net d (of_nat (length d)) s k = Some (False, s, k)"
    "tcp_accepts d s \<Longrightarrow> \<exists>b'. tcp_ok b' \<and> tcp_view b' = pending s @ d \<and>
       TcpSocket_Send net d (of_nat (length d)) s k =
         (if pending s = [] then TcpSocket_Send0 net (s\<lparr>m_sendBuffer := Some b'\<rparr>) k
          else Some (True, s\<lparr>m_sendBuffer := Some b'\<rparr>, k))" by blast+
qed

fun tcp_call_ok :: "tcp_call \<Rightarrow> bool" where
  "tcp_call_ok (TcpWrite d) \<longleftrightarrow> length d < 2 ^ 32"
| "tcp_call_ok TcpWritable \<longleftrightarrow> True"

lemma tcp_step_pending:
  assumes "kernel_ok net" "tcp_socket_ok s" "tcp_call_ok c"
  shows "\<exists>ret s' k' sent. tcp_step (wired net) c (s, (k, wire)) = Some (ret, s', (k', wire @ sent)) \<and>
     tcp_socket_ok s' \<and> sent @ pending s' = pending s @ tcp_taken c s"
proof (cases c)
  case TcpWritable
  then show ?thesis using Send0_pending[OF assms(1,2)] by simp
next
  case (TcpWrite d)
  then have d: "length d < 2 ^ 32" using assms(3) by simp
  note C = Send_cases[OF assms(2) d, of "wired net" "(k, wire)"]
  show ?thesis
  proof (cases "tcp_accepts d s")
    case False
    then show ?thesis using C(1) assms(2) TcpWrite by (auto intro: exI[of _ "[]"])
  next
    case True
    from C(2)[OF this] obtain b' where b': "tcp_ok b'" "tcp_view b' = pending s @ d"
      "TcpSocket_Send (wired net) d (of_nat (length d)) s (k, wire) =
         (if pending s = [] then TcpSocket_Send0 (wired net) (s\<lparr>m_sendBuffer := Some b'\<rparr>) (k, wire)
          else Some (True, s\<lparr>m_sendBuffer := Some b'\<rparr>, k, wire))" by blast
    have ok: "tcp_socket_ok (s\<lparr>m_sendBuffer := Some b'\<rparr>)" "pending (s\<lparr>m_sendBuffer := Some b'\<rparr>) = pending s @ d"
      using b' by (simp_all add: tcp_socket_ok_def pending_def)
    show ?thesis
    proof (cases "pending s = []")
      case True
      then show ?thesis using Send0_pending[OF assms(1) ok(1), of k wire] TcpWrite b' ok(2) \<open>tcp_accepts d s\<close> by auto
    next
      case False
      then show ?thesis using TcpWrite b' ok \<open>tcp_accepts d s\<close> by (auto intro!: exI[of _ "[]"])
    qed
  qed
qed

lemma tcp_run_pending:
  assumes "kernel_ok net" "tcp_socket_ok s" "list_all tcp_call_ok cs" "acc = wire @ pending s"
  shows "\<exists>s' k' wire' acc'. tcp_run (wired net) cs s (k, wire) acc = Some (s', (k', wire'), acc') \<and>
     tcp_socket_ok s' \<and> acc' = wire' @ pending s'"
  using assms(2-)
proof (induction cs arbitrary: s k wire acc)
  case (Cons c cs)
  then have "tcp_call_ok c" by simp
  from tcp_step_pending[OF assms(1) Cons.prems(1) this, of k wire]
  obtain ret s' k' sent where "tcp_step (wired net) c (s, (k, wire)) = Some (ret, s', (k', wire @ sent))"
    "tcp_socket_ok s'" "sent @ pending s' = pending s @ tcp_taken c s" by blast
  then show ?case using Cons.IH[of s' "acc @ tcp_taken c s" "wire @ sent" k'] Cons.prems(2,3) by simp
qed simp


lemma TcpSocket_ok:
  assumes "0 < (if cap = 0 then MAX_CAPACITY else cap)" "alloc = None \<or> (\<exists>p mem. alloc = Some (p, mem) \<and> length mem = unat (if cap = 0 then MAX_CAPACITY else cap))"
  shows "tcp_socket_ok (TcpSocket cap alloc fd enc ssl)" "pending (TcpSocket cap alloc fd enc ssl) = []"
  using assms tcp_new[of "if cap = 0 then MAX_CAPACITY else cap"]
  by (auto simp: tcp_socket_ok_def pending_def TcpSocket_def split: option.splits)

lemma capacity_pos [simp]: "0 < (if cap = 0 then MAX_CAPACITY else (cap :: U32))"
  by (simp add: MAX_CAPACITY_def word_less_nat_alt word_neq_0_conv)

text \<open>
  C6. A stream socket loses, repeats and reorders nothing.  From a new socket on, whatever data the
  modules send, however the event loop interleaves and however many bytes the kernel takes at each
  call, no operation leaves the buffer or fails to end, and the bytes on the wire followed by the
  bytes still in the buffer are the concatenation of all data the buffer has taken.
\<close>

theorem tcp_stream:
  assumes "kernel_ok net" "list_all tcp_call_ok cs"
    "alloc = None \<or> (\<exists>p mem. alloc = Some (p, mem) \<and> length mem = unat (if cap = 0 then MAX_CAPACITY else cap))"
  shows "\<exists>s' k' wire acc. tcp_run (wired net) cs (TcpSocket cap alloc fd enc ssl) (k, []) [] = Some (s', (k', wire), acc) \<and>
     acc = wire @ pending s'"
  using tcp_run_pending[OF assms(1) TcpSocket_ok(1)[OF capacity_pos assms(3)] assms(2)]
    TcpSocket_ok(2)[OF capacity_pos assms(3)] by force

section \<open>Draining the buffer\<close>

text \<open>The read pointer rests at the end of the block while the data has gone around it.\<close>

definition stuck :: "tcp_socket \<Rightarrow> bool" where
  "stuck s \<longleftrightarrow> (\<exists>b. m_sendBuffer s = Some b \<and> tcp_ok b \<and> m_read b = m_tail b \<and> tcp_view b \<noteq> [])"

lemma stuck_length:
  assumes "tcp_ok b" "tcp_view b \<noteq> []"
  shows "GetTcpLength b = 0 \<longleftrightarrow> m_read b = m_tail b"
proof -
  have z: "GetTcpLength b = 0 \<longleftrightarrow> unat (GetTcpLength b) = 0" by (simp add: unat_eq_0)
  obtain r w where k: "m_read b = m_pBuf b + r" "m_write b = m_pBuf b + w" "r \<le> unat (m_nCapacity b)" "w \<le> unat (m_nCapacity b)"
    "m_tail b = m_pBuf b + unat (m_nCapacity b)"
    "length (tcp_view b) = (if r \<le> w then w - r else unat (m_nCapacity b) - r + w)" by (rule tcp_okE[OF assms(1)])
  have "0 < length (tcp_view b)" using assms(2) by simp
  then show ?thesis unfolding z tcp_front(1)[OF assms(1)] using k by (auto split: if_splits)
qed

definition eager :: "'k kernel \<Rightarrow> bool" where
  "eager net \<longleftrightarrow> (\<forall>d k. d \<noteq> [] \<longrightarrow> 0 < fst (net d k))"

definition connected :: "tcp_socket \<Rightarrow> bool" where
  "connected s \<longleftrightarrow> 0 < m_socketFd s \<and> (m_encrypted s \<longrightarrow> m_ssl s)"

lemma transmit_eager:
  assumes "eager net" "connected s" "buf \<noteq> []" "transmit net buf s k = (ret, s', k')"
  shows "0 < ret" "s' = s"
proof -
  obtain r e k2 where r: "net buf k = (r, e, k2)" by (cases "net buf k")
  moreover have "0 < r" using assms(1,3) r unfolding eager_def by (metis fst_conv)
  ultimately show "0 < ret" "s' = s"
    using assms(2,4) by (auto simp: transmit_def SendTcp_def SendSsl_def connected_def split: if_splits)
qed

lemma release_not_stuck:
  assumes "tcp_ok b" "unat n \<le> unat (GetTcpLength b)" "m_read b \<noteq> m_tail b"
  shows "m_read (ReleaseTcpBuffer n b) \<noteq> m_tail b \<or> tcp_view (ReleaseTcpBuffer n b) = []"
proof -
  obtain r w where k: "m_read b = m_pBuf b + r" "m_write b = m_pBuf b + w" "r \<le> unat (m_nCapacity b)" "w \<le> unat (m_nCapacity b)"
    "m_tail b = m_pBuf b + unat (m_nCapacity b)" "length (tcp_view b) < unat (m_nCapacity b)"
    "length (tcp_view b) = (if r \<le> w then w - r else unat (m_nCapacity b) - r + w)" by (rule tcp_okE[OF assms(1)])
  note f = tcp_front(1,2)[OF assms(1)]
  have n: "unat n \<le> length (tcp_view b)" using f(2) assms(2) by simp
  note rel = tcp_release(2,7)[OF assms(1) n]
  show ?thesis
  proof (cases "r \<le> w")
    case True
    then show ?thesis unfolding rel using f(1) k assms(2) n by auto
  next
    case False
    then show ?thesis unfolding rel using f(1) k assms(2,3) by auto
  qed
qed

text \<open>With a read pointer inside the data the loop gets everything out, also around the end of the
  block: there the release moves the read pointer to the head.\<close>

lemma Send0_drains:
  assumes "kernel_ok net" "eager net" "connected s" "m_sendBuffer s = Some b" "tcp_ok b"
    "m_read b \<noteq> m_tail b \<or> tcp_view b = []"
  shows "\<exists>k' b'. TcpSocket_Send0 net s k = Some (True, s\<lparr>m_sendBuffer := Some b'\<rparr>, k') \<and> tcp_ok b' \<and>
     tcp_view b' = [] \<and> m_write b' = m_write b \<and> m_tail b' = m_tail b \<and> m_nCapacity b' = m_nCapacity b \<and> m_pBuf b' = m_pBuf b"
  using assms(3-)
proof (induction "length (tcp_view b)" arbitrary: s b k rule: less_induct)
  case less
  let ?d = "take (unat (GetTcpLength b)) (tcp_view b)"
  note step = Send0_step[OF less.prems(2,3), of net k]
  show ?case
  proof (cases "tcp_view b = []")
    case True
    then have "GetTcpLength b = 0" using tcp_front(2)[OF less.prems(3)] by (simp add: unat_eq_0[symmetric])
    moreover have "s\<lparr>m_sendBuffer := Some b\<rparr> = s" using less.prems(2) by simp
    ultimately show ?thesis using step less.prems True by (intro exI[of _ k] exI[of _ b]) simp
  next
    case False
    then have r: "m_read b \<noteq> m_tail b" using less.prems(4) by simp
    then have z: "GetTcpLength b \<noteq> 0" using stuck_length[OF less.prems(3) False] by simp
    then have ne: "?d \<noteq> []" using False by (simp add: unat_eq_0)
    obtain ret s' k' where t: "transmit net ?d s k = (ret, s', k')" by (cases "transmit net ?d s k")
    note e = transmit_eager[OF assms(2) less.prems(1) ne t]
    note n = unat_ret[OF e(1) transmit_ok(1)[OF assms(1) t]]
    let ?b = "ReleaseTcpBuffer (word_of_int ret) b"
    note rel = tcp_release[OF less.prems(3), of "word_of_int ret", unfolded n(1), OF n(3)]
    have "m_read ?b \<noteq> m_tail ?b \<or> tcp_view ?b = []"
      using release_not_stuck[OF less.prems(3) _ r, of "word_of_int ret"] n(1,2) rel(5) by simp
    moreover have "length (tcp_view ?b) < length (tcp_view b)" using rel(2) n(3) e(1) by simp
    moreover have "connected (s\<lparr>m_sendBuffer := Some ?b\<rparr>)" using less.prems(1) by (simp add: connected_def)
    ultimately show ?thesis
      using less.hyps[of ?b "s\<lparr>m_sendBuffer := Some ?b\<rparr>" k'] rel(1,3-6) step z t e by simp
  qed
qed

lemma stuck_step:
  assumes "stuck s" "tcp_call_ok c"
  shows "\<exists>s'. tcp_step net c (s, k) = Some (fst (the (tcp_step net c (s, k))), s', k) \<and> stuck s'"
proof -
  obtain b where b: "m_sendBuffer s = Some b" "tcp_ok b" "m_read b = m_tail b" "tcp_view b \<noteq> []"
    using assms(1) by (auto simp: stuck_def)
  have z: "TcpSocket_Send0 net s k = Some (True, s, k)"
    using Send0_step[OF b(1,2)] stuck_length[OF b(2,4)] b(3) by simp
  show ?thesis
  proof (cases c)
    case TcpWritable
    then show ?thesis using z assms(1) by simp
  next
    case (TcpWrite d)
    then have d: "unat (of_nat (length d) :: U32) = length d" using assms(2) unat_length by simp
    have e: "\<not> IsEmpty b" using b(2,4) by (auto simp: IsEmpty_def tcp_ok_def)
    show ?thesis
    proof (cases "length (tcp_view b) + length d < unat (m_nCapacity b)")
      case True
      obtain b' where "AddTcpBuffer d (of_nat (length d)) b = Some (True, b')" "tcp_ok b'" "tcp_view b' = tcp_view b @ d"
        "m_read b' = m_read b" "m_tail b' = m_tail b"
        by (rule tcp_add_accepted[OF b(2), of "of_nat (length d)" d]) (use True d in simp_all)
      then show ?thesis using TcpWrite b e by (simp add: TcpSocket_Send_def stuck_def Let_def)
    next
      case False
      then have "AddTcpBuffer d (of_nat (length d)) b = Some (False, b)" using d by (simp add: tcp_add_refused[OF b(2)])
      then show ?thesis using TcpWrite b assms(1) by (simp add: TcpSocket_Send_def stuck_def Let_def)
    qed
  qed
qed

lemma stuck_run:
  assumes "stuck s" "list_all tcp_call_ok cs"
  shows "\<exists>s' acc'. tcp_run net cs s k acc = Some (s', k, acc') \<and> stuck s'"
  using assms
proof (induction cs arbitrary: s acc)
  case (Cons c cs)
  then have "tcp_call_ok c" by simp
  from stuck_step[OF Cons.prems(1) this, of net k] obtain s' ret where "tcp_step net c (s, k) = Some (ret, s', k)" "stuck s'"
    by blast
  then show ?case using Cons.IH[of s' "acc @ tcp_taken c s"] Cons.prems(2) by simp
qed simp


lemma wired_eager: "eager net \<Longrightarrow> eager (wired net)"
  by (auto simp: eager_def wired_def split: prod.split) (metis fst_conv)

text \<open>
  C14. On a connected socket with a kernel that takes at least one byte per call, one call of
  \<open>Send()\<close> puts everything in the buffer on the wire, in order and around the end of the block, unless
  the read pointer rests at the end of the block: then it reports success and sends nothing.
\<close>

theorem tcp_drains:
  assumes "kernel_ok net" "eager net" "connected s" "m_sendBuffer s = Some b" "tcp_ok b"
  shows "if m_read b = m_tail b \<and> tcp_view b \<noteq> []
     then TcpSocket_Send0 (wired net) s (k, wire) = Some (True, s, (k, wire))
     else \<exists>s' k'. TcpSocket_Send0 (wired net) s (k, wire) = Some (True, s', (k', wire @ tcp_view b)) \<and> pending s' = []"
proof (cases "m_read b = m_tail b \<and> tcp_view b \<noteq> []")
  case True
  then show ?thesis using Send0_step[OF assms(4,5), of "wired net" "(k, wire)"] stuck_length[OF assms(5)] by simp
next
  case False
  then have "m_read b \<noteq> m_tail b \<or> tcp_view b = []" by blast
  from Send0_drains[OF wired_ok[OF assms(1)] wired_eager[OF assms(2)] assms(3-5) this, of "(k, wire)"]
  obtain kw b' where d: "TcpSocket_Send0 (wired net) s (k, wire) = Some (True, s\<lparr>m_sendBuffer := Some b'\<rparr>, kw)" "tcp_view b' = []"
    by blast
  from Send0_prefix[OF assms(1,4,5), of k wire] d
  obtain k' n where "kw = (k', wire @ take n (tcp_view b))" "drop n (tcp_view b) = []" by auto
  then have "kw = (k', wire @ tcp_view b)" by simp
  then show ?thesis using d False by (auto simp: pending_def)
qed

text \<open>After a write that ends at the end of the block and leaves nothing behind, the read pointer is there too.\<close>

lemma empty_pointers:
  assumes "tcp_ok b" "tcp_view b = []" "m_write b \<noteq> m_pBuf b"
  shows "m_read b = m_write b"
proof -
  obtain r w where k: "m_read b = m_pBuf b + r" "m_write b = m_pBuf b + w" "r \<le> unat (m_nCapacity b)" "w \<le> unat (m_nCapacity b)"
    "length (tcp_view b) = (if r \<le> w then w - r else unat (m_nCapacity b) - r + w)" by (rule tcp_okE[OF assms(1)])
  with assms(2,3) show ?thesis by (auto split: if_splits)
qed

text \<open>One write to a connected socket whose buffer is empty.\<close>

definition idle_at :: "tcp_socket \<Rightarrow> U32 \<Rightarrow> nat \<Rightarrow> bool" where
  "idle_at s cap w \<longleftrightarrow> connected s \<and> (\<exists>b. m_sendBuffer s = Some b \<and> tcp_ok b \<and> tcp_view b = [] \<and> m_nCapacity b = cap \<and>
     m_write b = m_pBuf b + w \<and> m_read b = m_pBuf b + w)"

lemma write_idle:
  assumes "kernel_ok net" "eager net" "idle_at s cap w" "0 < length d" "w + length d \<le> unat cap" "length d < unat cap"
  shows "\<exists>s' k'. tcp_step (wired net) (TcpWrite d) (s, (k, wire)) = Some (True, s', (k', wire @ d)) \<and>
     idle_at s' cap (w + length d) \<and> tcp_taken (TcpWrite d) s = d"
proof -
  obtain b where b: "connected s" "m_sendBuffer s = Some b" "tcp_ok b" "tcp_view b = []" "m_nCapacity b = cap"
    "m_write b = m_pBuf b + w" "m_read b = m_pBuf b + w" using assms(3) unfolding idle_at_def by blast
  have d: "unat (of_nat (length d) :: U32) = length d" using assms(6) unat_lt_U32[of cap] by (simp add: unat_length)
  have tl: "m_tail b = m_pBuf b + unat cap" using b(3,5) by (simp add: tcp_ok_def)
  obtain b' where b': "AddTcpBuffer d (of_nat (length d)) b = Some (True, b')" "tcp_ok b'" "tcp_view b' = tcp_view b @ d"
    "m_nCapacity b' = m_nCapacity b" "m_read b' = m_read b" "m_tail b' = m_tail b" "m_pBuf b' = m_pBuf b"
    "m_write b' = (if m_write b + unat (of_nat (length d) :: U32) \<le> m_tail b then m_write b + unat (of_nat (length d) :: U32)
                   else m_write b + unat (of_nat (length d) :: U32) - unat (m_nCapacity b))"
    by (rule tcp_add_accepted[OF b(3), of "of_nat (length d)" d]) (use b(4,5) assms(6) d in simp_all)
  have wr: "m_write b' = m_pBuf b + (w + length d)" using b'(8) b(6) tl assms(5) d by simp
  have "IsEmpty b" using b(3,4) by (simp add: IsEmpty_def tcp_ok_def unat_eq_0)
  with b(2) b'(1) have send: "TcpSocket_Send (wired net) d (of_nat (length d)) s (k, wire) =
      TcpSocket_Send0 (wired net) (s\<lparr>m_sendBuffer := Some b'\<rparr>) (k, wire)" by (simp add: TcpSocket_Send_def)
  let ?s = "s\<lparr>m_sendBuffer := Some b'\<rparr>"
  have "w < unat cap" using assms(4,5) by linarith
  have "connected ?s" "m_sendBuffer ?s = Some b'" using b(1) by (simp_all add: connected_def)
  moreover have "m_read b' \<noteq> m_tail b' \<or> tcp_view b' = []" using b'(5,6) b(7) tl \<open>w < unat cap\<close> by simp
  ultimately obtain kw b2 where b2: "TcpSocket_Send0 (wired net) ?s (k, wire) = Some (True, ?s\<lparr>m_sendBuffer := Some b2\<rparr>, kw)"
    "tcp_ok b2" "tcp_view b2 = []" "m_write b2 = m_write b'" "m_nCapacity b2 = m_nCapacity b'" "m_pBuf b2 = m_pBuf b'"
    using Send0_drains[OF wired_ok[OF assms(1)] wired_eager[OF assms(2)] _ _ b'(2), of ?s "(k, wire)"] by blast
  have "\<exists>k'. kw = (k', wire @ d)"
    using Send0_prefix[OF assms(1) \<open>m_sendBuffer ?s = Some b'\<close> b'(2), of k wire] b2(1,3) b'(3) b(4) by auto
  moreover have "m_read b2 = m_write b2" by (rule empty_pointers[OF b2(2,3)]) (use b2(4,6) wr b'(7) assms(4) in simp)
  moreover have "tcp_accepts d s" using b(2) b'(1) by (simp add: tcp_accepts_def)
  ultimately show ?thesis
    using send b2 b(1,5) b'(4,7) wr by (auto simp: idle_at_def connected_def)
qed

lemma write_stalls:
  assumes "idle_at s cap (unat cap)" "0 < length d" "length d < unat cap"
  shows "\<exists>s'. tcp_step net (TcpWrite d) (s, k) = Some (True, s', k) \<and> stuck s' \<and> tcp_taken (TcpWrite d) s = d"
proof -
  obtain b where b: "connected s" "m_sendBuffer s = Some b" "tcp_ok b" "tcp_view b = []" "m_nCapacity b = cap"
    "m_read b = m_pBuf b + unat cap" using assms(1) unfolding idle_at_def by blast
  have d: "unat (of_nat (length d) :: U32) = length d" using assms(3) unat_lt_U32[of cap] by (simp add: unat_length)
  have tl: "m_tail b = m_pBuf b + unat cap" using b(3,5) by (simp add: tcp_ok_def)
  obtain b' where b': "AddTcpBuffer d (of_nat (length d)) b = Some (True, b')" "tcp_ok b'" "tcp_view b' = tcp_view b @ d"
    "m_read b' = m_read b" "m_tail b' = m_tail b"
    by (rule tcp_add_accepted[OF b(3), of "of_nat (length d)" d]) (use b(4,5) assms(3) d in simp_all)
  have "IsEmpty b" using b(3,4) by (simp add: IsEmpty_def tcp_ok_def unat_eq_0)
  moreover have "stuck (s\<lparr>m_sendBuffer := Some b'\<rparr>)" using b' b(4,6) tl assms(2) by (auto simp: stuck_def)
  moreover have "TcpSocket_Send0 net (s\<lparr>m_sendBuffer := Some b'\<rparr>) k = Some (True, s\<lparr>m_sendBuffer := Some b'\<rparr>, k)"
    using Send0_step[OF _ b'(2), of "s\<lparr>m_sendBuffer := Some b'\<rparr>"] stuck_length[OF b'(2)] b' b(4,6) tl assms(2) by simp
  ultimately show ?thesis using b(2) b'(1) by (simp add: TcpSocket_Send_def tcp_accepts_def)
qed


lemma TcpSocket_idle:
  assumes "0 < fd" "length mem = unat (if cap = 0 then MAX_CAPACITY else cap)" "enc \<longrightarrow> ssl"
  shows "idle_at (TcpSocket cap (Some (p, mem)) fd enc ssl) (if cap = 0 then MAX_CAPACITY else cap) 0"
  using assms tcp_new[OF capacity_pos assms(2), of p]
  by (simp add: idle_at_def connected_def TcpSocket_def CBuffer_def)

text \<open>
  C18. When the data written so far ends exactly at the end of the block and all of it has been sent,
  the next write stalls the connection for ever: it reports success, but neither it nor any later
  write or wake-up of the event loop puts another byte on the wire.
\<close>

theorem tcp_stalls:
  assumes "kernel_ok net" "eager net" "0 < fd" "c = unat (if cap = 0 then MAX_CAPACITY else cap)" "length mem = c"
    "length d1 + length d2 = c" "d1 \<noteq> []" "d2 \<noteq> []" "0 < length d3" "length d3 < c"
  shows "\<exists>s k'. tcp_run (wired net) [TcpWrite d1, TcpWrite d2, TcpWrite d3]
       (TcpSocket cap (Some (p, mem)) fd False False) (k, []) [] = Some (s, (k', d1 @ d2), d1 @ d2 @ d3) \<and>
     (\<forall>cs. list_all tcp_call_ok cs \<longrightarrow>
        (\<exists>s' acc. tcp_run (wired net) cs s (k', d1 @ d2) (d1 @ d2 @ d3) = Some (s', (k', d1 @ d2), acc)))"
proof -
  let ?cap = "if cap = 0 then MAX_CAPACITY else cap" and ?s0 = "TcpSocket cap (Some (p, mem)) fd False False"
  have "0 < length d1" "0 < length d2" using assms(7,8) by simp_all
  then have n: "0 < length d1" "0 < length d2" "length d1 < unat ?cap" "length d2 < unat ?cap" "length d1 + length d2 = unat ?cap"
    using assms(4,6) by linarith+
  have idle: "idle_at ?s0 ?cap 0" using TcpSocket_idle[of fd mem cap False False p] assms(3,4,5) by simp
  from write_idle[OF assms(1,2) idle n(1) _ n(3), of k "[]"] n(3)
  obtain s1 k1 where w1: "tcp_step (wired net) (TcpWrite d1) (?s0, (k, [])) = Some (True, s1, (k1, d1))"
    "idle_at s1 ?cap (length d1)" "tcp_taken (TcpWrite d1) ?s0 = d1" by auto
  from write_idle[OF assms(1,2) w1(2) n(2) _ n(4), of k1 d1] n(5)
  obtain s2 k2 where w2: "tcp_step (wired net) (TcpWrite d2) (s1, (k1, d1)) = Some (True, s2, (k2, d1 @ d2))"
    "idle_at s2 ?cap (unat ?cap)" "tcp_taken (TcpWrite d2) s1 = d2" by auto
  from write_stalls[OF w2(2), of d3 "wired net" "(k2, d1 @ d2)"] assms(4,9,10)
  obtain s3 where w3: "tcp_step (wired net) (TcpWrite d3) (s2, (k2, d1 @ d2)) = Some (True, s3, (k2, d1 @ d2))"
    "stuck s3" "tcp_taken (TcpWrite d3) s2 = d3" by auto
  have "tcp_run (wired net) [TcpWrite d1, TcpWrite d2, TcpWrite d3] ?s0 (k, []) [] = Some (s3, (k2, d1 @ d2), d1 @ d2 @ d3)"
    using w1(1,3) w2(1,3) w3(1,3) by simp
  moreover have "\<exists>s' acc. tcp_run (wired net) cs s3 (k2, d1 @ d2) (d1 @ d2 @ d3) = Some (s', (k2, d1 @ d2), acc)"
    if "list_all tcp_call_ok cs" for cs
    using stuck_run[OF w3(2) that, of "wired net" "(k2, d1 @ d2)" "d1 @ d2 @ d3"] by blast
  ultimately show ?thesis by blast
qed

section \<open>A socket with four bytes\<close>

text \<open>A kernel that takes whatever it is offered.\<close>

definition taking :: "unit kernel" where "taking d k = (int (length d), 0, k)"

lemma taking_ok: "kernel_ok taking" "eager taking"
  by (simp_all add: kernel_ok_def eager_def taking_def)

lemma tcp_stream_witness:
  "\<exists>s' k' wire acc. tcp_run (wired taking) [TcpWrite [1, 2], TcpWritable, TcpWrite [3]]
     (TcpSocket 4 (Some (1000, [0, 0, 0, 0])) 7 False False) ((), []) [] = Some (s', (k', wire), acc) \<and>
     acc = wire @ pending s'"
  using tcp_stream[OF taking_ok(1), of "[TcpWrite [1, 2], TcpWritable, TcpWrite [3]]" "Some (1000, [0, 0, 0, 0])" 4] by simp

lemma tcp_drains_witness:
  "\<exists>s' k'. TcpSocket_Send0 (wired taking) (TcpSocket 4 (Some (1000, [0, 0, 0, 0])) 7 False False) ((), []) = Some (True, s', (k', [])) \<and>
     pending s' = []"
proof -
  let ?s = "TcpSocket 4 (Some (1000, [0, 0, 0, 0])) 7 False False" and ?b = "CBuffer 4 1000 [0, 0, 0, 0]"
  have "connected ?s" "m_sendBuffer ?s = Some ?b" by (simp_all add: TcpSocket_def connected_def)
  moreover have "tcp_ok ?b" "tcp_view ?b = []" using tcp_new[of 4 "[0, 0, 0, 0]" 1000] by simp_all
  ultimately show ?thesis
    using tcp_drains[OF taking_ok, of ?s ?b "()" "[]"] by simp
qed

lemma tcp_stalls_witness:
  "\<exists>s k'. tcp_run (wired taking) [TcpWrite [1, 2], TcpWrite [3, 4], TcpWrite [5]]
       (TcpSocket 4 (Some (1000, [0, 0, 0, 0])) 7 False False) ((), []) [] = Some (s, (k', [1, 2, 3, 4]), [1, 2, 3, 4, 5])"
  using tcp_stalls[OF taking_ok, of 7 4 4 "[0, 0, 0, 0]" "[1, 2]" "[3, 4]" "[5]" 1000 "()"] by auto

end
