(* ===== verification/Dgram_Buffer.thy ===== *)
theory Dgram_Buffer
  imports Net_Buffer
begin

text \<open>
  The send buffer of a socket as a queue of messages, \<open>platform/network/net_buffer.cpp\<close>: UDP, raw IP
  and SCTP.  A message is a record of its length (4 bytes), its address fields and its data; the
  block grows by doubling up to \<open>MAX_CAPACITY\<close>.
\<close>

section \<open>Growing the block\<close>

text \<open>The loop of \<open>ResizeBuffer\<close>: the capacity to grow to, or \<open>Some None\<close> where it returns \<open>false\<close>.\<close>

partial_function (option) grow :: "U32 \<Rightarrow> U32 \<Rightarrow> U32 option option" where
  "grow need copy =
     (if copy \<ge> MAX_CAPACITY then Some None
      else let copy = copy * 2; copy = (if copy > MAX_CAPACITY then MAX_CAPACITY else copy) in
        if need \<le> copy then Some (Some copy) else grow need copy)"

text \<open>\<open>alloc\<close> is \<open>new uint8_t[n]\<close>: the address and the bytes of a new block.\<close>

definition ResizeBuffer :: "(U32 \<Rightarrow> nat \<times> U8 list) \<Rightarrow> U32 \<Rightarrow> cbuffer \<Rightarrow> (bool \<times> cbuffer) option" where
  "ResizeBuffer alloc nNewSize b =
     (let bExpand = (if m_nStart b + m_nLength b > m_nEnd b then m_nEnd b - m_nLength b < nNewSize
                     else m_nCapacity b - m_nEnd b < nNewSize) in
      if \<not> bExpand then Some (True, b)
      else do {
        r \<leftarrow> grow (m_nLength b + nNewSize) (m_nCapacity b);
        (case r of
           None \<Rightarrow> Some (False, b)
         | Some copy \<Rightarrow> do {
             bytes \<leftarrow> (if m_nStart b + m_nLength b \<le> m_nEnd b
                      then load (m_pBuf b + unat (m_nStart b)) (unat (m_nLength b)) b
                      else do {
                        x \<leftarrow> load (m_pBuf b + unat (m_nStart b)) (unat (m_nEnd b - m_nStart b)) b;
                        y \<leftarrow> load (m_pBuf b) (unat (m_nLength b - (m_nEnd b - m_nStart b))) b;
                        Some (x @ y)
                      });
             let (p, mem) = alloc copy;
             b \<leftarrow> store p bytes (b\<lparr>m_nCapacity := copy, m_pBuf := p, block := mem\<rparr>);
             Some (True, b\<lparr>m_nStart := 0, m_nEnd := m_nLength b\<rparr>)
           })
      })"

section \<open>Adding and releasing records\<close>

text \<open>Consecutive \<open>memcpy\<close>s from an address on.\<close>

fun store_all :: "nat \<Rightarrow> U8 list list \<Rightarrow> cbuffer \<Rightarrow> cbuffer option" where
  "store_all p [] b = Some b"
| "store_all p (bs # bss) b = do { b \<leftarrow> store p bs b; store_all (p + length bs) bss b }"

text \<open>The common body of \<open>AddUdpBuffer\<close> and \<open>AddRawIpBuffer\<close>: they differ in the pieces of the record.\<close>

definition AddRecord :: "(U32 \<Rightarrow> nat \<times> U8 list) \<Rightarrow> U8 list list \<Rightarrow> U32 \<Rightarrow> cbuffer \<Rightarrow> (bool \<times> cbuffer) option" where
  "AddRecord alloc pieces nNewSize b = do {
     (ok, b) \<leftarrow> ResizeBuffer alloc nNewSize b;
     (if \<not> ok then Some (False, b)
      else do {
        b \<leftarrow> (if m_nStart b + m_nLength b = m_nEnd b \<and> m_nCapacity b - m_nEnd b \<ge> nNewSize
             then do {
               b \<leftarrow> store_all (m_pBuf b + unat (m_nEnd b)) pieces b;
               Some (b\<lparr>m_nEnd := m_nEnd b + nNewSize\<rparr>)
             }
             else let u32index = m_nStart b + m_nLength b - m_nEnd b in
               store_all (m_pBuf b + unat u32index) pieces b);
        Some (True, b\<lparr>m_nLength := m_nLength b + nNewSize\<rparr>)
      })
   }"

definition AddUdpBuffer ::
  "(U32 \<Rightarrow> nat \<times> U8 list) \<Rightarrow> U8 list \<Rightarrow> U32 \<Rightarrow> U32 \<Rightarrow> U16 \<Rightarrow> cbuffer \<Rightarrow> (bool \<times> cbuffer) option" where
  "AddUdpBuffer alloc buf nSize dstaddr dstport b =
     AddRecord alloc [le_bytes 4 nSize, le_bytes 4 dstaddr, le_bytes 2 dstport, take (unat nSize) buf]
       (nSize + 4 + 4 + 2) b"

definition AddRawIpBuffer ::
  "(U32 \<Rightarrow> nat \<times> U8 list) \<Rightarrow> U32 \<Rightarrow> U8 list \<Rightarrow> U32 \<Rightarrow> cbuffer \<Rightarrow> (bool \<times> cbuffer) option" where
  "AddRawIpBuffer alloc dstAddr buf nSize b =
     AddRecord alloc [le_bytes 4 nSize, le_bytes 4 dstAddr, take (unat nSize) buf] (nSize + 4 + 4) b"

definition reset_buffer :: "cbuffer \<Rightarrow> cbuffer" where
  "reset_buffer b = b\<lparr>m_nLength := 0, m_nStart := 0, m_nEnd := 0\<rparr>"

definition load_word :: "nat \<Rightarrow> nat \<Rightarrow> cbuffer \<Rightarrow> 'a::len word option" where
  "load_word p n b = map_option le_word (load p n b)"

text \<open>The common body of \<open>ReleaseUdpBuffer\<close> and \<open>ReleaseRawIpBuffer\<close>, for a header of \<open>k\<close> bytes.
  Copying the header forward is undefined when the two places overlap.\<close>

definition ReleaseRecord :: "nat \<Rightarrow> U32 \<Rightarrow> cbuffer \<Rightarrow> cbuffer option" where
  "ReleaseRecord k nSize b =
     (let nNewSize = nSize + of_nat k; p = m_pBuf b + unat (m_nStart b) in
      if nNewSize \<ge> m_nLength b then Some (reset_buffer b)
      else do {
        packetlen \<leftarrow> load_word p 4 b;
        (nNewSize, b) \<leftarrow>
          (if packetlen > nSize then do {
             b \<leftarrow> store (p + unat nSize) (le_bytes 4 (packetlen - nSize)) b;
             hdr \<leftarrow> (if unat nSize < k - 4 then None else load (p + 4) (k - 4) b);
             b \<leftarrow> store (p + unat nSize + 4) hdr b;
             Some (nSize, b)
           }
           else if packetlen < nSize then Some (packetlen + of_nat k, b)
           else Some (nNewSize, b));
        Some (if nNewSize \<ge> m_nLength b then reset_buffer b
          else
            let b = b\<lparr>m_nLength := m_nLength b - nNewSize, m_nStart := m_nStart b + nNewSize\<rparr> in
            if m_nStart b \<ge> m_nEnd b then
              (if m_nStart b > m_nEnd b then
                 let st = m_nStart b - m_nEnd b in b\<lparr>m_nStart := st, m_nEnd := st + m_nLength b\<rparr>
               else b\<lparr>m_nStart := 0, m_nEnd := m_nLength b\<rparr>)
            else b)
      })"

definition ReleaseUdpBuffer :: "U32 \<Rightarrow> cbuffer \<Rightarrow> cbuffer option" where
  "ReleaseUdpBuffer = ReleaseRecord 10"

definition ReleaseRawIpBuffer :: "U32 \<Rightarrow> cbuffer \<Rightarrow> cbuffer option" where
  "ReleaseRawIpBuffer = ReleaseRecord 8"

definition GetUdpLength :: "cbuffer \<Rightarrow> U32 option" where
  "GetUdpLength b = (if m_nLength b > 0 then load_word (m_pBuf b + unat (m_nStart b)) 4 b else Some 0)"

definition GetUdpAddr :: "cbuffer \<Rightarrow> U32 option" where
  "GetUdpAddr b = (if m_nLength b > 0 then load_word (m_pBuf b + unat (m_nStart b) + 4) 4 b else Some 0)"

definition GetUdpPort :: "cbuffer \<Rightarrow> U16 option" where
  "GetUdpPort b = (if m_nLength b > 0 then load_word (m_pBuf b + unat (m_nStart b) + 4 + 4) 2 b else Some 0xFFFF)"

definition GetUdpBuffer :: "cbuffer \<Rightarrow> nat" where
  "GetUdpBuffer b = m_pBuf b + unat (m_nStart b) + 4 + 4 + 2"

definition GetRawIpLength :: "cbuffer \<Rightarrow> U32 option" where
  "GetRawIpLength b = (if m_nLength b > 0 then load_word (m_pBuf b + unat (m_nStart b)) 4 b else Some 0)"

definition GetDstAddr :: "cbuffer \<Rightarrow> U32 option" where
  "GetDstAddr b = (if m_nLength b > 0 then load_word (m_pBuf b + unat (m_nStart b) + 4) 4 b else Some 0)"

definition GetRawIpBuffer :: "cbuffer \<Rightarrow> nat" where
  "GetRawIpBuffer b = m_pBuf b + unat (m_nStart b) + 4 + 4"

section \<open>The queue of messages\<close>

text \<open>A message is its header after the length, and its data.\<close>

type_synonym message = "U8 list \<times> U8 list"

definition record_bytes :: "message \<Rightarrow> U8 list" where
  "record_bytes m = le_bytes 4 (of_nat (length (snd m)) :: U32) @ fst m @ snd m"

definition queue_bytes :: "message list \<Rightarrow> U8 list" where
  "queue_bytes ms = concat (map record_bytes ms)"

text \<open>\<open>k\<close> is the length of the header with the length field.  The queue is one segment of the block: it
  never wraps around, whatever the code provides for that case.\<close>

definition queue_inv :: "nat \<Rightarrow> cbuffer \<Rightarrow> message list \<Rightarrow> bool" where
  "queue_inv k b ms \<longleftrightarrow>
     length (block b) = unat (m_nCapacity b) \<and> 0 < m_nCapacity b \<and> m_nCapacity b \<le> MAX_CAPACITY \<and>
     unat (m_nStart b) + unat (m_nLength b) = unat (m_nEnd b) \<and> unat (m_nEnd b) \<le> unat (m_nCapacity b) \<and>
     unat (m_nLength b) = length (queue_bytes ms) \<and>
     take (unat (m_nLength b)) (drop (unat (m_nStart b)) (block b)) = queue_bytes ms \<and>
     (\<forall>m \<in> set ms. length (fst m) + 4 = k)"

lemma MAX_CAPACITY_unat: "unat MAX_CAPACITY = 2 ^ 25" "0 < MAX_CAPACITY"
  by (simp_all add: MAX_CAPACITY_def)

lemma queue_new:
  assumes "0 < cap" "cap \<le> MAX_CAPACITY" "length mem = unat cap"
  shows "queue_inv k (CBuffer cap p mem) []"
  using assms by (simp add: queue_inv_def CBuffer_def queue_bytes_def)

lemma grow_outcome:
  assumes "0 < copy" "copy \<le> MAX_CAPACITY"
  shows "(\<exists>c. grow need copy = Some (Some c) \<and> need \<le> c \<and> c \<le> MAX_CAPACITY \<and> copy < c) \<or>
     grow need copy = Some None \<and> (copy = MAX_CAPACITY \<or> need > MAX_CAPACITY)"
  using assms
proof (induction "2 ^ 25 - unat copy" arbitrary: copy rule: less_induct)
  case less
  show ?case
  proof (cases "copy = MAX_CAPACITY")
    case True
    then show ?thesis by (subst (2) grow.simps) simp
  next
    case False
    then have lt: "unat copy < 2 ^ 25" "0 < unat copy"
      using less.prems MAX_CAPACITY_unat(1) by (simp_all add: word_le_nat_alt word_less_nat_alt word_unat_eq_iff)
    define c where "c = (if copy * 2 > MAX_CAPACITY then MAX_CAPACITY else copy * 2)"
    have "unat (copy * 2) = 2 * unat copy" using lt by (simp add: unat_mult_lem[THEN iffD1])
    then have c: "copy < c" "c \<le> MAX_CAPACITY" "unat copy < unat c" "0 < c"
      using lt MAX_CAPACITY_unat by (auto simp: c_def word_less_nat_alt word_le_nat_alt)
    have g: "grow need copy = (if need \<le> c then Some (Some c) else grow need c)"
      using False less.prems by (subst grow.simps) (simp add: c_def Let_def)
    show ?thesis
    proof (cases "need \<le> c")
      case True
      then show ?thesis using g c by auto
    next
      case False
      have "2 ^ 25 - unat c < 2 ^ 25 - unat copy" using lt c(3) by simp
      from less.hyps[OF this c(4,2)] show ?thesis using g False c(1,2) by (auto intro: less_trans)
    qed
  qed
qed


text \<open>Writing a list of pieces is writing their concatenation.\<close>

definition splice :: "nat \<Rightarrow> U8 list \<Rightarrow> U8 list \<Rightarrow> U8 list" where
  "splice off bs blk = take off blk @ bs @ drop (off + length bs) blk"

lemma store_splice:
  "m_pBuf b \<le> p \<Longrightarrow> p + length bs \<le> m_pBuf b + length (block b) \<Longrightarrow>
     store p bs b = Some (b\<lparr>block := splice (p - m_pBuf b) bs (block b)\<rparr>)"
  by (simp add: store_in splice_def)

lemma length_splice [simp]: "off + length bs \<le> length blk \<Longrightarrow> length (splice off bs blk) = length blk"
  by (simp add: splice_def)

lemma splice_splice: "off + length xs \<le> length blk \<Longrightarrow> splice (off + length xs) ys (splice off xs blk) = splice off (xs @ ys) blk"
  by (simp add: splice_def ac_simps)

lemma store_all_splice:
  assumes "m_pBuf b + off + length (concat bss) \<le> m_pBuf b + length (block b)"
  shows "store_all (m_pBuf b + off) bss b = Some (b\<lparr>block := splice off (concat bss) (block b)\<rparr>)"
  using assms
proof (induction bss arbitrary: b off)
  case Nil
  then show ?case by (simp add: splice_def)
next
  case (Cons bs bss)
  let ?b = "b\<lparr>block := splice off bs (block b)\<rparr>"
  have l: "off + length bs + length (concat bss) \<le> length (block b)" using Cons.prems by simp
  have "store_all (m_pBuf ?b + (off + length bs)) bss ?b = Some (?b\<lparr>block := splice (off + length bs) (concat bss) (block ?b)\<rparr>)"
    using l by (intro Cons.IH) simp
  then show ?case
    using l store_splice[of b "m_pBuf b + off" bs] by (simp add: splice_splice add.assoc)
qed

lemma take_drop_splice:
  assumes "st + length q = off" "take (length q) (drop st blk) = q" "off + length bs \<le> length blk"
  shows "take (length q + length bs) (drop st (splice off bs blk)) = q @ bs"
proof -
  have "drop st (take off blk) = q" using assms(2) by (simp add: drop_take assms(1)[symmetric])
  then show ?thesis using assms by (simp add: splice_def)
qed

lemma queue_bytes_simps [simp]:
  "queue_bytes [] = []" "queue_bytes (m # ms) = record_bytes m @ queue_bytes ms"
  "queue_bytes (ms @ ms') = queue_bytes ms @ queue_bytes ms'"
  by (simp_all add: queue_bytes_def)

definition alloc_ok :: "(U32 \<Rightarrow> nat \<times> U8 list) \<Rightarrow> bool" where
  "alloc_ok alloc \<longleftrightarrow> (\<forall>n. length (snd (alloc n)) = unat n)"

definition record_fits :: "U32 \<Rightarrow> cbuffer \<Rightarrow> bool" where
  "record_fits n b \<longleftrightarrow> unat n \<le> unat (m_nCapacity b) - unat (m_nEnd b) \<or>
     m_nCapacity b < MAX_CAPACITY \<and> unat (m_nLength b) + unat n \<le> unat MAX_CAPACITY"

lemma queue_invD:
  assumes "queue_inv k b ms"
  shows "length (block b) = unat (m_nCapacity b)" "0 < m_nCapacity b" "m_nCapacity b \<le> MAX_CAPACITY"
    "unat (m_nStart b) + unat (m_nLength b) = unat (m_nEnd b)" "unat (m_nEnd b) \<le> unat (m_nCapacity b)"
    "unat (m_nLength b) = length (queue_bytes ms)"
    "take (unat (m_nLength b)) (drop (unat (m_nStart b)) (block b)) = queue_bytes ms"
    "\<forall>m \<in> set ms. length (fst m) + 4 = k" "m_nStart b + m_nLength b = m_nEnd b"
    "unat (m_nCapacity b - m_nEnd b) = unat (m_nCapacity b) - unat (m_nEnd b)"
    "unat (m_nCapacity b) \<le> 2 ^ 25"
proof -
  show k: "length (block b) = unat (m_nCapacity b)" "0 < m_nCapacity b" "m_nCapacity b \<le> MAX_CAPACITY"
    "unat (m_nStart b) + unat (m_nLength b) = unat (m_nEnd b)" "unat (m_nEnd b) \<le> unat (m_nCapacity b)"
    "unat (m_nLength b) = length (queue_bytes ms)"
    "take (unat (m_nLength b)) (drop (unat (m_nStart b)) (block b)) = queue_bytes ms"
    "\<forall>m \<in> set ms. length (fst m) + 4 = k"
    using assms unfolding queue_inv_def by blast+
  show "m_nStart b + m_nLength b = m_nEnd b"
    using k(4) unat_lt_U32[of "m_nEnd b"] by (simp add: word_unat_eq_iff unat_word_ariths)
  show "unat (m_nCapacity b - m_nEnd b) = unat (m_nCapacity b) - unat (m_nEnd b)"
    using k(5) by (simp add: unat_sub word_le_nat_alt)
  show "unat (m_nCapacity b) \<le> 2 ^ 25" using k(3) MAX_CAPACITY_unat(1) by (simp add: word_le_nat_alt)
qed

lemma resize_outcome:
  assumes "queue_inv k b ms" "unat n + 2 ^ 25 < 2 ^ 32" "alloc_ok alloc"
  shows "record_fits n b \<Longrightarrow> \<exists>b'. ResizeBuffer alloc n b = Some (True, b') \<and> queue_inv k b' ms \<and>
       unat n \<le> unat (m_nCapacity b') - unat (m_nEnd b')"
    "\<not> record_fits n b \<Longrightarrow> ResizeBuffer alloc n b = Some (False, b)"
proof -
  note q = queue_invD[OF assms(1)]
  have sum: "unat (m_nLength b + n) = unat (m_nLength b) + unat n"
    using q(4,5,11) assms(2) by (simp add: unat_word_ariths)
  let ?expand = "m_nCapacity b - m_nEnd b < n"
  have ex: "?expand \<longleftrightarrow> \<not> unat n \<le> unat (m_nCapacity b) - unat (m_nEnd b)"
    using q(10) by (auto simp: word_less_nat_alt)
  have "(record_fits n b \<longrightarrow> (\<exists>b'. ResizeBuffer alloc n b = Some (True, b') \<and> queue_inv k b' ms \<and>
       unat n \<le> unat (m_nCapacity b') - unat (m_nEnd b'))) \<and>
    (\<not> record_fits n b \<longrightarrow> ResizeBuffer alloc n b = Some (False, b))"
  proof (cases ?expand)
    case False
    then show ?thesis using ex assms(1) q(9) by (auto simp: ResizeBuffer_def record_fits_def)
  next
    case True
    have fits: "record_fits n b \<longleftrightarrow> m_nCapacity b < MAX_CAPACITY \<and> \<not> m_nLength b + n > MAX_CAPACITY"
      using True ex sum by (auto simp: record_fits_def word_less_nat_alt)
    consider (big) "grow (m_nLength b + n) (m_nCapacity b) = Some None" "m_nCapacity b = MAX_CAPACITY \<or> m_nLength b + n > MAX_CAPACITY"
      | (ok) c where "grow (m_nLength b + n) (m_nCapacity b) = Some (Some c)" "m_nLength b + n \<le> c" "c \<le> MAX_CAPACITY" "m_nCapacity b < c"
      using grow_outcome[OF q(2,3), of "m_nLength b + n"] by blast
    then show ?thesis
    proof cases
      case big
      then have "\<not> record_fits n b" using fits by auto
      then show ?thesis using big(1) True q(9) by (simp add: ResizeBuffer_def)
    next
      case ok
      then have "record_fits n b" using fits by (auto simp: not_less)
      obtain p mem where pm: "alloc c = (p, mem)" by (cases "alloc c")
      then have mem: "length mem = unat c" using assms(3) unfolding alloc_ok_def by (metis snd_conv)
      have len: "unat (m_nLength b) + unat n \<le> unat c" using ok(2) sum by (simp add: word_le_nat_alt)
      let ?b = "b\<lparr>m_nCapacity := c, m_pBuf := p, block := queue_bytes ms @ drop (length (queue_bytes ms)) mem, m_nStart := 0, m_nEnd := m_nLength b\<rparr>"
      have "load (m_pBuf b + unat (m_nStart b)) (unat (m_nLength b)) b = Some (queue_bytes ms)"
        using q(1,4,5,7) by (simp add: load_def)
      then have "ResizeBuffer alloc n b = Some (True, ?b)"
        using True ok(1) q(6,9) pm len mem by (simp add: ResizeBuffer_def store_in)
      moreover have "queue_inv k ?b ms"
        using q len mem ok(3,4) by (auto simp: queue_inv_def)
      ultimately show ?thesis using \<open>record_fits n b\<close> len by simp
    qed
  qed
  then show "record_fits n b \<Longrightarrow> \<exists>b'. ResizeBuffer alloc n b = Some (True, b') \<and> queue_inv k b' ms \<and>
       unat n \<le> unat (m_nCapacity b') - unat (m_nEnd b')"
    "\<not> record_fits n b \<Longrightarrow> ResizeBuffer alloc n b = Some (False, b)" by blast+
qed


lemma add_record_outcome:
  assumes "queue_inv k b ms" "alloc_ok alloc" "concat pieces = record_bytes m" "length (fst m) + 4 = k"
    "unat n = length (record_bytes m)" "unat n + 2 ^ 25 < 2 ^ 32"
  shows "record_fits n b \<Longrightarrow> \<exists>b'. AddRecord alloc pieces n b = Some (True, b') \<and> queue_inv k b' (ms @ [m])"
    "\<not> record_fits n b \<Longrightarrow> AddRecord alloc pieces n b = Some (False, b)"
proof -
  show "AddRecord alloc pieces n b = Some (False, b)" if "\<not> record_fits n b"
    using resize_outcome(2)[OF assms(1,6,2) that] by (simp add: AddRecord_def)
  assume "record_fits n b"
  from resize_outcome(1)[OF assms(1,6,2) this] obtain b1 where
    b1: "ResizeBuffer alloc n b = Some (True, b1)" "queue_inv k b1 ms" "unat n \<le> unat (m_nCapacity b1) - unat (m_nEnd b1)" by blast
  note q = queue_invD[OF b1(2)]
  let ?e = "unat (m_nEnd b1)"
  let ?b = "b1\<lparr>block := splice ?e (record_bytes m) (block b1), m_nEnd := m_nEnd b1 + n, m_nLength := m_nLength b1 + n\<rparr>"
  have room: "?e + unat n \<le> unat (m_nCapacity b1)" using b1(3) q(5) by simp
  have le: "n \<le> m_nCapacity b1 - m_nEnd b1" using b1(3) q(10) by (simp add: word_le_nat_alt)
  have st: "store_all (m_pBuf b1 + ?e) pieces b1 = Some (b1\<lparr>block := splice ?e (record_bytes m) (block b1)\<rparr>)"
    unfolding assms(3)[symmetric] by (rule store_all_splice) (use room q(1) assms(3,5) in simp)
  have add: "AddRecord alloc pieces n b = Some (True, ?b)"
    using b1(1) q(9) le st by (simp add: AddRecord_def)
  have w: "unat (m_nEnd b1 + n) = ?e + unat n" "unat (m_nLength b1 + n) = unat (m_nLength b1) + unat n"
    using room q(4,11) by (simp_all add: unat_word_ariths)
  have "take (unat (m_nLength b1) + unat n) (drop (unat (m_nStart b1)) (splice ?e (record_bytes m) (block b1))) = queue_bytes ms @ record_bytes m"
    using take_drop_splice[of "unat (m_nStart b1)" "queue_bytes ms" ?e "block b1" "record_bytes m"] q(1,4,6,7) room assms(5) by simp
  then have "queue_inv k ?b (ms @ [m])"
    using q room w assms(4,5) by (auto simp: queue_inv_def)
  then show "\<exists>b'. AddRecord alloc pieces n b = Some (True, b') \<and> queue_inv k b' (ms @ [m])" using add by blast
qed

text \<open>Reading at the front of the queue.\<close>

lemma record_bytes_length [simp]: "length (record_bytes m) = 4 + length (fst m) + length (snd m)"
  by (simp add: record_bytes_def)

lemma load_front:
  assumes "queue_inv k b (m # ms)" "off + n \<le> length (record_bytes m)"
  shows "load (m_pBuf b + unat (m_nStart b) + off) n b = Some (take n (drop off (record_bytes m)))"
proof -
  note q = queue_invD[OF assms(1)]
  let ?s = "unat (m_nStart b)" and ?l = "unat (m_nLength b)"
  have l: "off + n \<le> ?l" using q(6) assms(2) by simp
  have "take n (drop (?s + off) (block b)) = take n (drop off (take ?l (drop ?s (block b))))"
    using l by (simp add: drop_take add.commute min_absorb1)
  also have "\<dots> = take n (drop off (record_bytes m))" unfolding q(7) using assms(2) by simp
  finally show ?thesis using q(1,4,5) l by (simp add: load_def add.assoc)
qed

lemma queue_empty: "queue_inv k b ms \<Longrightarrow> m_nLength b = 0 \<longleftrightarrow> ms = []"
  using queue_invD(6)[of k b ms] by (cases ms) (auto simp: unat_eq_0[symmetric] record_bytes_def)

lemma queue_length_pos: "queue_inv k b (m # ms) \<Longrightarrow> 0 < m_nLength b"
  using queue_empty[of k b "m # ms"] by (simp add: word_neq_0_conv)

lemma front_length:
  assumes "queue_inv k b (m # ms)"
  shows "load_word (m_pBuf b + unat (m_nStart b)) 4 b = Some (of_nat (length (snd m)) :: U32)"
    "length (snd m) + k + unat (m_nStart b) \<le> unat (m_nCapacity b)"
    "unat (of_nat (length (snd m)) :: U32) = length (snd m)"
proof -
  note q = queue_invD[OF assms]
  show l: "length (snd m) + k + unat (m_nStart b) \<le> unat (m_nCapacity b)" using q(4,5,6,8) by simp
  show "load_word (m_pBuf b + unat (m_nStart b)) 4 b = Some (of_nat (length (snd m)) :: U32)"
    using load_front[OF assms, of 0 4] by (simp add: load_word_def record_bytes_def le_word_le_bytes)
  show "unat (of_nat (length (snd m)) :: U32) = length (snd m)" using l q(11) by (simp add: unat_of_nat)
qed

text \<open>Releasing the whole message at the front.\<close>

lemma queue_inv_reset: "queue_inv k b ms \<Longrightarrow> queue_inv k (reset_buffer b) []"
  by (simp add: queue_inv_def reset_buffer_def)

lemma release_outcome:
  assumes "queue_inv k b (m # ms)"
  shows "\<exists>b'. ReleaseRecord k (of_nat (length (snd m))) b = Some b' \<and> queue_inv k b' ms"
proof -
  note q = queue_invD[OF assms] and f = front_length[OF assms]
  let ?n = "of_nat (length (snd m)) + of_nat k :: U32"
  have n: "unat ?n = length (record_bytes m)"
  proof -
    have "?n = of_nat (length (snd m) + k)" by simp
    moreover have "length (snd m) + k < 2 ^ 32" using f(2) q(11) by simp
    ultimately have "unat ?n = length (snd m) + k" by (simp only: unat_of_nat) simp
    then show ?thesis using q(8) by simp
  qed
  show ?thesis
  proof (cases "?n \<ge> m_nLength b")
    case True
    then have "length (queue_bytes ms) = 0" using n q(6) by (simp add: word_le_nat_alt)
    then have "ms = []" by (cases ms) (simp_all add: record_bytes_def)
    then show ?thesis using True queue_inv_reset[OF assms] by (simp add: ReleaseRecord_def)
  next
    case False
    let ?b = "b\<lparr>m_nLength := m_nLength b - ?n, m_nStart := m_nStart b + ?n\<rparr>"
    have lt: "unat ?n < unat (m_nLength b)" using False by (simp add: word_less_nat_alt not_le)
    have w: "unat (m_nStart b + ?n) = unat (m_nStart b) + unat ?n" "unat (m_nLength b - ?n) = unat (m_nLength b) - unat ?n"
      using lt q(4,5,11) by (simp_all add: unat_word_ariths(1) unat_sub word_le_nat_alt)
    have "\<not> m_nStart b + ?n \<ge> m_nEnd b" using w(1) lt q(4) by (simp add: word_le_nat_alt)
    then have "ReleaseRecord k (of_nat (length (snd m))) b = Some ?b"
      using False f(1) by (simp add: ReleaseRecord_def Let_def)
    moreover have "take (unat (m_nLength b) - unat ?n) (drop (unat (m_nStart b) + unat ?n) (block b)) = queue_bytes ms"
    proof -
      have "take (unat (m_nLength b) - unat ?n) (drop (unat (m_nStart b) + unat ?n) (block b)) =
          drop (unat ?n) (take (unat (m_nLength b)) (drop (unat (m_nStart b)) (block b)))"
        by (simp only: drop_take drop_drop add.commute)
      also have "\<dots> = queue_bytes ms" unfolding q(7) n by simp
      finally show ?thesis .
    qed
    then have "queue_inv k ?b ms" using q w lt n unfolding queue_inv_def by simp
    ultimately show ?thesis by blast
  qed
qed

end
