(* ===== verification/Dgram_Socket.thy ===== *)
theory Dgram_Socket
  imports Dgram_Buffer
begin

text \<open>
  Sending on UDP and raw IP sockets, \<open>platform/network/cross_platform_socket.cpp\<close> with \<open>SendUdp\<close> and
  \<open>SendRaw\<close> of \<open>platform/network/Linux/platform_socket.cpp\<close>.  Both classes keep messages that the
  kernel does not take at once in a queue and send them in order when the socket is writable;
  the locale \<open>dgram_sender\<close> states what the loop and the first send rely on.
\<close>

section \<open>The sockets\<close>

text \<open>Addresses and ports are in network byte order; \<open>None\<close> stands for \<open>send\<close> without an address.
  \<open>m_peer\<close> is the peer of \<open>m_sessionData\<close>, converted by \<open>inet_addr\<close> and \<open>htons\<close>.  The buffer is
  made by the throwing \<open>new\<close>, so it is there.\<close>

type_synonym dest = "U32 \<times> U16"
type_synonym 'k dgram_kernel = "U8 list \<Rightarrow> dest option \<Rightarrow> 'k \<Rightarrow> int \<times> int \<times> 'k"

record dgram_socket =
  m_socketFd :: int
  m_peer :: dest
  m_sendBuffer :: cbuffer

definition DEFAULT_BUFFER_SIZE :: U32 where "DEFAULT_BUFFER_SIZE = 1024 * 1024"

definition DgramSocket :: "int \<Rightarrow> dest \<Rightarrow> (U32 \<Rightarrow> nat \<times> U8 list) \<Rightarrow> dgram_socket" where
  "DgramSocket fd peer alloc =
     \<lparr>m_socketFd = fd, m_peer = peer,
      m_sendBuffer = (case alloc DEFAULT_BUFFER_SIZE of (p, mem) \<Rightarrow> CBuffer DEFAULT_BUFFER_SIZE p mem)\<rparr>"

definition SendUdp ::
  "'k dgram_kernel \<Rightarrow> U8 list \<Rightarrow> U32 \<Rightarrow> U16 \<Rightarrow> dgram_socket \<Rightarrow> 'k \<Rightarrow> int \<times> dgram_socket \<times> 'k" where
  "SendUdp net data dstaddr dstport s k =
     (if m_socketFd s = 0 then (-1, s, k)
      else
        let addr = (if dstaddr = 0 then m_peer s else (dstaddr, dstport)) in
        case net data (Some addr) k of (sendResult, errorCode, k) \<Rightarrow>
          if sendResult > 0 then (sendResult, s, k)
          else if errorCode = EWOULDBLOCK \<or> errorCode = EINTR then (0, s, k)
          else (-1, s, k))"

definition SendRaw ::
  "'k dgram_kernel \<Rightarrow> U8 list \<Rightarrow> U32 \<Rightarrow> dgram_socket \<Rightarrow> 'k \<Rightarrow> int \<times> dgram_socket \<times> 'k" where
  "SendRaw net data dstaddr s k =
     (if m_socketFd s = 0 then (-1, s, k)
      else case net data (if dstaddr \<noteq> 0 then Some (dstaddr, 0) else None) k of (sendResult, errorCode, k) \<Rightarrow>
        if sendResult > 0 then (sendResult, s, k)
        else if errorCode = EWOULDBLOCK \<or> errorCode = EINTR then (0, s, k)
        else (-1, if m_socketFd s \<ge> 0 then s\<lparr>m_socketFd := -1\<rparr> else s, k))"

partial_function (option) UdpSocket_Send0 ::
  "'k dgram_kernel \<Rightarrow> dgram_socket \<Rightarrow> 'k \<Rightarrow> (bool \<times> dgram_socket \<times> 'k) option" where
  "UdpSocket_Send0 net s k =
     Option.bind (GetUdpLength (m_sendBuffer s)) (\<lambda>n.
       if n = 0 then Some (True, s, k)
       else Option.bind (load (GetUdpBuffer (m_sendBuffer s)) (unat n) (m_sendBuffer s)) (\<lambda>buf.
         Option.bind (GetUdpAddr (m_sendBuffer s)) (\<lambda>dstaddr.
           Option.bind (GetUdpPort (m_sendBuffer s)) (\<lambda>dstport.
             case SendUdp net buf dstaddr dstport s k of (ret, s, k) \<Rightarrow>
               if ret < 0 then Some (False, s, k)
               else if ret = 0 then Some (True, s, k)
               else Option.bind (ReleaseUdpBuffer (word_of_int ret) (m_sendBuffer s)) (\<lambda>b.
                 UdpSocket_Send0 net (s\<lparr>m_sendBuffer := b\<rparr>) k)))))"

definition UdpSocket_Send ::
  "(U32 \<Rightarrow> nat \<times> U8 list) \<Rightarrow> 'k dgram_kernel \<Rightarrow> U8 list \<Rightarrow> U32 \<Rightarrow> dest option \<Rightarrow> dgram_socket \<Rightarrow> 'k \<Rightarrow>
     (bool \<times> dgram_socket \<times> 'k) option" where
  "UdpSocket_Send alloc net data n param s k =
     (let (dstaddr, dstport) = (case param of None \<Rightarrow> (0, 0xFFFF) | Some d \<Rightarrow> d);
          add = (\<lambda>s k. case AddUdpBuffer alloc data n dstaddr dstport (m_sendBuffer s) of
                   None \<Rightarrow> None | Some (r, b) \<Rightarrow> Some (r, s\<lparr>m_sendBuffer := b\<rparr>, k))
      in if IsEmpty (m_sendBuffer s) then
           (case SendUdp net data dstaddr dstport s k of (ret, s, k) \<Rightarrow>
              if ret = 0 then add s k
              else if ret < 0 then Some (False, s, k)
              else Some (True, s, k))
         else add s k)"

definition UdpSocket_OnSend :: "U32 \<Rightarrow> dgram_socket \<Rightarrow> dgram_socket option" where
  "UdpSocket_OnSend ioSize s = map_option (\<lambda>b. s\<lparr>m_sendBuffer := b\<rparr>) (ReleaseUdpBuffer ioSize (m_sendBuffer s))"

partial_function (option) RawIPSocket_Send0 ::
  "'k dgram_kernel \<Rightarrow> dgram_socket \<Rightarrow> 'k \<Rightarrow> (bool \<times> dgram_socket \<times> 'k) option" where
  "RawIPSocket_Send0 net s k =
     Option.bind (GetRawIpLength (m_sendBuffer s)) (\<lambda>n.
       if n = 0 then Some (True, s, k)
       else Option.bind (GetDstAddr (m_sendBuffer s)) (\<lambda>dstaddr.
         Option.bind (load (GetRawIpBuffer (m_sendBuffer s)) (unat n) (m_sendBuffer s)) (\<lambda>buf.
           case SendRaw net buf dstaddr s k of (ret, s, k) \<Rightarrow>
             if ret < 0 then Some (False, s, k)
             else if ret = 0 then Some (True, s, k)
             else Option.bind (ReleaseRawIpBuffer n (m_sendBuffer s)) (\<lambda>b.
               RawIPSocket_Send0 net (s\<lparr>m_sendBuffer := b\<rparr>) k))))"

definition RawIPSocket_Send ::
  "(U32 \<Rightarrow> nat \<times> U8 list) \<Rightarrow> 'k dgram_kernel \<Rightarrow> U8 list \<Rightarrow> U32 \<Rightarrow> U32 option \<Rightarrow> dgram_socket \<Rightarrow> 'k \<Rightarrow>
     (bool \<times> dgram_socket \<times> 'k) option" where
  "RawIPSocket_Send alloc net data n param s k =
     (case param of
        None \<Rightarrow> Some (False, s, k)
      | Some dst \<Rightarrow>
        (let add = (\<lambda>s k. case AddRawIpBuffer alloc dst data n (m_sendBuffer s) of
                      None \<Rightarrow> None | Some (r, b) \<Rightarrow> Some (r, s\<lparr>m_sendBuffer := b\<rparr>, k))
         in if IsEmpty (m_sendBuffer s) then
              (case SendRaw net data dst s k of (ret, s, k) \<Rightarrow>
                 if ret = 0 then add s k
                 else if ret < 0 then Some (False, s, k)
                 else Some (True, s, k))
            else add s k))"

definition RawIPSocket_OnSend :: "U32 \<Rightarrow> dgram_socket \<Rightarrow> dgram_socket option" where
  "RawIPSocket_OnSend ioSize s = map_option (\<lambda>b. s\<lparr>m_sendBuffer := b\<rparr>) (ReleaseRawIpBuffer ioSize (m_sendBuffer s))"

section \<open>What a sender of messages relies on\<close>

text \<open>What reaches a socket: a message to send, or the event loop finds it writable.  \<open>acc\<close> collects
  the messages for which \<open>Send\<close> reports success.\<close>

datatype 'r dgram_call = DgramWrite 'r | DgramWritable

fun dgram_run ::
  "('r \<Rightarrow> 's \<Rightarrow> 'k \<Rightarrow> (bool \<times> 's \<times> 'k) option) \<Rightarrow> ('s \<Rightarrow> 'k \<Rightarrow> (bool \<times> 's \<times> 'k) option) \<Rightarrow>
     'r dgram_call list \<Rightarrow> 's \<Rightarrow> 'k \<Rightarrow> 'r list \<Rightarrow> ('s \<times> 'k \<times> 'r list) option" where
  "dgram_run put send0 [] s k acc = Some (s, k, acc)"
| "dgram_run put send0 (DgramWrite r # cs) s k acc =
     (case put r s k of None \<Rightarrow> None
      | Some (ok, s', k') \<Rightarrow> dgram_run put send0 cs s' k' (if ok then acc @ [r] else acc))"
| "dgram_run put send0 (DgramWritable # cs) s k acc =
     (case send0 s k of None \<Rightarrow> None | Some (_, s', k') \<Rightarrow> dgram_run put send0 cs s' k' acc)"

fun call_good :: "('r \<Rightarrow> bool) \<Rightarrow> 'r dgram_call \<Rightarrow> bool" where
  "call_good good (DgramWrite r) \<longleftrightarrow> good r"
| "call_good good DgramWritable \<longleftrightarrow> True"

text \<open>\<open>holds s rs\<close>: the socket holds the messages \<open>rs\<close>.  \<open>send\<close> is one attempt, positive when the kernel
  has taken the message; \<open>wire\<close> are the messages taken so far, as \<open>shown\<close> to the receivers.\<close>

locale dgram_sender =
  fixes holds :: "'s \<Rightarrow> 'r list \<Rightarrow> bool"
    and good :: "'r \<Rightarrow> bool"
    and send :: "'r \<Rightarrow> 's \<Rightarrow> 'k \<Rightarrow> int \<times> 's \<times> 'k"
    and send0 :: "'s \<Rightarrow> 'k \<Rightarrow> (bool \<times> 's \<times> 'k) option"
    and put :: "'r \<Rightarrow> 's \<Rightarrow> 'k \<Rightarrow> (bool \<times> 's \<times> 'k) option"
    and wire :: "'k \<Rightarrow> 'w list"
    and shown :: "'r \<Rightarrow> 'w"
  assumes send_wire: "holds s rs \<Longrightarrow> send r s k = (ret, s', k') \<Longrightarrow>
      wire k' = (if ret > 0 then wire k @ [shown r] else wire k)"
    and send_holds: "holds s rs \<Longrightarrow> send r s k = (ret, s', k') \<Longrightarrow> holds s' rs"
    and send0_empty: "holds s [] \<Longrightarrow> send0 s k = Some (True, s, k)"
    and send0_stops: "holds s (r # rs) \<Longrightarrow> send r s k = (ret, s', k') \<Longrightarrow> ret \<le> 0 \<Longrightarrow> send0 s k = Some (ret = 0, s', k')"
    and send0_goes_on: "holds s (r # rs) \<Longrightarrow> send r s k = (ret, s', k') \<Longrightarrow> ret > 0 \<Longrightarrow>
      \<exists>s''. holds s'' rs \<and> send0 s k = send0 s'' k'"
    and write_first: "holds s [] \<Longrightarrow> good r \<Longrightarrow> send r s k = (ret, s', k') \<Longrightarrow> ret \<noteq> 0 \<Longrightarrow> put r s k = Some (ret > 0, s', k')"
    and write_blocked: "holds s [] \<Longrightarrow> good r \<Longrightarrow> send r s k = (ret, s', k') \<Longrightarrow> ret = 0 \<Longrightarrow>
      \<exists>ok s''. put r s k = Some (ok, s'', k') \<and> holds s'' (if ok then [r] else [])"
    and write_queued: "holds s rs \<Longrightarrow> rs \<noteq> [] \<Longrightarrow> good r \<Longrightarrow>
      \<exists>ok s'. put r s k = Some (ok, s', k) \<and> holds s' (if ok then rs @ [r] else rs)"
begin

lemma send0_prefix:
  "holds s rs \<Longrightarrow> \<exists>ret s' k' rs1 rs2. send0 s k = Some (ret, s', k') \<and> rs = rs1 @ rs2 \<and> holds s' rs2 \<and>
     wire k' = wire k @ map shown rs1"
proof (induction rs arbitrary: s k)
  case Nil
  then show ?case using send0_empty[OF Nil] by auto
next
  case (Cons r rs)
  obtain ret s' k' where t: "send r s k = (ret, s', k')" by (cases "send r s k")
  note w = send_wire[OF Cons.prems t] and h = send_holds[OF Cons.prems t]
  show ?case
  proof (cases "ret > 0")
    case False
    then show ?thesis using send0_stops[OF Cons.prems t] w h by (auto intro!: exI[of _ "[]"])
  next
    case True
    from send0_goes_on[OF Cons.prems t True] obtain s2 where s2: "holds s2 rs" "send0 s k = send0 s2 k'" by blast
    from Cons.IH[OF s2(1), of k'] obtain ret3 s3 k3 rs1 rs2 where
      "send0 s2 k' = Some (ret3, s3, k3)" "rs = rs1 @ rs2" "holds s3 rs2" "wire k3 = wire k' @ map shown rs1" by blast
    then show ?thesis using s2(2) w True by (intro exI[of _ ret3] exI[of _ s3] exI[of _ k3] exI[of _ "r # rs1"] exI[of _ rs2]) simp
  qed
qed

lemma write_outcome:
  assumes "holds s rs" "good r"
  shows "\<exists>ok s' k' rs'. put r s k = Some (ok, s', k') \<and> holds s' rs' \<and>
     wire k' @ map shown rs' = wire k @ map shown rs @ (if ok then [shown r] else [])"
proof (cases "rs = []")
  case False
  from write_queued[OF assms(1) False assms(2), of k] obtain ok s' where
    "put r s k = Some (ok, s', k)" "holds s' (if ok then rs @ [r] else rs)" by blast
  then show ?thesis by (intro exI[of _ ok] exI[of _ s'] exI[of _ k] exI[of _ "if ok then rs @ [r] else rs"]) auto
next
  case True
  obtain ret s' k' where t: "send r s k = (ret, s', k')" by (cases "send r s k")
  note w = send_wire[OF assms(1) t] and h = send_holds[OF assms(1) t]
  show ?thesis
  proof (cases "ret = 0")
    case False
    then show ?thesis using write_first[OF _ assms(2) t] assms(1) True w h by auto
  next
    case blocked: True
    from write_blocked[OF _ assms(2) t blocked] assms(1) True obtain ok s2 where
      "put r s k = Some (ok, s2, k')" "holds s2 (if ok then [r] else [])" by auto
    then show ?thesis using w blocked True
      by (intro exI[of _ ok] exI[of _ s2] exI[of _ k'] exI[of _ "if ok then [r] else []"]) auto
  qed
qed

text \<open>What was accepted is what is on the wire followed by what the socket holds.\<close>

lemma run_outcome:
  assumes "holds s rs" "list_all (call_good good) cs" "map shown acc = wire k @ map shown rs"
  shows "\<exists>s' k' acc' rs'. dgram_run put send0 cs s k acc = Some (s', k', acc') \<and> holds s' rs' \<and>
     map shown acc' = wire k' @ map shown rs'"
  using assms
proof (induction cs arbitrary: s rs k acc)
  case (Cons c cs)
  show ?case
  proof (cases c)
    case (DgramWrite r)
    with Cons.prems(2) have "good r" by simp
    from write_outcome[OF Cons.prems(1) this, of k] obtain ok s' k' rs' where
      "put r s k = Some (ok, s', k')" "holds s' rs'"
      "wire k' @ map shown rs' = wire k @ map shown rs @ (if ok then [shown r] else [])" by blast
    then show ?thesis
      using Cons.IH[of s' rs' "if ok then acc @ [r] else acc" k'] Cons.prems(2,3) DgramWrite by (cases ok) simp_all
  next
    case DgramWritable
    from send0_prefix[OF Cons.prems(1), of k] obtain ret s' k' rs1 rs2 where
      "send0 s k = Some (ret, s', k')" "rs = rs1 @ rs2" "holds s' rs2" "wire k' = wire k @ map shown rs1" by blast
    then show ?thesis using Cons.IH[of s' rs2 acc k'] Cons.prems(2,3) DgramWritable by simp
  qed
qed auto

end

section \<open>The kernel and its record of messages\<close>

text \<open>A datagram socket takes a message as a whole or not at all.\<close>

definition whole_kernel :: "'k dgram_kernel \<Rightarrow> bool" where
  "whole_kernel net \<longleftrightarrow> (\<forall>d a k. fst (net d a k) \<le> 0 \<or> fst (net d a k) = int (length d))"

definition recorded :: "'k dgram_kernel \<Rightarrow> ('k \<times> (dest option \<times> U8 list) list) dgram_kernel" where
  "recorded net d a kw =
     (case net d a (fst kw) of (r, e, k') \<Rightarrow> (r, e, (k', if r > 0 then snd kw @ [(a, d)] else snd kw)))"

lemma recorded_whole: "whole_kernel net \<Longrightarrow> whole_kernel (recorded net)"
  by (auto simp: whole_kernel_def recorded_def split: prod.splits) (metis fst_conv)

section \<open>UDP\<close>

type_synonym udp_message = "U32 \<times> U16 \<times> U8 list"

fun udp_enc :: "udp_message \<Rightarrow> message" where
  "udp_enc (a, p, d) = (le_bytes 4 a @ le_bytes 2 p, d)"

fun udp_good :: "udp_message \<Rightarrow> bool" where
  "udp_good (a, p, d) \<longleftrightarrow> d \<noteq> [] \<and> length d + 10 + 2 ^ 25 < 2 ^ 32"

fun udp_shown :: "dest \<Rightarrow> udp_message \<Rightarrow> dest option \<times> U8 list" where
  "udp_shown peer (a, p, d) = (Some (if a = 0 then peer else (a, p)), d)"

definition udp_holds ::
  "'k dgram_kernel \<Rightarrow> (U32 \<Rightarrow> nat \<times> U8 list) \<Rightarrow> dest \<Rightarrow> dgram_socket \<Rightarrow> udp_message list \<Rightarrow> bool" where
  "udp_holds net alloc peer s rs \<longleftrightarrow> whole_kernel net \<and> alloc_ok alloc \<and> m_peer s = peer \<and>
     queue_inv 10 (m_sendBuffer s) (map udp_enc rs) \<and> list_all udp_good rs"

fun udp_send :: "'k dgram_kernel \<Rightarrow> udp_message \<Rightarrow> dgram_socket \<Rightarrow> 'k \<Rightarrow> int \<times> dgram_socket \<times> 'k" where
  "udp_send net (a, p, d) s k = SendUdp net d a p s k"

fun udp_put :: "(U32 \<Rightarrow> nat \<times> U8 list) \<Rightarrow> 'k dgram_kernel \<Rightarrow> udp_message \<Rightarrow> dgram_socket \<Rightarrow> 'k \<Rightarrow> (bool \<times> dgram_socket \<times> 'k) option" where
  "udp_put alloc net (a, p, d) s k = UdpSocket_Send alloc net d (of_nat (length d)) (Some (a, p)) s k"

lemma udp_front:
  assumes "queue_inv 10 b (udp_enc (a, p, d) # ms)"
  shows "GetUdpLength b = Some (of_nat (length d))" "GetUdpAddr b = Some a" "GetUdpPort b = Some p"
    "load (GetUdpBuffer b) (unat (of_nat (length d) :: U32)) b = Some d"
proof -
  note f = front_length[OF assms] and pos = queue_length_pos[OF assms]
  have l: "off + n \<le> 10 + length d \<Longrightarrow> load (m_pBuf b + unat (m_nStart b) + off) n b =
      Some (take n (drop off (record_bytes (udp_enc (a, p, d)))))" for off n
    by (rule load_front[OF assms]) simp
  show "GetUdpLength b = Some (of_nat (length d))" using f(1) pos by (simp add: GetUdpLength_def)
  show "GetUdpAddr b = Some a" using l[of 4 4] pos
    by (simp add: GetUdpAddr_def load_word_def record_bytes_def le_word_le_bytes)
  show "GetUdpPort b = Some p" using l[of 8 2] pos
    by (simp add: GetUdpPort_def load_word_def record_bytes_def le_word_le_bytes add.assoc)
  show "load (GetUdpBuffer b) (unat (of_nat (length d) :: U32)) b = Some d"
    using l[of 10 "length d"] f(3) by (simp add: GetUdpBuffer_def record_bytes_def ac_simps)
qed

lemma udp_send_cases:
  assumes "udp_send (recorded net) r s k = (ret, s', k')" "whole_kernel net"
  shows "s' = s" "snd k' = (if ret > 0 then snd k @ [udp_shown (m_peer s) r] else snd k)"
    "ret > 0 \<Longrightarrow> ret = int (length (snd (snd r)))"
proof -
  obtain a p d where r: "r = (a, p, d)" by (cases r)
  obtain x e k2 where n: "net d (Some (if a = 0 then m_peer s else (a, p))) (fst k) = (x, e, k2)"
    by (cases "net d (Some (if a = 0 then m_peer s else (a, p))) (fst k)")
  have "x \<le> 0 \<or> x = int (length d)" using assms(2) n unfolding whole_kernel_def by (metis fst_conv)
  then show "s' = s" "snd k' = (if ret > 0 then snd k @ [udp_shown (m_peer s) r] else snd k)"
    "ret > 0 \<Longrightarrow> ret = int (length (snd (snd r)))"
    using assms(1) r n by (auto simp: SendUdp_def recorded_def Let_def split: if_splits)
qed

text \<open>Putting a message behind the others.\<close>

fun udp_queue :: "(U32 \<Rightarrow> nat \<times> U8 list) \<Rightarrow> udp_message \<Rightarrow> dgram_socket \<Rightarrow> 'k \<Rightarrow> (bool \<times> dgram_socket \<times> 'k) option" where
  "udp_queue alloc (a, p, d) s k =
     (case AddUdpBuffer alloc d (of_nat (length d)) a p (m_sendBuffer s) of
        None \<Rightarrow> None | Some (r, b) \<Rightarrow> Some (r, s\<lparr>m_sendBuffer := b\<rparr>, k))"

lemma udp_put_eq:
  "udp_put alloc net r s k =
     (if IsEmpty (m_sendBuffer s) then
        (case udp_send net r s k of (ret, s, k) \<Rightarrow>
           if ret = 0 then udp_queue alloc r s k else if ret < 0 then Some (False, s, k) else Some (True, s, k))
      else udp_queue alloc r s k)"
proof -
  obtain a p d where r: "r = (a, p, d)" by (cases r)
  show ?thesis unfolding r by (simp add: UdpSocket_Send_def Let_def split: prod.split)
qed

lemma udp_empty: "udp_holds net alloc peer s rs \<Longrightarrow> IsEmpty (m_sendBuffer s) \<longleftrightarrow> rs = []"
  using queue_empty[of 10 "m_sendBuffer s" "map udp_enc rs"] by (simp add: udp_holds_def IsEmpty_def)

lemma udp_add_cases:
  assumes "queue_inv 10 b ms" "alloc_ok alloc" "length d + 10 + 2 ^ 25 < 2 ^ 32"
  shows "if length d + 10 \<le> unat (m_nCapacity b) - unat (m_nEnd b) \<or>
       m_nCapacity b < MAX_CAPACITY \<and> unat (m_nLength b) + length d + 10 \<le> unat MAX_CAPACITY
     then \<exists>b'. AddUdpBuffer alloc d (of_nat (length d)) a p b = Some (True, b') \<and> queue_inv 10 b' (ms @ [udp_enc (a, p, d)])
     else AddUdpBuffer alloc d (of_nat (length d)) a p b = Some (False, b)"
proof -
  let ?n = "of_nat (length d) + 4 + 4 + 2 :: U32"
  let ?ps = "[le_bytes 4 (of_nat (length d) :: U32), le_bytes 4 a, le_bytes 2 p, take (unat (of_nat (length d) :: U32)) d]"
  have "?n = of_nat (length d + 10)" by simp
  then have n: "unat ?n = length d + 10" using assms(3) by (simp only: unat_of_nat) simp
  have "unat (of_nat (length d) :: U32) = length d" using assms(3) by (simp add: unat_of_nat)
  then have ps: "concat ?ps = record_bytes (udp_enc (a, p, d))" by (simp add: record_bytes_def)
  have r: "unat ?n = length (record_bytes (udp_enc (a, p, d)))" "unat ?n + 2 ^ 25 < 2 ^ 32" using n assms(3) by simp_all
  have fits: "record_fits ?n b \<longleftrightarrow> length d + 10 \<le> unat (m_nCapacity b) - unat (m_nEnd b) \<or>
       m_nCapacity b < MAX_CAPACITY \<and> unat (m_nLength b) + length d + 10 \<le> unat MAX_CAPACITY"
    unfolding record_fits_def n by (simp add: add.assoc)
  show ?thesis
    using add_record_outcome[OF assms(1,2) ps _ r] unfolding fits AddUdpBuffer_def by (auto simp: add.assoc)
qed

lemma udp_added:
  assumes "udp_holds net alloc peer s rs" "udp_good r"
  obtains ok s' where "udp_queue alloc r s k = Some (ok, s', k)" "udp_holds net alloc peer s' (if ok then rs @ [r] else rs)"
proof -
  obtain a p d where r: "r = (a, p, d)" by (cases r)
  have h: "alloc_ok alloc" "queue_inv 10 (m_sendBuffer s) (map udp_enc rs)" "length d + 10 + 2 ^ 25 < 2 ^ 32"
    using assms r by (simp_all add: udp_holds_def)
  show thesis
  proof (cases "\<exists>b'. AddUdpBuffer alloc d (of_nat (length d)) a p (m_sendBuffer s) = Some (True, b') \<and>
      queue_inv 10 b' (map udp_enc rs @ [udp_enc (a, p, d)])")
    case True
    then obtain b' where "AddUdpBuffer alloc d (of_nat (length d)) a p (m_sendBuffer s) = Some (True, b')"
      "queue_inv 10 b' (map udp_enc rs @ [udp_enc (a, p, d)])" by blast
    then show thesis using assms r by (intro that[of True "s\<lparr>m_sendBuffer := b'\<rparr>"]) (simp_all add: udp_holds_def)
  next
    case False
    then have "AddUdpBuffer alloc d (of_nat (length d)) a p (m_sendBuffer s) = Some (False, m_sendBuffer s)"
      using udp_add_cases[OF h(2,1,3), of a p] by (auto split: if_splits)
    then show thesis using assms(1) r by (intro that[of False s]) simp_all
  qed
qed

lemma udp_step:
  assumes "queue_inv 10 (m_sendBuffer s) (udp_enc (a, p, d) # ms)" "udp_good (a, p, d)"
  shows "UdpSocket_Send0 net s k = (case SendUdp net d a p s k of (ret, s, k) \<Rightarrow>
       if ret < 0 then Some (False, s, k)
       else if ret = 0 then Some (True, s, k)
       else Option.bind (ReleaseUdpBuffer (word_of_int ret) (m_sendBuffer s)) (\<lambda>b.
         UdpSocket_Send0 net (s\<lparr>m_sendBuffer := b\<rparr>) k))"
proof -
  note f = udp_front[OF assms(1)]
  have "of_nat (length d) \<noteq> (0 :: U32)"
    using front_length(3)[OF assms(1)] assms(2) by (auto simp: unat_eq_0[symmetric] simp del: of_nat_eq_0_iff)
  then show ?thesis by (subst UdpSocket_Send0.simps) (simp add: f)
qed

interpretation udp: dgram_sender "udp_holds net alloc peer" udp_good "udp_send (recorded net)"
    "UdpSocket_Send0 (recorded net)" "udp_put alloc (recorded net)" snd "udp_shown peer"
  for net :: "'k dgram_kernel" and alloc peer
proof (unfold_locales, goal_cases)
  case (1 s rs r k ret s' k')
  then show ?case using udp_send_cases(2)[OF 1(2)] by (simp add: udp_holds_def)
next
  case (2 s rs r k ret s' k')
  then show ?case using udp_send_cases(1)[OF 2(2)] by (simp add: udp_holds_def)
next
  case (3 s k)
  then have "GetUdpLength (m_sendBuffer s) = Some 0"
    using queue_empty[of 10 "m_sendBuffer s" "[]"] by (simp add: udp_holds_def GetUdpLength_def)
  then show ?case by (subst UdpSocket_Send0.simps) simp
next
  case (4 s r rs k ret s' k')
  obtain a p d where r: "r = (a, p, d)" by (cases r)
  from 4(1) r have "queue_inv 10 (m_sendBuffer s) (udp_enc (a, p, d) # map udp_enc rs)" "udp_good (a, p, d)"
    by (simp_all add: udp_holds_def)
  from udp_step[OF this, of "recorded net" k] show ?case using 4(2,3) r by (cases "ret < 0") simp_all
next
  case (5 s r rs k ret s' k')
  obtain a p d where r: "r = (a, p, d)" by (cases r)
  from 5(1) r have q: "queue_inv 10 (m_sendBuffer s) (udp_enc (a, p, d) # map udp_enc rs)" "udp_good (a, p, d)"
    by (simp_all add: udp_holds_def)
  have "whole_kernel net" using 5(1) by (simp add: udp_holds_def)
  note c = udp_send_cases[OF 5(2) this]
  from release_outcome[OF q(1)] obtain b' where
    b': "ReleaseUdpBuffer (of_nat (length d)) (m_sendBuffer s) = Some b'" "queue_inv 10 b' (map udp_enc rs)"
    by (auto simp: ReleaseUdpBuffer_def)
  have "(word_of_int ret :: U32) = of_nat (length d)" using c(3) 5(3) r by simp
  then have "UdpSocket_Send0 (recorded net) s k = UdpSocket_Send0 (recorded net) (s\<lparr>m_sendBuffer := b'\<rparr>) k'"
    using udp_step[OF q, of "recorded net" k] 5(2,3) r b'(1) c(1) by simp
  moreover have "udp_holds net alloc peer (s\<lparr>m_sendBuffer := b'\<rparr>) rs" using 5(1) b'(2) by (simp add: udp_holds_def)
  ultimately show ?case by blast
next
  case (6 s r k ret s' k')
  then show ?case using udp_empty[OF 6(1)] by (simp add: udp_put_eq)
next
  case (7 s r k ret s' k')
  have "s' = s" using udp_send_cases(1)[OF 7(3)] 7(1) by (simp add: udp_holds_def)
  then have "udp_put alloc (recorded net) r s k = udp_queue alloc r s k'"
    using udp_empty[OF 7(1)] 7(3,4) by (simp add: udp_put_eq)
  moreover obtain ok s2 where "udp_queue alloc r s k' = Some (ok, s2, k')" "udp_holds net alloc peer s2 (if ok then [] @ [r] else [])"
    by (rule udp_added[OF 7(1,2)])
  ultimately show ?case by (intro exI[of _ ok] exI[of _ s2]) (simp cong: if_cong)
next
  case (8 s rs r k)
  then have "udp_put alloc (recorded net) r s k = udp_queue alloc r s k"
    using udp_empty[OF 8(1)] by (simp add: udp_put_eq)
  moreover obtain ok s2 where "udp_queue alloc r s k = Some (ok, s2, k)" "udp_holds net alloc peer s2 (if ok then rs @ [r] else rs)"
    by (rule udp_added[OF 8(1,3)])
  ultimately show ?case by (intro exI[of _ ok] exI[of _ s2]) (simp cong: if_cong)
qed

text \<open>A datagram without data that got into the queue is taken for the end of the queue.\<close>

lemma udp_empty_datagram_blocks:
  assumes "queue_inv 10 (m_sendBuffer s) (udp_enc (a, p, []) # ms)"
  shows "UdpSocket_Send0 net s k = Some (True, s, k)"
  using udp_front(1)[OF assms] by (subst UdpSocket_Send0.simps) simp

section \<open>Raw IP\<close>

type_synonym raw_message = "U32 \<times> U8 list"

fun raw_enc :: "raw_message \<Rightarrow> message" where "raw_enc (a, d) = (le_bytes 4 a, d)"

fun raw_good :: "raw_message \<Rightarrow> bool" where
  "raw_good (a, d) \<longleftrightarrow> d \<noteq> [] \<and> length d + 8 + 2 ^ 25 < 2 ^ 32"

fun raw_shown :: "raw_message \<Rightarrow> dest option \<times> U8 list" where
  "raw_shown (a, d) = (if a \<noteq> 0 then Some (a, 0) else None, d)"

definition raw_holds ::
  "'k dgram_kernel \<Rightarrow> (U32 \<Rightarrow> nat \<times> U8 list) \<Rightarrow> dgram_socket \<Rightarrow> raw_message list \<Rightarrow> bool" where
  "raw_holds net alloc s rs \<longleftrightarrow> whole_kernel net \<and> alloc_ok alloc \<and>
     queue_inv 8 (m_sendBuffer s) (map raw_enc rs) \<and> list_all raw_good rs"

fun raw_send :: "'k dgram_kernel \<Rightarrow> raw_message \<Rightarrow> dgram_socket \<Rightarrow> 'k \<Rightarrow> int \<times> dgram_socket \<times> 'k" where
  "raw_send net (a, d) s k = SendRaw net d a s k"

fun raw_put :: "(U32 \<Rightarrow> nat \<times> U8 list) \<Rightarrow> 'k dgram_kernel \<Rightarrow> raw_message \<Rightarrow> dgram_socket \<Rightarrow> 'k \<Rightarrow> (bool \<times> dgram_socket \<times> 'k) option" where
  "raw_put alloc net (a, d) s k = RawIPSocket_Send alloc net d (of_nat (length d)) (Some a) s k"

fun raw_queue :: "(U32 \<Rightarrow> nat \<times> U8 list) \<Rightarrow> raw_message \<Rightarrow> dgram_socket \<Rightarrow> 'k \<Rightarrow> (bool \<times> dgram_socket \<times> 'k) option" where
  "raw_queue alloc (a, d) s k =
     (case AddRawIpBuffer alloc a d (of_nat (length d)) (m_sendBuffer s) of
        None \<Rightarrow> None | Some (r, b) \<Rightarrow> Some (r, s\<lparr>m_sendBuffer := b\<rparr>, k))"

lemma raw_put_eq:
  "raw_put alloc net r s k =
     (if IsEmpty (m_sendBuffer s) then
        (case raw_send net r s k of (ret, s, k) \<Rightarrow>
           if ret = 0 then raw_queue alloc r s k else if ret < 0 then Some (False, s, k) else Some (True, s, k))
      else raw_queue alloc r s k)"
proof -
  obtain a d where r: "r = (a, d)" by (cases r)
  show ?thesis unfolding r by (simp add: RawIPSocket_Send_def Let_def split: prod.split)
qed

lemma raw_empty: "raw_holds net alloc s rs \<Longrightarrow> IsEmpty (m_sendBuffer s) \<longleftrightarrow> rs = []"
  using queue_empty[of 8 "m_sendBuffer s" "map raw_enc rs"] by (simp add: raw_holds_def IsEmpty_def)

lemma raw_front:
  assumes "queue_inv 8 b (raw_enc (a, d) # ms)"
  shows "GetRawIpLength b = Some (of_nat (length d))" "GetDstAddr b = Some a"
    "load (GetRawIpBuffer b) (unat (of_nat (length d) :: U32)) b = Some d"
proof -
  note f = front_length[OF assms] and pos = queue_length_pos[OF assms]
  have l: "off + n \<le> 8 + length d \<Longrightarrow> load (m_pBuf b + unat (m_nStart b) + off) n b =
      Some (take n (drop off (record_bytes (raw_enc (a, d)))))" for off n
    by (rule load_front[OF assms]) simp
  show "GetRawIpLength b = Some (of_nat (length d))" using f(1) pos by (simp add: GetRawIpLength_def)
  show "GetDstAddr b = Some a" using l[of 4 4] pos
    by (simp add: GetDstAddr_def load_word_def record_bytes_def le_word_le_bytes)
  show "load (GetRawIpBuffer b) (unat (of_nat (length d) :: U32)) b = Some d"
    using l[of 8 "length d"] f(3) by (simp add: GetRawIpBuffer_def record_bytes_def ac_simps)
qed

lemma raw_send_cases:
  assumes "raw_send (recorded net) r s k = (ret, s', k')"
  shows "m_sendBuffer s' = m_sendBuffer s" "snd k' = (if ret > 0 then snd k @ [raw_shown r] else snd k)"
    "ret > 0 \<Longrightarrow> s' = s"
proof -
  obtain a d where r: "r = (a, d)" by (cases r)
  obtain x e k2 where n: "net d (if a \<noteq> 0 then Some (a, 0) else None) (fst k) = (x, e, k2)"
    by (cases "net d (if a \<noteq> 0 then Some (a, 0) else None) (fst k)")
  then show "m_sendBuffer s' = m_sendBuffer s" "snd k' = (if ret > 0 then snd k @ [raw_shown r] else snd k)" "ret > 0 \<Longrightarrow> s' = s"
    using assms r by (auto simp: SendRaw_def recorded_def Let_def split: if_splits)
qed

lemma raw_added:
  assumes "raw_holds net alloc s rs" "raw_good r"
  obtains ok s' where "raw_queue alloc r s k = Some (ok, s', k)" "raw_holds net alloc s' (if ok then rs @ [r] else rs)"
proof -
  obtain a d where r: "r = (a, d)" by (cases r)
  let ?n = "of_nat (length d) + 4 + 4 :: U32" and ?b = "m_sendBuffer s"
  let ?ps = "[le_bytes 4 (of_nat (length d) :: U32), le_bytes 4 a, take (unat (of_nat (length d) :: U32)) d]"
  have h: "alloc_ok alloc" "queue_inv 8 ?b (map raw_enc rs)" using assms(1) by (simp_all add: raw_holds_def)
  have d: "length d + 8 + 2 ^ 25 < 2 ^ 32" using assms(2) r by simp
  have "?n = of_nat (length d + 8)" by simp
  then have n: "unat ?n = length d + 8" using d by (simp only: unat_of_nat) simp
  have "unat (of_nat (length d) :: U32) = length d" using d by (simp add: unat_of_nat)
  then have ps: "concat ?ps = record_bytes (raw_enc (a, d))" by (simp add: record_bytes_def)
  note A = add_record_outcome[OF h(2,1) ps, of ?n, simplified n]
  show thesis
  proof (cases "record_fits ?n ?b")
    case True
    have "\<exists>b'. AddRecord alloc ?ps ?n ?b = Some (True, b') \<and> queue_inv 8 b' (map raw_enc rs @ [raw_enc (a, d)])"
      by (rule A(1)) (use d True in simp_all)
    then obtain b' where "AddRecord alloc ?ps ?n ?b = Some (True, b')" "queue_inv 8 b' (map raw_enc rs @ [raw_enc (a, d)])" by blast
    then show thesis
      using assms r by (intro that[of True "s\<lparr>m_sendBuffer := b'\<rparr>"]) (simp_all add: AddRawIpBuffer_def raw_holds_def)
  next
    case False
    have "AddRecord alloc ?ps ?n ?b = Some (False, ?b)"
      by (rule A(2)) (use d False in simp_all)
    then show thesis using assms(1) r by (intro that[of False s]) (simp_all add: AddRawIpBuffer_def)
  qed
qed

lemma raw_step:
  assumes "queue_inv 8 (m_sendBuffer s) (raw_enc (a, d) # ms)" "raw_good (a, d)"
  shows "RawIPSocket_Send0 net s k = (case SendRaw net d a s k of (ret, s, k) \<Rightarrow>
       if ret < 0 then Some (False, s, k)
       else if ret = 0 then Some (True, s, k)
       else Option.bind (ReleaseRawIpBuffer (of_nat (length d)) (m_sendBuffer s)) (\<lambda>b.
         RawIPSocket_Send0 net (s\<lparr>m_sendBuffer := b\<rparr>) k))"
proof -
  note f = raw_front[OF assms(1)]
  have "of_nat (length d) \<noteq> (0 :: U32)"
    using front_length(3)[OF assms(1)] assms(2) by (auto simp: unat_eq_0[symmetric] simp del: of_nat_eq_0_iff)
  then show ?thesis by (subst RawIPSocket_Send0.simps) (simp add: f)
qed

interpretation raw: dgram_sender "raw_holds net alloc" raw_good "raw_send (recorded net)"
    "RawIPSocket_Send0 (recorded net)" "raw_put alloc (recorded net)" snd raw_shown
  for net :: "'k dgram_kernel" and alloc
proof (unfold_locales, goal_cases)
  case (1 s rs r k ret s' k')
  then show ?case using raw_send_cases(2)[OF 1(2)] by simp
next
  case (2 s rs r k ret s' k')
  then show ?case using raw_send_cases(1)[OF 2(2)] by (simp add: raw_holds_def)
next
  case (3 s k)
  then have "GetRawIpLength (m_sendBuffer s) = Some 0"
    using queue_empty[of 8 "m_sendBuffer s" "[]"] by (simp add: raw_holds_def GetRawIpLength_def)
  then show ?case by (subst RawIPSocket_Send0.simps) simp
next
  case (4 s r rs k ret s' k')
  obtain a d where r: "r = (a, d)" by (cases r)
  from 4(1) r have "queue_inv 8 (m_sendBuffer s) (raw_enc (a, d) # map raw_enc rs)" "raw_good (a, d)"
    by (simp_all add: raw_holds_def)
  from raw_step[OF this, of "recorded net" k] show ?case using 4(2,3) r by (cases "ret < 0") simp_all
next
  case (5 s r rs k ret s' k')
  obtain a d where r: "r = (a, d)" by (cases r)
  from 5(1) r have q: "queue_inv 8 (m_sendBuffer s) (raw_enc (a, d) # map raw_enc rs)" "raw_good (a, d)"
    by (simp_all add: raw_holds_def)
  from release_outcome[OF q(1)] obtain b' where
    b': "ReleaseRawIpBuffer (of_nat (length d)) (m_sendBuffer s) = Some b'" "queue_inv 8 b' (map raw_enc rs)"
    by (auto simp: ReleaseRawIpBuffer_def)
  have "RawIPSocket_Send0 (recorded net) s k = RawIPSocket_Send0 (recorded net) (s\<lparr>m_sendBuffer := b'\<rparr>) k'"
    using raw_step[OF q, of "recorded net" k] 5(2,3) r b'(1) raw_send_cases(3)[OF 5(2,3)] by simp
  moreover have "raw_holds net alloc (s\<lparr>m_sendBuffer := b'\<rparr>) rs" using 5(1) b'(2) by (simp add: raw_holds_def)
  ultimately show ?case by blast
next
  case (6 s r k ret s' k')
  then show ?case using raw_empty[OF 6(1)] by (simp add: raw_put_eq)
next
  case (7 s r k ret s' k')
  have "raw_holds net alloc s' []" using 7(1) raw_send_cases(1)[OF 7(3)] by (simp add: raw_holds_def)
  moreover have "raw_put alloc (recorded net) r s k = raw_queue alloc r s' k'"
    using raw_empty[OF 7(1)] 7(3,4) by (simp add: raw_put_eq)
  moreover obtain ok s2 where "raw_queue alloc r s' k' = Some (ok, s2, k')" "raw_holds net alloc s2 (if ok then [] @ [r] else [])"
    by (rule raw_added[OF calculation(1) 7(2)])
  ultimately show ?case by (intro exI[of _ ok] exI[of _ s2]) (simp cong: if_cong)
next
  case (8 s rs r k)
  then have "raw_put alloc (recorded net) r s k = raw_queue alloc r s k"
    using raw_empty[OF 8(1)] by (simp add: raw_put_eq)
  moreover obtain ok s2 where "raw_queue alloc r s k = Some (ok, s2, k)" "raw_holds net alloc s2 (if ok then rs @ [r] else rs)"
    by (rule raw_added[OF 8(1,3)])
  ultimately show ?case by (intro exI[of _ ok] exI[of _ s2]) (simp cong: if_cong)
qed

section \<open>Properties\<close>

lemma DgramSocket_empty:
  assumes "alloc_ok alloc"
  shows "queue_inv k (m_sendBuffer (DgramSocket fd peer alloc)) []" "m_peer (DgramSocket fd peer alloc) = peer"
proof -
  obtain p mem where pm: "alloc DEFAULT_BUFFER_SIZE = (p, mem)" by (cases "alloc DEFAULT_BUFFER_SIZE")
  then have "length mem = unat DEFAULT_BUFFER_SIZE" using assms unfolding alloc_ok_def by (metis snd_conv)
  then show "queue_inv k (m_sendBuffer (DgramSocket fd peer alloc)) []"
    using pm queue_new[of DEFAULT_BUFFER_SIZE mem k p] by (simp add: DgramSocket_def DEFAULT_BUFFER_SIZE_def MAX_CAPACITY_def)
  show "m_peer (DgramSocket fd peer alloc) = peer" by (simp add: DgramSocket_def)
qed

text \<open>
  C7. A UDP socket sends its messages whole, in order and once, to the address they were given
  for: whatever the modules send and whenever the kernel takes a message, no operation leaves the
  buffer or fails to end, and the messages accepted are the ones on the wire followed by the ones
  in the queue.
\<close>

theorem udp_stream:
  assumes "whole_kernel net" "alloc_ok alloc" "list_all (call_good udp_good) cs"
  shows "\<exists>s' k' acc rs. dgram_run (udp_put alloc (recorded net)) (UdpSocket_Send0 (recorded net)) cs
       (DgramSocket fd peer alloc) (k, []) [] = Some (s', k', acc) \<and>
     queue_inv 10 (m_sendBuffer s') (map udp_enc rs) \<and>
     map (udp_shown peer) acc = snd k' @ map (udp_shown peer) rs"
proof -
  have "udp_holds net alloc peer (DgramSocket fd peer alloc) []"
    using assms(1,2) DgramSocket_empty[OF assms(2)] by (simp add: udp_holds_def)
  from udp.run_outcome[OF this assms(3), of "[]" "(k, [])"] show ?thesis by (auto simp: udp_holds_def)
qed

text \<open>
  The same holds for a raw IP socket, where a message is given an address or goes to the peer
  the socket is connected to.
\<close>

theorem raw_stream:
  assumes "whole_kernel net" "alloc_ok alloc" "list_all (call_good raw_good) cs"
  shows "\<exists>s' k' acc rs. dgram_run (raw_put alloc (recorded net)) (RawIPSocket_Send0 (recorded net)) cs
       (DgramSocket fd peer alloc) (k, []) [] = Some (s', k', acc) \<and>
     queue_inv 8 (m_sendBuffer s') (map raw_enc rs) \<and>
     map raw_shown acc = snd k' @ map raw_shown rs"
proof -
  have "raw_holds net alloc (DgramSocket fd peer alloc) []"
    using assms(1,2) DgramSocket_empty[OF assms(2)] by (simp add: raw_holds_def)
  from raw.run_outcome[OF this assms(3), of "[]" "(k, [])"] show ?thesis by (auto simp: raw_holds_def)
qed

text \<open>
  A message is refused exactly when it neither fits behind the last one nor into a larger block;
  then nothing changes.  Space in front of the first message is not used again.
\<close>

theorem AddUdpBuffer_outcome:
  assumes "queue_inv 10 b ms" "alloc_ok alloc" "length d + 10 + 2 ^ 25 < 2 ^ 32"
  shows "if length d + 10 \<le> unat (m_nCapacity b) - unat (m_nEnd b) \<or>
       m_nCapacity b < MAX_CAPACITY \<and> unat (m_nLength b) + length d + 10 \<le> unat MAX_CAPACITY
     then \<exists>b'. AddUdpBuffer alloc d (of_nat (length d)) a p b = Some (True, b') \<and> queue_inv 10 b' (ms @ [udp_enc (a, p, d)])
     else AddUdpBuffer alloc d (of_nat (length d)) a p b = Some (False, b)"
  using assms by (rule udp_add_cases)

section \<open>A kernel that takes every message\<close>

definition taking_all :: "unit dgram_kernel" where "taking_all d a k = (int (length d), 0, k)"

definition some_alloc :: "U32 \<Rightarrow> nat \<times> U8 list" where "some_alloc n = (4096, replicate (unat n) 0)"

lemma taking_all_whole: "whole_kernel taking_all" and some_alloc_ok: "alloc_ok some_alloc"
  by (simp_all add: whole_kernel_def taking_all_def alloc_ok_def some_alloc_def)

lemma udp_stream_witness:
  "\<exists>s' k' acc rs. dgram_run (udp_put some_alloc (recorded taking_all)) (UdpSocket_Send0 (recorded taking_all))
       [DgramWrite (1, 2, [3, 4]), DgramWritable] (DgramSocket 7 (5, 6) some_alloc) ((), []) [] = Some (s', k', acc) \<and>
     queue_inv 10 (m_sendBuffer s') (map udp_enc rs) \<and> map (udp_shown (5, 6)) acc = snd k' @ map (udp_shown (5, 6)) rs"
  by (rule udp_stream[OF taking_all_whole some_alloc_ok]) simp

lemma raw_stream_witness:
  "\<exists>s' k' acc rs. dgram_run (raw_put some_alloc (recorded taking_all)) (RawIPSocket_Send0 (recorded taking_all))
       [DgramWrite (1, [3, 4]), DgramWritable] (DgramSocket 7 (5, 6) some_alloc) ((), []) [] = Some (s', k', acc) \<and>
     queue_inv 8 (m_sendBuffer s') (map raw_enc rs) \<and> map raw_shown acc = snd k' @ map raw_shown rs"
  by (rule raw_stream[OF taking_all_whole some_alloc_ok]) simp

lemma AddUdpBuffer_witness:
  "\<exists>b'. AddUdpBuffer some_alloc [7] 1 1 2 (CBuffer 8 4096 (replicate 8 0)) = Some (True, b') \<and> queue_inv 10 b' [udp_enc (1, 2, [7])]"
proof -
  have "queue_inv 10 (CBuffer 8 4096 (replicate 8 0)) []" by (rule queue_new) (simp_all add: MAX_CAPACITY_def)
  from AddUdpBuffer_outcome[OF this some_alloc_ok, of "[7]" 1 2] show ?thesis
    by (simp add: CBuffer_def MAX_CAPACITY_def)
qed

end
