(* ===== verification/Sctp_Buffer.thy ===== *)
theory Sctp_Buffer
  imports Dgram_Buffer
begin

text \<open>
  The SCTP variant of the message queue of \<open>platform/network/net_buffer.cpp\<close>: it grows the block when
  the messages do not fit and moves them to the front when there is no room behind them.
\<close>

section \<open>Operations\<close>

text \<open>The loop that looks for a capacity; \<open>Some None\<close> is the return of \<open>false\<close>.\<close>

partial_function (option) sctp_grow :: "U32 \<Rightarrow> U32 \<Rightarrow> U32 option option" where
  "sctp_grow need copy =
     (if need > copy then
        let copy = copy * 2 in if copy \<ge> MAX_CAPACITY then Some None else sctp_grow need copy
      else Some (Some copy))"

text \<open>\<open>memcpy\<close> to the start of the block, undefined when the two places overlap.\<close>

definition move_front :: "cbuffer \<Rightarrow> cbuffer option" where
  "move_front b =
     (if 0 < m_nLength b \<and> m_nStart b < m_nLength b then None
      else do {
        bytes \<leftarrow> load (m_pBuf b + unat (m_nStart b)) (unat (m_nLength b)) b;
        b \<leftarrow> store (m_pBuf b) bytes b;
        Some (b\<lparr>m_nStart := 0, m_nEnd := m_nLength b\<rparr>)
      })"

definition AddSctpBuffer ::
  "(U32 \<Rightarrow> nat \<times> U8 list) \<Rightarrow> U16 \<Rightarrow> U8 list \<Rightarrow> U32 \<Rightarrow> cbuffer \<Rightarrow> (bool \<times> cbuffer) option" where
  "AddSctpBuffer alloc streamID buf nSize b =
     (let nNewSize = nSize + 4 + 2; bExpand = (m_nLength b + nNewSize > m_nCapacity b) in do {
        r \<leftarrow> sctp_grow (m_nLength b + nNewSize) (m_nCapacity b);
        (case r of
           None \<Rightarrow> Some (False, b)
         | Some copy \<Rightarrow> do {
             b \<leftarrow> (if bExpand then do {
                    bytes \<leftarrow> load (m_pBuf b) (unat (m_nLength b)) b;
                    let (p, mem) = alloc copy;
                    b \<leftarrow> store p bytes (b\<lparr>m_nCapacity := copy, m_pBuf := p, block := mem\<rparr>);
                    Some (b\<lparr>m_nStart := 0, m_nEnd := m_nLength b\<rparr>)
                  } else Some b);
             b \<leftarrow> (if m_nCapacity b - m_nEnd b < nNewSize then move_front b else Some b);
             b \<leftarrow> store_all (m_pBuf b + unat (m_nEnd b))
                    [le_bytes 4 nSize, le_bytes 2 streamID, take (unat nSize) buf] b;
             Some (True, b\<lparr>m_nEnd := m_nEnd b + nNewSize, m_nLength := m_nLength b + nNewSize\<rparr>)
           })
      })"

definition ReleaseSctpBuffer :: "U32 \<Rightarrow> cbuffer \<Rightarrow> cbuffer" where
  "ReleaseSctpBuffer nSize b =
     (let nNewSize = nSize + 4 + 2 in
      if nNewSize \<ge> m_nLength b then reset_buffer b
      else b\<lparr>m_nLength := m_nLength b - nNewSize, m_nStart := m_nStart b + nNewSize\<rparr>)"

definition GetSctpBuffer :: "cbuffer \<Rightarrow> nat" where
  "GetSctpBuffer b = m_pBuf b + unat (m_nStart b) + 4 + 2"

definition GetSctpLength :: "cbuffer \<Rightarrow> U32 option" where
  "GetSctpLength b = (if m_nLength b > 0 then load_word (m_pBuf b + unat (m_nStart b)) 4 b else Some 0)"

definition GetStreamID :: "cbuffer \<Rightarrow> U16 option" where
  "GetStreamID b = (if m_nLength b > 0 then load_word (m_pBuf b + unat (m_nStart b) + 4) 2 b else Some 0)"

section \<open>Adding a message\<close>

fun sctp_enc :: "U16 \<times> U8 list \<Rightarrow> message" where "sctp_enc (i, d) = (le_bytes 2 i, d)"

lemma sctp_front:
  assumes "queue_inv 6 b (sctp_enc (i, d) # ms)"
  shows "GetSctpLength b = Some (of_nat (length d))" "GetStreamID b = Some i"
    "load (GetSctpBuffer b) (length d) b = Some d"
proof -
  note pos = queue_length_pos[OF assms]
  have l: "off + n \<le> 6 + length d \<Longrightarrow> load (m_pBuf b + unat (m_nStart b) + off) n b =
      Some (take n (drop off (record_bytes (sctp_enc (i, d)))))" for off n
    by (rule load_front[OF assms]) simp
  show "GetSctpLength b = Some (of_nat (length d))" using front_length(1)[OF assms] pos by (simp add: GetSctpLength_def)
  show "GetStreamID b = Some i" using l[of 4 2] pos
    by (simp add: GetStreamID_def load_word_def record_bytes_def le_word_le_bytes)
  show "load (GetSctpBuffer b) (length d) b = Some d"
    using l[of 6 "length d"] by (simp add: GetSctpBuffer_def record_bytes_def ac_simps)
qed

lemma sctp_grow_fits: "\<not> need > copy \<Longrightarrow> sctp_grow need copy = Some (Some copy)"
  by (subst sctp_grow.simps) simp

lemma sctp_add_behind:
  assumes "queue_inv 6 b ms" "length d + 6 \<le> unat (m_nCapacity b) - unat (m_nEnd b)"
  shows "\<exists>b'. AddSctpBuffer alloc i d (of_nat (length d)) b = Some (True, b') \<and> queue_inv 6 b' (ms @ [sctp_enc (i, d)])"
proof -
  note q = queue_invD[OF assms(1)]
  let ?e = "unat (m_nEnd b)" and ?n = "of_nat (length d) + 4 + 2 :: U32" and ?m = "sctp_enc (i, d)"
  let ?ps = "[le_bytes 4 (of_nat (length d) :: U32), le_bytes 2 i, take (unat (of_nat (length d) :: U32)) d]"
  have d: "length d + 6 < 2 ^ 32" using assms(2) q(11) by simp
  have "?n = of_nat (length d + 6)" by simp
  then have n: "unat ?n = length d + 6" using d by (simp only: unat_of_nat) simp
  have "unat (of_nat (length d) :: U32) = length d" using d by (simp add: unat_of_nat)
  then have ps: "concat ?ps = record_bytes ?m" by (simp add: record_bytes_def)
  let ?b = "b\<lparr>block := splice ?e (record_bytes ?m) (block b), m_nEnd := m_nEnd b + ?n, m_nLength := m_nLength b + ?n\<rparr>"
  have room: "?e + (length d + 6) \<le> unat (m_nCapacity b)" using assms(2) q(5) by simp
  have w: "unat (m_nEnd b + ?n) = ?e + (length d + 6)" "unat (m_nLength b + ?n) = unat (m_nLength b) + (length d + 6)"
    using room q(4,11) n by (simp_all add: unat_word_ariths(1))
  have st: "store_all (m_pBuf b + ?e) ?ps b = Some (b\<lparr>block := splice ?e (record_bytes ?m) (block b)\<rparr>)"
    unfolding ps[symmetric] by (rule store_all_splice) (use room q(1) ps in simp)
  have "\<not> m_nLength b + ?n > m_nCapacity b" "\<not> m_nCapacity b - m_nEnd b < ?n"
    using w(2) room q(4) q(10) n assms(2) by (simp_all add: word_less_nat_alt)
  then have "AddSctpBuffer alloc i d (of_nat (length d)) b = Some (True, ?b)"
    using sctp_grow_fits st by (simp add: AddSctpBuffer_def Let_def del: store_all.simps)
  moreover have "take (unat (m_nLength b) + (length d + 6)) (drop (unat (m_nStart b)) (splice ?e (record_bytes ?m) (block b))) = queue_bytes ms @ record_bytes ?m"
    using take_drop_splice[of "unat (m_nStart b)" "queue_bytes ms" ?e "block b" "record_bytes ?m"] q(1,4,6,7) room by (simp add: add.commute[of 6])
  then have "queue_inv 6 ?b (ms @ [?m])"
    using q room w by (auto simp: queue_inv_def)
  ultimately show ?thesis by blast
qed


lemma sctp_grow_outcome:
  assumes "0 < copy" "copy \<le> MAX_CAPACITY" "need > copy"
  shows "sctp_grow need copy = Some None \<or> (\<exists>c. sctp_grow need copy = Some (Some c) \<and> need \<le> c \<and> c \<le> MAX_CAPACITY)"
  using assms
proof (induction "2 ^ 25 - unat copy" arbitrary: copy rule: less_induct)
  case less
  have lt: "unat copy \<le> 2 ^ 25" "0 < unat copy"
    using less.prems(1,2) MAX_CAPACITY_unat(1) by (simp_all add: word_le_nat_alt word_less_nat_alt)
  then have d: "unat (copy * 2) = 2 * unat copy" by (simp add: unat_mult_lem[THEN iffD1])
  have g: "sctp_grow need copy = (if copy * 2 \<ge> MAX_CAPACITY then Some None else sctp_grow need (copy * 2))"
    using less.prems(3) by (subst sctp_grow.simps) (simp add: Let_def)
  show ?case
  proof (cases "copy * 2 \<ge> MAX_CAPACITY")
    case False
    then have c: "copy * 2 \<le> MAX_CAPACITY" "0 < copy * 2" "2 ^ 25 - unat (copy * 2) < 2 ^ 25 - unat copy"
      using d lt MAX_CAPACITY_unat(1) by (auto simp: word_le_nat_alt word_less_nat_alt)
    show ?thesis
    proof (cases "need > copy * 2")
      case True
      then show ?thesis using less.hyps[OF c(3,2,1)] g False by simp
    next
      case fits: False
      then show ?thesis using g False sctp_grow_fits[OF fits] c(1) by (simp add: not_less)
    qed
  qed (simp add: g)
qed

lemma sctp_add_front:
  assumes "queue_inv 6 b ms" "alloc_ok alloc" "length d + 6 + 2 ^ 25 < 2 ^ 32" "m_nStart b = 0"
  shows "\<exists>ok b'. AddSctpBuffer alloc i d (of_nat (length d)) b = Some (ok, b') \<and>
     queue_inv 6 b' (if ok then ms @ [sctp_enc (i, d)] else ms)"
proof -
  note q = queue_invD[OF assms(1)]
  let ?n = "of_nat (length d) + 4 + 2 :: U32"
  have "?n = of_nat (length d + 6)" by simp
  then have n: "unat ?n = length d + 6" using assms(3) by (simp only: unat_of_nat) simp
  have sum: "unat (m_nLength b + ?n) = unat (m_nLength b) + (length d + 6)"
    using q(4,5,11) assms(3) n by (simp add: unat_word_ariths(1))
  show ?thesis
  proof (cases "m_nLength b + ?n > m_nCapacity b")
    case False
    then have "length d + 6 \<le> unat (m_nCapacity b) - unat (m_nEnd b)"
      using sum q(4) assms(4) by (simp add: word_less_nat_alt)
    from sctp_add_behind[OF assms(1) this, of alloc i] show ?thesis by (auto cong: if_cong)
  next
    case True
    consider "sctp_grow (m_nLength b + ?n) (m_nCapacity b) = Some None"
      | c where "sctp_grow (m_nLength b + ?n) (m_nCapacity b) = Some (Some c)" "m_nLength b + ?n \<le> c" "c \<le> MAX_CAPACITY"
      using sctp_grow_outcome[OF q(2,3) True] by blast
    then show ?thesis
    proof cases
      case 1
      then have "AddSctpBuffer alloc i d (of_nat (length d)) b = Some (False, b)" by (simp add: AddSctpBuffer_def Let_def)
      then show ?thesis using assms(1) by (intro exI[of _ False] exI[of _ b]) simp
    next
      case 2
      obtain p mem where pm: "alloc c = (p, mem)" by (cases "alloc c")
      then have mem: "length mem = unat c" using assms(2) unfolding alloc_ok_def by (metis snd_conv)
      have len: "unat (m_nLength b) + (length d + 6) \<le> unat c" using 2(2) sum by (simp add: word_le_nat_alt)
      have c0: "0 < c" using len by (simp add: word_less_nat_alt)
      let ?b = "b\<lparr>m_nCapacity := c, m_pBuf := p, block := queue_bytes ms @ drop (length (queue_bytes ms)) mem, m_nStart := 0, m_nEnd := m_nLength b\<rparr>"
      have "load (m_pBuf b) (unat (m_nLength b)) b = Some (queue_bytes ms)"
        using q(1,4,5,7) assms(4) by (simp add: load_def)
      moreover have e: "(c < m_nLength b + (6 + word_of_nat (length d))) = False" using 2(2) by (simp add: not_less)
      ultimately have "AddSctpBuffer alloc i d (of_nat (length d)) b = AddSctpBuffer alloc i d (of_nat (length d)) ?b"
        using True 2(1) sctp_grow_fits[of c "m_nLength b + ?n"] q(6) pm len mem
        by (simp add: AddSctpBuffer_def Let_def store_in e del: store_all.simps)
      moreover have "queue_inv 6 ?b ms" using q len mem 2(3) c0 by (auto simp: queue_inv_def)
      moreover have "length d + 6 \<le> unat (m_nCapacity ?b) - unat (m_nEnd ?b)" using len by simp
      ultimately show ?thesis using sctp_add_behind[of ?b ms d alloc i] by (auto cong: if_cong)
    qed
  qed
qed

lemma sctp_release_whole:
  assumes "queue_inv 6 b (sctp_enc (i, d) # ms)"
  shows "queue_inv 6 (ReleaseSctpBuffer (of_nat (length d)) b) ms"
proof -
  note q = queue_invD[OF assms] and f = front_length[OF assms]
  let ?n = "of_nat (length d) + 4 + 2 :: U32" and ?m = "sctp_enc (i, d)"
  have l: "length d + 6 < 2 ^ 32" using f(2) q(11) by simp
  have "?n = of_nat (length d + 6)" by simp
  then have n: "unat ?n = length (record_bytes ?m)" using l by (simp only: unat_of_nat) simp
  show ?thesis
  proof (cases "?n \<ge> m_nLength b")
    case True
    then have "length (queue_bytes ms) = 0" using n q(6) by (simp add: word_le_nat_alt)
    then have "ms = []" by (cases ms) (simp_all add: record_bytes_def)
    then show ?thesis using True queue_inv_reset[OF assms] by (simp add: ReleaseSctpBuffer_def)
  next
    case False
    have lt: "unat ?n < unat (m_nLength b)" using False by (simp add: word_less_nat_alt not_le)
    have w: "unat (m_nStart b + ?n) = unat (m_nStart b) + unat ?n" "unat (m_nLength b - ?n) = unat (m_nLength b) - unat ?n"
      using lt q(4,5,11) by (simp_all add: unat_word_ariths(1) unat_sub word_le_nat_alt)
    have "take (unat (m_nLength b) - unat ?n) (drop (unat (m_nStart b) + unat ?n) (block b)) =
        drop (unat ?n) (take (unat (m_nLength b)) (drop (unat (m_nStart b)) (block b)))"
      by (simp only: drop_take drop_drop add.commute)
    also have "\<dots> = queue_bytes ms" unfolding q(7) n by simp
    finally have "queue_inv 6 (b\<lparr>m_nLength := m_nLength b - ?n, m_nStart := m_nStart b + ?n\<rparr>) ms"
      using q w lt n unfolding queue_inv_def by simp
    then show ?thesis using False by (simp add: ReleaseSctpBuffer_def Let_def)
  qed
qed

text \<open>
  As long as there is room behind the queue, or nothing has been released yet, adding an SCTP message
  either refuses it or puts exactly it behind the others, in the block or in a larger one.
\<close>

theorem AddSctpBuffer_outcome:
  assumes "queue_inv 6 b ms" "alloc_ok alloc" "length d + 6 + 2 ^ 25 < 2 ^ 32"
    "m_nStart b = 0 \<or> length d + 6 \<le> unat (m_nCapacity b) - unat (m_nEnd b)"
  shows "\<exists>ok b'. AddSctpBuffer alloc i d (of_nat (length d)) b = Some (ok, b') \<and>
     queue_inv 6 b' (if ok then ms @ [sctp_enc (i, d)] else ms)"
  using assms(4)
proof
  assume "m_nStart b = 0"
  then show ?thesis by (rule sctp_add_front[OF assms(1-3)])
next
  assume "length d + 6 \<le> unat (m_nCapacity b) - unat (m_nEnd b)"
  from sctp_add_behind[OF assms(1) this, of alloc i] show ?thesis by (auto cong: if_cong)
qed

definition small_alloc :: "U32 \<Rightarrow> nat \<times> U8 list" where "small_alloc n = (4096, replicate (unat n) 0)"

lemma AddSctpBuffer_witness:
  "\<exists>ok b'. AddSctpBuffer small_alloc 1 [7] 1 (CBuffer 4 4096 (replicate 4 0)) = Some (ok, b') \<and>
     queue_inv 6 b' (if ok then [sctp_enc (1, [7])] else [])"
proof -
  have "queue_inv 6 (CBuffer 4 4096 (replicate 4 0)) []" by (rule queue_new) (simp_all add: MAX_CAPACITY_def)
  moreover have "alloc_ok small_alloc" by (simp add: alloc_ok_def small_alloc_def)
  moreover have "m_nStart (CBuffer 4 4096 (replicate 4 0)) = 0" by (simp add: CBuffer_def)
  ultimately show ?thesis using AddSctpBuffer_outcome[of "CBuffer 4 4096 (replicate 4 0)" "[]" small_alloc "[7]" 1]
    by (simp cong: if_cong)
qed

text \<open>After a release the growth copies from the start of the block instead of the start of the queue:
  the message sent already is in front again and the one that waited is lost.\<close>

definition grown :: "(bool \<times> cbuffer) option" where
  "grown = do {
     (r, b) \<leftarrow> AddSctpBuffer small_alloc 1 [11] 1 (CBuffer 16 4096 (replicate 16 0));
     (r, b) \<leftarrow> AddSctpBuffer small_alloc 1 [22] 1 b;
     AddSctpBuffer small_alloc 1 [33, 44, 55, 66] 4 (ReleaseSctpBuffer 1 b)
   }"

lemma grown_capacities:
  "sctp_grow 7 16 = Some (Some 16)" "sctp_grow 14 16 = Some (Some 16)" "sctp_grow 17 16 = Some (Some 32)"
proof -
  show "sctp_grow 7 16 = Some (Some 16)" "sctp_grow 14 16 = Some (Some 16)" by (rule sctp_grow_fits; simp)+
  have "sctp_grow 17 32 = Some (Some 32)" by (rule sctp_grow_fits) simp
  then show "sctp_grow 17 16 = Some (Some 32)" by (subst sctp_grow.simps) (simp add: MAX_CAPACITY_def)
qed

lemma sctp_growth_repeats:
  "case grown of None \<Rightarrow> False | Some (ok, b) \<Rightarrow> ok \<and> load (GetSctpBuffer b) 1 b = Some [11]"
  by (simp add: grown_def AddSctpBuffer_def grown_capacities CBuffer_def store_def load_def le_bytes_def upt_rec
      ReleaseSctpBuffer_def small_alloc_def GetSctpBuffer_def Let_def)

end
