(* ===== verification/Session_Packet.thy ===== *)
theory Session_Packet
  imports Pilot_Prelude "HOL-Library.Monad_Syntax"
begin

text \<open>
  Sessions with packet heads: \<^verbatim>\<open>platform/network/platform_netsession_client.cpp\<close> and the structures of
  \<^verbatim>\<open>common/pl.h\<close>.  A message longer than a packet is sent in parts, each with its own head; the
  receiver finds the packets in the byte stream, keeps a packet that has not arrived completely,
  and puts the parts of a message together.

  Blocks of memory are lists; an access outside a block is the outcome \<open>None\<close>.  Sizes of blocks are
  natural numbers, what stands in a packet is a word.  Sending on the connection and \<open>pf_malloc\<close> are
  parameters.  What \<open>pf_malloc\<close> returns is not initialised, so the bytes of the reassembly buffer are
  options.  The place where \<open>CheckPacket\<close> allocates tries again until it succeeds.
\<close>

section \<open>Messages and packet heads\<close>

record stMsgHeader =
  ulSendSubSysId :: U32
  ulRcvdSubSysId :: U32
  ulMsgLength :: U32
  ulMsgType :: U32

record PacketHead =
  msgHead :: stMsgHeader
  packetID :: U32
  totalPacketNum :: U32
  packetIndex :: U32
  packetOffset :: U32
  packetLen :: U32
  padding :: U32

definition PACKET_ENABLE :: U32 where "PACKET_ENABLE = 0x80000000"
definition SINGLE_PACKET_LEN_MAX :: U32 where "SINGLE_PACKET_LEN_MAX = 1048576"
definition MSG_LENGTH :: nat where "MSG_LENGTH = 8"
definition MSG_TYPE :: nat where "MSG_TYPE = 12"
definition PACKET_ID :: nat where "PACKET_ID = 16"
definition SUBPACKET_TOTALNUM :: nat where "SUBPACKET_TOTALNUM = 20"
definition SUBPACKET_OFFSET :: nat where "SUBPACKET_OFFSET = 28"
definition SUBPACKET_LEN :: nat where "SUBPACKET_LEN = 32"
definition sizeof_stMsgHeader :: nat where "sizeof_stMsgHeader = 16"
definition sizeof_PacketHead :: nat where "sizeof_PacketHead = 40"

lemmas layout_defs = PACKET_ENABLE_def SINGLE_PACKET_LEN_MAX_def MSG_LENGTH_def MSG_TYPE_def PACKET_ID_def
  SUBPACKET_TOTALNUM_def SUBPACKET_OFFSET_def SUBPACKET_LEN_def sizeof_stMsgHeader_def sizeof_PacketHead_def

text \<open>A structure in memory and the structure at the start of a block.\<close>

definition header_bytes :: "stMsgHeader \<Rightarrow> U8 list" where
  "header_bytes h = le_bytes 4 (ulSendSubSysId h) @ le_bytes 4 (ulRcvdSubSysId h) @ le_bytes 4 (ulMsgLength h) @ le_bytes 4 (ulMsgType h)"

definition packet_head_bytes :: "PacketHead \<Rightarrow> U8 list" where
  "packet_head_bytes h = header_bytes (msgHead h) @ le_bytes 4 (packetID h) @ le_bytes 4 (totalPacketNum h) @
     le_bytes 4 (packetIndex h) @ le_bytes 4 (packetOffset h) @ le_bytes 4 (packetLen h) @ le_bytes 4 (padding h)"

definition slice :: "'a list \<Rightarrow> nat \<Rightarrow> nat \<Rightarrow> 'a list option" where
  "slice m p n = (if p + n \<le> length m then Some (take n (drop p m)) else None)"

definition rd32 :: "U8 list \<Rightarrow> nat \<Rightarrow> U32 option" where
  "rd32 m p = map_option le_word (slice m p 4)"

definition overwrite :: "'a list \<Rightarrow> nat \<Rightarrow> 'a list \<Rightarrow> 'a list option" where
  "overwrite m p xs = (if p + length xs \<le> length m then Some (take p m @ xs @ drop (p + length xs) m) else None)"

definition header_of :: "U8 list \<Rightarrow> stMsgHeader option" where
  "header_of m = do { a \<leftarrow> rd32 m 0; b \<leftarrow> rd32 m 4; c \<leftarrow> rd32 m 8; d \<leftarrow> rd32 m 12;
     Some \<lparr>ulSendSubSysId = a, ulRcvdSubSysId = b, ulMsgLength = c, ulMsgType = d\<rparr> }"

section \<open>Sending\<close>

type_synonym 'k connection = "U8 list \<Rightarrow> 'k \<Rightarrow> bool \<times> 'k"

definition next_sendID :: "U32 \<Rightarrow> U32" where
  "next_sendID i = (if i < 0xFFFFFFF0 then i + 1 else 1)"

text \<open>The head of the first part.  \<open>pad\<close> is what the stack holds in the member that is not set.\<close>

definition first_head :: "U32 \<Rightarrow> stMsgHeader \<Rightarrow> U32 \<Rightarrow> U32 \<Rightarrow> U32 \<Rightarrow> PacketHead" where
  "first_head pad h i u32size packet_max_len =
     (let plen = packet_max_len - of_nat sizeof_PacketHead in
      \<lparr>msgHead = h\<lparr>ulMsgLength := ulMsgLength h OR PACKET_ENABLE\<rparr>, packetID = i,
       totalPacketNum = (u32size - of_nat sizeof_stMsgHeader + plen - 1) div plen,
       packetIndex = 1, packetOffset = 0, packetLen = plen, padding = pad\<rparr>)"

text \<open>The loop for the other parts.  The head is written into the caller's message, in front of the
  bytes to be sent; \<open>pdata\<close> is its offset from the start of the message.\<close>

partial_function (option) send_parts ::
  "'k connection \<Rightarrow> U32 \<Rightarrow> U32 \<Rightarrow> PacketHead \<Rightarrow> int \<Rightarrow> U8 list \<Rightarrow> 'k \<Rightarrow> (bool \<times> U8 list \<times> 'k) option" where
  "send_parts conn u32size packet_max_len h pdata data k =
     (let h = h\<lparr>packetIndex := packetIndex h + 1, packetOffset := packetOffset h + packetLen h\<rparr> in
      if pdata < 0 then None
      else if packetIndex h = totalPacketNum h
      then (let h = h\<lparr>packetLen := u32size - packetOffset h - of_nat sizeof_stMsgHeader\<rparr> in
        do { data \<leftarrow> overwrite data (nat pdata) (packet_head_bytes h);
             p \<leftarrow> slice data (nat pdata) (unat (packetLen h + of_nat sizeof_PacketHead));
             let (ret, k) = conn p k in Some (ret, data, k) })
      else do { data \<leftarrow> overwrite data (nat pdata) (packet_head_bytes h);
             p \<leftarrow> slice data (nat pdata) (unat packet_max_len);
             let (ret, k) = conn p k in
             if \<not> ret then Some (False, data, k)
             else send_parts conn u32size packet_max_len h (pdata + int (unat (packetLen h))) data k })"

declare send_parts.simps [code]

text \<open>\<open>ClientNetSession::Send\<close> with a length limit: the answer, the identifier counter, whether the mutex
  is still held on return, the caller's message and the connection afterwards.\<close>

record 'k send_result =
  sr_ret :: bool
  sr_sendID :: U32
  sr_locked :: bool
  sr_data :: "U8 list"
  sr_conn :: 'k

definition ClientNetSession_Send ::
  "(nat \<Rightarrow> bool) \<Rightarrow> U32 \<Rightarrow> 'k connection \<Rightarrow> bool \<Rightarrow> bool \<Rightarrow> U32 \<Rightarrow> U8 list \<Rightarrow> U32 \<Rightarrow> U32 \<Rightarrow> 'k \<Rightarrow> 'k send_result option" where
  "ClientNetSession_Send alloc pad conn head_mode connected sid data u32size packet_max_len k =
     (let result = (\<lambda>ret sid lck data k. Some \<lparr>sr_ret = ret, sr_sendID = sid, sr_locked = lck, sr_data = data, sr_conn = k\<rparr>) in
      if \<not> head_mode then result False sid False data k
      else if \<not> connected then result False sid False data k
      else if u32size > packet_max_len
      then (if packet_max_len \<le> of_nat sizeof_PacketHead then result False sid False data k
        else let sid = next_sendID sid in
          do { hd \<leftarrow> header_of data;
               let h = first_head pad hd sid u32size packet_max_len;
               if \<not> alloc (unat packet_max_len) then result False sid True data k
               else do { body \<leftarrow> slice data sizeof_stMsgHeader (unat (packetLen h));
                    let (ret, k) = conn (packet_head_bytes h @ body) k in
                    if \<not> ret then result False sid False data k
                    else do { (ret, data, k) \<leftarrow> send_parts conn u32size packet_max_len h
                                (int sizeof_stMsgHeader + int (unat (packetLen h)) - int sizeof_PacketHead) data k;
                              result ret sid False data k } } })
      else do { p \<leftarrow> slice data 0 (unat u32size);
                let (ret, k) = conn p k in result ret sid False data k })"

section \<open>Putting the parts together\<close>

record reassembly =
  u32receiveID :: U32
  u32receivecount :: U32
  pu8receivebuf :: "U8 option list option"

definition start_message :: "(nat \<Rightarrow> bool) \<Rightarrow> U32 \<Rightarrow> U8 list \<Rightarrow> reassembly \<Rightarrow> reassembly option" where
  "start_message alloc packet_id m r =
     do { l \<leftarrow> rd32 m MSG_LENGTH;
          let n = unat (l AND NOT PACKET_ENABLE);
          if alloc (n + sizeof_stMsgHeader)
          then do { hd \<leftarrow> slice m 0 sizeof_stMsgHeader;
                    Some \<lparr>u32receiveID = packet_id, u32receivecount = 0,
                          pu8receivebuf = Some (map Some hd @ replicate n None)\<rparr> }
          else Some \<lparr>u32receiveID = 0, u32receivecount = 0, pu8receivebuf = None\<rparr> }"

text \<open>Copying one part into the buffer; the answer says whether all parts have been counted.\<close>

definition add_part :: "U8 list \<Rightarrow> reassembly \<Rightarrow> (bool \<times> reassembly) option" where
  "add_part m r =
     (case pu8receivebuf r of
        None \<Rightarrow> Some (False, r)
      | Some b \<Rightarrow> do {
          packet_offset \<leftarrow> rd32 m SUBPACKET_OFFSET;
          packet_len \<leftarrow> rd32 m SUBPACKET_LEN;
          packet_num \<leftarrow> rd32 m SUBPACKET_TOTALNUM;
          body \<leftarrow> slice m sizeof_PacketHead (unat packet_len);
          b \<leftarrow> overwrite b (sizeof_stMsgHeader + unat packet_offset) (map Some body);
          let n = u32receivecount r + 1;
          if n = packet_num then Some (True, r\<lparr>pu8receivebuf := Some b, u32receivecount := 0\<rparr>)
          else Some (False, r\<lparr>pu8receivebuf := Some b, u32receivecount := n\<rparr>) })"

definition CombineSubpacket :: "(nat \<Rightarrow> bool) \<Rightarrow> U8 list \<Rightarrow> reassembly \<Rightarrow> (bool \<times> reassembly) option" where
  "CombineSubpacket alloc m r =
     do { packet_id \<leftarrow> rd32 m PACKET_ID;
          r \<leftarrow> (if u32receiveID r \<noteq> packet_id then start_message alloc packet_id m r else Some r);
          add_part m r }"

text \<open>A complete message: the flag is taken out of its length and it is handed to the receiver, which
  is given as many bytes as the length says.\<close>

definition hand_over :: "U8 option list \<Rightarrow> U8 option list option" where
  "hand_over b = do {
     bytes \<leftarrow> slice b MSG_LENGTH 4;
     let l = le_word (map the bytes) AND NOT PACKET_ENABLE;
     b \<leftarrow> overwrite b MSG_LENGTH (map Some (le_bytes 4 (l :: U32)));
     slice b 0 (unat (l + of_nat sizeof_stMsgHeader)) }"

definition client_packet ::
  "(nat \<Rightarrow> bool) \<Rightarrow> bool \<Rightarrow> U8 list \<Rightarrow> U32 \<Rightarrow> reassembly \<Rightarrow> (U8 option list list \<times> reassembly) option" where
  "client_packet alloc issubpacket m packet_len r =
     (if \<not> issubpacket
      then do { p \<leftarrow> slice m 0 (unat packet_len); Some ([map Some p], r) }
      else do { (success, r) \<leftarrow> CombineSubpacket alloc m r;
                if success then do { b \<leftarrow> pu8receivebuf r; msg \<leftarrow> hand_over b;
                    Some ([msg], \<lparr>u32receiveID = 0, u32receivecount = 0, pu8receivebuf = None\<rparr>) }
                else Some ([], r) })"

section \<open>Finding the packets in the stream\<close>

record 'c rx =
  pu8halfpackbuf :: "U8 list"
  half_size :: nat
  s32findMsghead :: bool
  parts :: 'c

type_synonym 'c packet_handler = "bool \<Rightarrow> U8 list \<Rightarrow> U32 \<Rightarrow> 'c \<Rightarrow> (U8 option list list \<times> 'c) option"

text \<open>A field of a packet whose first bytes are kept and whose next bytes have just arrived.\<close>

definition half_field :: "nat \<Rightarrow> U8 list \<Rightarrow> U8 list \<Rightarrow> U32 option" where
  "half_field pos half m =
     (if length half \<le> pos then rd32 m (pos - length half)
      else if length half < pos + 4
      then do { a \<leftarrow> slice half pos (length half - pos); b \<leftarrow> slice m 0 (pos + 4 - length half); Some (le_word (a @ b)) }
      else rd32 half pos)"

definition half_packet_len :: "U8 list \<Rightarrow> U8 list \<Rightarrow> (U32 \<times> bool) option" where
  "half_packet_len half m = do {
     packet_len \<leftarrow> half_field MSG_LENGTH half m;
     if packet_len AND PACKET_ENABLE = 0 then Some (packet_len + of_nat sizeof_stMsgHeader, False)
     else do { packet_len \<leftarrow> half_field SUBPACKET_LEN half m; Some (packet_len + of_nat sizeof_PacketHead, True) } }"

text \<open>Length, type and kind of the packet at the start of a block, as far as they have arrived.\<close>

definition peek_packet :: "U8 list \<Rightarrow> U32 \<times> U32 \<times> bool" where
  "peek_packet m =
     (case rd32 m MSG_LENGTH of
        None \<Rightarrow> (0, 0, False)
      | Some packet_len \<Rightarrow>
          let u32msgtype = (case rd32 m MSG_TYPE of None \<Rightarrow> 0 | Some t \<Rightarrow> t) in
          if packet_len AND PACKET_ENABLE = 0 then (packet_len + of_nat sizeof_stMsgHeader, u32msgtype, False)
          else case rd32 m SUBPACKET_LEN of
                 None \<Rightarrow> (0, u32msgtype, True)
               | Some l \<Rightarrow> (l + of_nat sizeof_PacketHead, u32msgtype, True))"

text \<open>The loop over the packets of a block.\<close>

function packet_loop ::
  "bool \<Rightarrow> U32 \<Rightarrow> 'c packet_handler \<Rightarrow> U8 list \<Rightarrow> 'c rx \<Rightarrow> (U8 option list list \<times> 'c rx) option" where
  "packet_loop udp LAST_EVENT handle m s =
     (if m = [] then Some ([], s)
      else case peek_packet m of (packet_len, u32msgtype, issubpacket) \<Rightarrow>
        if packet_len = 0 \<or> unat packet_len > length m
        then (if udp then Some ([], s)
          else if SINGLE_PACKET_LEN_MAX < packet_len \<or> u32msgtype \<ge> LAST_EVENT
                  \<or> s32findMsghead s \<and> MSG_TYPE + 4 > length m
          then Some ([], s\<lparr>s32findMsghead := True\<rparr>)
          else Some ([], s\<lparr>s32findMsghead := False, pu8halfpackbuf := m,
                 half_size := (if packet_len = 0 then length m else unat packet_len)\<rparr>))
        else do { (out, c) \<leftarrow> handle issubpacket m packet_len (parts s);
                  (outs, s) \<leftarrow> packet_loop udp LAST_EVENT handle (drop (unat packet_len) m)
                                (s\<lparr>s32findMsghead := False, parts := c\<rparr>);
                  Some (out @ outs, s) })"
  by pat_completeness auto
termination
  by (relation "measure (\<lambda>(_, _, _, m, _). length m)") (auto simp: unat_gt_0 simp flip: length_greater_0_conv)

declare packet_loop.simps [simp del]

text \<open>What is done with the block when the first bytes of a packet are kept.\<close>

definition half_packet ::
  "bool \<Rightarrow> U32 \<Rightarrow> 'c packet_handler \<Rightarrow> U8 list \<Rightarrow> 'c rx \<Rightarrow> (U8 option list list \<times> 'c rx) option" where
  "half_packet udp LAST_EVENT handle m s =
     (let half = pu8halfpackbuf s in
      do { (packet_len, issubpacket) \<leftarrow> half_packet_len half m;
           if SINGLE_PACKET_LEN_MAX < packet_len
           then packet_loop udp LAST_EVENT handle m (s\<lparr>pu8halfpackbuf := [], s32findMsghead := True\<rparr>)
           else do {
             let cap = (if length half < sizeof_PacketHead then unat packet_len else half_size s);
             if length half > cap then None
             else if unat packet_len > length m + length half
             then (if length half + length m > cap then None
                   else Some ([], s\<lparr>s32findMsghead := False, pu8halfpackbuf := half @ m, half_size := cap\<rparr>))
             else if unat packet_len < length half \<or> unat packet_len > cap then None
             else do {
               let n = unat packet_len - length half;
               (out, c) \<leftarrow> handle issubpacket (half @ take n m) packet_len (parts s);
               (outs, s) \<leftarrow> packet_loop udp LAST_EVENT handle (drop n m)
                             (s\<lparr>s32findMsghead := False, pu8halfpackbuf := [], parts := c\<rparr>);
               Some (out @ outs, s) } } })"

definition check_packet ::
  "bool \<Rightarrow> U32 \<Rightarrow> 'c packet_handler \<Rightarrow> U8 list \<Rightarrow> 'c rx \<Rightarrow> (U8 option list list \<times> 'c rx) option" where
  "check_packet udp LAST_EVENT handle m s =
     (if pu8halfpackbuf s \<noteq> [] then half_packet udp LAST_EVENT handle m s else packet_loop udp LAST_EVENT handle m s)"

section \<open>Reading blocks\<close>

lemma slice_append: "slice m p n = Some x \<Longrightarrow> slice (m @ j) p n = Some x"
  by (auto simp: slice_def split: if_splits)

lemma rd32_append: "rd32 m p = Some x \<Longrightarrow> rd32 (m @ j) p = Some x"
  by (auto simp: rd32_def slice_append)

lemma rd32_None: "rd32 m p = None \<longleftrightarrow> length m < p + 4"
  by (auto simp: rd32_def slice_def)

lemma half_field_eq: "half_field pos half m = rd32 (half @ m) pos"
  by (auto simp: half_field_def rd32_def slice_def add.commute[of 4])

section \<open>Framing\<close>

text \<open>A complete packet as the receiver sees it, and handling packets one by one.\<close>

definition whole_packet :: "U32 \<Rightarrow> U8 list \<Rightarrow> bool" where
  "whole_packet LAST_EVENT p =
     (case peek_packet p of (packet_len, u32msgtype, issubpacket) \<Rightarrow>
        packet_len = of_nat (length p) \<and> u32msgtype < LAST_EVENT \<and> length p \<le> unat SINGLE_PACKET_LEN_MAX
        \<and> length p \<ge> (if issubpacket then sizeof_PacketHead else sizeof_stMsgHeader))"

fun feed_packets :: "'c packet_handler \<Rightarrow> U8 list list \<Rightarrow> 'c \<Rightarrow> (U8 option list list \<times> 'c) option" where
  "feed_packets handle [] c = Some ([], c)"
| "feed_packets handle (p # ps) c =
     do { (out, c) \<leftarrow> handle (snd (snd (peek_packet p))) p (of_nat (length p)) c;
          (outs, c) \<leftarrow> feed_packets handle ps c;
          Some (out @ outs, c) }"

fun feed_blocks :: "('s \<Rightarrow> U8 list \<Rightarrow> ('o list \<times> 's) option) \<Rightarrow> 's \<Rightarrow> U8 list list \<Rightarrow> ('o list \<times> 's) option" where
  "feed_blocks rcv s [] = Some ([], s)"
| "feed_blocks rcv s (m # ms) =
     do { (out, s) \<leftarrow> rcv s m; (outs, s) \<leftarrow> feed_blocks rcv s ms; Some (out @ outs, s) }"

text \<open>Where packets end, and the condition under which the length of a packet that has begun can be
  read: the block that continues it has at least as many bytes as a packet head up to its length, or
  ends with a packet.\<close>

definition packet_end :: "U8 list list \<Rightarrow> nat \<Rightarrow> bool" where
  "packet_end ps n = (n \<in> set (map (\<lambda>k. length (concat (take k ps))) [0..<Suc (length ps)]))"

fun heads_complete :: "U8 list list \<Rightarrow> nat \<Rightarrow> U8 list list \<Rightarrow> bool" where
  "heads_complete ps n [] = True"
| "heads_complete ps n (m # ms) =
     ((packet_end ps n \<or> SUBPACKET_LEN + 4 \<le> length m \<or> packet_end ps (n + length m))
      \<and> heads_complete ps (n + length m) ms)"

text \<open>What the receiver keeps of the packet that has begun.\<close>

definition keeps :: "'c rx \<Rightarrow> U8 list \<Rightarrow> U8 list list \<Rightarrow> bool" where
  "keeps s h ps = (pu8halfpackbuf s = h \<and> \<not> s32findMsghead s
     \<and> (h = [] \<or> (\<exists>p t ps'. ps = p # ps' \<and> p = h @ t \<and> t \<noteq> [] \<and> (length h < sizeof_PacketHead \<or> half_size s = length p))))"

lemma peek_append:
  assumes "whole_packet L p"
  shows "peek_packet (p @ j) = peek_packet p"
proof -
  have "length p \<ge> 16" "snd (snd (peek_packet p)) \<longrightarrow> length p \<ge> 40"
    using assms by (auto simp: whole_packet_def layout_defs split: if_splits)
  then obtain l t where "rd32 p 8 = Some l" "rd32 p 12 = Some t" "rd32 (p @ j) 8 = Some l" "rd32 (p @ j) 12 = Some t"
    and "l AND PACKET_ENABLE \<noteq> 0 \<longrightarrow> (\<exists>n. rd32 p 32 = Some n \<and> rd32 (p @ j) 32 = Some n)"
  proof -
    obtain l t where lt: "rd32 p 8 = Some l" "rd32 p 12 = Some t"
      using \<open>length p \<ge> 16\<close> rd32_None[of p 8] rd32_None[of p 12] by fastforce
    have "l AND PACKET_ENABLE \<noteq> 0 \<Longrightarrow> snd (snd (peek_packet p))"
      using lt by (auto simp: peek_packet_def MSG_LENGTH_def MSG_TYPE_def split: option.splits)
    then have "l AND PACKET_ENABLE \<noteq> 0 \<longrightarrow> rd32 p 32 \<noteq> None"
      using \<open>snd (snd (peek_packet p)) \<longrightarrow> length p \<ge> 40\<close> by (auto simp: rd32_None)
    then show ?thesis using lt rd32_append that by (metis not_None_eq)
  qed
  then show ?thesis by (auto simp: peek_packet_def MSG_LENGTH_def MSG_TYPE_def SUBPACKET_LEN_def split: option.splits)
qed

text \<open>Peeking at the beginning of a packet: its length is read as soon as it is there.\<close>

lemma peek_prefix:
  assumes "whole_packet L (h @ t)"
  shows "fst (peek_packet h) = 0 \<and> length h < 36 \<or> fst (peek_packet h) = of_nat (length (h @ t))"
    and "fst (snd (peek_packet h)) < L"
proof -
  show "fst (peek_packet h) = 0 \<and> length h < 36 \<or> fst (peek_packet h) = of_nat (length (h @ t))"
    using assms rd32_append[of h 8 _ t] rd32_append[of h 32 _ t] rd32_None[of h 8] rd32_None[of h 32]
    by (auto simp: whole_packet_def peek_packet_def layout_defs split: option.splits if_splits)
  have "fst (snd (peek_packet (h @ t))) < L"
    using assms by (auto simp: whole_packet_def)
  moreover have "fst (snd (peek_packet h)) = 0 \<or> fst (snd (peek_packet h)) = fst (snd (peek_packet (h @ t)))"
    using rd32_append[of h 8 _ t] rd32_append[of h 12 _ t]
    by (auto simp: peek_packet_def MSG_LENGTH_def MSG_TYPE_def Let_def split: option.splits)
  moreover have "0 < L" using \<open>fst (snd (peek_packet (h @ t))) < L\<close> by (metis word_not_simps(1) word_neq_0_conv)
  ultimately show "fst (snd (peek_packet h)) < L" by auto
qed

lemma split_concat:
  assumes "xs @ ys = concat ps" "\<forall>p \<in> set ps. p \<noteq> []"
  shows "\<exists>qs rs h. ps = qs @ rs \<and> xs = concat qs @ h \<and> (h = [] \<or> (\<exists>p t ps'. rs = p # ps' \<and> p = h @ t \<and> t \<noteq> []))"
  using assms
proof (induction ps arbitrary: xs)
  case (Cons p ps)
  show ?case
  proof (cases "length xs < length p")
    case True
    then obtain t where "p = xs @ t" "t \<noteq> []"
      using Cons.prems(1) by (auto simp: append_eq_append_conv2)
    then show ?thesis by (intro exI[of _ "[]"] exI[of _ "p # ps"] exI[of _ xs]) auto
  next
    case False
    then obtain xs' where "xs = p @ xs'" "xs' @ ys = concat ps"
      using Cons.prems(1) by (auto simp: append_eq_append_conv2)
    then obtain qs rs h where "ps = qs @ rs" "xs' = concat qs @ h" "h = [] \<or> (\<exists>p t ps'. rs = p # ps' \<and> p = h @ t \<and> t \<noteq> [])"
      using Cons.IH Cons.prems(2) by (metis list.set_intros(2))
    then show ?thesis using \<open>xs = p @ xs'\<close>
      by (intro exI[of _ "p # qs"] exI[of _ rs] exI[of _ h]) auto
  qed
qed auto

lemma length_concat_take: "length (concat (take i xs)) \<le> length (concat xs)"
proof -
  have "length (concat (take i xs @ drop i xs)) = length (concat (take i xs)) + length (concat (drop i xs))"
    by (simp only: concat_append length_append)
  then show ?thesis by simp
qed

lemma packet_end_inside:
  assumes "0 < k" "k < length q"
  shows "\<not> packet_end (done1 @ q # ps) (length (concat done1) + k)"
proof
  assume "packet_end (done1 @ q # ps) (length (concat done1) + k)"
  then obtain i where i: "length (concat done1) + k = length (concat (take i (done1 @ q # ps)))"
    by (auto simp only: packet_end_def set_map image_iff)
  show False
  proof (cases "i \<le> length done1")
    case True
    then show False using i assms length_concat_take[of i done1] by simp
  next
    case False
    then obtain j where "i = length done1 + Suc j" by (metis add_Suc_right less_imp_Suc_add not_le)
    then show False using i assms by simp
  qed
qed

lemma half_packet_len_peek:
  assumes "12 \<le> length (h @ m)" "snd (snd (peek_packet (h @ m))) \<Longrightarrow> 36 \<le> length (h @ m)"
  shows "half_packet_len h m = Some (fst (peek_packet (h @ m)), snd (snd (peek_packet (h @ m))))"
proof -
  obtain l where l: "rd32 (h @ m) 8 = Some l" using assms(1) rd32_None[of "h @ m" 8] by auto
  show ?thesis
  proof (cases "l AND PACKET_ENABLE = 0")
    case True
    then show ?thesis using l by (simp add: half_packet_len_def half_field_eq peek_packet_def MSG_LENGTH_def Let_def)
  next
    case False
    then have "36 \<le> length (h @ m)"
      using assms(2) l by (auto simp: peek_packet_def MSG_LENGTH_def Let_def split: option.splits)
    then obtain n where "rd32 (h @ m) 32 = Some n" using rd32_None[of "h @ m" 32] by auto
    then show ?thesis using l False
      by (simp add: half_packet_len_def half_field_eq peek_packet_def MSG_LENGTH_def SUBPACKET_LEN_def Let_def)
  qed
qed

lemma half_packet_len_whole:
  assumes "whole_packet L q" "h @ m = q @ j"
  shows "half_packet_len h m = Some (fst (peek_packet q), snd (snd (peek_packet q)))"
proof -
  have "length q \<ge> (if snd (snd (peek_packet q)) then 40 else 16)"
    using assms(1) by (auto simp: whole_packet_def layout_defs split: if_splits)
  then have "length (h @ m) \<ge> (if snd (snd (peek_packet (h @ m))) then 40 else 16)"
    unfolding assms(2) peek_append[OF assms(1)] by (auto split: if_splits)
  then show ?thesis
    using half_packet_len_peek[of h m] peek_append[OF assms(1), of j] assms(2) by (auto split: if_splits)
qed

lemma whole_packet_size:
  assumes "whole_packet L p"
  shows "unat (of_nat (length p) :: U32) = length p" "p \<noteq> []" "fst (peek_packet p) = of_nat (length p)"
  using assms by (auto simp: whole_packet_def layout_defs unat_of_nat split: if_splits)

text \<open>The handler of the packets may only look at the packet it is given.\<close>

locale packet_framing =
  fixes handle :: "'c packet_handler"
  assumes local: "handle sub m len c = Some r \<Longrightarrow> handle sub (m @ j) len c = Some r"
begin

lemma feed_append:
  "feed_packets handle (ps @ qs) c =
     do { (o1, c) \<leftarrow> feed_packets handle ps c; (o2, c) \<leftarrow> feed_packets handle qs c; Some (o1 @ o2, c) }"
  by (induction ps arbitrary: c) (auto split: Option.bind_splits)

lemma loop_packets:
  assumes "\<forall>p \<in> set qs. whole_packet L p" "\<forall>p \<in> set ps. whole_packet L p"
    and "feed_packets handle qs (parts s) = Some (out, c)"
    and "h = [] \<or> (\<exists>p t ps'. ps = p # ps' \<and> p = h @ t \<and> t \<noteq> [])"
    and "pu8halfpackbuf s = []" "\<not> s32findMsghead s"
  shows "\<exists>s'. packet_loop False L handle (concat qs @ h) s = Some (out, s') \<and> keeps s' h ps \<and> parts s' = c"
  using assms
proof (induction qs arbitrary: s out)
  case Nil
  show ?case
  proof (cases "h = []")
    case True
    then show ?thesis using Nil by (auto simp: packet_loop.simps keeps_def)
  next
    case False
    then obtain p t ps' where p: "ps = p # ps'" "p = h @ t" "t \<noteq> []" using Nil by blast
    then have w: "whole_packet L (h @ t)" using Nil.prems(2) by simp
    note l = peek_prefix[OF w] whole_packet_size[OF w]
    have big: "fst (peek_packet h) = 0 \<or> unat (fst (peek_packet h)) > length h"
      using l(1,3) p(3) by (auto simp del: of_nat_add)
    have max: "\<not> SINGLE_PACKET_LEN_MAX < fst (peek_packet h)"
      using l(1,3) w by (auto simp: whole_packet_def word_less_nat_alt simp del: of_nat_add)
    have "packet_loop False L handle h s =
        Some ([], s\<lparr>s32findMsghead := False, pu8halfpackbuf := h,
          half_size := (if fst (peek_packet h) = 0 then length h else unat (fst (peek_packet h)))\<rparr>)"
      using False big max l(2) Nil.prems(6)
      by (subst packet_loop.simps) (auto split: prod.splits simp: not_le)
    then show ?thesis
      using Nil.prems(3) l(1,3) p by (auto simp: keeps_def sizeof_PacketHead_def simp del: of_nat_add)
  qed
next
  case (Cons q qs)
  have w: "whole_packet L q" using Cons.prems(1) by simp
  note q = whole_packet_size[OF w] peek_append[OF w, of "concat qs @ h"]
  obtain o1 c1 o2 where f: "handle (snd (snd (peek_packet q))) q (of_nat (length q)) (parts s) = Some (o1, c1)"
    "feed_packets handle qs c1 = Some (o2, c)" "out = o1 @ o2"
    using Cons.prems(3) by (auto split: Option.bind_splits)
  let ?s = "s\<lparr>s32findMsghead := False, parts := c1\<rparr>"
  obtain s' where s': "packet_loop False L handle (concat qs @ h) ?s = Some (o2, s')" "keeps s' h ps" "parts s' = c"
    using Cons.IH[of ?s o2] Cons.prems f by auto
  obtain n t b where pk: "peek_packet q = (n, t, b)" by (metis prod_cases3)
  have n: "n = of_nat (length q)" "unat n = length q" "n \<noteq> 0"
    using q pk by (auto simp: unat_eq_zero dest: arg_cong[where f = unat])
  have "packet_loop False L handle (q @ concat qs @ h) s = Some (out, s')"
    using q(2) n pk q(4) local[OF f(1), of "concat qs @ h"] s'(1) f(3)
    by (subst packet_loop.simps) (simp del: of_nat_add)
  then show ?case using s' by auto
qed

lemma half_grows:
  assumes w: "whole_packet L q" and k: "keeps s h (q # ps)" and "h \<noteq> []"
    and q: "q = (h @ m) @ t" "t \<noteq> []" and m: "36 \<le> length m"
  shows "\<exists>s'. half_packet False L handle m s = Some ([], s') \<and> keeps s' (h @ m) (q # ps) \<and> parts s' = parts s"
proof -
  note l = peek_prefix[OF w[unfolded q(1)]] whole_packet_size[OF w]
  have len: "half_packet_len h m = Some (of_nat (length q), snd (snd (peek_packet (h @ m))))"
    using half_packet_len_peek[of h m] l(1) m q(1) by auto
  have cap: "length h < sizeof_PacketHead \<or> half_size s = length q" "pu8halfpackbuf s = h" "\<not> s32findMsghead s"
    using k \<open>h \<noteq> []\<close> by (auto simp: keeps_def)
  have max: "\<not> SINGLE_PACKET_LEN_MAX < (of_nat (length q) :: U32)"
    using w l(3) by (auto simp: whole_packet_def word_less_nat_alt)
  have "length h + length m < length q" using q by simp
  then show ?thesis
    using len cap max l(3) q \<open>h \<noteq> []\<close> by (auto simp: half_packet_def keeps_def simp del: of_nat_add)
qed

lemma half_completes:
  assumes w: "\<forall>p \<in> set (q # qs @ ps). whole_packet L p" and k: "keeps s h (q # qs @ ps)"
    and q: "q = h @ t" "h \<noteq> []" "t \<noteq> []"
    and f: "feed_packets handle (q # qs) (parts s) = Some (out, c)"
    and h': "h' = [] \<or> (\<exists>p t ps'. ps = p # ps' \<and> p = h' @ t \<and> t \<noteq> [])"
  shows "\<exists>s'. half_packet False L handle (t @ concat qs @ h') s = Some (out, s') \<and> keeps s' h' ps \<and> parts s' = c"
proof -
  have wq: "whole_packet L q" using w by simp
  note l = whole_packet_size[OF wq] peek_append[OF wq, of "concat qs @ h'"]
  obtain o1 c1 o2 where o: "handle (snd (snd (peek_packet q))) q (of_nat (length q)) (parts s) = Some (o1, c1)"
    "feed_packets handle qs c1 = Some (o2, c)" "out = o1 @ o2"
    using f by (auto split: Option.bind_splits)
  have len: "half_packet_len h (t @ concat qs @ h') = Some (of_nat (length q), snd (snd (peek_packet q)))"
    using half_packet_len_whole[OF wq, of h "t @ concat qs @ h'" "concat qs @ h'"] q(1) l(3) by simp
  have cap: "length h < sizeof_PacketHead \<or> half_size s = length q" "pu8halfpackbuf s = h" "\<not> s32findMsghead s"
    using k q(2) by (auto simp: keeps_def)
  have max: "\<not> SINGLE_PACKET_LEN_MAX < (of_nat (length q) :: U32)"
    using wq l(1) by (auto simp: whole_packet_def word_less_nat_alt)
  let ?s = "s\<lparr>s32findMsghead := False, pu8halfpackbuf := [], parts := c1\<rparr>"
  obtain s' where s': "packet_loop False L handle (concat qs @ h') ?s = Some (o2, s')" "keeps s' h' ps" "parts s' = c"
    using loop_packets[of qs L ps ?s o2 c h'] w o(2) h' by auto
  have n: "length q = length h + length t" "length h < length q" using q by simp_all
  show ?thesis
    using len cap max l(1) s' o n q(1) by (auto simp: half_packet_def simp del: of_nat_add)
qed

lemma receive_block:
  assumes w: "\<forall>p \<in> set (qs @ rs). whole_packet L p" and k: "keeps s h (qs @ rs)"
    and m: "h @ m = concat qs @ h'" and h': "h' = [] \<or> (\<exists>p t ps'. rs = p # ps' \<and> p = h' @ t \<and> t \<noteq> [])"
    and big: "h \<noteq> [] \<Longrightarrow> qs = [] \<Longrightarrow> 36 \<le> length m"
    and f: "feed_packets handle qs (parts s) = Some (out, c)"
  shows "\<exists>s'. check_packet False L handle m s = Some (out, s') \<and> keeps s' h' rs \<and> parts s' = c"
proof (cases "h = []")
  case True
  then have "pu8halfpackbuf s = []" "\<not> s32findMsghead s" using k by (simp_all add: keeps_def)
  then show ?thesis
    using loop_packets[of qs L rs s out c h'] True w f m h' by (simp add: check_packet_def)
next
  case False
  then obtain q t ps' where q: "qs @ rs = q # ps'" "q = h @ t" "t \<noteq> []" using k \<open>h \<noteq> []\<close> by (auto simp: keeps_def)
  have chk: "check_packet False L handle m s = half_packet False L handle m s"
    using False k by (simp add: check_packet_def keeps_def)
  show ?thesis
  proof (cases qs)
    case Nil
    then have h: "h' = h @ m" "rs = q # ps'" using m q by auto
    then obtain t' where t': "q = (h @ m) @ t'" "t' \<noteq> []" using h' False by auto
    then show ?thesis
      using half_grows[of L q s h ps' m t'] w k False big chk f Nil h by simp
  next
    case (Cons q' qs')
    then have q': "q' = q" "ps' = qs' @ rs" using q(1) by auto
    then have "m = t @ concat qs' @ h'" using m q(2) Cons by simp
    then show ?thesis
      using half_completes[of q qs' rs L s h t out c h'] Cons q' w k False q(2,3) h' f chk by simp
  qed
qed

lemma receive_stream:
  assumes "\<forall>p \<in> set (done1 @ ps). whole_packet L p" "keeps s h ps"
    and "h @ concat ms = concat ps" "heads_complete (done1 @ ps) (length (concat done1) + length h) ms"
    and "feed_packets handle ps (parts s) = Some (out, c)"
  shows "\<exists>s'. feed_blocks (\<lambda>s m. check_packet False L handle m s) s ms = Some (out, s') \<and> keeps s' [] [] \<and> parts s' = c"
  using assms
proof (induction ms arbitrary: done1 ps s h out)
  case Nil
  have "ps = []"
  proof (rule ccontr)
    assume "ps \<noteq> []"
    then obtain p ps' where p: "ps = p # ps'" by (cases ps) auto
    then show False
      using Nil.prems(1,2,3) whole_packet_size(2)[of L p] by (auto simp: keeps_def)
  qed
  then show ?case using Nil.prems by (auto simp: keeps_def)
next
  case (Cons m ms)
  have ne: "\<forall>p \<in> set ps. p \<noteq> []" using Cons.prems(1) whole_packet_size(2) by (metis Un_iff set_append)
  have "(h @ m) @ concat ms = concat ps" using Cons.prems(3) by simp
  from split_concat[OF this ne]
  obtain qs rs h' where d: "ps = qs @ rs" "h @ m = concat qs @ h'" "h' = [] \<or> (\<exists>p t ps'. rs = p # ps' \<and> p = h' @ t \<and> t \<noteq> [])"
    by blast
  obtain o1 c1 o2 where o: "feed_packets handle qs (parts s) = Some (o1, c1)" "feed_packets handle rs c1 = Some (o2, c)" "out = o1 @ o2"
    using Cons.prems(5) d(1) by (auto simp: feed_append split: Option.bind_splits)
  have big: "36 \<le> length m" if "h \<noteq> []" "qs = []"
  proof -
    obtain q t ps' where q: "ps = q # ps'" "q = h @ t" "t \<noteq> []" using Cons.prems(2) \<open>h \<noteq> []\<close> by (auto simp: keeps_def)
    have "h' = h @ m" "rs = q # ps'" using d that q by auto
    then obtain t' where "q = (h @ m) @ t'" "t' \<noteq> []" using d(3) \<open>h \<noteq> []\<close> by auto
    then have "\<not> packet_end (done1 @ q # ps') (length (concat done1) + length h)"
      "\<not> packet_end (done1 @ q # ps') (length (concat done1) + (length h + length m))"
      using packet_end_inside[of "length h" q done1 ps'] packet_end_inside[of "length h + length m" q done1 ps'] that(1)
      by simp_all
    then show ?thesis using Cons.prems(4) q(1) by (simp add: SUBPACKET_LEN_def add.assoc)
  qed
  have w: "\<forall>p \<in> set (qs @ rs). whole_packet L p" "keeps s h (qs @ rs)" using Cons.prems(1,2) d(1) by simp_all
  have "\<exists>s'. check_packet False L handle m s = Some (o1, s') \<and> keeps s' h' rs \<and> parts s' = c1"
    by (rule receive_block[OF w d(2,3) big o(1)])
  then obtain s1 where s1: "check_packet False L handle m s = Some (o1, s1)" "keeps s1 h' rs" "parts s1 = c1"
    by (elim exE conjE)
  have "length h + length m = length (concat qs) + length h'" using arg_cong[OF d(2), of length] by simp
  then have n: "heads_complete ((done1 @ qs) @ rs) (length (concat (done1 @ qs)) + length h') ms"
    using Cons.prems(4) d(1) by (simp add: add.assoc)
  have "(h @ m) @ concat ms = concat qs @ concat rs" using Cons.prems(3) d(1) by simp
  then have r: "h' @ concat ms = concat rs" unfolding d(2) by simp
  have "\<forall>p \<in> set ((done1 @ qs) @ rs). whole_packet L p" using Cons.prems(1) d(1) by simp
  from Cons.IH[OF this s1(2) r n, unfolded s1(3), OF o(2)]
  show ?case unfolding o(3) feed_blocks.simps s1(1) by auto
qed

text \<open>Datagrams: every block is a packet.\<close>

lemma receive_datagrams:
  assumes "\<forall>p \<in> set ps. whole_packet L p" "feed_packets handle ps (parts s) = Some (out, c)" "pu8halfpackbuf s = []"
  shows "\<exists>s'. feed_blocks (\<lambda>s m. check_packet True L handle m s) s ps = Some (out, s') \<and> pu8halfpackbuf s' = [] \<and> parts s' = c"
  using assms
proof (induction ps arbitrary: s out)
  case (Cons p ps)
  have w: "whole_packet L p" using Cons.prems(1) by simp
  note l = whole_packet_size[OF w]
  obtain o1 c1 o2 where f: "handle (snd (snd (peek_packet p))) p (of_nat (length p)) (parts s) = Some (o1, c1)"
    "feed_packets handle ps c1 = Some (o2, c)" "out = o1 @ o2"
    using Cons.prems(2) by (auto split: Option.bind_splits)
  obtain n t b where pk: "peek_packet p = (n, t, b)" by (metis prod_cases3)
  have n: "n = of_nat (length p)" "unat n = length p" "n \<noteq> 0"
    using l pk by (auto simp: unat_eq_zero dest: arg_cong[where f = unat])
  let ?s = "s\<lparr>s32findMsghead := False, parts := c1\<rparr>"
  have "packet_loop True L handle [] ?s = Some ([], ?s)" by (subst packet_loop.simps) simp
  then have "check_packet True L handle p s = Some (o1, ?s)"
    using Cons.prems(3) l(2) n pk f(1) unfolding check_packet_def by (subst packet_loop.simps) simp
  then show ?case using Cons.IH[of ?s o2] Cons.prems f by auto
qed simp

end

end
