(* ===== verification/Session_Client.thy ===== *)
theory Session_Client
  imports Session_Packet
begin

text \<open>
  What the client session promises: \<open>Send\<close> cuts a message into packets, and the receiver puts exactly
  the messages together again, in whatever blocks the stream arrives.
\<close>

section \<open>The parts of a message\<close>

definition part_head :: "U32 \<Rightarrow> stMsgHeader \<Rightarrow> U32 \<Rightarrow> nat \<Rightarrow> nat \<Rightarrow> nat \<Rightarrow> PacketHead" where
  "part_head pad mh i n pl k =
     \<lparr>msgHead = mh\<lparr>ulMsgLength := ulMsgLength mh OR PACKET_ENABLE\<rparr>, packetID = i,
      totalPacketNum = of_nat ((n + pl - 1) div pl), packetIndex = of_nat (k + 1), packetOffset = of_nat (k * pl),
      packetLen = of_nat (min pl (n - k * pl)), padding = pad\<rparr>"

definition part_of :: "U32 \<Rightarrow> stMsgHeader \<Rightarrow> U32 \<Rightarrow> U8 list \<Rightarrow> nat \<Rightarrow> nat \<Rightarrow> U8 list" where
  "part_of pad mh i body pl k = packet_head_bytes (part_head pad mh i (length body) pl k) @ take pl (drop (k * pl) body)"

definition message_parts :: "U32 \<Rightarrow> U32 \<Rightarrow> U32 \<Rightarrow> U8 list \<Rightarrow> U8 list list" where
  "message_parts pad i packet_max_len data =
     (let body = drop sizeof_stMsgHeader data; pl = unat packet_max_len - sizeof_PacketHead
      in map (part_of pad (the (header_of data)) i body pl) [0..<(length body + pl - 1) div pl])"

fun send_all :: "'k connection \<Rightarrow> U8 list list \<Rightarrow> 'k \<Rightarrow> bool \<times> 'k" where
  "send_all conn [] k = (True, k)"
| "send_all conn (p # ps) k = (case conn p k of (ret, k) \<Rightarrow> if ret then send_all conn ps k else (False, k))"

lemma length_header_bytes [simp]: "length (header_bytes h) = 16"
  by (simp add: header_bytes_def)

lemma length_packet_head_bytes [simp]: "length (packet_head_bytes h) = 40"
  by (simp add: packet_head_bytes_def)

lemma le_word_le_bytes_4 [simp]: "le_word (le_bytes 4 (w :: U32)) = w"
  by (simp add: le_word_le_bytes)

lemma rd32_packet_head:
  "rd32 (packet_head_bytes h @ m) 8 = Some (ulMsgLength (msgHead h))"
  "rd32 (packet_head_bytes h @ m) 12 = Some (ulMsgType (msgHead h))"
  "rd32 (packet_head_bytes h @ m) 16 = Some (packetID h)"
  "rd32 (packet_head_bytes h @ m) 20 = Some (totalPacketNum h)"
  "rd32 (packet_head_bytes h @ m) 28 = Some (packetOffset h)"
  "rd32 (packet_head_bytes h @ m) 32 = Some (packetLen h)"
  "slice (packet_head_bytes h @ m) 0 16 = Some (header_bytes (msgHead h))"
  by (simp_all add: rd32_def slice_def packet_head_bytes_def header_bytes_def)

lemma length_at_least:
  assumes "n \<le> length xs"
  obtains ys zs where "xs = ys @ zs" "length ys = n"
  by (metis append_take_drop_id assms length_take min.absorb2)

lemma le_bytes_le_word: "length bs = n \<Longrightarrow> le_bytes n (le_word bs :: U32) = bs" if "n \<le> 4"
proof (rule nth_equalityI)
  fix i
  assume l: "length bs = n" and i: "i < length (le_bytes n (le_word bs :: U32))"
  show "le_bytes n (le_word bs :: U32) ! i = bs ! i"
  proof (rule bit_word_eqI)
    fix j
    assume "j < LENGTH(8)"
    then have "(8 * i + j) div 8 = i" "(8 * i + j) mod 8 = j" "8 * i + j < 32" using i l that by simp_all
    then show "bit (le_bytes n (le_word bs :: U32) ! i) j = bit (bs ! i) j"
      using i l \<open>j < LENGTH(8)\<close>
      by (simp add: le_bytes_def bit_ucast_iff bit_drop_bit_eq bit_le_word)
  qed
qed simp

lemma header_of_bytes:
  assumes "header_of m = Some h"
  shows "take 16 m = header_bytes h" "16 \<le> length m"
proof -
  show "16 \<le> length m"
    using assms by (auto simp: header_of_def rd32_def slice_def split: Option.bind_splits if_splits)
  then obtain a m1 where 1: "m = a @ m1" "length a = 4" using length_at_least[of 4 m] by auto
  then have "12 \<le> length m1" using \<open>16 \<le> length m\<close> by simp
  then obtain b m2 where 2: "m1 = b @ m2" "length b = 4" using length_at_least[of 4 m1] by auto
  then have "8 \<le> length m2" using \<open>12 \<le> length m1\<close> by simp
  then obtain c m3 where 3: "m2 = c @ m3" "length c = 4" using length_at_least[of 4 m2] by auto
  then have "4 \<le> length m3" using \<open>8 \<le> length m2\<close> by simp
  then obtain d m4 where 4: "m3 = d @ m4" "length d = 4" using length_at_least[of 4 m3] by auto
  have "m = a @ b @ c @ d @ m4" using 1 2 3 4 by simp
  then show "take 16 m = header_bytes h"
    using assms 1(2) 2(2) 3(2) 4(2) by (auto simp: header_of_def rd32_def slice_def header_bytes_def le_bytes_le_word)
qed

section \<open>Sending the parts\<close>

text \<open>The sizes for which the arithmetic of \<open>Send\<close> is meant.  A packet has room for at least 24 bytes
  after its head: the heads of the later parts are written in front of the bytes they belong to.\<close>

definition sizes_ok :: "nat \<Rightarrow> nat \<Rightarrow> bool" where
  "sizes_ok n pl = (24 \<le> pl \<and> pl + 24 < n \<and> n + 16 + pl < 2 ^ 32)"

lemma unat_of_nat_U32: "n < 2 ^ 32 \<Longrightarrow> unat (of_nat n :: U32) = n"
  by (simp add: unat_of_nat)

lemma sizes_ok_sum:
  assumes "sizes_ok n pl"
  shows "n + pl - 1 < 2 ^ 32" "pl < 2 ^ 32"
  using assms less_imp_diff_less[of "n + pl" "2 ^ 32" 1] by (simp_all add: sizes_ok_def)

lemma first_head_eq:
  assumes "sizes_ok n pl"
  shows "first_head pad mh i (of_nat (n + 16)) (of_nat (pl + 40)) = part_head pad mh i n pl 0"
proof -
  have plen: "of_nat (pl + 40) - of_nat sizeof_PacketHead = (of_nat pl :: U32)"
    by (simp add: sizeof_PacketHead_def)
  have num: "of_nat (n + 16) - of_nat sizeof_stMsgHeader + of_nat pl - 1 = (of_nat (n + pl - 1) :: U32)"
    using assms by (simp add: sizeof_stMsgHeader_def sizes_ok_def of_nat_diff)
  have "unat (of_nat (n + pl - 1) :: U32) = n + pl - 1" "unat (of_nat pl :: U32) = pl"
    using sizes_ok_sum[OF assms] by (simp_all only: unat_of_nat_U32)
  then have "(of_nat (n + pl - 1) :: U32) div of_nat pl = of_nat ((n + pl - 1) div pl)"
    by (simp only: word_arith_nat_div)
  then show ?thesis
    unfolding first_head_def Let_def plen num using assms by (simp add: part_head_def sizes_ok_def)
qed

lemma next_part_head:
  assumes "sizes_ok n pl" "(k + 1) * pl < n"
  shows "(part_head pad mh i n pl k)\<lparr>packetIndex := packetIndex (part_head pad mh i n pl k) + 1,
      packetOffset := packetOffset (part_head pad mh i n pl k) + packetLen (part_head pad mh i n pl k)\<rparr> =
    (part_head pad mh i n pl (k + 1))\<lparr>packetLen := of_nat pl\<rparr>"
  using assms by (auto simp: part_head_def min_def algebra_simps)

text \<open>How many parts there are, and which one is the last.\<close>

lemma part_count:
  assumes "0 < pl" "0 < (n::nat)"
  shows "k < (n + pl - 1) div pl \<longleftrightarrow> k * pl < n"
proof -
  have "k < (n + pl - 1) div pl \<longleftrightarrow> Suc k * pl \<le> n + pl - 1"
    using assms by (simp add: less_eq_div_iff_mult_less_eq Suc_le_eq[symmetric])
  also have "\<dots> \<longleftrightarrow> k * pl < n" using assms by auto
  finally show ?thesis .
qed

lemma last_part:
  assumes "0 < pl" "0 < (n::nat)" "k < (n + pl - 1) div pl"
  shows "k + 1 = (n + pl - 1) div pl \<longleftrightarrow> n \<le> (k + 1) * pl"
  using part_count[OF assms(1,2), of "k + 1"] assms(3) by linarith

lemma overwrite_slice:
  assumes "p + length xs \<le> length data"
  shows "overwrite data p xs = Some (take p data @ xs @ drop (p + length xs) data)"
    and "p + length xs + l \<le> length data \<Longrightarrow>
      slice (take p data @ xs @ drop (p + length xs) data) p (length xs + l) = Some (xs @ take l (drop (p + length xs) data))"
  using assms by (auto simp: overwrite_def slice_def)

lemma send_parts_eq:
  assumes sz: "sizes_ok (length body) pl" and k: "0 < k" "k < (length body + pl - 1) div pl"
    and d: "length data = length body + 16" "drop (16 + k * pl) data = drop (k * pl) body"
  shows "\<exists>data'. send_parts conn (of_nat (length body + 16)) (of_nat (pl + 40))
      ((part_head pad mh i (length body) pl (k - 1))) (int (16 + k * pl) - 40) data K =
    Some (fst (send_all conn (map (part_of pad mh i body pl) [k..<(length body + pl - 1) div pl]) K), data',
          snd (send_all conn (map (part_of pad mh i body pl) [k..<(length body + pl - 1) div pl]) K))"
  using k d
proof (induction "(length body + pl - 1) div pl - k" arbitrary: k data K)
  case 0
  then show ?case by simp
next
  case (Suc x)
  let ?n = "length body" let ?N = "(?n + pl - 1) div pl"
  let ?h = "part_head pad mh i ?n pl k"
  have pos: "0 < pl" "0 < ?n" using sz by (auto simp: sizes_ok_def)
  have kn: "k * pl < ?n" using part_count[OF pos, of k] Suc.prems(2) by simp
  have Nle: "?N < 2 ^ 32"
    by (rule le_less_trans[OF div_le_dividend]) (rule sizes_ok_sum(1)[OF sz])
  have head: "(part_head pad mh i ?n pl (k - 1))\<lparr>packetIndex := packetIndex (part_head pad mh i ?n pl (k - 1)) + 1,
      packetOffset := packetOffset (part_head pad mh i ?n pl (k - 1)) + packetLen (part_head pad mh i ?n pl (k - 1))\<rparr> =
      ?h\<lparr>packetLen := of_nat pl\<rparr>"
    using next_part_head[OF sz, of "k - 1"] Suc.prems(1) kn by simp
  have p: "\<not> int (16 + k * pl) - 40 < 0" "nat (int (16 + k * pl) - 40) = k * pl - 24" "24 \<le> k * pl"
  proof -
    have "1 * 24 \<le> k * pl" by (rule mult_le_mono) (use Suc.prems(1) sz in \<open>auto simp: sizes_ok_def\<close>)
    then show "\<not> int (16 + k * pl) - 40 < 0" "nat (int (16 + k * pl) - 40) = k * pl - 24" "24 \<le> k * pl"
      by (simp_all only: of_nat_add)
  qed
  have idx: "packetIndex ?h = totalPacketNum ?h \<longleftrightarrow> k + 1 = ?N"
  proof -
    have "k + 1 < 2 ^ 32" using Nle Suc.prems(2) by linarith
    then have "unat (of_nat (k + 1) :: U32) = k + 1" "unat (of_nat ?N :: U32) = ?N"
      using Nle by (simp_all only: unat_of_nat_U32)
    then show ?thesis unfolding part_head_def PacketHead.simps by metis
  qed
  have pos40: "k * pl - 24 + 40 = 16 + k * pl" using p(3) by simp
  let ?new = "take (k * pl - 24) data @ packet_head_bytes ?h @ drop (16 + k * pl) data"
  have fits: "k * pl - 24 + length (packet_head_bytes ?h) \<le> length data" using kn Suc.prems(3) pos40 by simp
  note ow = overwrite_slice[OF fits, unfolded length_packet_head_bytes pos40]
  have parts: "map (part_of pad mh i body pl) [k..<?N] = part_of pad mh i body pl k # map (part_of pad mh i body pl) [k + 1..<?N]"
    using Suc.prems(2) upt_conv_Cons[of k ?N] by simp
  show ?case
  proof (cases "k + 1 = ?N")
    case True
    then have "?n \<le> (k + 1) * pl" using last_part[OF pos Suc.prems(2)] by blast
    then have rest: "?n - k * pl \<le> pl" by (simp add: algebra_simps)
    have len: "of_nat (?n + 16) - of_nat (k * pl) - of_nat sizeof_stMsgHeader = (of_nat (?n - k * pl) :: U32)"
      using kn by (simp add: sizeof_stMsgHeader_def of_nat_diff)
    have last: "?h\<lparr>packetLen := of_nat ?n + 16 - packetOffset ?h - of_nat sizeof_stMsgHeader\<rparr> = ?h"
      using len rest by (simp add: part_head_def min_def)
    have l40: "unat (packetLen ?h + of_nat sizeof_PacketHead) = 40 + (?n - k * pl)"
    proof -
      have "40 + (?n - k * pl) < 2 ^ 32" using rest sz by (simp add: sizes_ok_def)
      moreover have "packetLen ?h + of_nat sizeof_PacketHead = of_nat (40 + (?n - k * pl))"
        using rest by (simp add: part_head_def sizeof_PacketHead_def min_def)
      ultimately show ?thesis by (simp only: unat_of_nat_U32)
    qed
    have sl: "slice ?new (k * pl - 24) (40 + (?n - k * pl)) = Some (part_of pad mh i body pl k)"
      using ow(2)[of "?n - k * pl"] kn Suc.prems(3,4) rest pos40 by (simp add: part_of_def)
    show ?thesis
      using True parts idx p(1,2) ow(1) sl
      unfolding send_parts.simps[of conn _ _ "part_head pad mh i ?n pl (k - 1)" _ data K] Let_def head
      by (simp add: last l40 split: prod.splits)
  next
    case False
    then have more: "(k + 1) * pl < ?n" using last_part[OF pos Suc.prems(2)] by (metis not_le)
    have hk: "?h\<lparr>packetLen := of_nat pl\<rparr> = ?h" "packetLen ?h = of_nat pl"
      using more by (auto simp: part_head_def min_def)
    have l: "unat (of_nat (pl + 40) :: U32) = 40 + pl" "unat (of_nat pl :: U32) = pl"
      using sz unat_of_nat_U32[of "pl + 40"] unat_of_nat_U32[of pl] by (simp_all add: sizes_ok_def)
    have sl: "slice ?new (k * pl - 24) (40 + pl) = Some (part_of pad mh i body pl k)"
      using ow(2)[of pl] more Suc.prems(3,4) pos40 by (simp add: part_of_def algebra_simps)
    have new: "length ?new = ?n + 16" "drop (16 + (k + 1) * pl) ?new = drop ((k + 1) * pl) body"
    proof -
      show "length ?new = ?n + 16" using Suc.prems(3) kn p(3) by simp
      have "drop (16 + k * pl) ?new = drop (16 + k * pl) data" using Suc.prems(3) kn p(3) by simp
      then have "drop pl (drop (16 + k * pl) ?new) = drop pl (drop (k * pl) body)" using Suc.prems(4) by simp
      then show "drop (16 + (k + 1) * pl) ?new = drop ((k + 1) * pl) body" by (simp only: drop_drop) (simp add: algebra_simps)
    qed
    have at: "int (16 + k * pl) - 40 + int pl = int (16 + (k + 1) * pl) - 40" by (simp add: algebra_simps)
    obtain ret K' where c: "conn (part_of pad mh i body pl k) K = (ret, K')" by fastforce
    have "x = ?N - (k + 1)" "0 < k + 1" "k + 1 < ?N" using Suc.hyps(2) Suc.prems(2) False by simp_all
    from Suc.hyps(1)[OF this(1,2,3) new, of K'] c
    show ?thesis
      using False parts idx p(1,2) ow(1) sl
      unfolding send_parts.simps[of conn _ _ "part_head pad mh i ?n pl (k - 1)" _ data K] Let_def head hk l at
      by auto
  qed
qed

text \<open>\<open>Send\<close> hands the parts to the connection, one after the other, until one is not taken.\<close>

lemma drop_16_append: "length xs = 16 \<Longrightarrow> take 16 data = xs \<Longrightarrow> data = xs @ drop 16 data"
  by (metis append_take_drop_id)

lemma Send_parts:
  assumes mh: "header_of data = Some mh" and len: "length data = n + 16" and mx: "unat mx = pl + 40"
    and sz: "sizes_ok n pl"
  shows "\<exists>r. ClientNetSession_Send (\<lambda>_. True) pad conn True True sid data (of_nat (length data)) mx K = Some r \<and>
    (sr_ret r, sr_conn r) = send_all conn (message_parts pad (next_sendID sid) mx data) K \<and>
    sr_sendID r = next_sendID sid \<and> \<not> sr_locked r"
proof -
  let ?i = "next_sendID sid" let ?body = "drop 16 data"
  let ?N = "(n + pl - 1) div pl"
  have "of_nat (unat mx) = mx" by simp
  then have m: "mx = of_nat (pl + 40)" unfolding mx by (rule sym)
  have lb: "length ?body = n" using len by simp
  have pos: "0 < pl" "0 < n" using sz by (auto simp: sizes_ok_def)
  have big: "of_nat (length data) > mx" "\<not> mx \<le> of_nat sizeof_PacketHead"
  proof -
    have "unat (of_nat (n + 16) :: U32) = n + 16" using sz by (intro unat_of_nat_U32) (simp add: sizes_ok_def)
    then show "of_nat (length data) > mx" using mx sz unfolding word_less_nat_alt len by (auto simp only: sizes_ok_def)
    show "\<not> mx \<le> of_nat sizeof_PacketHead" using mx sz by (simp add: word_le_nat_alt sizeof_PacketHead_def sizes_ok_def)
  qed
  let ?h = "part_head pad mh ?i n pl 0"
  have h: "first_head pad mh ?i (of_nat (length data)) mx = ?h" using first_head_eq[OF sz] m len by simp
  have pl0: "unat (packetLen ?h) = pl"
    using sz unat_of_nat_U32[of pl] by (simp add: part_head_def sizes_ok_def)
  have body: "slice data sizeof_stMsgHeader pl = Some (take pl ?body)"
    using sz len by (simp add: slice_def sizeof_stMsgHeader_def sizes_ok_def)
  have N: "1 < ?N" using part_count[OF pos, of 1] sz by (simp add: sizes_ok_def)
  have parts: "message_parts pad ?i mx data = (packet_head_bytes ?h @ take pl ?body) # map (part_of pad mh ?i ?body pl) [1..<?N]"
    using N mh mx lb upt_conv_Cons[of 0 ?N] by (simp add: message_parts_def Let_def sizeof_stMsgHeader_def sizeof_PacketHead_def part_of_def)
  obtain ret K' where c: "conn (packet_head_bytes ?h @ take pl ?body) K = (ret, K')" by fastforce
  have "drop (16 + 1 * pl) data = drop (1 * pl) ?body" by (simp add: add.commute)
  from send_parts_eq[of ?body pl 1 data conn pad mh ?i K', unfolded lb, OF sz zero_less_one N len this]
  obtain data' where s: "send_parts conn (of_nat (n + 16)) (of_nat (pl + 40)) ?h (int (16 + pl) - 40) data K' =
      Some (fst (send_all conn (map (part_of pad mh ?i ?body pl) [1..<?N]) K'), data',
            snd (send_all conn (map (part_of pad mh ?i ?body pl) [1..<?N]) K'))"
    by auto
  have s': "send_parts conn (of_nat (length data)) mx ?h (int sizeof_stMsgHeader + int pl - int sizeof_PacketHead) data K' =
      Some (fst (send_all conn (map (part_of pad mh ?i ?body pl) [1..<?N]) K'), data',
            snd (send_all conn (map (part_of pad mh ?i ?body pl) [1..<?N]) K'))"
    using s m len by (simp add: sizeof_stMsgHeader_def sizeof_PacketHead_def)
  show ?thesis
    using big mh h pl0 body c s' by (cases ret) (simp_all add: ClientNetSession_Send_def Let_def parts)
qed

lemma Send_whole:
  assumes "length data \<le> unat mx"
  shows "\<exists>r. ClientNetSession_Send alloc pad conn True True sid data (of_nat (length data)) mx K = Some r \<and>
    (sr_ret r, sr_conn r) = conn data K \<and> sr_sendID r = sid \<and> \<not> sr_locked r"
proof -
  have "unat (of_nat (length data) :: U32) = length data"
    using assms unat_lt_U32[of mx] by (intro unat_of_nat_U32) linarith
  moreover from this have "\<not> of_nat (length data) > mx" using assms by (simp only: word_less_nat_alt not_less)
  ultimately show ?thesis
    by (auto simp: ClientNetSession_Send_def slice_def Let_def split: prod.split)
qed

section \<open>Putting the parts together\<close>

lemma flag_mask: "NOT PACKET_ENABLE = mask 31" "PACKET_ENABLE = NOT (mask 31)"
  by (simp_all add: PACKET_ENABLE_def mask_eq_exp_minus_1)

lemma flag_length:
  assumes "l < 2 ^ 31"
  shows "(l OR PACKET_ENABLE) AND NOT PACKET_ENABLE = l" "l AND PACKET_ENABLE = 0" "(l OR PACKET_ENABLE) AND PACKET_ENABLE \<noteq> 0"
proof -
  have m: "l AND mask 31 = l"
    using assms unfolding take_bit_eq_mask[symmetric]
    by (simp add: word_unat_eq_iff unsigned_take_bit_eq take_bit_nat_eq_self_iff word_less_nat_alt)
  show "(l OR PACKET_ENABLE) AND NOT PACKET_ENABLE = l"
    unfolding flag_mask using m by (simp add: bit.conj_disj_distrib2)
  have "l AND PACKET_ENABLE = (l AND mask 31) AND NOT (mask 31)" using m by (simp add: flag_mask)
  then show "l AND PACKET_ENABLE = 0" by (simp add: and.assoc)
  have "(l OR PACKET_ENABLE) AND PACKET_ENABLE = PACKET_ENABLE" by (simp add: bit.conj_disj_distrib2 bit.disj_conj_distrib)
  then show "(l OR PACKET_ENABLE) AND PACKET_ENABLE \<noteq> 0" by (simp add: PACKET_ENABLE_def)
qed

definition flagged :: "stMsgHeader \<Rightarrow> stMsgHeader" where
  "flagged mh = mh\<lparr>ulMsgLength := ulMsgLength mh OR PACKET_ENABLE\<rparr>"

abbreviation no_parts :: reassembly where
  "no_parts \<equiv> \<lparr>u32receiveID = 0, u32receivecount = 0, pu8receivebuf = None\<rparr>"

lemma msgHead_part_head: "msgHead (part_head pad mh i n pl k) = flagged mh"
  by (simp add: part_head_def flagged_def)

text \<open>What has been put together when the parts with indices in \<open>S\<close> have arrived and \<open>n\<close> parts have been
  counted.\<close>

definition bytes_in :: "stMsgHeader \<Rightarrow> U8 list \<Rightarrow> nat \<Rightarrow> nat set \<Rightarrow> U8 option list" where
  "bytes_in mh body pl S =
     map Some (header_bytes (flagged mh)) @ map (\<lambda>j. if j div pl \<in> S then Some (body ! j) else None) [0..<length body]"

definition arrived :: "U32 \<Rightarrow> stMsgHeader \<Rightarrow> U8 list \<Rightarrow> nat \<Rightarrow> nat set \<Rightarrow> nat \<Rightarrow> reassembly" where
  "arrived i mh body pl S n = \<lparr>u32receiveID = i, u32receivecount = of_nat n, pu8receivebuf = Some (bytes_in mh body pl S)\<rparr>"

lemma div_eq_interval: "0 < pl \<Longrightarrow> j div pl = k \<longleftrightarrow> k * pl \<le> j \<and> j < k * pl + (pl::nat)"
proof -
  assume "0 < pl"
  then have "k \<le> j div pl \<longleftrightarrow> k * pl \<le> j" "j div pl < Suc k \<longleftrightarrow> j < Suc k * pl"
    by (simp_all only: less_eq_div_iff_mult_less_eq div_less_iff_less_mult)
  moreover have "j div pl = k \<longleftrightarrow> k \<le> j div pl \<and> j div pl < Suc k" by auto
  ultimately show ?thesis by (simp add: add.commute)
qed

lemma overwrite_bytes_in:
  assumes "k * pl < length body" "0 < pl"
  shows "overwrite (bytes_in mh body pl S) (16 + k * pl) (map Some (take pl (drop (k * pl) body))) =
    Some (bytes_in mh body pl (insert k S))"
proof -
  let ?f = "\<lambda>S j. if j div pl \<in> S then Some (body ! j) else None"
  let ?n = "length body" let ?p = "take pl (drop (k * pl) body)"
  have len: "length ?p = min pl (?n - k * pl)" by simp
  have "take (k * pl) (map (?f S) [0..<?n]) @ map Some ?p @ drop (k * pl + length ?p) (map (?f S) [0..<?n]) = map (?f (insert k S)) [0..<?n]"
    (is "?l = ?r")
  proof (rule nth_equalityI)
    show "length ?l = length ?r" using assms(1) by (auto simp: min_def)
    fix j
    assume "j < length ?l"
    then have j: "j < ?n" using assms(1) by (auto simp: min_def split: if_splits)
    note d = div_eq_interval[OF assms(2), of j k]
    consider "j < k * pl" | "k * pl \<le> j" "j < k * pl + pl" | "k * pl + pl \<le> j" by linarith
    then show "?l ! j = ?r ! j"
    proof cases
      case 1
      then show ?thesis using j d assms(1) by (simp add: nth_append)
    next
      case 2
      then have b: "j - k * pl < length ?p" "\<not> j < k * pl" "k * pl + (j - k * pl) = j" using j by (simp_all only: len)
      have "?l ! j = map Some ?p ! (j - k * pl)" using b j by (simp add: nth_append)
      also have "\<dots> = Some (body ! j)" using b assms(1) by simp
      also have "\<dots> = ?r ! j" using 2 j d by simp
      finally show ?thesis .
    next
      case 3
      then have "length ?p = pl" using j by simp
      moreover have "\<not> j < k * pl" "\<not> j - k * pl < pl" "j div pl \<noteq> k" using 3 d by linarith+
      ultimately show ?thesis using 3 j assms(1) by (simp add: nth_append)
    qed
  qed
  then show ?thesis
    using assms(1) by (simp add: overwrite_def bytes_in_def)
qed


lemma start_message_eq:
  assumes "ulMsgLength mh = of_nat (length body)" "length body < 2 ^ 31"
  shows "start_message (\<lambda>_. True) i (part_of pad mh i body pl k) r = Some (arrived i mh body pl {} 0)"
proof -
  have "unat (of_nat (length body) :: U32) = length body" using assms(2) by (intro unat_of_nat_U32) simp
  moreover from this have "(of_nat (length body) :: U32) < 2 ^ 31" using assms(2) by (simp add: word_less_nat_alt)
  moreover have "map (\<lambda>j. None) [0..<length body] = replicate (length body) (None :: U8 option)"
    by (simp add: map_replicate_const)
  ultimately show ?thesis
    using assms(1) flag_length(1)[of "ulMsgLength mh"]
    by (simp add: start_message_def part_of_def MSG_LENGTH_def sizeof_stMsgHeader_def rd32_packet_head msgHead_part_head
        arrived_def bytes_in_def flagged_def Let_def)
qed

lemma add_part_eq:
  assumes sz: "sizes_ok (length body) pl" and k: "k * pl < length body" and c: "c < (length body + pl - 1) div pl"
  shows "add_part (part_of pad mh i body pl k) (arrived i mh body pl S c) =
    Some (c + 1 = (length body + pl - 1) div pl,
      arrived i mh body pl (insert k S) (if c + 1 = (length body + pl - 1) div pl then 0 else c + 1))"
proof -
  let ?n = "length body" let ?N = "(?n + pl - 1) div pl" let ?m = "min pl (?n - k * pl)"
  have pl: "0 < pl" using sz by (simp add: sizes_ok_def)
  have Nle: "?N < 2 ^ 32"
    by (rule le_less_trans[OF div_le_dividend]) (rule sizes_ok_sum(1)[OF sz])
  have "k * pl < 2 ^ 32" "?m < 2 ^ 32" using k sz by (auto simp: sizes_ok_def)
  then have u: "unat (of_nat (k * pl) :: U32) = k * pl" "unat (of_nat ?m :: U32) = ?m"
    by (simp_all only: unat_of_nat_U32)
  have idx: "(of_nat c + 1 :: U32) = of_nat ?N \<longleftrightarrow> c + 1 = ?N"
  proof -
    have "c + 1 < 2 ^ 32" using Nle c by linarith
    then have "unat (of_nat (c + 1) :: U32) = c + 1" "unat (of_nat ?N :: U32) = ?N"
      using Nle by (simp_all only: unat_of_nat_U32)
    then have "(of_nat (c + 1) :: U32) = of_nat ?N \<longleftrightarrow> c + 1 = ?N" by metis
    then show ?thesis by (simp add: add.commute)
  qed
  have sl: "slice (part_of pad mh i body pl k) 40 ?m = Some (take pl (drop (k * pl) body))"
    by (cases "pl \<le> ?n - k * pl") (simp_all add: slice_def part_of_def min_def)
  have f: "rd32 (part_of pad mh i body pl k) 28 = Some (of_nat (k * pl))" "rd32 (part_of pad mh i body pl k) 32 = Some (of_nat ?m)"
    "rd32 (part_of pad mh i body pl k) 20 = Some (of_nat ?N)"
    unfolding part_of_def rd32_packet_head by (simp_all add: part_head_def)
  have st: "pu8receivebuf (arrived i mh body pl S c) = Some (bytes_in mh body pl S)" for S c
    by (simp add: arrived_def)
  show ?thesis
    unfolding add_part_def st option.case layout_defs f Option.bind.bind_lunit u sl overwrite_bytes_in[OF k pl] Let_def
    by (cases "c + 1 = ?N"; simp only: arrived_def reassembly.simps idx refl if_True if_False simp_thms option.case)
      (simp_all (no_asm) add: add.commute)
qed

lemma bytes_in_all:
  assumes "\<And>j. j < length body \<Longrightarrow> j div pl \<in> S"
  shows "bytes_in mh body pl S = map Some (header_bytes (flagged mh)) @ map Some body"
  using assms by (simp add: bytes_in_def) (rule nth_equalityI; simp)

text \<open>The last part completes the message; the flag is gone and the buffer is given back.\<close>

lemma hand_over_bytes:
  assumes "ulMsgLength mh = of_nat (length rest)" "length rest < 2 ^ 31"
  shows "hand_over (map Some (header_bytes (flagged mh)) @ rest) = Some (map Some (header_bytes mh) @ rest)"
proof -
  have "unat (of_nat (length rest) :: U32) = length rest" "unat (of_nat (length rest + 16) :: U32) = length rest + 16"
    using assms(2) by (intro unat_of_nat_U32; simp)+
  then have l: "(of_nat (length rest) :: U32) < 2 ^ 31" "unat (of_nat (length rest + 16) :: U32) = length rest + 16"
    using assms(2) by (simp_all only: word_less_nat_alt) simp_all
  have f: "(ulMsgLength mh OR PACKET_ENABLE) AND NOT PACKET_ENABLE = of_nat (length rest)"
    using flag_length(1)[of "ulMsgLength mh"] assms(1) l(1) by simp
  have u: "unat ((of_nat (length rest) :: U32) + of_nat sizeof_stMsgHeader) = length rest + 16"
    using l(2) by (simp add: sizeof_stMsgHeader_def)
  have sl: "slice (map Some (header_bytes (flagged mh)) @ rest) 8 4 = Some (map Some (le_bytes 4 (ulMsgLength mh OR PACKET_ENABLE)))"
    by (simp add: slice_def header_bytes_def flagged_def)
  have ow: "overwrite (map Some (header_bytes (flagged mh)) @ rest) 8 (map Some (le_bytes 4 (of_nat (length rest) :: U32))) =
      Some (map Some (header_bytes mh) @ rest)"
    using assms(1) by (simp add: overwrite_def header_bytes_def flagged_def)
  show ?thesis
    unfolding hand_over_def MSG_LENGTH_def sl Let_def
    using f u ow by (simp add: o_def slice_def)
qed

lemma hand_over_eq:
  assumes "ulMsgLength mh = of_nat (length body)" "length body < 2 ^ 31"
  shows "hand_over (map Some (header_bytes (flagged mh)) @ map Some body) = Some (map Some (header_bytes mh @ body))"
  using hand_over_bytes[of mh "map Some body"] assms by simp

lemma parts_all:
  assumes "sizes_ok (length body) pl" "S = {..<(length body + pl - 1) div pl}"
  shows "bytes_in mh body pl S = map Some (header_bytes (flagged mh)) @ map Some body"
proof (rule bytes_in_all)
  fix j
  assume "j < length body"
  moreover have pos: "0 < pl" "0 < length body" using assms(1) by (auto simp: sizes_ok_def)
  moreover have "j div pl * pl \<le> j" by simp
  ultimately show "j div pl \<in> S" using part_count[OF pos, of "j div pl"] assms(2) by (simp only: lessThan_iff)
qed

lemma client_part:
  assumes mh: "ulMsgLength mh = of_nat (length body)" "length body < 2 ^ 31"
    and sz: "sizes_ok (length body) pl" and N: "N = (length body + pl - 1) div pl"
    and k: "k \<notin> S" "insert k S \<subseteq> {..<N}"
    and r: "if S = {} then u32receiveID r \<noteq> i else r = arrived i mh body pl S (card S)"
  shows "client_packet (\<lambda>_. True) True (part_of pad mh i body pl k) len r =
    Some (if insert k S = {..<N} then ([map Some (header_bytes mh @ body)], no_parts)
          else ([], arrived i mh body pl (insert k S) (card (insert k S))))"
proof -
  have pos: "0 < pl" "0 < length body" using sz by (auto simp: sizes_ok_def)
  have kn: "k * pl < length body" using k(2) part_count[OF pos, of k] N by simp
  have fin: "finite S" by (rule finite_subset[OF _ finite_lessThan[of N]]) (use k(2) in blast)
  have c1: "card (insert k S) = card S + 1" using k(1) fin by simp
  have c2: "card S < N" using card_mono[OF finite_lessThan k(2)] c1 by simp
  have all: "card S + 1 = N \<longleftrightarrow> insert k S = {..<N}"
    using c1 card_subset_eq[OF finite_lessThan k(2)] card_lessThan[of N] by metis
  have "rd32 (part_of pad mh i body pl k) PACKET_ID = Some i"
    by (simp add: part_of_def PACKET_ID_def rd32_packet_head) (simp add: part_head_def)
  moreover have "u32receiveID (arrived i mh body pl S (card S)) = i" by (simp add: arrived_def)
  ultimately have c: "CombineSubpacket (\<lambda>_. True) (part_of pad mh i body pl k) r =
      add_part (part_of pad mh i body pl k) (arrived i mh body pl S (card S))"
    using r start_message_eq[OF mh, of i pad pl k r] by (simp add: CombineSubpacket_def split: if_splits)
  note add = add_part_eq[OF sz kn c2[unfolded N], of pad mh i S, folded N, unfolded all]
  show ?thesis
  proof (cases "insert k S = {..<N}")
    case True
    have "pu8receivebuf (arrived i mh body pl (insert k S) 0) = Some (map Some (header_bytes (flagged mh)) @ map Some body)"
      using parts_all[OF sz True[unfolded N]] by (simp add: arrived_def)
    then show ?thesis
      unfolding client_packet_def c add using True hand_over_eq[OF mh] by simp
  next
    case False
    then show ?thesis unfolding client_packet_def c add c1 by simp
  qed
qed

lemma peek_part:
  "peek_packet (part_of pad mh i body pl k) = (of_nat (min pl (length body - k * pl) + 40), ulMsgType mh, True)"
proof -
  have "ulMsgLength (flagged mh) AND PACKET_ENABLE = PACKET_ENABLE"
    by (simp add: flagged_def bit.conj_disj_distrib2 bit.disj_conj_distrib)
  then show ?thesis
    by (simp add: peek_packet_def part_of_def layout_defs rd32_packet_head msgHead_part_head Let_def)
      (simp add: part_head_def flagged_def)
qed

text \<open>The parts of one message may arrive in any order.\<close>

lemma feed_parts:
  assumes mh: "ulMsgLength mh = of_nat (length body)" "length body < 2 ^ 31" and sz: "sizes_ok (length body) pl"
    and N: "N = (length body + pl - 1) div pl"
    and ks: "distinct ks" "ks \<noteq> []" "set ks \<inter> S = {}" "set ks \<union> S = {..<N}"
    and r: "if S = {} then u32receiveID r \<noteq> i else r = arrived i mh body pl S (card S)"
  shows "feed_packets (client_packet (\<lambda>_. True)) (map (part_of pad mh i body pl) ks) r =
    Some ([map Some (header_bytes mh @ body)], no_parts)"
  using ks r
proof (induction ks arbitrary: S r)
  case (Cons k ks)
  have sub: "k \<notin> S" "insert k S \<subseteq> {..<N}" using Cons.prems(3,4) by auto
  note step = client_part[OF mh sz N sub Cons.prems(5), of pad "of_nat (length (part_of pad mh i body pl k))"]
  show ?case
  proof (cases "ks = []")
    case True
    then have "insert k S = {..<N}" using Cons.prems(4) by auto
    then show ?thesis using True step by (simp add: peek_part)
  next
    case False
    then obtain k' where k': "k' \<in> set ks" by (cases ks) auto
    then have "k' \<in> {..<N}" "k' \<noteq> k" "k' \<notin> S" using Cons.prems(1,3,4) by auto
    then have more: "insert k S \<noteq> {..<N}" by blast
    have "distinct ks" "set ks \<inter> insert k S = {}" "set ks \<union> insert k S = {..<N}" using Cons.prems(1,3,4) by auto
    from Cons.IH[OF this(1) False this(2,3), of "arrived i mh body pl (insert k S) (card (insert k S))"]
    show ?thesis
      using step more by (simp add: peek_part)
  qed
qed simp

section \<open>The session\<close>

datatype NetProtocol = NETPROTOCOL_INVALID | NETPROTOCOL_UDP | NETPROTOCOL_TCP | NETPROTOCOL_SCTP | NETPROTOCOL_RAWIP | NETPROTOCOL_ASFPMAL

datatype SessionMode = SESSION_MODE_PACKET_HEAD | SESSION_MODE_PASS_THROUGH

record client_session =
  m_pNetsession :: bool
  u32sendID :: U32
  u32protocol :: NetProtocol
  u32sessionmode :: SessionMode
  receive_func_call :: bool
  disconnect_func_call :: bool
  client_rx :: "reassembly rx"

definition ClientNetSession :: "SessionMode \<Rightarrow> client_session" where
  "ClientNetSession mode = \<lparr>m_pNetsession = False, u32sendID = 0, u32protocol = NETPROTOCOL_INVALID, u32sessionmode = mode,
     receive_func_call = False, disconnect_func_call = False,
     client_rx = \<lparr>pu8halfpackbuf = [], half_size = 0, s32findMsghead = False, parts = no_parts\<rparr>\<rparr>"

text \<open>\<open>create\<close> is the answer of \<open>NetFactory\<close>: whether there is a connection.\<close>

definition ClientNetSession_InitNetSession ::
  "bool \<Rightarrow> NetProtocol \<Rightarrow> bool \<Rightarrow> bool \<Rightarrow> client_session \<Rightarrow> bool \<times> client_session" where
  "ClientNetSession_InitNetSession create protocol receive_func disconnect_func s =
     (let s = s\<lparr>u32sendID := 0, u32protocol := protocol, u32sessionmode := SESSION_MODE_PACKET_HEAD, m_pNetsession := False,
                client_rx := (client_rx s)\<lparr>pu8halfpackbuf := [], parts := no_parts\<rparr>\<rparr> in
      if protocol \<noteq> NETPROTOCOL_UDP \<and> protocol \<noteq> NETPROTOCOL_TCP then (False, s)
      else if \<not> create then (False, s)
      else (True, s\<lparr>m_pNetsession := True, receive_func_call := receive_func, disconnect_func_call := disconnect_func\<rparr>))"

definition ClientNetSession_DisConnect :: "client_session \<Rightarrow> client_session" where
  "ClientNetSession_DisConnect s =
     s\<lparr>m_pNetsession := False, u32sendID := 0,
       client_rx := (client_rx s)\<lparr>pu8halfpackbuf := [], parts := no_parts\<rparr>\<rparr>"

definition ClientNetSession_SetSessionMode :: "SessionMode \<Rightarrow> client_session \<Rightarrow> client_session" where
  "ClientNetSession_SetSessionMode mode s = s\<lparr>u32sessionmode := mode\<rparr>"

definition ClientNetSession_OnRecv ::
  "(nat \<Rightarrow> bool) \<Rightarrow> U32 \<Rightarrow> client_session \<Rightarrow> U8 list \<Rightarrow> (U8 option list list \<times> client_session) option" where
  "ClientNetSession_OnRecv alloc LAST_EVENT s m =
     (if \<not> receive_func_call s then Some ([], s)
      else if u32sessionmode s = SESSION_MODE_PASS_THROUGH then Some ([map Some m], s)
      else do { (out, r) \<leftarrow> check_packet (u32protocol s = NETPROTOCOL_UDP) LAST_EVENT (client_packet alloc) m (client_rx s);
                Some (out, s\<lparr>client_rx := r\<rparr>) })"

text \<open>Sending messages one after the other on a connection that takes and records every packet.\<close>

definition recorder :: "U8 list list connection" where
  "recorder p k = (True, k @ [p])"

fun client_sends :: "U32 \<Rightarrow> (U8 list \<times> U32) list \<Rightarrow> U32 \<Rightarrow> U8 list list \<Rightarrow> (U32 \<times> U8 list list) option" where
  "client_sends pad [] sid k = Some (sid, k)"
| "client_sends pad ((data, mx) # ms) sid k =
     do { r \<leftarrow> ClientNetSession_Send (\<lambda>_. True) pad recorder True True sid data (of_nat (length data)) mx k;
          if sr_ret r then client_sends pad ms (sr_sendID r) (sr_conn r) else None }"

text \<open>A message whose head states its length, of a known type, and a limit that leaves room in a packet.\<close>

definition sendable :: "U32 \<Rightarrow> U8 list \<Rightarrow> U32 \<Rightarrow> bool" where
  "sendable LAST_EVENT data mx =
     (case header_of data of
        None \<Rightarrow> False
      | Some mh \<Rightarrow> ulMsgLength mh = of_nat (length data - 16) \<and> length data < 2 ^ 31 \<and> ulMsgType mh < LAST_EVENT
          \<and> 64 \<le> unat mx \<and> mx \<le> SINGLE_PACKET_LEN_MAX)"

lemma send_all_recorder: "send_all recorder ps k = (True, k @ ps)"
  by (induction ps arbitrary: k) (simp_all add: recorder_def)

lemma start_message_append:
  "start_message alloc i m r = Some x \<Longrightarrow> start_message alloc i (m @ j) r = Some x"
  by (auto simp: start_message_def Let_def rd32_append slice_append split: Option.bind_split_asm if_split_asm)

lemma add_part_append: "add_part m r = Some x \<Longrightarrow> add_part (m @ j) r = Some x"
  by (auto simp: add_part_def Let_def rd32_append slice_append split: Option.bind_split_asm option.split_asm if_split_asm)

lemma CombineSubpacket_append:
  assumes "CombineSubpacket alloc m r = Some x"
  shows "CombineSubpacket alloc (m @ j) r = Some x"
proof -
  obtain i where i: "rd32 m PACKET_ID = Some i"
    using assms by (cases "rd32 m PACKET_ID") (simp_all add: CombineSubpacket_def)
  show ?thesis
    using assms i rd32_append[OF i, of j] start_message_append[of alloc i m r _ j] add_part_append[of m _ x j]
    by (auto simp: CombineSubpacket_def split: Option.bind_split_asm if_split_asm)
qed

lemma client_packet_append:
  assumes "client_packet alloc sub m len c = Some r"
  shows "client_packet alloc sub (m @ j) len c = Some r"
proof (cases sub)
  case True
  then obtain x where x: "CombineSubpacket alloc m c = Some x"
    using assms by (cases "CombineSubpacket alloc m c") (simp_all add: client_packet_def)
  then show ?thesis using assms True CombineSubpacket_append[OF x, of j] by (simp add: client_packet_def)
next
  case False
  then show ?thesis using assms by (auto simp: client_packet_def slice_append split: Option.bind_split_asm)
qed

interpretation client_framing: packet_framing "client_packet alloc"
  by unfold_locales (rule client_packet_append)

lemma header_of_fields:
  assumes "header_of m = Some mh"
  shows "rd32 m 8 = Some (ulMsgLength mh)" "rd32 m 12 = Some (ulMsgType mh)"
  using assms by (auto simp: header_of_def split: Option.bind_split_asm)

lemma whole_message:
  assumes "sendable L data mx" "length data \<le> unat mx"
  shows "peek_packet data = (of_nat (length data), the (map_option ulMsgType (header_of data)), False)" "whole_packet L data"
proof -
  obtain mh where mh: "header_of data = Some mh" "ulMsgLength mh = of_nat (length data - 16)" "length data < 2 ^ 31"
    "ulMsgType mh < L" "mx \<le> SINGLE_PACKET_LEN_MAX"
    using assms(1) by (auto simp: sendable_def split: option.split_asm)
  note l = header_of_bytes(2)[OF mh(1)] header_of_fields[OF mh(1)]
  have "unat (of_nat (length data - 16) :: U32) = length data - 16" using mh(3) by (intro unat_of_nat_U32) simp
  then have "ulMsgLength mh < 2 ^ 31" using mh(2,3) by (simp add: word_less_nat_alt)
  then have f: "ulMsgLength mh AND PACKET_ENABLE = 0" by (rule flag_length(2))
  have "ulMsgLength mh + of_nat sizeof_stMsgHeader = of_nat (length data)"
    unfolding mh(2) using l(1) by (simp add: sizeof_stMsgHeader_def of_nat_diff)
  then show p: "peek_packet data = (of_nat (length data), the (map_option ulMsgType (header_of data)), False)"
    using l(2,3) f mh(1) by (simp add: peek_packet_def MSG_LENGTH_def MSG_TYPE_def Let_def)
  show "whole_packet L data"
    using p mh l(1) assms(2) by (auto simp: whole_packet_def word_le_nat_alt sizeof_stMsgHeader_def)
qed

lemma whole_part:
  assumes "ulMsgType mh < L" "pl + 40 \<le> unat SINGLE_PACKET_LEN_MAX"
  shows "whole_packet L (part_of pad mh i body pl k)"
proof -
  have "length (part_of pad mh i body pl k) = min pl (length body - k * pl) + 40" by (simp add: part_of_def)
  then show ?thesis using assms by (simp add: whole_packet_def peek_part sizeof_PacketHead_def)
qed

lemma client_sends_one:
  assumes s: "sendable L data mx" and i: "u32receiveID c \<noteq> next_sendID sid"
  obtains r ps where "ClientNetSession_Send (\<lambda>_. True) pad recorder True True sid data (of_nat (length data)) mx k = Some r"
    "sr_ret r" "sr_conn r = k @ ps" "\<forall>p \<in> set ps. whole_packet L p"
    "feed_packets (client_packet (\<lambda>_. True)) ps c = Some ([map Some data], if length data \<le> unat mx then c else no_parts)"
proof -
  obtain mh where mh: "header_of data = Some mh" "ulMsgLength mh = of_nat (length data - 16)" "length data < 2 ^ 31"
    "ulMsgType mh < L" "mx \<le> SINGLE_PACKET_LEN_MAX" "64 \<le> unat mx"
    using s by (auto simp: sendable_def split: option.split_asm)
  note l = header_of_bytes[OF mh(1)]
  show thesis
  proof (cases "length data \<le> unat mx")
    case True
    note w = whole_message[OF s True]
    from Send_whole[OF True, of "\<lambda>_. True" pad recorder sid k]
    obtain r where "ClientNetSession_Send (\<lambda>_. True) pad recorder True True sid data (of_nat (length data)) mx k = Some r"
      "(sr_ret r, sr_conn r) = recorder data k" by blast
    moreover have "feed_packets (client_packet (\<lambda>_. True)) [data] c = Some ([map Some data], c)"
      using w(1) whole_packet_size(1)[OF w(2)] by (simp add: client_packet_def slice_def)
    ultimately show thesis using that[of r "[data]"] w(2) True by (simp add: recorder_def)
  next
    case False
    let ?n = "length data - 16" let ?pl = "unat mx - 40" let ?body = "drop 16 data"
    have mx: "unat mx \<le> 1048576" using mh(5) by (simp add: SINGLE_PACKET_LEN_MAX_def word_le_nat_alt)
    have sz: "sizes_ok ?n ?pl" using False mh(3,6) mx by (auto simp: sizes_ok_def)
    have n: "length data = ?n + 16" "unat mx = ?pl + 40" using l(2) mh(6) by simp_all
    from Send_parts[OF mh(1) n sz, of pad recorder sid k]
    obtain r where r: "ClientNetSession_Send (\<lambda>_. True) pad recorder True True sid data (of_nat (length data)) mx k = Some r"
      "(sr_ret r, sr_conn r) = send_all recorder (message_parts pad (next_sendID sid) mx data) k" by blast
    let ?ps = "message_parts pad (next_sendID sid) mx data"
    have ps: "?ps = map (part_of pad mh (next_sendID sid) ?body ?pl) [0..<(length ?body + ?pl - 1) div ?pl]"
      using mh(1) by (simp add: message_parts_def Let_def sizeof_stMsgHeader_def sizeof_PacketHead_def)
    have "whole_packet L p" if "p \<in> set ?ps" for p
      using that whole_part[of mh L ?pl] mh(4,5,6) unfolding ps by (auto simp: word_le_nat_alt)
    moreover have "header_bytes mh @ ?body = data" using l(1) by (metis append_take_drop_id)
    moreover have "0 < (length ?body + ?pl - 1) div ?pl"
    proof -
      have "0 < ?pl" "0 < length ?body" using sz by (auto simp: sizes_ok_def)
      then show ?thesis using part_count[of ?pl "length ?body" 0] by (simp only: mult_zero_left)
    qed
    then have "feed_packets (client_packet (\<lambda>_. True)) ?ps c = Some ([map Some (header_bytes mh @ ?body)], no_parts)"
      unfolding ps using feed_parts[of mh ?body ?pl "(length ?body + ?pl - 1) div ?pl" "[0..<(length ?body + ?pl - 1) div ?pl]" "{}" c "next_sendID sid" pad] sz mh(2,3) i
      by (auto simp: lessThan_atLeast0)
    ultimately show thesis using that[of r ?ps] r False by (simp add: send_all_recorder)
  qed
qed

lemma next_sendID_nonzero: "next_sendID i \<noteq> 0"
  by (auto simp: next_sendID_def word_less_nat_alt dest!: arg_cong[where f = unat] simp: unat_word_ariths)

lemma client_sends_run:
  assumes "\<forall>(d, mx) \<in> set msgs. sendable L d mx" "u32receiveID c = 0"
  shows "\<exists>sid' ps c'. client_sends pad msgs sid k = Some (sid', k @ ps) \<and> (\<forall>p \<in> set ps. whole_packet L p) \<and>
    feed_packets (client_packet (\<lambda>_. True)) ps c = Some (map (map Some \<circ> fst) msgs, c') \<and> u32receiveID c' = 0"
  using assms
proof (induction msgs arbitrary: sid k c)
  case (Cons m ms)
  obtain d mx where m: "m = (d, mx)" by fastforce
  then have s: "sendable L d mx" "u32receiveID c \<noteq> next_sendID sid" using Cons.prems next_sendID_nonzero by auto
  obtain r ps where r: "ClientNetSession_Send (\<lambda>_. True) pad recorder True True sid d (of_nat (length d)) mx k = Some r"
    "sr_ret r" "sr_conn r = k @ ps" "\<forall>p \<in> set ps. whole_packet L p"
    "feed_packets (client_packet (\<lambda>_. True)) ps c = Some ([map Some d], if length d \<le> unat mx then c else no_parts)"
    by (rule client_sends_one[OF s])
  let ?c = "if length d \<le> unat mx then c else no_parts"
  have "u32receiveID ?c = 0" "\<forall>(d, mx) \<in> set ms. sendable L d mx" using Cons.prems by auto
  from Cons.IH[OF this(2,1), of "sr_sendID r" "k @ ps"]
  obtain sid' ps' c' where "client_sends pad ms (sr_sendID r) (k @ ps) = Some (sid', (k @ ps) @ ps')" "\<forall>p \<in> set ps'. whole_packet L p"
    "feed_packets (client_packet (\<lambda>_. True)) ps' ?c = Some (map (map Some \<circ> fst) ms, c')" "u32receiveID c' = 0" by blast
  then show ?case
    using r m by (intro exI[of _ sid'] exI[of _ "ps @ ps'"] exI[of _ c']) (auto simp: client_framing.feed_append)
qed simp

text \<open>C5. The session protocol end to end.  Messages whose head states their length are sent, whole or in parts;
  however the stream of their packets is cut into blocks, as long as a block that continues a packet
  completes its head, the receiver hands over exactly these messages, in this order, and keeps nothing.\<close>

theorem session_round_trip:
  assumes "\<forall>(d, mx) \<in> set msgs. sendable LAST_EVENT d mx"
    and "receive_func_call s" "u32sessionmode s = SESSION_MODE_PACKET_HEAD" "u32protocol s = NETPROTOCOL_TCP"
    and "keeps (client_rx s) [] []" "u32receiveID (parts (client_rx s)) = 0"
  shows "\<exists>sid' packets. client_sends pad msgs sid [] = Some (sid', packets) \<and>
    (\<forall>blocks. concat blocks = concat packets \<longrightarrow> heads_complete packets 0 blocks \<longrightarrow>
      (\<exists>s'. feed_blocks (ClientNetSession_OnRecv (\<lambda>_. True) LAST_EVENT) s blocks = Some (map (map Some \<circ> fst) msgs, s') \<and>
        keeps (client_rx s') [] []))"
proof -
  let ?f = "\<lambda>s m. check_packet False LAST_EVENT (client_packet (\<lambda>_. True)) m s"
  have lift: "feed_blocks (ClientNetSession_OnRecv (\<lambda>_. True) LAST_EVENT) s bs = Some (out, s\<lparr>client_rx := x\<rparr>)"
    if "feed_blocks ?f (client_rx s) bs = Some (out, x)" "receive_func_call s" "u32sessionmode s = SESSION_MODE_PACKET_HEAD"
      "u32protocol s = NETPROTOCOL_TCP" for bs out x s
    using that
    by (induction bs arbitrary: s out) (auto simp: ClientNetSession_OnRecv_def split: Option.bind_split_asm)
  obtain sid' ps c' where p: "client_sends pad msgs sid [] = Some (sid', ps)" "\<forall>p \<in> set ps. whole_packet LAST_EVENT p"
    "feed_packets (client_packet (\<lambda>_. True)) ps (parts (client_rx s)) = Some (map (map Some \<circ> fst) msgs, c')"
    using client_sends_run[OF assms(1,6), of pad sid "[]"] by auto
  have k: "keeps (client_rx s) [] ps" using assms(5) by (simp add: keeps_def)
  have "\<exists>s'. feed_blocks (ClientNetSession_OnRecv (\<lambda>_. True) LAST_EVENT) s bs = Some (map (map Some \<circ> fst) msgs, s') \<and> keeps (client_rx s') [] []"
    if "concat bs = concat ps" "heads_complete ps 0 bs" for bs
    using client_framing.receive_stream[of "[]" ps LAST_EVENT "client_rx s" "[]" bs "\<lambda>_. True" "map (map Some \<circ> fst) msgs" c']
      p(2,3) k that lift[of s bs] assms(2-4) by fastforce
  then show ?thesis using p(1) by blast
qed

text \<open>A message of the witness: a head for 60 bytes of type 7, and the bytes.\<close>

definition toy_message :: "U8 list" where
  "toy_message = header_bytes \<lparr>ulSendSubSysId = 1, ulRcvdSubSysId = 2, ulMsgLength = 60, ulMsgType = 7\<rparr> @ map of_nat [0..<60]"

definition toy_session :: client_session where
  "toy_session = snd (ClientNetSession_InitNetSession True NETPROTOCOL_TCP True True (ClientNetSession SESSION_MODE_PACKET_HEAD))"

lemma toy_packets: "client_sends 0 [(toy_message, 64)] 0 [] = Some (1, message_parts 0 1 64 toy_message)"
  by code_simp

lemma toy_packet_lengths: "map length (message_parts 0 1 64 toy_message) = [64, 64, 52]"
  by code_simp

lemma toy_sendable: "sendable 100 toy_message 64"
proof -
  have "header_of toy_message = Some \<lparr>ulSendSubSysId = 1, ulRcvdSubSysId = 2, ulMsgLength = 60, ulMsgType = 7\<rparr>"
    by (simp add: toy_message_def header_of_def rd32_def slice_def header_bytes_def)
  then show ?thesis by (simp add: sendable_def toy_message_def SINGLE_PACKET_LEN_MAX_def)
qed

lemma session_round_trip_witness:
  "\<exists>s'. feed_blocks (ClientNetSession_OnRecv (\<lambda>_. True) 100) toy_session
      [take 50 (concat (message_parts 0 1 64 toy_message)), drop 50 (concat (message_parts 0 1 64 toy_message))]
    = Some ([map Some toy_message], s') \<and> keeps (client_rx s') [] []"
proof -
  let ?ps = "message_parts 0 1 64 toy_message"
  let ?blocks = "[take 50 (concat ?ps), drop 50 (concat ?ps)]"
  have l: "length (concat ?ps) = 180" using toy_packet_lengths by (simp add: length_concat)
  have "packet_end ?ps 0" unfolding packet_end_def set_map by (rule image_eqI[of _ _ 0]) simp_all
  then have blocks: "concat ?blocks = concat ?ps" "heads_complete ?ps 0 ?blocks"
    using l by (simp_all add: SUBPACKET_LEN_def)
  have s: "receive_func_call toy_session" "u32sessionmode toy_session = SESSION_MODE_PACKET_HEAD"
    "u32protocol toy_session = NETPROTOCOL_TCP" "keeps (client_rx toy_session) [] []" "u32receiveID (parts (client_rx toy_session)) = 0"
    by (simp_all add: toy_session_def ClientNetSession_InitNetSession_def ClientNetSession_def keeps_def)
  have "\<forall>(d, mx) \<in> set [(toy_message, 64)]. sendable 100 d mx" using toy_sendable by simp
  from session_round_trip[OF this s, of 0 0]
  have "\<forall>blocks. concat blocks = concat ?ps \<longrightarrow> heads_complete ?ps 0 blocks \<longrightarrow>
      (\<exists>s'. feed_blocks (ClientNetSession_OnRecv (\<lambda>_. True) 100) toy_session blocks =
        Some (map (map Some \<circ> fst) [(toy_message, 64 :: U32)], s')
        \<and> keeps (client_rx s') [] [])"
    by (elim exE conjE) (simp only: toy_packets option.inject prod.inject)
  from this[rule_format, OF blocks] show ?thesis by (simp only: list.map comp_apply fst_conv)
qed

section \<open>Limits of the protocol\<close>

text \<open>A block that does not complete the head of the packet it continues: the length is read behind the block.\<close>

lemma torn_head_reads_outside:
  assumes "pu8halfpackbuf s \<noteq> []" "length (pu8halfpackbuf s) + length m < 12"
  shows "check_packet udp L handle m s = None"
proof -
  have "rd32 (pu8halfpackbuf s @ m) 8 = None" using assms(2) by (simp add: rd32_None)
  then have "half_packet_len (pu8halfpackbuf s) m = None"
    by (simp add: half_packet_len_def half_field_eq MSG_LENGTH_def)
  then show ?thesis using assms(1) by (simp add: check_packet_def half_packet_def)
qed

text \<open>A part whose offset or length does not fit the message it claims to belong to: it is written behind
  the buffer.\<close>

lemma foreign_offset_writes_outside:
  assumes "pu8receivebuf r = Some b" "rd32 m SUBPACKET_OFFSET = Some off" "rd32 m SUBPACKET_LEN = Some l"
    and "length b < 16 + unat off + unat l"
  shows "add_part m r = None"
  using assms
  by (auto simp: add_part_def overwrite_def slice_def sizeof_stMsgHeader_def split: Option.bind_split)

text \<open>With less than 24 bytes of room behind the head, the head of the second part is written in front of the
  caller's message.\<close>

lemma small_packets_write_outside:
  assumes "header_of data = Some mh" "41 \<le> unat mx" "unat mx < 64" "unat mx < length data" "length data < 2 ^ 31"
    and "fst (conn (packet_head_bytes (first_head pad mh (next_sendID sid) (of_nat (length data)) mx)
                    @ take (unat mx - 40) (drop 16 data)) k)"
  shows "ClientNetSession_Send (\<lambda>_. True) pad conn True True sid data (of_nat (length data)) mx k = None"
proof -
  have u: "unat (of_nat (length data) :: U32) = length data" using assms(5) by (intro unat_of_nat_U32) simp
  have big: "of_nat (length data) > mx" "\<not> mx \<le> of_nat sizeof_PacketHead"
    using assms(2,4) u by (auto simp: word_less_nat_alt word_le_nat_alt sizeof_PacketHead_def)
  let ?h = "first_head pad mh (next_sendID sid) (of_nat (length data)) mx"
  have pl: "unat (packetLen ?h) = unat mx - 40"
    using assms(2) by (simp add: first_head_def Let_def sizeof_PacketHead_def unat_sub word_le_nat_alt)
  have body: "slice data sizeof_stMsgHeader (unat mx - 40) = Some (take (unat mx - 40) (drop 16 data))"
    using assms(2,4) by (simp add: slice_def sizeof_stMsgHeader_def)
  obtain k' where c: "conn (packet_head_bytes ?h @ take (unat mx - 40) (drop 16 data)) k = (True, k')"
    using assms(6) by (metis prod.collapse)
  have "unat mx - 40 < 24" using assms(2,3) by linarith
  then have neg: "int sizeof_stMsgHeader + int (unat mx - 40) - int sizeof_PacketHead < 0"
    by (simp only: sizeof_stMsgHeader_def sizeof_PacketHead_def)
  then have "send_parts conn (of_nat (length data)) mx ?h (int sizeof_stMsgHeader + int (unat mx - 40) - int sizeof_PacketHead) data k' = None"
    by (subst send_parts.simps) (simp add: Let_def)
  then show ?thesis
    using big assms(1) pl body c by (simp add: ClientNetSession_Send_def Let_def)
qed

text \<open>When the copy of the first part cannot be allocated, \<open>Send\<close> returns with the mutex held.\<close>

lemma send_failure_keeps_mutex:
  assumes "header_of data = Some mh" "mx < of_nat (length data)" "of_nat sizeof_PacketHead < mx" "\<not> alloc (unat mx)"
  shows "\<exists>r. ClientNetSession_Send alloc pad conn True True sid data (of_nat (length data)) mx k = Some r \<and>
    \<not> sr_ret r \<and> sr_locked r"
  using assms by (auto simp: ClientNetSession_Send_def Let_def not_le)

text \<open>The search for a message head outlives the connection: on a new one, a first block of less than 16
  bytes is dropped although it begins a message.\<close>

lemma reconnect_drops_first_block:
  assumes "s32findMsghead (client_rx s)" "0 < length m" "length m < 12"
    and "ClientNetSession_InitNetSession True NETPROTOCOL_TCP True True (ClientNetSession_DisConnect s) = (ret, s')"
  shows "\<exists>s''. ClientNetSession_OnRecv alloc L s' m = Some ([], s'') \<and> pu8halfpackbuf (client_rx s'') = []"
proof -
  have s': "receive_func_call s'" "u32sessionmode s' = SESSION_MODE_PACKET_HEAD" "u32protocol s' = NETPROTOCOL_TCP"
    "s32findMsghead (client_rx s')" "pu8halfpackbuf (client_rx s') = []"
    using assms(1,4) by (auto simp: ClientNetSession_InitNetSession_def ClientNetSession_DisConnect_def Let_def)
  have "rd32 m 8 = None" using assms(3) by (simp add: rd32_None)
  then have "peek_packet m = (0, 0, False)" by (simp add: peek_packet_def MSG_LENGTH_def)
  then have "packet_loop False L (client_packet alloc) m (client_rx s') = Some ([], (client_rx s')\<lparr>s32findMsghead := True\<rparr>)"
    using assms(2,3) s'(4) by (subst packet_loop.simps) (simp add: MSG_TYPE_def)
  then show ?thesis using s' by (auto simp: ClientNetSession_OnRecv_def check_packet_def)
qed

text \<open>Parts are counted, not checked: the same part twice completes a message of two parts, and the
  receiver is given memory that was never written.\<close>

lemma duplicate_part_completes:
  assumes mh: "ulMsgLength mh = of_nat (length body)" "length body < 2 ^ 31" and sz: "sizes_ok (length body) pl"
    and two: "(length body + pl - 1) div pl = 2" and r: "u32receiveID r \<noteq> i"
  shows "\<exists>msg. feed_packets (client_packet (\<lambda>_. True)) [part_of pad mh i body pl 0, part_of pad mh i body pl 0] r =
    Some ([msg], no_parts) \<and> None \<in> set msg"
proof -
  let ?p = "part_of pad mh i body pl 0" let ?l = "of_nat (length ?p)"
  have pos: "0 < pl" "0 < length body" using sz by (auto simp: sizes_ok_def)
  have "client_packet (\<lambda>_. True) True ?p ?l r = Some ([], arrived i mh body pl {0} 1)"
    using client_part[OF mh sz refl, of 0 "{}" r i pad ?l] two r by (simp add: lessThan_Suc numeral_2_eq_2)
  moreover have "client_packet (\<lambda>_. True) True ?p ?l (arrived i mh body pl {0} 1) =
      Some ([map Some (header_bytes mh) @ map (\<lambda>j. if j div pl \<in> {0} then Some (body ! j) else None) [0..<length body]], no_parts)"
  proof -
    have "rd32 ?p PACKET_ID = Some i"
      by (simp add: part_of_def PACKET_ID_def rd32_packet_head) (simp add: part_head_def)
    moreover have "add_part ?p (arrived i mh body pl {0} 1) = Some (True, arrived i mh body pl {0} 0)"
      using add_part_eq[OF sz, of 0 1 pad mh i "{0}"] two pos by simp
    ultimately have "CombineSubpacket (\<lambda>_. True) ?p (arrived i mh body pl {0} 1) = Some (True, arrived i mh body pl {0} 0)"
      by (simp add: CombineSubpacket_def) (simp add: arrived_def)
    then show ?thesis
      using hand_over_bytes[of mh "map (\<lambda>j. if j div pl \<in> {0} then Some (body ! j) else None) [0..<length body]"] mh
      by (simp add: client_packet_def arrived_def bytes_in_def)
  qed
  moreover have "pl < length body" "pl div pl = 1" using part_count[OF pos, of 1] two pos by simp_all
  then have "None \<in> set (map (\<lambda>j. if j div pl \<in> {0} then Some (body ! j) else None) [0..<length body])"
    by (auto simp: image_iff intro!: bexI[of _ pl])
  ultimately show ?thesis by (simp add: peek_part)
qed

end
