(* ===== verification/Session_Server.thy ===== *)
theory Session_Server
  imports Session_Client "HOL-Library.Multiset"
begin

text \<open>
  The server side of a session: \<^verbatim>\<open>platform/network/platform_netsession_server.cpp\<close>.  A table holds for
  each client what has arrived of a packet and two messages being put together, so that parts of two
  messages may arrive mixed.  The statistics that only \<open>mem_check\<close> reads (\<open>S32count\<close>, \<open>S32len\<close>,
  \<open>S32halfcount\<close>, \<open>S32halflen\<close>) are left out: nothing calls \<open>mem_check\<close>.
\<close>

section \<open>Two messages at a time\<close>

record server_parts =
  astClientRecv0 :: reassembly
  astClientRecv1 :: reassembly
  u32okcount :: U32
  u32failcount :: U32

definition no_server_parts :: server_parts where
  "no_server_parts = \<lparr>astClientRecv0 = no_parts, astClientRecv1 = no_parts, u32okcount = 0, u32failcount = 0\<rparr>"

definition slot :: "bool \<Rightarrow> server_parts \<Rightarrow> reassembly" where
  "slot index r = (if index then astClientRecv1 r else astClientRecv0 r)"

definition set_slot :: "bool \<Rightarrow> reassembly \<Rightarrow> server_parts \<Rightarrow> server_parts" where
  "set_slot index x r = (if index then r\<lparr>astClientRecv1 := x\<rparr> else r\<lparr>astClientRecv0 := x\<rparr>)"

text \<open>The slot of a packet, and whether a new message starts in it.\<close>

definition find_slot :: "U32 \<Rightarrow> server_parts \<Rightarrow> bool \<times> bool" where
  "find_slot packet_id r =
     (if u32receiveID (astClientRecv0 r) = packet_id then (False, False)
      else if u32receiveID (astClientRecv1 r) = packet_id then (True, False)
      else if u32receiveID (astClientRecv0 r) < u32receiveID (astClientRecv1 r) then (False, True)
      else (True, True))"

definition Server_CombineSubpacket ::
  "(nat \<Rightarrow> bool) \<Rightarrow> U8 list \<Rightarrow> server_parts \<Rightarrow> (bool \<times> bool \<times> server_parts) option" where
  "Server_CombineSubpacket alloc m r =
     do { packet_id \<leftarrow> rd32 m PACKET_ID;
          let (index, fresh) = find_slot packet_id r;
          r \<leftarrow> (if fresh
                then do { let r = (if pu8receivebuf (slot index r) \<noteq> None then r\<lparr>u32failcount := u32failcount r + 1\<rparr> else r);
                          x \<leftarrow> start_message alloc packet_id m (slot index r);
                          Some (set_slot index x r) }
                else Some r);
          (success, x) \<leftarrow> add_part m (slot index r);
          Some (success, index, set_slot index x r) }"

definition server_packet ::
  "(nat \<Rightarrow> bool) \<Rightarrow> bool \<Rightarrow> U8 list \<Rightarrow> U32 \<Rightarrow> server_parts \<Rightarrow> (U8 option list list \<times> server_parts) option" where
  "server_packet alloc issubpacket m packet_len r =
     (if \<not> issubpacket
      then do { p \<leftarrow> slice m 0 (unat packet_len); Some ([map Some p], r\<lparr>u32okcount := u32okcount r + 1\<rparr>) }
      else do { (success, recv_i, r) \<leftarrow> Server_CombineSubpacket alloc m r;
                if success
                then do { b \<leftarrow> pu8receivebuf (slot recv_i r); msg \<leftarrow> hand_over b;
                          Some ([msg], (set_slot recv_i no_parts r)\<lparr>u32okcount := u32okcount r + 1\<rparr>) }
                else Some ([], r) })"

lemma Server_CombineSubpacket_append:
  assumes "Server_CombineSubpacket alloc m r = Some x"
  shows "Server_CombineSubpacket alloc (m @ j) r = Some x"
proof -
  obtain i where i: "rd32 m PACKET_ID = Some i"
    using assms by (cases "rd32 m PACKET_ID") (simp_all add: Server_CombineSubpacket_def)
  obtain index fresh where f: "find_slot i r = (index, fresh)" by fastforce
  show ?thesis
    using assms i f rd32_append[OF i, of j] start_message_append[of alloc i m _ _ j] add_part_append[of m _ _ j]
    by (auto simp: Server_CombineSubpacket_def Let_def split: Option.bind_split_asm if_split_asm)
qed

lemma server_packet_append:
  assumes "server_packet alloc sub m len c = Some r"
  shows "server_packet alloc sub (m @ j) len c = Some r"
proof (cases sub)
  case True
  then obtain x where x: "Server_CombineSubpacket alloc m c = Some x"
    using assms by (cases "Server_CombineSubpacket alloc m c") (simp_all add: server_packet_def)
  then show ?thesis using assms True Server_CombineSubpacket_append[OF x, of j] by (simp add: server_packet_def)
next
  case False
  then show ?thesis using assms by (auto simp: server_packet_def slice_append split: Option.bind_split_asm)
qed

interpretation server_framing: packet_framing "server_packet alloc"
  by unfold_locales (rule server_packet_append)

section \<open>Two messages, their parts in any order\<close>

text \<open>The two messages are told apart by a tag; \<open>S t\<close> are the parts of message \<open>t\<close> that have arrived.\<close>

record parcel =
  p_id :: U32
  p_head :: stMsgHeader
  p_body :: "U8 list"
  p_room :: nat

definition p_count :: "parcel \<Rightarrow> nat" where
  "p_count m = (length (p_body m) + p_room m - 1) div p_room m"

definition parcel_ok :: "parcel \<Rightarrow> bool" where
  "parcel_ok m \<longleftrightarrow> p_id m \<noteq> 0 \<and> ulMsgLength (p_head m) = of_nat (length (p_body m)) \<and> length (p_body m) < 2 ^ 31
     \<and> sizes_ok (length (p_body m)) (p_room m)"

definition two_parcels :: "(bool \<Rightarrow> parcel) \<Rightarrow> bool" where
  "two_parcels M \<longleftrightarrow> (\<forall>t. parcel_ok (M t)) \<and> p_id (M True) \<noteq> p_id (M False)"


definition parcel_packet :: "U32 \<Rightarrow> (bool \<Rightarrow> parcel) \<Rightarrow> bool \<times> nat \<Rightarrow> U8 list" where
  "parcel_packet pad M x = part_of pad (p_head (M (fst x))) (p_id (M (fst x))) (p_body (M (fst x))) (p_room (M (fst x))) (snd x)"

definition parcel_content :: "(bool \<Rightarrow> parcel) \<Rightarrow> bool \<Rightarrow> nat set \<Rightarrow> reassembly" where
  "parcel_content M t S = (if S = {} \<or> S = {..<p_count (M t)} then no_parts else arrived (p_id (M t)) (p_head (M t)) (p_body (M t)) (p_room (M t)) S (card S))"

definition parcel_message :: "(bool \<Rightarrow> parcel) \<Rightarrow> bool \<Rightarrow> U8 option list" where
  "parcel_message M t = map Some (header_bytes (p_head (M t)) @ p_body (M t))"

definition parcels_in :: "(bool \<Rightarrow> parcel) \<Rightarrow> server_parts \<Rightarrow> (bool \<Rightarrow> nat set) \<Rightarrow> bool" where
  "parcels_in M r S = (\<exists>x. slot x r = parcel_content M True (S True) \<and> slot (\<not> x) r = parcel_content M False (S False))"

lemma two_parcelsD:
  assumes "two_parcels M"
  shows "p_id (M t) \<noteq> 0" "p_id (M t) \<noteq> p_id (M (\<not> t))" "ulMsgLength (p_head (M t)) = of_nat (length (p_body (M t)))"
    "length (p_body (M t)) < 2 ^ 31" "sizes_ok (length (p_body (M t))) (p_room (M t))"
proof -
  have "parcel_ok (M t)" "p_id (M t) \<noteq> p_id (M (\<not> t))" using assms unfolding two_parcels_def by (blast, metis (full_types))
  then show "p_id (M t) \<noteq> 0" "p_id (M t) \<noteq> p_id (M (\<not> t))" "ulMsgLength (p_head (M t)) = of_nat (length (p_body (M t)))"
    "length (p_body (M t)) < 2 ^ 31" "sizes_ok (length (p_body (M t))) (p_room (M t))"
    by (simp_all add: parcel_ok_def)
qed

lemma parcel_content_id: "u32receiveID (parcel_content M t S) = (if S = {} \<or> S = {..<p_count (M t)} then 0 else p_id (M t))"
  by (simp add: parcel_content_def arrived_def)

lemma parcels_in_slot:
  "parcels_in M r S \<longleftrightarrow> (\<exists>x. slot x r = parcel_content M t (S t) \<and> slot (\<not> x) r = parcel_content M (\<not> t) (S (\<not> t)))"
  unfolding parcels_in_def by (cases t) (auto simp: ex_bool_eq)

lemma find_slot_message:
  assumes M: "two_parcels M" and hd: "parcels_in M r S" and notall: "S t \<noteq> {..<p_count (M t)}"
  shows "\<exists>x. find_slot (p_id (M t)) r = (x, S t = {}) \<and> slot x r = parcel_content M t (S t) \<and> slot (\<not> x) r = parcel_content M (\<not> t) (S (\<not> t))"
proof -
  obtain x where x: "slot x r = parcel_content M t (S t)" "slot (\<not> x) r = parcel_content M (\<not> t) (S (\<not> t))"
    using hd parcels_in_slot by blast
  have other: "u32receiveID (slot (\<not> x) r) \<noteq> p_id (M t)" using x(2) parcel_content_id two_parcelsD(1,2)[OF M, of t] by simp
  show ?thesis
  proof (cases "S t = {}")
    case False
    then have "u32receiveID (slot x r) = p_id (M t)" using x(1) notall by (simp add: parcel_content_id)
    then show ?thesis using other x False by (intro exI[of _ x]) (cases x; simp add: find_slot_def slot_def)
  next
    case True
    then have z: "slot x r = no_parts" "u32receiveID (slot x r) = 0" using x(1) by (simp_all add: parcel_content_def)
    show ?thesis
    proof (cases "u32receiveID (slot (\<not> x) r) = 0")
      case zero: True
      then have o: "slot (\<not> x) r = no_parts" using x(2) two_parcelsD(1)[OF M] by (auto simp: parcel_content_def arrived_def split: if_splits)
      have c: "parcel_content M t (S t) = no_parts" "parcel_content M (\<not> t) (S (\<not> t)) = no_parts" using z(1) o x by simp_all
      show ?thesis
        using z(1) o True two_parcelsD(1)[OF M, of t] unfolding c by (intro exI[of _ True]) (cases x; simp add: find_slot_def slot_def)
    next
      case False
      then show ?thesis
        using z x True other two_parcelsD(1)[OF M, of t] parcel_content_id[of M t "{}"]
        by (intro exI[of _ x]) (cases x; simp add: find_slot_def slot_def word_gt_0)
    qed
  qed
qed

lemma server_part:
  assumes M: "two_parcels M" and hd: "parcels_in M r S" and k: "k \<notin> S t" "insert k (S t) \<subseteq> {..<p_count (M t)}"
  shows "\<exists>r'. server_packet (\<lambda>_. True) True (parcel_packet pad M (t, k)) len r =
      Some (if insert k (S t) = {..<p_count (M t)} then [parcel_message M t] else [], r') \<and> parcels_in M r' (S(t := insert k (S t)))"
proof -
  have "S t \<noteq> {..<p_count (M t)}" using k by auto
  from find_slot_message[OF M hd this]
  obtain x where x: "find_slot (p_id (M t)) r = (x, S t = {})" "slot x r = parcel_content M t (S t)" "slot (\<not> x) r = parcel_content M (\<not> t) (S (\<not> t))"
    by blast
  have pos: "0 < p_room (M t)" "0 < length (p_body (M t))" using two_parcelsD(5)[OF M, of t] by (auto simp: sizes_ok_def)
  have kn: "k * p_room (M t) < length (p_body (M t))" using k(2) part_count[OF pos, of k] p_count_def[of "M t"] by simp
  have fin: "finite (S t)" by (rule finite_subset[OF _ finite_lessThan[of "p_count (M t)"]]) (use k(2) in blast)
  have c1: "card (insert k (S t)) = card (S t) + 1" using k(1) fin by simp
  have c2: "card (S t) < p_count (M t)" using card_mono[OF finite_lessThan k(2)] c1 by simp
  have all: "card (S t) + 1 = p_count (M t) \<longleftrightarrow> insert k (S t) = {..<p_count (M t)}"
    using c1 card_subset_eq[OF finite_lessThan k(2)] card_lessThan[of "p_count (M t)"] by metis
  have pid: "rd32 (parcel_packet pad M (t, k)) PACKET_ID = Some (p_id (M t))"
    by (simp add: parcel_packet_def part_of_def PACKET_ID_def rd32_packet_head) (simp add: part_head_def)
  note add = add_part_eq[OF two_parcelsD(5)[OF M, of t] kn c2[unfolded p_count_def[of "M t"]], of pad "p_head (M t)" "p_id (M t)" "S t", folded p_count_def[of "M t"], unfolded all]
  have pk: "parcel_packet pad M (t, k) = part_of pad (p_head (M t)) (p_id (M t)) (p_body (M t)) (p_room (M t)) k" by (simp add: parcel_packet_def)
  note add = add[folded pk]
  let ?a = "arrived (p_id (M t)) (p_head (M t)) (p_body (M t)) (p_room (M t))"
  obtain r0 where r0: "Server_CombineSubpacket (\<lambda>_. True) (parcel_packet pad M (t, k)) r =
      do { (success, y) \<leftarrow> add_part (parcel_packet pad M (t, k)) (?a (S t) (card (S t))); Some (success, x, set_slot x y r0) }"
    "slot (\<not> x) r0 = parcel_content M (\<not> t) (S (\<not> t))"
  proof (cases "S t = {}")
    case True
    then have "pu8receivebuf (slot x r) = None" using x(2) by (simp add: parcel_content_def)
    then show thesis
      using that[of r] x True pid start_message_eq[OF two_parcelsD(3,4)[OF M, of t], of "p_id (M t)" pad "p_room (M t)" k]
      by (cases x) (simp_all add: Server_CombineSubpacket_def parcel_packet_def set_slot_def slot_def)
  next
    case False
    then have "slot x r = ?a (S t) (card (S t))" using x(2) \<open>S t \<noteq> {..<p_count (M t)}\<close> by (simp add: parcel_content_def)
    then show thesis using that[of r] x False pid by (simp add: Server_CombineSubpacket_def)
  qed
  have sl: "slot x (set_slot x y r0) = y" "slot (\<not> x) (set_slot x y r0) = parcel_content M (\<not> t) (S (\<not> t))"
    "slot y' (r1\<lparr>u32okcount := n\<rparr>) = slot y' r1" for y y' r1 n
    using r0(2) by (auto simp: slot_def set_slot_def)
  have two: "set_slot x y (set_slot x z r0) = set_slot x y r0" "u32okcount (set_slot x y r0) = u32okcount r0" for y z
    by (simp_all add: set_slot_def)
  show ?thesis
  proof (cases "insert k (S t) = {..<p_count (M t)}")
    case True
    have "pu8receivebuf (?a (insert k (S t)) 0) = Some (map Some (header_bytes (flagged (p_head (M t)))) @ map Some (p_body (M t)))"
      using parts_all[OF two_parcelsD(5)[OF M, of t] True[unfolded p_count_def[of "M t"]]] by (simp add: arrived_def)
    then have "server_packet (\<lambda>_. True) True (parcel_packet pad M (t, k)) len r =
        Some ([parcel_message M t], (set_slot x no_parts r0)\<lparr>u32okcount := u32okcount (set_slot x no_parts r0) + 1\<rparr>)"
      using True hand_over_eq[OF two_parcelsD(3,4)[OF M, of t]]
      by (simp add: server_packet_def r0(1) add sl two parcel_message_def)
    moreover have "parcels_in M ((set_slot x no_parts r0)\<lparr>u32okcount := u32okcount (set_slot x no_parts r0) + 1\<rparr>) (S(t := insert k (S t)))"
    proof -
      have "parcel_content M t (insert k (S t)) = no_parts" using True by (simp add: parcel_content_def)
      then show ?thesis unfolding parcels_in_slot[of _ _ _ t] using sl by (intro exI[of _ x]) simp
    qed
    ultimately show ?thesis using True by auto
  next
    case False
    have "server_packet (\<lambda>_. True) True (parcel_packet pad M (t, k)) len r =
        Some ([], set_slot x (?a (insert k (S t)) (card (insert k (S t)))) r0)"
      using False by (simp add: server_packet_def r0(1) add c1)
    moreover have "parcels_in M (set_slot x (?a (insert k (S t)) (card (insert k (S t)))) r0) (S(t := insert k (S t)))"
    proof -
      have "parcel_content M t (insert k (S t)) = ?a (insert k (S t)) (card (insert k (S t)))" using False by (simp add: parcel_content_def)
      then show ?thesis unfolding parcels_in_slot[of _ _ _ t] using sl by (intro exI[of _ x]) simp
    qed
    ultimately show ?thesis using False by auto
  qed
qed

lemma pending_update:
  fixes S :: "'a \<Rightarrow> 'b"
  assumes "S t \<noteq> F t"
  shows "{u. S u \<noteq> F u} = (if X = F t then insert t {u. (S(t := X)) u \<noteq> F u} else {u. (S(t := X)) u \<noteq> F u})"
    and "X = F t \<Longrightarrow> t \<notin> {u. (S(t := X)) u \<noteq> F u}"
  using assms by auto

lemma feed_two:
  assumes M: "two_parcels M" and "distinct zs" "set zs = {(t, k). k < p_count (M t) \<and> k \<notin> S t}" "\<And>t. S t \<subseteq> {..<p_count (M t)}" "parcels_in M r S"
  shows "\<exists>out r'. feed_packets (server_packet (\<lambda>_. True)) (map (parcel_packet pad M) zs) r = Some (out, r') \<and>
    mset out = image_mset (parcel_message M) (mset_set {t. S t \<noteq> {..<p_count (M t)}})"
  using assms(2-5)
proof (induction zs arbitrary: S r)
  case Nil
  then have "{t. S t \<noteq> {..<p_count (M t)}} = {}" by auto
  then show ?case by simp
next
  case (Cons z zs)
  obtain t k where z: "z = (t, k)" by fastforce
  have k: "k \<notin> S t" "insert k (S t) \<subseteq> {..<p_count (M t)}" using Cons.prems(2,3) z by auto
  let ?S = "S(t := insert k (S t))"
  have pk: "snd (snd (peek_packet (parcel_packet pad M z)))" by (simp add: parcel_packet_def peek_part)
  obtain r1 where r1: "server_packet (\<lambda>_. True) True (parcel_packet pad M z) (of_nat (length (parcel_packet pad M z))) r =
      Some (if insert k (S t) = {..<p_count (M t)} then [parcel_message M t] else [], r1)" "parcels_in M r1 ?S"
    using server_part[OF M Cons.prems(4) k] z by blast
  have "set zs = set (z # zs) - {z}" using Cons.prems(1) by simp
  also have "\<dots> = {(t, k). k < p_count (M t) \<and> k \<notin> ?S t}" unfolding Cons.prems(2) by (auto simp: z split: if_splits)
  finally have "set zs = {(t, k). k < p_count (M t) \<and> k \<notin> ?S t}" .
  moreover have "?S u \<subseteq> {..<p_count (M u)}" for u using k(2) Cons.prems(3) by simp
  moreover have "distinct zs" using Cons.prems(1) by simp
  ultimately obtain out r' where o: "feed_packets (server_packet (\<lambda>_. True)) (map (parcel_packet pad M) zs) r1 = Some (out, r')"
    "mset out = image_mset (parcel_message M) (mset_set {t. ?S t \<noteq> {..<p_count (M t)}})"
    using Cons.IH r1(2) by blast
  have "S t \<noteq> {..<p_count (M t)}" using k by auto
  from pending_update[of S t "\<lambda>t. {..<p_count (M t)}" "insert k (S t)", OF this]
  have "mset ((if insert k (S t) = {..<p_count (M t)} then [parcel_message M t] else []) @ out) = image_mset (parcel_message M) (mset_set {u. S u \<noteq> {..<p_count (M u)}})"
    using o(2) by simp
  then show ?case using r1(1) o(1) pk by simp
qed

section \<open>The table of clients\<close>

definition MAX_CLIENT_NUM :: nat where "MAX_CLIENT_NUM = 1024"

text \<open>The entries in use; \<open>u32clientCount\<close> is their number.  Entries that are not in use are zero.\<close>

record stClientInfo =
  u16ClientPort :: U16
  acClientIP :: string
  info_half :: "U8 list"
  info_half_size :: nat
  info_parts :: server_parts

definition zero_client :: stClientInfo where
  "zero_client = \<lparr>u16ClientPort = 0, acClientIP = [], info_half = [], info_half_size = 0, info_parts = no_server_parts\<rparr>"

record server_session =
  pServerConnection :: bool
  server_udp_handle :: bool
  server_protocol :: NetProtocol
  server_mode :: SessionMode
  server_sendID :: U32
  server_receive :: bool
  server_accept :: bool
  server_disconnect :: bool
  astClientInfo :: "stClientInfo list"
  server_findMsghead :: bool
  server_mutex :: bool

definition ServerNetSession :: "SessionMode \<Rightarrow> server_session" where
  "ServerNetSession mode = \<lparr>pServerConnection = False, server_udp_handle = False, server_protocol = NETPROTOCOL_INVALID,
     server_mode = mode, server_sendID = 0, server_receive = False, server_accept = False, server_disconnect = False,
     astClientInfo = [], server_findMsghead = False, server_mutex = False\<rparr>"

definition is_client :: "U16 \<Rightarrow> string \<Rightarrow> stClientInfo \<Rightarrow> bool" where
  "is_client port ip c \<longleftrightarrow> u16ClientPort c = port \<and> acClientIP c = ip"

fun client_index :: "U16 \<Rightarrow> string \<Rightarrow> stClientInfo list \<Rightarrow> nat" where
  "client_index port ip [] = 0"
| "client_index port ip (c # cs) = (if is_client port ip c then 0 else Suc (client_index port ip cs))"

text \<open>\<open>strcpy\<close> into 24 bytes, the terminating zero included.\<close>

definition Server_CheckPacket ::
  "(nat \<Rightarrow> bool) \<Rightarrow> U32 \<Rightarrow> U16 \<Rightarrow> string \<Rightarrow> U8 list \<Rightarrow> server_session \<Rightarrow> (U8 option list list \<times> server_session) option" where
  "Server_CheckPacket alloc LAST_EVENT port ip m s =
     (let cs = astClientInfo s; i = client_index port ip cs in
      if i = length cs \<and> length cs \<ge> MAX_CLIENT_NUM then Some ([], s)
      else if i = length cs \<and> length ip \<ge> 24 then None
      else let cs = (if i = length cs then cs @ [zero_client\<lparr>u16ClientPort := port, acClientIP := ip\<rparr>] else cs);
               c = cs ! i in
        do { (out, r) \<leftarrow> check_packet (server_protocol s = NETPROTOCOL_UDP) LAST_EVENT (server_packet alloc) m
               \<lparr>pu8halfpackbuf = info_half c, half_size = info_half_size c,
                s32findMsghead = server_findMsghead s, parts = info_parts c\<rparr>;
             Some (out, s\<lparr>server_findMsghead := s32findMsghead r,
               astClientInfo := cs[i := c\<lparr>info_half := pu8halfpackbuf r, info_half_size := half_size r, info_parts := parts r\<rparr>]\<rparr>) })"

definition ServerNetSession_OnRecv ::
  "(nat \<Rightarrow> bool) \<Rightarrow> U32 \<Rightarrow> U16 \<Rightarrow> string \<Rightarrow> server_session \<Rightarrow> U8 list \<Rightarrow> (U8 option list list \<times> server_session) option" where
  "ServerNetSession_OnRecv alloc LAST_EVENT port ip s m =
     (if \<not> server_receive s then Some ([], s)
      else if server_mode s = SESSION_MODE_PASS_THROUGH then Some ([map Some m], s)
      else Server_CheckPacket alloc LAST_EVENT port ip m s)"

text \<open>Removing a client: the last entry takes its place.\<close>

definition delete_client :: "U16 \<Rightarrow> string \<Rightarrow> stClientInfo list \<Rightarrow> stClientInfo list" where
  "delete_client port ip cs =
     (let i = client_index port ip cs in if i < length cs then butlast (cs[i := last cs]) else cs)"

definition ServerNetSession_OnClose :: "U16 \<Rightarrow> string \<Rightarrow> server_session \<Rightarrow> server_session" where
  "ServerNetSession_OnClose port ip s = s\<lparr>astClientInfo := delete_client port ip (astClientInfo s)\<rparr>"

definition ServerNetSession_DeleteClient :: "U16 \<Rightarrow> string \<Rightarrow> server_session \<Rightarrow> server_session" where
  "ServerNetSession_DeleteClient port ip s = s\<lparr>astClientInfo := delete_client port ip (astClientInfo s)\<rparr>"

text \<open>\<open>crypto\<close> says whether encryption is configured; \<open>create\<close> is the answer of \<open>NetFactory\<close>.  The first
  return leaves the mutex locked.\<close>

definition ServerNetSession_InitNetSession ::
  "bool \<Rightarrow> bool \<Rightarrow> NetProtocol \<Rightarrow> bool \<Rightarrow> bool \<Rightarrow> bool \<Rightarrow> server_session \<Rightarrow> bool \<times> server_session" where
  "ServerNetSession_InitNetSession create crypto protocol receive_func accept_func disconnect_func s =
     (if protocol \<noteq> NETPROTOCOL_TCP \<and> crypto then (False, s\<lparr>server_mutex := True\<rparr>)
      else let s = s\<lparr>server_sendID := 0, astClientInfo := [], server_protocol := protocol,
                     server_mode := SESSION_MODE_PACKET_HEAD, pServerConnection := False, server_receive := False,
                     server_accept := False, server_disconnect := False, server_udp_handle := False\<rparr> in
        if \<not> receive_func then (False, s)
        else let s = s\<lparr>server_receive := True\<rparr> in
          if protocol \<noteq> NETPROTOCOL_UDP \<and> protocol \<noteq> NETPROTOCOL_TCP \<or> \<not> create then (False, s)
          else (True, s\<lparr>server_udp_handle := (protocol = NETPROTOCOL_UDP), pServerConnection := (protocol = NETPROTOCOL_TCP),
                 server_accept := accept_func, server_disconnect := disconnect_func\<rparr>))"

definition ServerNetSession_CloseServer :: "server_session \<Rightarrow> server_session" where
  "ServerNetSession_CloseServer s =
     s\<lparr>pServerConnection := False, server_receive := False, server_accept := False, server_disconnect := False,
       server_udp_handle := False, astClientInfo := replicate (length (astClientInfo s)) zero_client\<rparr>"

definition ServerNetSession_Send ::
  "(nat \<Rightarrow> bool) \<Rightarrow> U32 \<Rightarrow> 'k connection \<Rightarrow> bool \<Rightarrow> U8 list \<Rightarrow> U32 \<Rightarrow> U32 \<Rightarrow> 'k \<Rightarrow> server_session \<Rightarrow>
   (bool \<times> server_session \<times> U8 list \<times> 'k) option" where
  "ServerNetSession_Send alloc pad conn valid data u32size packet_max_len k s =
     map_option (\<lambda>r. (sr_ret r, s\<lparr>server_sendID := sr_sendID r\<rparr>, sr_data r, sr_conn r))
       (ClientNetSession_Send alloc pad conn (server_mode s = SESSION_MODE_PACKET_HEAD) valid (server_sendID s) data
         u32size packet_max_len k)"

section \<open>Datagrams of one client\<close>

lemma map_permutation:
  assumes "mset xs = mset (map f ys)"
  shows "\<exists>zs. mset zs = mset ys \<and> xs = map f zs"
  using assms
proof (induction xs arbitrary: ys)
  case (Cons x xs)
  then have "x \<in># mset (map f ys)" by (metis list.set_intros(1) set_mset_mset)
  then obtain y where y: "y \<in> set ys" "f y = x" by auto
  have "mset (map f (remove1 y ys)) = mset (map f ys) - {#x#}"
    using y by (simp add: image_mset_Diff)
  then have "mset xs = mset (map f (remove1 y ys))" using Cons.prems by (metis add_mset_remove_trivial mset.simps(2))
  then obtain zs where "mset zs = mset (remove1 y ys)" "xs = map f zs" using Cons.IH by blast
  then show ?case using y by (intro exI[of _ "y # zs"]) simp
qed simp

definition client_rx_of :: "server_session \<Rightarrow> stClientInfo \<Rightarrow> server_parts rx" where
  "client_rx_of s c = \<lparr>pu8halfpackbuf = info_half c, half_size = info_half_size c,
     s32findMsghead = server_findMsghead s, parts = info_parts c\<rparr>"

lemma one_client:
  assumes "feed_blocks (\<lambda>r m. check_packet True L (server_packet alloc) m r) (client_rx_of s c) ps = Some (out, r)"
    and "server_receive s" "server_mode s = SESSION_MODE_PACKET_HEAD" "server_protocol s = NETPROTOCOL_UDP"
    and "astClientInfo s = [c]" "is_client port ip c"
  shows "\<exists>s'. feed_blocks (ServerNetSession_OnRecv alloc L port ip) s ps = Some (out, s')"
  using assms
proof (induction ps arbitrary: s c out)
  case (Cons p ps)
  obtain o1 r1 o2 where r: "check_packet True L (server_packet alloc) p (client_rx_of s c) = Some (o1, r1)"
    "feed_blocks (\<lambda>r m. check_packet True L (server_packet alloc) m r) r1 ps = Some (o2, r)" "out = o1 @ o2"
    using Cons.prems(1) by (auto split: Option.bind_split_asm)
  let ?c = "c\<lparr>info_half := pu8halfpackbuf r1, info_half_size := half_size r1, info_parts := parts r1\<rparr>"
  let ?s = "s\<lparr>server_findMsghead := s32findMsghead r1, astClientInfo := [?c]\<rparr>"
  have "ServerNetSession_OnRecv alloc L port ip s p = Some (o1, ?s)"
    using r(1) Cons.prems(2-6) by (simp add: ServerNetSession_OnRecv_def Server_CheckPacket_def client_rx_of_def)
  moreover have "client_rx_of ?s ?c = r1" by (simp add: client_rx_of_def)
  then have "\<exists>s'. feed_blocks (ServerNetSession_OnRecv alloc L port ip) ?s ps = Some (o2, s')"
    using r(2) Cons.prems(2-6) by (intro Cons.IH[of ?s ?c]) (simp_all add: is_client_def)
  ultimately show ?case using r(3) by auto
qed simp

lemma first_datagram:
  assumes "astClientInfo s = []" "length ip < 24"
  shows "ServerNetSession_OnRecv alloc L port ip (s\<lparr>astClientInfo := [zero_client\<lparr>u16ClientPort := port, acClientIP := ip\<rparr>]\<rparr>) p =
    (if server_receive s \<and> server_mode s = SESSION_MODE_PACKET_HEAD then ServerNetSession_OnRecv alloc L port ip s p
     else ServerNetSession_OnRecv alloc L port ip (s\<lparr>astClientInfo := [zero_client\<lparr>u16ClientPort := port, acClientIP := ip\<rparr>]\<rparr>) p)"
  using assms
  by (simp add: ServerNetSession_OnRecv_def Server_CheckPacket_def is_client_def MAX_CLIENT_NUM_def)

text \<open>The parts of a message that is longer than a packet.\<close>

lemma parcel_of_message:
  assumes "sendable L data mx" "unat mx < length data" "i \<noteq> 0"
  shows "\<exists>m. parcel_ok m \<and> p_id m = i \<and> ulMsgType (p_head m) < L \<and> p_room m + 40 \<le> unat SINGLE_PACKET_LEN_MAX \<and>
    header_bytes (p_head m) @ p_body m = data \<and>
    (\<forall>pad. message_parts pad i mx data = map (part_of pad (p_head m) i (p_body m) (p_room m)) [0..<p_count m])"
proof -
  obtain mh where mh: "header_of data = Some mh" "ulMsgLength mh = of_nat (length data - 16)" "length data < 2 ^ 31"
    "ulMsgType mh < L" "mx \<le> SINGLE_PACKET_LEN_MAX" "64 \<le> unat mx"
    using assms(1) by (auto simp: sendable_def split: option.split_asm)
  note l = header_of_bytes[OF mh(1)]
  let ?m = "\<lparr>p_id = i, p_head = mh, p_body = drop 16 data, p_room = unat mx - 40\<rparr>"
  have mx: "unat mx \<le> 1048576" using mh(5) by (simp add: SINGLE_PACKET_LEN_MAX_def word_le_nat_alt)
  have "sizes_ok (length data - 16) (unat mx - 40)" using assms(2) mh(3,6) mx by (auto simp: sizes_ok_def)
  then have "parcel_ok ?m" using assms(3) mh(2,3) by (simp add: parcel_ok_def)
  moreover have "header_bytes mh @ drop 16 data = data" using l(1) by (metis append_take_drop_id)
  moreover have "message_parts pad i mx data = map (part_of pad mh i (drop 16 data) (unat mx - 40)) [0..<p_count ?m]" for pad
    using mh(1) by (simp add: message_parts_def Let_def sizeof_stMsgHeader_def sizeof_PacketHead_def p_count_def)
  ultimately show ?thesis using mh(4,6) mx by (intro exI[of _ ?m]) (simp add: SINGLE_PACKET_LEN_MAX_def)
qed

text \<open>C17. On a UDP server the parts of two messages of one client may arrive mixed and in any order: both
  messages are handed over, complete and unchanged, and nothing else.\<close>

theorem server_two_messages:
  assumes "sendable LAST_EVENT dA mA" "unat mA < length dA" "sendable LAST_EVENT dB mB" "unat mB < length dB"
    and "a \<noteq> 0" "b \<noteq> 0" "a \<noteq> b"
    and "mset packets = mset (message_parts pad a mA dA) + mset (message_parts pad b mB dB)"
    and "server_receive s" "server_mode s = SESSION_MODE_PACKET_HEAD" "server_protocol s = NETPROTOCOL_UDP"
    and "astClientInfo s = []" "length ip < 24"
  shows "\<exists>out s'. feed_blocks (ServerNetSession_OnRecv (\<lambda>_. True) LAST_EVENT port ip) s packets = Some (out, s') \<and>
    mset out = {#map Some dA, map Some dB#}"
proof -
  obtain mA' where A: "parcel_ok mA'" "p_id mA' = a" "ulMsgType (p_head mA') < LAST_EVENT" "p_room mA' + 40 \<le> unat SINGLE_PACKET_LEN_MAX"
    "header_bytes (p_head mA') @ p_body mA' = dA" "message_parts pad a mA dA = map (part_of pad (p_head mA') a (p_body mA') (p_room mA')) [0..<p_count mA']"
    using parcel_of_message[OF assms(1,2,5)] by blast
  obtain mB' where B: "parcel_ok mB'" "p_id mB' = b" "ulMsgType (p_head mB') < LAST_EVENT" "p_room mB' + 40 \<le> unat SINGLE_PACKET_LEN_MAX"
    "header_bytes (p_head mB') @ p_body mB' = dB" "message_parts pad b mB dB = map (part_of pad (p_head mB') b (p_body mB') (p_room mB')) [0..<p_count mB']"
    using parcel_of_message[OF assms(3,4,6)] by blast
  define M where "M = (\<lambda>t. if t then mA' else mB')"
  have M: "two_parcels M" using A(1,2) B(1,2) assms(7) by (simp add: two_parcels_def M_def)
  let ?L = "map (Pair True) [0..<p_count mA'] @ map (Pair False) [0..<p_count mB']"
  have "mset packets = mset (map (parcel_packet pad M) ?L)"
    using assms(8) A(2,6) B(2,6) by (simp add: parcel_packet_def M_def comp_def)
  then obtain zs where zs: "mset zs = mset ?L" "packets = map (parcel_packet pad M) zs" using map_permutation by blast
  have "distinct ?L" by (auto simp: distinct_map inj_on_def)
  then have dist: "distinct zs" using zs(1) by (metis mset_eq_imp_distinct_iff)
  have set: "set zs = {(t, k). k < p_count (M t) \<and> k \<notin> {}}"
    using mset_eq_setD[OF zs(1)] by (auto simp: M_def split: if_splits)
  have start: "parcels_in M no_server_parts (\<lambda>_. {})"
    by (simp add: parcels_in_def parcel_content_def no_server_parts_def slot_def)
  obtain out r where f: "feed_packets (server_packet (\<lambda>_. True)) packets no_server_parts = Some (out, r)"
    "mset out = image_mset (parcel_message M) (mset_set {t. {} \<noteq> {..<p_count (M t)}})"
    using feed_two[OF M dist set _ start, of pad] zs(2) by auto
  have whole: "\<forall>p \<in> set packets. whole_packet LAST_EVENT p"
    using zs(2) A(3,4) B(3,4) by (auto simp: parcel_packet_def M_def whole_part)
  let ?c = "zero_client\<lparr>u16ClientPort := port, acClientIP := ip\<rparr>" let ?s = "s\<lparr>astClientInfo := [?c]\<rparr>"
  obtain r' where r': "feed_blocks (\<lambda>r m. check_packet True LAST_EVENT (server_packet (\<lambda>_. True)) m r) (client_rx_of ?s ?c) packets = Some (out, r')"
    using server_framing.receive_datagrams[OF whole, of "\<lambda>_. True" "client_rx_of ?s ?c" out r] f(1)
    by (auto simp: client_rx_of_def zero_client_def)
  have "is_client port ip ?c" by (simp add: is_client_def)
  then obtain s' where s': "feed_blocks (ServerNetSession_OnRecv (\<lambda>_. True) LAST_EVENT port ip) ?s packets = Some (out, s')"
    using one_client[OF r', of port ip] assms(9-11) by auto
  have pos: "0 < p_count (M t)" for t
  proof -
    have "0 < p_room (M t)" "0 < length (p_body (M t))" using two_parcelsD(5)[OF M, of t] by (auto simp: sizes_ok_def)
    from part_count[OF this, of 0] this(2) show ?thesis by (simp add: p_count_def)
  qed
  then have "{t. {} \<noteq> {..<p_count (M t)}} = {True, False}" by auto
  then have out: "mset out = {#map Some dA, map Some dB#}"
    using f(2) A(5) B(5) by (simp add: parcel_message_def M_def flip: map_append)
  have "packets \<noteq> []" using out f(1) by auto
  then obtain p ps where "packets = p # ps" by (cases packets) auto
  then have "feed_blocks (ServerNetSession_OnRecv (\<lambda>_. True) LAST_EVENT port ip) s packets = Some (out, s')"
    using s' first_datagram[OF assms(12,13), of "\<lambda>_. True" LAST_EVENT port p] assms(9,10) by simp
  then show ?thesis using out by blast
qed

definition toy_reply :: "U8 list" where
  "toy_reply = header_bytes \<lparr>ulSendSubSysId = 2, ulRcvdSubSysId = 1, ulMsgLength = 60, ulMsgType = 8\<rparr> @ map of_nat [60..<120]"

definition toy_server :: server_session where
  "toy_server = snd (ServerNetSession_InitNetSession True False NETPROTOCOL_UDP True True True (ServerNetSession SESSION_MODE_PACKET_HEAD))"

lemma toy_reply_lengths: "map length (message_parts 0 2 64 toy_reply) = [64, 64, 52]"
  by code_simp

lemma toy_reply_sendable: "sendable 100 toy_reply 64" "length toy_reply = 76"
proof -
  have "header_of toy_reply = Some \<lparr>ulSendSubSysId = 2, ulRcvdSubSysId = 1, ulMsgLength = 60, ulMsgType = 8\<rparr>"
    by (simp add: toy_reply_def header_of_def rd32_def slice_def header_bytes_def)
  then show "sendable 100 toy_reply 64" by (simp add: sendable_def toy_reply_def SINGLE_PACKET_LEN_MAX_def)
  show "length toy_reply = 76" by (simp add: toy_reply_def)
qed

lemma three_elements: "length xs = 3 \<Longrightarrow> xs = [xs ! 0, xs ! 1, xs ! 2]"
  by (auto simp: numeral_3_eq_3 length_Suc_conv)

lemma server_two_messages_witness:
  "\<exists>out s'. feed_blocks (ServerNetSession_OnRecv (\<lambda>_. True) 100 9 ''10.0.0.1'') toy_server
      [message_parts 0 2 64 toy_reply ! 2, message_parts 0 1 64 toy_message ! 0, message_parts 0 2 64 toy_reply ! 0,
       message_parts 0 1 64 toy_message ! 2, message_parts 0 1 64 toy_message ! 1, message_parts 0 2 64 toy_reply ! 1]
    = Some (out, s') \<and> mset out = {#map Some toy_message, map Some toy_reply#}"
    (is "\<exists>out s'. feed_blocks _ _ ?ps = Some (out, s') \<and> _")
proof -
  have "length (message_parts 0 1 64 toy_message) = 3" "length (message_parts 0 2 64 toy_reply) = 3"
    using arg_cong[OF toy_packet_lengths, of length] arg_cong[OF toy_reply_lengths, of length] by simp_all
  note three_elements[OF this(1)] three_elements[OF this(2)]
  then have "mset (message_parts 0 1 64 toy_message) = {#message_parts 0 1 64 toy_message ! 0, message_parts 0 1 64 toy_message ! 1, message_parts 0 1 64 toy_message ! 2#}"
    "mset (message_parts 0 2 64 toy_reply) = {#message_parts 0 2 64 toy_reply ! 0, message_parts 0 2 64 toy_reply ! 1, message_parts 0 2 64 toy_reply ! 2#}"
    by (metis mset.simps)+
  then have "mset ?ps = mset (message_parts 0 1 64 toy_message) + mset (message_parts 0 2 64 toy_reply)" by simp
  moreover have "length toy_message = 76" by (simp add: toy_message_def)
  moreover have "server_receive toy_server" "server_mode toy_server = SESSION_MODE_PACKET_HEAD"
    "server_protocol toy_server = NETPROTOCOL_UDP" "astClientInfo toy_server = []"
    by (simp_all add: toy_server_def ServerNetSession_InitNetSession_def ServerNetSession_def)
  ultimately show ?thesis
    using server_two_messages[of 100 toy_message 64 toy_reply 64 1 2 ?ps 0 toy_server "''10.0.0.1''" 9]
      toy_sendable toy_reply_sendable by simp
qed

section \<open>The table of clients\<close>

definition client_key :: "stClientInfo \<Rightarrow> U16 \<times> string" where
  "client_key c = (u16ClientPort c, acClientIP c)"

definition clients_ok :: "stClientInfo list \<Rightarrow> bool" where
  "clients_ok cs \<longleftrightarrow> distinct (map client_key cs) \<and> length cs \<le> MAX_CLIENT_NUM"

lemma client_index_found:
  "client_index port ip cs < length cs \<Longrightarrow> client_key (cs ! client_index port ip cs) = (port, ip)"
  "client_index port ip cs \<le> length cs"
  "client_index port ip cs = length cs \<longleftrightarrow> (port, ip) \<notin> client_key ` set cs"
  by (induction cs) (auto simp: is_client_def client_key_def)

lemma clients_ok_OnRecv:
  assumes "clients_ok (astClientInfo s)" "ServerNetSession_OnRecv alloc L port ip s m = Some (out, s')"
  shows "clients_ok (astClientInfo s')"
  using assms client_index_found[of port ip "astClientInfo s"]
  by (auto simp: ServerNetSession_OnRecv_def Server_CheckPacket_def Let_def clients_ok_def client_key_def zero_client_def
      nth_append list_update_append map_update distinct_list_update MAX_CLIENT_NUM_def le_less
      split: if_splits Option.bind_split_asm)

text \<open>Removing a client removes exactly its entry.\<close>

lemma delete_client_others:
  assumes "clients_ok cs"
  shows "clients_ok (delete_client port ip cs) \<and> set (delete_client port ip cs) = {c \<in> set cs. client_key c \<noteq> (port, ip)}"
proof (cases "client_index port ip cs < length cs")
  case False
  then have "(port, ip) \<notin> client_key ` set cs" using client_index_found(2,3)[of port ip cs] by auto
  then have "\<forall>c \<in> set cs. client_key c \<noteq> (port, ip)" by (metis image_eqI)
  then show ?thesis using False assms by (auto simp: delete_client_def)
next
  case True
  then obtain xs c ys where c: "cs = xs @ c # ys" "length xs = client_index port ip cs" "c = cs ! client_index port ip cs"
    by (metis id_take_nth_drop length_take min.absorb4)
  have key: "client_key c = (port, ip)" using client_index_found(1)[OF True] c(3) by simp
  have d: "distinct (map client_key (xs @ c # ys))" "length (xs @ c # ys) \<le> MAX_CLIENT_NUM"
    using assms c(1) by (simp_all add: clients_ok_def)
  show ?thesis
  proof (cases ys rule: rev_cases)
    case Nil
    then have "cs[length xs := last cs] = xs @ [c]" unfolding c(1) by simp
    then have "delete_client port ip cs = xs" using True c(2) by (simp add: delete_client_def)
    then show ?thesis using d key c(1) Nil by (auto simp: clients_ok_def image_iff eq_commute[of _ "(port, ip)"])
  next
    case (snoc zs e)
    have "cs[length xs := last cs] = (xs @ e # zs) @ [e]" unfolding c(1) snoc by simp
    then have "delete_client port ip cs = butlast ((xs @ e # zs) @ [e])"
      using True c(2) by (simp only: delete_client_def Let_def if_True)
    then have "delete_client port ip cs = xs @ e # zs" by (simp only: butlast_snoc)
    then show ?thesis using d key c(1) snoc by (auto simp: clients_ok_def image_iff eq_commute[of _ "(port, ip)"])
  qed
qed

text \<open>The search for a head is shared by all clients: after an ill-formed block of one client the first
  block of another one is dropped when it is shorter than 12 bytes.\<close>

lemma other_client_dropped:
  assumes "server_receive s" "server_mode s = SESSION_MODE_PACKET_HEAD" "server_protocol s = NETPROTOCOL_TCP"
    and "server_findMsghead s" "(port, ip) \<notin> client_key ` set (astClientInfo s)" "length ip < 24"
    and "0 < length m" "length m < 12"
  shows "\<exists>s'. ServerNetSession_OnRecv alloc L port ip s m = Some ([], s') \<and> (\<forall>c \<in> set (astClientInfo s'). client_key c = (port, ip) \<longrightarrow> info_half c = [])"
proof -
  have i: "client_index port ip (astClientInfo s) = length (astClientInfo s)"
    using client_index_found(3) assms(5) by blast
  have "rd32 m 8 = None" using assms(8) by (simp add: rd32_None)
  then have "peek_packet m = (0, 0, False)" by (simp add: peek_packet_def MSG_LENGTH_def)
  then have "packet_loop False L (server_packet alloc) m r = Some ([], r\<lparr>s32findMsghead := True\<rparr>)" if "s32findMsghead r" for r
    using assms(7,8) that by (subst packet_loop.simps) (simp add: MSG_TYPE_def)
  then show ?thesis
    using assms i by (auto simp: ServerNetSession_OnRecv_def Server_CheckPacket_def check_packet_def zero_client_def
        image_iff Let_def)
qed

text \<open>An address that is refused encryption leaves the mutex of the server locked.\<close>

lemma refused_encryption_keeps_mutex:
  assumes "protocol \<noteq> NETPROTOCOL_TCP"
  shows "server_mutex (snd (ServerNetSession_InitNetSession create True protocol rf af df s))"
  using assms by (simp add: ServerNetSession_InitNetSession_def)

end
