(* ===== verification/Request_Context.thy ===== *)
theory Request_Context
  imports Pilot_Prelude
begin

text \<open>
  Requests that wait for their reply: \<^verbatim>\<open>common/if/requestContextManager.{h,cpp}\<close> and the reply
  handlers of \<^verbatim>\<open>cloud/flyto/flytoRequestManager.cpp\<close> and
  \<^verbatim>\<open>cloud/payload/payloadRequestManager.cpp\<close>.

  A caller registers a context under a key, publishes its request and sleeps on the context's
  condition variable; a handler thread that receives a reply looks the key up and fills the context
  in.  Callers and handlers run on different threads of the pools, so the component is a step
  relation: call \<open>i\<close> and handler \<open>j\<close> each have a program counter, and a step
  lets one of them run up to the next point where it takes or waits for a lock.  The two locks are
  \<open>m_requestMutex\<close>, which protects the table, and the mutex of each context.

  The conversions between JSON and protobuf are not in the sources: they are parameters
  (\<open>conv\<close>), and what a call serialises its message to is part of the call.
\<close>

section \<open>Parsing a reply\<close>

type_synonym reply_parser = "string \<Rightarrow> (string \<times> string \<times> int) option"  \<comment> \<open>method, tid and data.result\<close>

definition parseResult :: "reply_parser \<Rightarrow> string \<Rightarrow> int \<times> string \<times> string" where
  "parseResult conv msg = (case conv msg of None \<Rightarrow> (- 1, [], []) | Some (m, t, r) \<Rightarrow> (r, m, t))"

definition parseDrcResult :: "reply_parser \<Rightarrow> string \<Rightarrow> int \<times> string" where
  "parseDrcResult conv msg = (case conv msg of None \<Rightarrow> (- 1, []) | Some (m, t, r) \<Rightarrow> (r, m))"

text \<open>The descriptions of \<open>m_resultMap\<close> are given in English; only their being non-empty matters.
  What a handler looks up, and the result it stores; \<open>None\<close> when it returns before looking.\<close>

definition handleCommonResult_key :: "reply_parser \<Rightarrow> string \<Rightarrow> (string \<times> int) option" where
  "handleCommonResult_key conv msg = (let (result, m, t) = parseResult conv msg in Some (t, result))"

definition handleFlytoResult_key :: "reply_parser \<Rightarrow> string \<Rightarrow> (string \<times> int) option" where
  "handleFlytoResult_key conv msg = (let (result, m, t) = parseResult conv msg in Some (t, result))"

definition payload_result_map :: "string \<rightharpoonup> string" where
  "payload_result_map = map_of
     [(''drc_gimbal_reset'', ''gimbal reset''), (''drc_camera_screen_drag'', ''gimbal turn''),
      (''drc_camera_aim'', ''gimbal aim''), (''drc_camera_frame_zoom'', ''frame zoom''),
      (''drc_camera_focal_length_set'', ''camera zoom'')]"

definition handlePayloadResult_key :: "reply_parser \<Rightarrow> string \<Rightarrow> (string \<times> int) option" where
  "handlePayloadResult_key conv msg =
     (let (result, m) = parseDrcResult conv msg;
          data = (case payload_result_map m of Some d \<Rightarrow> d | None \<Rightarrow> m)
      in if data = [] then None else Some (m, result))"

section \<open>State\<close>

datatype request_outcome = Answered_Ok | Err_Serialise | Err_Timeout | Err_Result int

text \<open>Where a call is.  \<open>W_Timed_Out\<close> and \<open>W_Answered\<close> hold the mutex of the context.\<close>

datatype waiter_pc = W_Init | W_Registered | W_Cleanup | W_Sent | W_Waiting | W_Timed_Out | W_Answered
  | W_Returned request_outcome

text \<open>Where a handler is.  \<open>R_Found i\<close> holds \<open>m_requestMutex\<close> and wants the mutex of context
  \<open>i\<close>; \<open>R_Returned\<close> carries the context it handed out.\<close>

datatype responder_pc = R_Init | R_Found nat | R_Returned "nat option"

text \<open>\<open>sendRequestAndWait\<close> has a key and the text its message is serialised to (empty when that
  fails); \<open>waitForDockNotice\<close> has the key alone.\<close>

datatype wait_call = SendRequest string string | DockNotice string

fun call_key :: "wait_call \<Rightarrow> string" where
  "call_key (SendRequest t json) = t"
| "call_key (DockNotice t) = t"

record request_ctx =
  tid :: string
  finished :: bool
  result :: int

record request_sys =
  m_pendingRequests :: "string \<rightharpoonup> nat"
  request_mutex :: "nat option"  \<comment> \<open>the handler that holds it between two steps\<close>
  ctxs :: "nat \<Rightarrow> request_ctx"
  ctx_mutex :: "nat \<Rightarrow> bool"  \<comment> \<open>held by its own caller between two steps\<close>
  waiters :: "nat \<Rightarrow> waiter_pc"
  responders :: "nat \<Rightarrow> responder_pc"
  published :: "string list"

record request_env =
  w_call :: "nat \<Rightarrow> wait_call"
  r_reply :: "nat \<Rightarrow> (string \<times> int) option"

text \<open>The handlers of the three modules, and the environment in which handler \<open>j\<close> works on a message.\<close>

datatype reply_handler = CommonResult | FlytoResult | PayloadResult

fun reply_key :: "reply_parser \<Rightarrow> reply_parser \<Rightarrow> reply_handler \<Rightarrow> string \<Rightarrow> (string \<times> int) option" where
  "reply_key services drc CommonResult msg = handleCommonResult_key services msg"
| "reply_key services drc FlytoResult msg = handleFlytoResult_key services msg"
| "reply_key services drc PayloadResult msg = handlePayloadResult_key drc msg"

definition request_env_of ::
  "reply_parser \<Rightarrow> reply_parser \<Rightarrow> (nat \<Rightarrow> wait_call) \<Rightarrow> (nat \<Rightarrow> reply_handler \<times> string) \<Rightarrow> request_env" where
  "request_env_of services drc calls msgs =
     \<lparr>w_call = calls, r_reply = (\<lambda>j. reply_key services drc (fst (msgs j)) (snd (msgs j)))\<rparr>"

text \<open>A reply that cannot be parsed is looked up under the empty key, or not at all.\<close>

lemma unparsed_reply_key:
  "services msg = None \<Longrightarrow> handleCommonResult_key services msg = Some ([], - 1)"
  "services msg = None \<Longrightarrow> handleFlytoResult_key services msg = Some ([], - 1)"
  "drc msg = None \<Longrightarrow> handlePayloadResult_key drc msg = None"
  by (simp_all add: handleCommonResult_key_def handleFlytoResult_key_def handlePayloadResult_key_def
      parseResult_def parseDrcResult_def payload_result_map_def)

definition new_request_ctx :: "string \<Rightarrow> request_ctx" where
  "new_request_ctx t = \<lparr>tid = t, finished = False, result = - 1\<rparr>"

definition request_sys_init :: request_sys where
  "request_sys_init = \<lparr>m_pendingRequests = (\<lambda>_. None), request_mutex = None,
     ctxs = (\<lambda>_. new_request_ctx []), ctx_mutex = (\<lambda>_. False),
     waiters = (\<lambda>_. W_Init), responders = (\<lambda>_. R_Init), published = []\<rparr>"

section \<open>Steps\<close>

text \<open>One step of call \<open>i\<close>; \<open>None\<close> when it cannot move.  \<open>timed_out\<close> says whether
  \<open>wait_for\<close> wakes because its time is over.\<close>

definition goto_w :: "nat \<Rightarrow> waiter_pc \<Rightarrow> request_sys \<Rightarrow> request_sys" where
  "goto_w i pc s = s\<lparr>waiters := (waiters s)(i := pc)\<rparr>"

definition set_ctx_mutex :: "nat \<Rightarrow> bool \<Rightarrow> request_sys \<Rightarrow> request_sys" where
  "set_ctx_mutex i b s = s\<lparr>ctx_mutex := (ctx_mutex s)(i := b)\<rparr>"

definition erase_request :: "string \<Rightarrow> request_sys \<Rightarrow> request_sys" where
  "erase_request t s = s\<lparr>m_pendingRequests := (m_pendingRequests s)(t := None)\<rparr>"

definition request_result :: "wait_call \<Rightarrow> request_ctx \<Rightarrow> request_outcome" where
  "request_result c x = (case c of
     SendRequest t json \<Rightarrow> if result x \<noteq> 0 then Err_Result (result x) else Answered_Ok
   | DockNotice t \<Rightarrow> Answered_Ok)"

definition waiter_step :: "request_env \<Rightarrow> nat \<Rightarrow> bool \<Rightarrow> request_sys \<Rightarrow> request_sys option" where
  "waiter_step sc i timed_out s =
     (let c = w_call sc i; t = call_key c in
      case waiters s i of
        W_Init \<Rightarrow>
          if request_mutex s = None
          then Some (goto_w i W_Registered (s\<lparr>ctxs := (ctxs s)(i := new_request_ctx t),
                       m_pendingRequests := (m_pendingRequests s)(t \<mapsto> i)\<rparr>))
          else None
      | W_Registered \<Rightarrow>
          (case c of
             SendRequest _ json \<Rightarrow>
               if json = [] then Some (goto_w i W_Cleanup s)
               else Some (goto_w i W_Sent (s\<lparr>published := published s @ [json]\<rparr>))
           | DockNotice _ \<Rightarrow> Some (goto_w i W_Sent s))
      | W_Cleanup \<Rightarrow>
          if request_mutex s = None
          then Some (goto_w i (W_Returned Err_Serialise) (erase_request t s)) else None
      | W_Sent \<Rightarrow>
          if ctx_mutex s i then None
          else if finished (ctxs s i) then Some (goto_w i W_Answered (set_ctx_mutex i True s))
          else Some (goto_w i W_Waiting s)
      | W_Waiting \<Rightarrow>
          if ctx_mutex s i then None
          else if finished (ctxs s i) then Some (goto_w i W_Answered (set_ctx_mutex i True s))
          else if timed_out then Some (goto_w i W_Timed_Out (set_ctx_mutex i True s))
          else Some s
      | W_Timed_Out \<Rightarrow>
          if request_mutex s = None
          then Some (goto_w i (W_Returned Err_Timeout) (set_ctx_mutex i False (erase_request t s)))
          else None
      | W_Answered \<Rightarrow>
          Some (goto_w i (W_Returned (request_result c (ctxs s i))) (set_ctx_mutex i False s))
      | W_Returned _ \<Rightarrow> None)"

text \<open>One step of handler \<open>j\<close>: \<open>findAndUpdateRequest\<close>.\<close>

definition goto_r :: "nat \<Rightarrow> responder_pc \<Rightarrow> request_sys \<Rightarrow> request_sys" where
  "goto_r j pc s = s\<lparr>responders := (responders s)(j := pc)\<rparr>"

definition finish_ctx :: "nat \<Rightarrow> int \<Rightarrow> request_sys \<Rightarrow> request_sys" where
  "finish_ctx i r s = s\<lparr>ctxs := (ctxs s)(i := (ctxs s i)\<lparr>result := r, finished := True\<rparr>)\<rparr>"

definition responder_step :: "request_env \<Rightarrow> nat \<Rightarrow> request_sys \<Rightarrow> request_sys option" where
  "responder_step sc j s =
     (case r_reply sc j of
        None \<Rightarrow> None
      | Some (t, r) \<Rightarrow>
          (case responders s j of
             R_Init \<Rightarrow>
               if request_mutex s = None then
                 (case m_pendingRequests s t of
                    None \<Rightarrow> Some (goto_r j (R_Returned None) s)
                  | Some i \<Rightarrow> Some (goto_r j (R_Found i) (s\<lparr>request_mutex := Some j\<rparr>)))
               else None
           | R_Found i \<Rightarrow>
               if ctx_mutex s i then None
               else Some (goto_r j (R_Returned (Some i))
                      ((erase_request t (finish_ctx i r s))\<lparr>request_mutex := None\<rparr>))
           | R_Returned _ \<Rightarrow> None))"

inductive request_step :: "request_env \<Rightarrow> request_sys \<Rightarrow> request_sys \<Rightarrow> bool" for sc where
  call: "waiter_step sc i timed_out s = Some s' \<Longrightarrow> request_step sc s s'"
| reply: "responder_step sc j s = Some s' \<Longrightarrow> request_step sc s s'"

inductive request_steps :: "request_env \<Rightarrow> request_sys \<Rightarrow> request_sys \<Rightarrow> bool" for sc where
  refl: "request_steps sc s s"
| trans: "request_steps sc s s' \<Longrightarrow> request_step sc s' s'' \<Longrightarrow> request_steps sc s s''"

text \<open>A schedule that can be executed: which call or handler runs next.\<close>

datatype request_turn = Call nat bool | Reply nat

fun request_turn_step :: "request_env \<Rightarrow> request_turn \<Rightarrow> request_sys \<Rightarrow> request_sys option" where
  "request_turn_step sc (Call i b) s = waiter_step sc i b s"
| "request_turn_step sc (Reply j) s = responder_step sc j s"

fun request_run :: "request_env \<Rightarrow> request_turn list \<Rightarrow> request_sys \<Rightarrow> request_sys option" where
  "request_run sc [] s = Some s"
| "request_run sc (a # as) s = Option.bind (request_turn_step sc a s) (request_run sc as)"

lemma request_run_append: "request_run sc (as @ bs) s = Option.bind (request_run sc as s) (request_run sc bs)"
  by (induction as arbitrary: s) (auto split: bind_splits)

lemma request_steps_front: "request_steps sc s' s'' \<Longrightarrow> request_step sc s s' \<Longrightarrow> request_steps sc s s''"
  by (induction rule: request_steps.induct) (auto intro: request_steps.intros)

lemma request_run_steps: "request_run sc as s = Some s' \<Longrightarrow> request_steps sc s s'"
proof (induction as arbitrary: s)
  case (Cons a as)
  then obtain s1 where s1: "request_turn_step sc a s = Some s1" "request_run sc as s1 = Some s'"
    by (auto split: bind_splits)
  have "request_step sc s s1" using s1(1) by (cases a) (auto intro: request_step.intros)
  with Cons.IH[OF s1(2)] show ?case by (rule request_steps_front)
qed (auto intro: request_steps.intros)


section \<open>What one step changes\<close>

lemmas request_state_defs = goto_w_def set_ctx_mutex_def erase_request_def goto_r_def finish_ctx_def new_request_ctx_def

definition in_flight :: "waiter_pc \<Rightarrow> bool" where
  "in_flight pc \<longleftrightarrow> pc \<in> {W_Registered, W_Cleanup, W_Sent, W_Waiting, W_Timed_Out}"

definition past_wait :: "waiter_pc \<Rightarrow> bool" where
  "past_wait pc \<longleftrightarrow> pc \<noteq> W_Init"

text \<open>The table, the two kinds of lock, and the contexts that were filled in.\<close>

definition table_ok :: "request_env \<Rightarrow> request_sys \<Rightarrow> bool" where
  "table_ok sc s \<longleftrightarrow> (\<forall>t i. m_pendingRequests s t = Some i \<longrightarrow>
     call_key (w_call sc i) = t \<and> in_flight (waiters s i) \<and> \<not> finished (ctxs s i))"

definition locks_ok :: "request_env \<Rightarrow> request_sys \<Rightarrow> bool" where
  "locks_ok sc s \<longleftrightarrow>
     (\<forall>j i. responders s j = R_Found i \<longrightarrow> request_mutex s = Some j \<and>
        (\<exists>t r. r_reply sc j = Some (t, r) \<and> m_pendingRequests s t = Some i)) \<and>
     (\<forall>j. request_mutex s = Some j \<longrightarrow> (\<exists>i. responders s j = R_Found i)) \<and>
     (\<forall>i. ctx_mutex s i \<longleftrightarrow> waiters s i = W_Timed_Out \<or> waiters s i = W_Answered)"

definition answers_ok :: "request_env \<Rightarrow> request_sys \<Rightarrow> bool" where
  "answers_ok sc s \<longleftrightarrow>
     (\<forall>i. finished (ctxs s i) \<longrightarrow> (\<exists>j r. responders s j = R_Returned (Some i) \<and>
        r_reply sc j = Some (call_key (w_call sc i), r) \<and> result (ctxs s i) = r)) \<and>
     (\<forall>j i. responders s j = R_Returned (Some i) \<longrightarrow> finished (ctxs s i) \<and> waiters s i \<noteq> W_Init) \<and>
     (\<forall>j k i. responders s j = R_Returned (Some i) \<longrightarrow> responders s k = R_Returned (Some i) \<longrightarrow> j = k)"

definition outcomes_ok :: "request_env \<Rightarrow> request_sys \<Rightarrow> bool" where
  "outcomes_ok sc s \<longleftrightarrow> (\<forall>i.
     (waiters s i = W_Answered \<longrightarrow> finished (ctxs s i)) \<and>
     (waiters s i \<in> {W_Init, W_Timed_Out, W_Cleanup, W_Returned Err_Timeout, W_Returned Err_Serialise} \<longrightarrow>
        waiters s i = W_Cleanup \<or> waiters s i = W_Returned Err_Serialise \<or> \<not> finished (ctxs s i)) \<and>
     (\<forall>out. waiters s i = W_Returned out \<longrightarrow> out \<noteq> Err_Timeout \<longrightarrow> out \<noteq> Err_Serialise \<longrightarrow>
        finished (ctxs s i) \<and> out = request_result (w_call sc i) (ctxs s i)))"

definition request_inv :: "request_env \<Rightarrow> request_sys \<Rightarrow> bool" where
  "request_inv sc s \<longleftrightarrow> table_ok sc s \<and> locks_ok sc s \<and> answers_ok sc s \<and> outcomes_ok sc s"

lemmas request_inv_defs = request_inv_def table_ok_def locks_ok_def answers_ok_def outcomes_ok_def

lemma request_inv_init: "request_inv sc request_sys_init"
  by (simp add: request_inv_defs request_sys_init_def new_request_ctx_def)

text \<open>The cases of a step, one fact per program counter.\<close>

lemma waiter_step_cases:
  assumes "waiter_step sc i b s = Some s'"
  obtains
    (start) "waiters s i = W_Init" "request_mutex s = None"
      "s' = goto_w i W_Registered (s\<lparr>ctxs := (ctxs s)(i := new_request_ctx (call_key (w_call sc i))),
              m_pendingRequests := (m_pendingRequests s)(call_key (w_call sc i) \<mapsto> i)\<rparr>)"
  | (unserialised) "waiters s i = W_Registered" "w_call sc i = SendRequest (call_key (w_call sc i)) []"
      "s' = goto_w i W_Cleanup s"
  | (publish) json where "waiters s i = W_Registered" "w_call sc i = SendRequest (call_key (w_call sc i)) json" "json \<noteq> []"
      "s' = goto_w i W_Sent (s\<lparr>published := published s @ [json]\<rparr>)"
  | (notice) "waiters s i = W_Registered" "w_call sc i = DockNotice (call_key (w_call sc i))" "s' = goto_w i W_Sent s"
  | (give_up) "waiters s i = W_Cleanup" "request_mutex s = None"
      "s' = goto_w i (W_Returned Err_Serialise) (erase_request (call_key (w_call sc i)) s)"
  | (answered) "waiters s i = W_Sent \<or> waiters s i = W_Waiting" "\<not> ctx_mutex s i" "finished (ctxs s i)"
      "s' = goto_w i W_Answered (set_ctx_mutex i True s)"
  | (sleep) "waiters s i = W_Sent" "\<not> ctx_mutex s i" "\<not> finished (ctxs s i)" "s' = goto_w i W_Waiting s"
  | (wake_up) "waiters s i = W_Waiting" "\<not> ctx_mutex s i" "\<not> finished (ctxs s i)" "\<not> b" "s' = s"
  | (time_out) "waiters s i = W_Waiting" "\<not> ctx_mutex s i" "\<not> finished (ctxs s i)" "b"
      "s' = goto_w i W_Timed_Out (set_ctx_mutex i True s)"
  | (clean_up) "waiters s i = W_Timed_Out" "request_mutex s = None"
      "s' = goto_w i (W_Returned Err_Timeout) (set_ctx_mutex i False (erase_request (call_key (w_call sc i)) s))"
  | (finish) "waiters s i = W_Answered"
      "s' = goto_w i (W_Returned (request_result (w_call sc i) (ctxs s i))) (set_ctx_mutex i False s)"
proof (cases "waiters s i")
  case W_Registered
  then show thesis
    using assms unserialised publish notice
    by (cases "w_call sc i") (auto simp: waiter_step_def split: if_splits)
qed (use assms in \<open>auto simp: waiter_step_def Let_def split: if_splits intro: that\<close>)

lemma responder_step_cases:
  assumes "responder_step sc j s = Some s'"
  obtains
    (unknown) t r where "r_reply sc j = Some (t, r)" "responders s j = R_Init" "request_mutex s = None"
      "m_pendingRequests s t = None" "s' = goto_r j (R_Returned None) s"
  | (found) t r i where "r_reply sc j = Some (t, r)" "responders s j = R_Init" "request_mutex s = None"
      "m_pendingRequests s t = Some i" "s' = goto_r j (R_Found i) (s\<lparr>request_mutex := Some j\<rparr>)"
  | (fill_in) t r i where "r_reply sc j = Some (t, r)" "responders s j = R_Found i" "\<not> ctx_mutex s i"
      "s' = goto_r j (R_Returned (Some i)) ((erase_request t (finish_ctx i r s))\<lparr>request_mutex := None\<rparr>)"
  using assms by (auto simp: responder_step_def split: option.splits responder_pc.splits if_splits intro: that)


section \<open>The invariant\<close>

lemma waiter_step_table:
  assumes "request_inv sc s" "waiter_step sc i b s = Some s'"
  shows "table_ok sc s'"
  using assms(2)
  by (rule waiter_step_cases)
    (use assms(1) in \<open>auto simp: request_inv_defs request_state_defs in_flight_def split: if_splits\<close>)

lemma waiter_step_locks:
  assumes "request_inv sc s" "waiter_step sc i b s = Some s'"
  shows "locks_ok sc s'"
  using assms(2)
  by (rule waiter_step_cases)
    (use assms(1) in \<open>auto simp: request_inv_defs request_state_defs in_flight_def split: if_splits\<close>)

lemma waiter_step_answers:
  assumes "request_inv sc s" "waiter_step sc i b s = Some s'"
  shows "answers_ok sc s'"
  using assms(2)
  by (rule waiter_step_cases)
    (use assms(1) in \<open>auto simp: request_inv_defs request_state_defs in_flight_def split: if_splits\<close>)

lemma request_result_neq [simp]:
  "request_result c x \<noteq> Err_Timeout" "request_result c x \<noteq> Err_Serialise"
  "Err_Timeout \<noteq> request_result c x" "Err_Serialise \<noteq> request_result c x"
  by (auto simp: request_result_def split: wait_call.splits)

lemma waiter_step_outcomes:
  assumes "request_inv sc s" "waiter_step sc i b s = Some s'"
  shows "outcomes_ok sc s'"
  using assms(2)
  by (rule waiter_step_cases)
    (use assms(1) in \<open>auto simp: request_inv_defs request_state_defs in_flight_def split: if_splits\<close>)

lemma pendingD:
  assumes "request_inv sc s" "m_pendingRequests s t = Some i"
  shows "call_key (w_call sc i) = t" "in_flight (waiters s i)" "\<not> finished (ctxs s i)"
  using assms by (auto simp: request_inv_def table_ok_def)

lemma foundD:
  assumes "request_inv sc s" "responders s j = R_Found i" "r_reply sc j = Some (t, r)"
  shows "request_mutex s = Some j" "m_pendingRequests s t = Some i" "call_key (w_call sc i) = t"
    "in_flight (waiters s i)" "\<not> finished (ctxs s i)"
proof -
  show "request_mutex s = Some j" and found: "m_pendingRequests s t = Some i"
    using assms by (force simp: request_inv_def locks_ok_def)+
  then show "call_key (w_call sc i) = t" "in_flight (waiters s i)" "\<not> finished (ctxs s i)"
    using pendingD[OF assms(1)] by auto
qed

lemma responder_step_table:
  assumes inv: "request_inv sc s" and step: "responder_step sc j s = Some s'"
  shows "table_ok sc s'"
  using step
proof (cases rule: responder_step_cases)
  case (fill_in t r i)
  then show ?thesis
    using pendingD[OF inv] foundD(2)[OF inv fill_in(2,1)]
    by (auto simp: table_ok_def request_state_defs; metis)
qed (use inv in \<open>auto simp: request_inv_def table_ok_def goto_r_def\<close>)

lemma responder_step_locks:
  assumes inv: "request_inv sc s" and step: "responder_step sc j s = Some s'"
  shows "locks_ok sc s'"
proof -
  have locks: "locks_ok sc s" using inv by (simp add: request_inv_def)
  show ?thesis
    using step
  proof (cases rule: responder_step_cases)
    case (fill_in t r i)
    have "request_mutex s = Some j" by (rule foundD(1)[OF inv fill_in(2,1)])
    with locks have "responders s k \<noteq> R_Found i'" if "k \<noteq> j" for k i'
      using that by (auto simp: locks_ok_def)
    with fill_in locks show ?thesis by (auto simp: locks_ok_def request_state_defs)
  next
    case (found t r i)
    with locks have "responders s k \<noteq> R_Found i'" for k i'
      by (auto simp: locks_ok_def)
    with found locks show ?thesis by (auto simp: locks_ok_def goto_r_def)
  qed (use locks in \<open>auto simp: locks_ok_def goto_r_def\<close>)
qed

lemma answers_frame:
  assumes "answers_ok sc s" "ctxs s' = ctxs s" "waiters s' = waiters s"
    "\<And>k i. responders s' k = R_Returned (Some i) \<longleftrightarrow> responders s k = R_Returned (Some i)"
  shows "answers_ok sc s'"
  using assms by (auto simp: answers_ok_def)

lemma responder_step_answers:
  assumes inv: "request_inv sc s" and step: "responder_step sc j s = Some s'"
  shows "answers_ok sc s'"
proof -
  have ans: "answers_ok sc s" using inv by (simp add: request_inv_def)
  show ?thesis
    using step
  proof (cases rule: responder_step_cases)
    case (fill_in t r i)
    note f = foundD(3-5)[OF inv fill_in(2,1)]
    have fresh: "responders s k \<noteq> R_Returned (Some i)" for k
      using ans f by (auto simp: answers_ok_def)
    have other: "\<exists>k r. (k \<noteq> j \<and> responders s k = R_Returned (Some i')) \<and>
        r_reply sc k = Some (call_key (w_call sc i'), r) \<and> result (ctxs s i') = r"
      if fin: "finished (ctxs s i')" for i'
    proof -
      obtain k r where "responders s k = R_Returned (Some i')" and
        "r_reply sc k = Some (call_key (w_call sc i'), r)" "result (ctxs s i') = r"
        using ans fin by (auto simp: answers_ok_def)
      moreover from this(1) fill_in(2) have "k \<noteq> j" by auto
      ultimately show ?thesis by blast
    qed
    have resp: "responders s' k = (if k = j then R_Returned (Some i) else responders s k)" for k
      using fill_in(4) by (simp add: request_state_defs)
    have ctx: "ctxs s' = (ctxs s)(i := (ctxs s i)\<lparr>result := r, finished := True\<rparr>)"
      "waiters s' = waiters s"
      using fill_in(4) by (simp_all add: request_state_defs)
    have "\<exists>k r. responders s' k = R_Returned (Some i') \<and>
        r_reply sc k = Some (call_key (w_call sc i'), r) \<and> result (ctxs s' i') = r"
      if fin: "finished (ctxs s' i')" for i'
    proof (cases "i' = i")
      case True
      then show ?thesis using fill_in(1) f(1) by (auto simp: resp ctx intro!: exI[of _ j])
    next
      case False
      with fin other[of i'] show ?thesis by (auto simp: resp ctx)
    qed
    moreover have "finished (ctxs s' i') \<and> waiters s' i' \<noteq> W_Init"
      if "responders s' k = R_Returned (Some i')" for k i'
      using ans f(2) that by (auto simp: resp ctx answers_ok_def in_flight_def split: if_splits)
    moreover have "k = l" if "responders s' k = R_Returned (Some i')" "responders s' l = R_Returned (Some i')" for k l i'
      using ans fresh that by (auto simp: resp answers_ok_def split: if_splits)
    ultimately show ?thesis unfolding answers_ok_def by blast
  qed (use ans in \<open>auto intro!: answers_frame[OF ans] simp: goto_r_def split: if_splits\<close>)
qed

lemma responder_step_outcomes:
  assumes inv: "request_inv sc s" and step: "responder_step sc j s = Some s'"
  shows "outcomes_ok sc s'"
proof -
  have out: "outcomes_ok sc s" and locks: "locks_ok sc s" using inv by (simp_all add: request_inv_def)
  show ?thesis
    using step
  proof (cases rule: responder_step_cases)
    case (fill_in t r i)
    have "waiters s i \<noteq> W_Timed_Out" using locks fill_in(3) by (auto simp: locks_ok_def)
    with fill_in foundD(4)[OF inv fill_in(2,1)] out show ?thesis
      by (auto simp: outcomes_ok_def request_state_defs in_flight_def)
  qed (use out in \<open>auto simp: outcomes_ok_def goto_r_def\<close>)
qed

lemma request_step_inv: "request_step sc s s' \<Longrightarrow> request_inv sc s \<Longrightarrow> request_inv sc s'"
  unfolding request_inv_def[of sc s']
  by (induction rule: request_step.induct)
    (simp_all add: waiter_step_table waiter_step_locks waiter_step_answers waiter_step_outcomes
       responder_step_table responder_step_locks responder_step_answers responder_step_outcomes)

lemma request_steps_inv: "request_steps sc s s' \<Longrightarrow> request_inv sc s \<Longrightarrow> request_inv sc s'"
  by (induction rule: request_steps.induct) (auto intro: request_step_inv)


lemma reachable_inv: "request_steps sc request_sys_init s \<Longrightarrow> request_inv sc s"
  by (rule request_steps_inv[OF _ request_inv_init])

section \<open>What is final\<close>

text \<open>A context that was filled in, a handler that returned and a call that returned stay as they are;
  so does a key that a handler or a call no longer owns.\<close>

lemma waiter_step_frame:
  assumes "waiter_step sc i b s = Some s'"
  shows "responders s' = responders s" "request_mutex s' = request_mutex s"
    "k \<noteq> i \<Longrightarrow> waiters s' k = waiters s k \<and> ctxs s' k = ctxs s k \<and> ctx_mutex s' k = ctx_mutex s k"
  using assms by (auto elim!: waiter_step_cases simp: request_state_defs)

lemma responder_step_frame:
  assumes "responder_step sc j s = Some s'"
  shows "waiters s' = waiters s" "ctx_mutex s' = ctx_mutex s"
    "k \<noteq> j \<Longrightarrow> responders s' k = responders s k"
  using assms by (auto elim!: responder_step_cases simp: request_state_defs)

lemma not_started_frame:
  assumes "request_step sc s s'" "request_mutex s \<noteq> None" "waiters s k = W_Init"
  shows "waiters s' k = W_Init"
  using assms
proof (induction rule: request_step.induct)
  case (call i b s s')
  then show ?case
    using waiter_step_frame(3)[OF call(1), of k] by (cases "k = i") (auto simp: waiter_step_def Let_def)
qed (auto dest: responder_step_frame)


text \<open>A serialisation error is reported only for a message that could not be serialised.\<close>

definition serialise_ok :: "request_env \<Rightarrow> request_sys \<Rightarrow> bool" where
  "serialise_ok sc s \<longleftrightarrow> (\<forall>i. waiters s i = W_Cleanup \<or> waiters s i = W_Returned Err_Serialise \<longrightarrow>
     w_call sc i = SendRequest (call_key (w_call sc i)) [])"

lemma request_step_serialise: "request_step sc s s' \<Longrightarrow> serialise_ok sc s \<Longrightarrow> serialise_ok sc s'"
proof (induction rule: request_step.induct)
  case (call i b s s')
  from call(1) show ?case
    by (rule waiter_step_cases) (use call(2) in \<open>auto simp: serialise_ok_def request_state_defs\<close>)
qed (simp add: serialise_ok_def responder_step_frame)

lemma request_steps_serialise: "request_steps sc s s' \<Longrightarrow> serialise_ok sc s \<Longrightarrow> serialise_ok sc s'"
  by (induction rule: request_steps.induct) (simp_all add: request_step_serialise)

lemma reachable_serialise: "request_steps sc request_sys_init s \<Longrightarrow> serialise_ok sc s"
  by (erule request_steps_serialise) (simp add: serialise_ok_def request_sys_init_def)

text \<open>A call whose key now leads to another context, or to none, before its own is filled in.\<close>

definition overtaken :: "request_env \<Rightarrow> nat \<Rightarrow> request_sys \<Rightarrow> bool" where
  "overtaken sc i s \<longleftrightarrow> waiters s i \<noteq> W_Init \<and> \<not> finished (ctxs s i) \<and>
     m_pendingRequests s (call_key (w_call sc i)) \<noteq> Some i"

lemma request_step_overtaken:
  assumes "request_step sc s s'" "request_inv sc s" "overtaken sc i s"
  shows "overtaken sc i s'"
  using assms
proof (induction rule: request_step.induct)
  case (call k b s s')
  have table: "m_pendingRequests s' u = m_pendingRequests s u \<or> m_pendingRequests s' u = None \<or>
      (waiters s k = W_Init \<and> m_pendingRequests s' u = Some k)" for u
    using call(1) by (rule waiter_step_cases) (simp_all add: request_state_defs)
  have mine: "waiters s' i \<noteq> W_Init \<and> finished (ctxs s' i) = finished (ctxs s i)" if "waiters s i \<noteq> W_Init"
    using call(1) by (rule waiter_step_cases) (use that in \<open>auto simp: request_state_defs\<close>)
  show ?case using call(3) mine table[of "call_key (w_call sc i)"] by (auto simp: overtaken_def)
next
  case (reply j s s')
  from reply(1) show ?case
  proof (cases rule: responder_step_cases)
    case (fill_in t r k)
    have "k \<noteq> i" using foundD(2,3)[OF reply(2) fill_in(2,1)] reply(3) by (auto simp: overtaken_def)
    with fill_in reply(3) show ?thesis by (simp add: overtaken_def request_state_defs)
  qed (use reply(3) in \<open>auto simp: overtaken_def goto_r_def\<close>)
qed

lemma request_steps_overtaken:
  assumes "request_steps sc s s'" "request_inv sc s" "overtaken sc i s"
  shows "request_inv sc s' \<and> overtaken sc i s'"
  using assms by (induction rule: request_steps.induct) (auto intro: request_step_inv request_step_overtaken)

section \<open>Two locks in opposite orders\<close>

text \<open>A call whose time is over holds the mutex of its context and wants \<open>m_requestMutex\<close>; the
  handler of its reply holds \<open>m_requestMutex\<close> and wants the mutex of the context.\<close>

definition lock_cycle :: "nat \<Rightarrow> nat \<Rightarrow> request_sys \<Rightarrow> bool" where
  "lock_cycle i j s \<longleftrightarrow> waiters s i = W_Timed_Out \<and> ctx_mutex s i \<and>
     responders s j = R_Found i \<and> request_mutex s = Some j"

lemma request_step_lock_cycle:
  assumes "request_step sc s s'" "request_inv sc s" "lock_cycle i j s"
  shows "lock_cycle i j s' \<and> (\<forall>k. waiters s k = W_Init \<longrightarrow> waiters s' k = W_Init) \<and>
    (\<forall>k. responders s k = R_Init \<longrightarrow> responders s' k = R_Init)"
proof -
  have busy: "request_mutex s \<noteq> None" using assms(3) by (simp add: lock_cycle_def)
  have "lock_cycle i j s' \<and> (\<forall>k. responders s k = R_Init \<longrightarrow> responders s' k = R_Init)"
    using assms
  proof (induction rule: request_step.induct)
    case (call k b s s')
    then have "k \<noteq> i" by (auto simp: waiter_step_def lock_cycle_def)
    with waiter_step_frame[OF call(1)] call(3) show ?case by (simp add: lock_cycle_def)
  next
    case (reply k s s')
    from reply(1) show ?case
    proof (cases rule: responder_step_cases)
      case (fill_in t r l)
      with foundD(1)[OF reply(2) fill_in(2,1)] reply(3) show ?thesis by (auto simp: lock_cycle_def)
    qed (use reply(3) in \<open>auto simp: lock_cycle_def\<close>)
  qed
  with not_started_frame[OF assms(1) busy] show ?thesis by simp
qed

lemma request_steps_lock_cycle:
  assumes "request_steps sc s s'" "request_inv sc s" "lock_cycle i j s"
  shows "request_inv sc s' \<and> lock_cycle i j s' \<and> (\<forall>k. waiters s k = W_Init \<longrightarrow> waiters s' k = W_Init) \<and>
    (\<forall>k. responders s k = R_Init \<longrightarrow> responders s' k = R_Init)"
  using assms
  by (induction rule: request_steps.induct) (auto dest: request_step_lock_cycle request_step_inv)

text \<open>The schedule that gets there: the call registers, publishes, sleeps and wakes up too late, and
  the reply is looked up before the call has removed its key.\<close>

definition late_reply :: "nat \<Rightarrow> nat \<Rightarrow> request_turn list" where
  "late_reply i j = [Call i False, Call i False, Call i False, Call i True, Reply j]"

lemma late_reply_run:
  assumes "w_call sc i = SendRequest t json" "json \<noteq> []" "r_reply sc j = Some (t, r)"
  shows "\<exists>s. request_run sc (late_reply i j) request_sys_init = Some s \<and> lock_cycle i j s"
  using assms
  by (simp add: late_reply_def waiter_step_def responder_step_def request_sys_init_def request_state_defs lock_cycle_def)

section \<open>Properties\<close>

text \<open>C9. What a request returns is what happened to it, in every interleaving of callers and
  handlers: success when exactly one handler handed out its context with a reply for its key and
  result 0, a failure code when exactly one did with that code, a timeout when none did, and a
  serialisation error when there was nothing to send.\<close>

theorem request_outcome:
  assumes "request_steps sc request_sys_init s" "w_call sc i = SendRequest t json" "waiters s i = W_Returned out"
  shows "case out of
      Answered_Ok \<Rightarrow> \<exists>!j. responders s j = R_Returned (Some i) \<and> r_reply sc j = Some (t, 0)
    | Err_Result r \<Rightarrow> r \<noteq> 0 \<and> (\<exists>!j. responders s j = R_Returned (Some i) \<and> r_reply sc j = Some (t, r))
    | Err_Timeout \<Rightarrow> \<forall>j. responders s j \<noteq> R_Returned (Some i)
    | Err_Serialise \<Rightarrow> json = []"
proof -
  have inv: "request_inv sc s" and ser: "serialise_ok sc s"
    using assms(1) by (rule reachable_inv, rule reachable_serialise)
  have one: "\<exists>!j. responders s j = R_Returned (Some i) \<and> r_reply sc j = Some (t, result (ctxs s i))"
    if "finished (ctxs s i)"
    using inv that assms(2) unfolding request_inv_def answers_ok_def by (metis call_key.simps(1))
  have ret: "finished (ctxs s i) \<and> out = request_result (SendRequest t json) (ctxs s i)"
    if "out \<noteq> Err_Timeout" "out \<noteq> Err_Serialise"
    using inv that assms(2,3) unfolding request_inv_def outcomes_ok_def by metis
  have late: "responders s j \<noteq> R_Returned (Some i)" if "out = Err_Timeout" for j
    using inv that assms(3) by (auto simp: request_inv_def outcomes_ok_def answers_ok_def)
  show ?thesis
    using ret one late ser assms(2,3)
    by (cases out) (auto simp: request_result_def serialise_ok_def split: if_splits)
qed

definition one_call :: request_env where
  "one_call = \<lparr>w_call = (\<lambda>i. SendRequest ''t'' ''x''), r_reply = (\<lambda>j. Some (''t'', 0))\<rparr>"

definition in_time :: "request_turn list" where
  "in_time = [Call 0 False, Call 0 False, Call 0 False, Reply 0, Reply 0, Call 0 False, Call 0 False]"

lemma request_outcome_witness:
  "waiters (the (request_run one_call in_time request_sys_init)) 0 = W_Returned Answered_Ok \<and>
   (\<exists>!j. responders (the (request_run one_call in_time request_sys_init)) j = R_Returned (Some 0) \<and>
      r_reply one_call j = Some (''t'', 0))"
proof -
  have run: "\<exists>s. request_run one_call in_time request_sys_init = Some s \<and> waiters s 0 = W_Returned Answered_Ok"
    by (simp add: in_time_def one_call_def Let_def waiter_step_def responder_step_def request_sys_init_def
        request_state_defs request_result_def)
  then obtain s where s: "request_run one_call in_time request_sys_init = Some s" "waiters s 0 = W_Returned Answered_Ok"
    by blast
  from request_outcome[OF request_run_steps[OF s(1)] _ s(2), of "''t''" "''x''"] s show ?thesis
    by (simp add: one_call_def)
qed

text \<open>C21. The table holds no stale request: in every reachable state each entry leads to a call of
  that key which has not returned and has no answer yet, so when no call is under way the table is
  empty.\<close>

theorem request_table:
  assumes "request_steps sc request_sys_init s"
  shows "(\<forall>t i. m_pendingRequests s t = Some i \<longrightarrow>
      call_key (w_call sc i) = t \<and> in_flight (waiters s i) \<and> \<not> finished (ctxs s i)) \<and>
    ((\<forall>i. \<not> in_flight (waiters s i)) \<longrightarrow> m_pendingRequests s = (\<lambda>_. None))"
proof -
  note inv = reachable_inv[OF assms]
  have "m_pendingRequests s t = None" if "\<forall>i. \<not> in_flight (waiters s i)" for t
    using pendingD(2)[OF inv, of t] that by (cases "m_pendingRequests s t") auto
  then show ?thesis using pendingD[OF inv] by auto
qed

lemma request_table_witness:
  "m_pendingRequests (the (request_run one_call [Call 0 False] request_sys_init)) ''t'' = Some 0 \<and>
   in_flight (waiters (the (request_run one_call [Call 0 False] request_sys_init)) 0)"
proof -
  obtain s where s: "request_run one_call [Call 0 False] request_sys_init = Some s" "m_pendingRequests s ''t'' = Some 0"
    by (simp add: one_call_def Let_def waiter_step_def request_sys_init_def request_state_defs)
  with request_table[OF request_run_steps[OF s(1)]] show ?thesis by simp
qed

text \<open>C25. When a second request registers under a key that is still waiting, the first one has lost
  its entry for good: whatever happens next, no handler fills its context in, and it can only return
  an error.\<close>

theorem request_overtaken:
  assumes "request_steps sc request_sys_init s" "in_flight (waiters s i)"
    "m_pendingRequests s (call_key (w_call sc i)) \<noteq> Some i" "\<not> finished (ctxs s i)" "request_steps sc s s'"
  shows "(\<forall>j. responders s' j \<noteq> R_Returned (Some i)) \<and>
    (\<forall>out. waiters s' i = W_Returned out \<longrightarrow> out = Err_Timeout \<or> out = Err_Serialise)"
proof -
  have "overtaken sc i s" using assms(2-4) by (auto simp: overtaken_def in_flight_def)
  with request_steps_overtaken[OF assms(5) reachable_inv[OF assms(1)]]
  have "request_inv sc s'" "\<not> finished (ctxs s' i)" by (auto simp: overtaken_def)
  then show ?thesis by (fastforce simp: request_inv_def answers_ok_def outcomes_ok_def)
qed

lemma request_overtaken_witness:
  "waiters (the (request_run one_call [Call 0 False, Call 0 False, Call 1 False] request_sys_init)) 0 = W_Sent \<and>
   (\<forall>j. responders (the (request_run one_call [Call 0 False, Call 0 False, Call 1 False, Reply 0, Reply 0]
      request_sys_init)) j \<noteq> R_Returned (Some 0))"
proof -
  obtain s where s: "request_run one_call [Call 0 False, Call 0 False, Call 1 False] request_sys_init = Some s"
    "waiters s 0 = W_Sent" "m_pendingRequests s ''t'' = Some 1" "\<not> finished (ctxs s 0)"
    by (simp add: one_call_def Let_def waiter_step_def request_sys_init_def request_state_defs)
  obtain s' where s': "request_run one_call [Call 0 False, Call 0 False, Call 1 False, Reply 0, Reply 0] request_sys_init = Some s'"
    by (simp add: one_call_def Let_def waiter_step_def responder_step_def request_sys_init_def request_state_defs)
  have rest: "request_run one_call [Reply 0, Reply 0] s = Some s'"
    using s' s(1) request_run_append[of one_call "[Call 0 False, Call 0 False, Call 1 False]" "[Reply 0, Reply 0]" request_sys_init]
    by (simp del: request_run.simps)
  have "call_key (w_call one_call 0) = ''t''" by (simp add: one_call_def)
  with request_overtaken[OF request_run_steps[OF s(1)] _ _ s(4) request_run_steps[OF rest]] s s'
  show ?thesis by (simp add: in_flight_def del: request_run.simps)
qed

text \<open>C11. A reply that arrives just as its request times out can stop the whole component: from the
  initial state a schedule leads to a state in which caller and handler each hold the lock the other
  one wants; in every continuation both still do, no call that has not registered ever registers and no
  reply that has not been looked up ever is.\<close>

theorem request_late_reply_deadlock:
  assumes "w_call sc i = SendRequest t json" "json \<noteq> []" "r_reply sc j = Some (t, r)"
  shows "\<exists>s. request_steps sc request_sys_init s \<and> lock_cycle i j s \<and>
    (\<forall>s'. request_steps sc s s' \<longrightarrow> lock_cycle i j s' \<and>
       (\<forall>k. waiters s k = W_Init \<longrightarrow> waiters s' k = W_Init) \<and>
       (\<forall>k. responders s k = R_Init \<longrightarrow> responders s' k = R_Init))"
proof -
  obtain s where "request_run sc (late_reply i j) request_sys_init = Some s" "lock_cycle i j s"
    using late_reply_run[OF assms] by blast
  then show ?thesis
    using request_run_steps reachable_inv request_steps_lock_cycle[of sc s _ i j] by meson
qed

lemma request_late_reply_deadlock_witness:
  "\<exists>s. request_steps one_call request_sys_init s \<and> lock_cycle 0 0 s \<and>
     (\<forall>s'. request_steps one_call s s' \<longrightarrow> waiters s' 0 = W_Timed_Out \<and> responders s' 0 = R_Found 0)"
  using request_late_reply_deadlock[of one_call 0 "''t''" "''x''" 0 0]
  by (auto simp: one_call_def lock_cycle_def)

end
