(* ===== verification/Pl_Utils.thy ===== *)
theory Pl_Utils
  imports Complex_Main Pilot_Prelude
begin

text \<open>
  What the modules of the service share: \<^verbatim>\<open>common/if/pl_utils.{h,cpp}\<close>, with the control mode of
  the aircraft, the transaction id of the last command, and the reports sent to the platform.

  Everything a module does to the outside is an effect: a message for the publishing module, a
  request that waits for its answer, or a pause.  Conversion from protobuf to JSON is not in
  the sources; whether it succeeds is a parameter.  Texts for the log and for the operator
  are given in English.
\<close>

section \<open>Floating-point values\<close>

text \<open>A \<open>float\<close> or \<open>double\<close> is a number, an infinity or not a number; comparisons with the latter are
  false.  Rounding is left to the operations that need it, as parameters.\<close>

datatype fl = Fin rat | PInf | NInf | NaN

fun fl_le :: "fl \<Rightarrow> fl \<Rightarrow> bool" where
  "fl_le (Fin a) (Fin b) \<longleftrightarrow> a \<le> b"
| "fl_le NaN b \<longleftrightarrow> False"
| "fl_le a NaN \<longleftrightarrow> False"
| "fl_le NInf b \<longleftrightarrow> True"
| "fl_le a PInf \<longleftrightarrow> True"
| "fl_le PInf b \<longleftrightarrow> False"
| "fl_le a NInf \<longleftrightarrow> False"

fun fl_less :: "fl \<Rightarrow> fl \<Rightarrow> bool" where
  "fl_less (Fin a) (Fin b) \<longleftrightarrow> a < b"
| "fl_less NaN b \<longleftrightarrow> False"
| "fl_less a NaN \<longleftrightarrow> False"
| "fl_less PInf b \<longleftrightarrow> False"
| "fl_less a NInf \<longleftrightarrow> False"
| "fl_less NInf b \<longleftrightarrow> True"
| "fl_less a PInf \<longleftrightarrow> True"

lemma fl_le_Fin: "fl_le x (Fin b) \<longleftrightarrow> x = NInf \<or> (\<exists>a\<le>b. x = Fin a)"
  by (cases x) auto

lemma fl_less_Fin: "fl_less x (Fin b) \<longleftrightarrow> x = NInf \<or> (\<exists>a<b. x = Fin a)"
  by (cases x) auto

lemma fl_Fin_less: "fl_less (Fin b) x \<longleftrightarrow> x = PInf \<or> (\<exists>a>b. x = Fin a)"
  by (cases x) auto

text \<open>Arithmetic rounded by \<open>rnd\<close>, and \<open>std::max\<close> and \<open>std::min\<close>.\<close>

fun fl_add :: "(rat \<Rightarrow> rat) \<Rightarrow> fl \<Rightarrow> fl \<Rightarrow> fl" where
  "fl_add r (Fin a) (Fin b) = Fin (r (a + b))"
| "fl_add r NaN b = NaN"
| "fl_add r a NaN = NaN"
| "fl_add r PInf NInf = NaN"
| "fl_add r NInf PInf = NaN"
| "fl_add r PInf b = PInf"
| "fl_add r NInf b = NInf"
| "fl_add r a PInf = PInf"
| "fl_add r a NInf = NInf"

fun fl_neg :: "fl \<Rightarrow> fl" where
  "fl_neg (Fin a) = Fin (- a)"
| "fl_neg PInf = NInf"
| "fl_neg NInf = PInf"
| "fl_neg NaN = NaN"

text \<open>The product with a positive constant.\<close>

fun fl_scale :: "(rat \<Rightarrow> rat) \<Rightarrow> rat \<Rightarrow> fl \<Rightarrow> fl" where
  "fl_scale r c (Fin a) = Fin (r (a * c))"
| "fl_scale r c x = x"

definition fl_max :: "fl \<Rightarrow> fl \<Rightarrow> fl" where "fl_max a b = (if fl_less a b then b else a)"
definition fl_min :: "fl \<Rightarrow> fl \<Rightarrow> fl" where "fl_min a b = (if fl_less b a then b else a)"

section \<open>Codes and control mode\<close>

datatype E_BxtUavControlMode = IDLE | WAYPOINT_MODE | FLYTO_MODE

definition STATE_WAYPOINT_END :: U16 where "STATE_WAYPOINT_END = 8"
definition STATE_FLYTO_TAKE_OFF :: U16 where "STATE_FLYTO_TAKE_OFF = 50"
definition STATE_FLYTO_GO_HOME :: U16 where "STATE_FLYTO_GO_HOME = 52"
definition STATE_FLYTO_POSITION_MOVE :: U16 where "STATE_FLYTO_POSITION_MOVE = 53"
definition STATE_FLYTO_TRUN :: U16 where "STATE_FLYTO_TRUN = 54"
definition STATE_FLYTO_POINT :: U16 where "STATE_FLYTO_POINT = 55"
definition STATE_FLYTO_CONTINUOUS_MOVE :: U16 where "STATE_FLYTO_CONTINUOUS_MOVE = 56"
definition STATE_FLYTO_STOP_MOVE :: U16 where "STATE_FLYTO_STOP_MOVE = 57"
definition STATE_FLYTO_POINT_STOP :: U16 where "STATE_FLYTO_POINT_STOP = 58"
definition STATE_FLYTO_GO_HOME_CANCEL :: U16 where "STATE_FLYTO_GO_HOME_CANCEL = 59"
definition STATE_CAMERA_ZOOM :: U16 where "STATE_CAMERA_ZOOM = 60"
definition STATE_GIMBAL_CONTROL :: U16 where "STATE_GIMBAL_CONTROL = 65"
definition STATE_FLIGHT_FLYTO_WARN_INVALID_PARAM :: U16 where "STATE_FLIGHT_FLYTO_WARN_INVALID_PARAM = 105"
definition STATE_FLYTO_TAKE_OFF_FAILED :: U16 where "STATE_FLYTO_TAKE_OFF_FAILED = 300"
definition STATE_FLYTO_GO_HOME_FAILED :: U16 where "STATE_FLYTO_GO_HOME_FAILED = 302"
definition STATE_FLYTO_POSITION_MOVE_FAILED :: U16 where "STATE_FLYTO_POSITION_MOVE_FAILED = 303"
definition STATE_FLYTO_TRUN_FAILED :: U16 where "STATE_FLYTO_TRUN_FAILED = 304"
definition STATE_FLYTO_POINT_FAILED :: U16 where "STATE_FLYTO_POINT_FAILED = 306"
definition STATE_FLYTO_CONTINUOUS_MOVE_FAILED :: U16 where "STATE_FLYTO_CONTINUOUS_MOVE_FAILED = 307"
definition STATE_FLYTO_STOP_MOVE_FAILED :: U16 where "STATE_FLYTO_STOP_MOVE_FAILED = 308"
definition STATE_FLYTO_POINT_STOP_FAILED :: U16 where "STATE_FLYTO_POINT_STOP_FAILED = 309"
definition STATE_FLYTO_GO_HOME_CANCEL_FAILED :: U16 where "STATE_FLYTO_GO_HOME_CANCEL_FAILED = 310"
definition STATE_CAMERA_ZOOM_FAILED :: U16 where "STATE_CAMERA_ZOOM_FAILED = 350"
definition STATE_GIMBAL_CONTROL_FAILED :: U16 where "STATE_GIMBAL_CONTROL_FAILED = 360"

section \<open>Messages and effects\<close>

record flight_info_msg =
  mi_uavId :: string
  mi_timestamp :: nat
  mi_deviceId :: string
  mi_longitude :: fl
  mi_latitude :: fl
  mi_seaaltitude :: fl
  mi_earthaltitude :: fl
  mi_speed :: fl
  mi_course :: fl
  mi_battery :: int
  mi_endurance :: int
  mi_gimbalpan :: int
  mi_gimbaltilt :: int
  mi_zoom :: fl

datatype pub_message =
    Code_Message U16 string "string option"  \<comment> \<open>code, text, transaction id of an acknowledgement\<close>
  | Result_Message string string  \<comment> \<open>result, transaction id\<close>
  | Uav_Info_Report flight_info_msg
  | Payload_Param fl fl fl  \<comment> \<open>pitch, yaw, zoom factor\<close>
  | Stick_Control U64 int int int int  \<comment> \<open>sequence number, throttle, roll, pitch, yaw\<close>
  | Drc_Mode_Exit string
  | Heart_Beat U32

text \<open>The configured parameters of a take-off.\<close>

record takeoff_message =
  rth_mode :: int
  rth_altitude :: fl
  rc_lost_action :: int
  commander_mode_lost_action :: int
  commander_flight_mode :: int
  commander_flight_height :: fl
  to_max_speed :: fl
  flight_safety_advance_check :: int

datatype service_request =
    Takeoff_To_Point fl fl fl fl takeoff_message string
      \<comment> \<open>target longitude, latitude, height, security height, configuration, flight id\<close>
  | Return_Home
  | Fly_To_Point string fl fl fl U32  \<comment> \<open>id, longitude, latitude, height, speed limit\<close>
  | Fly_To_Point_Update fl fl fl U32
  | Fly_To_Point_Stop
  | Return_Home_Cancel

text \<open>Requests to the payload over the DRC link: payload index first.\<close>

datatype drc_request =
    Gimbal_Reset string nat  \<comment> \<open>reset mode\<close>
  | Screen_Drag string bool fl fl  \<comment> \<open>locked, pitch speed, yaw speed\<close>
  | Camera_Aim string string bool fl fl  \<comment> \<open>camera type, locked, x, y\<close>
  | Frame_Zoom string string bool fl fl fl fl  \<comment> \<open>camera type, locked, x, y, width, height\<close>
  | Focal_Length_Set string string fl  \<comment> \<open>camera type, zoom factor\<close>

datatype effect = Publish pub_message | Sleep_Ms nat | Request service_request | Drc_Request U32 drc_request

text \<open>The globals of \<^verbatim>\<open>pl_utils.cpp\<close>, and the effects in the order they happen.\<close>

record uav_ctl =
  s_transId :: string
  s_uavControlMode :: E_BxtUavControlMode
  s_drcHeartbeatCount :: U32
  s_heartbeatAckReceived :: bool
  s_waitingHeartbeatSeq :: U32
  s_lastDrcControlTime :: U64
  effects :: "effect list"

definition emit :: "effect \<Rightarrow> 'a uav_ctl_scheme \<Rightarrow> 'a uav_ctl_scheme" where
  "emit e s = s\<lparr>effects := effects s @ [e]\<rparr>"

definition updateTransId :: "string \<Rightarrow> 'a uav_ctl_scheme \<Rightarrow> 'a uav_ctl_scheme" where
  "updateTransId t s = s\<lparr>s_transId := t\<rparr>"

definition getUavControlMode :: "'a uav_ctl_scheme \<Rightarrow> E_BxtUavControlMode" where
  "getUavControlMode s = s_uavControlMode s"

definition setUavControlMode :: "E_BxtUavControlMode \<Rightarrow> 'a uav_ctl_scheme \<Rightarrow> bool \<times> 'a uav_ctl_scheme" where
  "setUavControlMode m s = (True, s\<lparr>s_uavControlMode := m\<rparr>)"

abbreviation set_mode :: "E_BxtUavControlMode \<Rightarrow> 'a uav_ctl_scheme \<Rightarrow> 'a uav_ctl_scheme" where
  "set_mode m s \<equiv> snd (setUavControlMode m s)"

section \<open>Reports\<close>

text \<open>\<open>js\<close> says which messages can be converted to JSON.\<close>

definition handleFlightStatus ::
  "(pub_message \<Rightarrow> bool) \<Rightarrow> U16 \<Rightarrow> string \<Rightarrow> bool \<Rightarrow> 'a uav_ctl_scheme \<Rightarrow> bool \<times> 'a uav_ctl_scheme" where
  "handleFlightStatus js code msg isAck s =
     (let m = Code_Message code msg (if isAck then Some (s_transId s) else None) in
      if \<not> js m then (False, s) else (True, emit (Publish m) s))"

definition handleFlightResult ::
  "(pub_message \<Rightarrow> bool) \<Rightarrow> string \<Rightarrow> 'a uav_ctl_scheme \<Rightarrow> bool \<times> 'a uav_ctl_scheme" where
  "handleFlightResult js res s =
     (let m = Result_Message res (s_transId s) in
      if \<not> js m then (False, s) else (True, emit (Publish m) s))"

definition handleUavResult ::
  "(pub_message \<Rightarrow> bool) \<Rightarrow> U16 \<Rightarrow> string \<Rightarrow> int \<Rightarrow> 'a uav_ctl_scheme \<Rightarrow> bool \<times> 'a uav_ctl_scheme" where
  "handleUavResult js code msg res s =
     (let (_, s) = handleFlightStatus js code msg True s;
          (_, s) = handleFlightResult js (if res = 0 then ''0'' else ''1'') s
      in (True, s))"

section \<open>The DRC link\<close>

definition drcModeExit :: "(pub_message \<Rightarrow> bool) \<Rightarrow> string \<Rightarrow> 'a uav_ctl_scheme \<Rightarrow> bool \<times> 'a uav_ctl_scheme" where
  "drcModeExit js dock_sn s =
     (let m = Drc_Mode_Exit dock_sn in
      if \<not> js m then (False, s)
      else (True, (emit (Publish m) s)\<lparr>s_drcHeartbeatCount := 0, s_lastDrcControlTime := 0\<rparr>))"

text \<open>\<open>seq\<close> is the sequence number in the message, \<open>None\<close> when it cannot be parsed.\<close>

definition drcUpHeartbeat :: "U32 option \<Rightarrow> 'a uav_ctl_scheme \<Rightarrow> 'a uav_ctl_scheme" where
  "drcUpHeartbeat seq s = (case seq of
     None \<Rightarrow> s
   | Some n \<Rightarrow> if n = s_waitingHeartbeatSeq s then s\<lparr>s_heartbeatAckReceived := True\<rparr> else s)"

text \<open>A heartbeat waits at most three seconds; \<open>arrivals\<close> are the messages handled in that time.\<close>

definition drcHeartbeat ::
  "(pub_message \<Rightarrow> bool) \<Rightarrow> U32 \<Rightarrow> U32 option list \<Rightarrow> 'a uav_ctl_scheme \<Rightarrow> bool \<times> 'a uav_ctl_scheme" where
  "drcHeartbeat js seq arrivals s =
     (let s = s\<lparr>s_waitingHeartbeatSeq := seq, s_heartbeatAckReceived := False\<rparr>;
          m = Heart_Beat seq in
      if \<not> js m then (False, s)
      else let s = fold drcUpHeartbeat arrivals (emit (Publish m) s)
           in (s_heartbeatAckReceived s, s))"

definition drcDownHeartbeat ::
  "(pub_message \<Rightarrow> bool) \<Rightarrow> U32 option list \<Rightarrow> 'a uav_ctl_scheme \<Rightarrow> bool \<times> 'a uav_ctl_scheme" where
  "drcDownHeartbeat js arrivals s =
     drcHeartbeat js (s_drcHeartbeatCount s) arrivals (s\<lparr>s_drcHeartbeatCount := s_drcHeartbeatCount s + 1\<rparr>)"

definition drcDownHeartbeatWithSeq ::
  "(pub_message \<Rightarrow> bool) \<Rightarrow> U32 \<Rightarrow> U32 option list \<Rightarrow> 'a uav_ctl_scheme \<Rightarrow> bool \<times> 'a uav_ctl_scheme" where
  "drcDownHeartbeatWithSeq js seq arrivals s =
     (let (ok, s) = drcHeartbeat js seq arrivals s in (ok \<and> s_waitingHeartbeatSeq s = seq, s))"

lemma fold_drcUpHeartbeat:
  "s_waitingHeartbeatSeq (fold drcUpHeartbeat xs s) = s_waitingHeartbeatSeq s"
  "s_heartbeatAckReceived (fold drcUpHeartbeat xs s) \<longleftrightarrow>
     s_heartbeatAckReceived s \<or> Some (s_waitingHeartbeatSeq s) \<in> set xs"
  by (induction xs arbitrary: s) (auto simp: drcUpHeartbeat_def split: option.splits)

lemma drcDownHeartbeat_iff:
  "fst (drcDownHeartbeat js xs s) \<longleftrightarrow> js (Heart_Beat (s_drcHeartbeatCount s)) \<and> Some (s_drcHeartbeatCount s) \<in> set xs"
  by (simp add: drcDownHeartbeat_def drcHeartbeat_def Let_def fold_drcUpHeartbeat emit_def)

lemma drcDownHeartbeatWithSeq_iff:
  "fst (drcDownHeartbeatWithSeq js seq xs s) \<longleftrightarrow> js (Heart_Beat seq) \<and> Some seq \<in> set xs"
  by (simp add: drcDownHeartbeatWithSeq_def drcHeartbeat_def Let_def fold_drcUpHeartbeat emit_def)

section \<open>What a report changes\<close>

named_theorems ctl_simps \<open>projections of the operations on the shared state\<close>

lemma emit_simps [ctl_simps]:
  "effects (emit e s) = effects s @ [e]" "s_transId (emit e s) = s_transId s"
  "s_uavControlMode (emit e s) = s_uavControlMode s" "uav_ctl.more (emit e s) = uav_ctl.more s"
  by (simp_all add: emit_def)

lemma set_mode_simps [ctl_simps]:
  "effects (set_mode m s) = effects s" "s_transId (set_mode m s) = s_transId s"
  "s_uavControlMode (set_mode m s) = m" "uav_ctl.more (set_mode m s) = uav_ctl.more s"
  by (simp_all add: setUavControlMode_def)

text \<open>The reports that can be converted, in the order they are published.\<close>

definition uav_reports :: "(pub_message \<Rightarrow> bool) \<Rightarrow> U16 \<Rightarrow> string \<Rightarrow> int \<Rightarrow> string \<Rightarrow> effect list" where
  "uav_reports js code msg res tr =
     map Publish (filter js [Code_Message code msg (Some tr), Result_Message (if res = 0 then ''0'' else ''1'') tr])"

lemma handleUavResult_eq: "handleUavResult js code msg res s =
    (True, s\<lparr>effects := effects s @ uav_reports js code msg res (s_transId s)\<rparr>)"
  by (simp add: handleUavResult_def handleFlightStatus_def handleFlightResult_def emit_def uav_reports_def Let_def)

end
