(* ===== verification/Track.thy ===== *)
theory Track
  imports Pl_Utils
begin

text \<open>
  The telemetry module: \<^verbatim>\<open>cloud/track/trackMain.{h,cpp}\<close>.

  It parses the property messages of the aircraft, keeps the last position, camera and
  mode code for the flight controller, forwards the telemetry, and reports a landing when
  the mode code goes from an airborne to a ground value.  The JSON library is a parameter: a
  record of the accessors the code calls, each \<open>None\<close> where the library throws.  An exception
  leaves the members as they were written up to that point.
\<close>

section \<open>The JSON library\<close>

record 'j json_api =
  j_parse :: "string \<Rightarrow> 'j option"  \<comment> \<open>\<open>None\<close>: not parsed, or with errors\<close>
  j_isMember :: "'j \<Rightarrow> string \<Rightarrow> bool option"
  j_member :: "'j \<Rightarrow> string \<Rightarrow> 'j option"  \<comment> \<open>\<open>operator[]\<close>\<close>
  j_isObject :: "'j \<Rightarrow> bool"
  j_isArray :: "'j \<Rightarrow> bool"
  j_isNull :: "'j \<Rightarrow> bool"
  j_isString :: "'j \<Rightarrow> bool"
  j_elements :: "'j \<Rightarrow> 'j list"
  j_asString :: "'j \<Rightarrow> string option"
  j_asDouble :: "'j \<Rightarrow> fl option"
  j_asInt :: "'j \<Rightarrow> int option"
  j_asUInt :: "'j \<Rightarrow> U32 option"

text \<open>\<open>isMember(k) ? [k].as...() : default\<close>\<close>

definition j_get :: "'j json_api \<Rightarrow> ('j \<Rightarrow> 'a option) \<Rightarrow> 'j \<Rightarrow> string \<Rightarrow> 'a \<Rightarrow> 'a option" where
  "j_get J conv v k d = Option.bind (j_isMember J v k)
     (\<lambda>b. if b then Option.bind (j_member J v k) conv else Some d)"

section \<open>State\<close>

record battery_info =
  capacityPercent :: int
  remainFlightTime :: int

record camera_info =
  payloadIndex :: string
  zoomFactor :: fl

record gimbal_info =
  g_pitch :: fl
  g_yaw :: fl

record flight_info =
  deviceId :: string
  longitude :: fl
  latitude :: fl
  seaaltitude :: fl
  earthaltitude :: fl
  fi_speed :: fl
  course :: fl
  battery :: battery_info
  gimbal :: gimbal_info
  camera :: camera_info

definition FlightInfo :: flight_info where
  "FlightInfo = \<lparr>deviceId = [], longitude = Fin 0, latitude = Fin 0, seaaltitude = Fin 0, earthaltitude = Fin 0,
     fi_speed = Fin 0, course = Fin 0, battery = \<lparr>capacityPercent = 0, remainFlightTime = 0\<rparr>,
     gimbal = \<lparr>g_pitch = Fin 0, g_yaw = Fin 0\<rparr>, camera = \<lparr>payloadIndex = ''99-0-0'', zoomFactor = Fin 0\<rparr>\<rparr>"

record track = uav_ctl +
  m_uavId :: string
  m_flightInfo :: flight_info
  m_uavModeCode :: int
  m_cloudControlActive :: bool
  m_airborne :: bool

record point =
  lon :: fl
  lat :: fl
  alt :: fl
  pt_course :: fl

definition getUavPoint :: "'a track_scheme \<Rightarrow> point" where
  "getUavPoint t = \<lparr>lon = longitude (m_flightInfo t), lat = latitude (m_flightInfo t),
     alt = seaaltitude (m_flightInfo t), pt_course = course (m_flightInfo t)\<rparr>"

definition getPayloadIndex :: "'a track_scheme \<Rightarrow> string" where
  "getPayloadIndex t = payloadIndex (camera (m_flightInfo t))"

definition getZoomFactor :: "'a track_scheme \<Rightarrow> fl" where
  "getZoomFactor t = zoomFactor (camera (m_flightInfo t))"

definition getUavModeCode :: "'a track_scheme \<Rightarrow> int" where
  "getUavModeCode t = m_uavModeCode t"

definition isCloudControlActive :: "'a track_scheme \<Rightarrow> bool" where
  "isCloudControlActive t = m_cloudControlActive t"

definition setUavId :: "string \<Rightarrow> 'a track_scheme \<Rightarrow> 'a track_scheme" where
  "setUavId i t = t\<lparr>m_uavId := i\<rparr>"

definition track_init :: "string \<Rightarrow> 'a track_scheme \<Rightarrow> 'a track_scheme" where
  "track_init aircraft_sn t = setUavId aircraft_sn t"

section \<open>Landing\<close>

definition isGround :: "int \<Rightarrow> bool" where
  "isGround code \<longleftrightarrow> code \<ge> 0 \<and> code \<le> 2"

definition isAirborne :: "int \<Rightarrow> bool" where
  "isAirborne code \<longleftrightarrow> (code \<ge> 3 \<and> code \<le> 12) \<or> (code \<ge> 15 \<and> code \<le> 20)"

definition detectLanding :: "(pub_message \<Rightarrow> bool) \<Rightarrow> int \<Rightarrow> int \<Rightarrow> 'a track_scheme \<Rightarrow> 'a track_scheme" where
  "detectLanding js prevModeCode modeCode t =
     (if isAirborne modeCode then t\<lparr>m_airborne := True\<rparr>
      else if isGround modeCode \<and> m_airborne t
      then snd (handleFlightStatus js STATE_WAYPOINT_END ''flight task finished'' False (t\<lparr>m_airborne := False\<rparr>))
      else t)"

text \<open>The mode code of a message is stored, and looked at when it differs from the one before.\<close>

definition observe_mode :: "(pub_message \<Rightarrow> bool) \<Rightarrow> int \<Rightarrow> 'a track_scheme \<Rightarrow> 'a track_scheme" where
  "observe_mode js modeCode t =
     (let prev = m_uavModeCode t; t = t\<lparr>m_uavModeCode := modeCode\<rparr> in
      if modeCode \<noteq> prev then detectLanding js prev modeCode t else t)"

section \<open>Telemetry messages\<close>

datatype parse_outcome = Threw | Rejected | Parsed

text \<open>The fields taken from \<open>data\<close> one after another, until an access throws.\<close>

definition osd_fields :: "(string \<times> (fl \<Rightarrow> flight_info \<Rightarrow> flight_info)) list" where
  "osd_fields =
    [(''longitude'', \<lambda>x f. f\<lparr>longitude := x\<rparr>), (''latitude'', \<lambda>x f. f\<lparr>latitude := x\<rparr>),
     (''height'', \<lambda>x f. f\<lparr>seaaltitude := x\<rparr>), (''elevation'', \<lambda>x f. f\<lparr>earthaltitude := x\<rparr>),
     (''horizontal_speed'', \<lambda>x f. f\<lparr>fi_speed := x\<rparr>), (''attitude_head'', \<lambda>x f. f\<lparr>course := x\<rparr>)]"

fun read_fields :: "'j json_api \<Rightarrow> 'j \<Rightarrow> (string \<times> (fl \<Rightarrow> flight_info \<Rightarrow> flight_info)) list \<Rightarrow>
    flight_info \<Rightarrow> bool \<times> flight_info" where
  "read_fields J data [] f = (True, f)"
| "read_fields J data ((k, upd) # ks) f = (case j_get J (j_asDouble J) data k (Fin 0) of
     None \<Rightarrow> (False, f)
   | Some x \<Rightarrow> read_fields J data ks (upd x f))"

definition read_battery :: "'j json_api \<Rightarrow> 'j \<Rightarrow> flight_info \<Rightarrow> bool \<times> flight_info" where
  "read_battery J b f =
     (if \<not> j_isObject J b then (True, f)
      else case j_get J (j_asInt J) b ''capacity_percent'' (capacityPercent (battery f)) of
        None \<Rightarrow> (False, f)
      | Some c \<Rightarrow>
          (let f = f\<lparr>battery := (battery f)\<lparr>capacityPercent := c\<rparr>\<rparr> in
           case j_get J (j_asInt J) b ''remain_flight_time'' (remainFlightTime (battery f)) of
             None \<Rightarrow> (False, f)
           | Some r \<Rightarrow> (True, f\<lparr>battery := (battery f)\<lparr>remainFlightTime := r\<rparr>\<rparr>)))"

text \<open>The first element of the array that is an object; \<open>to_float\<close> rounds a \<open>double\<close>.  The flag says
  whether it named the payload.\<close>

definition read_camera :: "'j json_api \<Rightarrow> (fl \<Rightarrow> fl) \<Rightarrow> 'j \<Rightarrow> flight_info \<Rightarrow> (bool \<times> bool) \<times> flight_info" where
  "read_camera J to_float cs f =
     (case (if j_isArray J cs then find (j_isObject J) (j_elements J cs) else None) of
        None \<Rightarrow> ((True, False), f)
      | Some c \<Rightarrow>
          (case j_isMember J c ''payload_index'' of
             None \<Rightarrow> ((False, False), f)
           | Some named \<Rightarrow>
               (case j_get J (j_asString J) c ''payload_index'' (payloadIndex (camera f)) of
                  None \<Rightarrow> ((False, False), f)
                | Some i \<Rightarrow>
                    (let f = f\<lparr>camera := (camera f)\<lparr>payloadIndex := i\<rparr>\<rparr> in
                     case j_get J (\<lambda>v. map_option to_float (j_asDouble J v)) c ''zoom_factor'' (zoomFactor (camera f)) of
                       None \<Rightarrow> ((False, named), f)
                     | Some z \<Rightarrow> ((True, named), f\<lparr>camera := (camera f)\<lparr>zoomFactor := z\<rparr>\<rparr>)))))"

definition read_gimbal :: "'j json_api \<Rightarrow> 'j \<Rightarrow> flight_info \<Rightarrow> bool \<times> flight_info" where
  "read_gimbal J g f =
     (if \<not> j_isObject J g then (True, f)
      else case j_get J (j_asDouble J) g ''gimbal_pitch'' (g_pitch (gimbal f)) of
        None \<Rightarrow> (False, f)
      | Some p \<Rightarrow>
          (let f = f\<lparr>gimbal := (gimbal f)\<lparr>g_pitch := p\<rparr>\<rparr> in
           case j_get J (j_asDouble J) g ''gimbal_yaw'' (g_yaw (gimbal f)) of
             None \<Rightarrow> (False, f)
           | Some y \<Rightarrow> (True, f\<lparr>gimbal := (gimbal f)\<lparr>g_yaw := y\<rparr>\<rparr>)))"

text \<open>The part behind the mode code: battery, camera and the gimbal named by the camera.\<close>

definition read_payload :: "'j json_api \<Rightarrow> (fl \<Rightarrow> fl) \<Rightarrow> 'j \<Rightarrow> flight_info \<Rightarrow> bool \<times> flight_info" where
  "read_payload J to_float data f =
     (case j_member J data ''battery'' of
        None \<Rightarrow> (False, f)
      | Some b \<Rightarrow>
          (let (ok, f) = read_battery J b f in
           if \<not> ok then (False, f)
           else case j_member J data ''cameras'' of
             None \<Rightarrow> (False, f)
           | Some cs \<Rightarrow>
               (let ((ok, cameraFound), f) = read_camera J to_float cs f in
                if \<not> ok then (False, f)
                else if \<not> cameraFound then (True, f)
                else case j_isMember J data (payloadIndex (camera f)) of
                  None \<Rightarrow> (False, f)
                | Some False \<Rightarrow> (True, f)
                | Some True \<Rightarrow>
                    (case j_member J data (payloadIndex (camera f)) of
                       None \<Rightarrow> (False, f)
                     | Some g \<Rightarrow> read_gimbal J g f))))"

definition parse_data ::
  "'j json_api \<Rightarrow> (fl \<Rightarrow> fl) \<Rightarrow> (pub_message \<Rightarrow> bool) \<Rightarrow> 'j \<Rightarrow> 'a track_scheme \<Rightarrow> parse_outcome \<times> 'a track_scheme" where
  "parse_data J to_float js data t =
     (let (ok, f) = read_fields J data osd_fields (m_flightInfo t); t = t\<lparr>m_flightInfo := f\<rparr> in
      if \<not> ok then (Threw, t)
      else case j_get J (j_asInt J) data ''mode_code'' (- 1) of
        None \<Rightarrow> (Threw, t)
      | Some modeCode \<Rightarrow>
          (let t = observe_mode js modeCode t;
               (ok, f) = read_payload J to_float data (m_flightInfo t)
           in (if ok then Parsed else Threw, t\<lparr>m_flightInfo := f\<rparr>)))"

definition parseOsdMsg ::
  "'j json_api \<Rightarrow> (fl \<Rightarrow> fl) \<Rightarrow> (pub_message \<Rightarrow> bool) \<Rightarrow> string \<Rightarrow> 'a track_scheme \<Rightarrow> parse_outcome \<times> 'a track_scheme" where
  "parseOsdMsg J to_float js msg t =
     (let t = t\<lparr>m_flightInfo := FlightInfo\<rparr> in
      case j_parse J msg of
        None \<Rightarrow> (Rejected, t)
      | Some doc \<Rightarrow>
          (case j_get J (j_asString J) doc ''gateway'' (deviceId (m_flightInfo t)) of
             None \<Rightarrow> (Threw, t)
           | Some d \<Rightarrow>
               (let t = t\<lparr>m_flightInfo := (m_flightInfo t)\<lparr>deviceId := d\<rparr>\<rparr> in
                case j_member J doc ''data'' of
                  None \<Rightarrow> (Threw, t)
                | Some data \<Rightarrow>
                    if \<not> j_isObject J data then (Rejected, t) else parse_data J to_float js data t)))"

section \<open>Forwarding\<close>

text \<open>\<open>ms\<close> is the time, \<open>tenths\<close> the value times ten cut to an \<open>int\<close>.\<close>

definition packFlightInfo :: "(pub_message \<Rightarrow> bool) \<Rightarrow> nat \<Rightarrow> (fl \<Rightarrow> int) \<Rightarrow> 'a track_scheme \<Rightarrow> 'a track_scheme" where
  "packFlightInfo js ms tenths t =
     (let f = m_flightInfo t;
          m = Uav_Info_Report \<lparr>mi_uavId = m_uavId t, mi_timestamp = ms, mi_deviceId = deviceId f,
            mi_longitude = longitude f, mi_latitude = latitude f, mi_seaaltitude = seaaltitude f,
            mi_earthaltitude = earthaltitude f, mi_speed = fi_speed f, mi_course = course f,
            mi_battery = capacityPercent (battery f), mi_endurance = remainFlightTime (battery f),
            mi_gimbalpan = tenths (g_pitch (gimbal f)), mi_gimbaltilt = tenths (g_yaw (gimbal f)),
            mi_zoom = zoomFactor (camera f)\<rparr>
      in if js m then emit (Publish m) t else t)"

definition packPayloadParam :: "(pub_message \<Rightarrow> bool) \<Rightarrow> 'a track_scheme \<Rightarrow> 'a track_scheme" where
  "packPayloadParam js t =
     (let f = m_flightInfo t; m = Payload_Param (g_pitch (gimbal f)) (g_yaw (gimbal f)) (zoomFactor (camera f))
      in if js m then emit (Publish m) t else t)"

definition handleOsdMsg :: "'j json_api \<Rightarrow> (fl \<Rightarrow> fl) \<Rightarrow> (pub_message \<Rightarrow> bool) \<Rightarrow> nat \<Rightarrow> (fl \<Rightarrow> int) \<Rightarrow>
    string option \<Rightarrow> 'a track_scheme \<Rightarrow> parse_outcome \<times> 'a track_scheme" where
  "handleOsdMsg J to_float js ms tenths msg t = (case msg of
     None \<Rightarrow> (Rejected, t)
   | Some m \<Rightarrow>
       (let (res, t) = parseOsdMsg J to_float js m t in
        (res, if res = Parsed then packPayloadParam js (packFlightInfo js ms tenths t) else t)))"

section \<open>State messages\<close>

definition parseStateMsg :: "'j json_api \<Rightarrow> string \<Rightarrow> 'a track_scheme \<Rightarrow> parse_outcome \<times> 'a track_scheme" where
  "parseStateMsg J msg t = (case j_parse J msg of
     None \<Rightarrow> (Rejected, t)
   | Some doc \<Rightarrow>
       (case j_member J doc ''data'' of
          None \<Rightarrow> (Threw, t)
        | Some data \<Rightarrow>
            if \<not> j_isObject J data then (Parsed, t)
            else case j_isMember J data ''control_source'' of
              None \<Rightarrow> (Threw, t)
            | Some False \<Rightarrow> (Parsed, t)
            | Some True \<Rightarrow>
                (case Option.bind (j_member J data ''control_source'') (j_asString J) of
                   None \<Rightarrow> (Threw, t)
                 | Some c \<Rightarrow> (Parsed, t\<lparr>m_cloudControlActive := c \<noteq> [] \<and> c \<noteq> ''A'' \<and> c \<noteq> ''B''\<rparr>))))"

definition handleStateMsg :: "'j json_api \<Rightarrow> string option \<Rightarrow> 'a track_scheme \<Rightarrow> parse_outcome \<times> 'a track_scheme" where
  "handleStateMsg J msg t = (case msg of None \<Rightarrow> (Rejected, t) | Some m \<Rightarrow> parseStateMsg J m t)"

datatype track_msg_id = COMMON_REG_IND | TRACK_STATE_DATA_IND | Other_Id

text \<open>The entry of the module; what is thrown is not caught on this thread.\<close>

definition track_entry :: "'j json_api \<Rightarrow> (fl \<Rightarrow> fl) \<Rightarrow> (pub_message \<Rightarrow> bool) \<Rightarrow> nat \<Rightarrow> (fl \<Rightarrow> int) \<Rightarrow>
    track_msg_id \<Rightarrow> string option \<Rightarrow> 'a track_scheme \<Rightarrow> 'a track_scheme option" where
  "track_entry J to_float js ms tenths ulMsgId msg t =
     (let (res, t) = (case ulMsgId of
            COMMON_REG_IND \<Rightarrow> handleOsdMsg J to_float js ms tenths msg t
          | TRACK_STATE_DATA_IND \<Rightarrow> handleStateMsg J msg t
          | Other_Id \<Rightarrow> (Rejected, t))
      in if res = Threw then None else Some t)"


section \<open>Landings, abstractly\<close>

text \<open>Observation \<open>n\<close> of a sequence of mode codes is a landing: it is a ground code, and of the ground and
  airborne codes before it the last one is airborne.\<close>

definition landed :: "int list \<Rightarrow> nat \<Rightarrow> bool" where
  "landed cs n \<longleftrightarrow> isGround (cs ! n) \<and>
     (\<exists>k<n. isAirborne (cs ! k) \<and> (\<forall>m. k < m \<and> m < n \<longrightarrow> \<not> isGround (cs ! m)))"

definition in_the_air :: "int list \<Rightarrow> bool" where
  "in_the_air cs \<longleftrightarrow> (\<exists>k<length cs. isAirborne (cs ! k) \<and> (\<forall>m. k < m \<and> m < length cs \<longrightarrow> \<not> isGround (cs ! m)))"

definition landing_report :: effect where
  "landing_report = Publish (Code_Message STATE_WAYPOINT_END ''flight task finished'' None)"

definition landing_reports :: "int list \<Rightarrow> effect list" where
  "landing_reports cs = concat (map (\<lambda>n. if landed cs n then [landing_report] else []) [0..<length cs])"

lemma ground_not_airborne: "isGround c \<Longrightarrow> \<not> isAirborne c"
  by (auto simp: isGround_def isAirborne_def)

lemma in_the_air_Nil [simp]: "\<not> in_the_air []"
  by (simp add: in_the_air_def)

lemma in_the_air_snoc [simp]: "in_the_air (cs @ [c]) \<longleftrightarrow> isAirborne c \<or> (in_the_air cs \<and> \<not> isGround c)"
proof
  assume "in_the_air (cs @ [c])"
  then obtain k where k: "k < Suc (length cs)" "isAirborne ((cs @ [c]) ! k)"
    "\<forall>m. k < m \<and> m < Suc (length cs) \<longrightarrow> \<not> isGround ((cs @ [c]) ! m)"
    by (auto simp: in_the_air_def)
  show "isAirborne c \<or> (in_the_air cs \<and> \<not> isGround c)"
  proof (cases "k = length cs")
    case False
    with k have "k < length cs" by simp
    moreover from this k(3) have "\<not> isGround c" by (metis lessI nth_append_length)
    moreover have "\<not> isGround (cs ! m)" if "k < m" "m < length cs" for m
      using k(3) that by (auto simp: nth_append dest: spec[of _ m])
    ultimately show ?thesis using k(2) by (auto simp: in_the_air_def nth_append)
  qed (use k in simp)
next
  assume "isAirborne c \<or> (in_the_air cs \<and> \<not> isGround c)"
  then show "in_the_air (cs @ [c])"
  proof
    assume "isAirborne c"
    then show ?thesis unfolding in_the_air_def by (intro exI[of _ "length cs"]) auto
  next
    assume "in_the_air cs \<and> \<not> isGround c"
    then obtain k where "k < length cs" "isAirborne (cs ! k)" "\<forall>m. k < m \<and> m < length cs \<longrightarrow> \<not> isGround (cs ! m)"
      "\<not> isGround c" by (auto simp: in_the_air_def)
    then show ?thesis unfolding in_the_air_def
      by (intro exI[of _ k]) (auto simp: nth_append less_Suc_eq)
  qed
qed

lemma landed_snoc:
  "landed (cs @ [c]) (length cs) \<longleftrightarrow> isGround c \<and> in_the_air cs"
  "n < length cs \<Longrightarrow> landed (cs @ [c]) n \<longleftrightarrow> landed cs n"
  by (auto simp: landed_def in_the_air_def nth_append)

lemma landing_reports_snoc:
  "landing_reports (cs @ [c]) = landing_reports cs @ (if isGround c \<and> in_the_air cs then [landing_report] else [])"
proof -
  have eq: "map (\<lambda>n. if landed (cs @ [c]) n then [landing_report] else []) [0..<length cs] =
      map (\<lambda>n. if landed cs n then [landing_report] else []) [0..<length cs]"
    by (auto simp: landed_snoc)
  show ?thesis by (simp add: landing_reports_def landed_snoc(1) eq)
qed

section \<open>What one message does\<close>

text \<open>The flag and the last mode code of a state that has seen the codes \<open>cs\<close>.\<close>

definition saw_codes :: "int list \<Rightarrow> 'a track_scheme \<Rightarrow> bool" where
  "saw_codes cs t \<longleftrightarrow> m_airborne t = in_the_air cs \<and> (if cs = [] then m_uavModeCode t = - 1 else m_uavModeCode t = last cs)"

lemma saw_codes_last: "saw_codes cs t \<Longrightarrow> isGround (m_uavModeCode t) \<Longrightarrow> \<not> in_the_air cs"
  "saw_codes cs t \<Longrightarrow> isAirborne (m_uavModeCode t) \<Longrightarrow> in_the_air cs"
  by (cases cs rule: rev_cases; auto simp: saw_codes_def isGround_def isAirborne_def)+

lemma observe_mode_saw:
  assumes "saw_codes cs t"
  shows "saw_codes (cs @ [c]) (observe_mode js c t)"
  using assms saw_codes_last[OF assms] ground_not_airborne[of c]
  by (auto simp: observe_mode_def detectLanding_def saw_codes_def Let_def handleFlightStatus_def emit_def)

lemma observe_mode_effects:
  assumes "saw_codes cs t" "\<forall>x y z. js (Code_Message x y z)"
  shows "effects (observe_mode js c t) = effects t @ (if isGround c \<and> in_the_air cs then [landing_report] else [])"
  using assms saw_codes_last[OF assms(1)] ground_not_airborne[of c]
  by (auto simp: observe_mode_def detectLanding_def saw_codes_def Let_def handleFlightStatus_def emit_def landing_report_def)

definition osd_mode_code :: "'j json_api \<Rightarrow> string \<Rightarrow> int option" where
  "osd_mode_code J msg = Option.bind (j_parse J msg) (\<lambda>doc. Option.bind (j_member J doc ''data'')
     (\<lambda>data. if j_isObject J data then j_get J (j_asInt J) data ''mode_code'' (- 1) else None))"

lemma observe_mode_frame [simp]:
  "m_uavModeCode (observe_mode js c (t\<lparr>m_flightInfo := f\<rparr>)) = m_uavModeCode (observe_mode js c t)"
  "m_airborne (observe_mode js c (t\<lparr>m_flightInfo := f\<rparr>)) = m_airborne (observe_mode js c t)"
  "effects (observe_mode js c (t\<lparr>m_flightInfo := f\<rparr>)) = effects (observe_mode js c t)"
  by (simp_all add: observe_mode_def detectLanding_def Let_def handleFlightStatus_def emit_def)

lemma parseOsdMsg_Parsed:
  assumes "parseOsdMsg J to_float js msg t = (Parsed, t')"
  obtains c where "osd_mode_code J msg = Some c" "m_uavModeCode t' = m_uavModeCode (observe_mode js c t)"
    "m_airborne t' = m_airborne (observe_mode js c t)" "effects t' = effects (observe_mode js c t)"
  using assms
  by (auto simp: parseOsdMsg_def parse_data_def osd_mode_code_def Let_def split: option.splits if_splits prod.splits)

lemma parseOsdMsg_Rejected:
  assumes "parseOsdMsg J to_float js msg t = (Rejected, t')"
  shows "osd_mode_code J msg = None" "\<exists>f. t' = t\<lparr>m_flightInfo := f\<rparr> \<and> f\<lparr>deviceId := []\<rparr> = FlightInfo"
  using assms
  by (auto simp: parseOsdMsg_def parse_data_def osd_mode_code_def FlightInfo_def Let_def split: option.splits if_splits prod.splits)

text \<open>The telemetry messages that follow a parsed message are no status reports.\<close>

fun is_status :: "effect \<Rightarrow> bool" where
  "is_status (Publish (Code_Message c m tr)) \<longleftrightarrow> True"
| "is_status _ \<longleftrightarrow> False"

lemma pack_frame [simp]:
  "m_uavModeCode (packPayloadParam js (packFlightInfo js ms tenths t)) = m_uavModeCode t"
  "m_airborne (packPayloadParam js (packFlightInfo js ms tenths t)) = m_airborne t"
  "filter is_status (effects (packPayloadParam js (packFlightInfo js ms tenths t))) = filter is_status (effects t)"
  by (simp_all add: packPayloadParam_def packFlightInfo_def Let_def emit_def)

text \<open>A run of the module over telemetry messages, each with its time; \<open>None\<close> when one throws.\<close>

fun osd_run :: "'j json_api \<Rightarrow> (fl \<Rightarrow> fl) \<Rightarrow> (pub_message \<Rightarrow> bool) \<Rightarrow> (fl \<Rightarrow> int) \<Rightarrow>
    (nat \<times> string) list \<Rightarrow> 'a track_scheme \<Rightarrow> 'a track_scheme option" where
  "osd_run J to_float js tenths [] t = Some t"
| "osd_run J to_float js tenths ((ms, m) # ms') t =
     Option.bind (track_entry J to_float js ms tenths COMMON_REG_IND (Some m) t) (osd_run J to_float js tenths ms')"

lemma track_entry_osd:
  assumes "track_entry J to_float js ms tenths COMMON_REG_IND (Some m) t = Some t'" "saw_codes cs t"
    "\<forall>x y z. js (Code_Message x y z)"
  defines "cs' \<equiv> cs @ List.map_filter (osd_mode_code J) [m]"
  shows "saw_codes cs' t'"
    "filter is_status (effects t') = filter is_status (effects t) @ drop (length (landing_reports cs)) (landing_reports cs')"
proof -
  obtain res t1 where p: "parseOsdMsg J to_float js m t = (res, t1)" by fastforce
  have "res \<noteq> Threw" using assms(1) p by (auto simp: track_entry_def handleOsdMsg_def)
  then have "saw_codes cs' t' \<and> filter is_status (effects t') =
      filter is_status (effects t) @ drop (length (landing_reports cs)) (landing_reports cs')"
  proof (cases res)
    case Rejected
    then have "t' = t1" using assms(1) p by (simp add: track_entry_def handleOsdMsg_def)
    with parseOsdMsg_Rejected[OF p[unfolded Rejected]] assms(2) show ?thesis
      by (auto simp: cs'_def List.map_filter_def saw_codes_def)
  next
    case Parsed
    then have t': "t' = packPayloadParam js (packFlightInfo js ms tenths t1)"
      using assms(1) p by (simp add: track_entry_def handleOsdMsg_def)
    obtain c where c: "osd_mode_code J m = Some c" "m_uavModeCode t1 = m_uavModeCode (observe_mode js c t)"
      "m_airborne t1 = m_airborne (observe_mode js c t)" "effects t1 = effects (observe_mode js c t)"
      using parseOsdMsg_Parsed[OF p[unfolded Parsed]] by blast
    have cs': "cs' = cs @ [c]" by (simp add: cs'_def List.map_filter_def c(1))
    have "saw_codes cs' t'" using observe_mode_saw[OF assms(2), of c js] c(2,3) by (simp add: t' cs' saw_codes_def)
    moreover have "filter is_status (effects t') = filter is_status (effects t) @
        drop (length (landing_reports cs)) (landing_reports cs')"
      by (simp add: t' c(4) observe_mode_effects[OF assms(2,3)] cs' landing_reports_snoc landing_report_def)
    ultimately show ?thesis by simp
  qed simp
  then show "saw_codes cs' t'" "filter is_status (effects t') = filter is_status (effects t) @
      drop (length (landing_reports cs)) (landing_reports cs')" by simp_all
qed


lemma landing_reports_prefix:
  "landing_reports (cs @ ds) = landing_reports cs @ drop (length (landing_reports cs)) (landing_reports (cs @ ds))"
proof -
  have "\<exists>xs. landing_reports (cs @ ds) = landing_reports cs @ xs"
  proof (induction ds rule: rev_induct)
    case (snoc d ds)
    then show ?case using landing_reports_snoc[of "cs @ ds" d] by (auto simp: append_assoc)
  qed simp
  then show ?thesis by auto
qed

lemma osd_run_landings:
  assumes "osd_run J to_float js tenths ms t = Some t'" "saw_codes cs t" "\<forall>x y z. js (Code_Message x y z)"
    "filter is_status (effects t) = landing_reports cs"
  shows "filter is_status (effects t') = landing_reports (cs @ List.map_filter (osd_mode_code J) (map snd ms))"
  using assms
proof (induction ms arbitrary: t cs)
  case (Cons m ms)
  obtain ti msg where m: "m = (ti, msg)" by fastforce
  with Cons.prems(1) obtain t1 where t1: "track_entry J to_float js ti tenths COMMON_REG_IND (Some msg) t = Some t1"
    "osd_run J to_float js tenths ms t1 = Some t'" by (auto split: bind_splits)
  let ?cs = "cs @ List.map_filter (osd_mode_code J) [msg]"
  note e = track_entry_osd[OF t1(1) Cons.prems(2,3)]
  have "filter is_status (effects t1) = landing_reports ?cs"
    using e(2) Cons.prems(4) landing_reports_prefix[of cs "List.map_filter (osd_mode_code J) [msg]"] by simp
  from Cons.IH[OF t1(2) e(1) Cons.prems(3) this] show ?case
    by (simp add: m List.map_filter_def split: option.splits)
qed simp

section \<open>Properties\<close>

definition track_start :: "track" where
  "track_start = \<lparr>s_transId = [], s_uavControlMode = IDLE, s_drcHeartbeatCount = 0, s_heartbeatAckReceived = False,
     s_waitingHeartbeatSeq = 0, s_lastDrcControlTime = 0, effects = [], m_uavId = [], m_flightInfo = FlightInfo,
     m_uavModeCode = - 1, m_cloudControlActive = False, m_airborne = False\<rparr>"

text \<open>C12. The end of a flight is reported exactly at the landings: for any sequence of telemetry messages
  that the module survives, the status reports it publishes are one for each message whose mode
  code is a ground code while the last ground or airborne code before it was airborne, in that
  order; codes that are neither, messages that cannot be parsed and repeated codes change nothing.\<close>

theorem landing_reported_once:
  assumes "osd_run J to_float js tenths ms track_start = Some t'" "\<forall>x y z. js (Code_Message x y z)"
  shows "filter is_status (effects t') = landing_reports (List.map_filter (osd_mode_code J) (map snd ms))"
  using osd_run_landings[OF assms(1) _ assms(2), of "[]"]
  by (simp add: saw_codes_def track_start_def landing_reports_def)

text \<open>A toy library for the examples: a document is a list of named numbers, and the message is the
  mode code written in unary.\<close>

datatype toy = Toy_Doc nat | Toy_Data nat | Toy_Num nat

definition toy_json :: "toy json_api" where
  "toy_json = \<lparr>j_parse = (\<lambda>m. if m = ''?'' then None else Some (Toy_Doc (length m))),
     j_isMember = (\<lambda>v k. case v of Toy_Data n \<Rightarrow> Some (k = ''mode_code'') | _ \<Rightarrow> Some False),
     j_member = (\<lambda>v k. case v of Toy_Doc n \<Rightarrow> Some (Toy_Data n) | Toy_Data n \<Rightarrow> Some (Toy_Num n) | Toy_Num n \<Rightarrow> None),
     j_isObject = (\<lambda>v. case v of Toy_Data n \<Rightarrow> True | _ \<Rightarrow> False), j_isArray = (\<lambda>v. False), j_isNull = (\<lambda>v. False), j_isString = (\<lambda>v. False),
     j_elements = (\<lambda>v. []), j_asString = (\<lambda>v. None), j_asDouble = (\<lambda>v. Some (Fin 0)),
     j_asInt = (\<lambda>v. case v of Toy_Num n \<Rightarrow> Some (int n) | _ \<Rightarrow> Some 0), j_asUInt = (\<lambda>v. Some 0)\<rparr>"

definition toy_flight :: "(nat \<times> string) list" where
  "toy_flight = [(0, []), (1, ''aaaa''), (2, ''?''), (3, ''aaaaaaaaaaaaaa''), (4, []), (5, [])]"

lemma landing_reported_once_witness:
  "\<exists>t'. osd_run toy_json id (\<lambda>_. True) (\<lambda>_. 0) toy_flight track_start = Some t' \<and>
     filter is_status (effects t') = landing_reports [0, 4, 14, 0, 0]"
proof -
  obtain t' where "osd_run toy_json id (\<lambda>_. True) (\<lambda>_. 0) toy_flight track_start = Some t'"
    by (simp add: toy_flight_def toy_json_def track_entry_def handleOsdMsg_def parseOsdMsg_def parse_data_def j_get_def
        osd_fields_def read_payload_def read_battery_def read_camera_def Let_def eval_nat_numeral)
  with landing_reported_once[OF this] show ?thesis
    by (simp add: toy_flight_def List.map_filter_simps osd_mode_code_def toy_json_def j_get_def)
qed

text \<open>C37. A telemetry message that is not accepted is not forwarded and leaves the mode code and the
  landing state alone, but the stored position is gone: until the next good message the flight
  controller is told the position (0, 0) and the default camera.\<close>

theorem rejected_message_resets_position:
  assumes "parseOsdMsg J to_float js msg t = (Rejected, t')"
  shows "handleOsdMsg J to_float js ms tenths (Some msg) t = (Rejected, t') \<and> effects t' = effects t \<and>
    m_uavModeCode t' = m_uavModeCode t \<and> m_airborne t' = m_airborne t \<and>
    getUavPoint t' = \<lparr>lon = Fin 0, lat = Fin 0, alt = Fin 0, pt_course = Fin 0\<rparr> \<and>
    getPayloadIndex t' = ''99-0-0'' \<and> getZoomFactor t' = Fin 0"
proof -
  obtain f where f: "t' = t\<lparr>m_flightInfo := f\<rparr>" "f\<lparr>deviceId := []\<rparr> = FlightInfo"
    using parseOsdMsg_Rejected(2)[OF assms] by blast
  from f(2) have "longitude f = Fin 0" "latitude f = Fin 0" "seaaltitude f = Fin 0" "course f = Fin 0"
    "camera f = \<lparr>payloadIndex = ''99-0-0'', zoomFactor = Fin 0\<rparr>"
    by (cases f; simp add: FlightInfo_def)+
  then show ?thesis
    using assms f(1) by (simp add: handleOsdMsg_def getUavPoint_def getPayloadIndex_def getZoomFactor_def)
qed

lemma rejected_message_resets_position_witness:
  "getUavPoint (snd (handleOsdMsg toy_json id (\<lambda>_. True) 0 (\<lambda>_. 0) (Some ''?'')
     (track_start\<lparr>m_flightInfo := FlightInfo\<lparr>longitude := Fin 113, latitude := Fin 22\<rparr>\<rparr>))) =
   \<lparr>lon = Fin 0, lat = Fin 0, alt = Fin 0, pt_course = Fin 0\<rparr>"
proof -
  obtain t' where "parseOsdMsg toy_json id (\<lambda>_. True) ''?''
     (track_start\<lparr>m_flightInfo := FlightInfo\<lparr>longitude := Fin 113, latitude := Fin 22\<rparr>\<rparr>) = (Rejected, t')"
    by (simp add: parseOsdMsg_def toy_json_def)
  from rejected_message_resets_position[OF this, of 0 "\<lambda>_. 0"] show ?thesis by simp
qed

end
