(* ===== verification/Text_Input.thy ===== *)
theory Text_Input
  imports Pilot_Prelude "HOL-Library.Monad_Syntax" Complex_Main
begin

text \<open>
  What the program uses of the C and C++ libraries to read text: lines of an \<^verbatim>\<open>ifstream\<close>, \<^verbatim>\<open>strstr\<close> and
  \<^verbatim>\<open>sscanf\<close> with the conversions \<^verbatim>\<open>%lf\<close>, \<^verbatim>\<open>%d\<close> and \<^verbatim>\<open>%s\<close>.  A \<^verbatim>\<open>%lf\<close> reads a decimal number, which \<open>r\<close> rounds;
  hexadecimal numbers, infinities and NaN are not modelled.
\<close>

section \<open>Characters and numbers\<close>

definition is_blank :: "char \<Rightarrow> bool" where
  "is_blank c \<longleftrightarrow> c \<in> {CHR '' '', CHR 0x09, CHR 0x0A, CHR 0x0B, CHR 0x0C, CHR 0x0D}"

definition is_digit :: "char \<Rightarrow> bool" where
  "is_digit c \<longleftrightarrow> 48 \<le> (of_char c :: nat) \<and> (of_char c :: nat) \<le> 57"

definition digit_value :: "char \<Rightarrow> int" where
  "digit_value c = int (of_char c) - 48"

definition digits_value :: "string \<Rightarrow> int" where
  "digits_value ds = fold (\<lambda>c a. 10 * a + digit_value c) ds 0"

text \<open>A sign, and the digits at the front; each with the rest.\<close>

definition read_sign :: "string \<Rightarrow> int \<times> string" where
  "read_sign s = (case s of
     c # cs \<Rightarrow> if c = CHR ''-'' then (- 1, cs) else if c = CHR ''+'' then (1, cs) else (1, s)
   | [] \<Rightarrow> (1, []))"

definition read_digits :: "string \<Rightarrow> string \<times> string" where
  "read_digits s = (takeWhile is_digit s, dropWhile is_digit s)"

section \<open>Lines of a stream\<close>

record ifstream =
  unread :: string
  eofbit :: bool
  failbit :: bool

definition newline :: char where "newline = CHR 0x0A"

text \<open>
  The characters \<^verbatim>\<open>istream::getline\<close> stores into a buffer with room for \<open>k\<close> of them and the terminator, and
  the stream behind them.
\<close>

fun getline_chars :: "nat \<Rightarrow> string \<Rightarrow> string \<times> ifstream" where
  "getline_chars k [] = ([], \<lparr>unread = [], eofbit = True, failbit = False\<rparr>)"
| "getline_chars k (c # cs) =
     (if c = newline then ([], \<lparr>unread = cs, eofbit = False, failbit = False\<rparr>)
      else if k = 0 then ([], \<lparr>unread = c # cs, eofbit = False, failbit = True\<rparr>)
      else let (buf, st) = getline_chars (k - 1) cs in (c # buf, st))"

text \<open>A stream that is not good, or has no character left, fails.\<close>

definition getline :: "nat \<Rightarrow> ifstream \<Rightarrow> string \<times> ifstream" where
  "getline n st =
     (if eofbit st \<or> failbit st then ([], st\<lparr>failbit := True\<rparr>)
      else let (buf, st') = getline_chars (n - 1) (unread st)
        in (buf, if unread st = [] then st'\<lparr>failbit := True\<rparr> else st'))"

definition ifstream_of :: "string \<Rightarrow> ifstream" where
  "ifstream_of content = \<lparr>unread = content, eofbit = False, failbit = False\<rparr>"

text \<open>The buffers that \<^verbatim>\<open>while(!eof()) getline(buf, n)\<close> sees; \<open>None\<close> when the loop never ends.\<close>

partial_function (option) read_lines :: "nat \<Rightarrow> ifstream \<Rightarrow> string list option" where
  "read_lines n st =
     (if eofbit st then Some []
      else do { ls \<leftarrow> read_lines n (snd (getline n st)); Some (fst (getline n st) # ls) })"

declare read_lines.simps [code]

fun split_lines :: "string \<Rightarrow> string list" where
  "split_lines [] = [[]]"
| "split_lines (c # cs) = (if c = newline then [] # split_lines cs else
     (case split_lines cs of l # ls \<Rightarrow> (c # l) # ls | [] \<Rightarrow> [[c]]))"

section \<open>Searching and scanning\<close>

fun strstr :: "string \<Rightarrow> string \<Rightarrow> string option" where
  "strstr [] t = (if t = [] then Some [] else None)"
| "strstr (c # s) t = (if take (length t) (c # s) = t then Some (c # s) else strstr s t)"

definition has :: "string \<Rightarrow> string \<Rightarrow> bool" where "has s t \<longleftrightarrow> strstr s t \<noteq> None"

datatype directive = Blanks | Lit char | Conv_lf | Conv_d | Conv_s

fun directives :: "string \<Rightarrow> directive list" where
  "directives [] = []"
| "directives (c # f) =
     (if c = CHR ''%'' then
        (case f of
           x # y # f' \<Rightarrow> if x = CHR ''l'' \<and> y = CHR ''f'' then Conv_lf # directives f'
                        else if x = CHR ''d'' then Conv_d # directives (y # f')
                        else if x = CHR ''s'' then Conv_s # directives (y # f') else []
         | [x] \<Rightarrow> if x = CHR ''d'' then [Conv_d] else if x = CHR ''s'' then [Conv_s] else []
         | [] \<Rightarrow> [])
      else if is_blank c then Blanks # directives f else Lit c # directives f)"

datatype scanned = Num rat | Integer int | Text string

text \<open>The exponent of a decimal number; \<open>None\<close> where the digits are missing.\<close>

definition read_exponent :: "string \<Rightarrow> (int \<times> string) option" where
  "read_exponent s = (case s of
     c # cs \<Rightarrow>
       if c = CHR ''e'' \<or> c = CHR ''E'' then
         (let (sg, s1) = read_sign cs; (ds, s2) = read_digits s1 in if ds = [] then None else Some (sg * digits_value ds, s2))
       else Some (0, s)
   | [] \<Rightarrow> Some (0, []))"

definition power_ten :: "int \<Rightarrow> rat" where
  "power_ten e = (if e \<ge> 0 then 10 ^ nat e else 1 / 10 ^ nat (- e))"

definition read_decimal :: "string \<Rightarrow> (rat \<times> string) option" where
  "read_decimal s =
     (let (sg, s1) = read_sign s;
          (whole, s2) = read_digits s1;
          (frac, s3) = (case s2 of c # cs \<Rightarrow> if c = CHR ''.'' then read_digits cs else ([], s2) | [] \<Rightarrow> ([], [])) in
      if whole = [] \<and> frac = [] then None
      else map_option (\<lambda>(e, s4).
        (of_int (sg * digits_value (whole @ frac)) * power_ten (e - int (length frac)), s4)) (read_exponent s3))"

text \<open>The conversion \<^verbatim>\<open>%d\<close> goes through a \<^verbatim>\<open>long\<close>.\<close>

definition S32_of_long :: "int \<Rightarrow> int" where
  "S32_of_long n = sint (word_of_int (max (- (2 ^ 63)) (min (2 ^ 63 - 1) n)) :: 32 word)"

definition read_int :: "string \<Rightarrow> (int \<times> string) option" where
  "read_int s =
     (let (sg, s1) = read_sign s; (ds, s2) = read_digits s1 in
      if ds = [] then None else Some (S32_of_long (sg * digits_value ds), s2))"

fun scan :: "(rat \<Rightarrow> rat) \<Rightarrow> directive list \<Rightarrow> string \<Rightarrow> scanned list" where
  "scan r [] s = []"
| "scan r (Blanks # f) s = scan r f (dropWhile is_blank s)"
| "scan r (Lit c # f) s = (case s of c' # s' \<Rightarrow> if c' = c then scan r f s' else [] | [] \<Rightarrow> [])"
| "scan r (Conv_lf # f) s =
     (case read_decimal (dropWhile is_blank s) of Some (v, s') \<Rightarrow> Num (r v) # scan r f s' | None \<Rightarrow> [])"
| "scan r (Conv_d # f) s =
     (case read_int (dropWhile is_blank s) of Some (v, s') \<Rightarrow> Integer v # scan r f s' | None \<Rightarrow> [])"
| "scan r (Conv_s # f) s =
     (let w = takeWhile (\<lambda>c. \<not> is_blank c) (dropWhile is_blank s) in
      if w = [] then [] else Text w # scan r f (dropWhile (\<lambda>c. \<not> is_blank c) (dropWhile is_blank s)))"

text \<open>The values stored by \<^verbatim>\<open>sscanf\<close>; their number is its result, where the code asks for it to be all of them.\<close>

definition sscanf :: "(rat \<Rightarrow> rat) \<Rightarrow> string \<Rightarrow> string \<Rightarrow> scanned list" where
  "sscanf r s fmt = scan r (directives fmt) s"

section \<open>The loop over the lines\<close>

abbreviation "first_line s \<equiv> takeWhile (\<lambda>c. c \<noteq> newline) s"
abbreviation "behind_line s \<equiv> dropWhile (\<lambda>c. c \<noteq> newline) s"

lemma split_lines_unfold: "split_lines s = first_line s # (case behind_line s of [] \<Rightarrow> [] | _ # t \<Rightarrow> split_lines t)"
  by (induction s) auto

lemma getline_chars_line:
  "length (first_line s) \<le> k \<Longrightarrow> getline_chars k s =
    (first_line s, case behind_line s of [] \<Rightarrow> \<lparr>unread = [], eofbit = True, failbit = False\<rparr>
                   | _ # t \<Rightarrow> \<lparr>unread = t, eofbit = False, failbit = False\<rparr>)"
  by (induction k s rule: getline_chars.induct) (auto split: if_splits)

lemma getline_chars_long:
  "k < length (first_line s) \<Longrightarrow> \<exists>buf t. getline_chars k s = (buf, \<lparr>unread = t, eofbit = False, failbit = True\<rparr>)"
  by (induction k s rule: getline_chars.induct) (auto split: if_splits prod.splits)

lemma read_lines_eof: "eofbit st \<Longrightarrow> read_lines n st = Some []"
  by (subst read_lines.simps) simp

text \<open>A stream that has failed before its end stays so.\<close>

lemma read_lines_failed:
  assumes "read_lines n st = Some ls"
  shows "failbit st \<longrightarrow> eofbit st"
proof (rule read_lines.raw_induct[OF _ assms, of "\<lambda>n st ls. failbit st \<longrightarrow> eofbit st"], goal_cases)
  case (1 loop n st ls)
  show ?case
  proof (rule ccontr)
    assume "\<not> (failbit st \<longrightarrow> eofbit st)"
    then have f: "failbit st" "\<not> eofbit st" by simp_all
    then obtain ls' where "loop n (st\<lparr>failbit := True\<rparr>) = Some ls'"
      using 1(2) by (auto simp: getline_def split: bind_splits)
    from 1(1)[OF this] f show False by simp
  qed
qed

lemma read_lines_none: "\<lbrakk>failbit st; \<not> eofbit st\<rbrakk> \<Longrightarrow> read_lines n st = None"
  using read_lines_failed[of n st] by (cases "read_lines n st") auto

lemma read_lines_split:
  assumes "0 < n"
  shows "read_lines n (ifstream_of s) = (if \<forall>l \<in> set (split_lines s). length l < n then Some (split_lines s) else None)"
proof (induction s rule: length_induct)
  case (1 s)
  have step: "read_lines n (ifstream_of s) =
      do { ls \<leftarrow> read_lines n (snd (getline n (ifstream_of s))); Some (fst (getline n (ifstream_of s)) # ls) }"
    by (subst read_lines.simps) (simp add: ifstream_of_def)
  show ?case
  proof (cases "length (first_line s) < n")
    case False
    then have "n - 1 < length (first_line s)" using assms by simp
    then obtain buf t where "getline_chars (n - 1) s = (buf, \<lparr>unread = t, eofbit = False, failbit = True\<rparr>)"
      using getline_chars_long by blast
    then have "\<not> eofbit (snd (getline n (ifstream_of s)))" "failbit (snd (getline n (ifstream_of s)))"
      by (simp_all add: getline_def ifstream_of_def)
    then have "read_lines n (ifstream_of s) = None" using step read_lines_none by simp
    moreover have "first_line s \<in> set (split_lines s)" by (subst split_lines_unfold) simp
    ultimately show ?thesis using False by auto
  next
    case True
    then have g: "getline_chars (n - 1) s = (first_line s, case behind_line s of [] \<Rightarrow> \<lparr>unread = [], eofbit = True, failbit = False\<rparr>
                   | _ # t \<Rightarrow> ifstream_of t)"
      using getline_chars_line[of s "n - 1"] assms unfolding ifstream_of_def by simp
    show ?thesis
    proof (cases "behind_line s")
      case Nil
      then have "fst (getline n (ifstream_of s)) = first_line s" "eofbit (snd (getline n (ifstream_of s)))"
        using g unfolding getline_def ifstream_of_def Nil by (simp_all del: dropWhile_eq_Nil_conv)
      then show ?thesis using step read_lines_eof True split_lines_unfold[of s] Nil by simp
    next
      case (Cons c t)
      then have e: "getline n (ifstream_of s) = (first_line s, ifstream_of t)"
        using g by (auto simp: getline_def ifstream_of_def)
      have "length t < length s" using arg_cong[OF Cons, of length] length_dropWhile_le[of "\<lambda>c. c \<noteq> newline" s] by simp
      then have IH: "read_lines n (ifstream_of t) = (if \<forall>l \<in> set (split_lines t). length l < n then Some (split_lines t) else None)"
        using 1 by blast
      have sp: "split_lines s = first_line s # split_lines t" using split_lines_unfold[of s] Cons by simp
      show ?thesis using True by (simp add: step e IH sp)
    qed
  qed
qed

end
