(* ===== verification/Flyto_Speed.thy ===== *)
theory Flyto_Speed
  imports Pl_Utils Text_Input "HOL-Library.Signed_Division"
begin

text \<open>
  Speeds and stick offsets: \<^verbatim>\<open>cloud/flyto/moveSpeedTable.h\<close> and the tables and small functions at the top of
  \<^verbatim>\<open>cloud/flyto/flytoController.cpp\<close>, with \<^verbatim>\<open>std::stoi\<close> of the C++ library.
  Rounding of a \<open>float\<close> operation is the parameter \<open>rnd\<close>.
\<close>

section \<open>Tables\<close>

type_synonym speed_table = "(rat \<times> int) list"

definition kHorizontalSpeedMap :: speed_table where
  "kHorizontalSpeedMap = [(1,165),(2,220),(3,260),(4,295),(5,330),(6,370),(7,410),(8,450),
     (9,490),(10,530),(11,570),(12,600),(13,625),(14,645),(15,660)]"

definition kAscendSpeedMap :: speed_table where
  "kAscendSpeedMap = [(1,272),(2,378),(3,463),(4,536),(5,603),(6,660)]"

definition kDescendSpeedMap :: speed_table where
  "kDescendSpeedMap = [(1,272),(2,378),(3,463),(4,536),(5,603),(6,660)]"

definition kHorizontalMaxSpeed :: rat where "kHorizontalMaxSpeed = 15"
definition kAscendMaxSpeed :: rat where "kAscendMaxSpeed = 6"
definition kDescendMaxSpeed :: rat where "kDescendMaxSpeed = 6"

fun speed_scan :: "fl \<Rightarrow> speed_table \<Rightarrow> int option" where
  "speed_scan speed [] = None"
| "speed_scan speed ((v, off) # t) = (if fl_le speed (Fin v) then Some off else speed_scan speed t)"

definition speedToOffset :: "fl \<Rightarrow> speed_table \<Rightarrow> int" where
  "speedToOffset speed t =
     (if t = [] then 0 else case speed_scan speed t of Some off \<Rightarrow> off | None \<Rightarrow> snd (last t))"

text \<open>The tables are sorted in both columns; on such a table the offset is that of the least speed in
  the table that is not below the request, and it grows with the speed.\<close>

definition table_sorted :: "speed_table \<Rightarrow> bool" where
  "table_sorted t \<longleftrightarrow> sorted_wrt (\<lambda>a b. fst a < fst b \<and> snd a \<le> snd b) t"

lemma tables_sorted:
  "table_sorted kHorizontalSpeedMap" "table_sorted kAscendSpeedMap" "table_sorted kDescendSpeedMap"
  by (simp_all add: table_sorted_def kHorizontalSpeedMap_def kAscendSpeedMap_def kDescendSpeedMap_def)

lemma speed_scan_Some: "speed_scan v t = Some off \<Longrightarrow> off \<in> snd ` set t"
  by (induction t rule: speed_scan.induct) (auto split: if_splits)

lemma speedToOffset_mem: "t \<noteq> [] \<Longrightarrow> speedToOffset v t \<in> snd ` set t"
  by (auto simp: speedToOffset_def dest: speed_scan_Some split: option.splits)

lemma speedToOffset_least:
  assumes "table_sorted t" "(v, off) \<in> set t" "fl_le speed (Fin v)"
    "\<And>w o'. (w, o') \<in> set t \<Longrightarrow> fl_le speed (Fin w) \<Longrightarrow> v \<le> w"
  shows "speedToOffset speed t = off"
proof -
  have "speed_scan speed t = Some off"
    using assms
  proof (induction t rule: speed_scan.induct)
    case (2 speed w o' t)
    show ?case
    proof (cases "fl_le speed (Fin w)")
      case True
      with 2(5)[of w o'] 2(2,3) have "v = w \<and> off = o'" by (auto simp: table_sorted_def)
      with True show ?thesis by simp
    next
      case False
      with 2(3,4) have "(v, off) \<in> set t" by auto
      with 2 False show ?thesis by (auto simp: table_sorted_def)
    qed
  qed simp
  with assms(2) show ?thesis by (auto simp: speedToOffset_def)
qed

lemma fl_le_trans: "fl_le x y \<Longrightarrow> fl_le y z \<Longrightarrow> fl_le x z"
  by (cases x; cases y; cases z) auto

lemma speedToOffset_mono:
  assumes "table_sorted t" "fl_le a b"
  shows "speedToOffset a t \<le> speedToOffset b t"
  using assms(1)
proof (induction t)
  case (Cons p t)
  obtain v off where p: "p = (v, off)" by fastforce
  have above: "off \<le> snd q" if "q \<in> set (p # t)" for q
    using Cons.prems that by (auto simp: table_sorted_def p)
  have IH: "speedToOffset a t \<le> speedToOffset b t" using Cons by (simp add: table_sorted_def)
  show ?case
  proof (cases "fl_le a (Fin v)")
    case True
    then have "speedToOffset a (p # t) = off" by (simp add: speedToOffset_def p)
    moreover obtain q where "q \<in> set (p # t)" "speedToOffset b (p # t) = snd q"
      using speedToOffset_mem[of "p # t" b] by (metis imageE list.discI)
    ultimately show ?thesis using above[of q] by simp
  next
    case False
    with assms(2) have "\<not> fl_le b (Fin v)" by (meson fl_le_trans)
    with False IH show ?thesis
      by (cases t) (auto simp: speedToOffset_def p split: option.splits)
  qed
qed (simp add: speedToOffset_def)

section \<open>Yaw speed for a zoom factor\<close>

definition kZoomYawSpeedTable :: "(rat \<times> rat) list" where
  "kZoomYawSpeedTable = [(1, 725/10), (2, 367/10), (3, 284/10), (4, 228/10), (5, 192/10),
     (6, 165/10), (7, 145/10), (8, 129/10), (9, 119/10), (10, 109/10)]"

fun yaw_scan :: "(rat \<Rightarrow> rat) \<Rightarrow> fl \<Rightarrow> (rat \<times> rat) list \<Rightarrow> rat" where
  "yaw_scan rnd zoom ((z0, s0) # (z1, s1) # t) =
     (if fl_le zoom (Fin (rnd z1)) then
        (let span = rnd (rnd z1 - rnd z0);
             frac = rnd (rnd ((case zoom of Fin z \<Rightarrow> z | _ \<Rightarrow> 0) - rnd z0) / span)
         in rnd (rnd s0 + rnd (frac * rnd (rnd s1 - rnd s0))))
      else yaw_scan rnd zoom ((z1, s1) # t))"
| "yaw_scan rnd zoom [(z, s)] = rnd s"
| "yaw_scan rnd zoom [] = 0"

definition yawSpeedForZoom :: "(rat \<Rightarrow> rat) \<Rightarrow> fl \<Rightarrow> rat" where
  "yawSpeedForZoom rnd zoom =
     (if fl_le zoom (Fin (rnd (fst (hd kZoomYawSpeedTable)))) then rnd (snd (hd kZoomYawSpeedTable))
      else if fl_le (Fin (rnd (fst (last kZoomYawSpeedTable)))) zoom then rnd (snd (last kZoomYawSpeedTable))
      else yaw_scan rnd zoom kZoomYawSpeedTable)"

text \<open>In exact arithmetic the yaw speed lies between the two ends of the table.\<close>

lemma yawSpeedForZoom_bounds: "109/10 \<le> yawSpeedForZoom id zoom \<and> yawSpeedForZoom id zoom \<le> 725/10"
proof (cases zoom)
  case (Fin z)
  show ?thesis
    unfolding Fin yawSpeedForZoom_def kZoomYawSpeedTable_def by (simp add: Let_def) (intro conjI impI; simp add: field_simps)
qed (simp_all add: yawSpeedForZoom_def kZoomYawSpeedTable_def)

section \<open>Reading a decimal integer\<close>

text \<open>\<open>std::stoi\<close> in base ten; \<open>None\<close> where it throws.\<close>

definition stoi :: "string \<Rightarrow> int option" where
  "stoi s =
     (let s1 = dropWhile is_blank s;
          (neg, s2) = (case s1 of
             c # r \<Rightarrow> if c = CHR ''-'' then (True, r) else if c = CHR ''+'' then (False, r) else (False, s1)
           | [] \<Rightarrow> (False, []));
          ds = takeWhile is_digit s2;
          n = fold (\<lambda>c a. 10 * a + digit_value c) ds 0;
          v = (if neg then - n else n)
      in if ds = [] \<or> v < - (2 ^ 31) \<or> 2 ^ 31 \<le> v then None else Some v)"

lemma stoi_examples: "stoi ''4'' = Some 4" "stoi '' -12x'' = Some (- 12)" "stoi ''x'' = None" "stoi ''99999999999'' = None"
  by (simp_all add: stoi_def is_blank_def is_digit_def digit_value_def)

end
