(* ===== verification/Obstacle_Polygon.thy ===== *)
theory Obstacle_Polygon
  imports Pilot_Prelude Complex_Main
begin

text \<open>
  The two tests whether a point lies inside a polygon of \<^verbatim>\<open>common/hdmap/pf_map_block_3d.cpp\<close>: \<^verbatim>\<open>pnpoly\<close>, used for
  the areas of the map, and \<^verbatim>\<open>isInPolygon\<close>.  A \<^verbatim>\<open>DOUBLE\<close> is a rational number; the result of each operation is
  rounded by a parameter \<open>r\<close>.  Statements about places take \<open>exact\<close> arithmetic.
\<close>

section \<open>Results of the map functions\<close>

definition RET_ERR :: int where "RET_ERR = - 1"
definition RET_OVER :: int where "RET_OVER = 0"
definition RET_OK :: int where "RET_OK = 1"

section \<open>The tests\<close>

record PF_NODE_ST =
  px :: rat
  py :: rat

record PF_MAP_XYZ_ST = PF_NODE_ST +
  pz :: rat

definition exact :: "rat \<Rightarrow> rat" where "exact v = v"

definition fdiv :: "(rat \<Rightarrow> rat) \<Rightarrow> rat \<Rightarrow> rat \<Rightarrow> rat" where "fdiv r a b = r (a / b)"

text \<open>The condition of the loop in \<^verbatim>\<open>pnpoly\<close> for the edge between a node and the one before it.\<close>

definition pnpoly_edge :: "(rat \<Rightarrow> rat) \<Rightarrow> rat \<Rightarrow> rat \<Rightarrow> 'a PF_NODE_ST_scheme \<Rightarrow> 'a PF_NODE_ST_scheme \<Rightarrow> bool" where
  "pnpoly_edge r x y ni nj \<longleftrightarrow>
     (py ni > y) \<noteq> (py nj > y) \<and>
     x < r (fdiv r (r (r (px nj - px ni) * r (y - py ni))) (r (py nj - py ni)) + px ni)"

fun pnpoly_loop :: "('n \<Rightarrow> 'n \<Rightarrow> bool) \<Rightarrow> 'n \<Rightarrow> 'n list \<Rightarrow> bool \<Rightarrow> bool" where
  "pnpoly_loop edge nj [] c = c"
| "pnpoly_loop edge nj (ni # ps) c = pnpoly_loop edge ni ps (if edge ni nj then \<not> c else c)"

definition pnpoly :: "(rat \<Rightarrow> rat) \<Rightarrow> 'a PF_NODE_ST_scheme list \<Rightarrow> rat \<Rightarrow> rat \<Rightarrow> bool" where
  "pnpoly r poly x y = (if poly = [] then False else pnpoly_loop (pnpoly_edge r x y) (last poly) poly False)"

definition isRayCrossSeg :: "(rat \<Rightarrow> rat) \<Rightarrow> rat \<Rightarrow> rat \<Rightarrow> 'a PF_NODE_ST_scheme \<Rightarrow> 'a PF_NODE_ST_scheme \<Rightarrow> bool" where
  "isRayCrossSeg r x y startPoint endPoint =
     (if py startPoint = py endPoint then False
      else if py startPoint > y \<and> py endPoint > y then False
      else if py startPoint < y \<and> py endPoint < y then False
      else if py startPoint = y \<and> py endPoint > y then False
      else if py endPoint = y \<and> py startPoint > y then False
      else if px startPoint < x \<and> px endPoint < x then False
      else let xseg = r (px endPoint - fdiv r (r (r (px endPoint - px startPoint) * r (py endPoint - y)))
                                         (r (py endPoint - py startPoint)))
        in \<not> xseg < x)"

fun cross_loop :: "('n \<Rightarrow> 'n \<Rightarrow> bool) \<Rightarrow> 'n \<Rightarrow> 'n list \<Rightarrow> nat \<Rightarrow> nat" where
  "cross_loop cross nj [] n = n"
| "cross_loop cross nj (pk # ps) n = cross_loop cross pk ps (if cross nj pk then n + 1 else n)"

definition isInPolygon :: "(rat \<Rightarrow> rat) \<Rightarrow> rat \<Rightarrow> rat \<Rightarrow> 'a PF_NODE_ST_scheme list \<Rightarrow> bool" where
  "isInPolygon r x y polygon =
     (if polygon = [] then False else cross_loop (isRayCrossSeg r x y) (last polygon) polygon 0 mod 2 = 1)"

section \<open>Crossings around a closed line\<close>

text \<open>Both loops compute the parity of the number of edges that satisfy a condition.\<close>

fun odd_edges :: "('n \<Rightarrow> 'n \<Rightarrow> bool) \<Rightarrow> 'n \<Rightarrow> 'n list \<Rightarrow> bool" where
  "odd_edges f nj [] = False"
| "odd_edges f nj (ni # ps) = (f nj ni \<noteq> odd_edges f ni ps)"

definition odd_ring :: "('n \<Rightarrow> 'n \<Rightarrow> bool) \<Rightarrow> 'n list \<Rightarrow> bool" where
  "odd_ring f ps = (ps \<noteq> [] \<and> odd_edges f (last ps) ps)"

lemma pnpoly_loop_parity: "pnpoly_loop edge nj ps c = (c \<noteq> odd_edges (\<lambda>j i. edge i j) nj ps)"
  by (induction ps arbitrary: nj c) auto

lemma pnpoly_parity: "pnpoly r poly x y = odd_ring (\<lambda>j i. pnpoly_edge r x y i j) poly"
  by (simp add: pnpoly_def odd_ring_def pnpoly_loop_parity)

lemma cross_loop_parity: "cross_loop cross nj ps n mod 2 = 1 \<longleftrightarrow> (odd n \<noteq> odd_edges cross nj ps)"
  by (induction ps arbitrary: nj n) (auto simp: mod2_eq_if)

lemma isInPolygon_parity: "isInPolygon r x y poly = odd_ring (isRayCrossSeg r x y) poly"
  using cross_loop_parity[of "isRayCrossSeg r x y" "last poly" poly 0] by (simp add: isInPolygon_def odd_ring_def)

definition differ :: "bool \<Rightarrow> bool \<Rightarrow> bool" where "differ a b \<longleftrightarrow> a \<noteq> b"

lemma odd_edges_cong: "(\<And>j i. (j, i) \<in> set (zip (nj # ps) ps) \<Longrightarrow> f j i = g j i) \<Longrightarrow> odd_edges f nj ps = odd_edges g nj ps"
  by (induction ps arbitrary: nj) auto

lemma odd_edges_differ: "odd_edges (\<lambda>j i. differ (f j i) (g j i)) nj ps = differ (odd_edges f nj ps) (odd_edges g nj ps)"
  by (induction ps arbitrary: nj) (auto simp: differ_def)

text \<open>A closed line changes sides an even number of times.\<close>

lemma odd_edges_sides: "odd_edges (\<lambda>j i. differ (s j) (s i)) nj ps = differ (s nj) (s (last (nj # ps)))"
  by (induction ps arbitrary: nj) (auto simp: differ_def split: if_splits)

lemma odd_ring_sides: "\<not> odd_ring (\<lambda>j i. differ (s j) (s i)) ps"
  by (cases ps) (simp_all add: odd_ring_def odd_edges_sides, simp_all add: differ_def)

definition ring_edges :: "'n list \<Rightarrow> ('n \<times> 'n) list" where
  "ring_edges ps = zip (last ps # ps) ps"

lemma ring_edges_nodes: "(j, i) \<in> set (ring_edges ps) \<Longrightarrow> j \<in> set ps \<and> i \<in> set ps"
  using set_zip_leftD[of j i "last ps # ps" ps] set_zip_rightD[of j i "last ps # ps" ps] last_in_set[of ps]
  by (cases "ps = []") (auto simp: ring_edges_def)

lemma odd_ring_cong: "(\<And>j i. (j, i) \<in> set (ring_edges ps) \<Longrightarrow> f j i = g j i) \<Longrightarrow> odd_ring f ps = odd_ring g ps"
  using odd_edges_cong[of "last ps" ps f g] by (simp add: odd_ring_def ring_edges_def)

lemma odd_ring_differ: "odd_ring (\<lambda>j i. differ (f j i) (g j i)) ps = differ (odd_ring f ps) (odd_ring g ps)"
  by (cases "ps = []") (simp_all add: odd_ring_def odd_edges_differ, simp add: differ_def)

lemma odd_ring_none: "(\<And>j i. (j, i) \<in> set (ring_edges ps) \<Longrightarrow> \<not> f j i) \<Longrightarrow> \<not> odd_ring f ps"
  using odd_ring_cong[of ps f "\<lambda>j i. differ True True"] odd_ring_sides[of "\<lambda>_. True" ps] by (auto simp: differ_def)

section \<open>Exact arithmetic\<close>

text \<open>The point of an edge on the horizontal line through \<open>y\<close>.\<close>

definition meet :: "rat \<Rightarrow> 'a PF_NODE_ST_scheme \<Rightarrow> 'a PF_NODE_ST_scheme \<Rightarrow> rat" where
  "meet y a b = (px b - px a) * (y - py a) / (py b - py a) + px a"

lemma meet_commute: "py a \<noteq> py b \<Longrightarrow> meet y a b = meet y b a"
  by (simp add: meet_def field_simps)

lemma meet_end: "meet (py a) a b = px a"
  by (simp add: meet_def)

lemma meet_between:
  assumes "(py a > y) \<noteq> (py b > y)"
  shows "min (px a) (px b) \<le> meet y a b" "meet y a b \<le> max (px a) (px b)"
proof -
  define t where "t = (y - py a) / (py b - py a)"
  have t: "0 \<le> t" "t \<le> 1" using assms by (auto simp: t_def divide_simps not_less)
  have "meet y a b = (px b - px a) * t + px a" by (simp add: meet_def t_def)
  then have m: "meet y a b = (1 - t) * px a + t * px b" by (simp add: algebra_simps)
  let ?lo = "min (px a) (px b)" and ?hi = "max (px a) (px b)"
  have "(1 - t) * ?lo + t * ?lo \<le> meet y a b" unfolding m using t by (intro add_mono mult_left_mono) auto
  then show "?lo \<le> meet y a b" by (simp add: algebra_simps)
  have "meet y a b \<le> (1 - t) * ?hi + t * ?hi" unfolding m using t by (intro add_mono mult_left_mono) auto
  then show "meet y a b \<le> ?hi" by (simp add: algebra_simps)
qed

lemma pnpoly_edge_exact: "pnpoly_edge exact x y i j \<longleftrightarrow> (py i > y) \<noteq> (py j > y) \<and> x < meet y i j"
  by (simp add: pnpoly_edge_def fdiv_def exact_def meet_def)

lemma isRayCrossSeg_exact: "isRayCrossSeg exact x y j i \<longleftrightarrow> (py i \<ge> y) \<noteq> (py j \<ge> y) \<and> x \<le> meet y i j"
proof (cases "(py i \<ge> y) = (py j \<ge> y)")
  case True
  then show ?thesis by (auto simp: isRayCrossSeg_def)
next
  case False
  then have ne: "py i \<noteq> py j" by auto
  have "min (px i) (px j) \<le> meet y i j \<and> meet y i j \<le> max (px i) (px j)"
  proof (cases "py i = y \<or> py j = y")
    case True
    then show ?thesis using meet_end[of i j] meet_end[of j i] meet_commute[OF ne] by auto
  next
    case neq: False
    then have "(py i > y) \<noteq> (py j > y)" using False by auto
    then show ?thesis using meet_between by blast
  qed
  moreover have "px i - (px i - px j) * (py i - y) / (py i - py j) = meet y i j"
    using ne by (simp add: meet_def field_simps)
  ultimately show ?thesis
    using False ne by (auto simp: isRayCrossSeg_def fdiv_def exact_def Let_def not_less min_def max_def split: if_splits)
qed

definition on_edge :: "rat \<Rightarrow> rat \<Rightarrow> 'a PF_NODE_ST_scheme \<Rightarrow> 'a PF_NODE_ST_scheme \<Rightarrow> bool" where
  "on_edge x y a b \<longleftrightarrow>
     (if py a = py b then y = py a \<and> min (px a) (px b) \<le> x \<and> x \<le> max (px a) (px b)
      else min (py a) (py b) \<le> y \<and> y \<le> max (py a) (py b) \<and> x = meet y a b)"

definition on_polygon :: "rat \<Rightarrow> rat \<Rightarrow> 'a PF_NODE_ST_scheme list \<Rightarrow> bool" where
  "on_polygon x y poly \<longleftrightarrow> (\<exists>(j, i) \<in> set (ring_edges poly). on_edge x y j i)"

text \<open>The rules for a node on the ray differ by whether the node lies to the right.\<close>

lemma edge_rules_differ:
  assumes "\<not> on_edge x y j i"
  shows "differ (pnpoly_edge exact x y i j) (isRayCrossSeg exact x y j i) = differ (py j = y \<and> x < px j) (py i = y \<and> x < px i)"
proof (cases "py i = py j")
  case True
  then show ?thesis using assms by (auto simp: differ_def pnpoly_edge_exact isRayCrossSeg_exact on_edge_def min_def max_def split: if_splits)
next
  case False
  have m: "meet y i j = meet y j i" by (rule meet_commute[OF False])
  consider "py i = y" | "py j = y" | "py i \<noteq> y" "py j \<noteq> y" by blast
  then show ?thesis
  proof cases
    case 1
    then have "meet y i j = px i" using meet_end[of i j] by simp
    then show ?thesis using 1 False assms m
      by (auto simp: differ_def pnpoly_edge_exact isRayCrossSeg_exact on_edge_def min_def max_def split: if_splits)
  next
    case 2
    then have "meet y i j = px j" using meet_end[of j i] m by simp
    then show ?thesis using 2 False assms m
      by (auto simp: differ_def pnpoly_edge_exact isRayCrossSeg_exact on_edge_def min_def max_def split: if_splits)
  next
    case 3
    then show ?thesis using False assms m
      by (auto simp: differ_def pnpoly_edge_exact isRayCrossSeg_exact on_edge_def min_def max_def split: if_splits)
  qed
qed

lemma tests_agree:
  assumes "\<not> on_polygon x y poly"
  shows "isInPolygon exact x y poly = pnpoly exact poly x y"
proof -
  let ?f = "\<lambda>j i. pnpoly_edge exact x y i j" and ?g = "\<lambda>j i. isRayCrossSeg exact x y j i"
  have "odd_ring (\<lambda>j i. differ (?f j i) (?g j i)) poly =
      odd_ring (\<lambda>j i. differ (py j = y \<and> x < px j) (py i = y \<and> x < px i)) poly"
    using assms by (intro odd_ring_cong edge_rules_differ) (auto simp: on_polygon_def)
  then have "\<not> differ (odd_ring ?f poly) (odd_ring ?g poly)" by (simp add: odd_ring_sides odd_ring_differ[symmetric])
  then show ?thesis by (simp add: differ_def pnpoly_parity isInPolygon_parity)
qed

text \<open>A point outside the bounding box is outside the polygon.\<close>

lemma pnpoly_box:
  assumes "pnpoly exact poly x y"
  shows "\<exists>a \<in> set poly. px a \<le> x" "\<exists>a \<in> set poly. x < px a" "\<exists>a \<in> set poly. py a \<le> y" "\<exists>a \<in> set poly. y < py a"
proof -
  have p: "odd_ring (\<lambda>j i. pnpoly_edge exact x y i j) poly" using assms by (simp add: pnpoly_parity)
  have "\<exists>j i. (j, i) \<in> set (ring_edges poly) \<and> pnpoly_edge exact x y i j"
  proof (rule ccontr)
    assume "\<nexists>j i. (j, i) \<in> set (ring_edges poly) \<and> pnpoly_edge exact x y i j"
    then show False using p odd_ring_none[of poly "\<lambda>j i. pnpoly_edge exact x y i j"] by auto
  qed
  then obtain j i where e: "(j, i) \<in> set (ring_edges poly)" "pnpoly_edge exact x y i j" by auto
  note n = ring_edges_nodes[OF e(1)]
  from e(2) have c: "(py i > y) \<noteq> (py j > y)" "x < meet y i j" by (simp_all add: pnpoly_edge_exact)
  show "\<exists>a \<in> set poly. py a \<le> y" "\<exists>a \<in> set poly. y < py a" using c(1) n by (meson not_less)+
  have "x < px i \<or> x < px j" using meet_between(2)[OF c(1)] c(2) by (auto simp: max_def split: if_splits)
  then show "\<exists>a \<in> set poly. x < px a" using n by blast
  show "\<exists>a \<in> set poly. px a \<le> x"
  proof (rule ccontr)
    assume a: "\<not> ?thesis"
    have "pnpoly_edge exact x y i j = differ (py j > y) (py i > y)" if "(j, i) \<in> set (ring_edges poly)" for i j
    proof -
      have "x < min (px i) (px j)" using ring_edges_nodes[OF that] a by (simp add: not_le)
      then have "(py i > y) \<noteq> (py j > y) \<Longrightarrow> x < meet y i j" using meet_between(1)[of y i j] by linarith
      then show ?thesis by (auto simp: differ_def pnpoly_edge_exact)
    qed
    then have "odd_ring (\<lambda>j i. pnpoly_edge exact x y i j) poly = odd_ring (\<lambda>j i. differ (py j > y) (py i > y)) poly"
      by (intro odd_ring_cong) simp
    then show False using p odd_ring_sides[of "\<lambda>j. py j > y" poly] by simp
  qed
qed

end
