(* ===== verification/Flyto.thy ===== *)
theory Flyto
  imports Track Flyto_Speed Obstacle_Polygon
begin

text \<open>
  The flight controller: \<^verbatim>\<open>cloud/flyto/flytoController.{h,cpp}\<close>.

  A command of the platform is parsed and dispatched to a handler; the handlers send requests to the
  aircraft and wait, or drive the sticks for a computed time.  The thread of a continuous move is
  a function that makes one turn of its loop; handlers and turns follow one another in
  any order.  Random ids, clock, rounding, the obstacle check of the map and the answers to requests are
  parameters; texts are given in English.
\<close>

section \<open>Commands\<close>

record flight_control_message =
  fc_action :: string
  fc_trans_id :: string
  fc_direction :: string
  fc_distance :: string
  fc_angle :: string
  fc_longitude :: fl
  fc_latitude :: fl
  fc_height :: fl
  fc_max_speed :: "U32 option"

datatype Action = TAKEOFF | GOHOME | MOVE | TURN | FLYTO_POINT | CONTINUOUS_MOVE | STOP_MOVE
  | FLYTO_POINT_STOP | RETURN_HOME_CANCEL

definition m_actionHandlerMap :: "int \<rightharpoonup> Action" where
  "m_actionHandlerMap = map_of [(1, TAKEOFF), (3, GOHOME), (4, MOVE), (6, TURN), (7, FLYTO_POINT),
     (8, CONTINUOUS_MOVE), (9, STOP_MOVE), (10, FLYTO_POINT_STOP), (11, RETURN_HOME_CANCEL)]"

definition valid_actions :: "int list" where
  "valid_actions = [1, 3, 4, 6, 7, 8, 9, 10, 11]"

datatype MoveMode = UP | DOWN | LEFT | RIGHT | FORWARD | BACKWARD | No_Move

text \<open>The cast from \<open>int\<close>; \<open>No_Move\<close> stands for the values that fall to the default branches.\<close>

definition MoveMode_of :: "int \<Rightarrow> MoveMode" where
  "MoveMode_of d = (if d = 1 then UP else if d = 2 then DOWN else if d = 3 then LEFT else if d = 4 then RIGHT
     else if d = 5 then FORWARD else if d = 6 then BACKWARD else No_Move)"

record offset =
  throttle :: int
  roll :: int
  pitch :: int
  yaw :: int

definition neutral :: offset where
  "neutral = \<lparr>throttle = 0, roll = 0, pitch = 0, yaw = 0\<rparr>"

definition stickControlCenter :: int where "stickControlCenter = 1024"
definition moveStep :: int where "moveStep = 400"
definition CYCLE_DURATION_MS :: int where "CYCLE_DURATION_MS = 143"
definition DRC_STATE_INACTIVE :: U16 where "DRC_STATE_INACTIVE = 0"

section \<open>State\<close>

record continuous_params =
  c_offset :: offset
  c_direction :: int
  c_active :: bool

text \<open>The thread object: empty or joined, running (with the flag \<open>enteredManual\<close>), or ended but not joined.\<close>

datatype move_thread = No_Thread | Running bool | Exited

record flyto = track +
  m_controlSeq :: U64
  m_continuousParams :: "continuous_params option"
  m_continuousMoveThread :: move_thread
  m_lastSentFlyToId :: string
  m_lastFlytoStatus :: string
  m_lastFlytoResult :: int
  m_lastFlytoWayPointIndex :: int
  m_lastFlytoRemainingDistance :: fl
  m_lastFlytoRemainingTime :: fl
  m_lastFlytoProgressTime :: U64

record flyto_env =
  js :: "pub_message \<Rightarrow> bool"
  drcState :: U16
  stof :: "string \<Rightarrow> fl option"
  to_ms :: "fl \<Rightarrow> fl \<Rightarrow> int"  \<comment> \<open>\<open>std::round(distance / speed * 1000.0)\<close> as an \<open>int\<close>\<close>
  rnd :: "rat \<Rightarrow> rat"
  answer :: "service_request \<Rightarrow> bool \<times> string"  \<comment> \<open>\<open>sendRequestAndWait\<close> and its error text\<close>
  new_id :: string
  clock :: U64
  takeoff_cfg :: takeoff_message
  blocked :: "point \<Rightarrow> point \<Rightarrow> int"  \<comment> \<open>\<open>check_block_around_line_lonlat\<close> towards the target\<close>

text \<open>The link state of the remote controller, \<^verbatim>\<open>cloud/device/rcProperties.cpp\<close>.\<close>

definition getDrcStateDesc :: "U16 \<Rightarrow> string" where
  "getDrcStateDesc d = (if d = 0 then ''not connected'' else if d = 1 then ''connecting''
     else if d = 2 then ''connected'' else ''unknown'')"

definition parseRcOsdData :: "'j json_api \<Rightarrow> string \<Rightarrow> U16 \<Rightarrow> parse_outcome \<times> U16" where
  "parseRcOsdData J msg m_drcState = (case j_parse J msg of
     None \<Rightarrow> (Rejected, m_drcState)
   | Some doc \<Rightarrow>
       (case j_member J doc ''data'' of
          None \<Rightarrow> (Threw, m_drcState)
        | Some data \<Rightarrow>
            if \<not> j_isObject J data then (Rejected, m_drcState)
            else case j_isMember J data ''drc_state'' of
              None \<Rightarrow> (Threw, m_drcState)
            | Some False \<Rightarrow> (Parsed, m_drcState)
            | Some True \<Rightarrow>
                (case Option.bind (j_member J data ''drc_state'') (j_asUInt J) of
                   None \<Rightarrow> (Threw, m_drcState)
                 | Some d \<Rightarrow> (Parsed, ucast d))))"

section \<open>Sticks\<close>

definition axisMaxSpeed :: "MoveMode \<Rightarrow> rat" where
  "axisMaxSpeed m = (case m of UP \<Rightarrow> kAscendMaxSpeed | DOWN \<Rightarrow> kDescendMaxSpeed | _ \<Rightarrow> kHorizontalMaxSpeed)"

definition getMoveOffset :: "MoveMode \<Rightarrow> offset" where
  "getMoveOffset m = (case m of
     UP \<Rightarrow> neutral\<lparr>throttle := moveStep\<rparr> | DOWN \<Rightarrow> neutral\<lparr>throttle := - moveStep\<rparr>
   | LEFT \<Rightarrow> neutral\<lparr>roll := - moveStep\<rparr> | RIGHT \<Rightarrow> neutral\<lparr>roll := moveStep\<rparr>
   | FORWARD \<Rightarrow> neutral\<lparr>pitch := moveStep\<rparr> | BACKWARD \<Rightarrow> neutral\<lparr>pitch := - moveStep\<rparr> | No_Move \<Rightarrow> neutral)"

definition calculateMoveOffset :: "MoveMode \<Rightarrow> fl \<Rightarrow> offset" where
  "calculateMoveOffset m speed = (case m of
     UP \<Rightarrow> neutral\<lparr>throttle := speedToOffset speed kAscendSpeedMap\<rparr>
   | DOWN \<Rightarrow> neutral\<lparr>throttle := - speedToOffset speed kDescendSpeedMap\<rparr>
   | LEFT \<Rightarrow> neutral\<lparr>roll := - speedToOffset speed kHorizontalSpeedMap\<rparr>
   | RIGHT \<Rightarrow> neutral\<lparr>roll := speedToOffset speed kHorizontalSpeedMap\<rparr>
   | FORWARD \<Rightarrow> neutral\<lparr>pitch := speedToOffset speed kHorizontalSpeedMap\<rparr>
   | BACKWARD \<Rightarrow> neutral\<lparr>pitch := - speedToOffset speed kHorizontalSpeedMap\<rparr>
   | No_Move \<Rightarrow> neutral)"

definition getTurnOffset :: "int \<Rightarrow> offset" where
  "getTurnOffset m = (if m = 1 then neutral\<lparr>yaw := - 660\<rparr> else if m = 2 then neutral\<lparr>yaw := 660\<rparr> else neutral)"

definition stick :: "U64 \<Rightarrow> offset \<Rightarrow> pub_message" where
  "stick n d = Stick_Control n (stickControlCenter + throttle d) (stickControlCenter + roll d)
     (stickControlCenter + pitch d) (stickControlCenter + yaw d)"

definition commonControlSend :: "flyto_env \<Rightarrow> offset \<Rightarrow> flyto \<Rightarrow> bool \<times> flyto" where
  "commonControlSend E d s =
     (let s = s\<lparr>m_controlSeq := m_controlSeq s + 1\<rparr>; m = stick (m_controlSeq s) d in
      if \<not> js E m then (False, s) else (True, emit (Publish m) s))"

fun executeCycleControl :: "flyto_env \<Rightarrow> offset \<Rightarrow> nat \<Rightarrow> flyto \<Rightarrow> bool \<times> flyto" where
  "executeCycleControl E d 0 s = (True, s)"
| "executeCycleControl E d (Suc n) s =
     (let (ok, s) = commonControlSend E d s in
      if \<not> ok then (False, s)
      else executeCycleControl E d n (emit (Sleep_Ms (nat CYCLE_DURATION_MS)) s))"

definition calculateTimingParameters :: "flyto_env \<Rightarrow> fl \<Rightarrow> fl \<Rightarrow> int \<times> int \<times> int" where
  "calculateTimingParameters E distance speed =
     (let totalMs = to_ms E distance speed in (totalMs, totalMs sdiv CYCLE_DURATION_MS, totalMs smod CYCLE_DURATION_MS))"

definition executeTimedControl :: "flyto_env \<Rightarrow> offset \<Rightarrow> fl \<Rightarrow> fl \<Rightarrow> flyto \<Rightarrow> bool \<times> flyto" where
  "executeTimedControl E d distance speed s =
     (let (totalMs, fullCycles, remainingMs) = calculateTimingParameters E distance speed;
          (ok, s) = executeCycleControl E d (nat fullCycles) s in
      if \<not> ok then (False, s)
      else let (ok, s) = (if remainingMs > 0
                          then let (ok, s) = commonControlSend E d s in
                               if ok then (True, emit (Sleep_Ms (nat remainingMs)) s) else (False, s)
                          else (True, s)) in
           if \<not> ok then (False, s)
           else commonControlSend E neutral s)"

section \<open>Results and requests\<close>

definition sendResult :: "flyto_env \<Rightarrow> U16 \<Rightarrow> U16 \<Rightarrow> bool \<Rightarrow> string \<Rightarrow> string \<Rightarrow> flyto \<Rightarrow> flyto" where
  "sendResult E successCode failedCode ret what errResult s =
     (if ret then snd (handleUavResult (js E) successCode (what @ '' ok'') 0 s)
      else snd (handleUavResult (js E) failedCode (what @ '' failed'' @ errResult) 1 (set_mode IDLE s)))"

definition shouldExitDrcMode :: "flyto \<Rightarrow> bool" where
  "shouldExitDrcMode s \<longleftrightarrow> getUavControlMode s = IDLE"

definition sendRequest :: "flyto_env \<Rightarrow> service_request \<Rightarrow> flyto \<Rightarrow> (bool \<times> string) \<times> flyto" where
  "sendRequest E q s = (answer E q, emit (Request q) s)"

definition handleTakeoff :: "flyto_env \<Rightarrow> flyto \<Rightarrow> flyto" where
  "handleTakeoff E s =
     (let p = getUavPoint s; h = commander_flight_height (takeoff_cfg E);
          ((ret, err), s) = sendRequest E (Takeoff_To_Point (lon p) (lat p) h h (takeoff_cfg E) ''01234567890'') s
      in sendResult E STATE_FLYTO_TAKE_OFF STATE_FLYTO_TAKE_OFF_FAILED ret ''take off'' err s)"

definition plain_request :: "flyto_env \<Rightarrow> service_request \<Rightarrow> U16 \<Rightarrow> U16 \<Rightarrow> string \<Rightarrow> flyto \<Rightarrow> flyto" where
  "plain_request E q successCode failedCode what s =
     (let ((ret, err), s) = sendRequest E q s;
          s = sendResult E successCode failedCode ret what err s
      in set_mode IDLE s)"

definition handleGohome :: "flyto_env \<Rightarrow> flyto \<Rightarrow> flyto" where
  "handleGohome E = plain_request E Return_Home STATE_FLYTO_GO_HOME STATE_FLYTO_GO_HOME_FAILED ''go home''"

definition handleFlytoPointStop :: "flyto_env \<Rightarrow> flyto \<Rightarrow> flyto" where
  "handleFlytoPointStop E = plain_request E Fly_To_Point_Stop STATE_FLYTO_POINT_STOP STATE_FLYTO_POINT_STOP_FAILED
     ''fly to point stop''"

definition handleReturnHomeCancel :: "flyto_env \<Rightarrow> flyto \<Rightarrow> flyto" where
  "handleReturnHomeCancel E = plain_request E Return_Home_Cancel STATE_FLYTO_GO_HOME_CANCEL
     STATE_FLYTO_GO_HOME_CANCEL_FAILED ''go home cancel''"

definition ensureFlightControlAndMode :: "flyto_env \<Rightarrow> bool" where
  "ensureFlightControlAndMode E \<longleftrightarrow> drcState E \<noteq> DRC_STATE_INACTIVE"

text \<open>A link that is still connecting counts as ready.\<close>

lemma connecting_is_ready: "drcState E = 1 \<Longrightarrow> ensureFlightControlAndMode E"
  by (simp add: ensureFlightControlAndMode_def DRC_STATE_INACTIVE_def)

section \<open>Timed moves and turns\<close>

definition handleMove :: "flyto_env \<Rightarrow> flight_control_message \<Rightarrow> flyto \<Rightarrow> flyto" where
  "handleMove E msg s =
     (let refuse = (\<lambda>err. sendResult E STATE_FLYTO_POSITION_MOVE STATE_FLYTO_POSITION_MOVE_FAILED False ''move'' err s) in
      if \<not> ensureFlightControlAndMode E then refuse ''mode check''
      else case (stoi (fc_direction msg), stof E (fc_distance msg)) of
        (Some direction, Some distance) \<Rightarrow>
          if direction < 1 \<or> direction > 6 then refuse ''direction''
          else if fl_le distance (Fin 0) then refuse ''distance''
          else let speed = Fin 3; vmax = Fin (axisMaxSpeed (MoveMode_of direction)) in
            if fl_le speed (Fin 0) \<or> fl_less vmax speed then refuse ''speed''
            else let (ret, s) = executeTimedControl E (calculateMoveOffset (MoveMode_of direction) speed) distance speed s;
                     s = sendResult E STATE_FLYTO_POSITION_MOVE STATE_FLYTO_POSITION_MOVE_FAILED ret ''move''
                           (if ret then [] else ''send'') s
                 in if ret then set_mode IDLE s else s
      | _ \<Rightarrow> refuse ''parameter'')"

definition handleTurn :: "flyto_env \<Rightarrow> flight_control_message \<Rightarrow> flyto \<Rightarrow> flyto" where
  "handleTurn E msg s =
     (let refuse = (\<lambda>err. sendResult E STATE_FLYTO_TRUN STATE_FLYTO_TRUN_FAILED False ''turn'' err s) in
      if \<not> ensureFlightControlAndMode E then refuse ''mode check''
      else case (stoi (fc_direction msg), stof E (fc_angle msg)) of
        (Some direction, Some angle) \<Rightarrow>
          if direction < 1 \<or> direction > 2 then refuse ''direction''
          else if fl_le angle (Fin 0) then refuse ''angle''
          else let zoomFactor = getZoomFactor s;
                   zoomFactor = (if fl_less zoomFactor (Fin 1) then Fin 3 else zoomFactor);
                   (ret, s) = executeTimedControl E (getTurnOffset direction) angle
                                (Fin (yawSpeedForZoom (rnd E) zoomFactor)) s;
                   s = sendResult E STATE_FLYTO_TRUN STATE_FLYTO_TRUN_FAILED ret ''turn'' (if ret then [] else ''send'') s
               in if ret then set_mode IDLE s else s
      | _ \<Rightarrow> refuse ''parameter'')"

section \<open>Continuous moves\<close>

definition UAV_MODE_MANUAL :: int where "UAV_MODE_MANUAL = 3"
definition UAV_MODE_ADSB_AVOID :: int where "UAV_MODE_ADSB_AVOID = 8"
definition UAV_MODE_APAS :: int where "UAV_MODE_APAS = 15"
definition UAV_MODE_COMMAND_FLIGHT :: int where "UAV_MODE_COMMAND_FLIGHT = 17"

definition isUavUnderManualControl :: "int \<Rightarrow> bool" where
  "isUavUnderManualControl modeCode \<longleftrightarrow>
     modeCode = UAV_MODE_MANUAL \<or> modeCode = UAV_MODE_ADSB_AVOID \<or> modeCode = UAV_MODE_APAS"

definition deactivate :: "flyto \<Rightarrow> flyto" where
  "deactivate s = s\<lparr>m_continuousParams := map_option (c_active_update (\<lambda>_. False)) (m_continuousParams s)\<rparr>"

text \<open>One turn of the loop of the thread.\<close>

definition continuous_turn :: "flyto_env \<Rightarrow> flyto \<Rightarrow> flyto" where
  "continuous_turn E s = (case (m_continuousMoveThread s, m_continuousParams s) of
     (Running enteredManual, Some p) \<Rightarrow>
       if \<not> c_active p then s\<lparr>m_continuousMoveThread := Exited\<rparr>
       else if getUavControlMode s \<noteq> FLYTO_MODE then (deactivate s)\<lparr>m_continuousMoveThread := Exited\<rparr>
       else let uavMode = getUavModeCode s; entered = enteredManual \<or> uavMode = UAV_MODE_MANUAL in
         if entered \<and> \<not> isUavUnderManualControl uavMode
         then (set_mode IDLE (deactivate s))\<lparr>m_continuousMoveThread := Exited\<rparr>
         else let (ok, s) = commonControlSend E (c_offset p) s in
           if \<not> ok then (deactivate s)\<lparr>m_continuousMoveThread := Exited\<rparr>
           else (emit (Sleep_Ms (nat CYCLE_DURATION_MS)) s)\<lparr>m_continuousMoveThread := Running entered\<rparr>
   | _ \<Rightarrow> s)"

text \<open>Switching the thread off and waiting for it.\<close>

definition join_thread :: "flyto \<Rightarrow> flyto" where
  "join_thread s = (deactivate s)\<lparr>m_continuousMoveThread := No_Thread\<rparr>"

definition handleContinuousMove :: "flyto_env \<Rightarrow> flight_control_message \<Rightarrow> flyto \<Rightarrow> flyto" where
  "handleContinuousMove E msg s =
     (let result = (\<lambda>ret err s. sendResult E STATE_FLYTO_CONTINUOUS_MOVE STATE_FLYTO_CONTINUOUS_MOVE_FAILED ret ''continuous move'' err s) in
      if \<not> ensureFlightControlAndMode E then result False ''mode check'' s
      else case stoi (fc_direction msg) of
        None \<Rightarrow> result False ''parameter'' s
      | Some direction \<Rightarrow>
          let speed = (case fc_max_speed msg of Some v \<Rightarrow> Fin (rnd E (of_nat (unat v))) | None \<Rightarrow> Fin 5) in
          if direction < 1 \<or> direction > 6 then result False ''direction'' s
          else let vmax = Fin (axisMaxSpeed (MoveMode_of direction)) in
            if fl_le speed (Fin 0) \<or> fl_less vmax speed then result False ''speed'' s
            else let d = calculateMoveOffset (MoveMode_of direction) speed in
              if (case m_continuousParams s of Some p \<Rightarrow> c_active p \<and> c_direction p = direction | None \<Rightarrow> False)
              then result True [] (s\<lparr>m_continuousParams := map_option (c_offset_update (\<lambda>_. d)) (m_continuousParams s)\<rparr>)
              else let s = (if m_continuousMoveThread s = No_Thread then s
                            else snd (commonControlSend E neutral (join_thread s)));
                       s = s\<lparr>m_continuousParams := Some \<lparr>c_offset = d, c_direction = direction, c_active = True\<rparr>,
                             m_continuousMoveThread := Running False\<rparr>
                   in result True [] s)"

definition handleStopMove :: "flyto_env \<Rightarrow> flight_control_message \<Rightarrow> flyto \<Rightarrow> flyto" where
  "handleStopMove E msg s =
     (let s = deactivate s;
          s = (if m_continuousMoveThread s = No_Thread then s else join_thread s);
          (ok, s) = commonControlSend E neutral s
      in sendResult E STATE_FLYTO_STOP_MOVE STATE_FLYTO_STOP_MOVE_FAILED ok ''stop move''
           (if ok then [] else ''send'') s)"

section \<open>Flying to a point\<close>

definition validateCoordinates :: "point \<Rightarrow> point \<Rightarrow> bool" where
  "validateCoordinates p1 p2 \<longleftrightarrow>
     \<not> (fl_less (lat p1) (Fin (- 90)) \<or> fl_less (Fin 90) (lat p1) \<or> fl_less (lat p2) (Fin (- 90)) \<or> fl_less (Fin 90) (lat p2)) \<and>
     \<not> (fl_less (lon p1) (Fin (- 180)) \<or> fl_less (Fin 180) (lon p1) \<or> fl_less (lon p2) (Fin (- 180)) \<or> fl_less (Fin 180) (lon p2))"

definition handleFlytoPoint :: "flyto_env \<Rightarrow> flight_control_message \<Rightarrow> flyto \<Rightarrow> flyto" where
  "handleFlytoPoint E msg s =
     (let result = sendResult E STATE_FLYTO_POINT STATE_FLYTO_POINT_FAILED;
          stale = (m_lastFlytoStatus s = ''wayline_progress'' \<and> getUavModeCode s \<noteq> UAV_MODE_COMMAND_FLIGHT);
          flytoInProgress = (m_lastFlytoStatus s = ''wayline_progress'' \<and> \<not> stale);
          s = (if stale then s\<lparr>m_lastFlytoStatus := ''ok''\<rparr> else s);
          max_speed = (case fc_max_speed msg of Some v \<Rightarrow> v | None \<Rightarrow> 0);
          current = getUavPoint s;
          target = \<lparr>lon = fc_longitude msg, lat = fc_latitude msg, alt = Fin 0, pt_course = Fin 0\<rparr>
      in if \<not> validateCoordinates current target then result False ''fly to point'' ''coordinates'' s
         else if blocked E current target = RET_ERR then result False ''fly_to_point: bad coordinates'' ''bad coordinates'' s
         else if blocked E current target = RET_OK then result False ''fly_to_point: obstacle'' ''obstacle'' s
         else if flytoInProgress then
           (let ((ret, err), s) = sendRequest E (Fly_To_Point_Update (fc_longitude msg) (fc_latitude msg) (fc_height msg) max_speed) s
            in result ret ''update fly to point'' err s)
         else
           (let s = s\<lparr>m_lastSentFlyToId := new_id E, m_lastFlytoStatus := ''sent'', m_lastFlytoProgressTime := clock E\<rparr>;
                ((ret, err), s) = sendRequest E (Fly_To_Point (new_id E) (fc_longitude msg) (fc_latitude msg) (fc_height msg) max_speed) s
            in result ret ''fly to point'' err s))"

text \<open>\<open>std::to_string\<close>\<close>

fun nat_text :: "nat \<Rightarrow> string" where
  "nat_text n = (if n < 10 then [char_of (48 + n)] else nat_text (n div 10) @ [char_of (48 + n mod 10)])"

definition int_text :: "int \<Rightarrow> string" where
  "int_text i = (if i < 0 then ''-'' @ nat_text (nat (- i)) else nat_text (nat i))"

declare nat_text.simps [simp del]

text \<open>The progress events of the aircraft; an exception of the JSON library is caught by the dispatcher.\<close>

definition handleFlytoProgress :: "'j json_api \<Rightarrow> flyto_env \<Rightarrow> string \<Rightarrow> flyto \<Rightarrow> parse_outcome \<times> flyto" where
  "handleFlytoProgress J E msg s = (case j_parse J msg of
     None \<Rightarrow> (Rejected, s)
   | Some doc \<Rightarrow>
       (case j_isMember J doc ''data'' of
          None \<Rightarrow> (Threw, s)
        | Some False \<Rightarrow> (Rejected, s)
        | Some True \<Rightarrow>
       (case j_member J doc ''data'' of
          None \<Rightarrow> (Threw, s)
        | Some data \<Rightarrow>
            if \<not> j_isObject J data then (Rejected, s)
            else case (j_get J (j_asString J) data ''status'' [], j_get J (j_asString J) data ''fly_to_id'' [],
                       j_get J (j_asInt J) data ''result'' 0, j_get J (j_asInt J) data ''way_point_index'' 0,
                       j_get J (j_asDouble J) data ''remaining_distance'' (Fin 0),
                       j_get J (j_asDouble J) data ''remaining_time'' (Fin 0)) of
              (Some status, Some i, Some r, Some w, Some d, Some t) \<Rightarrow>
                (let s = s\<lparr>m_lastFlytoStatus := status,
                       m_lastSentFlyToId := (if i \<noteq> [] then i else m_lastSentFlyToId s),
                       m_lastFlytoResult := r, m_lastFlytoWayPointIndex := w, m_lastFlytoRemainingDistance := d,
                       m_lastFlytoRemainingTime := t, m_lastFlytoProgressTime := clock E\<rparr>
                 in if status = ''wayline_failed'' \<or> r \<noteq> 0
                    then (Parsed, set_mode IDLE (snd (handleUavResult (js E) STATE_FLYTO_POINT_FAILED
                            (''fly to point failed, status:'' @ status @ '', result:'' @ int_text r) 1 s)))
                    else (Parsed, s))
            | _ \<Rightarrow> (Threw, s))))"

section \<open>Dispatch\<close>

definition run_action :: "flyto_env \<Rightarrow> Action \<Rightarrow> flight_control_message \<Rightarrow> flyto \<Rightarrow> flyto" where
  "run_action E a msg s = (case a of
     TAKEOFF \<Rightarrow> handleTakeoff E s | GOHOME \<Rightarrow> handleGohome E s | MOVE \<Rightarrow> handleMove E msg s
   | TURN \<Rightarrow> handleTurn E msg s | FLYTO_POINT \<Rightarrow> handleFlytoPoint E msg s
   | CONTINUOUS_MOVE \<Rightarrow> handleContinuousMove E msg s | STOP_MOVE \<Rightarrow> handleStopMove E msg s
   | FLYTO_POINT_STOP \<Rightarrow> handleFlytoPointStop E s | RETURN_HOME_CANCEL \<Rightarrow> handleReturnHomeCancel E s)"

definition handleFlightControl ::
  "flyto_env \<Rightarrow> (string \<Rightarrow> flight_control_message option) \<Rightarrow> string \<Rightarrow> flyto \<Rightarrow> flyto" where
  "handleFlightControl E conv msg s =
     (let refuse = (\<lambda>err s. snd (handleUavResult (js E) STATE_FLIGHT_FLYTO_WARN_INVALID_PARAM err 1 s)) in
      case conv msg of
        None \<Rightarrow> refuse ''not a command'' s
      | Some m \<Rightarrow>
          let s = updateTransId (fc_trans_id m) s in
          case stoi (fc_action m) of
            None \<Rightarrow> refuse ''action not a number'' s
          | Some action \<Rightarrow>
              if action \<notin> set valid_actions then refuse ''bad action'' s
              else case m_actionHandlerMap action of
                None \<Rightarrow> refuse ''unknown action'' s
              | Some a \<Rightarrow> run_action E a m (set_mode FLYTO_MODE s))"


section \<open>Sticks stay in range\<close>

text \<open>At most one axis is moved, by at most 660 from the centre.\<close>

definition one_axis :: "int list \<Rightarrow> bool" where
  "one_axis ds \<longleftrightarrow> (\<forall>d\<in>set ds. - 660 \<le> d \<and> d \<le> 660) \<and> length (filter (\<lambda>d. d \<noteq> 0) ds) \<le> 1"

definition offset_ok :: "offset \<Rightarrow> bool" where
  "offset_ok d \<longleftrightarrow> one_axis [throttle d, roll d, pitch d, yaw d]"

fun stick_ok :: "effect \<Rightarrow> bool" where
  "stick_ok (Publish (Stick_Control n t r p y)) \<longleftrightarrow> one_axis [t - 1024, r - 1024, p - 1024, y - 1024]"
| "stick_ok _ \<longleftrightarrow> True"

text \<open>The offset kept for the thread is such an offset, and all sticks sent so far were.\<close>

definition sticks_ok :: "flyto \<Rightarrow> bool" where
  "sticks_ok s \<longleftrightarrow> (\<forall>p. m_continuousParams s = Some p \<longrightarrow> offset_ok (c_offset p)) \<and> (\<forall>e\<in>set (effects s). stick_ok e)"

named_theorems stick_intros \<open>operations that keep the sticks in range\<close>

lemma table_range:
  "speedToOffset v kHorizontalSpeedMap \<in> {165..660}"
  "speedToOffset v kAscendSpeedMap \<in> {272..660}" "speedToOffset v kDescendSpeedMap \<in> {272..660}"
proof -
  have "off \<in> {165..660}" if "off \<in> snd ` set kHorizontalSpeedMap" for off
    using that by (auto simp: kHorizontalSpeedMap_def)
  moreover have "off \<in> {272..660}" if "off \<in> snd ` set kAscendSpeedMap \<or> off \<in> snd ` set kDescendSpeedMap" for off
    using that by (auto simp: kAscendSpeedMap_def kDescendSpeedMap_def)
  moreover have "kHorizontalSpeedMap \<noteq> []" "kAscendSpeedMap \<noteq> []" "kDescendSpeedMap \<noteq> []"
    by (simp_all add: kHorizontalSpeedMap_def kAscendSpeedMap_def kDescendSpeedMap_def)
  ultimately show "speedToOffset v kHorizontalSpeedMap \<in> {165..660}"
    "speedToOffset v kAscendSpeedMap \<in> {272..660}" "speedToOffset v kDescendSpeedMap \<in> {272..660}"
    by (meson speedToOffset_mem)+
qed

lemma offset_ok_move [stick_intros]: "offset_ok (calculateMoveOffset m v)"
  using table_range[of v]
  by (cases m) (auto simp: offset_ok_def one_axis_def calculateMoveOffset_def neutral_def)

lemma offset_ok_turn [stick_intros]: "offset_ok (getTurnOffset m)"
  by (simp add: offset_ok_def one_axis_def getTurnOffset_def neutral_def)

lemma offset_ok_neutral [stick_intros]: "offset_ok neutral"
  by (simp add: offset_ok_def one_axis_def neutral_def)

lemma stick_ok_stick: "stick_ok (Publish (stick n d)) \<longleftrightarrow> offset_ok d"
  by (simp add: stick_def stickControlCenter_def offset_ok_def)

lemma sticks_ok_emit [stick_intros]: "sticks_ok s \<Longrightarrow> stick_ok e \<Longrightarrow> sticks_ok (emit e s)"
  by (simp add: sticks_ok_def emit_def)

lemma sticks_ok_mode [stick_intros]: "sticks_ok s \<Longrightarrow> sticks_ok (set_mode m s)"
  by (simp add: sticks_ok_def setUavControlMode_def)

lemma sticks_ok_result [stick_intros]: "sticks_ok s \<Longrightarrow> sticks_ok (snd (handleUavResult j c t r s))"
  by (auto simp: sticks_ok_def handleUavResult_eq uav_reports_def)

lemma sticks_ok_sendResult [stick_intros]: "sticks_ok s \<Longrightarrow> sticks_ok (sendResult E a b r l e s)"
  by (simp add: sendResult_def sticks_ok_result sticks_ok_mode)

lemma sticks_ok_send [stick_intros]:
  "sticks_ok s \<Longrightarrow> offset_ok d \<Longrightarrow> sticks_ok (snd (commonControlSend E d s))"
  by (auto simp: commonControlSend_def Let_def sticks_ok_def emit_def stick_ok_stick)

lemma sticks_ok_cycle [stick_intros]:
  "sticks_ok s \<Longrightarrow> offset_ok d \<Longrightarrow> sticks_ok (snd (executeCycleControl E d n s))"
proof (induction n arbitrary: s)
  case (Suc n)
  obtain ok t where t: "commonControlSend E d s = (ok, t)" by fastforce
  then have "sticks_ok t" using sticks_ok_send[OF Suc.prems, of E] by simp
  then show ?case using Suc.IH[OF sticks_ok_emit Suc.prems(2)] by (simp add: t)
qed simp

lemma sticks_ok_timed [stick_intros]:
  assumes "sticks_ok s" "offset_ok d"
  shows "sticks_ok (snd (executeTimedControl E d x v s))"
proof -
  obtain tot n r where t: "calculateTimingParameters E x v = (tot, n, r)" by (cases "calculateTimingParameters E x v")
  obtain ok1 s1 where c: "executeCycleControl E d (nat n) s = (ok1, s1)" by fastforce
  obtain ok2 s2 where k: "commonControlSend E d s1 = (ok2, s2)" by fastforce
  have s1: "sticks_ok s1" using sticks_ok_cycle[OF assms, of E "nat n"] c by simp
  then have s2: "sticks_ok s2" using sticks_ok_send[OF s1 assms(2), of E] k by simp
  show ?thesis
    by (auto simp: executeTimedControl_def t c k intro!: stick_intros s1 s2)
qed

lemma sticks_ok_deactivate [stick_intros]: "sticks_ok s \<Longrightarrow> sticks_ok (deactivate s)"
  by (auto simp: sticks_ok_def deactivate_def)

lemma sticks_ok_thread [stick_intros]: "sticks_ok s \<Longrightarrow> sticks_ok (s\<lparr>m_continuousMoveThread := h\<rparr>)"
  by (simp add: sticks_ok_def)

lemma sticks_ok_join [stick_intros]: "sticks_ok s \<Longrightarrow> sticks_ok (join_thread s)"
  by (simp add: join_thread_def sticks_ok_thread sticks_ok_deactivate)

lemma sticks_ok_params [stick_intros]:
  "sticks_ok s \<Longrightarrow> offset_ok d \<Longrightarrow> sticks_ok (s\<lparr>m_continuousParams := Some \<lparr>c_offset = d, c_direction = i, c_active = b\<rparr>\<rparr>)"
  "sticks_ok s \<Longrightarrow> offset_ok d \<Longrightarrow>
     sticks_ok (s\<lparr>m_continuousParams := map_option (c_offset_update (\<lambda>_. d)) (m_continuousParams s)\<rparr>)"
  by (auto simp: sticks_ok_def)

lemma sticks_ok_request [stick_intros]: "sticks_ok s \<Longrightarrow> sticks_ok (snd (sendRequest E q s))"
  by (simp add: sendRequest_def sticks_ok_emit)


text \<open>The handlers, the thread, the progress events and the telemetry keep this.\<close>

lemma sticks_ok_plain [stick_intros]: "sticks_ok s \<Longrightarrow> sticks_ok (plain_request E q a b l s)"
  by (auto simp: plain_request_def Let_def sendRequest_def intro!: stick_intros split: prod.splits)

lemma sticks_ok_takeoff: "sticks_ok s \<Longrightarrow> sticks_ok (handleTakeoff E s)"
  by (auto simp: handleTakeoff_def Let_def sendRequest_def intro!: stick_intros split: prod.splits)

lemma sticks_ok_timed_eq:
  "executeTimedControl E d x v s = (ret, s') \<Longrightarrow> sticks_ok s \<Longrightarrow> offset_ok d \<Longrightarrow> sticks_ok s'"
  using sticks_ok_timed[of s d E x v] by simp

lemma sticks_ok_send_eq:
  "commonControlSend E d s = (ret, s') \<Longrightarrow> sticks_ok s \<Longrightarrow> offset_ok d \<Longrightarrow> sticks_ok s'"
  using sticks_ok_send[of s d E] by simp

lemma sticks_ok_move: "sticks_ok s \<Longrightarrow> sticks_ok (handleMove E msg s)"
  unfolding handleMove_def
  by (auto simp: Let_def intro!: stick_intros dest!: sticks_ok_timed_eq split: option.splits prod.splits)

lemma sticks_ok_turn: "sticks_ok s \<Longrightarrow> sticks_ok (handleTurn E msg s)"
  unfolding handleTurn_def
  by (auto simp: Let_def intro!: stick_intros dest!: sticks_ok_timed_eq split: option.splits prod.splits)

lemma sticks_ok_if: "sticks_ok s \<Longrightarrow> sticks_ok t \<Longrightarrow> sticks_ok (if c then s else t)"
  by simp

lemma sticks_ok_option: "sticks_ok s \<Longrightarrow> (\<And>x. sticks_ok (f x)) \<Longrightarrow> sticks_ok (case v of None \<Rightarrow> s | Some x \<Rightarrow> f x)"
  by (cases v) simp_all

lemma sticks_ok_continuous:
  assumes "sticks_ok s"
  shows "sticks_ok (handleContinuousMove E msg s)"
proof -
  have new: "sticks_ok (t\<lparr>m_continuousParams := Some \<lparr>c_offset = calculateMoveOffset m v, c_direction = i, c_active = b\<rparr>,
      m_continuousMoveThread := h\<rparr>)" if "sticks_ok t" for t m v i b h
    using sticks_ok_thread[OF sticks_ok_params(1)[OF that offset_ok_move]] .
  have upd: "sticks_ok (s\<lparr>m_continuousParams := map_option (c_offset_update (\<lambda>_. calculateMoveOffset m v)) (m_continuousParams s)\<rparr>)" for m v
    by (rule sticks_ok_params(2)[OF assms offset_ok_move])
  show ?thesis
    unfolding handleContinuousMove_def Let_def
    by (intro sticks_ok_if sticks_ok_option sticks_ok_sendResult new upd assms sticks_ok_send sticks_ok_join offset_ok_neutral)
qed

lemma sticks_ok_stop: "sticks_ok s \<Longrightarrow> sticks_ok (handleStopMove E msg s)"
proof -
  assume "sticks_ok s"
  then have "sticks_ok (snd (commonControlSend E neutral (if m_continuousMoveThread (deactivate s) = No_Thread
      then deactivate s else join_thread (deactivate s))))"
    by (auto intro!: stick_intros)
  then show ?thesis by (auto simp: handleStopMove_def Let_def intro!: sticks_ok_sendResult split: prod.splits)
qed

lemma sticks_ok_fields:
  "sticks_ok s \<Longrightarrow> sticks_ok (s\<lparr>m_lastFlytoStatus := a\<rparr>)"
  "sticks_ok s \<Longrightarrow> sticks_ok (s\<lparr>m_lastSentFlyToId := i, m_lastFlytoStatus := a, m_lastFlytoProgressTime := c\<rparr>)"
  "sticks_ok s \<Longrightarrow> sticks_ok (s\<lparr>s_transId := i\<rparr>)"
  by (simp_all add: sticks_ok_def)

lemma sticks_ok_point: "sticks_ok s \<Longrightarrow> sticks_ok (handleFlytoPoint E msg s)"
  unfolding handleFlytoPoint_def
  by (auto simp: Let_def sendRequest_def intro!: stick_intros sticks_ok_fields split: prod.splits)

lemma sticks_ok_action: "sticks_ok s \<Longrightarrow> sticks_ok (run_action E a m s)"
  by (cases a) (simp_all add: run_action_def handleGohome_def handleFlytoPointStop_def handleReturnHomeCancel_def
      sticks_ok_takeoff sticks_ok_plain sticks_ok_move sticks_ok_turn sticks_ok_continuous sticks_ok_stop sticks_ok_point)

lemma sticks_ok_command: "sticks_ok s \<Longrightarrow> sticks_ok (handleFlightControl E conv msg s)"
  by (auto simp: handleFlightControl_def updateTransId_def Let_def
      intro!: stick_intros sticks_ok_action sticks_ok_fields split: option.splits)

lemma sticks_ok_thread_turn: "sticks_ok s \<Longrightarrow> sticks_ok (continuous_turn E s)"
proof (cases "m_continuousMoveThread s")
  case (Running b)
  assume s: "sticks_ok s"
  show ?thesis
  proof (cases "m_continuousParams s")
    case (Some p)
    then have "offset_ok (c_offset p)" using s by (simp add: sticks_ok_def)
    with sticks_ok_send[OF s this, of E] s show ?thesis
      by (auto simp: continuous_turn_def Running Some Let_def intro!: stick_intros split: prod.splits)
  qed (use s in \<open>simp add: continuous_turn_def Running\<close>)
qed (simp_all add: continuous_turn_def)

lemma sticks_ok_progress:
  assumes "sticks_ok s"
  shows "sticks_ok (snd (handleFlytoProgress J E msg s))"
proof -
  have upd: "sticks_ok (s\<lparr>m_lastFlytoStatus := a, m_lastSentFlyToId := b, m_lastFlytoResult := c,
      m_lastFlytoWayPointIndex := d, m_lastFlytoRemainingDistance := e, m_lastFlytoRemainingTime := f,
      m_lastFlytoProgressTime := g\<rparr>)" for a b c d e f g using assms by (simp add: sticks_ok_def)
  show ?thesis
    unfolding handleFlytoProgress_def Let_def
    by (simp only: split: option.split bool.split prod.split if_split)
      (simp only: snd_conv assms upd sticks_ok_mode sticks_ok_result simp_thms)
qed


lemma sticks_ok_flightInfo [simp]: "sticks_ok (s\<lparr>m_flightInfo := f\<rparr>) \<longleftrightarrow> sticks_ok s"
  by (simp add: sticks_ok_def)

lemma sticks_ok_observe: "sticks_ok s \<Longrightarrow> sticks_ok (observe_mode j c s)"
  by (auto simp: observe_mode_def detectLanding_def handleFlightStatus_def Let_def emit_def sticks_ok_def)

lemma sticks_ok_osd: "parseOsdMsg J tf j msg s = (r, s') \<Longrightarrow> sticks_ok s \<Longrightarrow> sticks_ok s'"
  by (auto simp: parseOsdMsg_def parse_data_def Let_def sticks_ok_observe split: option.splits if_splits prod.splits)

lemma sticks_ok_track:
  assumes "track_entry J tf j ms tenths i msg s = Some s'" "sticks_ok s"
  shows "sticks_ok s'"
proof (cases i)
  case COMMON_REG_IND
  show ?thesis
  proof (cases msg)
    case (Some m)
    obtain r t where t: "parseOsdMsg J tf j m s = (r, t)" by fastforce
    then have "sticks_ok t" using assms(2) by (rule sticks_ok_osd)
    then show ?thesis
      using assms(1) t COMMON_REG_IND Some
      by (auto simp: track_entry_def handleOsdMsg_def packFlightInfo_def packPayloadParam_def Let_def
          intro!: sticks_ok_emit split: if_splits)
  qed (use assms COMMON_REG_IND in \<open>simp add: track_entry_def handleOsdMsg_def\<close>)
next
  case TRACK_STATE_DATA_IND
  with assms show ?thesis
    by (auto simp: track_entry_def handleStateMsg_def parseStateMsg_def sticks_ok_def Let_def
        split: option.splits if_splits bool.splits)
qed (use assms in \<open>simp add: track_entry_def\<close>)

section \<open>Runs\<close>

definition flyto_start :: flyto where
  "flyto_start = \<lparr>s_transId = [], s_uavControlMode = IDLE, s_drcHeartbeatCount = 0, s_heartbeatAckReceived = False,
     s_waitingHeartbeatSeq = 0, s_lastDrcControlTime = 0, effects = [], m_uavId = [], m_flightInfo = FlightInfo,
     m_uavModeCode = - 1, m_cloudControlActive = False, m_airborne = False, m_controlSeq = 0,
     m_continuousParams = None, m_continuousMoveThread = No_Thread, m_lastSentFlyToId = [], m_lastFlytoStatus = [],
     m_lastFlytoResult = 0, m_lastFlytoWayPointIndex = 0, m_lastFlytoRemainingDistance = Fin 0,
     m_lastFlytoRemainingTime = Fin 0, m_lastFlytoProgressTime = 0\<rparr>"

text \<open>Commands, turns of the thread, progress events and telemetry in any order; each step may find
  another environment.\<close>

inductive flyto_reach :: "'j json_api \<Rightarrow> flyto \<Rightarrow> bool" for J where
  start: "flyto_reach J flyto_start"
| command: "flyto_reach J s \<Longrightarrow> flyto_reach J (handleFlightControl E conv msg s)"
| turn: "flyto_reach J s \<Longrightarrow> flyto_reach J (continuous_turn E s)"
| progress: "flyto_reach J s \<Longrightarrow> flyto_reach J (snd (handleFlytoProgress J E msg s))"
| telemetry: "flyto_reach J s \<Longrightarrow> track_entry J tf j ms tenths i t s = Some s' \<Longrightarrow> flyto_reach J s'"

lemma flyto_reach_sticks: "flyto_reach J s \<Longrightarrow> sticks_ok s"
proof (induction rule: flyto_reach.induct)
  case start
  show ?case by (simp add: sticks_ok_def flyto_start_def)
qed (auto intro: sticks_ok_command sticks_ok_thread_turn sticks_ok_progress sticks_ok_track)

section \<open>Timed control\<close>

fun cycle_trace :: "U64 \<Rightarrow> offset \<Rightarrow> nat \<Rightarrow> effect list" where
  "cycle_trace q d 0 = []"
| "cycle_trace q d (Suc n) = Publish (stick q d) # Sleep_Ms 143 # cycle_trace (q + 1) d n"

definition timed_sends :: "nat \<Rightarrow> nat" where
  "timed_sends ms = (ms + 142) div 143"

definition timed_trace :: "U64 \<Rightarrow> offset \<Rightarrow> nat \<Rightarrow> effect list" where
  "timed_trace q d ms = cycle_trace q d (ms div 143) @
     (if ms mod 143 > 0 then [Publish (stick (q + of_nat (ms div 143)) d), Sleep_Ms (ms mod 143)] else []) @
     [Publish (stick (q + of_nat (timed_sends ms)) neutral)]"

fun total_sleep :: "effect list \<Rightarrow> nat" where
  "total_sleep [] = 0"
| "total_sleep (Sleep_Ms n # es) = n + total_sleep es"
| "total_sleep (_ # es) = total_sleep es"

lemma total_sleep_append [simp]: "total_sleep (es @ fs) = total_sleep es + total_sleep fs"
  by (induction es rule: total_sleep.induct) simp_all

lemma total_sleep_cycle: "total_sleep (cycle_trace q d n) = 143 * n"
  by (induction n arbitrary: q) simp_all

lemma cycles_split: obtains q r where "ms = 143 * q + r" "r < (143::nat)"
  using mult_div_mod_eq[of 143 ms] mod_less_divisor[of 143 ms] by (metis zero_less_numeral)

lemma timed_sends_split:
  assumes "r < 143"
  shows "timed_sends (143 * q + r) = q + (if r > 0 then 1 else 0)"
proof (cases r)
  case (Suc k)
  then have "143 * q + r + 142 = k + (q + 1) * 143" by simp
  then have "timed_sends (143 * q + r) = q + 1 + k div 143" unfolding timed_sends_def by (simp only: div_mult_self1)
  then show ?thesis using assms Suc by simp
qed (simp add: timed_sends_def)

lemma timed_sends_eq: "timed_sends ms = ms div 143 + (if ms mod 143 > 0 then 1 else 0)"
proof -
  obtain q r where "ms = 143 * q + r" "r < 143" by (rule cycles_split)
  then show ?thesis by (simp add: timed_sends_split)
qed

lemma timed_sends_bounds: "143 * timed_sends ms < ms + 143" "ms \<le> 143 * timed_sends ms"
proof -
  obtain q r where q: "ms = 143 * q + r" "r < 143" by (rule cycles_split)
  then show "143 * timed_sends ms < ms + 143" "ms \<le> 143 * timed_sends ms"
    unfolding q(1) timed_sends_split[OF q(2)] by simp_all
qed

lemma timed_sends_ceiling: "\<lceil>rat_of_nat ms / 143\<rceil> = int (timed_sends ms)"
proof (rule ceiling_unique)
  from timed_sends_bounds[of ms]
  have "rat_of_nat (143 * timed_sends ms) < rat_of_nat (ms + 143)" "rat_of_nat ms \<le> rat_of_nat (143 * timed_sends ms)"
    by (simp_all only: of_nat_less_iff of_nat_le_iff)
  then show "rat_of_int (int (timed_sends ms)) - 1 < rat_of_nat ms / 143" "rat_of_nat ms / 143 \<le> rat_of_int (int (timed_sends ms))"
    by (simp_all add: field_simps)
qed

text \<open>A stick message that does not convert to JSON is not sent, and the command ends there: of a trace
  the part before the first such message is left, and the sequence number has been counted up for that
  message too.\<close>

definition sendable :: "flyto_env \<Rightarrow> effect \<Rightarrow> bool" where
  "sendable E e = (case e of Publish m \<Rightarrow> js E m | _ \<Rightarrow> True)"

fun sticks :: "effect list \<Rightarrow> nat" where
  "sticks [] = 0"
| "sticks (Publish m # es) = sticks es + 1"
| "sticks (_ # es) = sticks es"

lemma sticks_append [simp]: "sticks (es @ fs) = sticks es + sticks fs"
  by (induction es rule: sticks.induct) simp_all

lemma sticks_cycle: "sticks (cycle_trace q d n) = n"
  by (induction n arbitrary: q) simp_all

lemma sticks_timed: "sticks (timed_trace q d ms) = timed_sends ms + 1"
  by (simp add: timed_trace_def sticks_cycle timed_sends_eq)

definition all_sent :: "flyto_env \<Rightarrow> effect list \<Rightarrow> bool" where
  "all_sent E T \<longleftrightarrow> (\<forall>e\<in>set T. sendable E e)"

lemma all_sent_simps [simp]:
  "all_sent E []" "all_sent E (e # T) \<longleftrightarrow> sendable E e \<and> all_sent E T"
  "all_sent E (A @ B) \<longleftrightarrow> all_sent E A \<and> all_sent E B"
  "sendable E (Publish m) = js E m" "sendable E (Sleep_Ms n)"
  by (auto simp: all_sent_def sendable_def)

lemma all_sent_takeWhile: "all_sent E T \<Longrightarrow> takeWhile (sendable E) T = T"
  "takeWhile (sendable E) T = T \<longleftrightarrow> all_sent E T"
  by (simp_all add: all_sent_def)

lemma takeWhile_stops: "\<not> all_sent E A \<Longrightarrow> takeWhile (sendable E) (A @ B) = takeWhile (sendable E) A"
  by (auto simp: all_sent_def intro: takeWhile_append1)

definition after_trace :: "flyto_env \<Rightarrow> effect list \<Rightarrow> flyto \<Rightarrow> flyto" where
  "after_trace E T s = (let es = takeWhile (sendable E) T in
     s\<lparr>m_controlSeq := m_controlSeq s + of_nat (sticks es + (if all_sent E T then 0 else 1)), effects := effects s @ es\<rparr>)"

lemma after_trace_append:
  "after_trace E (A @ B) s =
     (if all_sent E A then after_trace E B (after_trace E A s) else after_trace E A s)"
proof (cases "all_sent E A")
  case True
  have "takeWhile (sendable E) (A @ B) = A @ takeWhile (sendable E) B"
    using True by (simp add: all_sent_def takeWhile_append2)
  then show ?thesis using True by (simp add: after_trace_def Let_def all_sent_takeWhile(1) add.assoc)
next
  case False
  then show ?thesis by (simp add: after_trace_def Let_def takeWhile_stops)
qed

lemma seq_after_trace: "all_sent E A \<Longrightarrow> m_controlSeq (after_trace E A s) = m_controlSeq s + of_nat (sticks A)"
  by (simp add: after_trace_def all_sent_takeWhile(1))

lemma commonControlSend_trace:
  "commonControlSend E d s = (js E (stick (m_controlSeq s + 1) d), after_trace E [Publish (stick (m_controlSeq s + 1) d)] s)"
  by (simp add: commonControlSend_def after_trace_def emit_def Let_def)

lemma sleep_trace:
  "js E m \<Longrightarrow> emit (Sleep_Ms n) (after_trace E [Publish m] s) = after_trace E [Publish m, Sleep_Ms n] s"
  "\<not> js E m \<Longrightarrow> after_trace E (Publish m # Sleep_Ms n # es) s = after_trace E [Publish m] s"
  by (simp_all add: after_trace_def emit_def Let_def)

lemma executeCycleControl_run:
  "executeCycleControl E d n s = (all_sent E (cycle_trace (m_controlSeq s + 1) d n),
     after_trace E (cycle_trace (m_controlSeq s + 1) d n) s)"
proof (induction n arbitrary: s)
  case 0
  then show ?case by (simp add: after_trace_def)
next
  case (Suc n)
  let ?p = "stick (m_controlSeq s + 1) d"
  show ?case
  proof (cases "js E ?p")
    case False
    then show ?thesis by (simp add: commonControlSend_trace sleep_trace(2))
  next
    case True
    let ?s = "after_trace E [Publish ?p, Sleep_Ms 143] s"
    have q: "m_controlSeq ?s = m_controlSeq s + 1" using True by (simp add: seq_after_trace)
    have T: "cycle_trace (m_controlSeq s + 1) d (Suc n) = [Publish ?p, Sleep_Ms 143] @ cycle_trace (m_controlSeq s + 1 + 1) d n"
      by simp
    have "executeCycleControl E d (Suc n) s = executeCycleControl E d n ?s"
      using True by (simp add: commonControlSend_trace sleep_trace(1) CYCLE_DURATION_MS_def)
    then show ?thesis
      unfolding T after_trace_append Suc.IH q using True by simp
  qed
qed

lemma executeTimedControl_run:
  fixes d :: offset
  assumes "to_ms E x v = int ms"
  defines "T \<equiv> \<lambda>s. timed_trace (m_controlSeq s + 1) d ms"
  shows "executeTimedControl E d x v s = (all_sent E (T s), after_trace E (T s) s)"
proof -
  let ?C = "cycle_trace (m_controlSeq s + 1) d (ms div 143)"
  define s1 where "s1 = after_trace E ?C s"
  define R where "R = (if ms mod 143 > 0 then [Publish (stick (m_controlSeq s1 + 1) d), Sleep_Ms (ms mod 143)] else [])"
  define s2 where "s2 = after_trace E R s1"
  define N where "N = [Publish (stick (m_controlSeq s2 + 1) neutral)]"
  have div: "int ms sdiv 143 = int (ms div 143)" "int ms smod 143 = int (ms mod 143)"
    by (cases "ms = 0"; simp add: signed_divide_int_def signed_modulo_int_def zdiv_int zmod_int)+
  have r: "(if 0 < ms mod 143 then case commonControlSend E d s1 of (ok, s) \<Rightarrow>
        if ok then (True, emit (Sleep_Ms (ms mod 143)) s) else (False, s) else (True, s1)) = (all_sent E R, s2)"
    by (auto simp: commonControlSend_trace s2_def R_def sleep_trace) (simp add: after_trace_def)
  have c: "executeCycleControl E d (ms div 143) s = (all_sent E ?C, s1)"
    by (simp add: executeCycleControl_run s1_def)
  have run: "executeTimedControl E d x v s =
      (if \<not> all_sent E ?C then (False, s1) else if \<not> all_sent E R then (False, s2)
       else (all_sent E N, after_trace E N s2))"
    unfolding executeTimedControl_def calculateTimingParameters_def CYCLE_DURATION_MS_def assms(1) div Let_def
      prod.case nat_int c of_nat_0_less_iff
    by (cases "all_sent E ?C") (simp_all add: r, simp add: commonControlSend_trace N_def)
  have q1: "m_controlSeq s1 = m_controlSeq s + of_nat (ms div 143)" if "all_sent E ?C"
    using seq_after_trace[OF that, of s] by (simp add: s1_def sticks_cycle)
  have q2: "m_controlSeq s2 = m_controlSeq s1 + (if ms mod 143 > 0 then 1 else 0)" if "all_sent E R"
    using seq_after_trace[OF that, of s1] by (simp add: s2_def R_def split: if_splits)
  have T: "T s = ?C @ R @ N" if "all_sent E ?C" "all_sent E R"
    by (simp add: T_def timed_trace_def N_def q2[OF that(2)]) (simp add: R_def q1[OF that(1)] timed_sends_eq algebra_simps)
  have T1: "\<exists>X. T s = ?C @ X" by (simp add: T_def timed_trace_def)
  have T2: "\<exists>X. T s = ?C @ R @ X" if "all_sent E ?C"
    by (simp add: T_def timed_trace_def R_def q1[OF that] algebra_simps)
  show ?thesis
  proof (cases "all_sent E ?C")
    case False
    obtain X where "T s = ?C @ X" using T1 by blast
    then show ?thesis using False run by (simp add: after_trace_append s1_def)
  next
    case C: True
    show ?thesis
    proof (cases "all_sent E R")
      case False
      obtain X where "T s = ?C @ R @ X" using T2[OF C] by blast
      then show ?thesis using C False run by (simp add: after_trace_append s1_def[symmetric] s2_def)
    next
      case True
      then show ?thesis using C run T[OF C True]
        by (simp add: after_trace_append s1_def[symmetric] s2_def[symmetric])
    qed
  qed
qed


section \<open>Refused commands\<close>

text \<open>What a command of the sticks needs: the link, a direction of its kind, and a distance, angle or
  speed in range.\<close>

definition stick_command_ok :: "flyto_env \<Rightarrow> flight_control_message \<Rightarrow> int \<Rightarrow> bool" where
  "stick_command_ok E m a \<longleftrightarrow> drcState E \<noteq> DRC_STATE_INACTIVE \<and>
     (case stoi (fc_direction m) of
        None \<Rightarrow> False
      | Some d \<Rightarrow> 1 \<le> d \<and> d \<le> (if a = 6 then 2 else 6) \<and>
          (if a = 4 then (case stof E (fc_distance m) of None \<Rightarrow> False | Some x \<Rightarrow> \<not> fl_le x (Fin 0))
           else if a = 6 then (case stof E (fc_angle m) of None \<Rightarrow> False | Some x \<Rightarrow> \<not> fl_le x (Fin 0))
           else (case fc_max_speed m of None \<Rightarrow> True
                 | Some v \<Rightarrow> 0 < rnd E (of_nat (unat v)) \<and> rnd E (of_nat (unat v)) \<le> axisMaxSpeed (MoveMode_of d))))"

definition stick_failed_code :: "int \<Rightarrow> U16" where
  "stick_failed_code a = (if a = 4 then STATE_FLYTO_POSITION_MOVE_FAILED else if a = 6 then STATE_FLYTO_TRUN_FAILED
     else STATE_FLYTO_CONTINUOUS_MOVE_FAILED)"

text \<open>A state after a failure report: idle, nothing sent but the report.\<close>

definition failed_with :: "flyto_env \<Rightarrow> U16 \<Rightarrow> flyto \<Rightarrow> flyto \<Rightarrow> bool" where
  "failed_with E code s s' \<longleftrightarrow> (\<exists>text. s' = s\<lparr>s_uavControlMode := IDLE,
     effects := effects s @ uav_reports (js E) code text 1 (s_transId s)\<rparr>)"

lemma sendResult_failed: "failed_with E code s (sendResult E succ code False what err (set_mode m s))"
  by (auto simp: failed_with_def sendResult_def handleUavResult_eq setUavControlMode_def)

lemma axisMaxSpeed_ge: "3 \<le> axisMaxSpeed m" "5 \<le> axisMaxSpeed m"
  by (cases m; simp add: axisMaxSpeed_def kAscendMaxSpeed_def kDescendMaxSpeed_def kHorizontalMaxSpeed_def)+

lemma refused_move:
  assumes "\<not> stick_command_ok E m 4"
  shows "failed_with E STATE_FLYTO_POSITION_MOVE_FAILED s (handleMove E m (set_mode k s))"
  using assms sendResult_failed[of E STATE_FLYTO_POSITION_MOVE_FAILED s] axisMaxSpeed_ge
  by (simp add: handleMove_def stick_command_ok_def ensureFlightControlAndMode_def Let_def not_less split: option.splits)
    auto

lemma refused_turn:
  assumes "\<not> stick_command_ok E m 6"
  shows "failed_with E STATE_FLYTO_TRUN_FAILED s (handleTurn E m (set_mode k s))"
  using assms sendResult_failed[of E STATE_FLYTO_TRUN_FAILED s]
  by (simp add: handleTurn_def stick_command_ok_def ensureFlightControlAndMode_def Let_def split: option.splits)
    auto

lemma refused_continuous:
  assumes "\<not> stick_command_ok E m 8"
  shows "failed_with E STATE_FLYTO_CONTINUOUS_MOVE_FAILED s (handleContinuousMove E m (set_mode k s))"
  using assms sendResult_failed[of E STATE_FLYTO_CONTINUOUS_MOVE_FAILED s] axisMaxSpeed_ge
  by (auto simp: handleContinuousMove_def stick_command_ok_def ensureFlightControlAndMode_def Let_def not_less split: option.splits)


section \<open>The thread of a continuous move\<close>

text \<open>Once the aircraft has left manual flight the thread ends, without another stick command and with
  the control mode idle; a thread that has ended sends nothing.\<close>

lemma takeover_ends_thread:
  assumes "m_continuousMoveThread s = Running True" "m_continuousParams s = Some p" "c_active p"
    "getUavControlMode s = FLYTO_MODE" "\<not> isUavUnderManualControl (getUavModeCode s)"
  shows "m_continuousMoveThread (continuous_turn E s) = Exited" "effects (continuous_turn E s) = effects s"
    "getUavControlMode (continuous_turn E s) = IDLE"
  using assms by (simp_all add: continuous_turn_def Let_def deactivate_def setUavControlMode_def getUavControlMode_def)

lemma ended_thread_silent: "m_continuousMoveThread s \<in> {No_Thread, Exited} \<Longrightarrow> continuous_turn E s = s"
  by (auto simp: continuous_turn_def)

text \<open>After a stop command no thread is left.\<close>

lemma stop_leaves_no_thread: "m_continuousMoveThread (handleStopMove E msg s) = No_Thread"
  by (simp add: handleStopMove_def Let_def commonControlSend_def sendResult_def handleUavResult_eq setUavControlMode_def
      join_thread_def deactivate_def emit_def)

text \<open>A distance that is not a number passes the check for a positive distance.\<close>

lemma nan_distance_accepted:
  assumes "drcState E \<noteq> DRC_STATE_INACTIVE" "stoi (fc_direction m) = Some 1" "stof E (fc_distance m) = Some NaN"
  shows "stick_command_ok E m 4"
  using assms by (simp add: stick_command_ok_def)

section \<open>Properties\<close>

text \<open>C3. Whatever is commanded, in any order with the turns of the thread, progress events and telemetry,
  and with any link, conversion and answers: every stick message ever sent moves at most one axis, by
  at most 660 from the centre 1024.\<close>

theorem sticks_in_range:
  assumes "flyto_reach J s" "Publish (Stick_Control n t r p y) \<in> set (effects s)"
  shows "(\<forall>v\<in>{t, r, p, y}. 364 \<le> v \<and> v \<le> 1684) \<and> length (filter (\<lambda>v. v \<noteq> 1024) [t, r, p, y]) \<le> 1"
proof -
  have "one_axis [t - 1024, r - 1024, p - 1024, y - 1024]"
    using flyto_reach_sticks[OF assms(1)] assms(2) by (auto simp: sticks_ok_def)
  then show ?thesis by (auto simp: one_axis_def split: if_splits)
qed

definition good_link :: flyto_env where
  "good_link = \<lparr>js = \<lambda>_. True, drcState = 2, stof = \<lambda>_. Some (Fin 1), to_ms = \<lambda>_ _. 333, rnd = id,
     answer = \<lambda>_. (True, []), new_id = ''id'', clock = 0, takeoff_cfg = \<lparr>rth_mode = 0, rth_altitude = Fin 50, rc_lost_action = 0,
       commander_mode_lost_action = 0, commander_flight_mode = 1, commander_flight_height = Fin 20, to_max_speed = Fin 5,
       flight_safety_advance_check = 1\<rparr>, blocked = \<lambda>_ _. 0\<rparr>"

definition move_command :: "string \<Rightarrow> string \<Rightarrow> string \<Rightarrow> flight_control_message" where
  "move_command a d x = \<lparr>fc_action = a, fc_trans_id = ''t'', fc_direction = d, fc_distance = x, fc_angle = x,
     fc_longitude = Fin 0, fc_latitude = Fin 0, fc_height = Fin 0, fc_max_speed = None\<rparr>"

lemmas flyto_eval = good_link_def move_command_def handleFlightControl_def run_action_def stoi_def is_blank_def
  is_digit_def digit_value_def valid_actions_def m_actionHandlerMap_def ensureFlightControlAndMode_def DRC_STATE_INACTIVE_def
  Let_def updateTransId_def setUavControlMode_def

lemma sticks_in_range_witness:
  "\<exists>s. flyto_reach toy_json s \<and> Publish (Stick_Control 1 (1024 + 463) 1024 1024 1024) \<in> set (effects s) \<and>
     (1024 + 463 :: int) \<le> 1684"
proof -
  define s where "s = handleFlightControl good_link (\<lambda>_. Some (move_command ''4'' ''1'' ''1'')) [] flyto_start"
  have "flyto_reach toy_json s" unfolding s_def by (intro flyto_reach.intros)
  moreover have "Publish (Stick_Control 1 (1024 + 463) 1024 1024 1024) \<in> set (effects s)"
    by (simp add: s_def flyto_eval handleMove_def MoveMode_of_def axisMaxSpeed_def kAscendMaxSpeed_def
        calculateMoveOffset_def speedToOffset_def kAscendSpeedMap_def neutral_def executeTimedControl_def
        calculateTimingParameters_def CYCLE_DURATION_MS_def signed_divide_int_def signed_modulo_int_def eval_nat_numeral
        commonControlSend_def emit_def stick_def stickControlCenter_def sendResult_def handleUavResult_eq flyto_start_def)
  ultimately show ?thesis using sticks_in_range[of toy_json s 1 "1024 + 463" 1024 1024 1024] by auto
qed

text \<open>C27. The trace \<open>T\<close> of a timed move of \<open>ms\<close> milliseconds is the stick command once per started cycle of 143
  ms, with consecutive sequence numbers, and then the neutral position; the pauses between the
  commands add up to exactly \<open>ms\<close>. The move sends \<open>T\<close> up to the first stick message that does not convert to
  JSON: it returns true and has sent all of \<open>T\<close>, the neutral position included, exactly when all
  convert; otherwise it returns false right there, without the neutral position, and the failed message
  has used up a sequence number.\<close>

theorem timed_move_trace:
  assumes "to_ms E x v = int ms" "T = timed_trace (m_controlSeq s + 1) d ms" "es = takeWhile (sendable E) T"
  shows "executeTimedControl E d x v s = (es = T, s\<lparr>m_controlSeq := m_controlSeq s + of_nat (sticks es + (if es = T then 0 else 1)),
      effects := effects s @ es\<rparr>) \<and>
    total_sleep T = ms \<and> sticks T = nat \<lceil>rat_of_nat ms / 143\<rceil> + 1 \<and>
    last T = Publish (stick (m_controlSeq s + of_nat (sticks T)) neutral)"
proof -
  have "total_sleep T = 143 * (ms div 143) + ms mod 143"
    using mult_div_mod_eq[of 143 ms] by (auto simp add: assms(2) timed_trace_def total_sleep_cycle)
  moreover have "sticks T = timed_sends ms + 1" by (simp add: assms(2) sticks_timed)
  moreover have "last T = Publish (stick (m_controlSeq s + of_nat (timed_sends ms + 1)) neutral)"
    by (simp add: assms(2) timed_trace_def algebra_simps)
  ultimately show ?thesis
    using executeTimedControl_run[OF assms(1), of d s] assms(2,3)
    by (simp add: timed_sends_ceiling after_trace_def Let_def all_sent_takeWhile(2) del: takeWhile_eq_all_conv)
qed

text \<open>C29. A move, turn or continuous move without the link, or with a direction, distance, angle or
  speed out of range, is refused: the only effects are the failure reports of that command, under its
  transaction id, no stick is moved, a running continuous move keeps its parameters, and the control
  mode is idle.\<close>

theorem refused_stick_command:
  assumes "conv msg = Some m" "stoi (fc_action m) = Some a" "a = 4 \<or> a = 6 \<or> a = 8" "\<not> stick_command_ok E m a"
  shows "\<exists>text. handleFlightControl E conv msg s = s\<lparr>s_transId := fc_trans_id m, s_uavControlMode := IDLE,
    effects := effects s @ uav_reports (js E) (stick_failed_code a) text 1 (fc_trans_id m)\<rparr>"
proof -
  let ?s = "updateTransId (fc_trans_id m) s"
  have "failed_with E (stick_failed_code a) ?s (handleFlightControl E conv msg s)"
    using assms refused_move[of E m ?s] refused_turn[of E m ?s] refused_continuous[of E m ?s]
    by (auto simp: handleFlightControl_def stick_failed_code_def valid_actions_def m_actionHandlerMap_def run_action_def Let_def)
  then show ?thesis by (simp add: failed_with_def updateTransId_def)
qed


text \<open>A climb of one metre, once with every message converted, once with the third stick message failing.\<close>

lemma timed_move_trace_witness:
  "executeTimedControl good_link (neutral\<lparr>throttle := 463\<rparr>) (Fin 1) (Fin 3) flyto_start =
     (True, flyto_start\<lparr>m_controlSeq := 4, effects := timed_trace 1 (neutral\<lparr>throttle := 463\<rparr>) 333\<rparr>) \<and>
   executeTimedControl (good_link\<lparr>js := \<lambda>m. m \<noteq> stick 3 (neutral\<lparr>throttle := 463\<rparr>)\<rparr>) (neutral\<lparr>throttle := 463\<rparr>) (Fin 1) (Fin 3)
       flyto_start =
     (False, flyto_start\<lparr>m_controlSeq := 3, effects := [Publish (stick 1 (neutral\<lparr>throttle := 463\<rparr>)), Sleep_Ms 143,
        Publish (stick 2 (neutral\<lparr>throttle := 463\<rparr>)), Sleep_Ms 143]\<rparr>)"
proof -
  let ?d = "neutral\<lparr>throttle := 463\<rparr>"
  let ?bad = "good_link\<lparr>js := \<lambda>m. m \<noteq> stick 3 ?d\<rparr>"
  have t: "timed_trace 1 ?d 333 = [Publish (stick 1 ?d), Sleep_Ms 143, Publish (stick 2 ?d), Sleep_Ms 143,
      Publish (stick 3 ?d), Sleep_Ms 47, Publish (stick 4 neutral)]"
  proof -
    have "(333::nat) div 143 = Suc (Suc 0)" "(333::nat) mod 143 = 47" "timed_sends 333 = 3" by (simp_all add: timed_sends_def)
    then show ?thesis by (simp add: timed_trace_def numeral_2_eq_2)
  qed
  have ms: "to_ms good_link (Fin 1) (Fin 3) = int 333" "to_ms ?bad (Fin 1) (Fin 3) = int 333"
    "m_controlSeq flyto_start = 0" "effects flyto_start = []"
    by (simp_all add: good_link_def flyto_start_def)
  have n: "sticks (timed_trace 1 ?d 333) = 4" by (simp add: t)
  have good: "takeWhile (sendable good_link) (timed_trace 1 ?d 333) = timed_trace 1 ?d 333"
    by (simp add: t sendable_def good_link_def)
  have bad: "takeWhile (sendable ?bad) (timed_trace 1 ?d 333) = [Publish (stick 1 ?d), Sleep_Ms 143, Publish (stick 2 ?d), Sleep_Ms 143]"
    by (simp add: t sendable_def stick_def)
  show ?thesis
    using conjunct1[OF timed_move_trace[OF ms(1) refl refl, of ?d flyto_start]]
      conjunct1[OF timed_move_trace[OF ms(2) refl refl, of ?d flyto_start]]
    by (simp add: ms(3,4) good bad n) (simp add: t)
qed

lemma refused_stick_command_witness:
  "\<exists>text. handleFlightControl good_link (\<lambda>_. Some (move_command ''4'' ''9'' ''1'')) [] flyto_start =
     flyto_start\<lparr>s_transId := ''t'', effects := uav_reports (\<lambda>_. True) STATE_FLYTO_POSITION_MOVE_FAILED text 1 ''t''\<rparr>"
proof -
  have "stoi (fc_action (move_command ''4'' ''9'' ''1'')) = Some 4" "\<not> stick_command_ok good_link (move_command ''4'' ''9'' ''1'') 4"
    by (simp_all add: flyto_eval stick_command_ok_def)
  from refused_stick_command[of "\<lambda>_. Some (move_command ''4'' ''9'' ''1'')" "[]", OF _ this(1) _ this(2), of flyto_start]
  show ?thesis by (simp add: move_command_def good_link_def stick_failed_code_def flyto_start_def)
qed

end
