(* ===== verification/Payload.thy ===== *)
theory Payload
  imports Track
begin

text \<open>
  The payload controllers: \<^verbatim>\<open>cloud/payload/cameraController.{h,cpp}\<close> and
  \<^verbatim>\<open>cloud/payload/gimbalController.{h,cpp}\<close>.

  Commands for camera and gimbal become requests over the DRC link that wait for their answer.  The
  answers, the rounding of \<open>float\<close> operations, the time that has passed in each turn of a
  continuous zoom and a stop that another thread asks for are parameters; texts are in English.
\<close>

section \<open>State and environment\<close>

record payload = track +
  m_currentZoomFactor :: fl
  m_stopZoom :: bool
  cam_payloadIndex :: string
  gim_payloadIndex :: string

record payload_env =
  p_js :: "pub_message \<Rightarrow> bool"
  p_rnd :: "rat \<Rightarrow> rat"
  drc_answer :: "U32 \<Rightarrow> drc_request \<Rightarrow> bool \<times> string"
  elapsed_ms :: "nat \<Rightarrow> nat"  \<comment> \<open>at the start of turn \<open>n\<close> of a continuous zoom\<close>
  stop_asked :: "nat \<Rightarrow> bool"  \<comment> \<open>by another thread, before turn \<open>n\<close>\<close>

definition m_zoomFactorMin :: rat where "m_zoomFactorMin = 2"
definition m_zoomFactorMax :: rat where "m_zoomFactorMax = 400"

section \<open>Camera\<close>

text \<open>The index of the payload, fetched for every request.\<close>

definition current_payload :: "payload \<Rightarrow> string" where
  "current_payload s = (if getPayloadIndex s = [] then ''99-0-0'' else getPayloadIndex s)"

definition commonZoomDataPackage :: "payload \<Rightarrow> drc_request \<times> payload" where
  "commonZoomDataPackage s =
     (let i = current_payload s in (Focal_Length_Set i ''zoom'' (m_currentZoomFactor s), s\<lparr>cam_payloadIndex := i\<rparr>))"

definition report :: "payload_env \<Rightarrow> U16 \<Rightarrow> string \<Rightarrow> int \<Rightarrow> payload \<Rightarrow> payload" where
  "report E code text res s = snd (handleUavResult (p_js E) code text res s)"

definition controlResult :: "payload_env \<Rightarrow> bool \<Rightarrow> string \<Rightarrow> string \<Rightarrow> payload \<Rightarrow> payload" where
  "controlResult E ret what err s =
     (if ret then report E STATE_CAMERA_ZOOM (what @ '' ok'') 0 s
      else report E STATE_CAMERA_ZOOM_FAILED (what @ '' failed'' @ err) 1 s)"

text \<open>A request takes the next sequence number of the DRC link.\<close>

definition drc_send :: "payload_env \<Rightarrow> drc_request \<Rightarrow> payload \<Rightarrow> (bool \<times> string) \<times> payload" where
  "drc_send E q s = (let n = s_drcHeartbeatCount s in
     (drc_answer E n q, emit (Drc_Request n q) (s\<lparr>s_drcHeartbeatCount := n + 1\<rparr>)))"

definition camera_sendRequest :: "payload_env \<Rightarrow> drc_request \<Rightarrow> string \<Rightarrow> bool \<Rightarrow> payload \<Rightarrow> bool \<times> payload" where
  "camera_sendRequest E q what is_up_result s =
     (let ((ret, err), s) = drc_send E q s
      in (ret, if is_up_result then controlResult E ret what err s else s))"

definition set_zoom :: "fl \<Rightarrow> payload \<Rightarrow> payload" where
  "set_zoom z s = s\<lparr>m_currentZoomFactor := z\<rparr>"

definition zoom_request :: "payload_env \<Rightarrow> string \<Rightarrow> bool \<Rightarrow> payload \<Rightarrow> bool \<times> payload" where
  "zoom_request E what up s = (let (q, s) = commonZoomDataPackage s in camera_sendRequest E q what up s)"

definition specifyZoomFator :: "payload_env \<Rightarrow> fl \<Rightarrow> payload \<Rightarrow> payload" where
  "specifyZoomFator E z s = snd (zoom_request E ''focal length'' True (set_zoom z s))"

definition cameraZoomOut :: "payload_env \<Rightarrow> payload \<Rightarrow> bool \<times> payload" where
  "cameraZoomOut E s =
     (let z = m_currentZoomFactor s in
      if fl_le z (Fin m_zoomFactorMin)
      then (False, report E STATE_CAMERA_ZOOM_FAILED ''already at the minimum'' 1 s)
      else let step = fl_max (Fin (p_rnd E (1/10))) (fl_scale (p_rnd E) (p_rnd E (2/10)) z);
               z' = fl_max (fl_add (p_rnd E) z (fl_neg step)) (Fin m_zoomFactorMin)
           in (True, snd (zoom_request E ''zoom out'' True (set_zoom z' s))))"

definition cameraZoomIn :: "payload_env \<Rightarrow> payload \<Rightarrow> bool \<times> payload" where
  "cameraZoomIn E s =
     (let z = m_currentZoomFactor s in
      if fl_le (Fin m_zoomFactorMax) z
      then (False, report E STATE_CAMERA_ZOOM_FAILED ''already at the maximum'' 1 s)
      else let step = fl_max (Fin (p_rnd E (1/10))) (fl_scale (p_rnd E) (p_rnd E (2/10)) z);
               z' = fl_min (fl_add (p_rnd E) z step) (Fin m_zoomFactorMax)
           in (True, snd (zoom_request E ''zoom in'' True (set_zoom z' s))))"

definition cameraZoomMin :: "payload_env \<Rightarrow> payload \<Rightarrow> bool \<times> payload" where
  "cameraZoomMin E s = (True, snd (zoom_request E ''zoom to minimum'' True (set_zoom (Fin m_zoomFactorMin) s)))"

definition cameraZoomMax :: "payload_env \<Rightarrow> payload \<Rightarrow> bool \<times> payload" where
  "cameraZoomMax E s = (True, snd (zoom_request E ''zoom to maximum'' True (set_zoom (Fin m_zoomFactorMax) s)))"

text \<open>The loop of a continuous zoom, with \<open>n\<close> turns left before \<open>maxIterations\<close>.\<close>

definition maxIterations :: nat where "maxIterations = 20"

definition next_zoom :: "payload_env \<Rightarrow> bool \<Rightarrow> fl \<Rightarrow> fl" where
  "next_zoom E isZoomIn z =
     (let step = fl_max (Fin (p_rnd E (1/10))) (fl_scale (p_rnd E) (p_rnd E (1/10)) z);
          new = fl_add (p_rnd E) z (if isZoomIn then step else fl_neg step)
      in if isZoomIn then fl_min new (Fin m_zoomFactorMax) else fl_max new (Fin m_zoomFactorMin))"

fun zoom_loop :: "payload_env \<Rightarrow> bool \<Rightarrow> nat \<Rightarrow> nat \<Rightarrow> nat \<Rightarrow> payload \<Rightarrow> payload" where
  "zoom_loop E isZoomIn durationMs intervalMs 0 s = s"
| "zoom_loop E isZoomIn durationMs intervalMs (Suc n) s =
     (let iterations = maxIterations - Suc n; z = m_currentZoomFactor s in
      if durationMs \<le> elapsed_ms E iterations \<or> m_stopZoom s \<or> stop_asked E iterations then s
      else if (isZoomIn \<and> fl_le (Fin m_zoomFactorMax) z) \<or> (\<not> isZoomIn \<and> fl_le z (Fin m_zoomFactorMin))
      then set_zoom (Fin (if isZoomIn then m_zoomFactorMax else m_zoomFactorMin))
             (report E STATE_CAMERA_ZOOM_FAILED ''limit reached'' 1 s)
      else let (ret, s) = zoom_request E ''continuous zoom'' (iterations = 0) (set_zoom (next_zoom E isZoomIn z) s)
           in if \<not> ret then s
              else zoom_loop E isZoomIn durationMs intervalMs n (emit (Sleep_Ms intervalMs) s))"

definition continuousZoom :: "payload_env \<Rightarrow> bool \<Rightarrow> nat \<Rightarrow> nat \<Rightarrow> payload \<Rightarrow> payload" where
  "continuousZoom E isZoomIn durationMs intervalMs s = zoom_loop E isZoomIn durationMs intervalMs maxIterations s"

text \<open>The operation mutex is taken between the two assignments.\<close>

definition startZoomOperation :: "payload_env \<Rightarrow> bool \<Rightarrow> payload \<Rightarrow> payload" where
  "startZoomOperation E isZoomIn s =
     (let s = s\<lparr>m_stopZoom := True\<rparr>; s = s\<lparr>m_stopZoom := False\<rparr> in continuousZoom E isZoomIn 5000 200 s)"

definition cameraZoomStop :: "payload_env \<Rightarrow> payload \<Rightarrow> bool \<times> payload" where
  "cameraZoomStop E s = (True, report E STATE_CAMERA_ZOOM_FAILED ''continuous zoom stopped'' 0 (s\<lparr>m_stopZoom := True\<rparr>))"

record camera_control_message =
  cc_direction :: U32
  cc_trans_id :: string

definition camera_type_handler :: "payload_env \<Rightarrow> U32 \<Rightarrow> (payload \<Rightarrow> payload) option" where
  "camera_type_handler E t =
     (if t = 0 then Some (\<lambda>s. snd (cameraZoomOut E s)) else if t = 1 then Some (\<lambda>s. snd (cameraZoomIn E s))
      else if t = 2 then Some (\<lambda>s. snd (cameraZoomMin E s)) else if t = 3 then Some (\<lambda>s. snd (cameraZoomMax E s))
      else if t = 4 then Some (startZoomOperation E True) else if t = 5 then Some (startZoomOperation E False)
      else if t = 6 then Some (\<lambda>s. snd (cameraZoomStop E s)) else None)"

definition handleCameraControl ::
  "payload_env \<Rightarrow> (string \<Rightarrow> camera_control_message option) \<Rightarrow> string \<Rightarrow> payload \<Rightarrow> payload" where
  "handleCameraControl E conv msg s = (case conv msg of
     None \<Rightarrow> report E STATE_CAMERA_ZOOM_FAILED ''not a camera command'' 1 s
   | Some m \<Rightarrow>
       let s = set_zoom (getZoomFactor s) (updateTransId (cc_trans_id m) s) in
       if fl_less (m_currentZoomFactor s) (Fin 1)
       then report E STATE_CAMERA_ZOOM_FAILED ''zoom factor below 1'' 1 s
       else case camera_type_handler E (cc_direction m) of
         Some h \<Rightarrow> h s
       | None \<Rightarrow> report E STATE_CAMERA_ZOOM_FAILED ''unknown camera command'' 1 s)"

section \<open>Gimbal\<close>

record gimbal_control_message =
  gc_type :: U32
  gc_direction :: U32
  gc_centerx :: fl
  gc_centery :: fl
  gc_width :: fl
  gc_height :: fl
  gc_pitch :: fl
  gc_yaw :: fl
  gc_zoom_factor :: fl
  gc_trans_id :: string
  gc_camera_type :: "string option"

definition gimbal_sendResult :: "payload_env \<Rightarrow> bool \<Rightarrow> string \<Rightarrow> string \<Rightarrow> payload \<Rightarrow> payload" where
  "gimbal_sendResult E ret what err s =
     (if ret then report E STATE_GIMBAL_CONTROL (what @ '' ok'') 0 s
      else report E STATE_GIMBAL_CONTROL_FAILED (what @ '' failed'' @ err) 1 s)"

definition sendRequestAndResult :: "payload_env \<Rightarrow> drc_request \<Rightarrow> string \<Rightarrow> payload \<Rightarrow> bool \<times> payload" where
  "sendRequestAndResult E q what s =
     (let ((ret, err), s) = drc_send E q s in (ret, gimbal_sendResult E ret what err s))"

definition gimbalReset :: "payload_env \<Rightarrow> payload \<Rightarrow> payload" where
  "gimbalReset E s = snd (sendRequestAndResult E (Gimbal_Reset (gim_payloadIndex s) 0) ''gimbal reset'' s)"

text \<open>Yaw and pitch speed for a direction.\<close>

definition getGimbalAngleOffset :: "U32 \<Rightarrow> fl \<times> fl" where
  "getGimbalAngleOffset d = (if d = 0 then (Fin 0, Fin 2) else if d = 1 then (Fin 0, Fin (- 2))
     else if d = 2 then (Fin (- 2), Fin 0) else if d = 3 then (Fin 2, Fin 0) else (Fin 0, Fin 0))"

definition gimbalAngleDataPackage :: "payload \<Rightarrow> fl \<times> fl \<Rightarrow> drc_request" where
  "gimbalAngleDataPackage s d = Screen_Drag (gim_payloadIndex s) True (snd d) (fst d)"

definition handleCameraScreenDrag :: "payload_env \<Rightarrow> gimbal_control_message \<Rightarrow> payload \<Rightarrow> payload" where
  "handleCameraScreenDrag E m s =
     (let d = gc_direction m in
      if d = 6 then gimbalReset E s
      else if d = 4 \<or> d = 5 \<or> d = 7 then report E STATE_GIMBAL_CONTROL_FAILED ''direction not supported'' 1 s
      else snd (sendRequestAndResult E (gimbalAngleDataPackage s (getGimbalAngleOffset d)) ''gimbal turn'' s))"

definition handleCameraAim :: "payload_env \<Rightarrow> gimbal_control_message \<Rightarrow> payload \<Rightarrow> bool \<times> payload" where
  "handleCameraAim E m s = sendRequestAndResult E
     (Camera_Aim (gim_payloadIndex s) (case gc_camera_type m of Some t \<Rightarrow> t | None \<Rightarrow> ''wide'') False (gc_centerx m) (gc_centery m))
     ''gimbal aim'' s"

definition handleCameraFrameZoom :: "payload_env \<Rightarrow> gimbal_control_message \<Rightarrow> payload \<Rightarrow> payload" where
  "handleCameraFrameZoom E m s =
     (let half = (\<lambda>x. fl_scale (p_rnd E) (1/2) x) in
      snd (sendRequestAndResult E
        (Frame_Zoom (gim_payloadIndex s) (case gc_camera_type m of Some t \<Rightarrow> t | None \<Rightarrow> ''zoom'') True
           (fl_add (p_rnd E) (gc_centerx m) (fl_neg (half (gc_width m))))
           (fl_add (p_rnd E) (gc_centery m) (fl_neg (half (gc_height m)))) (gc_width m) (gc_height m))
        ''frame zoom'' s))"

text \<open>Four drags, 200 ms apart, until one fails; the error text of the last one.\<close>

fun drag_loop :: "payload_env \<Rightarrow> drc_request \<Rightarrow> nat \<Rightarrow> (bool \<times> string) \<times> payload \<Rightarrow> (bool \<times> string) \<times> payload" where
  "drag_loop E q 0 r = r"
| "drag_loop E q (Suc n) (r, s) =
     (let (r, s) = drc_send E q s in
      if \<not> fst r then (r, s) else drag_loop E q n (r, emit (Sleep_Ms 200) s))"

definition handleCameraAngleZoom :: "payload_env \<Rightarrow> gimbal_control_message \<Rightarrow> payload \<Rightarrow> payload" where
  "handleCameraAngleZoom E m s =
     (let q = gimbalAngleDataPackage s (gc_yaw m, fl_neg (gc_pitch m));
          ((ret, err), s) = drag_loop E q 4 ((True, []), s);
          s = gimbal_sendResult E ret ''gimbal turn'' err s
      in if ret then specifyZoomFator E (gc_zoom_factor m) s else s)"

definition handleCameraAimZoom :: "payload_env \<Rightarrow> gimbal_control_message \<Rightarrow> payload \<Rightarrow> payload" where
  "handleCameraAimZoom E m s =
     (let (ret, s) = handleCameraAim E m s in if ret then specifyZoomFator E (gc_zoom_factor m) s else s)"

definition handleGimbalControl ::
  "payload_env \<Rightarrow> (string \<Rightarrow> gimbal_control_message option) \<Rightarrow> string \<Rightarrow> payload \<Rightarrow> payload" where
  "handleGimbalControl E conv msg s = (case conv msg of
     None \<Rightarrow> report E STATE_GIMBAL_CONTROL_FAILED ''not a gimbal command'' 1 s
   | Some m \<Rightarrow>
       let s = updateTransId (gc_trans_id m) s; s = s\<lparr>gim_payloadIndex := current_payload s\<rparr>; t = gc_type m in
       if t = 1000 then handleCameraScreenDrag E m s
       else if t = 1001 then snd (handleCameraAim E m s)
       else if t = 1002 then handleCameraFrameZoom E m s
       else if t = 1003 then handleCameraAngleZoom E m s
       else if t = 1004 then handleCameraAimZoom E m s
       else report E STATE_GIMBAL_CONTROL_FAILED ''unknown gimbal command'' 1 s)"


section \<open>Zoom factors stay in range\<close>

fun zoom_factors :: "effect list \<Rightarrow> fl list" where
  "zoom_factors [] = []"
| "zoom_factors (Drc_Request n (Focal_Length_Set i c z) # es) = z # zoom_factors es"
| "zoom_factors (e # es) = zoom_factors es"

lemma zoom_factors_append [simp]: "zoom_factors (es @ fs) = zoom_factors es @ zoom_factors fs"
  by (induction es rule: zoom_factors.induct) simp_all

text \<open>The range in which one command can move the factor: from the smaller of the factor it starts with and
  the minimum to the larger of that factor and the maximum.\<close>

definition zoom_low :: "rat \<Rightarrow> rat" where "zoom_low z = min z m_zoomFactorMin"
definition zoom_high :: "rat \<Rightarrow> rat" where "zoom_high z = max z m_zoomFactorMax"

definition in_zoom_range :: "rat \<Rightarrow> fl \<Rightarrow> bool" where
  "in_zoom_range z x \<longleftrightarrow> (\<exists>q. x = Fin q \<and> 1 \<le> q \<and> zoom_low z \<le> q \<and> q \<le> zoom_high z)"

text \<open>What is needed of the rounding: it is monotone, and exact on the constants and on the factor \<open>z\<close>,
  which is a \<open>float\<close> itself.\<close>

definition rounds :: "(rat \<Rightarrow> rat) \<Rightarrow> rat \<Rightarrow> bool" where
  "rounds r z \<longleftrightarrow> mono r \<and> r 0 = 0 \<and> r 1 = 1 \<and> r 2 = 2 \<and> r 400 = 400 \<and> r z = z"

lemma rounds_le: "rounds r z \<Longrightarrow> a \<le> b \<Longrightarrow> r a \<le> r b"
  by (simp add: rounds_def monoD)

lemma rounds_ends: "rounds r z \<Longrightarrow> r (zoom_low z) = zoom_low z" "rounds r z \<Longrightarrow> r (zoom_high z) = zoom_high z"
  by (simp_all add: rounds_def zoom_low_def zoom_high_def m_zoomFactorMin_def m_zoomFactorMax_def min_def max_def)

lemma step_nonneg:
  assumes "rounds r z" "0 \<le> q" "0 \<le> c"
  shows "\<exists>st\<ge>0. fl_max (Fin (r (1/10))) (fl_scale r (r c) (Fin q)) = Fin st"
proof -
  have "0 \<le> r (1/10)" using rounds_le[OF assms(1), of 0 "1/10"] assms(1) by (simp add: rounds_def)
  then show ?thesis by (auto simp: fl_max_def)
qed

lemma zoom_out_range:
  assumes "rounds r z" "in_zoom_range z x" "0 \<le> c"
  shows "in_zoom_range z (fl_max (fl_add r x (fl_neg (fl_max (Fin (r (1/10))) (fl_scale r (r c) x)))) (Fin m_zoomFactorMin))"
proof -
  obtain q where q: "x = Fin q" "1 \<le> q" "q \<le> zoom_high z" using assms(2) by (auto simp: in_zoom_range_def)
  obtain st where st: "0 \<le> st" "fl_max (Fin (r (1/10))) (fl_scale r (r c) x) = Fin st"
    using step_nonneg[OF assms(1) _ assms(3), of q] q by auto
  have "r (q - st) \<le> zoom_high z"
    using rounds_le[OF assms(1), of "q - st" "zoom_high z"] rounds_ends[OF assms(1)] q st(1) by simp
  then show ?thesis unfolding st(2)
    by (auto simp: q(1) fl_max_def in_zoom_range_def m_zoomFactorMin_def zoom_low_def zoom_high_def m_zoomFactorMax_def min_def max_def)
qed

lemma zoom_in_range:
  assumes "rounds r z" "in_zoom_range z x" "0 \<le> c"
  shows "in_zoom_range z (fl_min (fl_add r x (fl_max (Fin (r (1/10))) (fl_scale r (r c) x))) (Fin m_zoomFactorMax))"
proof -
  obtain q where q: "x = Fin q" "1 \<le> q" "zoom_low z \<le> q" using assms(2) by (auto simp: in_zoom_range_def)
  obtain st where st: "0 \<le> st" "fl_max (Fin (r (1/10))) (fl_scale r (r c) x) = Fin st"
    using step_nonneg[OF assms(1) _ assms(3), of q] q by auto
  have "zoom_low z \<le> r (q + st)"
    using rounds_le[OF assms(1), of "zoom_low z" "q + st"] rounds_ends[OF assms(1)] q st(1) by simp
  moreover have "1 \<le> r (q + st)" using rounds_le[OF assms(1), of 1 "q + st"] assms(1) q st(1) by (simp add: rounds_def)
  ultimately show ?thesis unfolding st(2)
    by (auto simp: q(1) fl_min_def in_zoom_range_def m_zoomFactorMax_def zoom_low_def zoom_high_def m_zoomFactorMin_def min_def max_def)
qed

lemma zoom_limits: "in_zoom_range z (Fin m_zoomFactorMin)" "in_zoom_range z (Fin m_zoomFactorMax)"
  by (auto simp: in_zoom_range_def m_zoomFactorMin_def m_zoomFactorMax_def zoom_low_def zoom_high_def)

text \<open>A step of at most \<open>n\<close> zoom requests, all in range, that leaves the factor in range.\<close>

definition zooms :: "rat \<Rightarrow> nat \<Rightarrow> payload \<Rightarrow> payload \<Rightarrow> bool" where
  "zooms z0 n s s' \<longleftrightarrow> in_zoom_range z0 (m_currentZoomFactor s') \<and>
     (\<exists>es. effects s' = effects s @ es \<and> length (zoom_factors es) \<le> n \<and> (\<forall>z\<in>set (zoom_factors es). in_zoom_range z0 z))"

lemma zooms_trans: "zooms z0 m s t \<Longrightarrow> zooms z0 n t u \<Longrightarrow> zooms z0 (m + n) s u"
  by (fastforce simp: zooms_def)

lemma zooms_mono: "zooms z0 m s t \<Longrightarrow> m \<le> n \<Longrightarrow> zooms z0 n s t"
  by (fastforce simp: zooms_def)

lemma reports_no_zoom: "zoom_factors (uav_reports j c t r tr) = []"
  by (simp add: uav_reports_def)

lemma zooms_report: "in_zoom_range z0 (m_currentZoomFactor s) \<Longrightarrow> zooms z0 0 s (report E c t r s)"
  by (auto simp: zooms_def report_def handleUavResult_eq reports_no_zoom)

lemma zooms_request:
  assumes "in_zoom_range z0 z"
  shows "zooms z0 1 s (snd (zoom_request E what up (set_zoom z s)))"
  using assms
  by (auto simp: zoom_request_def commonZoomDataPackage_def camera_sendRequest_def drc_send_def controlResult_def report_def
      handleUavResult_eq reports_no_zoom zooms_def set_zoom_def emit_def Let_def split: prod.splits)

lemma next_zoom_range: "rounds (p_rnd E) z0 \<Longrightarrow> in_zoom_range z0 z \<Longrightarrow> in_zoom_range z0 (next_zoom E zin z)"
  using zoom_in_range[of "p_rnd E" z0 z "1/10"] zoom_out_range[of "p_rnd E" z0 z "1/10"]
  by (cases zin) (simp_all add: next_zoom_def Let_def)

lemma zooms_loop:
  assumes "rounds (p_rnd E) z0" "in_zoom_range z0 (m_currentZoomFactor s)"
  shows "zooms z0 n s (zoom_loop E zin d i n s)"
  using assms(2)
proof (induction n arbitrary: s)
  case (Suc n)
  define up where "up = (maxIterations - Suc n = 0)"
  define z' where "z' = next_zoom E zin (m_currentZoomFactor s)"
  obtain ret t where t: "zoom_request E ''continuous zoom'' up (set_zoom z' s) = (ret, t)" by fastforce
  have "in_zoom_range z0 z'" unfolding z'_def by (rule next_zoom_range[OF assms(1) Suc.prems])
  from zooms_request[OF this, where s = s and E = E, of "''continuous zoom''" up] have st: "zooms z0 1 s t" by (simp add: t)
  then have sl: "zooms z0 1 s (emit (Sleep_Ms i) t)" by (auto simp: zooms_def emit_def)
  then have "in_zoom_range z0 (m_currentZoomFactor (emit (Sleep_Ms i) t))" by (simp add: zooms_def)
  from zooms_trans[OF sl Suc.IH[OF this]]
  have rest: "zooms z0 (Suc n) s (zoom_loop E zin d i n (emit (Sleep_Ms i) t))" by simp
  have one: "zooms z0 (Suc n) s t" by (rule zooms_mono[OF st]) simp
  have none: "zooms z0 (Suc n) s s" using Suc.prems by (simp add: zooms_def)
  have limit: "zooms z0 (Suc n) s (set_zoom (Fin (if zin then m_zoomFactorMax else m_zoomFactorMin))
      (report E STATE_CAMERA_ZOOM_FAILED ''limit reached'' 1 s))"
    using zooms_report[OF Suc.prems, of E STATE_CAMERA_ZOOM_FAILED "''limit reached''" 1] zoom_limits
    by (auto simp: zooms_def set_zoom_def)
  show ?case
    unfolding zoom_loop.simps Let_def up_def[symmetric] z'_def[symmetric] t prod.case
    using rest one none limit by simp
qed (simp add: zooms_def)

lemma zooms_handler:
  assumes "rounds (p_rnd E) z0" "in_zoom_range z0 (m_currentZoomFactor s)" "camera_type_handler E c = Some h"
  shows "zooms z0 20 s (h s)"
proof -
  note one = zooms_mono[OF zooms_request[where s = s and E = E], where n = 20]
  have rep: "zooms z0 20 s (report E k t r s)" for k t r using zooms_mono[OF zooms_report[OF assms(2)], of 20] by simp
  have out: "zooms z0 20 s (snd (cameraZoomOut E s))"
    using one[OF zoom_out_range[OF assms(1,2), of "2/10"]] rep by (simp add: cameraZoomOut_def Let_def)
  have inn: "zooms z0 20 s (snd (cameraZoomIn E s))"
    using one[OF zoom_in_range[OF assms(1,2), of "2/10"]] rep by (simp add: cameraZoomIn_def Let_def)
  have lim: "zooms z0 20 s (snd (cameraZoomMin E s))" "zooms z0 20 s (snd (cameraZoomMax E s))"
    using one[OF zoom_limits(1)] one[OF zoom_limits(2)] by (simp_all add: cameraZoomMin_def cameraZoomMax_def)
  have cont: "zooms z0 20 s (startZoomOperation E b s)" for b
    using zooms_loop[OF assms(1), of "s\<lparr>m_stopZoom := False\<rparr>" 20 b 5000 200] assms(2)
    by (simp add: startZoomOperation_def continuousZoom_def maxIterations_def zooms_def)
  have stop: "zooms z0 20 s (snd (cameraZoomStop E s))"
    using assms(2) by (auto simp: cameraZoomStop_def zooms_def report_def handleUavResult_eq reports_no_zoom)
  show ?thesis
    using assms(3) out inn lim cont stop by (auto simp: camera_type_handler_def split: if_splits)
qed

section \<open>Properties\<close>

text \<open>C32. One camera command sends at most twenty zoom requests. When the factor of the telemetry is a number
  \<open>z\<close> (neither infinite nor NaN), every factor it asks for is a number that lies between the
  smaller of \<open>z\<close> and the minimum 2 and the larger of \<open>z\<close> and the maximum 400; so for a telemetry factor in
  the range 2 to 400 all factors are in that range. The code refuses a telemetry factor below 1 without any request,
  but not one between 1 and 2 or above 400, and these can lead to requests outside the range
  (\<open>zoom_in_below_minimum\<close>, \<open>zoom_out_above_maximum\<close>). The rounding of \<open>float\<close> operations is any that
  is monotone and exact on 0, 1, 2, 400 and \<open>z\<close>; the answers, the clock and the stop are arbitrary, and the command
  is the only one that sets the factor while it runs.\<close>

theorem camera_zoom_bounds:
  assumes "rounds (p_rnd E) z" "getZoomFactor s = Fin z"
  shows "\<exists>es. effects (handleCameraControl E conv msg s) = effects s @ es \<and> length (zoom_factors es) \<le> 20 \<and>
    (\<forall>x\<in>set (zoom_factors es). \<exists>q. x = Fin q \<and> min z m_zoomFactorMin \<le> q \<and> q \<le> max z m_zoomFactorMax) \<and>
    (z < 1 \<longrightarrow> zoom_factors es = [])"
proof (cases "conv msg")
  case None
  then show ?thesis by (simp add: handleCameraControl_def report_def handleUavResult_eq reports_no_zoom)
next
  case (Some m)
  define t where "t = set_zoom (getZoomFactor s) (updateTransId (cc_trans_id m) s)"
  have t: "effects t = effects s" "m_currentZoomFactor t = Fin z"
    using assms by (auto simp: t_def set_zoom_def updateTransId_def)
  show ?thesis
  proof (cases "z < 1")
    case True
    then show ?thesis
      using t by (simp add: handleCameraControl_def Some Let_def t_def[symmetric] report_def handleUavResult_eq reports_no_zoom)
  next
    case False
    then have r: "in_zoom_range z (m_currentZoomFactor t)"
      by (simp add: t(2) in_zoom_range_def zoom_low_def zoom_high_def)
    have "zooms z 20 t (handleCameraControl E conv msg s)"
      using zooms_handler[OF assms(1) r] zooms_mono[OF zooms_report[OF r], of 20] t(2) False
      by (simp add: handleCameraControl_def Some Let_def t_def[symmetric] split: option.splits)
    then show ?thesis using False by (fastforce simp: zooms_def t(1) in_zoom_range_def zoom_low_def zoom_high_def)
  qed
qed

definition toy_payload :: payload where
  "toy_payload = \<lparr>s_transId = [], s_uavControlMode = IDLE, s_drcHeartbeatCount = 0, s_heartbeatAckReceived = False,
     s_waitingHeartbeatSeq = 0, s_lastDrcControlTime = 0, effects = [], m_uavId = [],
     m_flightInfo = FlightInfo\<lparr>camera := \<lparr>payloadIndex = ''99-0-0'', zoomFactor = Fin 10\<rparr>\<rparr>,
     m_uavModeCode = - 1, m_cloudControlActive = False, m_airborne = False,
     m_currentZoomFactor = Fin 2, m_stopZoom = False, cam_payloadIndex = [], gim_payloadIndex = []\<rparr>"

definition toy_payload_env :: payload_env where
  "toy_payload_env = \<lparr>p_js = \<lambda>_. True, p_rnd = id, drc_answer = \<lambda>_ _. (True, []), elapsed_ms = \<lambda>n. 200 * n,
     stop_asked = \<lambda>_. False\<rparr>"

lemma camera_zoom_bounds_witness:
  "\<exists>es. effects (handleCameraControl toy_payload_env (\<lambda>_. Some \<lparr>cc_direction = 4, cc_trans_id = ''t''\<rparr>) [] toy_payload) = es \<and>
     length (zoom_factors es) \<le> 20 \<and> (\<forall>x\<in>set (zoom_factors es). \<exists>q. x = Fin q \<and> 2 \<le> q \<and> q \<le> 400)"
proof -
  have "rounds (p_rnd toy_payload_env) 10" by (simp add: toy_payload_env_def rounds_def mono_def)
  moreover have "getZoomFactor toy_payload = Fin 10" by (simp add: getZoomFactor_def toy_payload_def)
  ultimately show ?thesis
    using camera_zoom_bounds[of toy_payload_env 10 toy_payload "\<lambda>_. Some \<lparr>cc_direction = 4, cc_trans_id = ''t''\<rparr>" "[]"]
    by (simp add: toy_payload_def m_zoomFactorMin_def m_zoomFactorMax_def)
qed

text \<open>Zooming in from a factor below \<open>m_zoomFactorMin\<close> asks for a factor that is still below it, zooming out from
  one far above \<open>m_zoomFactorMax\<close> for one that is still above it, and the
  factor of a combined gimbal command is not checked at all.\<close>

lemma zoom_in_below_minimum:
  "zoom_factors (effects (handleCameraControl toy_payload_env (\<lambda>_. Some \<lparr>cc_direction = 1, cc_trans_id = ''t''\<rparr>) []
     (toy_payload\<lparr>m_flightInfo := FlightInfo\<lparr>camera := \<lparr>payloadIndex = ''x'', zoomFactor = Fin 1\<rparr>\<rparr>\<rparr>))) = [Fin (6/5)]"
  by (simp add: handleCameraControl_def getZoomFactor_def camera_type_handler_def cameraZoomIn_def set_zoom_def updateTransId_def
      zoom_request_def commonZoomDataPackage_def current_payload_def getPayloadIndex_def camera_sendRequest_def drc_send_def
      controlResult_def report_def handleUavResult_eq uav_reports_def emit_def fl_max_def fl_min_def m_zoomFactorMax_def
      toy_payload_def toy_payload_env_def Let_def)

lemma zoom_out_above_maximum:
  "zoom_factors (effects (handleCameraControl toy_payload_env (\<lambda>_. Some \<lparr>cc_direction = 0, cc_trans_id = ''t''\<rparr>) []
     (toy_payload\<lparr>m_flightInfo := FlightInfo\<lparr>camera := \<lparr>payloadIndex = ''x'', zoomFactor = Fin 1000\<rparr>\<rparr>\<rparr>))) = [Fin 800]"
  by (simp add: handleCameraControl_def getZoomFactor_def camera_type_handler_def cameraZoomOut_def set_zoom_def updateTransId_def
      zoom_request_def commonZoomDataPackage_def current_payload_def getPayloadIndex_def camera_sendRequest_def drc_send_def
      controlResult_def report_def handleUavResult_eq uav_reports_def emit_def fl_max_def fl_min_def m_zoomFactorMin_def
      toy_payload_def toy_payload_env_def Let_def)

lemma specified_zoom_unchecked:
  "m_currentZoomFactor (specifyZoomFator E x s) = x"
  by (simp add: specifyZoomFator_def zoom_request_def commonZoomDataPackage_def camera_sendRequest_def drc_send_def set_zoom_def
      controlResult_def report_def handleUavResult_eq emit_def Let_def split: prod.splits)

text \<open>A stop reports the code of a failed zoom together with the result of a success.\<close>

lemma zoom_stop_code:
  "p_js E = (\<lambda>_. True) \<Longrightarrow> effects (snd (cameraZoomStop E s)) = effects s @
     [Publish (Code_Message STATE_CAMERA_ZOOM_FAILED ''continuous zoom stopped'' (Some (s_transId s))),
      Publish (Result_Message ''0'' (s_transId s))]"
  by (simp add: cameraZoomStop_def report_def handleUavResult_eq uav_reports_def)

end
