(* ===== verification/Task_Pool.thy ===== *)
theory Task_Pool
  imports Main
begin

text \<open>
  Modules on thread pools: \<^verbatim>\<open>common/thread/ThreadPoolManager.{h,cpp}\<close>, \<^verbatim>\<open>common/if/baseModule.cpp\<close>,
  \<^verbatim>\<open>common/if/messageDispatcher.{h,cpp}\<close> and the entries of the flyto, payload and device modules.

  A message of the mailbox becomes a task that is posted to a pool; a thread of the pool takes the
  oldest task and dispatches it to the handler registered for the message.  A command sends a
  request and keeps its thread until a reply for it is handled or its time is over.  What the
  pools do with such tasks is a step relation.
\<close>

section \<open>Messages and handlers\<close>

datatype msg_id = COMMON_REG_IND | FLYTO_RESULT_DATA_IND | FLYTO_RESULT_HEARTBEAT_DATA_IND
  | FLYTO_DRC_OSD_DATA_IND | FLYTO_PROGRESS_DATA_IND | PAYLOAD_RESULT_DATA_IND | PAYLOAD_GIMBAL_DATA_IND
  | PAYLOAD_CAMERA_DATA_IND | Other_Msg

datatype handler = Handle_Flyto_Result | Handle_Flyto_Progress | Handle_Flight_Control
  | Handle_Payload_Result | Handle_Gimbal_Control | Handle_Camera_Control | Parse_Rc_Osd

type_synonym handlers = "msg_id \<rightharpoonup> handler"

definition registerHandler :: "msg_id \<Rightarrow> handler \<Rightarrow> handlers \<Rightarrow> handlers" where
  "registerHandler i h m = m(i \<mapsto> h)"

text \<open>\<open>None\<close>: no handler is registered, the message is dropped with an error in the log.\<close>

definition dispatch :: "handlers \<Rightarrow> msg_id \<Rightarrow> handler option" where
  "dispatch m i = m i"

definition FlytoMain :: handlers where
  "FlytoMain = registerHandler COMMON_REG_IND Handle_Flight_Control
     (registerHandler FLYTO_PROGRESS_DATA_IND Handle_Flyto_Progress
     (registerHandler FLYTO_RESULT_DATA_IND Handle_Flyto_Result (\<lambda>_. None)))"

definition PayloadMain :: handlers where
  "PayloadMain = registerHandler PAYLOAD_CAMERA_DATA_IND Handle_Camera_Control
     (registerHandler PAYLOAD_GIMBAL_DATA_IND Handle_Gimbal_Control
     (registerHandler PAYLOAD_RESULT_DATA_IND Handle_Payload_Result (\<lambda>_. None)))"

definition DeviceMain :: handlers where
  "DeviceMain = registerHandler COMMON_REG_IND Parse_Rc_Osd (\<lambda>_. None)"

text \<open>What runs after a handler threw: \<open>dispatchMessage\<close> catches everything, so a task always ends.\<close>

definition dispatchMessage :: "(handler \<Rightarrow> 's \<Rightarrow> bool \<times> 's) \<Rightarrow> handlers \<Rightarrow> msg_id \<Rightarrow> 's \<Rightarrow> 's" where
  "dispatchMessage run m i s = (case dispatch m i of None \<Rightarrow> s | Some h \<Rightarrow> snd (run h s))"

section \<open>Entries\<close>

text \<open>The pool a message is posted to; \<open>None\<close> for an unexpected message.\<close>

datatype pool_name = Main_Pool | Response_Pool

definition flyto_entry :: "msg_id \<Rightarrow> pool_name option" where
  "flyto_entry i = (if i \<in> {FLYTO_RESULT_DATA_IND, FLYTO_RESULT_HEARTBEAT_DATA_IND, FLYTO_DRC_OSD_DATA_IND,
     FLYTO_PROGRESS_DATA_IND, COMMON_REG_IND} then Some Main_Pool else None)"

definition payload_entry :: "msg_id \<Rightarrow> pool_name option" where
  "payload_entry i = (if i = PAYLOAD_RESULT_DATA_IND then Some Response_Pool
     else if i \<in> {COMMON_REG_IND, PAYLOAD_GIMBAL_DATA_IND, PAYLOAD_CAMERA_DATA_IND} then Some Main_Pool else None)"

definition device_entry :: "msg_id \<Rightarrow> pool_name option" where
  "device_entry i = (if i = COMMON_REG_IND then Some Main_Pool else None)"

definition FLYTO_THREAD_COUNT :: nat where "FLYTO_THREAD_COUNT = 3"

text \<open>Messages that are accepted but have no handler.\<close>

lemma unhandled_messages:
  "flyto_entry i = Some b \<and> dispatch FlytoMain i = None \<longleftrightarrow>
     b = Main_Pool \<and> i \<in> {FLYTO_RESULT_HEARTBEAT_DATA_IND, FLYTO_DRC_OSD_DATA_IND}"
  "payload_entry i = Some b \<and> dispatch PayloadMain i = None \<longleftrightarrow> b = Main_Pool \<and> i = COMMON_REG_IND"
  "device_entry i = Some b \<Longrightarrow> dispatch DeviceMain i \<noteq> None"
  by (cases i; auto simp: flyto_entry_def payload_entry_def device_entry_def dispatch_def FlytoMain_def PayloadMain_def
      DeviceMain_def registerHandler_def)+

section \<open>Pools\<close>

text \<open>A task: a command that waits for the reply with its key, the handling of such a reply, or anything
  else.\<close>

datatype task = Send_And_Wait nat | Handle_Reply nat | Quick

record thread_pool =
  threads :: nat
  queue :: "task list"
  running :: "task list"

definition start_pool :: "nat \<Rightarrow> thread_pool" where
  "start_pool n = \<lparr>threads = n, queue = [], running = []\<rparr>"

definition postTask :: "task \<Rightarrow> thread_pool \<Rightarrow> thread_pool" where
  "postTask t p = p\<lparr>queue := queue p @ [t]\<rparr>"

definition finish_task :: "task \<Rightarrow> thread_pool \<Rightarrow> thread_pool" where
  "finish_task t p = p\<lparr>running := remove1 t (running p)\<rparr>"

record module_pools =
  pools :: "pool_name \<Rightarrow> thread_pool"
  answered :: "nat set"
  timed_out :: "nat set"

definition set_pool :: "pool_name \<Rightarrow> thread_pool \<Rightarrow> module_pools \<Rightarrow> module_pools" where
  "set_pool b p s = s\<lparr>pools := (pools s)(b := p)\<rparr>"

text \<open>The message a task comes from: in the flyto module a command arrives as \<open>COMMON_REG_IND\<close>, in
  the payload module as a gimbal or camera command; the replies have a message of their own.\<close>

fun flyto_msg :: "task \<Rightarrow> msg_id" where
  "flyto_msg (Send_And_Wait k) = COMMON_REG_IND"
| "flyto_msg (Handle_Reply k) = FLYTO_RESULT_DATA_IND"
| "flyto_msg Quick = FLYTO_PROGRESS_DATA_IND"

fun payload_msg :: "task \<Rightarrow> msg_id" where
  "payload_msg (Send_And_Wait k) = PAYLOAD_GIMBAL_DATA_IND"
| "payload_msg (Handle_Reply k) = PAYLOAD_RESULT_DATA_IND"
| "payload_msg Quick = PAYLOAD_CAMERA_DATA_IND"

definition flyto_pool :: "task \<Rightarrow> pool_name option" where "flyto_pool t = flyto_entry (flyto_msg t)"
definition payload_pool :: "task \<Rightarrow> pool_name option" where "payload_pool t = payload_entry (payload_msg t)"

text \<open>What an entry does with a message: the task goes to the end of the queue of the pool the entry
  names; a message it does not expect is dropped.\<close>

definition post_message :: "(task \<Rightarrow> pool_name option) \<Rightarrow> task \<Rightarrow> module_pools \<Rightarrow> module_pools" where
  "post_message entry t s = (case entry t of None \<Rightarrow> s | Some b \<Rightarrow> set_pool b (postTask t (pools s b)) s)"

inductive pool_step :: "(task \<Rightarrow> pool_name option) \<Rightarrow> module_pools \<Rightarrow> module_pools \<Rightarrow> bool" for entry where
  post: "pool_step entry s (post_message entry t s)"
| take: "queue (pools s b) = t # q \<Longrightarrow> length (running (pools s b)) < threads (pools s b) \<Longrightarrow>
    pool_step entry s (set_pool b ((pools s b)\<lparr>queue := q, running := t # running (pools s b)\<rparr>) s)"
| quick: "Quick \<in> set (running (pools s b)) \<Longrightarrow> pool_step entry s (set_pool b (finish_task Quick (pools s b)) s)"
| reply: "Handle_Reply k \<in> set (running (pools s b)) \<Longrightarrow>
    pool_step entry s ((set_pool b (finish_task (Handle_Reply k) (pools s b)) s)\<lparr>answered := insert k (answered s)\<rparr>)"
| command: "Send_And_Wait k \<in> set (running (pools s b)) \<Longrightarrow> k \<in> answered s \<Longrightarrow>
    pool_step entry s (set_pool b (finish_task (Send_And_Wait k) (pools s b)) s)"
| timeout: "Send_And_Wait k \<in> set (running (pools s b)) \<Longrightarrow> k \<notin> answered s \<Longrightarrow>
    pool_step entry s ((set_pool b (finish_task (Send_And_Wait k) (pools s b)) s)\<lparr>timed_out := insert k (timed_out s)\<rparr>)"

inductive pool_steps :: "(task \<Rightarrow> pool_name option) \<Rightarrow> module_pools \<Rightarrow> module_pools \<Rightarrow> bool" for entry where
  refl: "pool_steps entry s s"
| trans: "pool_steps entry s s' \<Longrightarrow> pool_step entry s' s'' \<Longrightarrow> pool_steps entry s s''"


definition start_pools :: "nat \<Rightarrow> nat \<Rightarrow> module_pools" where
  "start_pools n m = \<lparr>pools = (\<lambda>b. start_pool (if b = Main_Pool then n else m)), answered = {}, timed_out = {}\<rparr>"

lemma timed_out_mono: "pool_steps entry s s' \<Longrightarrow> timed_out s \<subseteq> timed_out s'"
  by (induction rule: pool_steps.induct) (auto elim!: pool_step.cases simp: post_message_def set_pool_def split: option.splits)

section \<open>A full pool\<close>

text \<open>Every thread of the main pool waits for a reply that has not been handled, and the other pool
  has nothing to do, however many threads it has.\<close>

definition all_waiting :: "module_pools \<Rightarrow> bool" where
  "all_waiting s \<longleftrightarrow> length (running (pools s Main_Pool)) = threads (pools s Main_Pool) \<and>
     running (pools s Response_Pool) = [] \<and> queue (pools s Response_Pool) = [] \<and>
     (\<forall>t\<in>set (running (pools s Main_Pool)). \<exists>k. t = Send_And_Wait k \<and> k \<notin> answered s \<and> k \<notin> timed_out s)"

text \<open>Every message the flyto module accepts, the replies included, goes to the main pool.\<close>

lemma flyto_pool_main: "flyto_pool t = Some Main_Pool"
  by (cases t) (simp_all add: flyto_pool_def flyto_entry_def)

lemma post_message_flyto:
  "post_message flyto_pool t s = set_pool Main_Pool (postTask t (pools s Main_Pool)) s"
  by (simp add: post_message_def flyto_pool_main)

lemma all_waiting_step:
  assumes "pool_step flyto_pool s s'" "all_waiting s" "timed_out s' = timed_out s"
  shows "all_waiting s' \<and> running (pools s' Main_Pool) = running (pools s Main_Pool) \<and> answered s' = answered s"
  using assms
proof (induction rule: pool_step.induct)
  case (post s t)
  then show ?case by (auto simp: post_message_flyto all_waiting_def set_pool_def postTask_def)
next
  case (take s b t q)
  then show ?case by (cases b) (auto simp: all_waiting_def)
next
  case (quick s b)
  then show ?case by (cases b) (auto simp: all_waiting_def)
next
  case (reply k s b)
  then show ?case by (cases b) (auto simp: all_waiting_def)
next
  case (command k s b)
  then show ?case by (cases b) (auto simp: all_waiting_def)
next
  case (timeout k s b)
  then show ?case by (cases b) (auto simp: all_waiting_def set_pool_def)
qed

text \<open>So the other pool of the flyto module never gets a task.\<close>

lemma flyto_other_pool_idle:
  assumes "pool_steps flyto_pool s s'" "queue (pools s Response_Pool) = []" "running (pools s Response_Pool) = []"
  shows "queue (pools s' Response_Pool) = [] \<and> running (pools s' Response_Pool) = []"
  using assms
proof (induction rule: pool_steps.induct)
  case (trans s s' s'')
  from trans.IH[OF trans.prems] trans(2) show ?case
    by (auto elim!: pool_step.cases simp: post_message_flyto set_pool_def postTask_def finish_task_def)
qed simp

lemma all_waiting_steps:
  assumes "pool_steps flyto_pool s s'" "all_waiting s" "timed_out s' = timed_out s"
  shows "all_waiting s' \<and> running (pools s' Main_Pool) = running (pools s Main_Pool) \<and> answered s' = answered s"
  using assms
proof (induction rule: pool_steps.induct)
  case (trans s s' s'')
  have "timed_out s \<subseteq> timed_out s'" "timed_out s' \<subseteq> timed_out s''"
    using timed_out_mono[OF trans(1)] timed_out_mono[OF pool_steps.trans[OF pool_steps.refl trans(2)]] .
  with trans.prems have "timed_out s' = timed_out s" "timed_out s'' = timed_out s'" by auto
  with trans.IH[OF trans.prems(1)] all_waiting_step[OF trans(2)] show ?case by auto
qed simp

section \<open>Replies on a pool of their own\<close>


lemma payload_pool_simps [simp]:
  "payload_pool (Handle_Reply k) = Some Response_Pool"
  "payload_pool (Send_And_Wait k) = Some Main_Pool"
  "payload_pool Quick = Some Main_Pool"
  by (simp_all add: payload_pool_def payload_entry_def)




lemma threads_fixed:
  "pool_steps entry s s' \<Longrightarrow> threads (pools s' b) = threads (pools s b)"
  by (induction rule: pool_steps.induct) (auto elim!: pool_step.cases simp: post_message_def set_pool_def postTask_def finish_task_def split: option.splits)






section \<open>Properties\<close>

text \<open>C15. The flyto module handles replies on the pool on which its commands wait: when the three threads of
  that pool hold commands whose replies have not been handled, then, whatever is posted (the replies
  themselves included) and however long it takes, no reply is handled and no command ends until one of
  them times out. This holds for every number \<open>m\<close> of threads of a second pool, because no message is
  ever posted to it.\<close>

theorem flyto_pool_starves:
  assumes "pool_steps flyto_pool (start_pools FLYTO_THREAD_COUNT m) s"
    "running (pools s Main_Pool) = [Send_And_Wait a, Send_And_Wait b, Send_And_Wait c]"
    "{a, b, c} \<inter> (answered s \<union> timed_out s) = {}"
    "pool_steps flyto_pool s s'" "timed_out s' = timed_out s"
  shows "running (pools s' Main_Pool) = running (pools s Main_Pool) \<and> answered s' = answered s"
proof -
  have "threads (pools s Main_Pool) = 3"
    using threads_fixed[OF assms(1)] by (simp add: start_pools_def start_pool_def FLYTO_THREAD_COUNT_def)
  moreover have "queue (pools s Response_Pool) = [] \<and> running (pools s Response_Pool) = []"
    by (rule flyto_other_pool_idle[OF assms(1)]) (simp_all add: start_pools_def start_pool_def)
  ultimately have "all_waiting s" using assms(2,3) by (auto simp: all_waiting_def)
  from all_waiting_steps[OF assms(4) this assms(5)] show ?thesis by simp
qed

text \<open>The full pool of the example, beside a second pool of two threads.\<close>

definition busy_flyto :: "task list \<Rightarrow> task list \<Rightarrow> module_pools" where
  "busy_flyto q r = \<lparr>pools = (\<lambda>_. start_pool 2)(Main_Pool := \<lparr>threads = 3, queue = q, running = r\<rparr>),
     answered = {}, timed_out = {}\<rparr>"

lemma busy_flyto_post: "post_message flyto_pool t (busy_flyto q r) = busy_flyto (q @ [t]) r"
  by (simp add: post_message_flyto busy_flyto_def set_pool_def postTask_def)

lemma busy_flyto_take: "length r < 3 \<Longrightarrow> pool_step flyto_pool (busy_flyto (t # q) r) (busy_flyto q (t # r))"
  using pool_step.take[of "busy_flyto (t # q) r" Main_Pool t q flyto_pool]
  by (simp add: busy_flyto_def set_pool_def)

lemma busy_flyto_command:
  assumes "pool_steps flyto_pool s (busy_flyto [] r)" "length r < 3"
  shows "pool_steps flyto_pool s (busy_flyto [] (t # r))"
  using pool_steps.trans[OF assms(1) pool_step.post[of _ _ t]] busy_flyto_take[OF assms(2), of t "[]"]
  by (auto simp: busy_flyto_post intro: pool_steps.trans)

lemma flyto_pool_starves_witness:
  "(\<exists>s. pool_steps flyto_pool (start_pools FLYTO_THREAD_COUNT 2) s \<and>
      running (pools s Main_Pool) = [Send_And_Wait 3, Send_And_Wait 2, Send_And_Wait 1]) \<and>
   \<not> (\<exists>s'. pool_steps flyto_pool (post_message flyto_pool (Handle_Reply 1)
        (busy_flyto [] [Send_And_Wait 3, Send_And_Wait 2, Send_And_Wait 1])) s' \<and>
      timed_out s' = {} \<and> 1 \<in> answered s')"
proof -
  let ?r = "[Send_And_Wait 3, Send_And_Wait 2, Send_And_Wait 1]"
  have "start_pools FLYTO_THREAD_COUNT 2 = busy_flyto [] []"
    by (auto simp: start_pools_def busy_flyto_def FLYTO_THREAD_COUNT_def start_pool_def fun_eq_iff)
  then have run: "pool_steps flyto_pool (start_pools FLYTO_THREAD_COUNT 2) (busy_flyto [] ?r)"
    by (auto intro!: busy_flyto_command pool_steps.refl)
  from pool_steps.trans[OF run pool_step.post]
  have full: "pool_steps flyto_pool (start_pools FLYTO_THREAD_COUNT 2) (busy_flyto [Handle_Reply 1] ?r)"
    by (metis busy_flyto_post append_Nil)
  have "1 \<notin> answered s'" if "pool_steps flyto_pool (busy_flyto [Handle_Reply 1] ?r) s'" "timed_out s' = {}" for s'
    using flyto_pool_starves[OF full _ _ that(1), of 3 2 1] that(2) by (simp add: busy_flyto_def)
  then have "\<not> (\<exists>s'. pool_steps flyto_pool (busy_flyto [Handle_Reply 1] ?r) s' \<and> timed_out s' = {} \<and> 1 \<in> answered s')"
    by blast
  moreover have "running (pools (busy_flyto [] ?r) Main_Pool) = ?r" by (simp add: busy_flyto_def)
  ultimately show ?thesis using run unfolding busy_flyto_post append_Nil by blast
qed



end
