(* ===== verification/Mqtt_Route.thy ===== *)
theory Mqtt_Route
  imports Track
begin

text \<open>
  Topics and routing: \<^verbatim>\<open>cloud/lcf/lcfMain.cpp\<close>, \<^verbatim>\<open>cloud/mqtt/mqttsubMain.cpp\<close> and
  \<^verbatim>\<open>cloud/mqtt/mqttpubMain.cpp\<close>.

  The configuration fills serial numbers into topic templates; the subscriber routes a message by its
  topic, or by the method in its body, to the mailboxes of the modules; the publisher picks the
  topic for a message of the modules.  The MQTT client, files and the JSON library are parameters.
\<close>

section \<open>Strings\<close>

text \<open>\<open>s.find(sub) != npos\<close>, and \<open>s.replace(s.find(sub), sub.length(), r)\<close> when it is found.\<close>

fun has_prefix :: "string \<Rightarrow> string \<Rightarrow> bool" where
  "has_prefix [] s \<longleftrightarrow> True"
| "has_prefix (x # xs) [] \<longleftrightarrow> False"
| "has_prefix (x # xs) (y # ys) \<longleftrightarrow> x = y \<and> has_prefix xs ys"

fun contains :: "string \<Rightarrow> string \<Rightarrow> bool" where
  "contains sub [] \<longleftrightarrow> sub = []"
| "contains sub (c # s) \<longleftrightarrow> has_prefix sub (c # s) \<or> contains sub s"

fun replace_first :: "string \<Rightarrow> string \<Rightarrow> string \<Rightarrow> string option" where
  "replace_first sub r [] = (if sub = [] then Some r else None)"
| "replace_first sub r (c # s) =
     (if has_prefix sub (c # s) then Some (r @ drop (length sub) (c # s)) else map_option ((#) c) (replace_first sub r s))"

lemma has_prefix_iff: "has_prefix sub s \<longleftrightarrow> (\<exists>t. s = sub @ t)"
  by (induction sub s rule: has_prefix.induct) auto

lemma contains_iff: "contains sub s \<longleftrightarrow> (\<exists>u t. s = u @ sub @ t)"
proof (induction s)
  case (Cons c s)
  show ?case
  proof
    assume "contains sub (c # s)"
    then consider t where "c # s = sub @ t" | "contains sub s" by (auto simp: has_prefix_iff)
    then show "\<exists>u t. c # s = u @ sub @ t"
    proof cases
      case 1
      then show ?thesis by (metis append_Nil)
    next
      case 2
      with Cons.IH obtain u t where "s = u @ sub @ t" by blast
      then show ?thesis by (metis append_Cons)
    qed
  next
    assume "\<exists>u t. c # s = u @ sub @ t"
    then obtain u t where u: "c # s = u @ sub @ t" by blast
    show "contains sub (c # s)"
    proof (cases u)
      case Nil
      with u have "has_prefix sub (c # s)" unfolding has_prefix_iff by auto
      then show ?thesis by simp
    qed (use u Cons.IH in auto)
  qed
qed simp

lemma replace_first_None: "replace_first sub r s = None \<longleftrightarrow> \<not> contains sub s"
  by (induction s) auto

lemma replace_first_Some:
  "replace_first sub r s = Some s' \<Longrightarrow> \<exists>u t. s = u @ sub @ t \<and> s' = u @ r @ t"
proof (induction s arbitrary: s')
  case (Cons c s)
  show ?case
  proof (cases "has_prefix sub (c # s)")
    case True
    then obtain t where t: "c # s = sub @ t" by (auto simp: has_prefix_iff)
    then have "drop (length sub) (c # s) = t" by simp
    with Cons.prems True t show ?thesis by (metis append_Nil option.sel replace_first.simps(2))
  next
    case False
    with Cons.prems obtain z where z: "replace_first sub r s = Some z" "s' = c # z" by auto
    with Cons.IH[OF z(1)] obtain u t where "s = u @ sub @ t" "z = u @ r @ t" by blast
    with z(2) show ?thesis by (metis append_Cons)
  qed
qed (auto split: if_splits)

section \<open>Configuration\<close>

record mqtt_publish =
  bxt_osd :: string
  dji_services :: string
  kmz_request :: string
  dji_requests_reply :: string
  dji_drc_down :: string
  bxt_uav_status :: string
  bxt_uav_result :: string
  bxt_payload_param :: string

record common_message =
  dock_sn :: string
  aircraft_sn :: string

definition replacePlaceholder :: "string \<Rightarrow> string \<Rightarrow> string \<Rightarrow> string" where
  "replacePlaceholder topic placeholder r = (case replace_first placeholder r topic of Some t \<Rightarrow> t | None \<Rightarrow> topic)"

definition appendDeviceSn :: "string \<Rightarrow> string \<Rightarrow> string" where
  "appendDeviceSn topic sn = topic @ sn"

definition loadMqttConfig :: "common_message \<Rightarrow> mqtt_publish option \<Rightarrow> mqtt_publish option" where
  "loadMqttConfig cfg file = map_option (\<lambda>p.
     p\<lparr>bxt_osd := appendDeviceSn (bxt_osd p) (dock_sn cfg),
       dji_services := replacePlaceholder (dji_services p) ''+'' (dock_sn cfg),
       kmz_request := replacePlaceholder (kmz_request p) ''+'' (dock_sn cfg),
       dji_requests_reply := replacePlaceholder (dji_requests_reply p) ''+'' (dock_sn cfg),
       dji_drc_down := replacePlaceholder (dji_drc_down p) ''+'' (dock_sn cfg),
       bxt_uav_status := appendDeviceSn (bxt_uav_status p) (dock_sn cfg),
       bxt_uav_result := appendDeviceSn (bxt_uav_result p) (dock_sn cfg),
       bxt_payload_param := appendDeviceSn (bxt_payload_param p) (dock_sn cfg)\<rparr>) file"

text \<open>The topics to subscribe to; the file is a list of words.\<close>

definition sub_topics_of :: "common_message \<Rightarrow> string \<Rightarrow> string list" where
  "sub_topics_of cfg buffer =
     (case replace_first ''#'' (dock_sn cfg) buffer of
        Some t \<Rightarrow> [t]
      | None \<Rightarrow>
          if \<not> contains ''+'' buffer then [buffer]
          else if contains ''osd'' buffer
          then [replacePlaceholder buffer ''+'' (aircraft_sn cfg)] @
               (let rcOsd = replacePlaceholder buffer ''+'' (dock_sn cfg) in if rcOsd \<noteq> [] then [rcOsd] else [])
          else if contains ''state'' buffer then [replacePlaceholder buffer ''+'' (aircraft_sn cfg)]
          else [replacePlaceholder buffer ''+'' (dock_sn cfg)])"

definition loadSubTopics :: "common_message \<Rightarrow> string list option \<Rightarrow> string list option" where
  "loadSubTopics cfg file = map_option (\<lambda>ws. concat (map (sub_topics_of cfg) ws)) file"

section \<open>The subscriber\<close>

datatype cloud_module = Mod_Track | Mod_Device | Mod_Flyto | Mod_Payload

datatype route_id = Common_Reg | Track_State_Data | Flyto_Result_Data | Flyto_Heartbeat_Data | Flyto_Drc_Osd_Data
  | Flyto_Progress_Data | Payload_Result_Data | Payload_Gimbal_Data | Payload_Camera_Data

type_synonym delivery = "cloud_module \<times> route_id \<times> string"

definition sub_handleFlytoResult :: "string \<Rightarrow> delivery list" where
  "sub_handleFlytoResult payload = [(Mod_Flyto, Flyto_Result_Data, payload), (Mod_Payload, Payload_Result_Data, payload)]"

definition sub_handleFlytoProgress :: "string \<Rightarrow> delivery list" where
  "sub_handleFlytoProgress payload = [(Mod_Flyto, Flyto_Progress_Data, payload)]"

definition sub_handlePayloadResult :: "string \<Rightarrow> delivery list" where
  "sub_handlePayloadResult payload = [(Mod_Payload, Payload_Result_Data, payload)]"

definition m_topicHandlers :: "string \<rightharpoonup> (string \<Rightarrow> delivery list)" where
  "m_topicHandlers = map_of
     [(''takeoff_to_point'', sub_handleFlytoResult), (''return_home'', sub_handleFlytoResult),
      (''return_home_cancel'', sub_handleFlytoResult), (''fly_to_point_stop'', sub_handleFlytoResult),
      (''fly_to_point'', sub_handleFlytoResult), (''fly_to_point_update'', sub_handleFlytoResult),
      (''fly_to_point_progress'', sub_handleFlytoProgress),
      (''drc_gimbal_reset'', sub_handlePayloadResult), (''drc_camera_screen_drag'', sub_handlePayloadResult),
      (''drc_camera_aim'', sub_handlePayloadResult), (''drc_camera_frame_zoom'', sub_handlePayloadResult),
      (''drc_camera_focal_length_set'', sub_handlePayloadResult)]"

text \<open>The method of a body; empty when there is none, \<open>None\<close> when the library throws.\<close>

definition parseMethod :: "'j json_api \<Rightarrow> string \<Rightarrow> string option" where
  "parseMethod J payload = (case j_parse J payload of
     None \<Rightarrow> Some []
   | Some doc \<Rightarrow>
       (case j_isMember J doc ''method'' of
          None \<Rightarrow> None
        | Some False \<Rightarrow> Some []
        | Some True \<Rightarrow>
            (case j_member J doc ''method'' of
               None \<Rightarrow> None
             | Some v \<Rightarrow> if \<not> j_isString J v then Some [] else j_asString J v)))"

record sub_topics =
  s_aircraftOsd :: string
  s_rcOsd :: string
  s_aircraftState :: string

definition mqttsub_init :: "common_message \<Rightarrow> sub_topics" where
  "mqttsub_init cfg = \<lparr>s_aircraftOsd = aircraft_sn cfg @ ''/osd'', s_rcOsd = dock_sn cfg @ ''/osd'',
     s_aircraftState = aircraft_sn cfg @ ''/state''\<rparr>"

definition by_method :: "string \<Rightarrow> bool" where
  "by_method topic \<longleftrightarrow> contains ''services_reply'' topic \<or> contains ''/events'' topic \<or> contains ''/requests'' topic \<or>
     contains ''/drc/up'' topic"

definition onRead :: "'j json_api \<Rightarrow> sub_topics \<Rightarrow> string \<Rightarrow> string \<Rightarrow> delivery list option" where
  "onRead J c topic payload =
     (if by_method topic then
        (case parseMethod J payload of
           None \<Rightarrow> None
         | Some m \<Rightarrow> Some (case m_topicHandlers m of Some h \<Rightarrow> h payload | None \<Rightarrow> []))
      else Some
        (if contains (s_aircraftOsd c) topic then [(Mod_Track, Common_Reg, payload)]
         else if contains (s_aircraftState c) topic then [(Mod_Track, Track_State_Data, payload)]
         else if contains (s_rcOsd c) topic then [(Mod_Device, Common_Reg, payload)]
         else if contains ''flight/control'' topic then [(Mod_Flyto, Common_Reg, payload)]
         else if contains ''gimbal/control'' topic then [(Mod_Payload, Payload_Gimbal_Data, payload)]
         else if contains ''camera/zoom'' topic then [(Mod_Payload, Payload_Camera_Data, payload)]
         else []))"

section \<open>The publisher\<close>

datatype publish_id = Track_Publish | Dji_Services_Publish | Kmz_Request_Publish | Dji_Requests_Reply_Publish
  | Dji_Drc_Down_Publish | Uav_Status_Publish | Uav_Result_Publish | Payload_Param_Publish | Other_Publish

text \<open>Topic and text of what is published; nothing for an unexpected message or an empty topic.\<close>

definition mqttpub_entry :: "mqtt_publish \<Rightarrow> publish_id \<Rightarrow> string \<Rightarrow> (string \<times> string) option" where
  "mqttpub_entry p ulMsgId strMsg =
     (let topic = (case ulMsgId of
            Track_Publish \<Rightarrow> bxt_osd p | Dji_Services_Publish \<Rightarrow> dji_services p | Kmz_Request_Publish \<Rightarrow> []
          | Dji_Requests_Reply_Publish \<Rightarrow> dji_requests_reply p | Dji_Drc_Down_Publish \<Rightarrow> dji_drc_down p
          | Uav_Status_Publish \<Rightarrow> bxt_uav_status p | Uav_Result_Publish \<Rightarrow> bxt_uav_result p
          | Payload_Param_Publish \<Rightarrow> bxt_payload_param p | Other_Publish \<Rightarrow> [])
      in if topic = [] then None else Some (topic, strMsg))"

section \<open>Lemmas\<close>

text \<open>No message is delivered to more than two modules, and a body is never changed.\<close>

lemma onRead_payload:
  assumes "onRead J c topic payload = Some ds" "(m, i, b) \<in> set ds"
  shows "b = payload"
  using assms
  by (auto simp: onRead_def m_topicHandlers_def sub_handleFlytoResult_def sub_handleFlytoProgress_def sub_handlePayloadResult_def
      split: if_splits option.splits)

text \<open>With an empty serial number of the aircraft every telemetry message goes to the track module, also the
  one of the remote controller.\<close>

lemma empty_aircraft_sn:
  assumes "\<not> by_method topic" "contains ''/osd'' topic"
  shows "onRead J (mqttsub_init \<lparr>dock_sn = d, aircraft_sn = []\<rparr>) topic payload = Some [(Mod_Track, Common_Reg, payload)]"
  using assms by (simp add: onRead_def mqttsub_init_def)

text \<open>A template without its own placeholder for the remote controller: the osd template gives both topics,
  and each of them is routed to its module as long as the serial numbers do not hide each other.\<close>

lemma osd_topics_routed:
  assumes "w = u @ ''+/osd''" "\<not> contains ''#'' w" "\<not> contains ''+'' u"
    "\<not> by_method (u @ aircraft_sn cfg @ ''/osd'')" "\<not> by_method (u @ dock_sn cfg @ ''/osd'')"
    "\<not> contains (aircraft_sn cfg @ ''/osd'') (u @ dock_sn cfg @ ''/osd'')"
    "\<not> contains (aircraft_sn cfg @ ''/state'') (u @ dock_sn cfg @ ''/osd'')"
  shows "sub_topics_of cfg w = [u @ aircraft_sn cfg @ ''/osd'', u @ dock_sn cfg @ ''/osd'']"
    "onRead J (mqttsub_init cfg) (u @ aircraft_sn cfg @ ''/osd'') p = Some [(Mod_Track, Common_Reg, p)]"
    "onRead J (mqttsub_init cfg) (u @ dock_sn cfg @ ''/osd'') p = Some [(Mod_Device, Common_Reg, p)]"
proof -
  have rep: "replace_first ''+'' r (u @ ''+/osd'') = Some (u @ r @ ''/osd'')" for r
    using assms(3) by (induction u) auto
  have "contains ''osd'' w" "contains ''+'' w" unfolding assms(1) contains_iff
    by (metis append.assoc append_Cons append_Nil append_Nil2, metis append_Cons append_Nil)
  moreover have "replace_first ''#'' r w = None" for r using assms(2) by (simp add: replace_first_None)
  ultimately show "sub_topics_of cfg w = [u @ aircraft_sn cfg @ ''/osd'', u @ dock_sn cfg @ ''/osd'']"
    using rep by (simp add: sub_topics_of_def replacePlaceholder_def assms(1))
  have self: "contains (x @ ''/osd'') (u @ x @ ''/osd'')" for x
    unfolding contains_iff by (metis append_Nil2)
  show "onRead J (mqttsub_init cfg) (u @ aircraft_sn cfg @ ''/osd'') p = Some [(Mod_Track, Common_Reg, p)]"
    using assms(4) self by (simp add: onRead_def mqttsub_init_def)
  show "onRead J (mqttsub_init cfg) (u @ dock_sn cfg @ ''/osd'') p = Some [(Mod_Device, Common_Reg, p)]"
    using assms(5-7) self by (simp add: onRead_def mqttsub_init_def)
qed

end
