(* ===== verification/Comm_Queue.thy ===== *)
theory Comm_Queue
  imports Ring Fifo "HOL-Library.Monad_Syntax"
begin

text \<open>
  The queues of \<^verbatim>\<open>platform/linux/pf_comm.cpp\<close> (\<^verbatim>\<open>pl_que_*\<close>), in which a buffer pool keeps the numbers of its
  free blocks, and the memory of the process as far as \<^verbatim>\<open>malloc\<close> and \<^verbatim>\<open>free\<close> go.

  \<^verbatim>\<open>malloc\<close> is a parameter: an address, 0 for NULL, for each call, depending on the number of calls so far,
  the blocks in use and the size.  The contents of a new block are a parameter \<open>junk\<close>.  Structures live
  in stores from addresses to records; using an address without a structure, an index outside an
  array, or freeing what is not allocated is the outcome \<open>None\<close>.  Log output, the counters of
  \<^verbatim>\<open>pl_counts.h\<close> and the names, which are only logged, are left out.
\<close>

named_theorems pool_simps \<open>projections of the operations on queues and pools\<close>

section \<open>The memory of the process\<close>

type_synonym addr = nat
type_synonym blocks = "addr \<rightharpoonup> nat"
type_synonym allocator = "nat \<Rightarrow> blocks \<Rightarrow> nat \<Rightarrow> addr"

record QUE_CTRL_S =
  ulElemNum :: U32
  ulQueHead :: U32
  ulQueTail :: U32
  que_ullInCnt :: U64
  que_ullOutCnt :: U64
  aulQueElem :: "U32 list"
  aulQueElem_addr :: addr

record BUF_CTRL_S =
  ulBufSize :: U32
  ulBufNum :: U32
  pucBufStart :: addr
  pucBufEnd :: addr
  pstQueCtrl :: addr
  ullInCnt :: U64
  ullOutCnt :: U64
  ulUrgentUsedNum :: U32
  ulMaxUsedNum :: U32
  pMutex :: addr
  ucWithAddress :: bool

record pool_sys =
  sys_calls :: nat
  sys_blocks :: blocks
  ques :: "addr \<rightharpoonup> QUE_CTRL_S"
  bufs :: "addr \<rightharpoonup> BUF_CTRL_S"
  g_pastQueGlobal :: "addr list"
  g_pastCommBufferGlobal :: "addr list"
  g_ulBufGetFailCount :: U32

definition sys_malloc :: "allocator \<Rightarrow> nat \<Rightarrow> 'z pool_sys_scheme \<Rightarrow> addr \<times> 'z pool_sys_scheme" where
  "sys_malloc malloc n s =
     (let a = malloc (sys_calls s) (sys_blocks s) n in
      (a, s\<lparr>sys_calls := sys_calls s + 1,
            sys_blocks := (if a = 0 then sys_blocks s else (sys_blocks s)(a \<mapsto> n))\<rparr>))"

definition sys_free :: "addr \<Rightarrow> 'z pool_sys_scheme \<Rightarrow> 'z pool_sys_scheme option" where
  "sys_free a s = (if sys_blocks s a = None then None else Some (s\<lparr>sys_blocks := (sys_blocks s)(a := None)\<rparr>))"

text \<open>What \<^verbatim>\<open>malloc\<close> promises: an aligned block inside the address space that meets no other.\<close>

definition apart :: "blocks \<Rightarrow> addr \<Rightarrow> nat \<Rightarrow> bool" where
  "apart h a n \<longleftrightarrow> (\<forall>b m. h b = Some m \<longrightarrow> a + n \<le> b \<or> b + m \<le> a)"

definition malloc_ok :: "allocator \<Rightarrow> bool" where
  "malloc_ok malloc \<longleftrightarrow>
     (\<forall>c h n. malloc c h n \<noteq> 0 \<longrightarrow> malloc c h n mod 16 = 0 \<and> h (malloc c h n) = None \<and> apart h (malloc c h n) n
        \<and> malloc c h n + n \<le> 2 ^ 64)"

section \<open>Queues\<close>

definition COMM_SUCC :: U16 where "COMM_SUCC = 0"
definition COMM_FAIL :: U16 where "COMM_FAIL = 0xffff"
definition U32_INFINITY :: U32 where "U32_INFINITY = 0xffffffff"
definition MAX_QUE_NUM :: nat where "MAX_QUE_NUM = 128"
definition MAX_QUE_ELEM_NUM :: U32 where "MAX_QUE_ELEM_NUM = 1024 * 1024"
definition sizeof_QUE_CTRL_S :: nat where "sizeof_QUE_CTRL_S = 48"
definition sizeof_BUF_CTRL_S :: nat where "sizeof_BUF_CTRL_S = 88"

text \<open>The list of all queues is an array of \<open>MAX_QUE_NUM\<close> entries, without a check of its length.\<close>

definition pl_que_create ::
  "allocator \<Rightarrow> (nat \<Rightarrow> U32) \<Rightarrow> U32 \<Rightarrow> 'z pool_sys_scheme \<Rightarrow> (addr \<times> 'z pool_sys_scheme) option" where
  "pl_que_create malloc junk elemNum s =
     (if elemNum > MAX_QUE_ELEM_NUM then Some (0, s)
      else let (q, s) = sys_malloc malloc sizeof_QUE_CTRL_S s in
      if q = 0 then Some (0, s)
      else let n = unat elemNum + 1; (e, s) = sys_malloc malloc (n * 4) s in
      if e = 0 then do { s \<leftarrow> sys_free q s; Some (0, s) }
      else if length (g_pastQueGlobal s) \<ge> MAX_QUE_NUM then None
      else Some (q, s\<lparr>g_pastQueGlobal := g_pastQueGlobal s @ [q],
             ques := (ques s)(q \<mapsto> \<lparr>ulElemNum = elemNum, ulQueHead = 0, ulQueTail = 0, que_ullInCnt = 0,
               que_ullOutCnt = 0, aulQueElem = map junk [0..<n], aulQueElem_addr = e\<rparr>)\<rparr>))"

text \<open>Removing an entry from such an array: the last one takes its place.\<close>

definition drop_entry :: "'a \<Rightarrow> 'a list \<Rightarrow> 'a list" where
  "drop_entry x xs =
     (let i = length (takeWhile ((\<noteq>) x) xs) in if i = length xs then xs else butlast (xs[i := last xs]))"

definition pl_que_destroy :: "addr \<Rightarrow> 'z pool_sys_scheme \<Rightarrow> 'z pool_sys_scheme option" where
  "pl_que_destroy p s =
     (if p = 0 then Some s
      else do {
        q \<leftarrow> ques s p;
        if aulQueElem_addr q = 0 then Some s
        else do {
          s \<leftarrow> sys_free (aulQueElem_addr q) s;
          s \<leftarrow> sys_free p s;
          Some (s\<lparr>g_pastQueGlobal := drop_entry p (g_pastQueGlobal s), ques := (ques s)(p := None)\<rparr>) } })"

text \<open>Taking and adding on the structure itself, then on its address.\<close>

definition que_get :: "QUE_CTRL_S \<Rightarrow> (U32 \<times> QUE_CTRL_S) option" where
  "que_get q =
     (if ulQueHead q = ulQueTail q then Some (U32_INFINITY, q)
      else if unat (ulQueHead q) < length (aulQueElem q)
      then Some (aulQueElem q ! unat (ulQueHead q),
                 q\<lparr>ulQueHead := (ulQueHead q + 1) mod (ulElemNum q + 1), que_ullOutCnt := que_ullOutCnt q + 1\<rparr>)
      else None)"

definition que_put :: "U32 \<Rightarrow> QUE_CTRL_S \<Rightarrow> (U16 \<times> QUE_CTRL_S) option" where
  "que_put e q =
     (let newTail = (ulQueTail q + 1) mod (ulElemNum q + 1) in
      if newTail = ulQueHead q then Some (COMM_FAIL, q)
      else if unat (ulQueTail q) < length (aulQueElem q)
      then Some (COMM_SUCC, q\<lparr>aulQueElem := (aulQueElem q)[unat (ulQueTail q) := e], ulQueTail := newTail,
                              que_ullInCnt := que_ullInCnt q + 1\<rparr>)
      else None)"

definition que_avail_num :: "QUE_CTRL_S \<Rightarrow> U32" where
  "que_avail_num q =
     (if ulQueHead q > ulQueTail q then ulQueTail q + (ulElemNum q + 1) - ulQueHead q else ulQueTail q - ulQueHead q)"

definition pl_que_get :: "addr \<Rightarrow> 'z pool_sys_scheme \<Rightarrow> (U32 \<times> 'z pool_sys_scheme) option" where
  "pl_que_get p s =
     (if p = 0 then Some (U32_INFINITY, s)
      else do { q \<leftarrow> ques s p; (e, q) \<leftarrow> que_get q; Some (e, s\<lparr>ques := (ques s)(p \<mapsto> q)\<rparr>) })"

definition pl_que_put :: "addr \<Rightarrow> U32 \<Rightarrow> 'z pool_sys_scheme \<Rightarrow> (U16 \<times> 'z pool_sys_scheme) option" where
  "pl_que_put p e s =
     (if p = 0 then Some (COMM_FAIL, s)
      else do { q \<leftarrow> ques s p; (r, q) \<leftarrow> que_put e q; Some (r, s\<lparr>ques := (ques s)(p \<mapsto> q)\<rparr>) })"

definition pl_que_avail_num :: "addr \<Rightarrow> 'z pool_sys_scheme \<Rightarrow> U32 option" where
  "pl_que_avail_num p s = (if p = 0 then Some U32_INFINITY else map_option que_avail_num (ques s p))"

section \<open>A queue is a bounded first-in first-out list\<close>

definition que_ok :: "QUE_CTRL_S \<Rightarrow> bool" where
  "que_ok q \<longleftrightarrow> ulElemNum q \<le> MAX_QUE_ELEM_NUM \<and> ulQueHead q \<le> ulElemNum q \<and> ulQueTail q \<le> ulElemNum q
     \<and> length (aulQueElem q) = unat (ulElemNum q) + 1"

definition que_view :: "QUE_CTRL_S \<Rightarrow> U32 list" where
  "que_view q = map ((!) (aulQueElem q)) (ring_slots (unat (ulElemNum q) + 1) (unat (ulQueHead q)) (unat (ulQueTail q)))"

lemma que_okD:
  assumes "que_ok q"
  defines "n \<equiv> unat (ulElemNum q) + 1"
  shows "unat (ulQueHead q) < n" "unat (ulQueTail q) < n" "length (aulQueElem q) = n"
    "unat (ulElemNum q + 1) = n" "n \<le> 2 ^ 20 + 1"
    "unat ((ulQueHead q + 1) mod (ulElemNum q + 1)) = (unat (ulQueHead q) + 1) mod n"
    "unat ((ulQueTail q + 1) mod (ulElemNum q + 1)) = (unat (ulQueTail q) + 1) mod n"
proof -
  have b: "unat (ulElemNum q) \<le> 2 ^ 20"
    using assms(1) by (simp add: que_ok_def MAX_QUE_ELEM_NUM_def word_le_nat_alt)
  then show "n \<le> 2 ^ 20 + 1" by (simp add: n_def)
  show l: "unat (ulQueHead q) < n" "unat (ulQueTail q) < n" "length (aulQueElem q) = n"
    using assms by (auto simp: que_ok_def n_def word_le_nat_alt)
  have s: "unat (x + 1) = unat x + 1" if "unat x \<le> 2 ^ 20" for x :: U32
    using that by (simp add: unat_word_ariths)
  then show e: "unat (ulElemNum q + 1) = n" using b by (simp add: n_def)
  have "unat (ulQueHead q) \<le> 2 ^ 20" "unat (ulQueTail q) \<le> 2 ^ 20" using l b by (simp_all add: n_def)
  with s e show "unat ((ulQueHead q + 1) mod (ulElemNum q + 1)) = (unat (ulQueHead q) + 1) mod n"
    "unat ((ulQueTail q + 1) mod (ulElemNum q + 1)) = (unat (ulQueTail q) + 1) mod n"
    by (simp_all add: unat_mod_distrib)
qed

lemma que_get_view:
  assumes "que_ok q"
  shows "\<exists>e q'. que_get q = Some (e, q') \<and> que_ok q' \<and> ulElemNum q' = ulElemNum q \<and> aulQueElem_addr q' = aulQueElem_addr q
    \<and> (if que_view q = [] then e = U32_INFINITY \<and> q' = q else que_view q = e # que_view q')"
proof (cases "ulQueHead q = ulQueTail q")
  case True
  then have "que_view q = []" by (simp add: que_view_def ring_slots_def ring_count_def)
  then show ?thesis using True assms by (simp add: que_get_def)
next
  case False
  note d = que_okD[OF assms]
  let ?q = "q\<lparr>ulQueHead := (ulQueHead q + 1) mod (ulElemNum q + 1), que_ullOutCnt := que_ullOutCnt q + 1\<rparr>"
  have "unat (ulQueTail q) \<noteq> unat (ulQueHead q)" using False by (simp add: word_unat_eq_iff)
  then have "que_view q = (aulQueElem q ! unat (ulQueHead q)) # que_view ?q"
    using d ring_slots_pop[of "unat (ulQueHead q)" "unat (ulElemNum q) + 1" "unat (ulQueTail q)"]
    by (simp add: que_view_def)
  moreover have "que_ok ?q" using assms d(4,6) by (auto simp: que_ok_def word_le_nat_alt less_Suc_eq_le[symmetric])
  ultimately show ?thesis using False d(1,3) by (simp add: que_get_def)
qed

lemma que_put_view:
  assumes "que_ok q"
  shows "\<exists>r q'. que_put e q = Some (r, q') \<and> que_ok q' \<and> ulElemNum q' = ulElemNum q \<and> aulQueElem_addr q' = aulQueElem_addr q
    \<and> (if length (que_view q) = unat (ulElemNum q) then r = COMM_FAIL \<and> q' = q
       else r = COMM_SUCC \<and> que_view q' = que_view q @ [e])"
proof -
  note d = que_okD[OF assms]
  let ?n = "unat (ulElemNum q) + 1"
  have full: "(ulQueTail q + 1) mod (ulElemNum q + 1) = ulQueHead q \<longleftrightarrow> length (que_view q) = unat (ulElemNum q)"
    using ring_full[OF d(1,2)] d(7) by (simp add: que_view_def ring_slots_def word_unat_eq_iff)
  show ?thesis
  proof (cases "(ulQueTail q + 1) mod (ulElemNum q + 1) = ulQueHead q")
    case True
    then show ?thesis using full assms by (simp add: que_put_def)
  next
    case False
    let ?q = "q\<lparr>aulQueElem := (aulQueElem q)[unat (ulQueTail q) := e], ulQueTail := (ulQueTail q + 1) mod (ulElemNum q + 1),
                que_ullInCnt := que_ullInCnt q + 1\<rparr>"
    have neq: "(unat (ulQueTail q) + 1) mod ?n \<noteq> unat (ulQueHead q)"
      using False d(7) by (metis word_unat_eq_iff)
    have "que_view ?q = que_view q @ [e]"
      using ring_slots_push[OF d(1,2) neq] ring_free_slot(1)[OF d(1,2) neq] d(2,3,7)
      by (auto simp: que_view_def nth_list_update intro!: map_cong)
    moreover have "que_ok ?q" using assms d(4,7) by (auto simp: que_ok_def word_le_nat_alt less_Suc_eq_le[symmetric])
    ultimately show ?thesis using False full d(2,3) by (simp add: que_put_def)
  qed
qed

lemma que_avail_num_view:
  assumes "que_ok q"
  shows "unat (que_avail_num q) = length (que_view q)" "length (que_view q) \<le> unat (ulElemNum q)"
proof -
  note d = que_okD[OF assms]
  have c: "length (que_view q) = ring_count (unat (ulElemNum q) + 1) (unat (ulQueHead q)) (unat (ulQueTail q))"
    by (simp add: que_view_def ring_slots_def)
  show "length (que_view q) \<le> unat (ulElemNum q)"
    using ring_count_less[of "unat (ulElemNum q) + 1" "unat (ulQueHead q)" "unat (ulQueTail q)"] c by simp
  show "unat (que_avail_num q) = length (que_view q)"
  proof (cases "ulQueHead q > ulQueTail q")
    case True
    then have "unat (ulQueTail q + (ulElemNum q + 1)) = unat (ulQueTail q) + (unat (ulElemNum q) + 1)"
      using d by (simp add: unat_word_ariths)
    then show ?thesis
      using True d(1,2) by (simp add: que_avail_num_def c ring_count_alt word_less_nat_alt unat_sub word_le_nat_alt)
  next
    case False
    then show ?thesis
      using d(1,2) by (simp add: que_avail_num_def c ring_count_alt word_less_nat_alt unat_sub word_le_nat_alt not_less)
  qed
qed

text \<open>The contract: as long as \<open>U32_INFINITY\<close> is never put into a queue, which stands for an empty one.\<close>

definition que_push :: "U32 \<Rightarrow> QUE_CTRL_S \<Rightarrow> QUE_CTRL_S option" where
  "que_push e q = (case que_put e q of None \<Rightarrow> None | Some (r, q) \<Rightarrow> if r = COMM_SUCC then Some q else None)"

definition que_pop :: "QUE_CTRL_S \<Rightarrow> (U32 \<times> QUE_CTRL_S) option" where
  "que_pop q = (case que_get q of None \<Rightarrow> None | Some (e, q) \<Rightarrow> if e = U32_INFINITY then None else Some (e, q))"

definition que_good :: "QUE_CTRL_S \<Rightarrow> bool" where
  "que_good q \<longleftrightarrow> que_ok q \<and> U32_INFINITY \<notin> set (que_view q)"

interpretation pq: bounded_fifo que_good que_view "\<lambda>q. unat (ulElemNum q)" "\<lambda>e. e \<noteq> U32_INFINITY" que_push que_pop
proof
  fix q e
  assume ok: "que_good q" and e: "e \<noteq> U32_INFINITY"
  then show "case que_push e q of None \<Rightarrow> length (que_view q) = unat (ulElemNum q)
      | Some q' \<Rightarrow> length (que_view q) < unat (ulElemNum q) \<and> que_good q' \<and> que_view q' = que_view q @ [e]
          \<and> unat (ulElemNum q') = unat (ulElemNum q)"
    using que_put_view[of q e] que_avail_num_view(2)[of q]
    by (auto simp: que_good_def que_push_def COMM_SUCC_def COMM_FAIL_def split: if_splits)
next
  fix q
  assume "que_good q"
  then show "case que_pop q of None \<Rightarrow> que_view q = []
      | Some (e, q') \<Rightarrow> que_good q' \<and> que_view q = e # que_view q' \<and> unat (ulElemNum q') = unat (ulElemNum q)"
    using que_get_view[of q] by (auto simp: que_good_def que_pop_def split: if_splits)
qed

end
