(* ===== verification/Comm_Buf.thy ===== *)
theory Comm_Buf
  imports Comm_Queue
begin

text \<open>
  The buffer pools of \<^verbatim>\<open>platform/linux/pf_comm.cpp\<close> (\<^verbatim>\<open>pl_commbuf_*\<close>) as \<^verbatim>\<open>option.h\<close> and \<^verbatim>\<open>pl_comm.h\<close> configure
  them: the memory pool and both debug options are on, so a queue holds the numbers of the free blocks
  and the check of the calling thread is compiled out; a pool that is empty takes a block from
  \<^verbatim>\<open>malloc\<close>, unless its memory was given by the caller.
\<close>

section \<open>Operations\<close>

definition MAX_COMMBUF_NUM :: nat where "MAX_COMMBUF_NUM = 64"
definition MAX_COMMBUF_SIZE :: U32 where "MAX_COMMBUF_SIZE = 1024"
definition MAX_COMMBUF_ELEM_NUM :: U32 where "MAX_COMMBUF_ELEM_NUM = 1024 * 1024"

definition pl_commbuf_malloc :: "allocator \<Rightarrow> U32 \<Rightarrow> 'z pool_sys_scheme \<Rightarrow> addr \<times> 'z pool_sys_scheme" where
  "pl_commbuf_malloc malloc n s = (if n \<noteq> 0 then sys_malloc malloc (unat n) s else (0, s))"

definition pl_commbuf_free :: "addr \<Rightarrow> 'z pool_sys_scheme \<Rightarrow> 'z pool_sys_scheme option" where
  "pl_commbuf_free a s = (if a \<noteq> 0 then sys_free a s else Some s)"

text \<open>The size of a block is rounded up to a multiple of four.\<close>

definition round4 :: "U32 \<Rightarrow> U32" where "round4 n = (n + 3) AND 0xfffffffc"

fun fill_que :: "addr \<Rightarrow> nat list \<Rightarrow> 'z pool_sys_scheme \<Rightarrow> 'z pool_sys_scheme option" where
  "fill_que p [] s = Some s"
| "fill_que p (i # is) s = do { (r, s) \<leftarrow> pl_que_put p (of_nat i) s; fill_que p is s }"

definition new_pool :: "U32 \<Rightarrow> U32 \<Rightarrow> addr \<Rightarrow> addr \<Rightarrow> bool \<Rightarrow> BUF_CTRL_S" where
  "new_pool bsize num start q with_address =
     \<lparr>ulBufSize = bsize, ulBufNum = num, pucBufStart = start, pucBufEnd = start + unat (bsize * num), pstQueCtrl = q,
      ullInCnt = 0, ullOutCnt = 0, ulUrgentUsedNum = 0, ulMaxUsedNum = 0, pMutex = 0, ucWithAddress = with_address\<rparr>"

definition pl_commbuf_create ::
  "allocator \<Rightarrow> (nat \<Rightarrow> U32) \<Rightarrow> U32 \<Rightarrow> U32 \<Rightarrow> 'z pool_sys_scheme \<Rightarrow> (addr \<times> 'z pool_sys_scheme) option" where
  "pl_commbuf_create malloc junk bsize num s =
     (if bsize > MAX_COMMBUF_SIZE \<or> num > MAX_COMMBUF_ELEM_NUM then Some (0, s)
      else if length (g_pastCommBufferGlobal s) \<ge> MAX_COMMBUF_NUM then Some (0, s)
      else let (b, s) = sys_malloc malloc sizeof_BUF_CTRL_S s in
      if b = 0 then Some (0, s)
      else let bsize = round4 bsize; (start, s) = sys_malloc malloc (unat (bsize * num)) s in
      if start = 0 then do { s \<leftarrow> sys_free b s; Some (0, s) }
      else do {
        (q, s) \<leftarrow> pl_que_create malloc junk num s;
        if q = 0 then do { s \<leftarrow> sys_free start s; s \<leftarrow> sys_free b s; Some (0, s) }
        else do {
          s \<leftarrow> fill_que q [0..<unat num] (s\<lparr>g_pastCommBufferGlobal := g_pastCommBufferGlobal s @ [b],
                 bufs := (bufs s)(b \<mapsto> new_pool bsize num start q False)\<rparr>);
          Some (b, s) } })"

definition pl_commbuf_create_with_address ::
  "allocator \<Rightarrow> (nat \<Rightarrow> U32) \<Rightarrow> addr \<Rightarrow> addr \<Rightarrow> U32 \<Rightarrow> U32 \<Rightarrow> 'z pool_sys_scheme \<Rightarrow> (addr \<times> 'z pool_sys_scheme) option" where
  "pl_commbuf_create_with_address malloc junk start stop bsize num s =
     (if length (g_pastCommBufferGlobal s) \<ge> MAX_COMMBUF_NUM then Some (0, s)
      else if start = 0 \<or> stop = 0 then Some (0, s)
      else if start mod 4 \<noteq> 0 then Some (0, s)
      else let (b, s) = sys_malloc malloc sizeof_BUF_CTRL_S s in
      if b = 0 then Some (0, s)
      else let bsize = round4 bsize in
      if start + unat (bsize * num) \<noteq> stop then do { s \<leftarrow> sys_free b s; Some (0, s) }
      else do {
        (q, s) \<leftarrow> pl_que_create malloc junk num s;
        if q = 0 then do { s \<leftarrow> sys_free b s; Some (0, s) }
        else do {
          s \<leftarrow> fill_que q [0..<unat num] (s\<lparr>g_pastCommBufferGlobal := g_pastCommBufferGlobal s @ [b],
                 bufs := (bufs s)(b \<mapsto> new_pool bsize num start q True)\<rparr>);
          Some (b, s) } })"

definition pl_commbuf_avail_num :: "addr \<Rightarrow> 'z pool_sys_scheme \<Rightarrow> U32 option" where
  "pl_commbuf_avail_num p s =
     (if p = 0 then Some U32_INFINITY
      else do { b \<leftarrow> bufs s p; if pstQueCtrl b = 0 then Some U32_INFINITY else pl_que_avail_num (pstQueCtrl b) s })"

text \<open>What is given back when a pool is destroyed.\<close>

definition release_pool :: "addr \<Rightarrow> BUF_CTRL_S \<Rightarrow> 'z pool_sys_scheme \<Rightarrow> 'z pool_sys_scheme option" where
  "release_pool p b s = do {
     s \<leftarrow> pl_que_destroy (pstQueCtrl b) s;
     s \<leftarrow> (if \<not> ucWithAddress b then sys_free (pucBufStart b) s else Some s);
     s \<leftarrow> sys_free p s;
     Some (s\<lparr>bufs := (bufs s)(p := None)\<rparr>) }"

definition pl_commbuf_destroy :: "addr \<Rightarrow> 'z pool_sys_scheme \<Rightarrow> (U32 \<times> 'z pool_sys_scheme) option" where
  "pl_commbuf_destroy p s =
     (if p = 0 then Some (ucast COMM_FAIL, s)
      else do {
        b \<leftarrow> bufs s p;
        if pucBufStart b = 0 \<or> pstQueCtrl b = 0 then Some (ucast COMM_FAIL, s)
        else do {
          avail \<leftarrow> pl_commbuf_avail_num p s;
          if avail \<noteq> ulBufNum b then Some (1, s)
          else do {
            s \<leftarrow> release_pool p b (s\<lparr>g_pastCommBufferGlobal := drop_entry p (g_pastCommBufferGlobal s)\<rparr>);
            Some (ucast COMM_SUCC, s) } } })"

definition pl_commbuf_mutex_init :: "addr \<Rightarrow> addr \<Rightarrow> 'z pool_sys_scheme \<Rightarrow> (U32 \<times> 'z pool_sys_scheme) option" where
  "pl_commbuf_mutex_init p m s =
     (if p = 0 \<or> m = 0 then Some (ucast COMM_FAIL, s)
      else do { b \<leftarrow> bufs s p; Some (ucast COMM_SUCC, s\<lparr>bufs := (bufs s)(p \<mapsto> b\<lparr>pMutex := m\<rparr>)\<rparr>) })"

definition max_used :: "U32 \<Rightarrow> BUF_CTRL_S \<Rightarrow> BUF_CTRL_S" where
  "max_used n b = (if n > ulMaxUsedNum b then b\<lparr>ulMaxUsedNum := n\<rparr> else b)"

definition pl_commbuf_get :: "allocator \<Rightarrow> addr \<Rightarrow> 'z pool_sys_scheme \<Rightarrow> (addr \<times> 'z pool_sys_scheme) option" where
  "pl_commbuf_get malloc p s =
     (if p = 0 then Some (0, s)
      else do {
        b \<leftarrow> bufs s p;
        (e, s) \<leftarrow> pl_que_get (pstQueCtrl b) s;
        if e = U32_INFINITY
        then (if ucWithAddress b then Some (0, s\<lparr>g_ulBufGetFailCount := g_ulBufGetFailCount s + 1\<rparr>)
              else let (a, s) = pl_commbuf_malloc malloc (ulBufSize b) s in
                if a = 0 then Some (0, s)
                else let b = b\<lparr>ulUrgentUsedNum := ulUrgentUsedNum b + 1\<rparr> in
                  Some (a, s\<lparr>bufs := (bufs s)(p \<mapsto> max_used (ulBufNum b + ulUrgentUsedNum b) b),
                             g_ulBufGetFailCount := g_ulBufGetFailCount s + 1\<rparr>))
        else do {
          avail \<leftarrow> pl_que_avail_num (pstQueCtrl b) s;
          let b = b\<lparr>ullOutCnt := ullOutCnt b + 1\<rparr>;
          Some (pucBufStart b + unat e * unat (ulBufSize b),
                s\<lparr>bufs := (bufs s)(p \<mapsto> max_used (ulBufNum b - avail) b)\<rparr>) } })"

definition pl_commbuf_ret :: "addr \<Rightarrow> addr \<Rightarrow> 'z pool_sys_scheme \<Rightarrow> (U32 \<times> 'z pool_sys_scheme) option" where
  "pl_commbuf_ret p a s =
     (if p = 0 \<or> a = 0 then Some (ucast COMM_FAIL, s)
      else do {
        b \<leftarrow> bufs s p;
        if a < pucBufStart b \<or> a \<ge> pucBufEnd b
        then (if ucWithAddress b then Some (ucast COMM_FAIL, s)
              else do { s \<leftarrow> pl_commbuf_free a s;
                        Some (ucast COMM_SUCC, s\<lparr>bufs := (bufs s)(p \<mapsto> b\<lparr>ulUrgentUsedNum := ulUrgentUsedNum b - 1\<rparr>)\<rparr>) })
        else if ulBufSize b = 0 then None
        else do {
          (r, s) \<leftarrow> pl_que_put (pstQueCtrl b) (of_nat (a - pucBufStart b) div ulBufSize b) s;
          if r \<noteq> COMM_SUCC then Some (ucast COMM_FAIL, s)
          else Some (ucast COMM_SUCC, s\<lparr>bufs := (bufs s)(p \<mapsto> b\<lparr>ullInCnt := ullInCnt b + 1\<rparr>)\<rparr>) } })"

text \<open>Statistics over all pools, and clearing them.\<close>

fun total_membytes :: "BUF_CTRL_S list \<Rightarrow> U64 \<times> U64 \<Rightarrow> U64 \<times> U64" where
  "total_membytes [] r = r"
| "total_membytes (b # bs) (ullFreeSize, ullTotalSize) =
     total_membytes bs (ullFreeSize + (ucast (ulBufNum b) - (ullOutCnt b - ullInCnt b)) * ucast (ulBufSize b),
                        ullTotalSize + ucast (ulBufNum b) * ucast (ulBufSize b))"

definition pl_commbuf_get_total_available_membytes :: "'z pool_sys_scheme \<Rightarrow> (U64 \<times> U64) option" where
  "pl_commbuf_get_total_available_membytes s =
     (if \<forall>p \<in> set (g_pastCommBufferGlobal s). bufs s p \<noteq> None
      then Some (total_membytes (map (\<lambda>p. the (bufs s p)) (g_pastCommBufferGlobal s)) (0, 0)) else None)"

definition clear_counts :: "BUF_CTRL_S \<Rightarrow> BUF_CTRL_S" where
  "clear_counts b = b\<lparr>ullInCnt := 0, ullOutCnt := 0, ulUrgentUsedNum := 0, ulMaxUsedNum := 0\<rparr>"

fun clear_all :: "addr list \<Rightarrow> 'z pool_sys_scheme \<Rightarrow> 'z pool_sys_scheme option" where
  "clear_all [] s = Some s"
| "clear_all (p # ps) s = do { b \<leftarrow> bufs s p; clear_all ps (s\<lparr>bufs := (bufs s)(p \<mapsto> clear_counts b)\<rparr>) }"

definition pl_commbuf_clear_statics :: "'z pool_sys_scheme \<Rightarrow> 'z pool_sys_scheme option" where
  "pl_commbuf_clear_statics s = clear_all (g_pastCommBufferGlobal s) s"

fun release_all :: "addr list \<Rightarrow> 'z pool_sys_scheme \<Rightarrow> 'z pool_sys_scheme option" where
  "release_all [] s = Some s"
| "release_all (p # ps) s = do { b \<leftarrow> bufs s p; s \<leftarrow> release_pool p b s; release_all ps s }"

definition pl_commbuf_clear :: "'z pool_sys_scheme \<Rightarrow> 'z pool_sys_scheme option" where
  "pl_commbuf_clear s = map_option (\<lambda>s. s\<lparr>g_pastCommBufferGlobal := []\<rparr>) (release_all (g_pastCommBufferGlobal s) s)"

section \<open>Pools whose memory the caller gave\<close>

text \<open>A pool, its queue, and the address of a block.\<close>

definition block_at :: "BUF_CTRL_S \<Rightarrow> nat \<Rightarrow> addr" where
  "block_at b e = pucBufStart b + e * unat (ulBufSize b)"

definition free_nos :: "QUE_CTRL_S \<Rightarrow> nat list" where
  "free_nos q = map unat (que_view q)"

definition pool_ok :: "BUF_CTRL_S \<Rightarrow> QUE_CTRL_S \<Rightarrow> bool" where
  "pool_ok b q \<longleftrightarrow> que_ok q \<and> ulElemNum q = ulBufNum b \<and> ulBufSize b \<noteq> 0 \<and> pucBufStart b \<noteq> 0
     \<and> unat (ulBufSize b) * unat (ulBufNum b) < 2 ^ 32
     \<and> pucBufEnd b = pucBufStart b + unat (ulBufSize b) * unat (ulBufNum b)
     \<and> distinct (free_nos q) \<and> set (free_nos q) \<subseteq> {..<unat (ulBufNum b)}"

definition pool_at :: "'z pool_sys_scheme \<Rightarrow> addr \<Rightarrow> BUF_CTRL_S \<Rightarrow> QUE_CTRL_S \<Rightarrow> bool" where
  "pool_at s p b q \<longleftrightarrow> p \<noteq> 0 \<and> bufs s p = Some b \<and> pstQueCtrl b \<noteq> 0 \<and> ques s (pstQueCtrl b) = Some q \<and> pool_ok b q"

text \<open>What does not change while blocks are taken and returned.\<close>

definition same_pool :: "BUF_CTRL_S \<Rightarrow> BUF_CTRL_S \<Rightarrow> bool" where
  "same_pool b b' \<longleftrightarrow> ulBufSize b' = ulBufSize b \<and> ulBufNum b' = ulBufNum b \<and> pucBufStart b' = pucBufStart b
     \<and> pucBufEnd b' = pucBufEnd b \<and> pstQueCtrl b' = pstQueCtrl b \<and> ucWithAddress b' = ucWithAddress b \<and> pMutex b' = pMutex b"

lemma same_pool_max_used: "same_pool b b' \<Longrightarrow> same_pool b (max_used n b')"
  by (simp add: same_pool_def max_used_def)

lemma pool_ok_same: "\<lbrakk>pool_ok b q; same_pool b b'\<rbrakk> \<Longrightarrow> pool_ok b' q"
  by (simp add: pool_ok_def same_pool_def)

lemma block_at_same: "same_pool b b' \<Longrightarrow> block_at b' = block_at b"
  by (simp add: block_at_def same_pool_def fun_eq_iff)

lemma length_free_nos: "pool_ok b q \<Longrightarrow> length (free_nos q) \<le> unat (ulBufNum b)"
  using que_avail_num_view(2)[of q] by (simp add: free_nos_def pool_ok_def)

lemma block_in_pool:
  assumes "pool_ok b q" "e < unat (ulBufNum b)"
  shows "pucBufStart b \<le> block_at b e" "block_at b e + unat (ulBufSize b) \<le> pucBufEnd b" "block_at b e \<noteq> 0"
    "of_nat (block_at b e - pucBufStart b) div ulBufSize b = (of_nat e :: U32)"
    "unat (of_nat e :: U32) = e" "block_at b e < pucBufEnd b"
proof -
  let ?s = "unat (ulBufSize b)"
  have s: "0 < ?s" using assms(1) by (simp add: pool_ok_def unat_gt_0)
  have "Suc e \<le> unat (ulBufNum b)" using assms(2) by simp
  then have le: "e * ?s + ?s \<le> ?s * unat (ulBufNum b)"
    using mult_le_mono1[of "Suc e" "unat (ulBufNum b)" ?s] by (simp add: mult.commute)
  with assms(1) show "pucBufStart b \<le> block_at b e" "block_at b e + ?s \<le> pucBufEnd b" "block_at b e \<noteq> 0"
    by (simp_all add: pool_ok_def block_at_def)
  with s show "block_at b e < pucBufEnd b" by simp
  have lt: "e * ?s < 2 ^ 32" using le assms(1) s by (simp add: pool_ok_def)
  have "unat (ulBufNum b) < 2 ^ 32" by (rule unat_lt_U32)
  then show u: "unat (of_nat e :: U32) = e" using assms(2) by (simp add: unat_of_nat)
  have "unat (of_nat (e * ?s) div ulBufSize b :: U32) = e"
    using lt s by (simp add: unat_div_distrib unat_of_nat del: of_nat_mult)
  then show "of_nat (block_at b e - pucBufStart b) div ulBufSize b = (of_nat e :: U32)"
    using u by (simp add: block_at_def word_unat_eq_iff del: of_nat_mult)
qed

lemma blocks_apart:
  assumes "e \<noteq> f"
  shows "block_at b e + unat (ulBufSize b) \<le> block_at b f \<or> block_at b f + unat (ulBufSize b) \<le> block_at b e"
proof -
  have "Suc e * unat (ulBufSize b) \<le> f * unat (ulBufSize b) \<or> Suc f * unat (ulBufSize b) \<le> e * unat (ulBufSize b)"
    using assms by (metis Suc_leI linorder_neq_iff mult_le_mono1)
  then show ?thesis by (auto simp: block_at_def)
qed

lemma block_at_inj: "\<lbrakk>pool_ok b q; block_at b e = block_at b f\<rbrakk> \<Longrightarrow> e = f"
  by (auto simp: pool_ok_def block_at_def unat_eq_zero)

text \<open>Taking a block: the first free one, or none.\<close>

lemma get_outcome:
  assumes "pool_at s p b q" "ucWithAddress b"
  shows "(free_nos q = [] \<and> pl_commbuf_get malloc p s = Some (0, s\<lparr>g_ulBufGetFailCount := g_ulBufGetFailCount s + 1\<rparr>))
    \<or> (\<exists>e b' q'. free_nos q = e # free_nos q' \<and> pool_ok b' q' \<and> same_pool b b' \<and>
         pl_commbuf_get malloc p s = Some (block_at b e, s\<lparr>ques := (ques s)(pstQueCtrl b \<mapsto> q'), bufs := (bufs s)(p \<mapsto> b')\<rparr>))"
proof -
  note at = assms(1)[unfolded pool_at_def]
  have ok: "pool_ok b q" "que_ok q" using at by (auto simp: pool_ok_def)
  obtain e q' where g: "que_get q = Some (e, q')" "que_ok q'" "ulElemNum q' = ulElemNum q"
    "if que_view q = [] then e = U32_INFINITY \<and> q' = q else que_view q = e # que_view q'"
    using que_get_view[OF ok(2)] by blast
  show ?thesis
  proof (cases "que_view q = []")
    case True
    then have "(ques s)(pstQueCtrl b \<mapsto> q') = ques s" using at g(4) by auto
    then show ?thesis using True at g assms(2) by (simp add: pl_commbuf_get_def pl_que_get_def free_nos_def)
  next
    case False
    then have v: "que_view q = e # que_view q'" using g(4) by simp
    then have f: "free_nos q = unat e # free_nos q'" by (simp add: free_nos_def)
    have "unat e < unat (ulBufNum b)" using ok(1) f by (simp add: pool_ok_def)
    moreover have "unat (ulBufNum b) \<le> 2 ^ 20"
      using que_okD(5)[OF ok(2)] ok(1) by (simp add: pool_ok_def)
    ultimately have e: "e \<noteq> U32_INFINITY" by (auto simp: U32_INFINITY_def)
    let ?b = "max_used (ulBufNum b - que_avail_num q') (b\<lparr>ullOutCnt := ullOutCnt b + 1\<rparr>)"
    have "pool_ok b q'" using ok(1) f g(2,3) by (simp add: pool_ok_def)
    moreover have sp: "same_pool b ?b" by (rule same_pool_max_used) (simp add: same_pool_def)
    ultimately have "pool_ok ?b q'" by (rule pool_ok_same)
    moreover have "pl_commbuf_get malloc p s =
        Some (block_at b (unat e), s\<lparr>ques := (ques s)(pstQueCtrl b \<mapsto> q'), bufs := (bufs s)(p \<mapsto> ?b)\<rparr>)"
      using at g(1) e by (simp add: pl_commbuf_get_def pl_que_get_def pl_que_avail_num_def block_at_def)
    ultimately show ?thesis using f sp by blast
  qed
qed

text \<open>Returning a block that is not free.\<close>

lemma ret_outcome:
  assumes "pool_at s p b q" "e < unat (ulBufNum b)" "e \<notin> set (free_nos q)"
  shows "\<exists>b' q'. free_nos q' = free_nos q @ [e] \<and> pool_ok b' q' \<and> same_pool b b' \<and>
     pl_commbuf_ret p (block_at b e) s = Some (0, s\<lparr>ques := (ques s)(pstQueCtrl b \<mapsto> q'), bufs := (bufs s)(p \<mapsto> b')\<rparr>)"
proof -
  note at = assms(1)[unfolded pool_at_def]
  have ok: "pool_ok b q" "que_ok q" using at by (auto simp: pool_ok_def)
  note blk = block_in_pool[OF ok(1) assms(2)]
  have "card (insert e (set (free_nos q))) \<le> card {..<unat (ulBufNum b)}"
    using ok(1) assms(2) by (intro card_mono) (auto simp: pool_ok_def)
  moreover have "card (insert e (set (free_nos q))) = Suc (length (que_view q))"
    using ok(1) assms(3) distinct_card[of "free_nos q"] by (simp add: pool_ok_def) (simp add: free_nos_def)
  ultimately have "length (que_view q) \<noteq> unat (ulElemNum q)" using ok(1) by (simp add: pool_ok_def)
  then obtain q' where g: "que_put (of_nat e) q = Some (COMM_SUCC, q')" "que_ok q'" "ulElemNum q' = ulElemNum q"
    "que_view q' = que_view q @ [of_nat e]"
    using que_put_view[OF ok(2), of "of_nat e"] by auto
  have f: "free_nos q' = free_nos q @ [e]" using g(4) blk(5) by (simp add: free_nos_def)
  have "pool_ok b q'" using ok(1) f g(2,3) assms(2,3) by (simp add: pool_ok_def)
  then show ?thesis
    using at g f blk ok(1)
    by (intro exI[of _ "b\<lparr>ullInCnt := ullInCnt b + 1\<rparr>"] exI[of _ q'])
      (auto simp: pl_commbuf_ret_def pl_que_put_def COMM_SUCC_def same_pool_def pool_ok_def)
qed

text \<open>Updates of one pool leave the others alone.\<close>

lemma pool_at_other:
  assumes "pool_at s p b q" "p \<noteq> p'" "pstQueCtrl b \<noteq> k"
  shows "pool_at (s\<lparr>ques := (ques s)(k \<mapsto> q'), bufs := (bufs s)(p' \<mapsto> b')\<rparr>) p b q"
  using assms by (simp add: pool_at_def)

lemma pool_at_update:
  assumes "pool_at s p b q" "pool_ok b' q'" "same_pool b b'"
  shows "pool_at (s\<lparr>ques := (ques s)(pstQueCtrl b \<mapsto> q'), bufs := (bufs s)(p \<mapsto> b')\<rparr>) p b' q'"
  using assms by (simp add: pool_at_def same_pool_def)

section \<open>A new pool\<close>

lemma fill_que_push:
  assumes "push_all que_push (map of_nat is) q = Some q'" "ques s k = Some q" "k \<noteq> 0"
  shows "fill_que k is s = Some (s\<lparr>ques := (ques s)(k \<mapsto> q')\<rparr>)"
  using assms
proof (induction "is" arbitrary: s q)
  case Nil
  then have "(ques s)(k \<mapsto> q') = ques s" by auto
  then show ?case by simp
next
  case (Cons i xs)
  obtain q1 where q1: "que_put (of_nat i) q = Some (COMM_SUCC, q1)" "push_all que_push (map of_nat xs) q1 = Some q'"
    using Cons.prems(1) by (auto simp: que_push_def[of "of_nat i" q] split: Option.bind_split_asm option.split_asm if_split_asm)
  have "pl_que_put k (of_nat i) s = Some (COMM_SUCC, s\<lparr>ques := (ques s)(k \<mapsto> q1)\<rparr>)"
    using Cons.prems(2,3) q1(1) by (simp add: pl_que_put_def)
  then show ?case
    using Cons.IH[OF q1(2), of "s\<lparr>ques := (ques s)(k \<mapsto> q1)\<rparr>"] Cons.prems(3)
    by (simp del: fun_upd_apply add: fun_upd_same)
qed

lemma fill_que_outcome:
  assumes "ques s k = Some q" "k \<noteq> 0" "que_ok q" "que_view q = []" "n \<le> unat (ulElemNum q)"
  shows "\<exists>q'. fill_que k [0..<n] s = Some (s\<lparr>ques := (ques s)(k \<mapsto> q')\<rparr>) \<and> que_ok q' \<and> ulElemNum q' = ulElemNum q
    \<and> que_view q' = map of_nat [0..<n]"
proof -
  have "n \<le> 2 ^ 20" using que_okD(5)[OF assms(3)] assms(5) by simp
  then have "(of_nat i :: U32) \<noteq> U32_INFINITY" if "i < n" for i
    using that by (auto simp: U32_INFINITY_def word_unat_eq_iff unat_of_nat)
  then obtain q' where "push_all que_push (map of_nat [0..<n]) q = Some q'" "que_good q'" "que_view q' = map of_nat [0..<n]"
    "unat (ulElemNum q') = unat (ulElemNum q)"
    using pq.push_all_ok[of q "map of_nat [0..<n]"] assms(3-5) by (auto simp: que_good_def)
  then show ?thesis using fill_que_push[OF _ assms(1,2)] by (auto simp: que_good_def word_unat_eq_iff)
qed

text \<open>What allocations do to the blocks in use.\<close>

definition blocks_ok :: "blocks \<Rightarrow> bool" where
  "blocks_ok h \<longleftrightarrow> (\<forall>a m. h a = Some m \<longrightarrow> apart (h(a := None)) a m)"

definition grown :: "blocks \<Rightarrow> blocks \<Rightarrow> bool" where
  "grown h h' \<longleftrightarrow> h \<subseteq>\<^sub>m h' \<and> (blocks_ok h \<longrightarrow> blocks_ok h')"

lemma blocks_okD: "\<lbrakk>blocks_ok h; h a = Some m; h b = Some n; a \<noteq> b\<rbrakk> \<Longrightarrow> a + m \<le> b \<or> b + n \<le> a"
  by (auto simp: blocks_ok_def apart_def)

lemma blocks_ok_new: "\<lbrakk>blocks_ok h; apart h a n\<rbrakk> \<Longrightarrow> blocks_ok (h(a \<mapsto> n))"
  by (auto simp: blocks_ok_def apart_def)

lemma blocks_ok_drop: "blocks_ok h \<Longrightarrow> blocks_ok (h(a := None))"
  by (auto simp: blocks_ok_def apart_def)

lemma grown_refl [simp]: "grown h h"
  by (simp add: grown_def)

lemma grown_trans: "\<lbrakk>grown h h'; grown h' h''\<rbrakk> \<Longrightarrow> grown h h''"
  by (auto simp: grown_def intro: map_le_trans)

lemma grown_Some: "\<lbrakk>grown h h'; h a = Some m\<rbrakk> \<Longrightarrow> h' a = Some m"
  by (auto simp: grown_def map_le_def dom_def)

lemma grown_None: "\<lbrakk>grown h h'; h' a = None\<rbrakk> \<Longrightarrow> h a = None"
  using grown_Some[of h h' a] by fastforce

lemma sys_malloc_outcome:
  assumes "malloc_ok malloc" "sys_malloc malloc n s = (a, s')"
  obtains h where "s' = s\<lparr>sys_calls := sys_calls s + 1, sys_blocks := h\<rparr>" "grown (sys_blocks s) h"
    "a = 0 \<Longrightarrow> h = sys_blocks s"
    "a \<noteq> 0 \<Longrightarrow> sys_blocks s a = None \<and> h = (sys_blocks s)(a \<mapsto> n) \<and> a mod 16 = 0 \<and> apart (sys_blocks s) a n"
proof -
  let ?h = "if a = 0 then sys_blocks s else (sys_blocks s)(a \<mapsto> n)"
  have e: "a = malloc (sys_calls s) (sys_blocks s) n" "s' = s\<lparr>sys_calls := sys_calls s + 1, sys_blocks := ?h\<rparr>"
    using assms(2) by (auto simp: sys_malloc_def Let_def)
  then have ok: "a \<noteq> 0 \<Longrightarrow> a mod 16 = 0 \<and> sys_blocks s a = None \<and> apart (sys_blocks s) a n"
    using assms(1) by (simp add: malloc_ok_def)
  then have "grown (sys_blocks s) ?h" by (auto simp: grown_def map_le_def blocks_ok_new)
  then show thesis using ok e(2) by (intro that[of ?h]) auto
qed

lemma pl_que_create_outcome:
  assumes "malloc_ok malloc" "pl_que_create malloc junk n s = Some (k, s')" "k \<noteq> 0"
  obtains h c q where "que_ok q" "ulElemNum q = n" "que_view q = []" "grown (sys_blocks s) h" "sys_blocks s k = None"
    "h k \<noteq> None"
    "s' = s\<lparr>sys_calls := c, sys_blocks := h, g_pastQueGlobal := g_pastQueGlobal s @ [k], ques := (ques s)(k \<mapsto> q)\<rparr>"
proof -
  have le: "\<not> MAX_QUE_ELEM_NUM < n" using assms(2,3) by (auto simp: pl_que_create_def split: if_splits)
  obtain a s1 where m1: "sys_malloc malloc sizeof_QUE_CTRL_S s = (a, s1)" by fastforce
  have a: "a \<noteq> 0" using assms(2,3) le m1 by (intro notI) (simp add: pl_que_create_def Let_def)
  obtain h1 where s1: "s1 = s\<lparr>sys_calls := sys_calls s + 1, sys_blocks := h1\<rparr>" "grown (sys_blocks s) h1"
    "sys_blocks s a = None" "h1 = (sys_blocks s)(a \<mapsto> sizeof_QUE_CTRL_S)"
    using sys_malloc_outcome[OF assms(1) m1] a by metis
  obtain e s2 where m2: "sys_malloc malloc ((unat n + 1) * 4) s1 = (e, s2)" by fastforce
  obtain h2 where s2: "s2 = s1\<lparr>sys_calls := sys_calls s1 + 1, sys_blocks := h2\<rparr>" "grown (sys_blocks s1) h2"
    using sys_malloc_outcome[OF assms(1) m2] by metis
  have e: "e \<noteq> 0" using assms(2,3) le m1 m2 a
    by (intro notI) (simp add: pl_que_create_def Let_def split: Option.bind_split_asm)
  let ?q = "\<lparr>ulElemNum = n, ulQueHead = 0, ulQueTail = 0, que_ullInCnt = 0,
        que_ullOutCnt = 0, aulQueElem = map junk [0..<unat n + 1], aulQueElem_addr = e\<rparr>"
  have q: "que_ok ?q" "que_view ?q = []" using le by (simp_all add: que_ok_def que_view_def ring_slots_def ring_count_def not_less)
  have "k = a \<and> s' = s2\<lparr>g_pastQueGlobal := g_pastQueGlobal s2 @ [a], ques := (ques s2)(a \<mapsto> ?q)\<rparr>"
    using assms(2) m1 m2 a e le by (auto simp: pl_que_create_def Let_def split: if_splits)
  then have k: "k = a" and s': "s' = s2\<lparr>g_pastQueGlobal := g_pastQueGlobal s2 @ [a], ques := (ques s2)(a \<mapsto> ?q)\<rparr>" by auto
  have "s' = s\<lparr>sys_calls := sys_calls s + 2, sys_blocks := h2, g_pastQueGlobal := g_pastQueGlobal s @ [k], ques := (ques s)(k \<mapsto> ?q)\<rparr>"
    unfolding s' k s2(1) s1(1) by simp
  moreover have "grown (sys_blocks s) h2" using grown_trans[OF s1(2)] s2(2) by (simp add: s1(1))
  moreover have "h2 k \<noteq> None" using grown_Some[OF s2(2), of k] by (simp add: s1(1,4) k)
  ultimately show thesis using q s1(3) k by (intro that[of ?q h2]) auto
qed

lemma new_pool_ok:
  assumes "que_ok q" "ulElemNum q = num" "que_view q = map of_nat [0..<unat num]"
    and "bsize \<noteq> 0" "unat bsize * unat num < 2 ^ 32" "start \<noteq> 0"
  shows "free_nos q = [0..<unat num]" "pool_ok (new_pool bsize num start k w) q"
proof -
  have "unat (of_nat i :: U32) = i" if "i < unat num" for i
    using that unat_lt_U32[of num] by (simp add: unat_of_nat)
  then have "map (unat \<circ> (of_nat :: nat \<Rightarrow> U32)) [0..<unat num] = [0..<unat num]" by (intro map_idI) simp
  then show f: "free_nos q = [0..<unat num]" using assms(3) by (simp add: free_nos_def)
  have "unat (bsize * num) = unat bsize * unat num" using assms(5) by (simp add: unat_word_ariths)
  then show "pool_ok (new_pool bsize num start k w) q" using assms f by (auto simp: pool_ok_def new_pool_def)
qed

lemma create_with_address_outcome:
  assumes "malloc_ok malloc" "pl_commbuf_create_with_address malloc junk start stop bsize num s = Some (p, s')" "p \<noteq> 0"
    and "round4 bsize = bsize" "bsize \<noteq> 0" "unat bsize * unat num < 2 ^ 32"
  obtains k q c h where "k \<noteq> p" "k \<noteq> 0" "pool_ok (new_pool bsize num start k True) q" "free_nos q = [0..<unat num]"
    "grown (sys_blocks s) h" "sys_blocks s p = None" "sys_blocks s k = None" "h p \<noteq> None" "h k \<noteq> None"
    "s' = s\<lparr>sys_calls := c, sys_blocks := h, g_pastQueGlobal := g_pastQueGlobal s @ [k],
        g_pastCommBufferGlobal := g_pastCommBufferGlobal s @ [p], ques := (ques s)(k \<mapsto> q),
        bufs := (bufs s)(p \<mapsto> new_pool bsize num start k True)\<rparr>"
proof -
  have pre: "\<not> length (g_pastCommBufferGlobal s) \<ge> MAX_COMMBUF_NUM" "start \<noteq> 0" "stop \<noteq> 0" "start mod 4 = 0"
    using assms(2,3) by (auto simp: pl_commbuf_create_with_address_def split: if_splits)
  obtain a s1 where m1: "sys_malloc malloc sizeof_BUF_CTRL_S s = (a, s1)" by fastforce
  have a: "a \<noteq> 0" using assms(2,3) pre m1 by (intro notI) (simp add: pl_commbuf_create_with_address_def Let_def)
  obtain h1 where s1: "s1 = s\<lparr>sys_calls := sys_calls s + 1, sys_blocks := h1\<rparr>" "grown (sys_blocks s) h1"
    "sys_blocks s a = None" "h1 = (sys_blocks s)(a \<mapsto> sizeof_BUF_CTRL_S)"
    using sys_malloc_outcome[OF assms(1) m1] a by metis
  have stop: "start + unat (bsize * num) = stop"
    using assms(2,3,4) pre m1 a by (auto simp: pl_commbuf_create_with_address_def Let_def split: if_splits Option.bind_split_asm)
  obtain k s2 where m2: "pl_que_create malloc junk num s1 = Some (k, s2)"
    using assms(2,4) pre m1 a stop by (auto simp: pl_commbuf_create_with_address_def Let_def split: Option.bind_split_asm)
  have k: "k \<noteq> 0" using assms(2,3,4) pre m1 a stop m2
    by (intro notI) (simp add: pl_commbuf_create_with_address_def Let_def split: Option.bind_split_asm)
  obtain h2 c q where s2: "que_ok q" "ulElemNum q = num" "que_view q = []" "grown (sys_blocks s1) h2" "sys_blocks s1 k = None"
    "h2 k \<noteq> None"
    "s2 = s1\<lparr>sys_calls := c, sys_blocks := h2, g_pastQueGlobal := g_pastQueGlobal s1 @ [k], ques := (ques s1)(k \<mapsto> q)\<rparr>"
    by (rule pl_que_create_outcome[OF assms(1) m2 k])
  let ?b = "new_pool bsize num start k True"
  let ?s = "s2\<lparr>g_pastCommBufferGlobal := g_pastCommBufferGlobal s2 @ [a], bufs := (bufs s2)(a \<mapsto> ?b)\<rparr>"
  have "ques ?s k = Some q" using s2(7) by simp
  then obtain q' where f: "fill_que k [0..<unat num] ?s = Some (?s\<lparr>ques := (ques ?s)(k \<mapsto> q')\<rparr>)" "que_ok q'"
    "ulElemNum q' = num" "que_view q' = map of_nat [0..<unat num]"
    using fill_que_outcome[of ?s k q "unat num"] k s2(1-3) by (auto simp del: fun_upd_apply)
  have pq: "pool_ok ?b q'" "free_nos q' = [0..<unat num]" using new_pool_ok[OF f(2-4) assms(5,6) pre(2)] by auto
  have "Some (a, ?s\<lparr>ques := (ques ?s)(k \<mapsto> q')\<rparr>) = Some (p, s')"
    using pre m1 a stop m2 k f(1) unfolding assms(2)[symmetric]
    by (simp add: pl_commbuf_create_with_address_def assms(4) Let_def del: fun_upd_apply)
  then have p: "p = a" and s': "s' = ?s\<lparr>ques := (ques ?s)(k \<mapsto> q')\<rparr>" by auto
  have "s' = s\<lparr>sys_calls := c, sys_blocks := h2, g_pastQueGlobal := g_pastQueGlobal s @ [k],
        g_pastCommBufferGlobal := g_pastCommBufferGlobal s @ [p], ques := (ques s)(k \<mapsto> q'), bufs := (bufs s)(p \<mapsto> ?b)\<rparr>"
    unfolding s' p s2(7) s1(1) by simp
  moreover have "grown (sys_blocks s) h2" using grown_trans[OF s1(2)] s2(4) by (simp add: s1(1))
  moreover have "h2 p \<noteq> None" "k \<noteq> p" using grown_Some[OF s2(4), of p] s2(5) by (auto simp: s1(1,4) p)
  moreover have "sys_blocks s k = None" using s2(5) grown_None[OF s1(2)] by (simp add: s1(1))
  ultimately show thesis using pq k s1(3) s2(6) p by (intro that[of k q' h2 c]) auto
qed

section \<open>Limits\<close>

text \<open>A pool of two blocks of four bytes at address 100, both handed out.\<close>

definition toy_pools :: pool_sys where
  "toy_pools = \<lparr>sys_calls = 0, sys_blocks = Map.empty,
     ques = [2 \<mapsto> \<lparr>ulElemNum = 2, ulQueHead = 2, ulQueTail = 2, que_ullInCnt = 2, que_ullOutCnt = 2,
                    aulQueElem = [0, 1, 0], aulQueElem_addr = 3\<rparr>],
     bufs = [1 \<mapsto> (new_pool 4 2 100 2 True)\<lparr>ullOutCnt := 2\<rparr>],
     g_pastQueGlobal = [2], g_pastCommBufferGlobal = [1], g_ulBufGetFailCount = 0\<rparr>"

lemmas toy_simps = toy_pools_def new_pool_def pl_commbuf_ret_def pl_commbuf_get_def pl_que_put_def pl_que_get_def
  que_put_def que_get_def pl_que_avail_num_def que_avail_num_def max_used_def COMM_SUCC_def COMM_FAIL_def U32_INFINITY_def

text \<open>A block returned twice is accepted twice and then handed out twice, and so is an address inside a block.\<close>

lemma returned_twice:
  "map_option (\<lambda>(r1, r2, a, b, _). (r1, r2, a, b)) (do {
      (r1, s) \<leftarrow> pl_commbuf_ret 1 100 toy_pools; (r2, s) \<leftarrow> pl_commbuf_ret 1 101 s;
      (a, s) \<leftarrow> pl_commbuf_get (\<lambda>_ _ _. 0) 1 s; (b, s) \<leftarrow> pl_commbuf_get (\<lambda>_ _ _. 0) 1 s; Some (r1, r2, a, b, s) })
   = Some (0, 0, 100, 100)"
  by (simp add: toy_simps)

text \<open>After the counters were cleared, a returned block makes the pool report more free bytes than it has.\<close>

lemma cleared_counts_exceed:
  "do { s \<leftarrow> pl_commbuf_clear_statics toy_pools; (r, s) \<leftarrow> pl_commbuf_ret 1 100 s; pl_commbuf_get_total_available_membytes s }
   = Some (12, 8)"
  by (simp add: toy_simps pl_commbuf_clear_statics_def clear_counts_def pl_commbuf_get_total_available_membytes_def)

text \<open>The list of queues is written behind its end by the 129th queue.\<close>

lemma too_many_queues:
  assumes "length (g_pastQueGlobal s) = MAX_QUE_NUM" "n \<le> MAX_QUE_ELEM_NUM" "\<And>c h k. malloc c h k \<noteq> 0"
  shows "pl_que_create malloc junk n s = None"
  using assms by (simp add: pl_que_create_def sys_malloc_def Let_def not_less[symmetric] del: neq0_conv)

end
