(* ===== verification/Mem_Pool.thy ===== *)
theory Mem_Pool
  imports Comm_Buf
begin

text \<open>
  The allocator of the process, \<^verbatim>\<open>pf_malloc\<close>, \<^verbatim>\<open>pf_realloc\<close> and \<^verbatim>\<open>pf_free\<close> of \<^verbatim>\<open>platform/linux/pf_ex.cpp\<close> with
  the memory pool of \<^verbatim>\<open>option.h\<close>: six buffer pools side by side in one block, a request is served by the
  first pool with blocks large enough that has one free, and by \<^verbatim>\<open>malloc\<close> when there is none or the
  request is too large.

  A failed \<^verbatim>\<open>ASSERT\<close> stops the process and is the outcome \<open>None\<close>.  \<^verbatim>\<open>realloc\<close> is a parameter like \<^verbatim>\<open>malloc\<close>.
\<close>

section \<open>Operations\<close>

type_synonym reallocator = "nat \<Rightarrow> blocks \<Rightarrow> addr \<Rightarrow> nat \<Rightarrow> addr"

record mem_sys = pool_sys +
  pBufMem :: "addr list"
  pucMemPoolStart :: addr
  pucMemPoolEnd :: addr
  ulBlockPoolUnit :: U32
  g_mempool_warn :: bool
  memory :: "addr \<Rightarrow> U8"

definition MAX_MEMPOOL_NUMBER :: nat where "MAX_MEMPOOL_NUMBER = 6"
definition MAX_MEMPOOL_BIT_OFFSET :: nat where "MAX_MEMPOOL_BIT_OFFSET = 8"

definition aulBlockSize :: "U32 list" where "aulBlockSize = [256, 1024, 1536, 4096, 8192, 64000]"
definition aulBlockNum :: "U32 list" where "aulBlockNum = [48000, 12000, 8000, 3000, 1500, 192]"

definition aulMallocBufOffset :: "nat list" where
  "aulMallocBufOffset = [0, 1, 1, 1, 2, 2] @ replicate 10 3 @ replicate 16 4 @ replicate 218 5"

text \<open>The mutexes of the pools; only that they are not NULL matters.\<close>

definition qlock_mem :: "nat \<Rightarrow> addr" where "qlock_mem i = Suc i"

fun init_pools :: "allocator \<Rightarrow> (nat \<Rightarrow> U32) \<Rightarrow> nat list \<Rightarrow> addr \<Rightarrow> mem_sys \<Rightarrow> mem_sys option" where
  "init_pools malloc junk [] blockStart s = Some s"
| "init_pools malloc junk (i # is) blockStart s =
     (let ulCurPoolSize = aulBlockSize ! i * aulBlockNum ! i in
      do { (p, s) \<leftarrow> pl_commbuf_create_with_address malloc junk blockStart (blockStart + unat ulCurPoolSize)
                       (aulBlockSize ! i) (aulBlockNum ! i) s;
           if p = 0 \<or> ulCurPoolSize \<noteq> aulBlockSize ! 0 * aulBlockNum ! 0 then None
           else do {
             (r, s) \<leftarrow> pl_commbuf_mutex_init p (qlock_mem i) (s\<lparr>pBufMem := (pBufMem s)[i := p]\<rparr>);
             init_pools malloc junk is (blockStart + unat ulCurPoolSize) s } })"

definition pf_mem_pool_init :: "allocator \<Rightarrow> (nat \<Rightarrow> U32) \<Rightarrow> mem_sys \<Rightarrow> (U32 \<times> mem_sys) option" where
  "pf_mem_pool_init malloc junk s =
     (let ulTotalPoolSize = sum_list (map2 (*) aulBlockSize aulBlockNum);
          (start, s) = sys_malloc malloc (unat ulTotalPoolSize) s in
      if start = 0 then None
      else do {
        s \<leftarrow> init_pools malloc junk [0..<MAX_MEMPOOL_NUMBER] start
               (s\<lparr>pucMemPoolStart := start, pucMemPoolEnd := start + unat ulTotalPoolSize,
                  memory := (\<lambda>a. if start \<le> a \<and> a < start + unat ulTotalPoolSize then 0 else memory s a)\<rparr>);
        Some (0, s\<lparr>ulBlockPoolUnit := aulBlockSize ! 0 * aulBlockNum ! 0\<rparr>) })"

fun malloc_pools :: "allocator \<Rightarrow> addr list \<Rightarrow> mem_sys \<Rightarrow> (addr \<times> mem_sys) option" where
  "malloc_pools malloc [] s = Some (0, s)"
| "malloc_pools malloc (p # ps) s =
     do { (a, s) \<leftarrow> pl_commbuf_get malloc p s; if a \<noteq> 0 then Some (a, s) else malloc_pools malloc ps s }"

definition pf_malloc :: "allocator \<Rightarrow> U32 \<Rightarrow> mem_sys \<Rightarrow> (addr \<times> mem_sys) option" where
  "pf_malloc malloc ulSize s =
     (if ulSize > aulBlockSize ! (MAX_MEMPOOL_NUMBER - 1) then Some (pl_commbuf_malloc malloc ulSize s)
      else if ulSize > 0
      then let ulSizeOffset = unat (drop_bit MAX_MEMPOOL_BIT_OFFSET (ulSize - 1)) in
        if ulSizeOffset \<ge> length aulMallocBufOffset then None
        else do {
          (a, s) \<leftarrow> malloc_pools malloc (drop (aulMallocBufOffset ! ulSizeOffset) (pBufMem s)) s;
          if a \<noteq> 0 then Some (a, s)
          else Some (pl_commbuf_malloc malloc ulSize (s\<lparr>g_mempool_warn := True\<rparr>)) }
      else Some (0, s))"

text \<open>The pool of an address inside the block, with the two assertions.\<close>

definition pool_index :: "addr \<Rightarrow> mem_sys \<Rightarrow> nat option" where
  "pool_index a s =
     (let ullBuffAddrOffset = a - pucMemPoolStart s; ullBufOffset = ullBuffAddrOffset div unat (ulBlockPoolUnit s) in
      if ullBufOffset < MAX_MEMPOOL_NUMBER \<and> ullBuffAddrOffset mod 2 ^ MAX_MEMPOOL_BIT_OFFSET = 0
      then Some ullBufOffset else None)"

definition in_mem_pool :: "addr \<Rightarrow> mem_sys \<Rightarrow> bool" where
  "in_mem_pool a s \<longleftrightarrow> pucMemPoolStart s \<le> a \<and> a < pucMemPoolEnd s"

definition copy_bytes :: "addr \<Rightarrow> addr \<Rightarrow> nat \<Rightarrow> (addr \<Rightarrow> U8) \<Rightarrow> addr \<Rightarrow> U8" where
  "copy_bytes dst src n m = (\<lambda>a. if dst \<le> a \<and> a < dst + n then m (src + (a - dst)) else m a)"

definition sys_realloc :: "reallocator \<Rightarrow> addr \<Rightarrow> nat \<Rightarrow> mem_sys \<Rightarrow> (addr \<times> mem_sys) option" where
  "sys_realloc realloc a n s =
     (case sys_blocks s a of
        None \<Rightarrow> None
      | Some m \<Rightarrow>
          let r = realloc (sys_calls s) (sys_blocks s) a n; s' = s\<lparr>sys_calls := sys_calls s + 1\<rparr> in
          Some (r, if r = 0 then s'
                   else s'\<lparr>sys_blocks := (sys_blocks s)(a := None, r \<mapsto> n), memory := copy_bytes r a (min m n) (memory s)\<rparr>))"

definition pf_realloc :: "allocator \<Rightarrow> reallocator \<Rightarrow> addr \<Rightarrow> U32 \<Rightarrow> mem_sys \<Rightarrow> (addr \<times> mem_sys) option" where
  "pf_realloc malloc realloc a ulSize s =
     (if ulSize = 0 \<or> a = 0 then Some (0, s)
      else if in_mem_pool a s
      then do {
        i \<leftarrow> pool_index a s;
        if ulSize \<le> aulBlockSize ! i then Some (a, s)
        else do {
          (pData, s) \<leftarrow> pf_malloc malloc ulSize s;
          if pData = 0 then Some (0, s)
          else do {
            (ulRet, s) \<leftarrow> pl_commbuf_ret (pBufMem s ! i) a
                             (s\<lparr>memory := copy_bytes pData a (unat (aulBlockSize ! i)) (memory s)\<rparr>);
            if ulRet = 0 then Some (pData, s) else None } } }
      else sys_realloc realloc a (unat ulSize) s)"

definition pf_free :: "addr \<Rightarrow> mem_sys \<Rightarrow> mem_sys option" where
  "pf_free a s =
     (if in_mem_pool a s
      then do { i \<leftarrow> pool_index a s; (ulRet, s) \<leftarrow> pl_commbuf_ret (pBufMem s ! i) a s; Some s }
      else if a \<noteq> 0 then pl_commbuf_free a s
      else Some s)"

record MEMPOOL_INFO =
  info_size :: U32
  info_total :: U32
  info_avail :: U32

fun meminfo_pools :: "nat list \<Rightarrow> mem_sys \<Rightarrow> MEMPOOL_INFO list option" where
  "meminfo_pools [] s = Some []"
| "meminfo_pools (i # is) s =
     do { avail \<leftarrow> pl_commbuf_avail_num (pBufMem s ! i) s;
          infos \<leftarrow> meminfo_pools is s;
          Some (\<lparr>info_size = aulBlockSize ! i, info_total = aulBlockNum ! i,
                 info_avail = (if avail = U32_INFINITY then 0 else avail)\<rparr> # infos) }"

definition pf_meminfo :: "mem_sys \<Rightarrow> (MEMPOOL_INFO list \<times> mem_sys) option" where
  "pf_meminfo s =
     do { infos \<leftarrow> meminfo_pools [0..<MAX_MEMPOOL_NUMBER] s;
          Some (infos, if g_mempool_warn s \<and> info_avail (last infos) \<ge> 10 then s\<lparr>g_mempool_warn := False\<rparr> else s) }"

section \<open>Sizes\<close>

abbreviation bsize :: "nat \<Rightarrow> nat" where "bsize i \<equiv> unat (aulBlockSize ! i)"
abbreviation bnum :: "nat \<Rightarrow> nat" where "bnum i \<equiv> unat (aulBlockNum ! i)"

definition POOL_UNIT :: nat where "POOL_UNIT = 12288000"

lemma six_cases: "i < 6 \<Longrightarrow> i = 0 \<or> i = 1 \<or> i = 2 \<or> i = 3 \<or> i = 4 \<or> i = (5::nat)"
  by linarith

lemma pool_sizes:
  assumes "i < 6"
  shows "bsize i * bnum i = POOL_UNIT" "bsize i mod 256 = 0" "0 < bsize i" "0 < bnum i" "bsize i \<le> 64000"
    "round4 (aulBlockSize ! i) = aulBlockSize ! i" "aulBlockSize ! i * aulBlockNum ! i = 12288000"
  using six_cases[OF assms] by (auto simp: aulBlockSize_def aulBlockNum_def POOL_UNIT_def round4_def)

lemma offset_table:
  assumes "w < 250"
  shows "aulMallocBufOffset ! w = (if w = 0 then 0 else if w < 4 then 1 else if w < 6 then 2 else if w < 16 then 3 else if w < 32 then 4 else 5)"
proof (cases "w < 6")
  case True
  then show ?thesis using six_cases[of w] by (auto simp: aulMallocBufOffset_def nth_append)
next
  case False
  then consider "6 \<le> w" "w < 16" | "16 \<le> w" "w < 32" | "32 \<le> w" by linarith
  then show ?thesis using assms by cases (auto simp: aulMallocBufOffset_def nth_append)
qed

text \<open>The table gives the first pool whose blocks are large enough.\<close>

lemma malloc_class:
  assumes "0 < n" "n \<le> aulBlockSize ! 5"
  defines "w \<equiv> unat (drop_bit 8 (n - 1))"
  shows "w < 250" "aulMallocBufOffset ! w < 6" "i < 6 \<Longrightarrow> unat n \<le> bsize i \<longleftrightarrow> aulMallocBufOffset ! w \<le> i"
proof -
  have n: "0 < unat n" "unat n \<le> 64000"
    using assms(1,2) by (simp_all add: aulBlockSize_def unat_gt_0 word_le_nat_alt)
  have w: "w = (unat n - 1) div 256"
    using assms(1) by (simp add: w_def drop_bit_eq_div unat_div_distrib unat_minus_one)
  with n show b: "w < 250" by simp
  then show "aulMallocBufOffset ! w < 6" by (simp add: offset_table)
  have k: "unat n \<le> 256 * k \<longleftrightarrow> w < k" for k
    using n w by (simp add: div_less_iff_less_mult) linarith
  show "unat n \<le> bsize i \<longleftrightarrow> aulMallocBufOffset ! w \<le> i" if "i < 6"
    using six_cases[OF that] b k[of 1] k[of 4] k[of 6] k[of 16] k[of 32] k[of 250]
    by (elim disjE) (simp_all add: offset_table aulBlockSize_def)
qed

section \<open>The pools in a state\<close>

definition pool_b :: "mem_sys \<Rightarrow> nat \<Rightarrow> BUF_CTRL_S" where
  "pool_b s i = the (bufs s (pBufMem s ! i))"

definition pool_q :: "mem_sys \<Rightarrow> nat \<Rightarrow> QUE_CTRL_S" where
  "pool_q s i = the (ques s (pstQueCtrl (pool_b s i)))"

abbreviation free_of :: "mem_sys \<Rightarrow> nat \<Rightarrow> nat list" where
  "free_of s i \<equiv> free_nos (pool_q s i)"

definition blk :: "mem_sys \<Rightarrow> nat \<Rightarrow> nat \<Rightarrow> addr" where
  "blk s i e = pucMemPoolStart s + i * POOL_UNIT + e * bsize i"

definition pools_ok :: "mem_sys \<Rightarrow> bool" where
  "pools_ok s \<longleftrightarrow> length (pBufMem s) = 6 \<and> pucMemPoolStart s \<noteq> 0 \<and> pucMemPoolEnd s = pucMemPoolStart s + 6 * POOL_UNIT
     \<and> ulBlockPoolUnit s = 12288000
     \<and> (\<forall>i < 6. pool_at s (pBufMem s ! i) (pool_b s i) (pool_q s i) \<and> ucWithAddress (pool_b s i)
          \<and> ulBufSize (pool_b s i) = aulBlockSize ! i \<and> ulBufNum (pool_b s i) = aulBlockNum ! i
          \<and> pucBufStart (pool_b s i) = pucMemPoolStart s + i * POOL_UNIT)
     \<and> (\<forall>i < 6. \<forall>j < 6. i \<noteq> j \<longrightarrow> pBufMem s ! i \<noteq> pBufMem s ! j \<and> pstQueCtrl (pool_b s i) \<noteq> pstQueCtrl (pool_b s j))"

lemma pools_okD:
  assumes "pools_ok s" "i < 6"
  shows "pool_at s (pBufMem s ! i) (pool_b s i) (pool_q s i)" "ucWithAddress (pool_b s i)"
    "ulBufSize (pool_b s i) = aulBlockSize ! i" "ulBufNum (pool_b s i) = aulBlockNum ! i"
    "block_at (pool_b s i) = blk s i" "pool_ok (pool_b s i) (pool_q s i)"
    "distinct (free_of s i)" "set (free_of s i) \<subseteq> {..<bnum i}" "length (pBufMem s) = 6"
proof -
  show a: "pool_at s (pBufMem s ! i) (pool_b s i) (pool_q s i)" "ucWithAddress (pool_b s i)"
    "ulBufSize (pool_b s i) = aulBlockSize ! i" "ulBufNum (pool_b s i) = aulBlockNum ! i" "length (pBufMem s) = 6"
    using assms by (auto simp: pools_ok_def)
  show "block_at (pool_b s i) = blk s i" using assms by (simp add: fun_eq_iff block_at_def blk_def pools_ok_def)
  show p: "pool_ok (pool_b s i) (pool_q s i)" using a(1) by (simp add: pool_at_def)
  then show "distinct (free_of s i)" "set (free_of s i) \<subseteq> {..<bnum i}" using a(4) by (simp_all add: pool_ok_def)
qed

text \<open>Where a block lies.\<close>

lemma blk_place:
  assumes "i < 6" "e < bnum i"
  shows "e * bsize i + bsize i \<le> POOL_UNIT" "(blk s i e - pucMemPoolStart s) div POOL_UNIT = i"
    "(blk s i e - pucMemPoolStart s) mod 256 = 0" "pucMemPoolStart s \<le> blk s i e"
    "blk s i e + bsize i \<le> pucMemPoolStart s + 6 * POOL_UNIT"
proof -
  note z = pool_sizes[OF assms(1)]
  have "Suc e * bsize i \<le> bnum i * bsize i" using assms(2) by (intro mult_le_mono1) simp
  then show le: "e * bsize i + bsize i \<le> POOL_UNIT" using z(1) by (simp add: mult.commute)
  then have lt: "e * bsize i < POOL_UNIT" using z(3) by simp
  have d: "blk s i e - pucMemPoolStart s = i * POOL_UNIT + e * bsize i" by (simp add: blk_def)
  show "(blk s i e - pucMemPoolStart s) div POOL_UNIT = i" unfolding d using lt by (simp add: POOL_UNIT_def)
  have "(i * POOL_UNIT) mod 256 = 0" "(e * bsize i) mod 256 = 0"
    using z(2) by (simp_all add: POOL_UNIT_def mod_eq_0_iff_dvd)
  then show "(blk s i e - pucMemPoolStart s) mod 256 = 0" unfolding d by (metis add.right_neutral mod_add_eq mod_0)
  show "pucMemPoolStart s \<le> blk s i e" by (simp add: blk_def)
  have u: "i * POOL_UNIT + POOL_UNIT \<le> 6 * POOL_UNIT" using assms(1) by (simp add: POOL_UNIT_def)
  then show "blk s i e + bsize i \<le> pucMemPoolStart s + 6 * POOL_UNIT" using le u unfolding blk_def by linarith
qed

lemma blk_inj:
  assumes "blk s i e = blk s j f" "i < 6" "e < bnum i" "j < 6" "f < bnum j"
  shows "i = j \<and> e = f"
proof -
  have "i = j" using blk_place(2)[OF assms(2,3), of s] blk_place(2)[OF assms(4,5), of s] assms(1) by simp
  then show ?thesis using assms(1) pool_sizes(3)[OF assms(2)] by (simp add: blk_def)
qed

lemma blk_eq_iff: "\<lbrakk>i < 6; e < bnum i; j < 6; f < bnum j\<rbrakk> \<Longrightarrow> blk s i e = blk s j f \<longleftrightarrow> i = j \<and> e = f"
  using blk_inj[of s i e j f] by blast

lemma blk_apart:
  assumes "(i, e) \<noteq> (j, f)" "i < 6" "e < bnum i" "j < 6" "f < bnum j"
  shows "blk s i e + bsize i \<le> blk s j f \<or> blk s j f + bsize j \<le> blk s i e"
proof (cases "i = j")
  case True
  then have "Suc e * bsize i \<le> f * bsize i \<or> Suc f * bsize i \<le> e * bsize i"
    using assms(1) by (metis Suc_leI linorder_neq_iff mult_le_mono1)
  then show ?thesis using True by (auto simp: blk_def)
next
  case False
  then have "Suc i * POOL_UNIT \<le> j * POOL_UNIT \<or> Suc j * POOL_UNIT \<le> i * POOL_UNIT"
    by (metis Suc_leI linorder_neq_iff mult_le_mono1)
  then show ?thesis using blk_place(1)[OF assms(2,3)] blk_place(1)[OF assms(4,5)] by (auto simp: blk_def)
qed

lemma pool_index_blk:
  assumes "pools_ok s" "i < 6" "e < bnum i"
  shows "in_mem_pool (blk s i e) s" "pool_index (blk s i e) s = Some i"
  using blk_place(2-5)[OF assms(2,3), of s] assms pool_sizes(3)[OF assms(2)]
  by (auto simp: in_mem_pool_def pools_ok_def pool_index_def MAX_MEMPOOL_NUMBER_def MAX_MEMPOOL_BIT_OFFSET_def POOL_UNIT_def)

text \<open>Changing one pool.\<close>

definition set_pool :: "nat \<Rightarrow> BUF_CTRL_S \<Rightarrow> QUE_CTRL_S \<Rightarrow> mem_sys \<Rightarrow> mem_sys" where
  "set_pool i b q s = s\<lparr>ques := (ques s)(pstQueCtrl (pool_b s i) \<mapsto> q), bufs := (bufs s)(pBufMem s ! i \<mapsto> b)\<rparr>"

lemma set_pool_sel [pool_simps]:
  "pBufMem (set_pool i b q s) = pBufMem s" "pucMemPoolStart (set_pool i b q s) = pucMemPoolStart s"
  "pucMemPoolEnd (set_pool i b q s) = pucMemPoolEnd s" "ulBlockPoolUnit (set_pool i b q s) = ulBlockPoolUnit s"
  "sys_blocks (set_pool i b q s) = sys_blocks s" "g_mempool_warn (set_pool i b q s) = g_mempool_warn s"
  "memory (set_pool i b q s) = memory s" "blk (set_pool i b q s) = blk s" "sys_calls (set_pool i b q s) = sys_calls s"
  by (simp_all add: set_pool_def blk_def fun_eq_iff)

lemma set_pool_pools:
  assumes "pools_ok s" "i < 6" "j < 6" "same_pool (pool_b s i) b"
  shows "pool_b (set_pool i b q s) j = (if j = i then b else pool_b s j)"
    "pool_q (set_pool i b q s) j = (if j = i then q else pool_q s j)"
proof -
  show b: "pool_b (set_pool i b q s) j = (if j = i then b else pool_b s j)"
    using assms by (auto simp: pool_b_def set_pool_def pools_ok_def)
  show "pool_q (set_pool i b q s) j = (if j = i then q else pool_q s j)"
    using assms(1-3) assms(4)[unfolded same_pool_def] unfolding pool_q_def b
    by (auto simp: set_pool_def pools_ok_def)
qed

lemma set_pool_ok:
  assumes "pools_ok s" "i < 6" "same_pool (pool_b s i) b" "pool_ok b q"
  shows "pools_ok (set_pool i b q s)"
proof -
  note [simp] = set_pool_pools[OF assms(1,2) _ assms(3)]
  have q: "pstQueCtrl (if j = i then b else pool_b s j) = pstQueCtrl (pool_b s j)" for j
    using assms(3) by (simp add: same_pool_def)
  have at: "pool_at (set_pool i b q s) (pBufMem s ! j) (if j = i then b else pool_b s j) (if j = i then q else pool_q s j)"
    if "j < 6" for j
    using pools_okD(1)[OF assms(1) that] pools_okD(1)[OF assms(1,2)] assms that pool_at_update[of s _ "pool_b s i" "pool_q s i" b q]
      pool_at_other[of s "pBufMem s ! j" "pool_b s j" "pool_q s j"]
    by (auto simp: set_pool_def pools_ok_def)
  show ?thesis
    using assms(1) at unfolding pools_ok_def
    by (auto simp: pool_simps q assms(3)[unfolded same_pool_def])
qed

lemma pools_ok_cong:
  assumes "pools_ok s" "ques s' = ques s" "bufs s' = bufs s" "pBufMem s' = pBufMem s" "pucMemPoolStart s' = pucMemPoolStart s"
    "pucMemPoolEnd s' = pucMemPoolEnd s" "ulBlockPoolUnit s' = ulBlockPoolUnit s"
  shows "pools_ok s'" "blk s' = blk s" "pool_q s' = pool_q s" "pool_b s' = pool_b s"
proof -
  show b: "blk s' = blk s" "pool_q s' = pool_q s" "pool_b s' = pool_b s"
    using assms by (simp_all add: blk_def pool_q_def pool_b_def fun_eq_iff)
  show "pools_ok s'" using assms unfolding pools_ok_def b by (simp add: pool_at_def)
qed

lemma get_pool:
  assumes "pools_ok s" "i < 6"
  shows "(free_of s i = [] \<and> pl_commbuf_get malloc (pBufMem s ! i) s = Some (0, s\<lparr>g_ulBufGetFailCount := g_ulBufGetFailCount s + 1\<rparr>))
    \<or> (\<exists>e b q. free_of s i = e # free_nos q \<and> pool_ok b q \<and> same_pool (pool_b s i) b \<and>
         pl_commbuf_get malloc (pBufMem s ! i) s = Some (blk s i e, set_pool i b q s))"
  using get_outcome[OF pools_okD(1)[OF assms] pools_okD(2)[OF assms], of malloc]
  unfolding pools_okD(5)[OF assms] set_pool_def by blast

lemma ret_pool:
  assumes "pools_ok s" "i < 6" "e < bnum i" "e \<notin> set (free_of s i)"
  shows "\<exists>b q. free_nos q = free_of s i @ [e] \<and> pool_ok b q \<and> same_pool (pool_b s i) b \<and>
     pl_commbuf_ret (pBufMem s ! i) (blk s i e) s = Some (0, set_pool i b q s)"
  using ret_outcome[OF pools_okD(1)[OF assms(1,2)], of e] assms(3,4) pools_okD(4)[OF assms(1,2)]
  unfolding pools_okD(5)[OF assms(1,2)] set_pool_def by auto

text \<open>The search through the pools.\<close>

definition first_free :: "mem_sys \<Rightarrow> nat \<Rightarrow> nat \<Rightarrow> bool" where
  "first_free s i j \<longleftrightarrow> i \<le> j \<and> j < 6 \<and> free_of s j \<noteq> [] \<and> (\<forall>k. i \<le> k \<and> k < j \<longrightarrow> free_of s k = [])"

lemma malloc_pools_outcome:
  assumes "pools_ok s" "i \<le> 6"
  shows "\<exists>c. ((\<forall>j. i \<le> j \<and> j < 6 \<longrightarrow> free_of s j = []) \<and>
      malloc_pools malloc (drop i (pBufMem s)) s = Some (0, s\<lparr>g_ulBufGetFailCount := c\<rparr>))
    \<or> (\<exists>j e b q. first_free s i j \<and> free_of s j = e # free_nos q \<and> pool_ok b q \<and> same_pool (pool_b s j) b \<and>
         malloc_pools malloc (drop i (pBufMem s)) s = Some (blk s j e, set_pool j b q (s\<lparr>g_ulBufGetFailCount := c\<rparr>)))"
  using assms
proof (induction "6 - i" arbitrary: i s)
  case 0
  then have "drop i (pBufMem s) = []" using pools_okD(9)[of s 0] by simp
  then show ?case using 0 by (intro exI[of _ "g_ulBufGetFailCount s"]) auto
next
  case (Suc m)
  then have i: "i < 6" "m = 6 - Suc i" "Suc i \<le> 6" by simp_all
  have d: "drop i (pBufMem s) = pBufMem s ! i # drop (Suc i) (pBufMem s)"
    using pools_okD(9)[OF Suc.prems(1) i(1)] i(1) by (simp add: Cons_nth_drop_Suc)
  show ?case
  proof (cases "free_of s i = []")
    case True
    let ?s = "s\<lparr>g_ulBufGetFailCount := g_ulBufGetFailCount s + 1\<rparr>"
    have g: "pl_commbuf_get malloc (pBufMem s ! i) s = Some (0, ?s)"
      using get_pool[OF Suc.prems(1) i(1), of malloc] True by auto
    note c = pools_ok_cong[OF Suc.prems(1), of ?s, simplified]
    have ff: "first_free ?s (Suc i) j \<Longrightarrow> first_free s i j" for j
      using True by (auto simp: first_free_def c) (metis Suc_leI le_neq_implies_less)
    have e: "(\<forall>j. Suc i \<le> j \<and> j < 6 \<longrightarrow> free_of s j = []) \<Longrightarrow> \<forall>j. i \<le> j \<and> j < 6 \<longrightarrow> free_of s j = []"
      using True by (metis Suc_leI le_neq_implies_less)
    show ?thesis
      using Suc.hyps(1)[OF i(2) c(1) i(3)] ff e unfolding d
      by (auto simp: g c) (metis pool_sys.update_convs(7))+
  next
    case False
    obtain e b q where g: "free_of s i = e # free_nos q" "pool_ok b q" "same_pool (pool_b s i) b"
      "pl_commbuf_get malloc (pBufMem s ! i) s = Some (blk s i e, set_pool i b q s)"
      using get_pool[OF Suc.prems(1) i(1), of malloc] False by blast
    have nz: "blk s i e \<noteq> 0" using Suc.prems(1) by (simp add: blk_def pools_ok_def)
    have "first_free s i i" using i(1) False by (auto simp: first_free_def)
    moreover have "malloc_pools malloc (drop i (pBufMem s)) s = Some (blk s i e, set_pool i b q s)"
      using g(4) nz by (simp add: d)
    moreover have "s\<lparr>g_ulBufGetFailCount := g_ulBufGetFailCount s\<rparr> = s" by simp
    ultimately show ?thesis using g(1-3) by metis
  qed
qed

section \<open>What is in use\<close>

text \<open>\<open>live\<close> maps the addresses handed out and not yet returned to the sizes asked for.\<close>

definition live_ok :: "mem_sys \<Rightarrow> (addr \<rightharpoonup> U32) \<Rightarrow> bool" where
  "live_ok s live \<longleftrightarrow> (\<forall>a n. live a = Some n \<longrightarrow> n \<noteq> 0 \<and>
     (if in_mem_pool a s then \<exists>i < 6. \<exists>e < bnum i. a = blk s i e \<and> unat n \<le> bsize i
      else a \<noteq> 0 \<and> sys_blocks s a = Some (unat n)))"

definition mem_inv :: "mem_sys \<Rightarrow> (addr \<rightharpoonup> U32) \<Rightarrow> bool" where
  "mem_inv s live \<longleftrightarrow> pools_ok s \<and> blocks_ok (sys_blocks s) \<and> sys_blocks s (pucMemPoolStart s) = Some (6 * POOL_UNIT)
     \<and> (\<forall>i < 6. set (free_of s i) = {e. e < bnum i \<and> live (blk s i e) = None}) \<and> live_ok s live"

lemma mem_invD:
  assumes "mem_inv s live"
  shows "pools_ok s" "blocks_ok (sys_blocks s)" "sys_blocks s (pucMemPoolStart s) = Some (6 * POOL_UNIT)"
    "i < 6 \<Longrightarrow> set (free_of s i) = {e. e < bnum i \<and> live (blk s i e) = None}" "live_ok s live"
  using assms by (simp_all add: mem_inv_def)

lemma in_mem_pool_cong:
  "\<lbrakk>pucMemPoolStart s' = pucMemPoolStart s; pucMemPoolEnd s' = pucMemPoolEnd s\<rbrakk> \<Longrightarrow> in_mem_pool a s' = in_mem_pool a s"
  by (simp add: in_mem_pool_def)

lemma mem_inv_cong:
  assumes "mem_inv s live" "ques s' = ques s" "bufs s' = bufs s" "pBufMem s' = pBufMem s" "pucMemPoolStart s' = pucMemPoolStart s"
    "pucMemPoolEnd s' = pucMemPoolEnd s" "ulBlockPoolUnit s' = ulBlockPoolUnit s" "sys_blocks s' = sys_blocks s"
  shows "mem_inv s' live"
  using assms(1) pools_ok_cong[OF mem_invD(1)[OF assms(1)] assms(2-7)] assms(5,6,8)
  by (simp add: mem_inv_def live_ok_def in_mem_pool_def)

lemma live_ok_set_pool: "live_ok (set_pool i b q s) live = live_ok s live"
  by (simp add: live_ok_def in_mem_pool_def pool_simps)

lemma free_set_upd:
  assumes "i < 6" "j < 6" "e < bnum j" "F = {f. f < bnum i \<and> live (blk s i f) = None}"
  shows "{f. f < bnum i \<and> (live(blk s j e := v)) (blk s i f) = None} =
    (if i \<noteq> j then F else if v = None then insert e F else F - {e})"
proof -
  have eq: "(live(blk s j e := v)) (blk s i f) = (if i = j \<and> f = e then v else live (blk s i f))" if "f < bnum i" for f
    using blk_eq_iff[OF assms(1) that assms(2,3), of s] by simp
  have "f \<in> {f. f < bnum i \<and> (live(blk s j e := v)) (blk s i f) = None} \<longleftrightarrow>
      f \<in> (if i \<noteq> j then F else if v = None then insert e F else F - {e})" for f
  proof (cases "f < bnum i")
    case True
    then show ?thesis unfolding assms(4) mem_Collect_eq eq[OF True] using True by auto
  next
    case False
    then show ?thesis using assms(3) unfolding assms(4) by auto
  qed
  then show ?thesis by blast
qed

lemma mem_inv_take:
  assumes "mem_inv s live" "j < 6" "free_of s j = e # free_nos q" "pool_ok b q" "same_pool (pool_b s j) b" "n \<noteq> 0" "unat n \<le> bsize j"
  shows "mem_inv (set_pool j b q s) (live(blk s j e \<mapsto> n))" "live (blk s j e) = None" "blk s j e \<noteq> 0" "e < bnum j"
proof -
  note d = mem_invD[OF assms(1)] and p = pools_okD[OF mem_invD(1)[OF assms(1)] assms(2)]
  show e: "e < bnum j" using p(8) assms(3) by simp
  show l: "live (blk s j e) = None" using d(4)[OF assms(2)] assms(3) by auto
  show "blk s j e \<noteq> 0" using d(1) by (simp add: blk_def pools_ok_def)
  have fq: "set (free_nos q) = set (free_of s j) - {e}" using p(7) assms(3) by auto
  have fr: "set (free_of (set_pool j b q s) i) = {f. f < bnum i \<and> (live(blk s j e \<mapsto> n)) (blk s i f) = None}" if i: "i < 6" for i
    unfolding set_pool_pools(2)[OF d(1) assms(2) i assms(5)] free_set_upd[OF i assms(2) e d(4)[OF i]] using fq by simp
  have "live_ok s (live(blk s j e \<mapsto> n))"
    using d(5) assms(2,6,7) e pool_index_blk(1)[OF d(1) assms(2) e] by (auto simp: live_ok_def)
  then show "mem_inv (set_pool j b q s) (live(blk s j e \<mapsto> n))"
    using d(1-3) fr set_pool_ok[OF d(1) assms(2,5,4)] by (simp add: mem_inv_def live_ok_set_pool pool_simps)
qed

lemma mem_inv_give:
  assumes "mem_inv s live" "j < 6" "e < bnum j" "free_nos q = free_of s j @ [e]" "pool_ok b q" "same_pool (pool_b s j) b"
  shows "mem_inv (set_pool j b q s) (live(blk s j e := None))"
proof -
  note d = mem_invD[OF assms(1)]
  have fr: "set (free_of (set_pool j b q s) i) = {f. f < bnum i \<and> (live(blk s j e := None)) (blk s i f) = None}" if i: "i < 6" for i
    unfolding set_pool_pools(2)[OF d(1) assms(2) i assms(6)] free_set_upd[OF i assms(2,3) d(4)[OF i]] using assms(4) by simp
  have "live_ok s (live(blk s j e := None))" using d(5) by (auto simp: live_ok_def)
  then show ?thesis
    using d(1-3) fr set_pool_ok[OF d(1) assms(2,6,5)] by (simp add: mem_inv_def live_ok_set_pool pool_simps)
qed

text \<open>Blocks from \<^verbatim>\<open>malloc\<close> lie outside the pools.\<close>

lemma outside_pool:
  assumes "mem_inv s live" "apart (sys_blocks s) a n" "0 < n"
  shows "\<not> in_mem_pool a s"
proof -
  have "a + n \<le> pucMemPoolStart s \<or> pucMemPoolStart s + 6 * POOL_UNIT \<le> a"
    using assms(2) mem_invD(3)[OF assms(1)] by (simp add: apart_def)
  then show ?thesis using assms(3) mem_invD(1)[OF assms(1)] by (auto simp: in_mem_pool_def pools_ok_def)
qed

lemma blk_in_pool: "\<lbrakk>pools_ok s; i < 6; e < bnum i; \<not> in_mem_pool a s\<rbrakk> \<Longrightarrow> blk s i e \<noteq> a"
  using pool_index_blk(1) by blast

lemma mem_inv_sys:
  assumes "mem_inv s live" "\<not> in_mem_pool a s" "blocks_ok h" "\<And>b. b \<noteq> a \<Longrightarrow> h b = sys_blocks s b"
    "case v of None \<Rightarrow> True | Some n \<Rightarrow> n \<noteq> 0 \<and> a \<noteq> 0 \<and> h a = Some (unat n)"
  shows "mem_inv (s\<lparr>sys_calls := c, sys_blocks := h\<rparr>) (live(a := v))"
proof -
  note d = mem_invD[OF assms(1)]
  let ?s = "s\<lparr>sys_calls := c, sys_blocks := h\<rparr>"
  note cg = pools_ok_cong[OF d(1), of ?s, simplified]
  have "0 < POOL_UNIT" by (simp add: POOL_UNIT_def)
  then have "in_mem_pool (pucMemPoolStart s) s" using d(1) by (simp add: in_mem_pool_def pools_ok_def)
  then have st: "h (pucMemPoolStart s) = Some (6 * POOL_UNIT)" using assms(2) assms(4)[of "pucMemPoolStart s"] d(3) by auto
  have fr: "set (free_of ?s i) = {e. e < bnum i \<and> (live(a := v)) (blk ?s i e) = None}" if "i < 6" for i
    using d(4)[OF that] blk_in_pool[OF d(1) that _ assms(2)] by (auto simp: cg)
  have "live_ok ?s (live(a := v))"
    using d(5) assms(2,4,5) by (auto simp: live_ok_def in_mem_pool_def cg split: option.splits)
  then show ?thesis using cg(1) assms(3) st fr by (simp add: mem_inv_def)
qed

section \<open>Initialisation\<close>

definition fresh_process :: "mem_sys \<Rightarrow> bool" where
  "fresh_process s \<longleftrightarrow> ques s = Map.empty \<and> bufs s = Map.empty \<and> g_pastQueGlobal s = [] \<and> g_pastCommBufferGlobal s = []
     \<and> pBufMem s = replicate MAX_MEMPOOL_NUMBER 0 \<and> blocks_ok (sys_blocks s)"

text \<open>The first \<open>k\<close> pools are there, with all blocks free.\<close>

definition some_pools :: "nat \<Rightarrow> mem_sys \<Rightarrow> bool" where
  "some_pools k s \<longleftrightarrow> length (pBufMem s) = 6
     \<and> (\<forall>i < k. pool_at s (pBufMem s ! i) (pool_b s i) (pool_q s i) \<and> ucWithAddress (pool_b s i)
          \<and> ulBufSize (pool_b s i) = aulBlockSize ! i \<and> ulBufNum (pool_b s i) = aulBlockNum ! i
          \<and> pucBufStart (pool_b s i) = pucMemPoolStart s + i * POOL_UNIT \<and> free_of s i = [0..<bnum i]
          \<and> sys_blocks s (pBufMem s ! i) \<noteq> None \<and> sys_blocks s (pstQueCtrl (pool_b s i)) \<noteq> None)
     \<and> (\<forall>i < k. \<forall>j < k. i \<noteq> j \<longrightarrow> pBufMem s ! i \<noteq> pBufMem s ! j \<and> pstQueCtrl (pool_b s i) \<noteq> pstQueCtrl (pool_b s j))"

lemma some_pools_step:
  assumes "some_pools k s" "k < 6" "p \<noteq> 0" "kq \<noteq> 0" "sys_blocks s p = None" "sys_blocks s kq = None" "grown (sys_blocks s) h"
    "h p \<noteq> None" "h kq \<noteq> None" "pool_ok b q" "pstQueCtrl b = kq" "ucWithAddress b" "ulBufSize b = aulBlockSize ! k"
    "ulBufNum b = aulBlockNum ! k" "pucBufStart b = pucMemPoolStart s + k * POOL_UNIT" "free_nos q = [0..<bnum k]"
    and "s' = s\<lparr>sys_calls := c, sys_blocks := h, g_pastQueGlobal := gq, g_pastCommBufferGlobal := gb,
           ques := (ques s)(kq \<mapsto> q), bufs := (bufs s)(p \<mapsto> b), pBufMem := (pBufMem s)[k := p]\<rparr>"
  shows "some_pools (Suc k) s'"
proof -
  have len: "length (pBufMem s) = 6" using assms(1) by (simp add: some_pools_def)
  have old: "pBufMem s ! i \<noteq> p" "pstQueCtrl (pool_b s i) \<noteq> kq" if "i < k" for i
    using assms(1,5,6) that unfolding some_pools_def by auto
  have old_at: "bufs s (pBufMem s ! i) = Some (pool_b s i)" if "i < k" for i
    using assms(1) that by (simp add: some_pools_def pool_at_def)
  have nth: "pBufMem s' ! i = (if i = k then p else pBufMem s ! i)" if "i \<le> k" for i
    using len assms(2,17) that by (auto simp: nth_list_update)
  have pb: "pool_b s' i = (if i = k then b else pool_b s i)" if "i \<le> k" for i
    using old(1)[of i] that nth[OF that] by (auto simp: pool_b_def assms(17))
  have pq: "pool_q s' i = (if i = k then q else pool_q s i)" if "i \<le> k" for i
    unfolding pool_q_def pb[OF that] using old(2)[of i] that assms(11) by (auto simp: assms(17))
  have gr: "sys_blocks s a \<noteq> None \<Longrightarrow> h a \<noteq> None" for a using grown_Some[OF assms(7)] by auto
  have at: "pool_at s' (pBufMem s' ! i) (pool_b s' i) (pool_q s' i)" if "i \<le> k" for i
  proof (cases "i = k")
    case True
    then show ?thesis using assms(3,4,10,11) nth[of k] pb[of k] pq[of k] by (simp add: pool_at_def assms(17))
  next
    case False
    then have "pool_at s (pBufMem s ! i) (pool_b s i) (pool_q s i)" using assms(1) that by (simp add: some_pools_def)
    then show ?thesis using False that old[of i] nth[OF that] pb[OF that] pq[OF that] by (simp add: pool_at_def assms(17))
  qed
  have rest: "ucWithAddress (pool_b s' i) \<and> ulBufSize (pool_b s' i) = aulBlockSize ! i \<and> ulBufNum (pool_b s' i) = aulBlockNum ! i
      \<and> pucBufStart (pool_b s' i) = pucMemPoolStart s' + i * POOL_UNIT \<and> free_of s' i = [0..<bnum i]
      \<and> sys_blocks s' (pBufMem s' ! i) \<noteq> None \<and> sys_blocks s' (pstQueCtrl (pool_b s' i)) \<noteq> None" if "i \<le> k" for i
  proof -
    have s': "sys_blocks s' = h" "pucMemPoolStart s' = pucMemPoolStart s" by (simp_all add: assms(17))
    show ?thesis
      unfolding s' nth[OF that] pb[OF that] pq[OF that]
      using assms(8,9,11-16) assms(1)[unfolded some_pools_def] gr that by (cases "i = k") auto
  qed
  have dist: "pBufMem s' ! i \<noteq> pBufMem s' ! j \<and> pstQueCtrl (pool_b s' i) \<noteq> pstQueCtrl (pool_b s' j)"
    if "i \<le> k" "j \<le> k" "i \<noteq> j" for i j
    using assms(1)[unfolded some_pools_def] old[of i] old[of j] that assms(11) nth[OF that(1)] nth[OF that(2)] pb[OF that(1)] pb[OF that(2)]
    by auto
  show ?thesis using at rest dist len by (simp add: some_pools_def less_Suc_eq_le assms(17))
qed

lemma init_pools_outcome:
  assumes "malloc_ok malloc" "init_pools malloc junk [k..<6] (pucMemPoolStart s + k * POOL_UNIT) s = Some s'"
    "some_pools k s" "k \<le> 6"
  shows "some_pools 6 s' \<and> grown (sys_blocks s) (sys_blocks s') \<and> pucMemPoolStart s' = pucMemPoolStart s
    \<and> pucMemPoolEnd s' = pucMemPoolEnd s \<and> memory s' = memory s"
  using assms(2-4)
proof (induction "6 - k" arbitrary: k s)
  case 0
  then show ?case by simp
next
  case (Suc m)
  then have k: "k < 6" "m = 6 - Suc k" "Suc k \<le> 6" and u: "[k..<6] = k # [Suc k..<6]" by (simp_all add: upt_rec)
  note z = pool_sizes[OF k(1)]
  have bz: "aulBlockSize ! k \<noteq> 0" using z(3) by (simp add: unat_gt_0)
  have cur: "unat (aulBlockSize ! k * aulBlockNum ! k) = POOL_UNIT" unfolding z(7) by (simp add: POOL_UNIT_def)
  have cur0: "unat (aulBlockSize ! 0 * aulBlockNum ! 0) = POOL_UNIT"
    using pool_sizes(7)[of 0] by (simp add: POOL_UNIT_def)
  let ?st = "pucMemPoolStart s + k * POOL_UNIT"
  obtain p s1 where c: "pl_commbuf_create_with_address malloc junk ?st (?st + POOL_UNIT) (aulBlockSize ! k) (aulBlockNum ! k) s = Some (p, s1)"
    "p \<noteq> 0"
    using Suc.prems(1) unfolding u by (auto simp: Let_def cur split: Option.bind_split_asm if_splits)
  have "unat (aulBlockSize ! k) * unat (aulBlockNum ! k) < 2 ^ 32" unfolding z(1) by (simp add: POOL_UNIT_def)
  then obtain kq q cc h where o: "kq \<noteq> p" "kq \<noteq> 0" "pool_ok (new_pool (aulBlockSize ! k) (aulBlockNum ! k) ?st kq True) q"
    "free_nos q = [0..<bnum k]" "grown (sys_blocks s) h" "sys_blocks s p = None" "sys_blocks s kq = None" "h p \<noteq> None" "h kq \<noteq> None"
    "s1 = s\<lparr>sys_calls := cc, sys_blocks := h, g_pastQueGlobal := g_pastQueGlobal s @ [kq],
        g_pastCommBufferGlobal := g_pastCommBufferGlobal s @ [p], ques := (ques s)(kq \<mapsto> q),
        bufs := (bufs s)(p \<mapsto> new_pool (aulBlockSize ! k) (aulBlockNum ! k) ?st kq True)\<rparr>"
    by (rule create_with_address_outcome[OF assms(1) c z(6) bz])
  let ?b = "(new_pool (aulBlockSize ! k) (aulBlockNum ! k) ?st kq True)\<lparr>pMutex := qlock_mem k\<rparr>"
  let ?s = "s\<lparr>sys_calls := cc, sys_blocks := h, g_pastQueGlobal := g_pastQueGlobal s @ [kq],
        g_pastCommBufferGlobal := g_pastCommBufferGlobal s @ [p], ques := (ques s)(kq \<mapsto> q),
        bufs := (bufs s)(p \<mapsto> ?b), pBufMem := (pBufMem s)[k := p]\<rparr>"
  have "pool_ok ?b q" using o(3) by (simp add: pool_ok_def)
  then have sp: "some_pools (Suc k) ?s"
    by (rule some_pools_step[OF Suc.prems(2) k(1) c(2) o(2,6,7,5,8,9), where c = cc])
      (simp_all add: new_pool_def o(4))
  have mx: "pl_commbuf_mutex_init p (qlock_mem k) (s1\<lparr>pBufMem := (pBufMem s1)[k := p]\<rparr>) = Some (ucast COMM_SUCC, ?s)"
    using c(2) unfolding o(10) by (simp add: pl_commbuf_mutex_init_def qlock_mem_def)
  have "init_pools malloc junk [Suc k..<6] (?st + POOL_UNIT) ?s = Some s'"
    using Suc.prems(1) c mx unfolding u by (simp add: Let_def cur cur0 split: if_splits)
  then have "init_pools malloc junk [Suc k..<6] (pucMemPoolStart ?s + Suc k * POOL_UNIT) ?s = Some s'"
    by (simp add: algebra_simps)
  from Suc.hyps(1)[OF k(2) this sp k(3)] o(5)
  show ?case by (auto intro: grown_trans)
qed

lemma some_pools_ok:
  assumes "some_pools 6 s" "pucMemPoolStart s \<noteq> 0" "pucMemPoolEnd s = pucMemPoolStart s + 6 * POOL_UNIT" "ulBlockPoolUnit s = 12288000"
  shows "pools_ok s"
  using assms by (auto simp: some_pools_def pools_ok_def)

lemma pool_init_inv:
  assumes "malloc_ok malloc" "fresh_process s0" "pf_mem_pool_init malloc junk s0 = Some (r, s)"
  shows "mem_inv s Map.empty" "r = 0" "i < 6 \<Longrightarrow> free_of s i = [0..<bnum i]"
proof -
  have tot: "unat (sum_list (map2 (*) aulBlockSize aulBlockNum)) = 6 * POOL_UNIT"
    by (simp add: aulBlockSize_def aulBlockNum_def POOL_UNIT_def)
  obtain st s1 where m: "sys_malloc malloc (6 * POOL_UNIT) s0 = (st, s1)" by fastforce
  have st: "st \<noteq> 0" using assms(3) m by (intro notI) (simp add: pf_mem_pool_init_def tot)
  obtain h where s1: "s1 = s0\<lparr>sys_calls := sys_calls s0 + 1, sys_blocks := h\<rparr>" "grown (sys_blocks s0) h"
    "h = (sys_blocks s0)(st \<mapsto> 6 * POOL_UNIT)"
    using sys_malloc_outcome[OF assms(1) m] st by metis
  let ?s = "s1\<lparr>pucMemPoolStart := st, pucMemPoolEnd := st + 6 * POOL_UNIT,
      memory := (\<lambda>a. if st \<le> a \<and> a < st + 6 * POOL_UNIT then 0 else memory s1 a)\<rparr>"
  obtain s2 where i: "init_pools malloc junk [0..<6] st ?s = Some s2"
    "r = 0" "s = s2\<lparr>ulBlockPoolUnit := 12288000\<rparr>"
    using assms(3) m st by (auto simp: pf_mem_pool_init_def tot MAX_MEMPOOL_NUMBER_def pool_sizes(7)[of 0] split: Option.bind_split_asm)
  have "some_pools 0 ?s" using assms(2) by (simp add: some_pools_def s1(1) fresh_process_def MAX_MEMPOOL_NUMBER_def)
  then have s2: "some_pools 6 s2" "grown h (sys_blocks s2)" "pucMemPoolStart s2 = st" "pucMemPoolEnd s2 = st + 6 * POOL_UNIT"
    using init_pools_outcome[OF assms(1), of junk 0 ?s s2] i(1) by (simp_all add: s1(1))
  have cg: "pool_b s = pool_b s2" "pool_q s = pool_q s2" "blk s = blk s2" "some_pools 6 s"
    using s2(1) by (simp_all add: i(3) pool_b_def pool_q_def blk_def some_pools_def pool_at_def fun_eq_iff)
  show "r = 0" by (rule i(2))
  show f: "free_of s i = [0..<bnum i]" if "i < 6" for i using cg(4) that by (simp add: some_pools_def)
  have "pools_ok s" using some_pools_ok[OF cg(4)] st s2(3,4) by (simp add: i(3))
  moreover have "blocks_ok (sys_blocks s)" "sys_blocks s (pucMemPoolStart s) = Some (6 * POOL_UNIT)"
    using assms(2) s1(2,3) s2(2,3) grown_Some[OF s2(2), of st "6 * POOL_UNIT"]
    by (simp_all add: i(3) fresh_process_def grown_def)
  ultimately show "mem_inv s Map.empty" using f by (auto simp: mem_inv_def live_ok_def)
qed

section \<open>What the operations do\<close>

definition realloc_ok :: "reallocator \<Rightarrow> bool" where
  "realloc_ok realloc \<longleftrightarrow>
     (\<forall>c h a n. realloc c h a n \<noteq> 0 \<longrightarrow> (h(a := None)) (realloc c h a n) = None \<and> apart (h(a := None)) (realloc c h a n) n)"

text \<open>The first pool that fits and has a block left.\<close>

definition best_pool :: "mem_sys \<Rightarrow> U32 \<Rightarrow> nat option" where
  "best_pool s n = find (\<lambda>i. unat n \<le> bsize i \<and> free_of s i \<noteq> []) [0..<6]"

lemma best_pool_Some: "best_pool s n = Some j \<longleftrightarrow>
    j < 6 \<and> unat n \<le> bsize j \<and> free_of s j \<noteq> [] \<and> (\<forall>k < j. unat n \<le> bsize k \<longrightarrow> free_of s k = [])"
  unfolding best_pool_def find_Some_iff by (auto 0 3)

lemma best_pool_None: "best_pool s n = None \<longleftrightarrow> (\<forall>j < 6. unat n \<le> bsize j \<longrightarrow> free_of s j = [])"
  unfolding best_pool_def find_None_iff by auto

lemma large_request: "n > aulBlockSize ! 5 \<Longrightarrow> i < 6 \<Longrightarrow> \<not> unat n \<le> bsize i"
  using pool_sizes(5)[of i] by (simp add: aulBlockSize_def word_less_nat_alt)

lemma malloc_search:
  assumes "pools_ok s" "0 < n" "n \<le> aulBlockSize ! 5"
  defines "w \<equiv> aulMallocBufOffset ! unat (drop_bit 8 (n - 1))"
  shows "\<exists>c. (best_pool s n = None \<and> malloc_pools malloc (drop w (pBufMem s)) s = Some (0, s\<lparr>g_ulBufGetFailCount := c\<rparr>))
    \<or> (\<exists>j e b q. best_pool s n = Some j \<and> free_of s j = e # free_nos q \<and> pool_ok b q \<and> same_pool (pool_b s j) b \<and>
         malloc_pools malloc (drop w (pBufMem s)) s = Some (blk s j e, set_pool j b q (s\<lparr>g_ulBufGetFailCount := c\<rparr>)))"
proof -
  have w: "w \<le> 6" "unat n \<le> bsize i \<longleftrightarrow> w \<le> i" if "i < 6" for i
    using malloc_class(2,3)[OF assms(2,3)] that by (auto simp: w_def)
  have "w \<le> 6" using w(1)[of 0] by simp
  have n: "best_pool s n = None" if "\<forall>j. w \<le> j \<and> j < 6 \<longrightarrow> free_of s j = []"
    using that w(2) by (auto simp: best_pool_None)
  have f: "best_pool s n = Some j" if "first_free s w j" for j
    using that w(2) by (auto simp: best_pool_Some first_free_def)
  show ?thesis using malloc_pools_outcome[OF assms(1) \<open>w \<le> 6\<close>, of malloc] n f by blast
qed

text \<open>\<^verbatim>\<open>malloc\<close> and \<^verbatim>\<open>pf_malloc\<close> in a state that satisfies the invariant.\<close>

lemma sys_malloc_inv:
  assumes "mem_inv s live" "malloc_ok malloc" "n \<noteq> 0" "sys_malloc malloc (unat n) s = (a, s')"
  shows "a = malloc (sys_calls s) (sys_blocks s) (unat n)" "mem_inv s' (if a = 0 then live else live(a \<mapsto> n))"
    "a \<noteq> 0 \<longrightarrow> live a = None" "\<not> in_mem_pool a s" "memory s' = memory s" "pBufMem s' = pBufMem s" "blk s' = blk s"
    "pucMemPoolStart s' = pucMemPoolStart s" "pucMemPoolEnd s' = pucMemPoolEnd s"
proof -
  note d = mem_invD[OF assms(1)]
  show a: "a = malloc (sys_calls s) (sys_blocks s) (unat n)"
    and "memory s' = memory s" "pBufMem s' = pBufMem s" "blk s' = blk s"
    "pucMemPoolStart s' = pucMemPoolStart s" "pucMemPoolEnd s' = pucMemPoolEnd s"
    using assms(4) by (auto simp: sys_malloc_def Let_def blk_def fun_eq_iff)
  have s': "s' = s\<lparr>sys_calls := sys_calls s + 1,
      sys_blocks := (if a = 0 then sys_blocks s else (sys_blocks s)(a \<mapsto> unat n))\<rparr>"
    using assms(4) by (auto simp: sys_malloc_def Let_def)
  have np: "0 < unat n" using assms(3) by (simp add: unat_gt_0)
  have new: "sys_blocks s a = None \<and> apart (sys_blocks s) a (unat n)" if "a \<noteq> 0"
    using assms(2) that unfolding malloc_ok_def a by blast
  show out: "\<not> in_mem_pool a s"
  proof (cases "a = 0")
    case True
    then show ?thesis using d(1) by (simp add: in_mem_pool_def pools_ok_def)
  next
    case False
    then show ?thesis using outside_pool[OF assms(1) _ np] new by blast
  qed
  show "a \<noteq> 0 \<longrightarrow> live a = None"
    using d(5) out new by (cases "live a") (auto simp: live_ok_def)
  show "mem_inv s' (if a = 0 then live else live(a \<mapsto> n))"
  proof (cases "a = 0")
    case True
    then show ?thesis using s' assms(1) by (auto intro: mem_inv_cong)
  next
    case False
    then have "blocks_ok ((sys_blocks s)(a \<mapsto> unat n))" using new d(2) by (simp add: blocks_ok_new)
    then show ?thesis
      using mem_inv_sys[OF assms(1) out, of "(sys_blocks s)(a \<mapsto> unat n)" "Some n"] s' False assms(3) by simp
  qed
qed

lemma pf_malloc_inv:
  assumes "mem_inv s live" "malloc_ok malloc"
  shows "\<exists>a s'. pf_malloc malloc n s = Some (a, s') \<and> mem_inv s' (if a = 0 then live else live(a \<mapsto> n))
    \<and> (a \<noteq> 0 \<longrightarrow> live a = None) \<and> memory s' = memory s \<and> pBufMem s' = pBufMem s \<and> blk s' = blk s
    \<and> pucMemPoolStart s' = pucMemPoolStart s \<and> pucMemPoolEnd s' = pucMemPoolEnd s
    \<and> (if n = 0 then a = 0 else case best_pool s n of Some j \<Rightarrow> a = blk s j (free_of s j ! 0)
         | None \<Rightarrow> a = malloc (sys_calls s) (sys_blocks s) (unat n) \<and> \<not> in_mem_pool a s)"
proof (cases "n = 0")
  case True
  then show ?thesis using assms(1) by (simp add: pf_malloc_def)
next
  case n: False
  note d = mem_invD[OF assms(1)]
  show ?thesis
  proof (cases "n > aulBlockSize ! 5")
    case True
    obtain a s' where m: "sys_malloc malloc (unat n) s = (a, s')" by fastforce
    have "best_pool s n = None" using large_request[OF True] by (auto simp: best_pool_None)
    moreover have "pf_malloc malloc n s = Some (a, s')"
      using m n True by (simp add: pf_malloc_def MAX_MEMPOOL_NUMBER_def pl_commbuf_malloc_def)
    ultimately show ?thesis using sys_malloc_inv[OF assms n m] n by (intro exI[of _ a] exI[of _ s']) auto
  next
    case False
    then have le: "n \<le> aulBlockSize ! 5" and p: "0 < n" using n by (simp_all add: word_gt_0 not_less)
    let ?w = "aulMallocBufOffset ! unat (drop_bit 8 (n - 1))"
    have l: "length aulMallocBufOffset = 250" by (simp add: aulMallocBufOffset_def)
    have pm: "pl_commbuf_malloc malloc n = (sys_malloc malloc (unat n) :: mem_sys \<Rightarrow> _)"
      using n by (simp add: pl_commbuf_malloc_def fun_eq_iff)
    have e: "pf_malloc malloc n s = do { (a, s) \<leftarrow> malloc_pools malloc (drop ?w (pBufMem s)) s;
        if a \<noteq> 0 then Some (a, s) else Some (pl_commbuf_malloc malloc n (s\<lparr>g_mempool_warn := True\<rparr>)) }"
      using False n p malloc_class(1)[OF p le] l
      by (simp add: pf_malloc_def MAX_MEMPOOL_NUMBER_def MAX_MEMPOOL_BIT_OFFSET_def)
    obtain c where c: "(best_pool s n = None \<and> malloc_pools malloc (drop ?w (pBufMem s)) s = Some (0, s\<lparr>g_ulBufGetFailCount := c\<rparr>))
      \<or> (\<exists>j e b q. best_pool s n = Some j \<and> free_of s j = e # free_nos q \<and> pool_ok b q \<and> same_pool (pool_b s j) b \<and>
         malloc_pools malloc (drop ?w (pBufMem s)) s = Some (blk s j e, set_pool j b q (s\<lparr>g_ulBufGetFailCount := c\<rparr>)))"
      using malloc_search[OF d(1) p le, of malloc] by blast
    let ?s = "s\<lparr>g_ulBufGetFailCount := c\<rparr>" and ?t = "s\<lparr>g_ulBufGetFailCount := c, g_mempool_warn := True\<rparr>"
    have inv: "mem_inv ?s live" "mem_inv ?t live" by (rule mem_inv_cong[OF assms(1)]; simp)+
    note cg = pools_ok_cong[OF d(1), of ?s, simplified]
    show ?thesis
      using c
    proof (elim disjE exE conjE)
      assume 1: "best_pool s n = None" "malloc_pools malloc (drop ?w (pBufMem s)) s = Some (0, ?s)"
      obtain a s' where m: "sys_malloc malloc (unat n) ?t = (a, s')" by fastforce
      have "pf_malloc malloc n s = Some (a, s')" using m 1 e pm by simp
      then show ?thesis
        using sys_malloc_inv[OF inv(2) assms(2) n m] n 1(1)
        by (intro exI[of _ a] exI[of _ s']) (auto simp: in_mem_pool_def blk_def fun_eq_iff)
    next
      fix j e b q
      assume 2: "best_pool s n = Some j" "free_of s j = e # free_nos q" "pool_ok b q" "same_pool (pool_b s j) b"
        "malloc_pools malloc (drop ?w (pBufMem s)) s = Some (blk s j e, set_pool j b q ?s)"
      have j: "j < 6" "unat n \<le> bsize j" using 2(1) by (simp_all add: best_pool_Some)
      note t = mem_inv_take[OF inv(1) j(1) _ 2(3) _ n j(2), of e, unfolded cg, OF 2(2,4)]
      show ?thesis using 2 t n e by (simp add: pool_simps cg)
    qed
  qed
qed

lemma live_block:
  assumes "mem_inv s live" "live a = Some n"
  shows "n \<noteq> 0" "a \<noteq> 0"
    "in_mem_pool a s \<Longrightarrow> \<exists>i < 6. \<exists>e < bnum i. a = blk s i e \<and> unat n \<le> bsize i \<and> pool_index a s = Some i \<and> e \<notin> set (free_of s i)"
    "\<not> in_mem_pool a s \<Longrightarrow> sys_blocks s a = Some (unat n)"
proof -
  note d = mem_invD[OF assms(1)]
  have nz: "in_mem_pool a s \<Longrightarrow> a \<noteq> 0" using d(1) by (auto simp: in_mem_pool_def pools_ok_def)
  show "n \<noteq> 0" "a \<noteq> 0" "\<not> in_mem_pool a s \<Longrightarrow> sys_blocks s a = Some (unat n)"
    using d(5) assms(2) nz by (auto simp: live_ok_def split: if_splits)
  assume p: "in_mem_pool a s"
  obtain i e where ie: "i < 6" "e < bnum i" "a = blk s i e" "unat n \<le> bsize i"
    using d(5)[unfolded live_ok_def, rule_format, OF assms(2)] p by auto
  have "e \<notin> set (free_of s i)" using d(4)[OF ie(1)] ie(3) assms(2) by auto
  then show "\<exists>i < 6. \<exists>e < bnum i. a = blk s i e \<and> unat n \<le> bsize i \<and> pool_index a s = Some i \<and> e \<notin> set (free_of s i)"
    using ie pool_index_blk(2)[OF d(1) ie(1,2)] by blast
qed

lemma ret_live:
  assumes "mem_inv s live" "live a \<noteq> None" "in_mem_pool a s"
  shows "\<exists>i s'. i < 6 \<and> pool_index a s = Some i \<and> pl_commbuf_ret (pBufMem s ! i) a s = Some (0, s') \<and> mem_inv s' (live(a := None))
    \<and> memory s' = memory s"
proof -
  obtain n where n: "live a = Some n" using assms(2) by blast
  obtain i e where ie: "i < 6" "e < bnum i" "a = blk s i e" "pool_index a s = Some i" "e \<notin> set (free_of s i)"
    using live_block(3)[OF assms(1) n assms(3)] by blast
  obtain b q where r: "free_nos q = free_of s i @ [e]" "pool_ok b q" "same_pool (pool_b s i) b"
    "pl_commbuf_ret (pBufMem s ! i) (blk s i e) s = Some (0, set_pool i b q s)"
    using ret_pool[OF mem_invD(1)[OF assms(1)] ie(1,2,5)] by blast
  show ?thesis using ie r mem_inv_give[OF assms(1) ie(1,2) r(1-3)] by (auto simp: pool_simps)
qed

lemma pf_free_inv:
  assumes "mem_inv s live" "live a \<noteq> None"
  shows "\<exists>s'. pf_free a s = Some s' \<and> mem_inv s' (live(a := None)) \<and> memory s' = memory s"
proof (cases "in_mem_pool a s")
  case True
  then show ?thesis using ret_live[OF assms True] by (auto simp: pf_free_def)
next
  case False
  obtain n where n: "live a = Some n" using assms(2) by blast
  let ?h = "(sys_blocks s)(a := None)"
  have "blocks_ok ?h" using mem_invD(2)[OF assms(1)] by (rule blocks_ok_drop)
  then have "mem_inv (s\<lparr>sys_calls := sys_calls s, sys_blocks := ?h\<rparr>) (live(a := None))"
    by (intro mem_inv_sys[OF assms(1) False]) simp_all
  then show ?thesis
    using False live_block(2,4)[OF assms(1) n] by (simp add: pf_free_def pl_commbuf_free_def sys_free_def)
qed

lemma mem_inv_resize:
  assumes "mem_inv s live" "live a = Some m" "in_mem_pool a s" "pool_index a s = Some i" "n \<noteq> 0" "unat n \<le> bsize i"
  shows "mem_inv s (live(a := None, a \<mapsto> n))"
proof -
  note d = mem_invD[OF assms(1)]
  obtain j e where j: "j < 6" "e < bnum j" "a = blk s j e" "pool_index a s = Some j"
    using live_block(3)[OF assms(1,2,3)] by blast
  then have i: "j = i" using assms(4) by simp
  have eq: "(live(a \<mapsto> n)) x = None \<longleftrightarrow> live x = None" for x using assms(2) by simp
  have "set (free_of s k) = {f. f < bnum k \<and> (live(a \<mapsto> n)) (blk s k f) = None}" if "k < 6" for k
    unfolding eq by (rule d(4)[OF that])
  moreover have "live_ok s (live(a \<mapsto> n))"
    unfolding live_ok_def
  proof (intro allI impI)
    fix x k
    assume x: "(live(a \<mapsto> n)) x = Some k"
    show "k \<noteq> 0 \<and> (if in_mem_pool x s then \<exists>i<6. \<exists>e<bnum i. x = blk s i e \<and> unat k \<le> bsize i
        else x \<noteq> 0 \<and> sys_blocks s x = Some (unat k))"
    proof (cases "x = a")
      case True
      then show ?thesis using x assms(3,5,6) j i by auto
    next
      case False
      then show ?thesis using x d(5) by (simp add: live_ok_def)
    qed
  qed
  ultimately show ?thesis using d(1-3) by (simp add: mem_inv_def)
qed

lemma pf_realloc_inv:
  assumes "mem_inv s live" "malloc_ok malloc" "realloc_ok realloc" "live a = Some m"
  shows "\<exists>r s'. pf_realloc malloc realloc a n s = Some (r, s') \<and> mem_inv s' (if r = 0 then live else live(a := None, r \<mapsto> n))
    \<and> (if r = 0 then memory s' = memory s else \<forall>k < min (unat m) (unat n). memory s' (r + k) = memory s (a + k))"
proof (cases "n = 0")
  case True
  then show ?thesis using assms(1) by (simp add: pf_realloc_def)
next
  case n: False
  note d = mem_invD[OF assms(1)] and lb = live_block[OF assms(1,4)]
  show ?thesis
  proof (cases "in_mem_pool a s")
    case pool: True
    obtain i where i: "i < 6" "unat m \<le> bsize i" "pool_index a s = Some i" using lb(3)[OF pool] by blast
    show ?thesis
    proof (cases "n \<le> aulBlockSize ! i")
      case True
      then have "pf_realloc malloc realloc a n s = Some (a, s)" using n lb(2) pool i(3) by (simp add: pf_realloc_def)
      moreover have "mem_inv s (live(a := None, a \<mapsto> n))"
        using mem_inv_resize[OF assms(1,4) pool i(3) n] True by (simp add: word_le_nat_alt)
      ultimately show ?thesis using lb(2) by simp
    next
      case False
      obtain p s1 where m: "pf_malloc malloc n s = Some (p, s1)" "mem_inv s1 (if p = 0 then live else live(p \<mapsto> n))"
        "p \<noteq> 0 \<longrightarrow> live p = None" "memory s1 = memory s" "pBufMem s1 = pBufMem s"
        "pucMemPoolStart s1 = pucMemPoolStart s" "pucMemPoolEnd s1 = pucMemPoolEnd s"
        using pf_malloc_inv[OF assms(1,2), of n] by blast
      show ?thesis
      proof (cases "p = 0")
        case True
        then have "pf_realloc malloc realloc a n s = Some (0, s1)"
          using False n lb(2) pool i(3) m(1) by (simp add: pf_realloc_def)
        then show ?thesis using True m(2,4) by simp
      next
        case p: False
        let ?s = "s1\<lparr>memory := copy_bytes p a (bsize i) (memory s1)\<rparr>"
        have inv: "mem_inv ?s (live(p \<mapsto> n))" using m(2) p by (auto intro: mem_inv_cong)
        have pool': "in_mem_pool a ?s" using pool m(6,7) by (simp add: in_mem_pool_def)
        have "ulBlockPoolUnit s1 = ulBlockPoolUnit s"
          using d(1) mem_invD(1)[OF inv] by (simp add: pools_ok_def)
        then have idx: "pool_index a ?s = Some i" using i(3) m(6) by (simp add: pool_index_def)
        have nn: "(live(p \<mapsto> n)) a \<noteq> None" using assms(4) by simp
        obtain s' where r: "pl_commbuf_ret (pBufMem ?s ! i) a ?s = Some (0, s')" "mem_inv s' (live(p \<mapsto> n, a := None))"
          "memory s' = memory ?s"
          using ret_live[OF inv nn pool'] idx by (auto simp del: fun_upd_apply)
        have pa: "p \<noteq> a" using m(3) p assms(4) by auto
        have e: "pf_realloc malloc realloc a n s = Some (p, s')"
          using False n lb(2) pool i(3) m(1,5) p r(1) by (simp add: pf_realloc_def)
        have "memory s' (p + k) = memory s (a + k)" if "k < min (unat m) (unat n)" for k
          using that i(2) m(4) by (simp add: r(3) copy_bytes_def)
        then show ?thesis using e p r(2) fun_upd_twist[OF pa, of live "Some n" None] by simp
      qed
    qed
  next
    case sys: False
    have h: "sys_blocks s a = Some (unat m)" using lb(4)[OF sys] .
    let ?h = "(sys_blocks s)(a := None)" and ?r = "realloc (sys_calls s) (sys_blocks s) a (unat n)"
    have inv: "mem_inv (s\<lparr>sys_calls := c, sys_blocks := ?h\<rparr>) (live(a := None))" for c
      using blocks_ok_drop[OF d(2)] by (intro mem_inv_sys[OF assms(1) sys]) simp_all
    have e: "pf_realloc malloc realloc a n s = sys_realloc realloc a (unat n) s"
      using n lb(2) sys by (simp add: pf_realloc_def)
    show ?thesis
    proof (cases "?r = 0")
      case True
      have "mem_inv (s\<lparr>sys_calls := sys_calls s + 1\<rparr>) live" by (rule mem_inv_cong[OF assms(1)]) simp_all
      then show ?thesis using True h by (simp add: e sys_realloc_def Let_def)
    next
      case False
      let ?s = "s\<lparr>sys_calls := sys_calls s + 1, sys_blocks := ?h\<rparr>"
      have new: "?h ?r = None" "apart ?h ?r (unat n)" using assms(3) False by (auto simp: realloc_ok_def)
      have np: "0 < unat n" using n by (simp add: unat_gt_0)
      have out: "\<not> in_mem_pool ?r ?s" using outside_pool[OF inv[of "sys_calls s + 1"] _ np, of ?r] new(2) by simp
      have "mem_inv (?s\<lparr>sys_calls := sys_calls s + 1, sys_blocks := ?h(?r \<mapsto> unat n)\<rparr>) (live(a := None, ?r \<mapsto> n))"
        using blocks_ok_new[OF blocks_ok_drop[OF d(2)] new(2)] n False
        by (intro mem_inv_sys[OF inv out]) simp_all
      then have "mem_inv (s\<lparr>sys_calls := sys_calls s + 1, sys_blocks := ?h(?r \<mapsto> unat n),
          memory := copy_bytes ?r a (min (unat m) (unat n)) (memory s)\<rparr>) (live(a := None, ?r \<mapsto> n))"
        by (rule mem_inv_cong) simp_all
      then show ?thesis using False h by (simp add: e sys_realloc_def Let_def copy_bytes_def)
    qed
  qed
qed

section \<open>Runs\<close>

text \<open>A process that initialises the pool and then asks for memory, uses it and gives back only what it
  holds.  Each step is an operation that returned; that none can fail to is part of the properties.\<close>

inductive mem_reach :: "allocator \<Rightarrow> reallocator \<Rightarrow> mem_sys \<Rightarrow> (addr \<rightharpoonup> U32) \<Rightarrow> bool"
  for malloc realloc where
  start: "\<lbrakk>fresh_process s; pf_mem_pool_init malloc junk s = Some (0, s')\<rbrakk> \<Longrightarrow> mem_reach malloc realloc s' Map.empty"
| malloc: "\<lbrakk>mem_reach malloc realloc s live; pf_malloc malloc n s = Some (a, s')\<rbrakk>
    \<Longrightarrow> mem_reach malloc realloc s' (if a = 0 then live else live(a \<mapsto> n))"
| realloc: "\<lbrakk>mem_reach malloc realloc s live; live a \<noteq> None; pf_realloc malloc realloc a n s = Some (r, s')\<rbrakk>
    \<Longrightarrow> mem_reach malloc realloc s' (if r = 0 then live else live(a := None, r \<mapsto> n))"
| free: "\<lbrakk>mem_reach malloc realloc s live; live a \<noteq> None; pf_free a s = Some s'\<rbrakk>
    \<Longrightarrow> mem_reach malloc realloc s' (live(a := None))"
| info: "\<lbrakk>mem_reach malloc realloc s live; pf_meminfo s = Some (infos, s')\<rbrakk> \<Longrightarrow> mem_reach malloc realloc s' live"
| use: "mem_reach malloc realloc s live \<Longrightarrow> mem_reach malloc realloc (s\<lparr>memory := m\<rparr>) live"

lemma meminfo_pools_outcome:
  assumes "pools_ok s" "set is \<subseteq> {..<6}"
  shows "meminfo_pools is s = Some (map (\<lambda>i. \<lparr>info_size = aulBlockSize ! i, info_total = aulBlockNum ! i,
      info_avail = of_nat (length (free_of s i))\<rparr>) is)"
  using assms(2)
proof (induction "is")
  case (Cons i xs)
  then have i: "i < 6" by simp
  note p = pools_okD[OF assms(1) i]
  have q: "que_ok (pool_q s i)" using p(6) by (simp add: pool_ok_def)
  have "length (free_of s i) \<le> bnum i" using length_free_nos[OF p(6)] p(4) by simp
  moreover have "bnum i \<le> 48000" using six_cases[OF i] by (auto simp: aulBlockNum_def)
  ultimately have l: "length (que_view (pool_q s i)) \<le> 48000" by (simp add: free_nos_def)
  have "que_avail_num (pool_q s i) = of_nat (length (free_of s i))"
    using arg_cong[OF que_avail_num_view(1)[OF q], of "of_nat :: nat \<Rightarrow> U32"] by (simp add: free_nos_def)
  moreover have "que_avail_num (pool_q s i) \<noteq> U32_INFINITY"
    using que_avail_num_view(1)[OF q] l by (auto simp: U32_INFINITY_def)
  ultimately show ?case
    using Cons p(1) by (simp add: pl_commbuf_avail_num_def pl_que_avail_num_def pool_at_def)
qed simp

lemma pf_meminfo_inv:
  assumes "mem_inv s live"
  shows "\<exists>s'. pf_meminfo s = Some (map (\<lambda>i. \<lparr>info_size = aulBlockSize ! i, info_total = aulBlockNum ! i,
      info_avail = of_nat (length (free_of s i))\<rparr>) [0..<6], s') \<and> mem_inv s' live"
proof -
  have "mem_inv (s\<lparr>g_mempool_warn := False\<rparr>) live" by (rule mem_inv_cong[OF assms]) simp_all
  moreover have "set [0..<6] \<subseteq> {..<6::nat}" by auto
  ultimately show ?thesis
    using meminfo_pools_outcome[OF mem_invD(1)[OF assms]] assms
    by (auto simp: pf_meminfo_def MAX_MEMPOOL_NUMBER_def simp del: upt_Suc)
qed

lemma mem_reach_inv:
  assumes "malloc_ok malloc" "realloc_ok realloc" "mem_reach malloc realloc s live"
  shows "mem_inv s live"
  using assms(3)
proof induction
  case (start s junk s')
  then show ?case using pool_init_inv(1)[OF assms(1)] by blast
next
  case (malloc s live n a s')
  then show ?case using pf_malloc_inv[OF malloc.IH assms(1), of n] by auto
next
  case (realloc s live a n r s')
  then obtain m where "live a = Some m" by blast
  then show ?case using pf_realloc_inv[OF realloc.IH assms(1,2), of a m n] realloc.hyps(3) by auto
next
  case (free s live a s')
  then show ?case using pf_free_inv[OF free.IH, of a] by (auto simp del: fun_upd_apply)
next
  case (info s live infos s')
  then show ?case using pf_meminfo_inv[OF info.IH] by auto
next
  case (use s live m)
  show ?case by (rule mem_inv_cong[OF use.IH]) simp_all
qed

section \<open>Properties\<close>

text \<open>
  C1. Memory handed out by \<open>pf_malloc\<close> and \<open>pf_realloc\<close> and not yet returned never overlaps, whatever
  the process asked for and gave back before: any two blocks are apart in the sizes asked for, and none
  is NULL.  No operation on a block in use fails an assertion or touches memory it does not own.
\<close>

theorem pool_memory_safe:
  assumes "malloc_ok malloc" "realloc_ok realloc" "mem_reach malloc realloc s live"
  shows "(\<forall>a b n m. live a = Some n \<longrightarrow> live b = Some m \<longrightarrow> a \<noteq> b \<longrightarrow> a + unat n \<le> b \<or> b + unat m \<le> a)
    \<and> live 0 = None \<and> pf_malloc malloc k s \<noteq> None
    \<and> (\<forall>a. live a \<noteq> None \<longrightarrow> pf_free a s \<noteq> None \<and> pf_realloc malloc realloc a k s \<noteq> None)"
proof -
  note inv = mem_reach_inv[OF assms]
  note d = mem_invD[OF inv]
  have place: "\<exists>l. unat n \<le> l \<and> (if in_mem_pool a s then \<exists>i < 6. \<exists>e < bnum i. a = blk s i e \<and> l = bsize i else sys_blocks s a = Some l)"
    if "live a = Some n" for a n
    using live_block(3,4)[OF inv that] by (cases "in_mem_pool a s") auto
  have outside: "b + m \<le> blk s i e \<or> blk s i e + bsize i \<le> b" if "sys_blocks s b = Some m" "\<not> in_mem_pool b s" "i < 6" "e < bnum i" for b m i e
  proof -
    have "pucMemPoolStart s + 6 * POOL_UNIT \<le> b \<or> b + m \<le> pucMemPoolStart s"
      using blocks_okD[OF d(2,3) that(1)] that(2) d(1) by (fastforce simp: in_mem_pool_def pools_ok_def POOL_UNIT_def)
    then show ?thesis using blk_place(4,5)[OF that(3,4), of s] by linarith
  qed
  have apart: "a + unat n \<le> b \<or> b + unat m \<le> a" if l: "live a = Some n" "live b = Some m" "a \<noteq> b" for a b n m
  proof -
    obtain x y where x: "unat n \<le> x" "if in_mem_pool a s then \<exists>i < 6. \<exists>e < bnum i. a = blk s i e \<and> x = bsize i else sys_blocks s a = Some x"
      and y: "unat m \<le> y" "if in_mem_pool b s then \<exists>i < 6. \<exists>e < bnum i. b = blk s i e \<and> y = bsize i else sys_blocks s b = Some y"
      using place[OF l(1)] place[OF l(2)] by blast
    have "a + x \<le> b \<or> b + y \<le> a"
    proof (cases "in_mem_pool a s"; cases "in_mem_pool b s")
      assume "in_mem_pool a s" "in_mem_pool b s"
      then show ?thesis using x(2) y(2) l(3) blk_apart[of _ _ _ _ s] by (auto; metis)
    next
      assume "in_mem_pool a s" "\<not> in_mem_pool b s"
      then show ?thesis using x(2) y(2) outside[of b y] by auto
    next
      assume "\<not> in_mem_pool a s" "in_mem_pool b s"
      then show ?thesis using x(2) y(2) outside[of a x] by auto
    next
      assume "\<not> in_mem_pool a s" "\<not> in_mem_pool b s"
      then show ?thesis using x(2) y(2) blocks_okD[OF d(2) _ _ l(3)] by simp
    qed
    then show ?thesis using x(1) y(1) by linarith
  qed
  have "live 0 = None" using live_block(2)[OF inv, of 0] by (cases "live 0") auto
  moreover have "pf_malloc malloc k s \<noteq> None" using pf_malloc_inv[OF inv assms(1), of k] by auto
  moreover have "pf_free a s \<noteq> None \<and> pf_realloc malloc realloc a k s \<noteq> None" if "live a \<noteq> None" for a
    using pf_free_inv[OF inv that] pf_realloc_inv[OF inv assms(1,2), of a _ k] that by auto
  ultimately show ?thesis using apart by blast
qed

text \<open>
  C20. A request is served by the first of the six pools whose blocks are large enough and that has a block
  left, with the block that has been free longest, and otherwise by \<open>malloc\<close>; in either case the memory was
  not in use.
\<close>

theorem pf_malloc_outcome:
  assumes "malloc_ok malloc" "realloc_ok realloc" "mem_reach malloc realloc s live" "n \<noteq> 0"
  shows "\<exists>a s'. pf_malloc malloc n s = Some (a, s') \<and> live a = None \<and>
    (case best_pool s n of
       Some j \<Rightarrow> a = pucMemPoolStart s + j * POOL_UNIT + (free_of s j ! 0) * unat (aulBlockSize ! j)
     | None \<Rightarrow> a = malloc (sys_calls s) (sys_blocks s) (unat n))"
proof -
  note inv = mem_reach_inv[OF assms(1-3)]
  have "live 0 = None" using live_block(2)[OF inv, of 0] by (cases "live 0") auto
  then show ?thesis using pf_malloc_inv[OF inv assms(1), of n] assms(4)
    by (auto simp: blk_def split: option.splits)
qed

text \<open>
  C23. The pool loses no block: for each pool \<open>pf_meminfo\<close> reports as available exactly the blocks that
  are not in use.
\<close>

theorem pool_accounting:
  assumes "malloc_ok malloc" "realloc_ok realloc" "mem_reach malloc realloc s live"
  shows "\<exists>infos s'. pf_meminfo s = Some (infos, s') \<and> length infos = 6 \<and> (\<forall>i < 6.
    unat (info_avail (infos ! i)) + card {a. live a \<noteq> None \<and> pucMemPoolStart s + i * POOL_UNIT \<le> a \<and>
      a < pucMemPoolStart s + (i + 1) * POOL_UNIT} = unat (aulBlockNum ! i))"
proof -
  note inv = mem_reach_inv[OF assms]
  note d = mem_invD[OF inv]
  have count: "unat (of_nat (length (free_of s i)) :: U32) + card {a. live a \<noteq> None \<and> pucMemPoolStart s + i * POOL_UNIT \<le> a \<and>
      a < pucMemPoolStart s + (i + 1) * POOL_UNIT} = bnum i" if i: "i < 6" for i
  proof -
    let ?L = "{a. live a \<noteq> None \<and> pucMemPoolStart s + i * POOL_UNIT \<le> a \<and> a < pucMemPoolStart s + (i + 1) * POOL_UNIT}"
    let ?F = "set (free_of s i)"
    note p = pools_okD[OF d(1) i]
    have "?L = blk s i ` ({..<bnum i} - ?F)"
    proof (intro set_eqI iffI)
      fix a
      assume "a \<in> ?L"
      then obtain n where a: "live a = Some n" "pucMemPoolStart s + i * POOL_UNIT \<le> a" "a < pucMemPoolStart s + (i + 1) * POOL_UNIT" by auto
      have "(i + 1) * POOL_UNIT \<le> 6 * POOL_UNIT" using i by simp
      then have "in_mem_pool a s" using a(2,3) d(1) unfolding in_mem_pool_def pools_ok_def by linarith
      then obtain j e where j: "j < 6" "e < bnum j" "a = blk s j e" "e \<notin> set (free_of s j)" using live_block(3)[OF inv a(1)] by blast
      have "(a - pucMemPoolStart s) div POOL_UNIT = i"
        using a(2,3) by (intro div_nat_eqI) (auto simp: algebra_simps)
      then have "j = i" using blk_place(2)[OF j(1,2), of s] j(3) by simp
      then show "a \<in> blk s i ` ({..<bnum i} - ?F)" using j by blast
    next
      fix a
      assume "a \<in> blk s i ` ({..<bnum i} - ?F)"
      then obtain e where e: "e < bnum i" "e \<notin> ?F" "a = blk s i e" by auto
      have "live (blk s i e) \<noteq> None" using e(1,2) unfolding d(4)[OF i] mem_Collect_eq by (simp only: simp_thms)
      then have "live a \<noteq> None" using e(3) by simp
      then show "a \<in> ?L" using blk_place(1)[OF i e(1)] pool_sizes(3)[OF i] e(3) by (auto simp: blk_def)
    qed
    moreover have "inj_on (blk s i) ({..<bnum i} - ?F)"
      using pool_sizes(3)[OF i] by (auto simp: inj_on_def blk_def)
    ultimately have "card ?L = bnum i - card ?F"
      using p(8) by (simp add: card_image card_Diff_subset)
    moreover have "card ?F = length (free_of s i)" using p(7) by (rule distinct_card)
    moreover have le: "length (free_of s i) \<le> bnum i" using length_free_nos[OF p(6)] p(4) by simp
    moreover have "unat (of_nat (length (free_of s i)) :: U32) = length (free_of s i)"
      using le unat_lt_U32[of "aulBlockNum ! i"] by (simp add: unat_of_nat)
    ultimately show ?thesis by simp
  qed
  let ?infos = "map (\<lambda>i. \<lparr>info_size = aulBlockSize ! i, info_total = aulBlockNum ! i,
      info_avail = of_nat (length (free_of s i))\<rparr>) [0..<6]"
  obtain s' where m: "pf_meminfo s = Some (?infos, s')" using pf_meminfo_inv[OF inv] by blast
  have "length ?infos = 6" "info_avail (?infos ! i) = of_nat (length (free_of s i))" if "i < 6" for i
    using that by simp_all
  with m count show ?thesis by (intro exI[of _ ?infos] exI[of _ s']) simp
qed

text \<open>
  C30. \<open>pf_realloc\<close> of a block in use keeps the bytes that fit into the new size, wherever the block was
  and wherever it goes, and when it fails the block and the memory are as before.
\<close>

theorem pf_realloc_keeps_bytes:
  assumes "malloc_ok malloc" "realloc_ok realloc" "mem_reach malloc realloc s live" "live a = Some m"
  shows "\<exists>r s'. pf_realloc malloc realloc a n s = Some (r, s') \<and>
    (if r = 0 then memory s' = memory s
     else \<forall>k < min (unat m) (unat n). memory s' (r + k) = memory s (a + k))"
  using pf_realloc_inv[OF mem_reach_inv[OF assms(1-3)] assms(1,2,4), of n] by blast

section \<open>An allocator and a first run\<close>

text \<open>Each call gives the next multiple of \<open>2 ^ 32\<close>, as long as nothing is there.\<close>

definition high_malloc :: allocator where
  "high_malloc c h n = (let a = 2 ^ 32 * Suc c in if h a = None \<and> apart h a n \<and> a + n \<le> 2 ^ 64 then a else 0)"

definition high_realloc :: reallocator where
  "high_realloc c h a n = high_malloc c (h(a := None)) n"

lemma high_malloc_ok: "malloc_ok high_malloc" "realloc_ok high_realloc"
  by (auto simp: malloc_ok_def realloc_ok_def high_malloc_def high_realloc_def Let_def)

definition room :: "mem_sys \<Rightarrow> nat \<Rightarrow> bool" where
  "room s k \<longleftrightarrow> (\<forall>a m. sys_blocks s a = Some m \<longrightarrow> a < 2 ^ 32 * Suc (sys_calls s) \<and> a + m \<le> 2 ^ 32 * Suc (sys_calls s))
     \<and> sys_calls s + k < 2 ^ 31"

lemma high_malloc_room:
  assumes "room s (Suc k)" "n \<le> 2 ^ 32"
  shows "\<exists>a s'. sys_malloc high_malloc n s = (a, s') \<and> a \<noteq> 0 \<and> a mod 16 = 0 \<and> room s' k
    \<and> s' = s\<lparr>sys_calls := sys_calls s + 1, sys_blocks := (sys_blocks s)(a \<mapsto> n)\<rparr>"
proof -
  let ?a = "2 ^ 32 * Suc (sys_calls s)"
  have r: "sys_blocks s b = Some m \<Longrightarrow> b < ?a \<and> b + m \<le> ?a" for b m using assms(1) by (auto simp: room_def)
  have c: "sys_calls s < 2 ^ 31" using assms(1) by (simp add: room_def)
  have "sys_blocks s ?a = None" using r[of ?a] by (cases "sys_blocks s ?a") auto
  moreover have "apart (sys_blocks s) ?a n" using r by (auto simp: apart_def)
  moreover have "?a + n \<le> 2 ^ 64" using c assms(2) by simp
  ultimately have "sys_malloc high_malloc n s = (?a, s\<lparr>sys_calls := sys_calls s + 1, sys_blocks := (sys_blocks s)(?a \<mapsto> n)\<rparr>)"
    by (simp add: sys_malloc_def high_malloc_def Let_def)
  moreover have "room (s\<lparr>sys_calls := sys_calls s + 1, sys_blocks := (sys_blocks s)(?a \<mapsto> n)\<rparr>) k"
    using assms r by (fastforce simp: room_def)
  ultimately show ?thesis by (intro exI[of _ ?a]) simp
qed

lemma que_create_room:
  assumes "room s (Suc (Suc k))" "n \<le> MAX_QUE_ELEM_NUM" "length (g_pastQueGlobal s) < MAX_QUE_NUM"
  shows "\<exists>q s'. pl_que_create high_malloc junk n s = Some (q, s') \<and> q \<noteq> 0 \<and> room s' k"
proof -
  obtain a s1 where a: "sys_malloc high_malloc sizeof_QUE_CTRL_S s = (a, s1)" "a \<noteq> 0" "room s1 (Suc k)"
    "s1 = s\<lparr>sys_calls := sys_calls s + 1, sys_blocks := (sys_blocks s)(a \<mapsto> sizeof_QUE_CTRL_S)\<rparr>"
    using high_malloc_room[OF assms(1), of sizeof_QUE_CTRL_S] by (auto simp: sizeof_QUE_CTRL_S_def)
  have "unat n \<le> 2 ^ 20" using assms(2) by (simp add: MAX_QUE_ELEM_NUM_def word_le_nat_alt)
  then obtain e s2 where e: "sys_malloc high_malloc ((unat n + 1) * 4) s1 = (e, s2)" "e \<noteq> 0" "room s2 k"
    "s2 = s1\<lparr>sys_calls := sys_calls s1 + 1, sys_blocks := (sys_blocks s1)(e \<mapsto> (unat n + 1) * 4)\<rparr>"
    using high_malloc_room[OF a(3), of "(unat n + 1) * 4"] by auto
  have "g_pastQueGlobal s2 = g_pastQueGlobal s" using a(4) e(4) by simp
  then show ?thesis
    using assms(2,3) a(1,2) e(1-3) by (simp add: pl_que_create_def Let_def not_less[symmetric] room_def)
qed

lemma create_room:
  assumes "room s (Suc (Suc (Suc k)))" "start \<noteq> 0" "start mod 4 = 0" "round4 bs = bs" "bs \<noteq> 0" "unat bs * unat num < 2 ^ 32"
    "num \<le> MAX_QUE_ELEM_NUM" "length (g_pastQueGlobal s) < MAX_QUE_NUM" "length (g_pastCommBufferGlobal s) < MAX_COMMBUF_NUM"
  shows "\<exists>p s'. pl_commbuf_create_with_address high_malloc junk start (start + unat (bs * num)) bs num s = Some (p, s')
    \<and> p \<noteq> 0 \<and> room s' k"
proof -
  obtain a s1 where a: "sys_malloc high_malloc sizeof_BUF_CTRL_S s = (a, s1)" "a \<noteq> 0" "room s1 (Suc (Suc k))"
    "s1 = s\<lparr>sys_calls := sys_calls s + 1, sys_blocks := (sys_blocks s)(a \<mapsto> sizeof_BUF_CTRL_S)\<rparr>"
    using high_malloc_room[OF assms(1), of sizeof_BUF_CTRL_S] by (auto simp: sizeof_BUF_CTRL_S_def)
  have "length (g_pastQueGlobal s1) < MAX_QUE_NUM" using assms(8) a(4) by simp
  then obtain q s2 where q: "pl_que_create high_malloc junk num s1 = Some (q, s2)" "q \<noteq> 0" "room s2 k"
    using que_create_room[OF a(3) assms(7)] by blast
  obtain h c qq where o: "que_ok qq" "ulElemNum qq = num" "que_view qq = []" "grown (sys_blocks s1) h" "sys_blocks s1 q = None"
    "h q \<noteq> None"
    "s2 = s1\<lparr>sys_calls := c, sys_blocks := h, g_pastQueGlobal := g_pastQueGlobal s1 @ [q], ques := (ques s1)(q \<mapsto> qq)\<rparr>"
    by (rule pl_que_create_outcome[OF high_malloc_ok(1) q(1,2)])
  let ?s = "s2\<lparr>g_pastCommBufferGlobal := g_pastCommBufferGlobal s2 @ [a], bufs := (bufs s2)(a \<mapsto> new_pool bs num start q True)\<rparr>"
  have "ques ?s q = Some qq" using o(7) by simp
  then obtain qe where "fill_que q [0..<unat num] ?s = Some (?s\<lparr>ques := (ques ?s)(q \<mapsto> qe)\<rparr>)"
    using fill_que_outcome[of ?s q qq "unat num"] q(2) o(1-3) by (auto simp del: fun_upd_apply)
  then have "pl_commbuf_create_with_address high_malloc junk start (start + unat (bs * num)) bs num s
      = Some (a, ?s\<lparr>ques := (ques ?s)(q \<mapsto> qe)\<rparr>)"
    using assms(2-4,9) a(1,2) q(1,2)
    by (simp add: pl_commbuf_create_with_address_def Let_def del: fun_upd_apply)
  moreover have "room (?s\<lparr>ques := (ques ?s)(q \<mapsto> qe)\<rparr>) k" using q(3) by (simp add: room_def)
  ultimately show ?thesis using a(2) by blast
qed

lemma init_pools_room:
  assumes "room s (3 * (6 - k))" "k \<le> 6" "start \<noteq> 0" "start mod 4 = 0"
    "length (g_pastQueGlobal s) = k" "length (g_pastCommBufferGlobal s) = k"
  shows "\<exists>s'. init_pools high_malloc junk [k..<6] start s = Some s'"
  using assms
proof (induction "6 - k" arbitrary: k s start)
  case (Suc m)
  then have k: "k < 6" "m = 6 - Suc k" and u: "[k..<6] = k # [Suc k..<6]" by (simp_all add: upt_rec)
  note z = pool_sizes[OF k(1)]
  have bz: "aulBlockSize ! k \<noteq> 0" using z(3) by (simp add: unat_gt_0)
  have cur: "unat (aulBlockSize ! k * aulBlockNum ! k) = POOL_UNIT" unfolding z(7) by (simp add: POOL_UNIT_def)
  have lt: "unat (aulBlockSize ! k) * unat (aulBlockNum ! k) < 2 ^ 32" unfolding z(1) by (simp add: POOL_UNIT_def)
  have num: "aulBlockNum ! k \<le> MAX_QUE_ELEM_NUM" using six_cases[OF k(1)] by (auto simp: aulBlockNum_def MAX_QUE_ELEM_NUM_def)
  have r: "room s (Suc (Suc (Suc (3 * m))))" using Suc.prems(1) Suc.hyps(2)[symmetric] by (simp add: numeral_3_eq_3)
  obtain p s1 where c: "pl_commbuf_create_with_address high_malloc junk start (start + unat (aulBlockSize ! k * aulBlockNum ! k))
      (aulBlockSize ! k) (aulBlockNum ! k) s = Some (p, s1)" "p \<noteq> 0" "room s1 (3 * m)"
    using create_room[OF r Suc.prems(3,4) z(6) bz lt num, of junk] Suc.prems(5,6) k(1)
    by (auto simp: MAX_QUE_NUM_def MAX_COMMBUF_NUM_def)
  obtain kq q cc h where o: "kq \<noteq> p" "kq \<noteq> 0" "pool_ok (new_pool (aulBlockSize ! k) (aulBlockNum ! k) start kq True) q"
    "free_nos q = [0..<bnum k]" "grown (sys_blocks s) h" "sys_blocks s p = None" "sys_blocks s kq = None" "h p \<noteq> None" "h kq \<noteq> None"
    "s1 = s\<lparr>sys_calls := cc, sys_blocks := h, g_pastQueGlobal := g_pastQueGlobal s @ [kq],
        g_pastCommBufferGlobal := g_pastCommBufferGlobal s @ [p], ques := (ques s)(kq \<mapsto> q),
        bufs := (bufs s)(p \<mapsto> new_pool (aulBlockSize ! k) (aulBlockNum ! k) start kq True)\<rparr>"
    by (rule create_with_address_outcome[OF high_malloc_ok(1) c(1,2) z(6) bz lt])
  have bp: "bufs s1 p \<noteq> None" and reg: "length (g_pastQueGlobal s1) = Suc k" "length (g_pastCommBufferGlobal s1) = Suc k"
    using o(10) Suc.prems(5,6) by simp_all
  obtain s2 where m: "pl_commbuf_mutex_init p (qlock_mem k) (s1\<lparr>pBufMem := (pBufMem s1)[k := p]\<rparr>) = Some (ucast COMM_SUCC, s2)"
    "room s2 (3 * m)" "length (g_pastQueGlobal s2) = Suc k" "length (g_pastCommBufferGlobal s2) = Suc k"
    using bp c(2,3) reg by (auto simp: pl_commbuf_mutex_init_def qlock_mem_def room_def)
  have "4 dvd start" "4 dvd POOL_UNIT" using Suc.prems(4) by (simp_all add: POOL_UNIT_def mod_eq_0_iff_dvd)
  then have start: "start + POOL_UNIT \<noteq> 0" "(start + POOL_UNIT) mod 4 = 0"
    using Suc.prems(3) by (simp_all only: mod_eq_0_iff_dvd dvd_add add_is_0 simp_thms not_False_eq_True)
  have "\<exists>s'. init_pools high_malloc junk [Suc k..<6] (start + POOL_UNIT) s2 = Some s'"
    using Suc.hyps(1)[OF k(2), of s2 "start + POOL_UNIT"] m(2-4) start k by simp
  moreover have "aulBlockSize ! k * aulBlockNum ! k = aulBlockSize ! 0 * aulBlockNum ! 0" using z(7) pool_sizes(7)[of 0] by simp
  moreover have "unat (aulBlockSize ! 0 * aulBlockNum ! 0) = POOL_UNIT" using cur calculation(2) by simp
  ultimately show ?case using c(1,2) m(1) unfolding u by (simp add: Let_def cur)
qed simp

definition toy_process :: mem_sys where
  "toy_process = \<lparr>sys_calls = 0, sys_blocks = Map.empty, ques = Map.empty, bufs = Map.empty, g_pastQueGlobal = [],
     g_pastCommBufferGlobal = [], g_ulBufGetFailCount = 0, pBufMem = replicate 6 0, pucMemPoolStart = 0, pucMemPoolEnd = 0,
     ulBlockPoolUnit = 0, g_mempool_warn = False, memory = (\<lambda>_. 0)\<rparr>"

lemma toy_init: "\<exists>s. mem_reach high_malloc high_realloc s Map.empty \<and> (\<forall>i < 6. free_of s i = [0..<bnum i])"
proof -
  have tot: "unat (sum_list (map2 (*) aulBlockSize aulBlockNum)) = 6 * POOL_UNIT"
    by (simp add: aulBlockSize_def aulBlockNum_def POOL_UNIT_def)
  have fresh: "fresh_process toy_process"
    by (simp add: fresh_process_def toy_process_def MAX_MEMPOOL_NUMBER_def blocks_ok_def)
  have "room toy_process 19" by (simp add: room_def toy_process_def)
  then obtain a s1 where a: "sys_malloc high_malloc (6 * POOL_UNIT) toy_process = (a, s1)" "a \<noteq> 0" "a mod 16 = 0" "room s1 18"
    "s1 = toy_process\<lparr>sys_calls := sys_calls toy_process + 1, sys_blocks := (sys_blocks toy_process)(a \<mapsto> 6 * POOL_UNIT)\<rparr>"
    using high_malloc_room[of toy_process 18 "6 * POOL_UNIT"] by (auto simp: POOL_UNIT_def)
  have a4: "a mod 4 = 0" using mod_mod_cancel[of 4 16 a] a(3) by simp
  let ?s = "s1\<lparr>pucMemPoolStart := a, pucMemPoolEnd := a + 6 * POOL_UNIT,
      memory := (\<lambda>x. if a \<le> x \<and> x < a + 6 * POOL_UNIT then 0 else memory s1 x)\<rparr>"
  have "room ?s (3 * (6 - 0))" using a(4) by (simp add: room_def)
  moreover have "length (g_pastQueGlobal ?s) = 0" "length (g_pastCommBufferGlobal ?s) = 0"
    using a(5) by (simp_all add: toy_process_def)
  ultimately have "\<exists>s2. init_pools high_malloc (\<lambda>_. 0) [0..<6] a ?s = Some s2"
    using a(2) a4 by (intro init_pools_room) simp_all
  then obtain s2 where "init_pools high_malloc (\<lambda>_. 0) [0..<6] a ?s = Some s2" ..
  then obtain s where s: "pf_mem_pool_init high_malloc (\<lambda>_. 0) toy_process = Some (0, s)"
    using a(1,2) by (auto simp: pf_mem_pool_init_def tot MAX_MEMPOOL_NUMBER_def)
  show ?thesis
    using mem_reach.start[OF fresh s, of high_realloc] pool_init_inv(3)[OF high_malloc_ok(1) fresh s] by blast
qed

text \<open>Two requests at the start: one from the first pool, one from the second.\<close>

lemma pool_hit:
  assumes "mem_inv s live" "malloc_ok malloc" "best_pool s n = Some j" "n \<noteq> 0"
  shows "\<exists>s'. pf_malloc malloc n s = Some (blk s j (free_of s j ! 0), s') \<and> blk s j (free_of s j ! 0) \<noteq> 0 \<and> blk s' = blk s
    \<and> live (blk s j (free_of s j ! 0)) = None"
proof -
  have nz: "blk s j (free_of s j ! 0) \<noteq> 0" using mem_invD(1)[OF assms(1)] by (simp add: blk_def pools_ok_def)
  obtain a s' where a: "pf_malloc malloc n s = Some (a, s')" "a \<noteq> 0 \<longrightarrow> live a = None" "blk s' = blk s"
    "if n = 0 then a = 0 else case best_pool s n of Some j \<Rightarrow> a = blk s j (free_of s j ! 0)
         | None \<Rightarrow> a = malloc (sys_calls s) (sys_blocks s) (unat n) \<and> \<not> in_mem_pool a s"
    using pf_malloc_inv[OF assms(1,2), of n] by blast
  have "a = blk s j (free_of s j ! 0)" using a(4) assms(3,4) by simp
  then show ?thesis using a nz by blast
qed

lemma toy_run:
  "\<exists>s s' a b. mem_reach high_malloc high_realloc s (Map.empty(a \<mapsto> 100)) \<and> a \<noteq> b
     \<and> mem_reach high_malloc high_realloc s' (Map.empty(a \<mapsto> 100, b \<mapsto> 300)) \<and> best_pool s 300 = Some (Suc 0)"
proof -
  obtain s where s: "mem_reach high_malloc high_realloc s Map.empty" "\<forall>i < 6. free_of s i = [0..<bnum i]"
    using toy_init by blast
  note inv = mem_reach_inv[OF high_malloc_ok s(1)]
  have sz: "bsize 0 = 256" "bsize (Suc 0) = 1024" "0 < bnum 0" "0 < bnum (Suc 0)" by (simp_all add: aulBlockSize_def aulBlockNum_def)
  have fr: "free_of s 0 ! 0 = 0" "free_of s 0 \<noteq> []" using s(2) sz(3) by simp_all
  have "best_pool s 100 = Some 0" unfolding best_pool_Some using fr(2) sz(1) by simp
  from pool_hit[OF inv high_malloc_ok(1) this]
  obtain s1 where a: "pf_malloc high_malloc 100 s = Some (blk s 0 0, s1)" "blk s 0 0 \<noteq> 0" "blk s1 = blk s"
    unfolding fr(1) by auto
  have r1: "mem_reach high_malloc high_realloc s1 (Map.empty(blk s 0 0 \<mapsto> 100))"
    using mem_reach.malloc[OF s(1) a(1)] a(2) by simp
  note inv1 = mem_reach_inv[OF high_malloc_ok r1]
  have "blk s (Suc 0) 0 \<noteq> blk s 0 0" using blk_eq_iff[of "Suc 0" 0 0 0 s] sz(3,4) by simp
  then have "0 \<in> set (free_of s1 (Suc 0))"
    using mem_invD(4)[OF inv1, of "Suc 0"] sz(4) by (simp add: a(3))
  then have "free_of s1 (Suc 0) \<noteq> []" by auto
  then have bp: "best_pool s1 300 = Some (Suc 0)" unfolding best_pool_Some using sz(1,2) by simp
  from pool_hit[OF inv1 high_malloc_ok(1) this]
  obtain s2 b where b: "pf_malloc high_malloc 300 s1 = Some (b, s2)" "b \<noteq> 0"
    "(Map.empty(blk s 0 0 \<mapsto> 100)) b = (None :: U32 option)" by auto
  have "b \<noteq> blk s 0 0" using b(3) by auto
  moreover have "mem_reach high_malloc high_realloc s2 (Map.empty(blk s 0 0 \<mapsto> 100, b \<mapsto> 300))"
    using mem_reach.malloc[OF r1 b(1)] b(2) by simp
  ultimately show ?thesis
    using r1 bp by (intro exI[of _ s1] exI[of _ s2] exI[of _ "blk s 0 0"] exI[of _ b]) simp
qed

lemma pool_memory_safe_witness:
  "\<exists>s a b. mem_reach high_malloc high_realloc s (Map.empty(a \<mapsto> 100, b \<mapsto> 300)) \<and> (a + 100 \<le> b \<or> b + 300 \<le> a)
     \<and> pf_free a s \<noteq> None"
proof -
  obtain s a b where r: "mem_reach high_malloc high_realloc s (Map.empty(a \<mapsto> 100, b \<mapsto> 300))" "a \<noteq> b" using toy_run by blast
  from pool_memory_safe[OF high_malloc_ok r(1), of 0] r(2)
  have "a + unat (100 :: U32) \<le> b \<or> b + unat (300 :: U32) \<le> a" "pf_free a s \<noteq> None"
    by (metis fun_upd_apply option.distinct(1))+
  then show ?thesis using r(1) by auto
qed

lemma pf_malloc_outcome_witness:
  "\<exists>s a s' live. mem_reach high_malloc high_realloc s live \<and> pf_malloc high_malloc 300 s = Some (a, s') \<and> live a = None
     \<and> a = pucMemPoolStart s + POOL_UNIT + (free_of s 1 ! 0) * 1024"
proof -
  obtain s a where r: "mem_reach high_malloc high_realloc s (Map.empty(a \<mapsto> 100))" "best_pool s 300 = Some (Suc 0)"
    using toy_run by blast
  have sz: "bsize (Suc 0) = 1024" by (simp add: aulBlockSize_def)
  show ?thesis
    using pf_malloc_outcome[OF high_malloc_ok r(1), of 300] r sz by (auto simp del: fun_upd_apply)
qed

lemma pool_accounting_witness:
  "\<exists>s a infos s'. mem_reach high_malloc high_realloc s (Map.empty(a \<mapsto> 100)) \<and> pf_meminfo s = Some (infos, s') \<and>
     unat (info_avail (infos ! 1)) + card {x. (Map.empty(a \<mapsto> (100 :: U32))) x \<noteq> None \<and> pucMemPoolStart s + POOL_UNIT \<le> x \<and>
       x < pucMemPoolStart s + 2 * POOL_UNIT} = 12000"
proof -
  obtain s a where r: "mem_reach high_malloc high_realloc s (Map.empty(a \<mapsto> 100))" using toy_run by blast
  obtain infos s' where i: "pf_meminfo s = Some (infos, s')" "\<forall>i < 6.
    unat (info_avail (infos ! i)) + card {x. (Map.empty(a \<mapsto> (100 :: U32))) x \<noteq> None \<and> pucMemPoolStart s + i * POOL_UNIT \<le> x \<and>
      x < pucMemPoolStart s + (i + 1) * POOL_UNIT} = unat (aulBlockNum ! i)"
    using pool_accounting[OF high_malloc_ok r] by blast
  have "unat (aulBlockNum ! 1) = 12000" by (simp add: aulBlockNum_def)
  then have "unat (info_avail (infos ! 1)) + card {x. (Map.empty(a \<mapsto> (100 :: U32))) x \<noteq> None \<and> pucMemPoolStart s + POOL_UNIT \<le> x \<and>
       x < pucMemPoolStart s + 2 * POOL_UNIT} = 12000"
    using i(2)[rule_format, of 1] by (simp only: mult_1 one_add_one)
  then show ?thesis using r i(1) by blast
qed

lemma pf_realloc_keeps_bytes_witness:
  "\<exists>s a r s'. mem_reach high_malloc high_realloc s (Map.empty(a \<mapsto> 100)) \<and>
     pf_realloc high_malloc high_realloc a 300 s = Some (r, s') \<and>
     (if r = 0 then memory s' = memory s else memory s' (r + 99) = memory s (a + 99))"
proof -
  obtain s a where r: "mem_reach high_malloc high_realloc s (Map.empty(a \<mapsto> 100))" using toy_run by blast
  obtain r' s' where "pf_realloc high_malloc high_realloc a 300 s = Some (r', s')"
    "if r' = 0 then memory s' = memory s else \<forall>k < min (unat (100 :: U32)) (unat (300 :: U32)). memory s' (r' + k) = memory s (a + k)"
    using pf_realloc_keeps_bytes[OF high_malloc_ok r, of a 100 300] by auto
  then show ?thesis using r by (intro exI[of _ s] exI[of _ a] exI[of _ r'] exI[of _ s']) (auto split: if_splits)
qed

end
