(* ===== verification/Obstacle_Map.thy ===== *)
theory Obstacle_Map
  imports Obstacle_Polygon "HOL-Library.Monad_Syntax"
begin

text \<open>
  The obstacle map of \<^verbatim>\<open>common/hdmap/pf_map_block_3d.cpp\<close>: a grid of blocks with the greatest height of what
  stands on each, areas with a restriction of flight, and the checks around a position and along a line.

  A \<^verbatim>\<open>DOUBLE\<close> is a rational number and \<open>r\<close> rounds each result; a conversion to \<^verbatim>\<open>S32\<close> that does not fit, a
  division by zero before such a conversion and an access outside an array are the outcome \<open>None\<close>.
  \<^verbatim>\<open>cos\<close>, \<^verbatim>\<open>sin\<close> and the projection \<^verbatim>\<open>WGS842UTM\<close> are parameters.  Positions are plane coordinates in metres.
\<close>

section \<open>Data\<close>

record PF_MAP_AREA_ST =
  ID :: int
  extrapointsID :: int
  area_type :: int
  node_i :: int
  node_count :: int
  height_limit :: rat
  min_x :: rat
  min_y :: rat
  max_x :: rat
  max_y :: rat
  area_name :: string

record PF_MAP_BLOCK_ST =
  resdiction_i :: "8 word"
  ground_i :: "8 word"
  z_i :: "16 word"
  zmax_mm :: "32 word"

record PF_MAP_INFO_ST =
  utm_min :: PF_MAP_XYZ_ST
  utm_max :: PF_MAP_XYZ_ST
  block_min :: PF_MAP_XYZ_ST
  block_max :: PF_MAP_XYZ_ST
  block_size :: PF_MAP_XYZ_ST
  block_count_x :: int
  block_count_y :: int
  block_count_z :: int
  nodeCount :: nat
  resdictionCount :: nat
  groundCount :: nat

record map_state =
  gMap :: PF_MAP_INFO_ST
  pstRestriction :: "PF_MAP_AREA_ST list"
  pstGround :: "PF_MAP_AREA_ST list"
  pstNode :: "PF_MAP_XYZ_ST list"
  pstBlock :: "PF_MAP_BLOCK_ST list"
  gu32MapErrCount :: "32 word"

definition RESTRICT_NO_FLY :: rat where "RESTRICT_NO_FLY = - 1"
definition PAI :: rat where "PAI = 31415926 / 10000000"

text \<open>The height of a block nothing is known of.\<close>

definition no_height :: rat where "no_height = 9999999999 / 10"

section \<open>Conversions and accesses\<close>

text \<open>A conversion to \<^verbatim>\<open>S32\<close> cuts off the fraction.\<close>

definition S32_of :: "rat \<Rightarrow> int option" where
  "S32_of v = (let n = (if v \<ge> 0 then \<lfloor>v\<rfloor> else \<lceil>v\<rceil>) in if - (2 ^ 31) \<le> n \<and> n < 2 ^ 31 then Some n else None)"

definition S32_div :: "(rat \<Rightarrow> rat) \<Rightarrow> rat \<Rightarrow> rat \<Rightarrow> int option" where
  "S32_div r a b = (if b = 0 then None else S32_of (fdiv r a b))"

definition elem_at :: "'a list \<Rightarrow> int \<Rightarrow> 'a option" where
  "elem_at xs i = (if 0 \<le> i \<and> i < int (length xs) then Some (xs ! nat i) else None)"

section \<open>Areas\<close>

definition check_in_area :: "(rat \<Rightarrow> rat) \<Rightarrow> map_state \<Rightarrow> rat \<Rightarrow> rat \<Rightarrow> PF_MAP_AREA_ST \<Rightarrow> bool option" where
  "check_in_area r m x y parea =
     (if x < min_x parea \<or> x > max_x parea \<or> y < min_y parea \<or> y > max_y parea then Some False
      else if node_count parea \<le> 0 then Some False
      else if 0 \<le> node_i parea \<and> node_i parea + node_count parea \<le> int (length (pstNode m))
      then Some (pnpoly r (take (nat (node_count parea)) (drop (nat (node_i parea)) (pstNode m))) x y)
      else None)"

text \<open>An area touches a block when one of the four corners is inside.\<close>

definition touches :: "(rat \<Rightarrow> rat) \<Rightarrow> map_state \<Rightarrow> rat \<Rightarrow> rat \<Rightarrow> PF_MAP_AREA_ST \<Rightarrow> bool option" where
  "touches r m dbx dby a =
     (let sx = px (block_size (gMap m)); sy = py (block_size (gMap m)) in
      do { t \<leftarrow> check_in_area r m dbx dby a;
           t \<leftarrow> (if t then Some True else check_in_area r m (r (dbx + sx)) dby a);
           t \<leftarrow> (if t then Some True else check_in_area r m (r (dbx + sx)) (r (dby + sy)) a);
           if t then Some True else check_in_area r m dbx (r (dby + sy)) a })"

fun restrict_block ::
  "(rat \<Rightarrow> rat) \<Rightarrow> map_state \<Rightarrow> rat \<Rightarrow> rat \<Rightarrow> nat list \<Rightarrow> PF_MAP_BLOCK_ST \<Rightarrow> PF_MAP_BLOCK_ST option" where
  "restrict_block r m dbx dby [] b = Some b"
| "restrict_block r m dbx dby (k # ks) b =
     do { a \<leftarrow> elem_at (pstRestriction m) (int k);
          t \<leftarrow> touches r m dbx dby a;
          new \<leftarrow> (if \<not> t then Some False
                  else if resdiction_i b = 0 \<or> height_limit a = RESTRICT_NO_FLY then Some True
                  else do { old \<leftarrow> elem_at (pstRestriction m) (sint (resdiction_i b) - 1);
                            Some (height_limit a > height_limit old) });
          restrict_block r m dbx dby ks (if new then b\<lparr>resdiction_i := of_nat (k + 1)\<rparr> else b) }"

fun ground_block ::
  "(rat \<Rightarrow> rat) \<Rightarrow> map_state \<Rightarrow> rat \<Rightarrow> rat \<Rightarrow> nat list \<Rightarrow> PF_MAP_BLOCK_ST \<Rightarrow> PF_MAP_BLOCK_ST option" where
  "ground_block r m dbx dby [] b = Some b"
| "ground_block r m dbx dby (k # ks) b =
     do { a \<leftarrow> elem_at (pstGround m) (int k);
          t \<leftarrow> touches r m dbx dby a;
          ground_block r m dbx dby ks (if t then b\<lparr>ground_i := of_nat (k + 1)\<rparr> else b) }"

definition area_block :: "(rat \<Rightarrow> rat) \<Rightarrow> map_state \<Rightarrow> int \<Rightarrow> int \<Rightarrow> PF_MAP_BLOCK_ST \<Rightarrow> PF_MAP_BLOCK_ST option" where
  "area_block r m j i b =
     (let dby = r (py (block_min (gMap m)) + r (py (block_size (gMap m)) * of_int j));
          dbx = r (px (block_min (gMap m)) + r (px (block_size (gMap m)) * of_int i)) in
      do { b \<leftarrow> restrict_block r m dbx dby [0..<resdictionCount (gMap m)] b;
           if ground_i b = 0 then ground_block r m dbx dby [0..<groundCount (gMap m)] b else Some b })"

fun area_blocks :: "(rat \<Rightarrow> rat) \<Rightarrow> (int \<times> int) list \<Rightarrow> map_state \<Rightarrow> map_state option" where
  "area_blocks r [] m = Some m"
| "area_blocks r ((j, i) # cells) m =
     (let n = j * block_count_x (gMap m) + i in
      do { b \<leftarrow> elem_at (pstBlock m) n;
           b \<leftarrow> area_block r m j i b;
           area_blocks r cells (m\<lparr>pstBlock := (pstBlock m)[nat n := b]\<rparr>) })"

text \<open>Rows from \<open>j1\<close> to \<open>j2\<close>, each from \<open>i1\<close> to \<open>i2\<close>.\<close>

definition block_cells :: "int \<Rightarrow> int \<Rightarrow> int \<Rightarrow> int \<Rightarrow> (int \<times> int) list" where
  "block_cells j1 j2 i1 i2 = concat (map (\<lambda>j. map (Pair j) [i1..i2]) [j1..j2])"

definition set_map_block_area :: "(rat \<Rightarrow> rat) \<Rightarrow> map_state \<Rightarrow> map_state option" where
  "set_map_block_area r m =
     area_blocks r (block_cells 0 (block_count_y (gMap m) - 1) 0 (block_count_x (gMap m) - 1)) m"

section \<open>Checks\<close>

text \<open>The height that a block counts as for a position at height \<open>z\<close>.\<close>

definition blockz :: "(rat \<Rightarrow> rat) \<Rightarrow> map_state \<Rightarrow> rat \<Rightarrow> PF_MAP_BLOCK_ST \<Rightarrow> rat option" where
  "blockz r m z b =
     (let h = (if sint (z_i b) > 0 then fdiv r (of_int (sint (zmax_mm b))) 1000 else no_height) in
      if sint (resdiction_i b) > 0
      then do { a \<leftarrow> elem_at (pstRestriction m) (sint (resdiction_i b) - 1);
                Some (if height_limit a = RESTRICT_NO_FLY then no_height
                      else if height_limit a > z then height_limit a else h) }
      else Some h)"

fun scan_blocks :: "(rat \<Rightarrow> rat) \<Rightarrow> map_state \<Rightarrow> rat \<Rightarrow> rat \<Rightarrow> (int \<times> int) list \<Rightarrow> int option" where
  "scan_blocks r m z zmin [] = Some RET_OVER"
| "scan_blocks r m z zmin ((yi, xi) # cells) =
     do { b \<leftarrow> elem_at (pstBlock m) (yi * block_count_x (gMap m) + xi);
          h \<leftarrow> blockz r m z b;
          if h > zmin then Some RET_OK else scan_blocks r m z zmin cells }"

definition check_block_around ::
  "(rat \<Rightarrow> rat) \<Rightarrow> map_state \<Rightarrow> rat \<Rightarrow> rat \<Rightarrow> rat \<Rightarrow> rat \<Rightarrow> rat \<Rightarrow> int option" where
  "check_block_around r m x y z dis_xy dis_z =
     (let g = gMap m; zmin = r (z - dis_z) in
      do { xi_min \<leftarrow> S32_div r (r (r (x - dis_xy) - px (block_min g))) (px (block_size g));
           yi_min \<leftarrow> S32_div r (r (r (y - dis_xy) - py (block_min g))) (py (block_size g));
           xi_max \<leftarrow> S32_div r (r (r (x + dis_xy) - px (block_min g))) (px (block_size g));
           yi_max \<leftarrow> S32_div r (r (r (y + dis_xy) - py (block_min g))) (py (block_size g));
           if xi_min \<ge> block_count_x g \<or> xi_max < 0 \<or> yi_min \<ge> block_count_y g \<or> yi_max < 0 then Some RET_ERR
           else
             let xi_min = (if xi_min < 0 then 0 else xi_min);
                 yi_min = (if yi_min < 0 then 0 else yi_min);
                 xi_max = (if xi_max > block_count_x g - 1 then block_count_x g - 1 else xi_max);
                 yi_max = (if yi_max > block_count_y g - 1 then block_count_y g - 1 else yi_max)
             in scan_blocks r m z zmin (block_cells yi_min yi_max xi_min xi_max) })"

text \<open>The loop along a line in the direction \<open>(c, s)\<close>; its result and \<open>safe_dis\<close>.\<close>

partial_function (option) line_loop ::
  "(rat \<Rightarrow> rat) \<Rightarrow> map_state \<Rightarrow> rat \<Rightarrow> rat \<Rightarrow> rat \<Rightarrow> rat \<Rightarrow> rat \<Rightarrow> rat \<Rightarrow> rat \<Rightarrow> rat \<Rightarrow> rat \<Rightarrow> (int \<times> rat) option" where
  "line_loop r m c s x y z len dis_xy dis_z curLen =
     (if curLen \<le> len
      then (case check_block_around r m (r (x + r (curLen * c))) (r (y + r (curLen * s))) z dis_xy dis_z of
              None \<Rightarrow> None
            | Some ret \<Rightarrow>
                if ret \<noteq> RET_OVER then Some (ret, if curLen < dis_xy then 0 else r (curLen - dis_xy))
                else line_loop r m c s x y z len dis_xy dis_z (r (curLen + dis_xy)))
      else Some (RET_OVER, curLen))"

declare line_loop.simps [code]

definition check_block_around_line ::
  "(rat \<Rightarrow> rat) \<Rightarrow> (rat \<Rightarrow> rat) \<Rightarrow> (rat \<Rightarrow> rat) \<Rightarrow> map_state \<Rightarrow> rat \<Rightarrow> rat \<Rightarrow> rat \<Rightarrow> rat \<Rightarrow> rat \<Rightarrow> rat \<Rightarrow> rat \<Rightarrow> (int \<times> rat) option" where
  "check_block_around_line r cosine sine m x y z angle len dis_xy dis_z =
     (let theta = fdiv r (r (angle * PAI)) 180 in
      line_loop r m (cosine theta) (sine theta) x y z len dis_xy dis_z (if len < dis_xy then len else dis_xy))"

definition check_block_around_lonlat ::
  "(rat \<Rightarrow> rat) \<Rightarrow> (rat \<Rightarrow> rat \<Rightarrow> rat \<times> rat) \<Rightarrow> map_state \<Rightarrow> rat \<Rightarrow> rat \<Rightarrow> rat \<Rightarrow> rat \<Rightarrow> rat \<Rightarrow> int option" where
  "check_block_around_lonlat r WGS842UTM m lat lon z dis_xy dis_z =
     (case WGS842UTM lat lon of (utm_east, utm_north) \<Rightarrow> check_block_around r m utm_east utm_north z dis_xy dis_z)"

definition check_block_around_line_lonlat ::
  "(rat \<Rightarrow> rat) \<Rightarrow> (rat \<Rightarrow> rat) \<Rightarrow> (rat \<Rightarrow> rat) \<Rightarrow> (rat \<Rightarrow> rat \<Rightarrow> rat \<times> rat) \<Rightarrow> map_state \<Rightarrow>
   rat \<Rightarrow> rat \<Rightarrow> rat \<Rightarrow> rat \<Rightarrow> rat \<Rightarrow> rat \<Rightarrow> rat \<Rightarrow> (int \<times> rat) option" where
  "check_block_around_line_lonlat r cosine sine WGS842UTM m lat lon z angle len dis_xy dis_z =
     (case WGS842UTM lat lon of (utm_east, utm_north) \<Rightarrow>
        check_block_around_line r cosine sine m utm_east utm_north z angle len dis_xy dis_z)"

text \<open>\<^verbatim>\<open>check_fly_resdiction\<close> has no \<^verbatim>\<open>return\<close> behind its loop: what it returns then is not defined.\<close>

fun fly_resdiction :: "(rat \<Rightarrow> rat) \<Rightarrow> map_state \<Rightarrow> rat \<Rightarrow> rat \<Rightarrow> rat \<Rightarrow> nat list \<Rightarrow> int option" where
  "fly_resdiction r m x y z [] = None"
| "fly_resdiction r m x y z (i # is) =
     do { a \<leftarrow> elem_at (pstRestriction m) (int i);
          if height_limit a = -1 \<or> height_limit a > 0 \<and> height_limit a \<le> z
          then do { t \<leftarrow> check_in_area r m x y a; if t then Some RET_OK else fly_resdiction r m x y z is }
          else fly_resdiction r m x y z is }"

definition check_fly_resdiction :: "(rat \<Rightarrow> rat) \<Rightarrow> map_state \<Rightarrow> rat \<Rightarrow> rat \<Rightarrow> rat \<Rightarrow> int option" where
  "check_fly_resdiction r m x y z = fly_resdiction r m x y z [0..<resdictionCount (gMap m)]"

definition get_block_min_z :: "map_state \<Rightarrow> rat" where "get_block_min_z m = pz (block_min (gMap m))"

text \<open>The result and the height, which is only written on success.\<close>

definition get_block_z :: "(rat \<Rightarrow> rat) \<Rightarrow> map_state \<Rightarrow> rat \<Rightarrow> rat \<Rightarrow> rat \<Rightarrow> (int \<times> rat) option" where
  "get_block_z r m x y block_z =
     (let g = gMap m in
      do { xi \<leftarrow> S32_div r (r (x - px (block_min g))) (px (block_size g));
           yi \<leftarrow> S32_div r (r (y - py (block_min g))) (py (block_size g));
           if xi < 0 \<or> yi < 0 \<or> xi \<ge> block_count_x g \<or> yi \<ge> block_count_y g then Some (RET_ERR, block_z)
           else do { b \<leftarrow> elem_at (pstBlock m) (yi * block_count_x g + xi);
                     Some (RET_OK, fdiv r (of_int (sint (zmax_mm b))) 1000) } })"

definition get_block_min_z_lonlat ::
  "(rat \<Rightarrow> rat) \<Rightarrow> (rat \<Rightarrow> rat \<Rightarrow> rat \<times> rat) \<Rightarrow> map_state \<Rightarrow> rat \<Rightarrow> rat \<Rightarrow> (int \<times> rat) option" where
  "get_block_min_z_lonlat r WGS842UTM m lat lon =
     (case WGS842UTM lat lon of (utm_east, utm_north) \<Rightarrow> get_block_z r m utm_east utm_north 0)"

section \<open>The cell of a position\<close>

definition cutoff :: "rat \<Rightarrow> int" where "cutoff v = (if v \<ge> 0 then \<lfloor>v\<rfloor> else \<lceil>v\<rceil>)"

lemma S32_of_cutoff: "\<bar>v\<bar> < 2 ^ 31 \<Longrightarrow> S32_of v = Some (cutoff v)"
  by (auto simp: S32_of_def cutoff_def Let_def floor_less_iff le_ceiling_iff)

lemma cutoff_upper: "\<lbrakk>0 \<le> p; p \<le> a\<rbrakk> \<Longrightarrow> \<lfloor>p\<rfloor> \<le> cutoff a"
  by (auto simp: cutoff_def intro: floor_mono)

lemma cutoff_lower:
  assumes "0 \<le> p" "a \<le> p"
  shows "cutoff a \<le> \<lfloor>p\<rfloor>"
proof (cases "a \<ge> 0")
  case True
  then show ?thesis using assms(2) by (simp add: cutoff_def floor_mono)
next
  case False
  then have "cutoff a = \<lceil>a\<rceil>" "\<lceil>a\<rceil> \<le> 0" by (simp_all add: cutoff_def ceiling_le_iff)
  moreover have "0 \<le> \<lfloor>p\<rfloor>" using assms(1) by simp
  ultimately show ?thesis by linarith
qed

text \<open>Positions in units of blocks from the corner of the map; column and row.\<close>

definition gx :: "map_state \<Rightarrow> rat \<Rightarrow> rat" where
  "gx m x = (x - px (block_min (gMap m))) / px (block_size (gMap m))"

definition gy :: "map_state \<Rightarrow> rat \<Rightarrow> rat" where
  "gy m y = (y - py (block_min (gMap m))) / py (block_size (gMap m))"

abbreviation "cols m \<equiv> block_count_x (gMap m)"
abbreviation "rows m \<equiv> block_count_y (gMap m)"

definition in_map :: "map_state \<Rightarrow> rat \<Rightarrow> rat \<Rightarrow> bool" where
  "in_map m x y \<longleftrightarrow> 0 \<le> gx m x \<and> gx m x < of_int (cols m) \<and> 0 \<le> gy m y \<and> gy m y < of_int (rows m)"

definition grid :: "map_state \<Rightarrow> int \<Rightarrow> int \<Rightarrow> PF_MAP_BLOCK_ST" where
  "grid m j i = pstBlock m ! nat (j * cols m + i)"

definition cell_at :: "map_state \<Rightarrow> rat \<Rightarrow> rat \<Rightarrow> PF_MAP_BLOCK_ST" where
  "cell_at m x y = grid m \<lfloor>gy m y\<rfloor> \<lfloor>gx m x\<rfloor>"

text \<open>
  A block passes the check at height \<open>z\<close> with the vertical distance \<open>d\<close>, the way \<^verbatim>\<open>check_block_around\<close> judges it:
  the height of its terrain is known and low enough, and the restricted area entered for it is no prohibition
  and has a \<open>height_limit\<close> of at most \<open>z\<close>.  The check takes a positive \<open>height_limit\<close> for the height of an obstacle.
  The header calls it a flight height limit, and \<^verbatim>\<open>check_fly_resdiction\<close> forbids the heights from it on; so passing
  this check does not mean that the restrictions, as they are documented, allow the height.
\<close>

definition block_passes :: "map_state \<Rightarrow> rat \<Rightarrow> rat \<Rightarrow> PF_MAP_BLOCK_ST \<Rightarrow> bool" where
  "block_passes m z d b \<longleftrightarrow> 0 < sint (z_i b) \<and> of_int (sint (zmax_mm b)) / 1000 \<le> z - d
     \<and> (0 < sint (resdiction_i b) \<longrightarrow>
          (let a = pstRestriction m ! nat (sint (resdiction_i b) - 1) in
             height_limit a \<noteq> RESTRICT_NO_FLY \<and> height_limit a \<le> z))"

definition map_ok :: "map_state \<Rightarrow> bool" where
  "map_ok m \<longleftrightarrow> 0 < px (block_size (gMap m)) \<and> 0 < py (block_size (gMap m)) \<and> 0 \<le> cols m \<and> 0 \<le> rows m
     \<and> int (length (pstBlock m)) = cols m * rows m
     \<and> (\<forall>b \<in> set (pstBlock m). sint (resdiction_i b) \<le> int (length (pstRestriction m)))"

lemma grid_index:
  assumes "map_ok m" "0 \<le> j" "j < rows m" "0 \<le> i" "i < cols m"
  shows "0 \<le> j * cols m + i" "j * cols m + i < int (length (pstBlock m))"
    "elem_at (pstBlock m) (j * cols m + i) = Some (grid m j i)" "grid m j i \<in> set (pstBlock m)"
proof -
  show n: "0 \<le> j * cols m + i" using assms by (simp add: map_ok_def)
  have "j * cols m + i < (j + 1) * cols m" using assms(5) by (simp add: algebra_simps)
  also have "\<dots> \<le> rows m * cols m" using assms(1,3) by (intro mult_right_mono) (simp_all add: map_ok_def)
  finally show l: "j * cols m + i < int (length (pstBlock m))" using assms(1) by (simp add: map_ok_def mult.commute)
  show "elem_at (pstBlock m) (j * cols m + i) = Some (grid m j i)" using n l by (simp add: elem_at_def grid_def)
  show "grid m j i \<in> set (pstBlock m)" using n l by (simp add: grid_def)
qed

lemma blockz_total:
  assumes "map_ok m" "b \<in> set (pstBlock m)"
  obtains h where "blockz r m z b = Some h"
proof -
  have "sint (resdiction_i b) \<le> int (length (pstRestriction m))" using assms by (simp add: map_ok_def)
  then have "\<exists>h. blockz r m z b = Some h" by (auto simp: blockz_def elem_at_def Let_def)
  then show thesis using that by blast
qed

lemma blockz_passes:
  assumes "blockz exact m z b = Some h" "0 \<le> d" "z - d < no_height"
  shows "h \<le> z - d \<longleftrightarrow> block_passes m z d b"
  using assms by (auto simp: blockz_def elem_at_def Let_def block_passes_def fdiv_def exact_def split: if_splits)

lemma scan_blocks_outcome:
  assumes "map_ok m" "0 \<le> d" "z - d < no_height"
    "\<forall>(j, i) \<in> set ps. 0 \<le> j \<and> j < rows m \<and> 0 \<le> i \<and> i < cols m"
  shows "scan_blocks exact m z (z - d) ps =
    Some (if \<exists>(j, i) \<in> set ps. \<not> block_passes m z d (grid m j i) then RET_OK else RET_OVER)"
  using assms(4)
proof (induction ps)
  case (Cons p ps)
  obtain j i where p: "p = (j, i)" by (cases p)
  note g = grid_index[OF assms(1), of j i]
  have b: "0 \<le> j" "j < rows m" "0 \<le> i" "i < cols m" using Cons.prems p by auto
  obtain h where h: "blockz exact m z (grid m j i) = Some h" by (rule blockz_total[OF assms(1) g(4)[OF b]])
  have "h \<le> z - d \<longleftrightarrow> block_passes m z d (grid m j i)" by (rule blockz_passes[OF h assms(2,3)])
  then show ?case using Cons p h g(3)[OF b] by auto
qed simp

lemma set_block_cells: "set (block_cells j1 j2 i1 i2) = {j1..j2} \<times> {i1..i2}"
  by (auto simp: block_cells_def)

section \<open>The check around a position\<close>

text \<open>Positions whose indices fit into \<^verbatim>\<open>S32\<close>.\<close>

definition near_map :: "map_state \<Rightarrow> rat \<Rightarrow> rat \<Rightarrow> rat \<Rightarrow> bool" where
  "near_map m x y d \<longleftrightarrow> \<bar>x - px (block_min (gMap m))\<bar> + d < 2 ^ 31 * px (block_size (gMap m))
     \<and> \<bar>y - py (block_min (gMap m))\<bar> + d < 2 ^ 31 * py (block_size (gMap m))"

lemma S32_div_cutoff:
  assumes "0 < s" "\<bar>v\<bar> < 2 ^ 31 * s"
  shows "S32_div exact v s = Some (cutoff (v / s))"
proof -
  have "\<bar>v / s\<bar> < 2 ^ 31" using assms by (simp add: abs_divide pos_divide_less_eq)
  then show ?thesis using assms(1) by (simp add: S32_div_def fdiv_def exact_def S32_of_cutoff)
qed

lemma near_map_div:
  assumes "map_ok m" "near_map m x y d" "\<bar>e\<bar> \<le> d"
  shows "S32_div exact (x + e - px (block_min (gMap m))) (px (block_size (gMap m))) = Some (cutoff (gx m (x + e)))"
    "S32_div exact (y + e - py (block_min (gMap m))) (py (block_size (gMap m))) = Some (cutoff (gy m (y + e)))"
proof -
  have "\<bar>x + e - px (block_min (gMap m))\<bar> \<le> \<bar>x - px (block_min (gMap m))\<bar> + d"
    "\<bar>y + e - py (block_min (gMap m))\<bar> \<le> \<bar>y - py (block_min (gMap m))\<bar> + d" using assms(3) by linarith+
  then have b: "\<bar>x + e - px (block_min (gMap m))\<bar> < 2 ^ 31 * px (block_size (gMap m))"
    "\<bar>y + e - py (block_min (gMap m))\<bar> < 2 ^ 31 * py (block_size (gMap m))"
    using assms(2) unfolding near_map_def by linarith+
  have "0 < px (block_size (gMap m))" "0 < py (block_size (gMap m))" using assms(1) by (simp_all add: map_ok_def)
  then show "S32_div exact (x + e - px (block_min (gMap m))) (px (block_size (gMap m))) = Some (cutoff (gx m (x + e)))"
    "S32_div exact (y + e - py (block_min (gMap m))) (py (block_size (gMap m))) = Some (cutoff (gy m (y + e)))"
    using S32_div_cutoff b by (simp_all add: gx_def gy_def)
qed

text \<open>The indices that are scanned around a position.\<close>

definition scan_range :: "int \<Rightarrow> rat \<Rightarrow> rat \<Rightarrow> int set" where
  "scan_range n a b = {(if cutoff a < 0 then 0 else cutoff a)..(if cutoff b > n - 1 then n - 1 else cutoff b)}"

definition misses :: "int \<Rightarrow> rat \<Rightarrow> rat \<Rightarrow> bool" where
  "misses n a b \<longleftrightarrow> cutoff a \<ge> n \<or> cutoff b < 0"

lemma scan_range_covers:
  assumes "0 \<le> p" "p < of_int n" "a \<le> p" "p \<le> b"
  shows "\<lfloor>p\<rfloor> \<in> scan_range n a b" "\<not> misses n a b"
proof -
  define f where "f = \<lfloor>p\<rfloor>"
  have "0 \<le> f" "f < n" "cutoff a \<le> f" "f \<le> cutoff b"
    using assms cutoff_lower[OF assms(1,3)] cutoff_upper[OF assms(1,4)] by (simp_all add: f_def floor_less_iff)
  then show "\<lfloor>p\<rfloor> \<in> scan_range n a b" "\<not> misses n a b"
    unfolding f_def[symmetric] by (auto simp: scan_range_def misses_def)
qed

lemma check_ranges:
  assumes "map_ok m" "near_map m x y d" "0 \<le> d" "0 \<le> dz" "z - dz < no_height"
  shows "check_block_around exact m x y z d dz = Some
    (if misses (cols m) (gx m (x - d)) (gx m (x + d)) \<or> misses (rows m) (gy m (y - d)) (gy m (y + d)) then RET_ERR
     else if \<exists>j \<in> scan_range (rows m) (gy m (y - d)) (gy m (y + d)). \<exists>i \<in> scan_range (cols m) (gx m (x - d)) (gx m (x + d)).
               \<not> block_passes m z dz (grid m j i) then RET_OK else RET_OVER)"
proof -
  note c = near_map_div[OF assms(1,2), of "- d"] near_map_div[OF assms(1,2), of d]
  let ?jl = "if cutoff (gy m (y - d)) < 0 then 0 else cutoff (gy m (y - d))"
  let ?jh = "if cutoff (gy m (y + d)) > rows m - 1 then rows m - 1 else cutoff (gy m (y + d))"
  let ?il = "if cutoff (gx m (x - d)) < 0 then 0 else cutoff (gx m (x - d))"
  let ?ih = "if cutoff (gx m (x + d)) > cols m - 1 then cols m - 1 else cutoff (gx m (x + d))"
  have s: "set (block_cells ?jl ?jh ?il ?ih) =
      scan_range (rows m) (gy m (y - d)) (gy m (y + d)) \<times> scan_range (cols m) (gx m (x - d)) (gx m (x + d))"
    by (simp only: set_block_cells scan_range_def)
  have "\<forall>(j, i) \<in> set (block_cells ?jl ?jh ?il ?ih). 0 \<le> j \<and> j < rows m \<and> 0 \<le> i \<and> i < cols m"
    unfolding s by (auto simp: scan_range_def split: if_splits)
  from scan_blocks_outcome[OF assms(1,4,5) this]
  have sc: "scan_blocks exact m z (z - dz) (block_cells ?jl ?jh ?il ?ih) =
    Some (if \<exists>j \<in> scan_range (rows m) (gy m (y - d)) (gy m (y + d)). \<exists>i \<in> scan_range (cols m) (gx m (x - d)) (gx m (x + d)).
               \<not> block_passes m z dz (grid m j i) then RET_OK else RET_OVER)"
    unfolding s by (auto split: if_splits)
  have e: "exact v = v" for v by (simp add: exact_def)
  show ?thesis
    using c assms(3) sc unfolding check_block_around_def Let_def e misses_def by simp
qed

definition in_square :: "rat \<Rightarrow> rat \<Rightarrow> rat \<Rightarrow> rat \<Rightarrow> rat \<Rightarrow> bool" where
  "in_square x y d p q \<longleftrightarrow> \<bar>p - x\<bar> \<le> d \<and> \<bar>q - y\<bar> \<le> d"

lemma gx_mono: "\<lbrakk>map_ok m; a \<le> b\<rbrakk> \<Longrightarrow> gx m a \<le> gx m b"
  by (simp add: gx_def map_ok_def divide_right_mono)

lemma gy_mono: "\<lbrakk>map_ok m; a \<le> b\<rbrakk> \<Longrightarrow> gy m a \<le> gy m b"
  by (simp add: gy_def map_ok_def divide_right_mono)

lemma square_ranges:
  assumes "map_ok m" "in_square x y d p q" "in_map m p q"
  shows "\<lfloor>gx m p\<rfloor> \<in> scan_range (cols m) (gx m (x - d)) (gx m (x + d))" "\<not> misses (cols m) (gx m (x - d)) (gx m (x + d))"
    "\<lfloor>gy m q\<rfloor> \<in> scan_range (rows m) (gy m (y - d)) (gy m (y + d))" "\<not> misses (rows m) (gy m (y - d)) (gy m (y + d))"
proof -
  have "x - d \<le> p" "p \<le> x + d" "y - d \<le> q" "q \<le> y + d" using assms(2) unfolding in_square_def by linarith+
  then have "gx m (x - d) \<le> gx m p" "gx m p \<le> gx m (x + d)" "gy m (y - d) \<le> gy m q" "gy m q \<le> gy m (y + d)"
    using gx_mono[OF assms(1)] gy_mono[OF assms(1)] by blast+
  then show "\<lfloor>gx m p\<rfloor> \<in> scan_range (cols m) (gx m (x - d)) (gx m (x + d))" "\<not> misses (cols m) (gx m (x - d)) (gx m (x + d))"
    "\<lfloor>gy m q\<rfloor> \<in> scan_range (rows m) (gy m (y - d)) (gy m (y + d))" "\<not> misses (rows m) (gy m (y - d)) (gy m (y + d))"
    using assms(3) scan_range_covers unfolding in_map_def by blast+
qed

text \<open>What the check promises for the positions in the square.\<close>

lemma check_clear:
  assumes "map_ok m" "near_map m x y d" "0 \<le> d" "0 \<le> dz" "z - dz < no_height"
  obtains ret where "check_block_around exact m x y z d dz = Some ret" "ret \<in> {RET_ERR, RET_OVER, RET_OK}"
    "\<And>p q. \<lbrakk>ret = RET_OVER; in_square x y d p q; in_map m p q\<rbrakk> \<Longrightarrow> block_passes m z dz (cell_at m p q)"
    "\<And>p q. \<lbrakk>in_square x y d p q; in_map m p q\<rbrakk> \<Longrightarrow> ret \<noteq> RET_ERR"
proof -
  have n: "RET_ERR \<noteq> RET_OVER" "RET_ERR \<noteq> RET_OK" "RET_OK \<noteq> RET_OVER" by (simp_all add: RET_ERR_def RET_OVER_def RET_OK_def)
  note sp = square_ranges[OF assms(1), of x y d]
  show thesis
    by (rule that[OF check_ranges[OF assms]]) (use sp n in \<open>auto simp: cell_at_def split: if_splits\<close>)
qed

lemma cutoff_near: "of_int (cutoff v) < v + 1" "v - 1 < of_int (cutoff v)"
  unfolding cutoff_def by (cases "v \<ge> 0"; simp; linarith)+

lemma scan_range_near:
  assumes "i \<in> scan_range n a b" "\<not> misses n a b"
  shows "0 \<le> i" "i < n" "a - 1 < of_int i" "of_int i < b + 1"
proof -
  have i: "0 \<le> i" "i < n" "cutoff a \<le> i" "i \<le> cutoff b \<or> cutoff b < i \<and> i = 0"
    using assms by (auto simp: scan_range_def misses_def split: if_splits)
  then show "0 \<le> i" "i < n" by auto
  have "of_int (cutoff a) \<le> (of_int i :: rat)" using i(3) by simp
  then show "a - 1 < of_int i" using cutoff_near(2)[of a] by linarith
  have "i \<le> cutoff b" using i assms(2) by (auto simp: misses_def)
  then have "of_int i \<le> (of_int (cutoff b) :: rat)" by simp
  then show "of_int i < b + 1" using cutoff_near(1)[of b] by linarith
qed

text \<open>A warning has a reason within the square, widened by one block.\<close>

definition alarm :: "map_state \<Rightarrow> rat \<Rightarrow> rat \<Rightarrow> rat \<Rightarrow> rat \<Rightarrow> rat \<Rightarrow> bool" where
  "alarm m x y z d dz \<longleftrightarrow> (\<exists>p q. in_map m p q \<and> \<not> block_passes m z dz (cell_at m p q)
     \<and> \<bar>p - x\<bar> < d + px (block_size (gMap m)) \<and> \<bar>q - y\<bar> < d + py (block_size (gMap m)))"

lemma near_corner:
  assumes "0 < (s :: rat)" "(x - d - o0) / s - 1 < of_int i" "of_int i < (x + d - o0) / s + 1"
  shows "\<bar>o0 + of_int i * s - x\<bar> < d + s"
proof -
  have "(x - d - o0) / s * s - s < of_int i * s" "of_int i * s < (x + d - o0) / s * s + s"
    using mult_strict_right_mono[OF assms(2,1)] mult_strict_right_mono[OF assms(3,1)] by (simp_all add: algebra_simps)
  then show ?thesis using assms(1) by simp
qed

lemma check_alarm:
  assumes "map_ok m" "near_map m x y d" "0 \<le> d" "0 \<le> dz" "z - dz < no_height"
    "check_block_around exact m x y z d dz = Some RET_OK"
  shows "alarm m x y z d dz"
proof -
  have n: "RET_ERR \<noteq> RET_OK" "RET_OVER \<noteq> RET_OK" by (simp_all add: RET_ERR_def RET_OVER_def RET_OK_def)
  let ?a = "gx m (x - d)" and ?b = "gx m (x + d)" and ?c = "gy m (y - d)" and ?e = "gy m (y + d)"
  have mi: "\<not> misses (cols m) ?a ?b" "\<not> misses (rows m) ?c ?e"
    using check_ranges[OF assms(1-5)] assms(6) n by (auto split: if_splits)
  obtain i j where c: "j \<in> scan_range (rows m) ?c ?e" "i \<in> scan_range (cols m) ?a ?b" "\<not> block_passes m z dz (grid m j i)"
    using check_ranges[OF assms(1-5)] assms(6) n by (auto split: if_splits)
  note i = scan_range_near[OF c(2) mi(1)] and j = scan_range_near[OF c(1) mi(2)]
  have s: "0 < px (block_size (gMap m))" "0 < py (block_size (gMap m))" using assms(1) by (simp_all add: map_ok_def)
  define p where "p = px (block_min (gMap m)) + of_int i * px (block_size (gMap m))"
  define q where "q = py (block_min (gMap m)) + of_int j * py (block_size (gMap m))"
  have g: "gx m p = of_int i" "gy m q = of_int j" using s by (simp_all add: p_def q_def gx_def gy_def)
  then have "in_map m p q" using i(1,2) j(1,2) by (simp add: in_map_def)
  moreover have "\<not> block_passes m z dz (cell_at m p q)" using c(3) g by (simp add: cell_at_def)
  moreover have "\<bar>p - x\<bar> < d + px (block_size (gMap m))" "\<bar>q - y\<bar> < d + py (block_size (gMap m))"
    using near_corner[OF s(1)] near_corner[OF s(2)] i(3,4) j(3,4) unfolding p_def q_def gx_def gy_def by blast+
  ultimately show ?thesis unfolding alarm_def by blast
qed

end
