(* ===== verification/Obstacle_Line.thy ===== *)
theory Obstacle_Line
  imports Obstacle_Map
begin

section \<open>The check along a line\<close>

text \<open>The block below a point of the line passes the check, or the point lies outside the map.\<close>

definition line_passes :: "map_state \<Rightarrow> rat \<Rightarrow> rat \<Rightarrow> rat \<Rightarrow> rat \<Rightarrow> rat \<Rightarrow> rat \<Rightarrow> rat \<Rightarrow> bool" where
  "line_passes m c s x y z dz t \<longleftrightarrow>
     (in_map m (x + t * c) (y + t * s) \<longrightarrow> block_passes m z dz (cell_at m (x + t * c) (y + t * s)))"

definition line_alarm :: "map_state \<Rightarrow> rat \<Rightarrow> rat \<Rightarrow> rat \<Rightarrow> rat \<Rightarrow> rat \<Rightarrow> rat \<Rightarrow> rat \<Rightarrow> rat \<Rightarrow> bool" where
  "line_alarm m c s x y z len d dz \<longleftrightarrow> (\<exists>t. 0 \<le> t \<and> t \<le> len \<and> alarm m (x + t * c) (y + t * s) z d dz)"

lemma step_abs: "\<bar>c\<bar> \<le> 1 \<Longrightarrow> \<bar>u * c\<bar> \<le> \<bar>u :: rat\<bar>"
  by (simp add: abs_mult mult_left_le)

lemma abs_shift: "\<lbrakk>\<bar>a - b\<bar> + (l + d) < w; \<bar>e\<bar> \<le> l\<rbrakk> \<Longrightarrow> \<bar>a + e - b\<bar> + d < (w :: rat)"
  by linarith

lemma near_map_shift:
  assumes "near_map m x y (l + d)" "\<bar>e\<bar> \<le> l" "\<bar>f\<bar> \<le> l"
  shows "near_map m (x + e) (y + f) d"
proof -
  have "\<bar>x - px (block_min (gMap m))\<bar> + (l + d) < 2 ^ 31 * px (block_size (gMap m))"
    "\<bar>y - py (block_min (gMap m))\<bar> + (l + d) < 2 ^ 31 * py (block_size (gMap m))"
    using assms(1) unfolding near_map_def by simp_all
  from abs_shift[OF this(1) assms(2)] abs_shift[OF this(2) assms(3)] show ?thesis
    unfolding near_map_def by (rule conjI)
qed

lemma in_square_line:
  assumes "\<bar>c\<bar> \<le> 1" "\<bar>s\<bar> \<le> 1" "\<bar>t - u\<bar> \<le> d"
  shows "in_square (x + u * c) (y + u * s) d (x + t * c) (y + t * s)"
proof -
  have "\<bar>(t - u) * c\<bar> \<le> d" "\<bar>(t - u) * s\<bar> \<le> d"
    using order_trans[OF step_abs[OF assms(1)] assms(3)] order_trans[OF step_abs[OF assms(2)] assms(3)] by blast+
  moreover have "x + t * c - (x + u * c) = (t - u) * c" "y + t * s - (y + u * s) = (t - u) * s" by (simp_all add: left_diff_distrib)
  ultimately show ?thesis unfolding in_square_def by simp
qed

lemma line_near:
  assumes "near_map m x y (len + d)" "\<bar>c\<bar> \<le> 1" "\<bar>s\<bar> \<le> 1" "0 \<le> u" "u \<le> len"
  shows "near_map m (x + u * c) (y + u * s) d"
proof (rule near_map_shift[OF assms(1)])
  have "\<bar>u\<bar> \<le> len" using assms(4,5) by simp
  then show "\<bar>u * c\<bar> \<le> len" "\<bar>u * s\<bar> \<le> len"
    using order_trans[OF step_abs[OF assms(2)]] order_trans[OF step_abs[OF assms(3)]] by blast+
qed

lemma line_sample:
  assumes "map_ok m" "near_map m x y (len + d)" "0 \<le> d" "0 \<le> dz" "z - dz < no_height" "\<bar>c\<bar> \<le> 1" "\<bar>s\<bar> \<le> 1" "0 \<le> u" "u \<le> len"
  obtains ret where "check_block_around exact m (x + u * c) (y + u * s) z d dz = Some ret" "ret \<in> {RET_ERR, RET_OVER, RET_OK}"
    "\<And>t. \<lbrakk>ret = RET_OVER; \<bar>t - u\<bar> \<le> d\<rbrakk> \<Longrightarrow> line_passes m c s x y z dz t" "ret = RET_OK \<Longrightarrow> line_alarm m c s x y z len d dz"
proof (rule check_clear[OF assms(1) line_near[OF assms(2,6-9)] assms(3-5)], goal_cases)
  case r: (1 ret)
  show thesis
  proof (rule r(1)[OF r(2,3)])
    show "line_passes m c s x y z dz t" if "ret = RET_OVER" "\<bar>t - u\<bar> \<le> d" for t
      using r(4)[OF that(1) in_square_line[OF assms(6,7) that(2)]] by (simp add: line_passes_def)
    show "line_alarm m c s x y z len d dz" if "ret = RET_OK"
      using check_alarm[OF assms(1) line_near[OF assms(2,6-9)] assms(3-5)] r(2) that assms(8,9) unfolding line_alarm_def by blast
  qed
qed

lemma line_loop_step:
  assumes "check_block_around exact m (x + u * c) (y + u * s) z d dz = Some ret" "u \<le> len"
  shows "line_loop exact m c s x y z len d dz u =
    (if ret \<noteq> RET_OVER then Some (ret, if u < d then 0 else u - d) else line_loop exact m c s x y z len d dz (u + d))"
proof -
  have "check_block_around exact m (exact (x + exact (u * c))) (exact (y + exact (u * s))) z d dz = Some ret"
    using assms(1) by (simp add: exact_def)
  moreover have "exact (u + d) = u + d" "exact (u - d) = u - d" by (simp_all add: exact_def)
  ultimately show ?thesis using assms(2) by (subst line_loop.simps) simp
qed

lemma line_loop_outcome:
  assumes "map_ok m" "near_map m x y (len + d)" "0 < d" "0 \<le> dz" "z - dz < no_height" "\<bar>c\<bar> \<le> 1" "\<bar>s\<bar> \<le> 1"
    and "len < u + of_nat n * d" "d \<le> u" "\<And>t. \<lbrakk>0 \<le> t; t \<le> len; t \<le> u\<rbrakk> \<Longrightarrow> line_passes m c s x y z dz t"
  shows "\<exists>ret safe. line_loop exact m c s x y z len d dz u = Some (ret, safe) \<and> ret \<in> {RET_ERR, RET_OVER, RET_OK}
    \<and> (ret = RET_OVER \<longrightarrow> (\<forall>t. 0 \<le> t \<and> t \<le> len \<longrightarrow> line_passes m c s x y z dz t))
    \<and> (ret \<noteq> RET_OVER \<longrightarrow> (\<forall>t. 0 \<le> t \<and> t \<le> safe + d \<longrightarrow> line_passes m c s x y z dz t) \<and> 0 \<le> safe \<and> safe + d \<le> len)
    \<and> (ret = RET_OK \<longrightarrow> line_alarm m c s x y z len d dz)"
  using assms(8-10)
proof (induction n arbitrary: u)
  case 0
  have "RET_OVER \<noteq> RET_OK" by (simp add: RET_OVER_def RET_OK_def)
  then show ?case using 0 by (subst line_loop.simps) auto
next
  case (Suc n)
  show ?case
  proof (cases "u \<le> len")
    case False
    have "RET_OVER \<noteq> RET_OK" by (simp add: RET_OVER_def RET_OK_def)
    then show ?thesis using False Suc.prems by (subst line_loop.simps) auto
  next
    case True
    have u: "0 \<le> u" "0 \<le> d" using assms(3) Suc.prems(2) by simp_all
    obtain ret where r: "check_block_around exact m (x + u * c) (y + u * s) z d dz = Some ret" "ret \<in> {RET_ERR, RET_OVER, RET_OK}"
      "\<And>t. \<lbrakk>ret = RET_OVER; \<bar>t - u\<bar> \<le> d\<rbrakk> \<Longrightarrow> line_passes m c s x y z dz t" "ret = RET_OK \<Longrightarrow> line_alarm m c s x y z len d dz"
      by (rule line_sample[OF assms(1,2) u(2) assms(4-7) u(1) True]) blast
    have step: "line_loop exact m c s x y z len d dz u =
        (if ret \<noteq> RET_OVER then Some (ret, if u < d then 0 else u - d) else line_loop exact m c s x y z len d dz (u + d))"
      by (rule line_loop_step[OF r(1) True])
    show ?thesis
    proof (cases "ret = RET_OVER")
      case False
      then have "line_loop exact m c s x y z len d dz u = Some (ret, u - d)" using step Suc.prems(2) by simp
      then show ?thesis using False r(2,4) True Suc.prems(2,3) by (intro exI[of _ ret] exI[of _ "u - d"]) auto
    next
      case over: True
      have "line_passes m c s x y z dz t" if "0 \<le> t" "t \<le> len" "t \<le> u + d" for t
        using r(3)[OF over, of t] Suc.prems(3)[of t] that u by (cases "t \<le> u") auto
      moreover have "len < u + d + of_nat n * d" using Suc.prems(1) by (simp add: algebra_simps)
      moreover have "line_loop exact m c s x y z len d dz u = line_loop exact m c s x y z len d dz (u + d)"
        using step over by simp
      moreover have "d \<le> u + d" using u by simp
      ultimately show ?thesis using Suc.IH[of "u + d"] by simp
    qed
  qed
qed

definition line_angle :: "rat \<Rightarrow> rat" where "line_angle angle = angle * PAI / 180"

lemma line_outcome:
  assumes "map_ok m" "near_map m x y (len + d)" "0 \<le> len" "0 < d" "0 \<le> dz" "z - dz < no_height"
    "\<bar>cosine (line_angle angle)\<bar> \<le> 1" "\<bar>sine (line_angle angle)\<bar> \<le> 1"
  shows "\<exists>ret safe. check_block_around_line exact cosine sine m x y z angle len d dz = Some (ret, safe)
    \<and> ret \<in> {RET_ERR, RET_OVER, RET_OK}
    \<and> (ret = RET_OVER \<longrightarrow> (\<forall>t. 0 \<le> t \<and> t \<le> len \<longrightarrow> line_passes m (cosine (line_angle angle)) (sine (line_angle angle)) x y z dz t))
    \<and> (ret \<noteq> RET_OVER \<longrightarrow> 0 \<le> safe \<and> safe \<le> len \<and>
         (0 < safe \<longrightarrow> (\<forall>t. 0 \<le> t \<and> t \<le> safe + d \<longrightarrow> line_passes m (cosine (line_angle angle)) (sine (line_angle angle)) x y z dz t)))
    \<and> (ret = RET_OK \<longrightarrow> line_alarm m (cosine (line_angle angle)) (sine (line_angle angle)) x y z len d dz)"
proof -
  define c where "c = cosine (line_angle angle)"
  define s where "s = sine (line_angle angle)"
  define u where "u = (if len < d then len else d)"
  have u: "0 \<le> u" "u \<le> len" "u \<le> d" "0 \<le> d" using assms(3,4) by (auto simp: u_def)
  note b = assms(7,8)[folded c_def s_def]
  have eq: "check_block_around_line exact cosine sine m x y z angle len d dz = line_loop exact m c s x y z len d dz u"
    by (simp add: check_block_around_line_def Let_def u_def c_def s_def line_angle_def fdiv_def exact_def)
  show ?thesis unfolding c_def[symmetric] s_def[symmetric] eq
  proof (rule line_sample[OF assms(1,2) u(4) assms(5,6) b u(1,2)], goal_cases)
    case r: (1 ret)
    note step = line_loop_step[OF r(1) u(2)]
    show ?case
    proof (cases "ret = RET_OVER")
      case False
      then have "line_loop exact m c s x y z len d dz u = Some (ret, 0)" using step u(3) by auto
      then show ?thesis using False r(2,4) assms(3) by simp
    next
      case over: True
      obtain n where n: "len < of_nat n * d" using assms(4) ex_less_of_nat_mult by blast
      have "len < u + d + of_nat n * d" "d \<le> u + d" using n u assms(4) by linarith+
      moreover have "line_passes m c s x y z dz t" if "0 \<le> t" "t \<le> len" "t \<le> u + d" for t
        using that u(1,3) by (intro r(3)[OF over]) linarith
      ultimately obtain ret' safe where w: "line_loop exact m c s x y z len d dz (u + d) = Some (ret', safe)" "ret' \<in> {RET_ERR, RET_OVER, RET_OK}"
        "ret' = RET_OVER \<longrightarrow> (\<forall>t. 0 \<le> t \<and> t \<le> len \<longrightarrow> line_passes m c s x y z dz t)"
        "ret' \<noteq> RET_OVER \<longrightarrow> (\<forall>t. 0 \<le> t \<and> t \<le> safe + d \<longrightarrow> line_passes m c s x y z dz t) \<and> 0 \<le> safe \<and> safe + d \<le> len"
        "ret' = RET_OK \<longrightarrow> line_alarm m c s x y z len d dz"
        using line_loop_outcome[OF assms(1,2,4,5,6) b, of "u + d" n] by blast
      have "ret' \<noteq> RET_OVER \<longrightarrow> safe \<le> len" using w(4) u(4) by linarith
      then show ?thesis using w step over by simp
    qed
  qed
qed

section \<open>No distance\<close>

text \<open>With a horizontal distance of zero the loop does not move on: it ends only when its first check finds something.\<close>

lemma line_loop_stuck:
  assumes "line_loop r m c s x y z len d dz u = Some res"
  shows "\<not> (d = 0 \<and> u \<le> len \<and> r = exact \<and> check_block_around exact m (x + u * c) (y + u * s) z 0 dz = Some RET_OVER)"
proof (rule line_loop.raw_induct[where xa = "((((((((((r, m), c), s), x), y), z), len), d), dz), u)" and
    P = "\<lambda>r m c s x y z len d dz u res. \<not> (d = 0 \<and> u \<le> len \<and> r = exact \<and>
      check_block_around exact m (x + u * c) (y + u * s) z 0 dz = Some RET_OVER)", simplified prod.case, OF _ assms], goal_cases)
  case (1 loop r m c s x y z len d dz u res)
  show ?case
  proof
    assume a: "d = 0 \<and> u \<le> len \<and> r = exact \<and> check_block_around exact m (x + u * c) (y + u * s) z 0 dz = Some RET_OVER"
    then have "loop r m c s x y z len d dz u = Some res" using 1(2) by (simp add: exact_def)
    then show False using 1(1) a by (cases res) blast
  qed
qed

lemma line_no_distance:
  assumes "map_ok m" "near_map m x y len" "0 \<le> len" "0 \<le> dz" "z - dz < no_height"
    "\<bar>cosine (line_angle angle)\<bar> \<le> 1" "\<bar>sine (line_angle angle)\<bar> \<le> 1"
  shows "(check_block_around_line exact cosine sine m x y z angle len 0 dz = None \<longleftrightarrow>
      check_block_around exact m x y z 0 dz = Some RET_OVER)
    \<and> (\<forall>ret safe. check_block_around_line exact cosine sine m x y z angle len 0 dz = Some (ret, safe) \<longrightarrow>
         ret \<in> {RET_ERR, RET_OK} \<and> safe = 0
         \<and> (ret = RET_OK \<longrightarrow> line_alarm m (cosine (line_angle angle)) (sine (line_angle angle)) x y z len 0 dz))"
proof -
  define c where "c = cosine (line_angle angle)"
  define s where "s = sine (line_angle angle)"
  note b = assms(6,7)[folded c_def s_def]
  have near: "near_map m x y (len + 0)" using assms(2) by simp
  have eq: "check_block_around_line exact cosine sine m x y z angle len 0 dz = line_loop exact m c s x y z len 0 dz 0"
    using assms(3) by (simp add: check_block_around_line_def Let_def c_def s_def line_angle_def fdiv_def exact_def)
  show ?thesis unfolding c_def[symmetric] s_def[symmetric] eq
  proof (rule line_sample[OF assms(1) near _ assms(4,5) b order_refl assms(3)], simp, goal_cases)
    case r: (1 ret)
    note step = line_loop_step[OF r(1) assms(3)]
    have start: "check_block_around exact m x y z 0 dz = Some ret" using r(1) by simp
    show ?case
    proof (cases "ret = RET_OVER")
      case True
      have "line_loop exact m c s x y z len 0 dz 0 \<noteq> Some res" for res
        using line_loop_stuck[of exact m c s x y z len 0 dz 0 res] start True assms(3) by auto
      then have "line_loop exact m c s x y z len 0 dz 0 = None" by (cases "line_loop exact m c s x y z len 0 dz 0") auto
      then show ?thesis using start True by simp
    next
      case False
      then have "line_loop exact m c s x y z len 0 dz 0 = Some (ret, 0)" using step by simp
      then show ?thesis using start False r(2,4) by simp
    qed
  qed
qed

end
