(* ===== verification/Obstacle_Area.thy ===== *)
theory Obstacle_Area
  imports Obstacle_Map
begin

text \<open>
  What \<^verbatim>\<open>set_map_block_area\<close> enters into the blocks: for each block the restricted area that decides for it.
\<close>

section \<open>One block\<close>

text \<open>The areas, by index, that touch the block at \<open>(x, y)\<close>; none of them reads nodes that do not exist.\<close>

definition area_ok :: "map_state \<Rightarrow> PF_MAP_AREA_ST \<Rightarrow> bool" where
  "area_ok m a \<longleftrightarrow> node_count a \<le> 0 \<or> 0 \<le> node_i a \<and> node_i a + node_count a \<le> int (length (pstNode m))"

definition areas_ok :: "map_state \<Rightarrow> bool" where
  "areas_ok m \<longleftrightarrow> length (pstRestriction m) = resdictionCount (gMap m) \<and> length (pstGround m) = groundCount (gMap m)
     \<and> (\<forall>a \<in> set (pstRestriction m) \<union> set (pstGround m). area_ok m a)"

lemma check_in_area_total: "area_ok m a \<Longrightarrow> \<exists>t. check_in_area r m x y a = Some t"
  by (auto simp: check_in_area_def area_ok_def)

lemma touches_total:
  assumes "area_ok m a"
  shows "\<exists>t. touches r m x y a = Some t"
proof -
  have "\<exists>f. \<forall>x y. check_in_area r m x y a = Some (f x y)" using check_in_area_total[OF assms] by metis
  then obtain f where "\<And>x y. check_in_area r m x y a = Some (f x y)" by blast
  then show ?thesis by (auto simp: touches_def Let_def)
qed

definition touched :: "(rat \<Rightarrow> rat) \<Rightarrow> map_state \<Rightarrow> rat \<Rightarrow> rat \<Rightarrow> nat \<Rightarrow> bool" where
  "touched r m x y k \<longleftrightarrow> touches r m x y (pstRestriction m ! k) = Some True"

definition limit :: "map_state \<Rightarrow> nat \<Rightarrow> rat" where "limit m k = height_limit (pstRestriction m ! k)"

text \<open>
  The area that decides after the areas \<open>ks\<close> of a list in order: the first one, then each without
  permission to fly, then each whose limit is higher.
\<close>

fun decider :: "map_state \<Rightarrow> nat option \<Rightarrow> nat list \<Rightarrow> nat option" where
  "decider m cur [] = cur"
| "decider m cur (k # ks) = decider m
     (case cur of None \<Rightarrow> Some k | Some c \<Rightarrow> if limit m k = RESTRICT_NO_FLY \<or> limit m k > limit m c then Some k else Some c) ks"

definition entry :: "nat option \<Rightarrow> 8 word" where
  "entry cur = (case cur of None \<Rightarrow> 0 | Some k \<Rightarrow> of_nat (k + 1))"

lemma sint_entry: "k < 127 \<Longrightarrow> sint (entry (Some k)) = int k + 1" "entry None = 0"
  by (simp_all add: entry_def signed_of_nat signed_take_bit_int_eq_self del: of_nat_Suc)

lemma entry_zero: "k < 127 \<Longrightarrow> entry (Some k) \<noteq> 0"
  using sint_entry(1)[of k] by fastforce

lemma restrict_block_decider:
  assumes "areas_ok m" "resdictionCount (gMap m) \<le> 127" "\<forall>k \<in> set ks. k < resdictionCount (gMap m)"
    "\<forall>c. cur = Some c \<longrightarrow> c < resdictionCount (gMap m)" "resdiction_i b = entry cur"
  shows "restrict_block r m x y ks b = Some (b\<lparr>resdiction_i := entry (decider m cur (filter (touched r m x y) ks))\<rparr>)"
  using assms(3-5)
proof (induction ks arbitrary: cur b)
  case (Cons k ks)
  have k: "k < length (pstRestriction m)" "k < 127" using Cons.prems(1) assms(1,2) by (auto simp: areas_ok_def)
  have el: "elem_at (pstRestriction m) (int k) = Some (pstRestriction m ! k)" using k by (simp add: elem_at_def)
  have "area_ok m (pstRestriction m ! k)" using assms(1) k(1) by (simp add: areas_ok_def)
  then obtain t where t: "touches r m x y (pstRestriction m ! k) = Some t" using touches_total by blast
  have tk: "touched r m x y k = t" by (simp add: touched_def t)
  show ?case
  proof (cases cur)
    case None
    then show ?thesis using Cons.IH[of "if t then Some k else None" "if t then b\<lparr>resdiction_i := of_nat (k + 1)\<rparr> else b"] Cons.prems el t tk k
      by (cases t) (simp_all add: entry_def)
  next
    case (Some c)
    have c: "c < length (pstRestriction m)" "c < 127" using Cons.prems(2) assms(1,2) Some by (auto simp: areas_ok_def)
    have old: "elem_at (pstRestriction m) (sint (resdiction_i b) - 1) = Some (pstRestriction m ! c)" "resdiction_i b \<noteq> 0"
      using Cons.prems(3) Some c sint_entry(1)[OF c(2)] entry_zero[OF c(2)] by (simp_all add: elem_at_def)
    let ?new = "t \<and> (limit m k = RESTRICT_NO_FLY \<or> limit m k > limit m c)"
    show ?thesis using Cons.IH[of "if ?new then Some k else Some c" "if ?new then b\<lparr>resdiction_i := of_nat (k + 1)\<rparr> else b"]
      Cons.prems el t tk k c old Some
      by (cases t; cases "limit m k = RESTRICT_NO_FLY"; cases "limit m k > limit m c") (simp_all add: entry_def limit_def)
  qed
qed simp

lemma ground_block_total:
  assumes "areas_ok m" "\<forall>k \<in> set ks. k < groundCount (gMap m)"
  shows "\<exists>v. ground_block r m x y ks b = Some (b\<lparr>ground_i := v\<rparr>)"
  using assms(2)
proof (induction ks arbitrary: b)
  case Nil
  show ?case by (intro exI[of _ "ground_i b"]) simp
next
  case (Cons k ks)
  have k: "k < length (pstGround m)" using Cons.prems assms(1) by (simp add: areas_ok_def)
  then have "area_ok m (pstGround m ! k)" using assms(1) by (simp add: areas_ok_def)
  then obtain t where t: "touches r m x y (pstGround m ! k) = Some t" using touches_total by blast
  obtain v where "ground_block r m x y ks (if t then b\<lparr>ground_i := of_nat (k + 1)\<rparr> else b) =
      Some ((if t then b\<lparr>ground_i := of_nat (k + 1)\<rparr> else b)\<lparr>ground_i := v\<rparr>)"
    using Cons.IH Cons.prems by (meson list.set_intros(2))
  then show ?case using k t by (intro exI[of _ v]) (simp add: elem_at_def)
qed

text \<open>The limit that rules where several areas apply, in the order of the list.\<close>

definition ruling_limit :: "rat list \<Rightarrow> rat" where
  "ruling_limit ls = (let tail = takeWhile (\<lambda>l. l \<noteq> RESTRICT_NO_FLY) (rev ls) in if tail = [] then RESTRICT_NO_FLY else Max (set tail))"

lemma decider_append: "decider m cur (ks @ [k]) =
  (case decider m cur ks of None \<Rightarrow> Some k | Some c \<Rightarrow> if limit m k = RESTRICT_NO_FLY \<or> limit m k > limit m c then Some k else Some c)"
  by (induction ks arbitrary: cur) auto

lemma decider_None: "decider m None ks = None \<longleftrightarrow> ks = []"
  by (cases ks rule: rev_cases) (auto simp: decider_append split: option.splits)

lemma decider_in: "decider m None ks = Some c \<Longrightarrow> c \<in> set ks"
proof (induction ks arbitrary: c rule: rev_induct)
  case (snoc k ks)
  then show ?case by (auto simp: decider_append decider_None split: option.splits if_splits)
qed simp

lemma decider_limit:
  assumes "decider m None ks = Some c" "\<forall>k \<in> set ks. limit m k \<ge> RESTRICT_NO_FLY"
  shows "limit m c = ruling_limit (map (limit m) ks)"
  using assms
proof (induction ks arbitrary: c rule: rev_induct)
  case (snoc k ks)
  show ?case
  proof (cases "limit m k = RESTRICT_NO_FLY")
    case True
    then have "limit m c = RESTRICT_NO_FLY" using snoc.prems(1) by (auto simp: decider_append split: option.splits)
    then show ?thesis using True by (simp add: ruling_limit_def)
  next
    case fly: False
    show ?thesis
    proof (cases "decider m None ks")
      case None
      then have "ks = []" by (simp add: decider_None)
      then show ?thesis using snoc.prems(1) fly by (simp add: ruling_limit_def)
    next
      case (Some c')
      have l: "limit m c' = ruling_limit (map (limit m) ks)" using snoc.IH Some snoc.prems(2) by simp
      have k: "limit m k > RESTRICT_NO_FLY" using snoc.prems(2) fly by (simp add: order_less_le)
      have "limit m c = max (limit m k) (limit m c')"
        using snoc.prems(1) Some fly by (auto simp: decider_append split: if_splits)
      also have "\<dots> = ruling_limit (map (limit m) (ks @ [k]))"
        using fly k unfolding l by (simp add: ruling_limit_def Let_def max_def)
      finally show ?thesis .
    qed
  qed
qed simp

lemma no_fly_rules:
  assumes "ls \<noteq> []" "\<forall>l \<in> set ls. l \<ge> RESTRICT_NO_FLY"
  shows "ruling_limit ls = RESTRICT_NO_FLY \<longleftrightarrow> last ls = RESTRICT_NO_FLY"
proof -
  obtain ks l where ls: "ls = ks @ [l]" using assms(1) by (cases ls rule: rev_cases) blast+
  show ?thesis
  proof (cases "l = RESTRICT_NO_FLY")
    case True
    then show ?thesis by (simp add: ls ruling_limit_def)
  next
    case False
    define T where "T = set (takeWhile (\<lambda>l. l \<noteq> RESTRICT_NO_FLY) (rev ks))"
    have e: "ruling_limit ls = Max (insert l T)" using False by (simp add: ls ruling_limit_def Let_def T_def)
    have "l \<le> Max (insert l T)" by (rule Max_ge) (simp_all add: T_def)
    moreover have "RESTRICT_NO_FLY < l" using False assms(2) by (simp add: ls order_less_le)
    ultimately have "RESTRICT_NO_FLY < ruling_limit ls" using e by simp
    then show ?thesis using False by (simp add: ls)
  qed
qed

section \<open>The whole map\<close>

text \<open>Corner of a block, and the areas that touch it, in the order of the list.\<close>

definition corner_x :: "(rat \<Rightarrow> rat) \<Rightarrow> map_state \<Rightarrow> int \<Rightarrow> rat" where
  "corner_x r m i = r (px (block_min (gMap m)) + r (px (block_size (gMap m)) * of_int i))"

definition corner_y :: "(rat \<Rightarrow> rat) \<Rightarrow> map_state \<Rightarrow> int \<Rightarrow> rat" where
  "corner_y r m j = r (py (block_min (gMap m)) + r (py (block_size (gMap m)) * of_int j))"

definition rulers :: "(rat \<Rightarrow> rat) \<Rightarrow> map_state \<Rightarrow> int \<Rightarrow> int \<Rightarrow> nat list" where
  "rulers r m j i = filter (touched r m (corner_x r m i) (corner_y r m j)) [0..<resdictionCount (gMap m)]"

definition fresh :: "map_state \<Rightarrow> bool" where
  "fresh m \<longleftrightarrow> (\<forall>b \<in> set (pstBlock m). resdiction_i b = 0)"

lemma area_block_entry:
  assumes "areas_ok m" "resdictionCount (gMap m) \<le> 127" "resdiction_i b = 0"
  shows "\<exists>v. area_block r m j i b = Some (b\<lparr>resdiction_i := entry (decider m None (rulers r m j i)), ground_i := v\<rparr>)"
proof -
  let ?b = "b\<lparr>resdiction_i := entry (decider m None (rulers r m j i))\<rparr>"
  have "restrict_block r m (corner_x r m i) (corner_y r m j) [0..<resdictionCount (gMap m)] b = Some ?b"
    using restrict_block_decider[OF assms(1,2), of _ None b] assms(3) by (simp add: rulers_def sint_entry)
  moreover have "\<exists>v. ground_block r m (corner_x r m i) (corner_y r m j) [0..<groundCount (gMap m)] ?b = Some (?b\<lparr>ground_i := v\<rparr>)"
    by (rule ground_block_total[OF assms(1)]) simp
  moreover have "\<exists>v. ?b = ?b\<lparr>ground_i := v\<rparr>" by (intro exI[of _ "ground_i b"]) simp
  ultimately show ?thesis
    by (cases "ground_i b = 0") (auto simp: area_block_def Let_def corner_x_def[symmetric] corner_y_def[symmetric])
qed

lemma touches_blocks: "touches r (m\<lparr>pstBlock := bs\<rparr>) x y a = touches r m x y a"
  by (simp add: touches_def check_in_area_def cong: if_cong)

lemma restrict_block_blocks: "restrict_block r (m\<lparr>pstBlock := bs\<rparr>) x y ks b = restrict_block r m x y ks b"
  by (induction ks arbitrary: b) (simp_all add: touches_blocks cong: if_cong)

lemma ground_block_blocks: "ground_block r (m\<lparr>pstBlock := bs\<rparr>) x y ks b = ground_block r m x y ks b"
  by (induction ks arbitrary: b) (simp_all add: touches_blocks cong: if_cong)

lemma area_block_blocks: "area_block r (m\<lparr>pstBlock := bs\<rparr>) j i b = area_block r m j i b"
  by (simp add: area_block_def restrict_block_blocks ground_block_blocks cong: if_cong)

lemma cell_index_inj:
  assumes "0 \<le> i" "i < n" "0 \<le> i'" "i' < n" "j * n + i = j' * n + (i' :: int)"
  shows "j = j'" "i = i'"
proof -
  have "(j * n + i) div n = j" "(j' * n + i') div n = j'" using assms(1-4) by (simp_all add: div_pos_pos_trivial)
  then show "j = j'" using assms(5) by simp
  then show "i = i'" using assms(5) by simp
qed

definition in_grid :: "map_state \<Rightarrow> int \<times> int \<Rightarrow> bool" where
  "in_grid m c \<longleftrightarrow> 0 \<le> fst c \<and> fst c < rows m \<and> 0 \<le> snd c \<and> snd c < cols m"

lemma cell_index:
  assumes "int (length (pstBlock m)) = cols m * rows m" "in_grid m (j, i)"
  shows "0 \<le> j * cols m + i" "j * cols m + i < int (length (pstBlock m))"
proof -
  have r: "0 \<le> j" "j < rows m" "0 \<le> i" "i < cols m" using assms(2) by (simp_all add: in_grid_def)
  then show "0 \<le> j * cols m + i" by simp
  have "j * cols m + i < (j + 1) * cols m" using r by (simp add: algebra_simps)
  also have "\<dots> \<le> rows m * cols m" using r by (intro mult_right_mono) simp_all
  finally show "j * cols m + i < int (length (pstBlock m))" using assms(1) by (simp add: mult.commute)
qed

text \<open>Each listed block is replaced once, by what its areas make of it.\<close>

lemma area_blocks_outcome:
  assumes "int (length (pstBlock m)) = cols m * rows m" "distinct ps" "\<forall>c \<in> set ps. in_grid m c"
    "\<forall>(j, i) \<in> set ps. area_block r m j i (grid m j i) = Some (f j i)"
  shows "\<exists>bs. area_blocks r ps m = Some (m\<lparr>pstBlock := bs\<rparr>) \<and> length bs = length (pstBlock m)
    \<and> (\<forall>j i. in_grid m (j, i) \<longrightarrow> bs ! nat (j * cols m + i) = (if (j, i) \<in> set ps then f j i else grid m j i))"
  using assms
proof (induction ps arbitrary: m)
  case Nil
  show ?case by (intro exI[of _ "pstBlock m"]) (simp add: grid_def)
next
  case (Cons p ps)
  obtain j i where p: "p = (j, i)" by (cases p)
  define n where "n = nat (j * cols m + i)"
  define m' where "m' = m\<lparr>pstBlock := (pstBlock m)[n := f j i]\<rparr>"
  have g: "in_grid m (j, i)" using Cons.prems(3) p by simp
  note n = cell_index[OF Cons.prems(1) g]
  have dims: "in_grid m' = in_grid m" "cols m' = cols m" "rows m' = rows m" by (simp_all add: m'_def in_grid_def fun_eq_iff)
  have other: "grid m' j' i' = grid m j' i'" if "in_grid m (j', i')" "(j', i') \<noteq> (j, i)" for j' i'
  proof -
    have "j' * cols m + i' \<noteq> j * cols m + i" using cell_index_inj[of i' "cols m" i j' j] that g by (auto simp: in_grid_def)
    moreover have "0 \<le> j' * cols m + i'" using cell_index[OF Cons.prems(1) that(1)] by simp
    ultimately show ?thesis using n(1) by (simp add: grid_def m'_def n_def)
  qed
  have "area_block r m' j' i' (grid m' j' i') = Some (f j' i')" if "(j', i') \<in> set ps" for j' i'
  proof -
    have "in_grid m (j', i')" "(j', i') \<noteq> (j, i)" "area_block r m j' i' (grid m j' i') = Some (f j' i')"
      using Cons.prems(2-4) that p by auto
    then show ?thesis using other by (simp add: m'_def area_block_blocks)
  qed
  then have "\<forall>(j', i') \<in> set ps. area_block r m' j' i' (grid m' j' i') = Some (f j' i')" by blast
  then obtain bs where bs: "area_blocks r ps m' = Some (m'\<lparr>pstBlock := bs\<rparr>)" "length bs = length (pstBlock m')"
    "\<And>j i. in_grid m (j, i) \<Longrightarrow> bs ! nat (j * cols m + i) = (if (j, i) \<in> set ps then f j i else grid m' j i)"
    using Cons.IH[of m'] Cons.prems(1-3) dims by (auto simp: m'_def)
  have "area_blocks r (p # ps) m = area_blocks r ps m'"
    using Cons.prems(4) p n by (simp add: elem_at_def grid_def m'_def n_def Let_def)
  moreover have "grid m' j i = f j i" using n by (simp add: grid_def m'_def n_def)
  moreover have "(j, i) \<notin> set ps" using Cons.prems(2) p by simp
  ultimately show ?case using bs other p by (intro exI[of _ bs]) (auto simp: m'_def)
qed

lemma distinct_block_cells: "distinct (block_cells j1 j2 i1 i2)"
proof -
  have "distinct (concat (map (\<lambda>j. map (Pair j) [i1..i2]) js))" if "distinct js" for js :: "int list"
    using that by (induction js) (auto simp: distinct_map inj_on_def)
  then show ?thesis by (simp add: block_cells_def)
qed

text \<open>What the areas make of the map: the terrain stays, and the entry of each block is its decider.\<close>

lemma set_map_block_area_outcome:
  assumes "int (length (pstBlock m)) = cols m * rows m" "areas_ok m" "resdictionCount (gMap m) \<le> 127" "fresh m"
  shows "\<exists>bs. set_map_block_area r m = Some (m\<lparr>pstBlock := bs\<rparr>) \<and> length bs = length (pstBlock m) \<and>
    (\<forall>j i. in_grid m (j, i) \<longrightarrow> (\<exists>v. bs ! nat (j * cols m + i) =
      (grid m j i)\<lparr>resdiction_i := entry (decider m None (rulers r m j i)), ground_i := v\<rparr>))"
proof -
  have "resdiction_i (grid m j i) = 0" if "in_grid m (j, i)" for j i
    using assms(4) cell_index[OF assms(1) that] by (simp add: fresh_def grid_def)
  then have "\<forall>j i. \<exists>v. in_grid m (j, i) \<longrightarrow>
      area_block r m j i (grid m j i) = Some ((grid m j i)\<lparr>resdiction_i := entry (decider m None (rulers r m j i)), ground_i := v\<rparr>)"
    using area_block_entry[OF assms(2,3)] by blast
  then obtain v where v: "\<And>j i. in_grid m (j, i) \<Longrightarrow>
      area_block r m j i (grid m j i) = Some ((grid m j i)\<lparr>resdiction_i := entry (decider m None (rulers r m j i)), ground_i := v j i\<rparr>)"
    by metis
  let ?ps = "block_cells 0 (rows m - 1) 0 (cols m - 1)"
  have ps: "set ?ps = {c. in_grid m c}" by (auto simp: set_block_cells in_grid_def)
  obtain bs where "area_blocks r ?ps m = Some (m\<lparr>pstBlock := bs\<rparr>)" "length bs = length (pstBlock m)"
    "\<And>j i. in_grid m (j, i) \<Longrightarrow> bs ! nat (j * cols m + i) =
      (grid m j i)\<lparr>resdiction_i := entry (decider m None (rulers r m j i)), ground_i := v j i\<rparr>"
    using area_blocks_outcome[OF assms(1) distinct_block_cells, of 0 "rows m - 1" 0 "cols m - 1" r
      "\<lambda>j i. (grid m j i)\<lparr>resdiction_i := entry (decider m None (rulers r m j i)), ground_i := v j i\<rparr>"] v
    by (auto simp: ps)
  then show ?thesis unfolding set_map_block_area_def by blast
qed

lemma areas_decide:
  assumes "int (length (pstBlock m)) = cols m * rows m" "areas_ok m" "resdictionCount (gMap m) \<le> 127" "fresh m"
    "\<forall>a \<in> set (pstRestriction m). height_limit a \<ge> RESTRICT_NO_FLY"
  shows "\<exists>m'. set_map_block_area r m = Some m' \<and> (\<forall>j i z d. in_grid m (j, i) \<longrightarrow>
    (block_passes m' z d (grid m' j i) \<longleftrightarrow>
       0 < sint (z_i (grid m j i)) \<and> of_int (sint (zmax_mm (grid m j i))) / 1000 \<le> z - d \<and>
       (rulers r m j i = [] \<or> limit m (last (rulers r m j i)) \<noteq> RESTRICT_NO_FLY \<and>
          ruling_limit (map (limit m) (rulers r m j i)) \<le> z)))"
proof -
  obtain bs where bs: "set_map_block_area r m = Some (m\<lparr>pstBlock := bs\<rparr>)"
    "\<And>j i. in_grid m (j, i) \<Longrightarrow> \<exists>v. bs ! nat (j * cols m + i) =
      (grid m j i)\<lparr>resdiction_i := entry (decider m None (rulers r m j i)), ground_i := v\<rparr>"
    using set_map_block_area_outcome[OF assms(1-4)] by blast
  have "block_passes (m\<lparr>pstBlock := bs\<rparr>) z d (grid (m\<lparr>pstBlock := bs\<rparr>) j i) \<longleftrightarrow>
       0 < sint (z_i (grid m j i)) \<and> of_int (sint (zmax_mm (grid m j i))) / 1000 \<le> z - d \<and>
       (rulers r m j i = [] \<or> limit m (last (rulers r m j i)) \<noteq> RESTRICT_NO_FLY \<and>
          ruling_limit (map (limit m) (rulers r m j i)) \<le> z)" if g: "in_grid m (j, i)" for j i z d
  proof -
    let ?ks = "rulers r m j i"
    have ks: "\<forall>k \<in> set ?ks. k < length (pstRestriction m)" using assms(2) by (auto simp: rulers_def areas_ok_def)
    then have low: "\<forall>k \<in> set ?ks. limit m k \<ge> RESTRICT_NO_FLY" using assms(5) by (simp add: limit_def)
    obtain v where v: "grid (m\<lparr>pstBlock := bs\<rparr>) j i = (grid m j i)\<lparr>resdiction_i := entry (decider m None ?ks), ground_i := v\<rparr>"
      using bs(2)[OF g] by (auto simp: grid_def)
    show ?thesis
    proof (cases "decider m None ?ks")
      case None
      then show ?thesis using v by (simp add: block_passes_def sint_entry decider_None)
    next
      case (Some k)
      then have ne: "?ks \<noteq> []" and k: "k < length (pstRestriction m)" using decider_in[OF Some] ks by auto
      then have "sint (entry (Some k)) = int k + 1" using assms(2,3) by (intro sint_entry) (simp add: areas_ok_def)
      moreover have "limit m k = ruling_limit (map (limit m) ?ks)" by (rule decider_limit[OF Some low])
      moreover have "ruling_limit (map (limit m) ?ks) = RESTRICT_NO_FLY \<longleftrightarrow> limit m (last ?ks) = RESTRICT_NO_FLY"
        using no_fly_rules[of "map (limit m) ?ks"] ne low by (simp add: last_map)
      ultimately show ?thesis using v ne Some by (simp add: block_passes_def limit_def Let_def)
    qed
  qed
  then show ?thesis using bs(1) by blast
qed

lemma area_blocks_keeps: "area_blocks r ps m = Some m' \<Longrightarrow> gMap m' = gMap m"
  by (induction ps arbitrary: m) (auto simp: Let_def split: bind_splits prod.splits)

lemma set_map_block_area_keeps: "set_map_block_area r m = Some m' \<Longrightarrow> gMap m' = gMap m"
  unfolding set_map_block_area_def by (rule area_blocks_keeps)

end
