(* ===== verification/Obstacle_Load.thy ===== *)
theory Obstacle_Load
  imports Obstacle_Area Text_Input
begin

text \<open>
  Reading the map, \<^verbatim>\<open>map_get_map_info_count\<close> and \<^verbatim>\<open>get_map_info\<close> of \<^verbatim>\<open>common/hdmap/pf_map_block_3d.cpp\<close>: a first
  pass over the lines of the file counts what the arrays must hold, a second one fills them, and the areas
  are entered into the blocks.  Reading past the end of an array, and a number that does not fit, are
  \<open>None\<close>.  Whether \<^verbatim>\<open>malloc\<close> succeeds is the parameter \<open>alloc\<close>.
\<close>

section \<open>Values in a line\<close>

definition scan_xyz :: "(rat \<Rightarrow> rat) \<Rightarrow> string \<Rightarrow> string \<Rightarrow> PF_MAP_XYZ_ST option" where
  "scan_xyz r s fmt = (case sscanf r s fmt of [Num x, Num y, Num z] \<Rightarrow> Some \<lparr>px = x, py = y, pz = z\<rparr> | _ \<Rightarrow> None)"

definition scan_int :: "(rat \<Rightarrow> rat) \<Rightarrow> string \<Rightarrow> string \<Rightarrow> int option" where
  "scan_int r s fmt = (case sscanf r s fmt of [Integer n] \<Rightarrow> Some n | _ \<Rightarrow> None)"

definition scan_double :: "(rat \<Rightarrow> rat) \<Rightarrow> string \<Rightarrow> string \<Rightarrow> rat option" where
  "scan_double r s fmt = (case sscanf r s fmt of [Num x] \<Rightarrow> Some x | _ \<Rightarrow> None)"

definition scan_text :: "(rat \<Rightarrow> rat) \<Rightarrow> string \<Rightarrow> string \<Rightarrow> string option" where
  "scan_text r s fmt = (case sscanf r s fmt of [Text t] \<Rightarrow> Some t | _ \<Rightarrow> None)"

definition map_err :: "map_state \<Rightarrow> map_state" where
  "map_err m = m\<lparr>gu32MapErrCount := gu32MapErrCount m + 1\<rparr>"

section \<open>First pass\<close>

definition set_xyz :: "(PF_MAP_XYZ_ST \<Rightarrow> PF_MAP_INFO_ST \<Rightarrow> PF_MAP_INFO_ST) \<Rightarrow> PF_MAP_XYZ_ST option \<Rightarrow> map_state \<Rightarrow> map_state" where
  "set_xyz f p m = (case p of Some v \<Rightarrow> m\<lparr>gMap := f v (gMap m)\<rparr> | None \<Rightarrow> map_err m)"

definition count_line :: "(rat \<Rightarrow> rat) \<Rightarrow> string \<Rightarrow> map_state \<Rightarrow> map_state" where
  "count_line r buf m =
     (if has buf ''<node x='' then m\<lparr>gMap := (gMap m)\<lparr>nodeCount := nodeCount (gMap m) + 1\<rparr>\<rparr>
      else if has buf ''<restriction_area id='' then m\<lparr>gMap := (gMap m)\<lparr>resdictionCount := resdictionCount (gMap m) + 1\<rparr>\<rparr>
      else if has buf ''<ground_area id='' then m\<lparr>gMap := (gMap m)\<lparr>groundCount := groundCount (gMap m) + 1\<rparr>\<rparr>
      else if has buf ''<utm_min '' then
        set_xyz (\<lambda>v g. g\<lparr>utm_min := v\<rparr>) (scan_xyz r buf '' <utm_min x=\"%lf\" y=\"%lf\" z=\"%lf\"'') m
      else if has buf ''<utm_max '' then
        set_xyz (\<lambda>v g. g\<lparr>utm_max := v\<rparr>) (scan_xyz r buf '' <utm_max x=\"%lf\" y=\"%lf\" z=\"%lf\"'') m
      else if has buf ''<block_min '' then
        set_xyz (\<lambda>v g. g\<lparr>block_min := v\<rparr>) (scan_xyz r buf '' <block_min x=\"%lf\" y=\"%lf\" z=\"%lf\"'') m
      else if has buf ''<block_max '' then
        set_xyz (\<lambda>v g. g\<lparr>block_max := v\<rparr>) (scan_xyz r buf '' <block_max x=\"%lf\" y=\"%lf\" z=\"%lf\"'') m
      else if has buf ''<block_size '' then
        set_xyz (\<lambda>v g. g\<lparr>block_size := v\<rparr>) (scan_xyz r buf '' <block_size x=\"%lf\" y=\"%lf\" z=\"%lf\"'') m
      else m)"

definition zero_area :: PF_MAP_AREA_ST where
  "zero_area = \<lparr>ID = 0, extrapointsID = 0, area_type = 0, node_i = 0, node_count = 0, height_limit = 0,
     min_x = 0, min_y = 0, max_x = 0, max_y = 0, area_name = []\<rparr>"

definition zero_node :: PF_MAP_XYZ_ST where "zero_node = \<lparr>px = 0, py = 0, pz = 0\<rparr>"

definition zero_block :: PF_MAP_BLOCK_ST where
  "zero_block = \<lparr>resdiction_i = 0, ground_i = 0, z_i = 0, zmax_mm = 0\<rparr>"

text \<open>How many blocks lie between two bounds.\<close>

definition block_count :: "(rat \<Rightarrow> rat) \<Rightarrow> rat \<Rightarrow> rat \<Rightarrow> rat \<Rightarrow> int option" where
  "block_count r lo hi s = S32_div r (r (r (hi - lo) + fdiv r s 2)) s"

text \<open>The bytes of the arrays: areas of 136 bytes, nodes of 24, blocks of 8.\<close>

definition map_bytes :: "PF_MAP_INFO_ST \<Rightarrow> int" where
  "map_bytes g = int (resdictionCount g) * 136 + int (groundCount g) * 136 + int (nodeCount g) * 24
     + block_count_x g * block_count_y g * 8"

definition map_get_map_info_count ::
  "(rat \<Rightarrow> rat) \<Rightarrow> (int \<Rightarrow> bool) \<Rightarrow> string list \<Rightarrow> map_state \<Rightarrow> (int \<times> map_state) option" where
  "map_get_map_info_count r alloc bufs m =
     (let m = m\<lparr>gMap := (gMap m)\<lparr>nodeCount := 0, resdictionCount := 0, groundCount := 0, block_count_x := 0,
                block_count_y := 0, block_count_z := 0\<rparr>\<rparr>;
          m = fold (count_line r) bufs m; g = gMap m in
      do { cx \<leftarrow> block_count r (px (block_min g)) (px (block_max g)) (px (block_size g));
           cy \<leftarrow> block_count r (py (block_min g)) (py (block_max g)) (py (block_size g));
           cz \<leftarrow> block_count r (pz (block_min g)) (pz (block_max g)) (pz (block_size g));
           let g = g\<lparr>block_count_x := cx, block_count_y := cy, block_count_z := cz\<rparr>; m = m\<lparr>gMap := g\<rparr>;
               memSize = sint (word_of_int (map_bytes g) :: 32 word) in
           if cx * cy < - (2 ^ 31) \<or> 2 ^ 31 \<le> cx * cy then None
           else if gu32MapErrCount m > 0 then Some (RET_ERR, m)
           else if memSize < 0 \<or> \<not> alloc memSize then Some (RET_ERR, m)
           else if memSize < map_bytes g \<or> cx \<le> 0 \<or> cy < 0 then None
           else Some (RET_OK, m\<lparr>pstRestriction := replicate (resdictionCount g) zero_area,
                                pstGround := replicate (groundCount g) zero_area,
                                pstNode := replicate (nodeCount g) zero_node,
                                pstBlock := replicate (nat (cx * cy)) zero_block\<rparr>) })"

section \<open>Second pass\<close>

record loading =
  l_map :: map_state
  l_blockCount :: nat
  l_nodeCount :: nat
  l_resdictionCount :: nat
  l_groundCount :: nat

abbreviation "load_err L \<equiv> l_map_update map_err L"

text \<open>A block; the second component is the jump to the end.\<close>

definition block_line :: "(rat \<Rightarrow> rat) \<Rightarrow> string \<Rightarrow> loading \<Rightarrow> (loading \<times> bool) option" where
  "block_line r buf L =
     (let m = l_map L; g = gMap m in
      do { pstr \<leftarrow> strstr buf '' x='';
           case scan_xyz r pstr '' x=\"%lf\" y=\"%lf\" z=\"%lf\"'' of
             Some p \<Rightarrow>
               do { xi \<leftarrow> S32_div r (r (r (px p - px (block_min g)) + fdiv r (px (block_size g)) 2)) (px (block_size g));
                    yi \<leftarrow> S32_div r (r (r (py p - py (block_min g)) + fdiv r (py (block_size g)) 2)) (py (block_size g));
                    if xi \<ge> block_count_x g \<or> yi \<ge> block_count_y g then Some (L, False)
                    else
                      do { zi \<leftarrow> S32_div r (r (r (pz p - pz (block_min g)) + fdiv r (pz (block_size g)) 2)) (pz (block_size g));
                           zmax \<leftarrow> S32_of (r (pz p * 1000));
                           b \<leftarrow> elem_at (pstBlock m) (yi * block_count_x g + xi);
                           let b = b\<lparr>z_i := word_of_int (zi + 1), zmax_mm := word_of_int zmax\<rparr> in
                           Some (L\<lparr>l_map := m\<lparr>pstBlock := (pstBlock m)[nat (yi * block_count_x g + xi) := b]\<rparr>,
                                   l_blockCount := l_blockCount L + 1\<rparr>, False) } }
           | None \<Rightarrow> Some (load_err L, True) })"

text \<open>The bounding box of the nodes read so far.\<close>

record box =
  bmax_x :: rat
  bmax_y :: rat
  bmin_x :: rat
  bmin_y :: rat

definition start_box :: "(rat \<Rightarrow> rat) \<Rightarrow> box" where
  "start_box r = \<lparr>bmax_x = 0, bmax_y = 0, bmin_x = r (9999999999 / 10), bmin_y = r (9999999999 / 10)\<rparr>"

definition grow_box :: "PF_MAP_XYZ_ST \<Rightarrow> box \<Rightarrow> box" where
  "grow_box p b = \<lparr>bmax_x = (if bmax_x b < px p then px p else bmax_x b), bmax_y = (if bmax_y b < py p then py p else bmax_y b),
     bmin_x = (if bmin_x b > px p then px p else bmin_x b), bmin_y = (if bmin_y b > py p then py p else bmin_y b)\<rparr>"

definition node_line :: "(rat \<Rightarrow> rat) \<Rightarrow> string \<Rightarrow> box \<Rightarrow> loading \<Rightarrow> (box \<times> loading) option" where
  "node_line r buf b L =
     (case scan_xyz r buf '' <node x=\"%lf\" y=\"%lf\" z=\"%lf\"'' of
        Some p \<Rightarrow>
          (let m = l_map L; n = l_nodeCount L in
           if n < length (pstNode m)
           then Some (grow_box p b, L\<lparr>l_map := m\<lparr>pstNode := (pstNode m)[n := p]\<rparr>, l_nodeCount := n + 1\<rparr>)
           else None)
      | None \<Rightarrow> Some (b, load_err L))"

text \<open>The inner loops return the lines that are left.\<close>

fun points_loop :: "(rat \<Rightarrow> rat) \<Rightarrow> string list \<Rightarrow> box \<Rightarrow> loading \<Rightarrow> (box \<times> loading \<times> string list) option" where
  "points_loop r [] b L = Some (b, L, [])"
| "points_loop r (buf # bufs) b L =
     (if has buf ''<node x='' then do { (b, L) \<leftarrow> node_line r buf b L; points_loop r bufs b L }
      else if has buf ''</points>'' then Some (b, L, bufs)
      else points_loop r bufs b L)"

definition give_points :: "int \<Rightarrow> nat \<Rightarrow> nat \<Rightarrow> box \<Rightarrow> PF_MAP_AREA_ST \<Rightarrow> PF_MAP_AREA_ST" where
  "give_points ident first n b a =
     (if extrapointsID a = ident
      then a\<lparr>node_i := int first, node_count := int n, max_x := bmax_x b, max_y := bmax_y b, min_x := bmin_x b, min_y := bmin_y b\<rparr>
      else a)"

definition points_lines :: "(rat \<Rightarrow> rat) \<Rightarrow> string \<Rightarrow> string list \<Rightarrow> loading \<Rightarrow> (loading \<times> string list) option" where
  "points_lines r buf bufs L =
     (case scan_int r buf '' <points id=\"%d\"'' of
        Some ident \<Rightarrow>
          do { (b, L', bufs) \<leftarrow> points_loop r bufs (start_box r) L;
               let m = l_map L'; ra = take (l_resdictionCount L') (pstRestriction m); ga = take (l_groundCount L') (pstGround m);
                   give = give_points ident (l_nodeCount L) (l_nodeCount L' - l_nodeCount L) b;
                   used = length (filter (\<lambda>a. extrapointsID a = ident) (ra @ ga));
                   m = m\<lparr>pstRestriction := map give ra @ drop (l_resdictionCount L') (pstRestriction m),
                         pstGround := map give ga @ drop (l_groundCount L') (pstGround m)\<rparr>;
                   m = (if (of_nat used :: 16 word) = 0 then map_err m else m) in
               Some (L'\<lparr>l_map := m\<rparr>, bufs) }
      | None \<Rightarrow> Some (load_err L, bufs))"

text \<open>The entry of an area that is being read; its name has 68 characters.\<close>

definition in_area :: "(PF_MAP_AREA_ST \<Rightarrow> PF_MAP_AREA_ST) \<Rightarrow> nat \<Rightarrow> PF_MAP_AREA_ST list \<Rightarrow> PF_MAP_AREA_ST list option" where
  "in_area f k as = (if k < length as then Some (as[k := f (as ! k)]) else None)"

definition on_restriction :: "(PF_MAP_AREA_ST \<Rightarrow> PF_MAP_AREA_ST) \<Rightarrow> loading \<Rightarrow> loading option" where
  "on_restriction f L =
     do { as \<leftarrow> in_area f (l_resdictionCount L) (pstRestriction (l_map L)); Some (L\<lparr>l_map := (l_map L)\<lparr>pstRestriction := as\<rparr>\<rparr>) }"

definition on_ground :: "(PF_MAP_AREA_ST \<Rightarrow> PF_MAP_AREA_ST) \<Rightarrow> loading \<Rightarrow> loading option" where
  "on_ground f L =
     do { as \<leftarrow> in_area f (l_groundCount L) (pstGround (l_map L)); Some (L\<lparr>l_map := (l_map L)\<lparr>pstGround := as\<rparr>\<rparr>) }"

definition set_field :: "((PF_MAP_AREA_ST \<Rightarrow> PF_MAP_AREA_ST) \<Rightarrow> loading \<Rightarrow> loading option) \<Rightarrow>
  ('v \<Rightarrow> PF_MAP_AREA_ST \<Rightarrow> PF_MAP_AREA_ST) \<Rightarrow> 'v option \<Rightarrow> loading \<Rightarrow> loading option" where
  "set_field on f v L = (case v of Some x \<Rightarrow> on (f x) L | None \<Rightarrow> Some (load_err L))"

definition set_name :: "((PF_MAP_AREA_ST \<Rightarrow> PF_MAP_AREA_ST) \<Rightarrow> loading \<Rightarrow> loading option) \<Rightarrow> string option \<Rightarrow> loading \<Rightarrow> loading option" where
  "set_name on v L =
     (case v of Some t \<Rightarrow> if length t < 68 then on (\<lambda>a. a\<lparr>area_name := t\<rparr>) L else None | None \<Rightarrow> Some (load_err L))"

fun restriction_loop :: "(rat \<Rightarrow> rat) \<Rightarrow> string list \<Rightarrow> loading \<Rightarrow> (loading \<times> string list) option" where
  "restriction_loop r [] L = Some (L, [])"
| "restriction_loop r (buf # bufs) L =
     (if has buf ''<name val='' then
        do { L \<leftarrow> set_name on_restriction (scan_text r buf '' <name val=\"%s\"'') L; restriction_loop r bufs L }
      else if has buf ''<type val='' then
        do { L \<leftarrow> set_field on_restriction (\<lambda>v a. a\<lparr>area_type := v\<rparr>) (scan_int r buf '' <type val=\"%d\"'') L;
             restriction_loop r bufs L }
      else if has buf ''<height_limit val='' then
        do { L \<leftarrow> set_field on_restriction (\<lambda>v a. a\<lparr>height_limit := v\<rparr>) (scan_double r buf '' <height_limit val=\"%lf\"'') L;
             restriction_loop r bufs L }
      else if has buf ''<extra_points ref='' then
        do { L \<leftarrow> set_field on_restriction (\<lambda>v a. a\<lparr>extrapointsID := v\<rparr>) (scan_int r buf '' <extra_points ref=\"%d\"'') L;
             restriction_loop r bufs L }
      else if has buf ''</restriction_area>'' then Some (L, bufs)
      else restriction_loop r bufs L)"

definition restriction_lines :: "(rat \<Rightarrow> rat) \<Rightarrow> string \<Rightarrow> string list \<Rightarrow> loading \<Rightarrow> (loading \<times> string list) option" where
  "restriction_lines r buf bufs L =
     (case scan_int r buf '' <restriction_area id=\"%d\"'' of
        Some ident \<Rightarrow>
          do { L \<leftarrow> on_restriction (\<lambda>a. a\<lparr>ID := ident\<rparr>) L;
               (L, bufs) \<leftarrow> restriction_loop r bufs L;
               Some (L\<lparr>l_resdictionCount := l_resdictionCount L + 1\<rparr>, bufs) }
      | None \<Rightarrow> Some (load_err L, bufs))"

fun ground_loop :: "(rat \<Rightarrow> rat) \<Rightarrow> string list \<Rightarrow> loading \<Rightarrow> (loading \<times> string list) option" where
  "ground_loop r [] L = Some (L, [])"
| "ground_loop r (buf # bufs) L =
     (if has buf ''<name val='' then
        do { L \<leftarrow> set_name on_ground (scan_text r buf '' <name val=\"%s\"'') L; ground_loop r bufs L }
      else if has buf ''<type val='' then
        do { L \<leftarrow> set_field on_ground (\<lambda>v a. a\<lparr>area_type := v\<rparr>) (scan_int r buf '' <type val=\"%d\"'') L; ground_loop r bufs L }
      else if has buf ''<extra_points ref='' then
        do { L \<leftarrow> set_field on_ground (\<lambda>v a. a\<lparr>extrapointsID := v\<rparr>) (scan_int r buf '' <extra_points ref=\"%d\"'') L;
             ground_loop r bufs L }
      else if has buf ''</ground_area>'' then Some (L, bufs)
      else ground_loop r bufs L)"

definition ground_lines :: "(rat \<Rightarrow> rat) \<Rightarrow> string \<Rightarrow> string list \<Rightarrow> loading \<Rightarrow> (loading \<times> string list) option" where
  "ground_lines r buf bufs L =
     (case scan_int r buf '' <ground_area id=\"%d\"'' of
        Some ident \<Rightarrow>
          do { L \<leftarrow> on_ground (\<lambda>a. a\<lparr>ID := ident\<rparr>) L;
               (L, bufs) \<leftarrow> ground_loop r bufs L;
               Some (L\<lparr>l_groundCount := l_groundCount L + 1\<rparr>, bufs) }
      | None \<Rightarrow> Some (load_err L, bufs))"

lemma points_loop_left: "points_loop r bufs b L = Some (b', L', bufs') \<Longrightarrow> length bufs' \<le> length bufs"
  by (induction bufs arbitrary: b L) (auto split: if_splits bind_splits intro: le_SucI)

lemma restriction_loop_left: "restriction_loop r bufs L = Some (L', bufs') \<Longrightarrow> length bufs' \<le> length bufs"
  by (induction bufs arbitrary: L) (auto split: if_splits bind_splits intro: le_SucI)

lemma ground_loop_left: "ground_loop r bufs L = Some (L', bufs') \<Longrightarrow> length bufs' \<le> length bufs"
  by (induction bufs arbitrary: L) (auto split: if_splits bind_splits intro: le_SucI)

lemma lines_left:
  "points_lines r buf bufs L = Some (L', bufs') \<Longrightarrow> length bufs' \<le> length bufs"
  "restriction_lines r buf bufs L = Some (L', bufs') \<Longrightarrow> length bufs' \<le> length bufs"
  "ground_lines r buf bufs L = Some (L', bufs') \<Longrightarrow> length bufs' \<le> length bufs"
  by (auto simp: points_lines_def restriction_lines_def ground_lines_def Let_def
      dest: points_loop_left restriction_loop_left ground_loop_left split: option.splits bind_splits)

function load_lines :: "(rat \<Rightarrow> rat) \<Rightarrow> string list \<Rightarrow> loading \<Rightarrow> loading option" where
  "load_lines r [] L = Some L"
| "load_lines r (buf # bufs) L =
     (if has buf ''<block id='' then
        (case block_line r buf L of Some (L, False) \<Rightarrow> load_lines r bufs L | Some (L, True) \<Rightarrow> Some L | None \<Rightarrow> None)
      else if has buf ''<points id='' then
        (case points_lines r buf bufs L of Some (L, bufs) \<Rightarrow> load_lines r bufs L | None \<Rightarrow> None)
      else if has buf ''<restriction_area id='' then
        (case restriction_lines r buf bufs L of Some (L, bufs) \<Rightarrow> load_lines r bufs L | None \<Rightarrow> None)
      else if has buf ''<ground_area id='' then
        (case ground_lines r buf bufs L of Some (L, bufs) \<Rightarrow> load_lines r bufs L | None \<Rightarrow> None)
      else load_lines r bufs L)"
  by pat_completeness auto
termination
  by (relation "measure (\<lambda>(r, bufs, L). length bufs)") (auto simp: less_Suc_eq_le dest: lines_left)

datatype load_result = Never_Ends | Out_Of_Bounds | Returned int map_state

text \<open>A buffer as a C string, and the whole function.  \<open>None\<close> is a file that cannot be opened.\<close>

definition c_string :: "string \<Rightarrow> string" where "c_string = takeWhile (\<lambda>c. c \<noteq> CHR 0x00)"

text \<open>Everything behind the opening of the file, on the buffers that both passes see.\<close>

definition load_map :: "(rat \<Rightarrow> rat) \<Rightarrow> (int \<Rightarrow> bool) \<Rightarrow> string list \<Rightarrow> map_state \<Rightarrow> load_result" where
  "load_map r alloc bufs m =
     (case map_get_map_info_count r alloc bufs m of
        None \<Rightarrow> Out_Of_Bounds
      | Some (ret, m) \<Rightarrow>
          if ret \<noteq> RET_OK then Returned RET_ERR m
          else (case load_lines r bufs \<lparr>l_map = m, l_blockCount = 0, l_nodeCount = 0, l_resdictionCount = 0, l_groundCount = 0\<rparr> of
                  None \<Rightarrow> Out_Of_Bounds
                | Some L \<Rightarrow>
                    if gu32MapErrCount (l_map L) = 0
                    then (case set_map_block_area r (l_map L) of Some m \<Rightarrow> Returned RET_OK m | None \<Rightarrow> Out_Of_Bounds)
                    else Returned RET_ERR (l_map L)))"

definition get_map_info :: "(rat \<Rightarrow> rat) \<Rightarrow> (int \<Rightarrow> bool) \<Rightarrow> string option \<Rightarrow> map_state \<Rightarrow> load_result" where
  "get_map_info r alloc file m =
     (case file of None \<Rightarrow> Returned RET_ERR m
      | Some content \<Rightarrow>
        (case read_lines 1024 (ifstream_of content) of None \<Rightarrow> Never_Ends | Some bufs \<Rightarrow> load_map r alloc (map c_string bufs) m))"

text \<open>The globals before the first call.\<close>

definition start_map :: map_state where
  "start_map = \<lparr>gMap = \<lparr>utm_min = zero_node, utm_max = zero_node, block_min = zero_node, block_max = zero_node, block_size = zero_node,
     block_count_x = 0, block_count_y = 0, block_count_z = 0, nodeCount = 0, resdictionCount = 0, groundCount = 0\<rparr>,
     pstRestriction = [], pstGround = [], pstNode = [], pstBlock = [], gu32MapErrCount = 0\<rparr>"

lemma get_map_info_short_lines:
  assumes "\<forall>l \<in> set (split_lines content). length l < 1024"
  shows "get_map_info r alloc (Some content) m = load_map r alloc (map c_string (split_lines content)) m"
  using assms by (simp add: get_map_info_def read_lines_split)

end
