(* ===== verification/Obstacle_Loaded.thy ===== *)
theory Obstacle_Loaded
  imports Obstacle_Load
begin

text \<open>
  What reading the map leaves: an invariant of the second pass, the shape of a map that was read without an
  error, and what is missing in one that was not.
\<close>

section \<open>The invariant of the second pass\<close>

text \<open>The arrays keep their sizes; the nodes of an area lie among those read so far; no block has an area yet.\<close>

definition nodes_upto :: "nat \<Rightarrow> PF_MAP_AREA_ST \<Rightarrow> bool" where
  "nodes_upto n a \<longleftrightarrow> 0 \<le> node_i a \<and> 0 \<le> node_count a \<and> node_i a + node_count a \<le> int n"

definition shape :: "map_state \<Rightarrow> PF_MAP_INFO_ST \<times> nat \<times> nat \<times> nat \<times> nat" where
  "shape m = (gMap m, length (pstRestriction m), length (pstGround m), length (pstNode m), length (pstBlock m))"

definition load_inv :: "loading \<Rightarrow> bool" where
  "load_inv L \<longleftrightarrow> l_nodeCount L \<le> length (pstNode (l_map L)) \<and> l_resdictionCount L \<le> length (pstRestriction (l_map L))
     \<and> l_groundCount L \<le> length (pstGround (l_map L)) \<and> fresh (l_map L)
     \<and> (\<forall>a \<in> set (pstRestriction (l_map L)). nodes_upto (l_nodeCount L) a)
     \<and> (\<forall>a \<in> set (pstGround (l_map L)). nodes_upto (l_nodeCount L) a)"

text \<open>A step of the second pass.\<close>

definition load_step :: "loading \<Rightarrow> loading \<Rightarrow> bool" where
  "load_step L L' \<longleftrightarrow> shape (l_map L') = shape (l_map L) \<and> l_nodeCount L \<le> l_nodeCount L' \<and> (load_inv L \<longrightarrow> load_inv L')"

lemma load_step_refl: "load_step L L" and load_step_trans: "\<lbrakk>load_step L L'; load_step L' L''\<rbrakk> \<Longrightarrow> load_step L L''"
  by (auto simp: load_step_def)

lemma load_step_err: "load_step L (load_err L)"
  by (simp add: load_step_def shape_def map_err_def load_inv_def fresh_def Let_def)

lemma replace_block_step:
  assumes "n < length (pstBlock (l_map L))" "resdiction_i b = resdiction_i (pstBlock (l_map L) ! n)"
  shows "load_step L (L\<lparr>l_map := (l_map L)\<lparr>pstBlock := (pstBlock (l_map L))[n := b]\<rparr>, l_blockCount := k\<rparr>)"
proof -
  have "\<forall>b \<in> set ((pstBlock (l_map L))[n := b]). resdiction_i b = 0" if "\<forall>b \<in> set (pstBlock (l_map L)). resdiction_i b = 0"
    using that assms set_update_subset_insert[of "pstBlock (l_map L)" n b] by (metis insertE nth_mem subsetD)
  then show ?thesis by (simp add: load_step_def shape_def load_inv_def fresh_def)
qed

lemma block_line_step: "block_line r buf L = Some (L', stop) \<Longrightarrow> load_step L L'"
  by (auto simp: block_line_def Let_def elem_at_def intro!: load_step_refl load_step_err replace_block_step
      split: option.splits if_splits bind_splits)

lemma nodes_upto_mono: "\<lbrakk>nodes_upto n a; n \<le> n'\<rbrakk> \<Longrightarrow> nodes_upto n' a"
  by (simp add: nodes_upto_def)

lemma add_node_step:
  assumes "l_nodeCount L < length (pstNode (l_map L))"
  shows "load_step L (L\<lparr>l_map := (l_map L)\<lparr>pstNode := (pstNode (l_map L))[l_nodeCount L := p]\<rparr>, l_nodeCount := l_nodeCount L + 1\<rparr>)"
  using assms nodes_upto_mono[of "l_nodeCount L" _ "l_nodeCount L + 1"]
  by (simp add: load_step_def shape_def load_inv_def fresh_def)

lemma node_line_step: "node_line r buf b L = Some (b', L') \<Longrightarrow> load_step L L'"
  using add_node_step[of L] load_step_err[of L] by (auto simp: node_line_def Let_def split: option.splits if_splits)

lemma points_loop_step: "points_loop r bufs b L = Some (b', L', bufs') \<Longrightarrow> load_step L L'"
  by (induction bufs arbitrary: b L)
    (auto intro: load_step_refl load_step_trans[OF node_line_step] split: if_splits bind_splits)

lemma give_points_upto: "\<lbrakk>nodes_upto n a; f + k \<le> n\<rbrakk> \<Longrightarrow> nodes_upto n (give_points ident f k b a)"
  by (simp add: give_points_def nodes_upto_def)

lemma in_area_set:
  assumes "in_area f k as = Some as'"
  shows "length as' = length as" "k < length as" "set as' \<subseteq> insert (f (as ! k)) (set as)"
  using assms set_update_subset_insert[of as k] by (auto simp: in_area_def split: if_splits)

text \<open>Operations on the area that is being read leave its nodes alone.\<close>

definition keeps_nodes :: "(PF_MAP_AREA_ST \<Rightarrow> PF_MAP_AREA_ST) \<Rightarrow> bool" where
  "keeps_nodes f \<longleftrightarrow> (\<forall>a. node_i (f a) = node_i a \<and> node_count (f a) = node_count a)"

lemma on_restriction_step:
  assumes "on_restriction f L = Some L'" "keeps_nodes f"
  shows "load_step L L'" "l_resdictionCount L < length (pstRestriction (l_map L'))" "l_resdictionCount L' = l_resdictionCount L"
proof -
  obtain as where a: "in_area f (l_resdictionCount L) (pstRestriction (l_map L)) = Some as"
    "L' = L\<lparr>l_map := (l_map L)\<lparr>pstRestriction := as\<rparr>\<rparr>"
    using assms(1) by (auto simp: on_restriction_def split: bind_splits)
  note s = in_area_set[OF a(1)]
  have "\<forall>x \<in> set as. nodes_upto n x" if "\<forall>x \<in> set (pstRestriction (l_map L)). nodes_upto n x" for n
    using s(2,3) that assms(2) by (fastforce simp: keeps_nodes_def nodes_upto_def)
  then show "load_step L L'" using a(2) s(1) by (auto simp: load_step_def shape_def load_inv_def fresh_def)
  show "l_resdictionCount L < length (pstRestriction (l_map L'))" "l_resdictionCount L' = l_resdictionCount L" using a(2) s by simp_all
qed

lemma on_ground_step:
  assumes "on_ground f L = Some L'" "keeps_nodes f"
  shows "load_step L L'" "l_groundCount L < length (pstGround (l_map L'))" "l_groundCount L' = l_groundCount L"
proof -
  obtain as where a: "in_area f (l_groundCount L) (pstGround (l_map L)) = Some as"
    "L' = L\<lparr>l_map := (l_map L)\<lparr>pstGround := as\<rparr>\<rparr>"
    using assms(1) by (auto simp: on_ground_def split: bind_splits)
  note s = in_area_set[OF a(1)]
  have "\<forall>x \<in> set as. nodes_upto n x" if "\<forall>x \<in> set (pstGround (l_map L)). nodes_upto n x" for n
    using s(2,3) that assms(2) by (fastforce simp: keeps_nodes_def nodes_upto_def)
  then show "load_step L L'" using a(2) s(1) by (auto simp: load_step_def shape_def load_inv_def fresh_def)
  show "l_groundCount L < length (pstGround (l_map L'))" "l_groundCount L' = l_groundCount L" using a(2) s by simp_all
qed

text \<open>A step within an area also keeps the index of the area.\<close>

definition area_step :: "(loading \<Rightarrow> nat) \<Rightarrow> loading \<Rightarrow> loading \<Rightarrow> bool" where
  "area_step k L L' \<longleftrightarrow> load_step L L' \<and> k L' = k L"

lemma area_step_refl: "area_step k L L" and area_step_trans: "\<lbrakk>area_step k L L'; area_step k L' L''\<rbrakk> \<Longrightarrow> area_step k L L''"
  by (auto simp: area_step_def load_step_refl elim: load_step_trans)

lemma set_field_step:
  assumes "set_field on f v L = Some L'" "\<And>x L L'. on (f x) L = Some L' \<Longrightarrow> area_step k L L'" "\<And>L. k (load_err L) = k L"
  shows "area_step k L L'"
  using assms(1) assms(2)[of _ L L'] assms(3)[of L] load_step_err[of L]
  by (auto simp: set_field_def area_step_def split: option.splits)

lemma set_name_step:
  assumes "set_name on v L = Some L'" "\<And>x L L'. on (\<lambda>a. a\<lparr>area_name := x\<rparr>) L = Some L' \<Longrightarrow> area_step k L L'" "\<And>L. k (load_err L) = k L"
  shows "area_step k L L'"
  using assms(1) assms(2)[of _ L L'] assms(3)[of L] load_step_err[of L]
  by (auto simp: set_name_def area_step_def split: option.splits if_splits)

lemma restriction_area_step: "\<lbrakk>on_restriction f L = Some L'; keeps_nodes f\<rbrakk> \<Longrightarrow> area_step l_resdictionCount L L'"
  using on_restriction_step by (simp add: area_step_def)

lemma ground_area_step: "\<lbrakk>on_ground f L = Some L'; keeps_nodes f\<rbrakk> \<Longrightarrow> area_step l_groundCount L L'"
  using on_ground_step by (simp add: area_step_def)

lemmas restriction_field_step = set_field_step[where on = on_restriction and k = l_resdictionCount, OF _ restriction_area_step]
  set_name_step[where on = on_restriction and k = l_resdictionCount, OF _ restriction_area_step]

lemmas ground_field_step = set_field_step[where on = on_ground and k = l_groundCount, OF _ ground_area_step]
  set_name_step[where on = on_ground and k = l_groundCount, OF _ ground_area_step]

lemma restriction_loop_step: "restriction_loop r bufs L = Some (L', bufs') \<Longrightarrow> area_step l_resdictionCount L L'"
  by (induction bufs arbitrary: L)
    (auto simp: keeps_nodes_def intro: area_step_refl area_step_trans[OF restriction_field_step(1)] area_step_trans[OF restriction_field_step(2)]
      split: if_splits bind_splits)

lemma ground_loop_step: "ground_loop r bufs L = Some (L', bufs') \<Longrightarrow> area_step l_groundCount L L'"
  by (induction bufs arbitrary: L)
    (auto simp: keeps_nodes_def intro: area_step_refl area_step_trans[OF ground_field_step(1)] area_step_trans[OF ground_field_step(2)]
      split: if_splits bind_splits)

lemma restriction_lines_step:
  assumes "restriction_lines r buf bufs L = Some (L', bufs')"
  shows "load_step L L'"
proof (cases "scan_int r buf '' <restriction_area id=\"%d\"''")
  case None
  then show ?thesis using assms load_step_err by (auto simp: restriction_lines_def)
next
  case (Some ident)
  then obtain L1 L2 where l: "on_restriction (\<lambda>a. a\<lparr>ID := ident\<rparr>) L = Some L1" "restriction_loop r bufs L1 = Some (L2, bufs')"
    "L' = L2\<lparr>l_resdictionCount := l_resdictionCount L2 + 1\<rparr>"
    using assms by (auto simp: restriction_lines_def split: bind_splits)
  note s1 = on_restriction_step[OF l(1)] and s2 = restriction_loop_step[OF l(2)]
  have "load_step L L2" using s1(1) s2 load_step_trans by (auto simp: area_step_def keeps_nodes_def)
  moreover have "l_resdictionCount L2 < length (pstRestriction (l_map L2))"
    using s1(2,3) s2 by (auto simp: area_step_def keeps_nodes_def load_step_def shape_def)
  then have "load_step L2 L'" using l(3) by (simp add: load_step_def shape_def load_inv_def)
  ultimately show ?thesis by (rule load_step_trans)
qed

lemma ground_lines_step:
  assumes "ground_lines r buf bufs L = Some (L', bufs')"
  shows "load_step L L'"
proof (cases "scan_int r buf '' <ground_area id=\"%d\"''")
  case None
  then show ?thesis using assms load_step_err by (auto simp: ground_lines_def)
next
  case (Some ident)
  then obtain L1 L2 where l: "on_ground (\<lambda>a. a\<lparr>ID := ident\<rparr>) L = Some L1" "ground_loop r bufs L1 = Some (L2, bufs')"
    "L' = L2\<lparr>l_groundCount := l_groundCount L2 + 1\<rparr>"
    using assms by (auto simp: ground_lines_def split: bind_splits)
  note s1 = on_ground_step[OF l(1)] and s2 = ground_loop_step[OF l(2)]
  have "load_step L L2" using s1(1) s2 load_step_trans by (auto simp: area_step_def keeps_nodes_def)
  moreover have "l_groundCount L2 < length (pstGround (l_map L2))"
    using s1(2,3) s2 by (auto simp: area_step_def keeps_nodes_def load_step_def shape_def)
  then have "load_step L2 L'" using l(3) by (simp add: load_step_def shape_def load_inv_def)
  ultimately show ?thesis by (rule load_step_trans)
qed

text \<open>The nodes between two counts go to the first areas of a list.\<close>

lemma give_points_all:
  assumes "\<forall>a \<in> set as. nodes_upto n a" "f \<le> n"
  shows "\<forall>a \<in> set (map (give_points ident f (n - f) b) (take k as) @ drop k as). nodes_upto n a"
  using assms give_points_upto[of n _ f "n - f" ident b] by (auto dest: in_set_takeD in_set_dropD)

lemma points_lines_step:
  assumes "points_lines r buf bufs L = Some (L', bufs')"
  shows "load_step L L'"
proof (cases "scan_int r buf '' <points id=\"%d\"''")
  case None
  then show ?thesis using assms load_step_err by (auto simp: points_lines_def)
next
  case (Some ident)
  obtain b L1 bufs1 where l: "points_loop r bufs (start_box r) L = Some (b, L1, bufs1)"
    using assms Some by (auto simp: points_lines_def split: bind_splits)
  define give where "give = give_points ident (l_nodeCount L) (l_nodeCount L1 - l_nodeCount L) b"
  define all where "all k as = map give (take k as) @ drop k as" for k as
  define m where "m = (l_map L1)\<lparr>pstRestriction := all (l_resdictionCount L1) (pstRestriction (l_map L1)),
       pstGround := all (l_groundCount L1) (pstGround (l_map L1))\<rparr>"
  have L': "L' = L1\<lparr>l_map := m\<rparr> \<or> L' = L1\<lparr>l_map := map_err m\<rparr>"
    using assms Some l by (auto simp: points_lines_def Let_def m_def give_def all_def split: if_splits)
  have s: "load_step L L1" by (rule points_loop_step[OF l])
  then have "l_nodeCount L \<le> l_nodeCount L1" by (simp add: load_step_def)
  note g = give_points_all[OF _ this, of _ ident b, folded give_def, folded all_def]
  have given: "nodes_upto (l_nodeCount L1) a" if "a \<in> set (all k as)" "\<forall>a \<in> set as. nodes_upto (l_nodeCount L1) a" for a k as
    using g[OF that(2)] that(1) by blast
  have n: "length (all k as) = length as" for k as by (cases "k \<le> length as") (simp_all add: all_def)
  have "load_step L1 (L1\<lparr>l_map := m\<rparr>)"
    by (auto simp: load_step_def shape_def load_inv_def fresh_def m_def n intro: given)
  moreover have "load_step (L1\<lparr>l_map := m\<rparr>) (L1\<lparr>l_map := map_err m\<rparr>)" using load_step_err[of "L1\<lparr>l_map := m\<rparr>"] by (simp add: comp_def)
  ultimately show ?thesis using L' load_step_trans s by blast
qed

lemma load_lines_step: "load_lines r bufs L = Some L' \<Longrightarrow> load_step L L'"
proof (induction r bufs L rule: load_lines.induct)
  case (2 r buf bufs L)
  have one: "load_step L L'" if "load_step L L1" "load_step L1 L'" for L1 by (rule load_step_trans[OF that])
  show ?case
  proof (cases "has buf ''<block id=''")
    case True
    obtain L1 stop where l: "block_line r buf L = Some (L1, stop)" using 2(6) True by (auto split: option.splits)
    note s = block_line_step[OF l]
    show ?thesis
    proof (cases stop)
      case False
      then have "load_step L1 L'" using 2(1,6) True l by simp
      then show ?thesis by (rule one[OF s])
    qed (use 2(6) True l s in simp)
  next
    case False
    then show ?thesis using 2(2-6)
      by (auto dest!: points_lines_step restriction_lines_step ground_lines_step intro: one split: option.splits if_splits)
  qed
qed (simp add: load_step_refl)

section \<open>The result\<close>

definition start_load :: "map_state \<Rightarrow> loading" where
  "start_load m = \<lparr>l_map = m, l_blockCount = 0, l_nodeCount = 0, l_resdictionCount = 0, l_groundCount = 0\<rparr>"

definition arrays :: "map_state \<Rightarrow> PF_MAP_AREA_ST list \<times> PF_MAP_AREA_ST list \<times> PF_MAP_XYZ_ST list \<times> PF_MAP_BLOCK_ST list" where
  "arrays m = (pstRestriction m, pstGround m, pstNode m, pstBlock m)"

lemma count_line_arrays: "arrays (count_line r buf m) = arrays m"
  by (simp add: count_line_def arrays_def set_xyz_def map_err_def split: option.split)

lemma count_lines_arrays: "arrays (fold (count_line r) bufs m) = arrays m"
  by (induction bufs arbitrary: m) (simp_all add: count_line_arrays)

text \<open>The arrays have the sizes that were counted.\<close>

definition sized :: "map_state \<Rightarrow> bool" where
  "sized m \<longleftrightarrow> length (pstRestriction m) = resdictionCount (gMap m) \<and> length (pstGround m) = groundCount (gMap m)
     \<and> length (pstNode m) = nodeCount (gMap m) \<and> int (length (pstBlock m)) = cols m * rows m \<and> 0 < cols m \<and> 0 \<le> rows m"

lemma first_pass:
  assumes "map_get_map_info_count r alloc bufs m = Some (ret, m')"
  shows "ret = RET_OK \<and> sized m' \<and> load_inv (start_load m') \<or> ret = RET_ERR \<and> arrays m' = arrays m"
proof -
  define m0 where "m0 = fold (count_line r) bufs (m\<lparr>gMap := (gMap m)\<lparr>nodeCount := 0, resdictionCount := 0, groundCount := 0,
    block_count_x := 0, block_count_y := 0, block_count_z := 0\<rparr>\<rparr>)"
  have a: "arrays m0 = arrays m" unfolding m0_def count_lines_arrays by (simp add: arrays_def)
  obtain cx cy cz where b: "block_count r (px (block_min (gMap m0))) (px (block_max (gMap m0))) (px (block_size (gMap m0))) = Some cx"
    "block_count r (py (block_min (gMap m0))) (py (block_max (gMap m0))) (py (block_size (gMap m0))) = Some cy"
    "block_count r (pz (block_min (gMap m0))) (pz (block_max (gMap m0))) (pz (block_size (gMap m0))) = Some cz"
    using assms by (auto simp: map_get_map_info_count_def Let_def m0_def[symmetric] split: bind_splits)
  define g where "g = (gMap m0)\<lparr>block_count_x := cx, block_count_y := cy, block_count_z := cz\<rparr>"
  have c: "(ret, m') = (RET_ERR, m0\<lparr>gMap := g\<rparr>) \<or> 0 < cx \<and> 0 \<le> cy \<and> (ret, m') = (RET_OK, m0\<lparr>gMap := g,
      pstRestriction := replicate (resdictionCount g) zero_area, pstGround := replicate (groundCount g) zero_area,
      pstNode := replicate (nodeCount g) zero_node, pstBlock := replicate (nat (cx * cy)) zero_block\<rparr>)"
    using assms by (auto simp: map_get_map_info_count_def Let_def m0_def[symmetric] b g_def not_le split: if_splits)
  from c show ?thesis
  proof
    assume "(ret, m') = (RET_ERR, m0\<lparr>gMap := g\<rparr>)"
    then show ?thesis using a by (simp add: arrays_def)
  next
    assume "0 < cx \<and> 0 \<le> cy \<and> (ret, m') = (RET_OK, m0\<lparr>gMap := g,
      pstRestriction := replicate (resdictionCount g) zero_area, pstGround := replicate (groundCount g) zero_area,
      pstNode := replicate (nodeCount g) zero_node, pstBlock := replicate (nat (cx * cy)) zero_block\<rparr>)"
    then show ?thesis
      by (auto simp: g_def sized_def load_inv_def start_load_def fresh_def zero_block_def zero_area_def nodes_upto_def)
  qed
qed

lemma set_map_block_area_sized: "sized (m\<lparr>pstBlock := bs\<rparr>) \<longleftrightarrow> sized (m\<lparr>pstBlock := bs'\<rparr>)" if "length bs = length bs'"
  using that by (simp add: sized_def)

lemma load_inv_areas: "\<lbrakk>load_inv L; sized (l_map L)\<rbrakk> \<Longrightarrow> areas_ok (l_map L) \<and> fresh (l_map L)"
  by (fastforce simp: load_inv_def sized_def areas_ok_def area_ok_def nodes_upto_def)

lemma get_map_info_returned:
  assumes "get_map_info r alloc file m = Returned ret m'"
  obtains (ok) m1 where "ret = RET_OK" "set_map_block_area r m1 = Some m'" "sized m1" "areas_ok m1" "fresh m1"
  | (second) "ret = RET_ERR" "sized m'" "fresh m'"
  | (first) "ret = RET_ERR" "arrays m' = arrays m"
proof -
  have n: "RET_ERR \<noteq> RET_OK" by (simp add: RET_ERR_def RET_OK_def)
  consider "ret = RET_ERR" "m' = m"
    | bufs ret1 m1 where "map_get_map_info_count r alloc bufs m = Some (ret1, m1)" "ret1 \<noteq> RET_OK" "ret = RET_ERR" "m' = m1"
    | bufs m1 L where "map_get_map_info_count r alloc bufs m = Some (RET_OK, m1)" "load_lines r bufs (start_load m1) = Some L"
        "ret = RET_ERR" "m' = l_map L"
    | bufs m1 L where "map_get_map_info_count r alloc bufs m = Some (RET_OK, m1)" "load_lines r bufs (start_load m1) = Some L"
        "ret = RET_OK" "set_map_block_area r (l_map L) = Some m'"
    using assms by (auto simp: get_map_info_def load_map_def start_load_def[symmetric] split: option.splits if_splits)
  then show thesis
  proof cases
    case 1
    then show thesis using first by simp
  next
    case 2
    then show thesis using first_pass[OF 2(1)] first by auto
  next
    case 3
    have "load_inv (start_load m1)" "sized m1" using first_pass[OF 3(1)] n by auto
    then have "load_inv L" "sized (l_map L)" using load_lines_step[OF 3(2)] by (auto simp: load_step_def shape_def sized_def start_load_def)
    then show thesis using second 3 load_inv_areas by blast
  next
    case 4
    have "load_inv (start_load m1)" "sized m1" using first_pass[OF 4(1)] n by auto
    then have "load_inv L" "sized (l_map L)" using load_lines_step[OF 4(2)] by (auto simp: load_step_def shape_def sized_def start_load_def)
    then show thesis using ok 4 load_inv_areas by blast
  qed
qed

end
