(* ===== verification/Obstacle_Memory.thy ===== *)
theory Obstacle_Memory
  imports Obstacle_Loaded
begin

text \<open>
  Reading the map stays within the arrays: the first pass counts at least as many nodes and areas as the
  second one stores, provided that no line carries the tags of two of them.
\<close>

section \<open>Tags\<close>

abbreviation "node_tag buf \<equiv> has buf ''<node x=''"
abbreviation "restriction_tag buf \<equiv> has buf ''<restriction_area id=''"
abbreviation "ground_tag buf \<equiv> has buf ''<ground_area id=''"

definition separate_tags :: "string \<Rightarrow> bool" where
  "separate_tags buf \<longleftrightarrow> (restriction_tag buf \<longrightarrow> \<not> node_tag buf) \<and> (ground_tag buf \<longrightarrow> \<not> node_tag buf \<and> \<not> restriction_tag buf)"

text \<open>The lines of the file with a tag.\<close>

definition tagged :: "(string \<Rightarrow> bool) \<Rightarrow> string list \<Rightarrow> nat" where "tagged t bufs = length (filter t bufs)"

lemma tagged_simps [simp]: "tagged t [] = 0" "tagged t (buf # bufs) = (if t buf then 1 else 0) + tagged t bufs"
  by (simp_all add: tagged_def)

definition counts :: "map_state \<Rightarrow> nat \<times> nat \<times> nat" where
  "counts m = (nodeCount (gMap m), resdictionCount (gMap m), groundCount (gMap m))"

lemma counts_xyz:
  "counts (set_xyz (\<lambda>v g. g\<lparr>utm_min := v\<rparr>) p m) = counts m" "counts (set_xyz (\<lambda>v g. g\<lparr>utm_max := v\<rparr>) p m) = counts m"
  "counts (set_xyz (\<lambda>v g. g\<lparr>block_min := v\<rparr>) p m) = counts m" "counts (set_xyz (\<lambda>v g. g\<lparr>block_max := v\<rparr>) p m) = counts m"
  "counts (set_xyz (\<lambda>v g. g\<lparr>block_size := v\<rparr>) p m) = counts m"
  by (simp_all add: set_xyz_def counts_def map_err_def split: option.split)

lemma count_line_counts:
  assumes "separate_tags buf" "counts m = (a, b, c)"
  shows "counts (count_line r buf m) =
    (a + (if node_tag buf then 1 else 0), b + (if restriction_tag buf then 1 else 0), c + (if ground_tag buf then 1 else 0))"
proof -
  consider "node_tag buf" | "\<not> node_tag buf" "restriction_tag buf" | "\<not> node_tag buf" "\<not> restriction_tag buf" "ground_tag buf"
    | "\<not> node_tag buf" "\<not> restriction_tag buf" "\<not> ground_tag buf" by blast
  then show ?thesis
  proof cases
    case 4
    have "counts (count_line r buf m) = counts m" unfolding count_line_def using 4 by (simp add: counts_xyz)
    then show ?thesis using 4 assms(2) by simp
  qed (use assms in \<open>simp_all add: separate_tags_def count_line_def counts_def\<close>)
qed

lemma count_lines_counts:
  assumes "\<forall>buf \<in> set bufs. separate_tags buf" "counts m = (a, b, c)"
  shows "counts (fold (count_line r) bufs m) = (a + tagged (\<lambda>l. node_tag l) bufs, b + tagged (\<lambda>l. restriction_tag l) bufs, c + tagged (\<lambda>l. ground_tag l) bufs)"
  using assms
proof (induction bufs arbitrary: m a b c)
  case (Cons buf bufs)
  then show ?case using count_line_counts[of buf m a b c r] by simp
qed simp

lemma first_pass_counts:
  assumes "map_get_map_info_count r alloc bufs m = Some (RET_OK, m')" "\<forall>buf \<in> set bufs. separate_tags buf"
  shows "counts m' = (tagged (\<lambda>l. node_tag l) bufs, tagged (\<lambda>l. restriction_tag l) bufs, tagged (\<lambda>l. ground_tag l) bufs)"
proof -
  let ?m0 = "m\<lparr>gMap := (gMap m)\<lparr>nodeCount := 0, resdictionCount := 0, groundCount := 0, block_count_x := 0, block_count_y := 0,
    block_count_z := 0\<rparr>\<rparr>"
  have n: "RET_ERR \<noteq> RET_OK" by (simp add: RET_ERR_def RET_OK_def)
  have "counts (fold (count_line r) bufs ?m0) = (tagged (\<lambda>l. node_tag l) bufs, tagged (\<lambda>l. restriction_tag l) bufs, tagged (\<lambda>l. ground_tag l) bufs)"
    using count_lines_counts[OF assms(2), of ?m0 0 0 0 r] by (simp add: counts_def)
  moreover have "counts m' = counts (fold (count_line r) bufs ?m0)"
    using assms(1) n by (auto simp: map_get_map_info_count_def Let_def counts_def split: bind_splits if_splits)
  ultimately show ?thesis by simp
qed

section \<open>Room for what is left\<close>

definition space_left :: "loading \<Rightarrow> string list \<Rightarrow> bool" where
  "space_left L bufs \<longleftrightarrow> l_nodeCount L + tagged (\<lambda>l. node_tag l) bufs \<le> length (pstNode (l_map L))
     \<and> l_resdictionCount L + tagged (\<lambda>l. restriction_tag l) bufs \<le> length (pstRestriction (l_map L))
     \<and> l_groundCount L + tagged (\<lambda>l. ground_tag l) bufs \<le> length (pstGround (l_map L))"

lemma room_behind: "space_left L (buf # bufs) \<Longrightarrow> space_left L bufs"
  by (auto simp: space_left_def)

lemma room_err: "space_left (load_err L) bufs = space_left L bufs"
  by (simp add: space_left_def map_err_def)

text \<open>The name of an area fits into its array.\<close>

definition name_fits :: "(rat \<Rightarrow> rat) \<Rightarrow> string \<Rightarrow> bool" where
  "name_fits r buf \<longleftrightarrow> (case scan_text r buf '' <name val=\"%s\"'' of Some t \<Rightarrow> length t < 68 | None \<Rightarrow> True)"

lemma points_loop_room: "space_left L bufs \<Longrightarrow> \<exists>b' L' bufs'. points_loop r bufs b L = Some (b', L', bufs') \<and> space_left L' bufs'"
proof (induction bufs arbitrary: b L)
  case (Cons buf bufs)
  show ?case
  proof (cases "node_tag buf")
    case True
    have "\<exists>b' L'. node_line r buf b L = Some (b', L') \<and> space_left L' bufs"
      using Cons.prems True by (auto simp: node_line_def Let_def space_left_def map_err_def split: option.splits)
    then show ?thesis using True Cons.IH by fastforce
  next
    case False
    then show ?thesis using Cons.IH[OF room_behind[OF Cons.prems]] room_behind[OF Cons.prems] by auto
  qed
qed simp

lemma points_lines_room:
  assumes "space_left L bufs"
  shows "\<exists>L' bufs'. points_lines r buf bufs L = Some (L', bufs') \<and> space_left L' bufs'"
proof (cases "scan_int r buf '' <points id=\"%d\"''")
  case None
  then show ?thesis using assms by (simp add: points_lines_def room_err)
next
  case (Some ident)
  obtain b L1 bufs1 where "points_loop r bufs (start_box r) L = Some (b, L1, bufs1)" "space_left L1 bufs1"
    using points_loop_room[OF assms] by blast
  then show ?thesis using Some by (auto simp: points_lines_def Let_def space_left_def map_err_def)
qed

text \<open>Within an area there is room for it too.\<close>

definition in_restriction :: "loading \<Rightarrow> string list \<Rightarrow> bool" where
  "in_restriction L bufs \<longleftrightarrow> space_left (L\<lparr>l_resdictionCount := l_resdictionCount L + 1\<rparr>) bufs"

definition in_ground :: "loading \<Rightarrow> string list \<Rightarrow> bool" where
  "in_ground L bufs \<longleftrightarrow> space_left (L\<lparr>l_groundCount := l_groundCount L + 1\<rparr>) bufs"

lemma in_area_behind: "in_restriction L (buf # bufs) \<Longrightarrow> in_restriction L bufs" "in_ground L (buf # bufs) \<Longrightarrow> in_ground L bufs"
  by (auto simp: in_restriction_def in_ground_def intro: room_behind)

lemma on_area_room:
  "in_restriction L bufs \<Longrightarrow> \<exists>L'. on_restriction f L = Some L' \<and> in_restriction L' bufs"
  "in_ground L bufs \<Longrightarrow> \<exists>L'. on_ground f L = Some L' \<and> in_ground L' bufs"
  by (auto simp: on_restriction_def on_ground_def in_area_def in_restriction_def in_ground_def space_left_def)

lemma set_field_room:
  "in_restriction L bufs \<Longrightarrow> \<exists>L'. set_field on_restriction f v L = Some L' \<and> in_restriction L' bufs"
  "in_ground L bufs \<Longrightarrow> \<exists>L'. set_field on_ground f v L = Some L' \<and> in_ground L' bufs"
  using on_area_room by (auto simp: set_field_def in_restriction_def in_ground_def space_left_def map_err_def split: option.split)

lemma set_name_room:
  assumes "name_fits r buf"
  shows "in_restriction L bufs \<Longrightarrow> \<exists>L'. set_name on_restriction (scan_text r buf '' <name val=\"%s\"'') L = Some L' \<and> in_restriction L' bufs"
    "in_ground L bufs \<Longrightarrow> \<exists>L'. set_name on_ground (scan_text r buf '' <name val=\"%s\"'') L = Some L' \<and> in_ground L' bufs"
  using assms on_area_room
  by (auto simp: name_fits_def set_name_def in_restriction_def in_ground_def space_left_def map_err_def split: option.split)

lemma bind_room:
  "\<lbrakk>\<exists>L. X = Some L \<and> P L; \<And>L. P L \<Longrightarrow> \<exists>L' bufs'. g L = Some (L', bufs') \<and> Q L' bufs'\<rbrakk> \<Longrightarrow>
    \<exists>L' bufs'. X \<bind> g = Some (L', bufs') \<and> Q L' bufs'"
  by auto

lemma restriction_loop_room:
  "\<lbrakk>in_restriction L bufs; \<forall>buf \<in> set bufs. has buf ''<name val='' \<longrightarrow> name_fits r buf\<rbrakk> \<Longrightarrow>
    \<exists>L' bufs'. restriction_loop r bufs L = Some (L', bufs') \<and> in_restriction L' bufs'"
proof (induction bufs arbitrary: L)
  case (Cons buf bufs)
  note b = in_area_behind(1)[OF Cons.prems(1)]
  have go: "\<exists>L' bufs'. restriction_loop r bufs L1 = Some (L', bufs') \<and> in_restriction L' bufs'" if "in_restriction L1 bufs" for L1
    using Cons.IH[OF that] Cons.prems(2) by simp
  have fits: "has buf ''<name val='' \<Longrightarrow> name_fits r buf" using Cons.prems(2) by simp
  show ?case
    by (simp only: restriction_loop.simps split: if_split)
      (intro conjI impI bind_room[OF set_name_room(1)[OF fits b] go] bind_room[OF set_field_room(1)[OF b] go] go b exI[of _ L] exI[of _ bufs] refl)
qed simp

lemma ground_loop_room:
  "\<lbrakk>in_ground L bufs; \<forall>buf \<in> set bufs. has buf ''<name val='' \<longrightarrow> name_fits r buf\<rbrakk> \<Longrightarrow>
    \<exists>L' bufs'. ground_loop r bufs L = Some (L', bufs') \<and> in_ground L' bufs'"
proof (induction bufs arbitrary: L)
  case (Cons buf bufs)
  note b = in_area_behind(2)[OF Cons.prems(1)]
  have go: "\<exists>L' bufs'. ground_loop r bufs L1 = Some (L', bufs') \<and> in_ground L' bufs'" if "in_ground L1 bufs" for L1
    using Cons.IH[OF that] Cons.prems(2) by simp
  have fits: "has buf ''<name val='' \<Longrightarrow> name_fits r buf" using Cons.prems(2) by simp
  show ?case
    by (simp only: ground_loop.simps split: if_split)
      (intro conjI impI bind_room[OF set_name_room(2)[OF fits b] go] bind_room[OF set_field_room(2)[OF b] go] go b exI[of _ L] exI[of _ bufs] refl)
qed simp

lemma restriction_lines_room:
  assumes "space_left L (buf # bufs)" "restriction_tag buf" "\<forall>buf \<in> set bufs. has buf ''<name val='' \<longrightarrow> name_fits r buf"
  shows "\<exists>L' bufs'. restriction_lines r buf bufs L = Some (L', bufs') \<and> space_left L' bufs'"
proof (cases "scan_int r buf '' <restriction_area id=\"%d\"''")
  case None
  then show ?thesis using room_behind[OF assms(1)] by (simp add: restriction_lines_def room_err)
next
  case (Some ident)
  have "in_restriction L bufs" using assms(1,2) by (simp add: in_restriction_def space_left_def)
  then obtain L1 where "on_restriction (\<lambda>a. a\<lparr>ID := ident\<rparr>) L = Some L1" "in_restriction L1 bufs" using on_area_room(1) by blast
  moreover from this(2) obtain L2 bufs' where "restriction_loop r bufs L1 = Some (L2, bufs')" "in_restriction L2 bufs'"
    using restriction_loop_room[OF _ assms(3)] by blast
  ultimately show ?thesis using Some by (simp add: restriction_lines_def in_restriction_def)
qed

lemma ground_lines_room:
  assumes "space_left L (buf # bufs)" "ground_tag buf" "\<forall>buf \<in> set bufs. has buf ''<name val='' \<longrightarrow> name_fits r buf"
  shows "\<exists>L' bufs'. ground_lines r buf bufs L = Some (L', bufs') \<and> space_left L' bufs'"
proof (cases "scan_int r buf '' <ground_area id=\"%d\"''")
  case None
  then show ?thesis using room_behind[OF assms(1)] by (simp add: ground_lines_def room_err)
next
  case (Some ident)
  have "in_ground L bufs" using assms(1,2) by (simp add: in_ground_def space_left_def)
  then obtain L1 where "on_ground (\<lambda>a. a\<lparr>ID := ident\<rparr>) L = Some L1" "in_ground L1 bufs" using on_area_room(2) by blast
  moreover from this(2) obtain L2 bufs' where "ground_loop r bufs L1 = Some (L2, bufs')" "in_ground L2 bufs'"
    using ground_loop_room[OF _ assms(3)] by blast
  ultimately show ?thesis using Some by (simp add: ground_lines_def in_ground_def)
qed

section \<open>Blocks\<close>

text \<open>A block line has coordinates that fit the map or lie to the right of it or above it.\<close>

definition block_fits :: "(rat \<Rightarrow> rat) \<Rightarrow> PF_MAP_INFO_ST \<Rightarrow> string \<Rightarrow> bool" where
  "block_fits r g buf \<longleftrightarrow>
     (case strstr buf '' x='' of None \<Rightarrow> False
      | Some pstr \<Rightarrow>
        (case scan_xyz r pstr '' x=\"%lf\" y=\"%lf\" z=\"%lf\"'' of None \<Rightarrow> True
         | Some p \<Rightarrow>
           (case (block_count r (px (block_min g)) (px p) (px (block_size g)), block_count r (py (block_min g)) (py p) (py (block_size g)),
                  block_count r (pz (block_min g)) (pz p) (pz (block_size g)), S32_of (r (pz p * 1000))) of
              (Some xi, Some yi, Some zi, Some zmax) \<Rightarrow> block_count_x g \<le> xi \<or> block_count_y g \<le> yi \<or> 0 \<le> xi \<and> 0 \<le> yi
            | _ \<Rightarrow> False)))"

lemma block_line_room:
  assumes "space_left L bufs" "block_fits r (gMap (l_map L)) buf" "sized (l_map L)"
  shows "\<exists>L' stop. block_line r buf L = Some (L', stop) \<and> space_left L' bufs"
proof -
  let ?m = "l_map L"
  obtain pstr where s: "strstr buf '' x='' = Some pstr" using assms(2) by (auto simp: block_fits_def split: option.splits)
  show ?thesis
  proof (cases "scan_xyz r pstr '' x=\"%lf\" y=\"%lf\" z=\"%lf\"''")
    case None
    then show ?thesis using s assms(1) by (auto simp: block_line_def Let_def room_err)
  next
    case (Some p)
    obtain xi yi zi zmax where c: "block_count r (px (block_min (gMap ?m))) (px p) (px (block_size (gMap ?m))) = Some xi"
      "block_count r (py (block_min (gMap ?m))) (py p) (py (block_size (gMap ?m))) = Some yi"
      "block_count r (pz (block_min (gMap ?m))) (pz p) (pz (block_size (gMap ?m))) = Some zi" "S32_of (r (pz p * 1000)) = Some zmax"
      "cols ?m \<le> xi \<or> rows ?m \<le> yi \<or> 0 \<le> xi \<and> 0 \<le> yi"
      using assms(2) s Some by (auto simp: block_fits_def split: option.splits)
    show ?thesis
    proof (cases "cols ?m \<le> xi \<or> rows ?m \<le> yi")
      case True
      then show ?thesis using s Some c(1,2) assms(1) by (auto simp: block_line_def Let_def block_count_def)
    next
      case False
      then have "in_grid ?m (yi, xi)" using c(5) by (auto simp: in_grid_def)
      moreover have "int (length (pstBlock ?m)) = cols ?m * rows ?m" using assms(3) by (simp add: sized_def)
      ultimately have "0 \<le> yi * cols ?m + xi" "yi * cols ?m + xi < int (length (pstBlock ?m))" using cell_index by blast+
      then show ?thesis using s Some c(1-4) assms(1) False by (auto simp: block_line_def Let_def block_count_def elem_at_def space_left_def)
    qed
  qed
qed

text \<open>Files whose lines keep to this.\<close>

definition good_line :: "(rat \<Rightarrow> rat) \<Rightarrow> PF_MAP_INFO_ST \<Rightarrow> string \<Rightarrow> bool" where
  "good_line r g buf \<longleftrightarrow> separate_tags buf \<and> (has buf ''<name val='' \<longrightarrow> name_fits r buf) \<and> (has buf ''<block id='' \<longrightarrow> block_fits r g buf)"

lemma points_loop_within: "points_loop r bufs b L = Some (b', L', bufs') \<Longrightarrow> set bufs' \<subseteq> set bufs"
  by (induction bufs arbitrary: b L) (auto split: if_splits bind_splits)

lemma restriction_loop_within: "restriction_loop r bufs L = Some (L', bufs') \<Longrightarrow> set bufs' \<subseteq> set bufs"
  by (induction bufs arbitrary: L) (auto split: if_splits bind_splits)

lemma ground_loop_within: "ground_loop r bufs L = Some (L', bufs') \<Longrightarrow> set bufs' \<subseteq> set bufs"
  by (induction bufs arbitrary: L) (auto split: if_splits bind_splits)

lemma lines_within:
  "points_lines r buf bufs L = Some (L', bufs') \<Longrightarrow> set bufs' \<subseteq> set bufs"
  "restriction_lines r buf bufs L = Some (L', bufs') \<Longrightarrow> set bufs' \<subseteq> set bufs"
  "ground_lines r buf bufs L = Some (L', bufs') \<Longrightarrow> set bufs' \<subseteq> set bufs"
  by (auto simp: points_lines_def restriction_lines_def ground_lines_def Let_def
      dest: points_loop_within restriction_loop_within ground_loop_within split: option.splits bind_splits)

definition going :: "(rat \<Rightarrow> rat) \<Rightarrow> PF_MAP_INFO_ST \<Rightarrow> loading \<Rightarrow> string list \<Rightarrow> bool" where
  "going r g L bufs \<longleftrightarrow> space_left L bufs \<and> sized (l_map L) \<and> gMap (l_map L) = g \<and> (\<forall>buf \<in> set bufs. good_line r g buf)"

lemma going_step:
  "\<lbrakk>going r g L (buf # bufs); load_step L L'; space_left L' bufs'; set bufs' \<subseteq> set bufs\<rbrakk> \<Longrightarrow> going r g L' bufs'"
  by (auto simp: going_def load_step_def shape_def sized_def)

lemma load_lines_some: "going r g L bufs \<Longrightarrow> load_lines r bufs L \<noteq> None"
proof (induction r bufs L rule: load_lines.induct)
  case (2 r buf bufs L)
  have good: "good_line r g buf" "space_left L (buf # bufs)" "sized (l_map L)" "gMap (l_map L) = g"
    "\<forall>buf \<in> set bufs. has buf ''<name val='' \<longrightarrow> name_fits r buf"
    using "2.prems" by (auto simp: going_def good_line_def)
  note go = going_step[OF "2.prems"]
  show ?case
  proof (cases "has buf ''<block id=''")
    case True
    obtain L1 stop where l: "block_line r buf L = Some (L1, stop)" "space_left L1 bufs"
    proof -
      have "block_fits r (gMap (l_map L)) buf" using good(1,4) True by (simp add: good_line_def)
      from block_line_room[OF room_behind[OF good(2)] this good(3)] that show thesis by blast
    qed
    have "going r g L1 bufs" by (rule go[OF block_line_step[OF l(1)] l(2) subset_refl])
    then show ?thesis using "2.IH"(1) True l(1) by (cases stop) simp_all
  next
    case nb: False
    show ?thesis
    proof (cases "has buf ''<points id=''")
      case True
      obtain L1 bufs1 where l: "points_lines r buf bufs L = Some (L1, bufs1)" "space_left L1 bufs1"
        using points_lines_room[OF room_behind[OF good(2)]] by blast
      have "going r g L1 bufs1" by (rule go[OF points_lines_step[OF l(1)] l(2) lines_within(1)[OF l(1)]])
      then show ?thesis using "2.IH"(2) nb True l(1) by simp
    next
      case np: False
      show ?thesis
      proof (cases "restriction_tag buf")
        case True
        obtain L1 bufs1 where l: "restriction_lines r buf bufs L = Some (L1, bufs1)" "space_left L1 bufs1"
          using restriction_lines_room[OF good(2) True good(5)] by blast
        have "going r g L1 bufs1" by (rule go[OF restriction_lines_step[OF l(1)] l(2) lines_within(2)[OF l(1)]])
        then show ?thesis using "2.IH"(3) nb np True l(1) by simp
      next
        case nr: False
        show ?thesis
        proof (cases "ground_tag buf")
          case True
          obtain L1 bufs1 where l: "ground_lines r buf bufs L = Some (L1, bufs1)" "space_left L1 bufs1"
            using ground_lines_room[OF good(2) True good(5)] by blast
          have "going r g L1 bufs1" by (rule go[OF ground_lines_step[OF l(1)] l(2) lines_within(3)[OF l(1)]])
          then show ?thesis using "2.IH"(4) nb np nr True l(1) by simp
        next
          case False
          have "going r g L bufs" by (rule go[OF load_step_refl room_behind[OF good(2)] subset_refl])
          then show ?thesis using "2.IH"(5) nb np nr False by simp
        qed
      qed
    qed
  qed
qed simp

lemma load_map_in_bounds:
  assumes "map_get_map_info_count r alloc bufs m = Some (ret, m1)" "\<forall>buf \<in> set bufs. good_line r (gMap m1) buf"
    "resdictionCount (gMap m1) \<le> 127"
  shows "load_map r alloc bufs m \<noteq> Out_Of_Bounds"
proof (cases "ret = RET_OK")
  case False
  then show ?thesis using assms(1) by (simp add: load_map_def)
next
  case True
  have s: "sized m1" "load_inv (start_load m1)" using first_pass[OF assms(1)] True by (auto simp: RET_OK_def RET_ERR_def)
  have "\<forall>buf \<in> set bufs. separate_tags buf" using assms(2) by (simp add: good_line_def)
  then have "counts m1 = (tagged (\<lambda>l. node_tag l) bufs, tagged (\<lambda>l. restriction_tag l) bufs, tagged (\<lambda>l. ground_tag l) bufs)"
    using first_pass_counts assms(1) True by blast
  then have "going r (gMap m1) (start_load m1) bufs"
    using s(1) assms(2) by (simp add: going_def space_left_def counts_def sized_def start_load_def)
  then obtain L where L: "load_lines r bufs (start_load m1) = Some L" using load_lines_some by blast
  have "load_inv L" "sized (l_map L)" "gMap (l_map L) = gMap m1"
    using load_lines_step[OF L] s by (auto simp: load_step_def shape_def sized_def start_load_def)
  moreover from this have "areas_ok (l_map L)" "fresh (l_map L)" using load_inv_areas by blast+
  ultimately have "set_map_block_area r (l_map L) \<noteq> None"
    using set_map_block_area_outcome[of "l_map L" r] assms(3) by (auto simp: sized_def)
  then show ?thesis using assms(1) True L by (auto simp: load_map_def start_load_def split: option.splits)
qed

end
