(* ===== verification/Flyto_Course.thy ===== *)
theory Flyto_Course
  imports Flyto
begin

text \<open>
  Distance and course to a target: \<^verbatim>\<open>calculateDistance\<close> and \<^verbatim>\<open>calculate_target_course\<close> of
  \<^verbatim>\<open>cloud/flyto/flytoController.cpp\<close>.

  The functions of \<^verbatim>\<open><cmath>\<close> and the rounding of each operation are parameters.  Zeros have no sign here;
  the only divisor that may be zero is \<^verbatim>\<open>1 - sin_alpha * sin_alpha\<close>, which is then a positive zero.  A variable that
  is read before it has been assigned has no value (\<open>None\<close>).
\<close>

section \<open>Arithmetic\<close>

record libm =
  m_sin :: "rat \<Rightarrow> rat"
  m_cos :: "rat \<Rightarrow> rat"
  m_tan :: "rat \<Rightarrow> rat"
  m_atan :: "rat \<Rightarrow> rat"
  m_atan2 :: "rat \<Rightarrow> rat \<Rightarrow> rat"
  m_sqrt :: "rat \<Rightarrow> rat"
  m_pi :: rat
  m_rnd :: "rat \<Rightarrow> rat"

text \<open>What the documentation of these functions promises and the statements below use.\<close>

definition libm_ok :: "libm \<Rightarrow> bool" where
  "libm_ok L \<longleftrightarrow> (\<forall>x. \<bar>m_sin L x\<bar> \<le> 1 \<and> \<bar>m_cos L x\<bar> \<le> 1) \<and> (\<forall>x. 0 \<le> x \<longrightarrow> 0 \<le> m_sqrt L x) \<and>
     (\<forall>y x. 0 \<le> y \<longrightarrow> 0 \<le> m_atan2 L y x) \<and> (\<forall>x. 0 \<le> x \<longrightarrow> 0 \<le> m_rnd L x)"

definition fl_sub :: "(rat \<Rightarrow> rat) \<Rightarrow> fl \<Rightarrow> fl \<Rightarrow> fl" where "fl_sub r a b = fl_add r a (fl_neg b)"

definition fl_mul :: "(rat \<Rightarrow> rat) \<Rightarrow> fl \<Rightarrow> fl \<Rightarrow> fl" where
  "fl_mul r a b = (case (a, b) of
     (Fin x, Fin y) \<Rightarrow> Fin (r (x * y))
   | _ \<Rightarrow> if a = NaN \<or> b = NaN \<or> a = Fin 0 \<or> b = Fin 0 then NaN
          else if fl_less (Fin 0) a = fl_less (Fin 0) b then PInf else NInf)"

definition fl_div :: "(rat \<Rightarrow> rat) \<Rightarrow> fl \<Rightarrow> fl \<Rightarrow> fl" where
  "fl_div r a b = (case (a, b) of
     (Fin x, Fin y) \<Rightarrow> if y \<noteq> 0 then Fin (r (x / y)) else if x = 0 then NaN else if 0 < x then PInf else NInf
   | (NaN, _) \<Rightarrow> NaN
   | (_, NaN) \<Rightarrow> NaN
   | (Fin x, _) \<Rightarrow> Fin 0
   | (_, Fin y) \<Rightarrow> if 0 \<le> y then a else fl_neg a
   | _ \<Rightarrow> NaN)"

definition fl_abs :: "fl \<Rightarrow> fl" where
  "fl_abs a = (case a of Fin x \<Rightarrow> Fin \<bar>x\<bar> | NInf \<Rightarrow> PInf | _ \<Rightarrow> a)"

text \<open>A function of \<^verbatim>\<open><cmath>\<close> on a number; infinities are not in the domain of any use below.\<close>

definition fl_fun :: "(rat \<Rightarrow> rat) \<Rightarrow> fl \<Rightarrow> fl" where
  "fl_fun f a = (case a of Fin x \<Rightarrow> Fin (f x) | _ \<Rightarrow> NaN)"

definition fl_sqrt :: "libm \<Rightarrow> fl \<Rightarrow> fl" where
  "fl_sqrt L a = (case a of Fin x \<Rightarrow> if x < 0 then NaN else Fin (m_sqrt L x) | PInf \<Rightarrow> PInf | _ \<Rightarrow> NaN)"

definition fl_atan2 :: "libm \<Rightarrow> fl \<Rightarrow> fl \<Rightarrow> fl" where
  "fl_atan2 L a b = (case (a, b) of (Fin y, Fin x) \<Rightarrow> Fin (m_atan2 L y x) | _ \<Rightarrow> NaN)"

text \<open>\<^verbatim>\<open>fmod\<close> is exact.\<close>

definition truncated :: "rat \<Rightarrow> int" where "truncated v = (if 0 \<le> v then \<lfloor>v\<rfloor> else \<lceil>v\<rceil>)"

definition fl_fmod :: "fl \<Rightarrow> rat \<Rightarrow> fl" where
  "fl_fmod a y = (case a of Fin x \<Rightarrow> Fin (x - of_int (truncated (x / y)) * y) | _ \<Rightarrow> NaN)"

section \<open>Distance\<close>

definition EARTH_RADIUS :: rat where "EARTH_RADIUS = 63710088 / 10"

definition toRadians :: "libm \<Rightarrow> fl \<Rightarrow> fl" where
  "toRadians L degrees = fl_div (m_rnd L) (fl_mul (m_rnd L) degrees (Fin (m_pi L))) (Fin 180)"

definition calculateDistance :: "libm \<Rightarrow> point \<Rightarrow> point \<Rightarrow> fl" where
  "calculateDistance L p1 p2 =
     (let add = fl_add (m_rnd L); sub = fl_sub (m_rnd L); mul = fl_mul (m_rnd L); quot = fl_div (m_rnd L);
          sn = fl_fun (m_sin L); cs = fl_fun (m_cos L);
          lat1_rad = toRadians L (lat p1); lon1_rad = toRadians L (lon p1);
          lat2_rad = toRadians L (lat p2); lon2_rad = toRadians L (lon p2);
          dlat = sub lat2_rad lat1_rad; dlon = sub lon2_rad lon1_rad;
          a = add (mul (sn (quot dlat (Fin 2))) (sn (quot dlat (Fin 2))))
                (mul (mul (mul (cs lat1_rad) (cs lat2_rad)) (sn (quot dlon (Fin 2)))) (sn (quot dlon (Fin 2))));
          c = mul (Fin 2) (fl_atan2 L (fl_sqrt L a) (fl_sqrt L (sub (Fin 1) a)))
      in mul (Fin (m_rnd L EARTH_RADIUS)) c)"

lemma fl_mul_Fin: "fl_mul r a (Fin y) = Fin d \<Longrightarrow> \<exists>x. a = Fin x \<and> d = r (x * y)"
  "fl_mul r (Fin x) b = Fin d \<Longrightarrow> \<exists>y. b = Fin y \<and> d = r (x * y)"
  by (auto simp: fl_mul_def split: fl.splits if_splits)

text \<open>A distance is not negative.\<close>

lemma distance_nonneg:
  assumes "libm_ok L" "calculateDistance L p q = Fin d"
  shows "0 \<le> d"
proof -
  have rn: "0 \<le> x \<Longrightarrow> 0 \<le> m_rnd L x" for x using assms(1) by (simp add: libm_ok_def)
  obtain u v where d: "fl_mul (m_rnd L) (Fin (m_rnd L EARTH_RADIUS)) (fl_mul (m_rnd L) (Fin 2) (fl_atan2 L (fl_sqrt L u) (fl_sqrt L v))) = Fin d"
    using assms(2) unfolding calculateDistance_def Let_def by blast
  obtain c where c: "fl_mul (m_rnd L) (Fin 2) (fl_atan2 L (fl_sqrt L u) (fl_sqrt L v)) = Fin c"
    and dc: "d = m_rnd L (m_rnd L EARTH_RADIUS * c)" using fl_mul_Fin(2)[OF d] by blast
  obtain e where e: "fl_atan2 L (fl_sqrt L u) (fl_sqrt L v) = Fin e" and ce: "c = m_rnd L (2 * e)" using fl_mul_Fin(2)[OF c] by blast
  have "0 \<le> e"
    using e assms(1) by (auto simp: fl_atan2_def fl_sqrt_def libm_ok_def split: fl.splits if_splits)
  then have "0 \<le> c" unfolding ce by (intro rn) simp
  moreover have "0 \<le> m_rnd L EARTH_RADIUS" by (rule rn) (simp add: EARTH_RADIUS_def)
  ultimately show ?thesis unfolding dc by (intro rn) simp
qed

section \<open>Course\<close>

text \<open>The constants of the ellipsoid.\<close>

definition wgs_f :: "libm \<Rightarrow> fl" where
  "wgs_f L = (let r = m_rnd L; a = Fin 6378137; b = Fin (r (6356752314245 / 1000000)) in fl_div r (fl_sub r a b) a)"

text \<open>One round of the iteration: \<open>Coincident\<close> is its early return, \<open>Round\<close> has the sine and cosine of
  \<open>lambda\<close> and the next \<open>lambda\<close>.\<close>

datatype vincenty_round = Coincident | Round fl fl fl

definition vincenty_step :: "libm \<Rightarrow> fl \<Rightarrow> fl \<Rightarrow> fl \<Rightarrow> fl \<Rightarrow> fl \<Rightarrow> fl \<Rightarrow> vincenty_round" where
  "vincenty_step L sinU1 cosU1 sinU2 cosU2 delta_lon lambda =
     (let add = fl_add (m_rnd L); sub = fl_sub (m_rnd L); mul = fl_mul (m_rnd L); quot = fl_div (m_rnd L);
          f = wgs_f L;
          sin_lambda = fl_fun (m_sin L) lambda; cos_lambda = fl_fun (m_cos L) lambda;
          g = sub (mul cosU1 sinU2) (mul (mul sinU1 cosU2) cos_lambda);
          sin_sigma = fl_sqrt L (add (mul (mul cosU2 sin_lambda) (mul cosU2 sin_lambda)) (mul g g))
      in if sin_sigma = Fin 0 then Coincident
         else let cos_sigma = add (mul sinU1 sinU2) (mul (mul cosU1 cosU2) cos_lambda);
                  sigma = fl_atan2 L sin_sigma cos_sigma;
                  sin_alpha = quot (mul (mul cosU1 cosU2) sin_lambda) sin_sigma;
                  cos2_alpha = sub (Fin 1) (mul sin_alpha sin_alpha);
                  m = sub cos_sigma (quot (mul (mul (Fin 2) sinU1) sinU2) cos2_alpha);
                  cos2_sigma_m = (if m = NaN then Fin 0 else m);
                  C = mul (mul (quot f (Fin 16)) cos2_alpha) (add (Fin 4) (mul f (sub (Fin 4) (mul (Fin 3) cos2_alpha))))
              in Round sin_lambda cos_lambda
                   (add delta_lon (mul (mul (mul (sub (Fin 1) C) f) sin_alpha)
                      (add sigma (mul (mul C sin_sigma)
                         (add cos2_sigma_m (mul (mul C cos_sigma)
                            (add (Fin (- 1)) (mul (mul (Fin 2) cos2_sigma_m) cos2_sigma_m)))))))))"

text \<open>The loop, with \<open>n\<close> rounds left: \<^verbatim>\<open>--iter_limit > 0\<close> lets 99 of them pass.  The result is the last sine and cosine,
  which have no value when no round was made; \<open>Inl\<close> is the early return.\<close>

fun vincenty_loop :: "libm \<Rightarrow> fl \<Rightarrow> fl \<Rightarrow> fl \<Rightarrow> fl \<Rightarrow> fl \<Rightarrow> nat \<Rightarrow> fl \<Rightarrow> fl \<Rightarrow> (fl \<times> fl) option \<Rightarrow> unit + (fl \<times> fl) option" where
  "vincenty_loop L sinU1 cosU1 sinU2 cosU2 delta_lon 0 lambda lambda_p sc = Inr sc"
| "vincenty_loop L sinU1 cosU1 sinU2 cosU2 delta_lon (Suc n) lambda lambda_p sc =
     (if \<not> fl_less (Fin (m_rnd L (1 / 10 ^ 12))) (fl_abs (fl_sub (m_rnd L) lambda lambda_p)) then Inr sc
      else case vincenty_step L sinU1 cosU1 sinU2 cosU2 delta_lon lambda of
        Coincident \<Rightarrow> Inl ()
      | Round sl cl lambda' \<Rightarrow> vincenty_loop L sinU1 cosU1 sinU2 cosU2 delta_lon n lambda' lambda (Some (sl, cl)))"

definition iter_rounds :: nat where "iter_rounds = 99"

text \<open>The normalisations behind the loop.\<close>

definition normalized :: "libm \<Rightarrow> fl \<Rightarrow> fl" where
  "normalized L a =
     (let a = (if fl_less (Fin 180) a then fl_sub (m_rnd L) a (Fin 360) else a)
      in if fl_less a (Fin (- 180)) then fl_add (m_rnd L) a (Fin 360) else a)"

definition calculate_target_course :: "libm \<Rightarrow> point \<Rightarrow> point \<Rightarrow> fl option" where
  "calculate_target_course L current target =
     (let r = m_rnd L; sub = fl_sub r; mul = fl_mul r; quot = fl_div r; sn = fl_fun (m_sin L); cs = fl_fun (m_cos L);
          f = wgs_f L;
          rad = quot (Fin (m_pi L)) (Fin 180); deg = quot (Fin 180) (Fin (m_pi L));
          lat1 = mul (lat current) rad; lon1 = mul (lon current) rad;
          lat2 = mul (lat target) rad; lon2 = mul (lon target) rad;
          delta_lon = sub lon2 lon1;
          U1 = fl_fun (m_atan L) (mul (sub (Fin 1) f) (fl_fun (m_tan L) lat1));
          U2 = fl_fun (m_atan L) (mul (sub (Fin 1) f) (fl_fun (m_tan L) lat2));
          sinU1 = sn U1; cosU1 = cs U1; sinU2 = sn U2; cosU2 = cs U2
      in case vincenty_loop L sinU1 cosU1 sinU2 cosU2 delta_lon iter_rounds delta_lon (mul (Fin 2) (Fin (m_pi L))) None of
           Inl _ \<Rightarrow> Some (Fin 0)
         | Inr None \<Rightarrow> None
         | Inr (Some (sin_lambda, cos_lambda)) \<Rightarrow>
             let alpha1 = fl_atan2 L (mul cosU2 sin_lambda) (sub (mul cosU1 sinU2) (mul (mul sinU1 cosU2) cos_lambda));
                 ah_norm = normalized L (fl_fmod (mul alpha1 deg) 360)
             in Some (normalized L (sub (sub (Fin 90) ah_norm) (Fin (r (781551 / 1000000))))))"

text \<open>A course that is a number lies between -180 and 180 degrees.\<close>

definition rounds_degrees :: "(rat \<Rightarrow> rat) \<Rightarrow> bool" where
  "rounds_degrees r \<longleftrightarrow> mono r \<and> (\<forall>x \<in> {- 180, - 90, 0, 1, 180, 270, 360}. r x = x)"

lemma rounds_between:
  assumes "rounds_degrees r" "a \<le> x" "x \<le> b" "a \<in> {- 180, - 90, 0, 1, 180, 270, 360}" "b \<in> {- 180, - 90, 0, 1, 180, 270, 360}"
  shows "a \<le> r x" "r x \<le> b"
proof -
  have "r a = a" "r b = b" using assms(1,4,5) by (auto simp: rounds_degrees_def)
  then show "a \<le> r x" "r x \<le> b" using assms(1-3) by (metis monoD rounds_degrees_def)+
qed

lemma normalized_range:
  assumes "rounds_degrees (m_rnd L)" "normalized L (Fin a) = Fin b" "- 360 \<le> a" "a \<le> 360"
  shows "- 180 \<le> b \<and> b \<le> 180"
proof -
  consider "180 < a" | "a < - 180" | "- 180 \<le> a" "a \<le> 180" by linarith
  then show ?thesis
  proof cases
    case 1
    then have "- 180 \<le> m_rnd L (a - 360)" "m_rnd L (a - 360) \<le> 0"
      using rounds_between[OF assms(1), of "- 180" "a - 360" 0] assms(4) by simp_all
    then show ?thesis using 1 assms(2) by (auto simp: normalized_def fl_sub_def split: if_splits)
  next
    case 2
    then have "0 \<le> m_rnd L (a + 360)" "m_rnd L (a + 360) \<le> 180"
      using rounds_between[OF assms(1), of 0 "a + 360" 180] assms(3) by simp_all
    then show ?thesis using 2 assms(2) by (auto simp: normalized_def split: if_splits)
  next
    case 3
    then show ?thesis using assms(2) by (auto simp: normalized_def)
  qed
qed

lemma normalized_Fin: "normalized L a = Fin b \<Longrightarrow> \<exists>x. a = Fin x"
  by (cases a) (auto simp: normalized_def fl_sub_def split: if_splits)

lemma fmod_range:
  assumes "fl_fmod x 360 = Fin a"
  shows "- 360 \<le> a \<and> a \<le> 360"
proof -
  obtain v where v: "a = v - of_int (truncated (v / 360)) * 360" using assms by (auto simp: fl_fmod_def split: fl.splits)
  have "\<bar>w - of_int (truncated w)\<bar> \<le> 1" for w
    unfolding truncated_def using floor_correct[of w] ceiling_correct[of w] by (cases "0 \<le> w") (simp_all add: abs_le_iff)
  from this[of "v / 360"] have "\<bar>v / 360 - of_int (truncated (v / 360))\<bar> \<le> 1" .
  then have "\<bar>(v / 360 - of_int (truncated (v / 360))) * 360\<bar> \<le> 360" by (simp only: abs_mult) simp
  moreover have "a = (v / 360 - of_int (truncated (v / 360))) * 360" by (simp add: v left_diff_distrib)
  ultimately have "\<bar>a\<bar> \<le> 360" by simp
  then show ?thesis by (simp add: abs_le_iff)
qed

lemma fl_sub_Fin: "fl_sub r a (Fin y) = Fin d \<Longrightarrow> \<exists>x. a = Fin x \<and> d = r (x - y)"
  "fl_sub r (Fin x) b = Fin d \<Longrightarrow> \<exists>y. b = Fin y \<and> d = r (x - y)"
  by (cases a; simp add: fl_sub_def) (cases b; simp add: fl_sub_def)

lemma course_range:
  assumes "rounds_degrees (m_rnd L)" "calculate_target_course L p q = Some (Fin c)"
  shows "- 180 \<le> c \<and> c \<le> 180"
proof -
  let ?r = "m_rnd L"
  consider "c = 0" | x where "normalized L (fl_sub ?r (fl_sub ?r (Fin 90) (normalized L (fl_fmod x 360))) (Fin (?r (781551 / 1000000)))) = Fin c"
    using assms(2) unfolding calculate_target_course_def Let_def by (auto split: sum.splits option.splits prod.splits)
  then show ?thesis
  proof cases
    case 2
    obtain y where y: "fl_sub ?r (fl_sub ?r (Fin 90) (normalized L (fl_fmod x 360))) (Fin (?r (781551 / 1000000))) = Fin y"
      using normalized_Fin[OF 2] by blast
    obtain w where w: "fl_sub ?r (Fin 90) (normalized L (fl_fmod x 360)) = Fin w" "y = ?r (w - ?r (781551 / 1000000))"
      using fl_sub_Fin(1)[OF y] by blast
    obtain v where v: "normalized L (fl_fmod x 360) = Fin v" "w = ?r (90 - v)" using fl_sub_Fin(2)[OF w(1)] by blast
    obtain u where u: "fl_fmod x 360 = Fin u" using normalized_Fin[OF v(1)] by blast
    have "- 180 \<le> v \<and> v \<le> 180" using normalized_range[OF assms(1), of u v] fmod_range[OF u] v(1) u by simp
    then have v90: "- 90 \<le> 90 - v" "90 - v \<le> 270" by linarith+
    have k: "0 \<le> ?r (781551 / 1000000)" "?r (781551 / 1000000) \<le> 1"
      using rounds_between[OF assms(1), of 0 "781551 / 1000000" 1] by simp_all
    have "- 90 \<le> w" "w \<le> 270" unfolding v(2) using rounds_between[OF assms(1) v90] by simp_all
    with k have "- 180 \<le> w - ?r (781551 / 1000000)" "w - ?r (781551 / 1000000) \<le> 360" by linarith+
    from rounds_between[OF assms(1) this] have "- 180 \<le> y" "y \<le> 360" by (simp_all add: w(2))
    then show ?thesis using normalized_range[OF assms(1), of y c] 2 y by simp
  qed simp
qed

text \<open>The loop is left before its first round when the longitudes differ by a full turn: from the meridian of -180
  degrees to that of 180 degrees, which are the same, the course is computed from variables that were never
  assigned.\<close>

lemma course_across_antimeridian:
  assumes "m_rnd L = (\<lambda>x. x)" "lon p = Fin (- 180)" "lon q = Fin 180"
  shows "calculate_target_course L p q = None"
proof -
  have e: "fl_sub (m_rnd L) (fl_mul (m_rnd L) (Fin 180) (fl_div (m_rnd L) (Fin (m_pi L)) (Fin 180)))
      (fl_mul (m_rnd L) (Fin (- 180)) (fl_div (m_rnd L) (Fin (m_pi L)) (Fin 180))) = Fin (2 * m_pi L)"
    "fl_mul (m_rnd L) (Fin 2) (Fin (m_pi L)) = Fin (2 * m_pi L)"
    by (simp_all add: assms(1) fl_sub_def fl_mul_def fl_div_def)
  have it: "iter_rounds = Suc 98" by (simp add: iter_rounds_def)
  have stay: "vincenty_loop L a b c d x iter_rounds (Fin v) (Fin v) None = Inr None" for a b c d x v
    unfolding it vincenty_loop.simps by (simp add: assms(1) fl_sub_def fl_abs_def)
  show ?thesis unfolding calculate_target_course_def Let_def assms(2,3) e stay by simp
qed

section \<open>A small example\<close>

text \<open>Functions that keep the documented ranges and are easy to compute with.\<close>

definition small_libm :: libm where
  "small_libm = \<lparr>m_sin = \<lambda>_. 3 / 5, m_cos = \<lambda>_. 4 / 5, m_tan = \<lambda>_. 1, m_atan = \<lambda>_. 1, m_atan2 = \<lambda>_ _. 1 / 4000000,
     m_sqrt = \<lambda>_. 1 / 2, m_pi = 3, m_rnd = \<lambda>x. x\<rparr>"

lemmas fl_eval = fl_mul_def fl_div_def fl_sub_def fl_abs_def fl_fun_def fl_sqrt_def fl_atan2_def

lemma small_libm_sel:
  "m_sin small_libm = (\<lambda>_. 3 / 5)" "m_cos small_libm = (\<lambda>_. 4 / 5)" "m_tan small_libm = (\<lambda>_. 1)"
  "m_atan small_libm = (\<lambda>_. 1)" "m_atan2 small_libm = (\<lambda>_ _. 1 / 4000000)" "m_sqrt small_libm = (\<lambda>_. 1 / 2)"
  "m_pi small_libm = 3" "m_rnd small_libm = (\<lambda>x. x)"
  by (simp_all add: small_libm_def)

lemma small_libm_ok: "libm_ok small_libm"
  by (simp add: libm_ok_def small_libm_sel)

text \<open>Two points on one parallel, three degrees apart.\<close>

lemma small_distance:
  assumes "lat p = Fin 5" "lat q = Fin 5" "lon p = Fin 15" "lon q = Fin 18"
  shows "calculateDistance small_libm p q = Fin (7963761 / 2500000)"
  unfolding calculateDistance_def toRadians_def Let_def assms EARTH_RADIUS_def by (simp add: small_libm_sel fl_eval)

lemma small_wgs_f: "wgs_f small_libm = Fin (4276937151 / 1275627400000)"
  by (simp add: wgs_f_def small_libm_sel fl_eval Let_def)

lemma small_step: "\<exists>v. \<forall>x. vincenty_step small_libm (Fin (3 / 5)) (Fin (4 / 5)) (Fin (3 / 5)) (Fin (4 / 5)) (Fin (1 / 20)) (Fin x) =
    Round (Fin (3 / 5)) (Fin (4 / 5)) (Fin v)"
  unfolding vincenty_step_def Let_def small_wgs_f by (simp add: small_libm_sel fl_eval del: divide_eq_eq_numeral1)

lemma small_loop:
  "vincenty_loop small_libm (Fin (3 / 5)) (Fin (4 / 5)) (Fin (3 / 5)) (Fin (4 / 5)) (Fin (1 / 20)) iter_rounds (Fin (1 / 20)) (Fin 6) None
   = Inr (Some (Fin (3 / 5), Fin (4 / 5)))"
proof -
  obtain v where v: "\<And>x. vincenty_step small_libm (Fin (3 / 5)) (Fin (4 / 5)) (Fin (3 / 5)) (Fin (4 / 5)) (Fin (1 / 20)) (Fin x) =
      Round (Fin (3 / 5)) (Fin (4 / 5)) (Fin v)"
    using small_step by blast
  have it: "iter_rounds = Suc (Suc (Suc 96))" by (simp add: iter_rounds_def)
  show ?thesis unfolding it vincenty_loop.simps by (simp add: v small_libm_sel fl_sub_def fl_abs_def)
qed

lemma small_course:
  assumes "lat p = Fin 5" "lat q = Fin 5" "lon p = Fin 15" "lon q = Fin 18"
  shows "calculate_target_course small_libm p q = Some (Fin (44609217 / 500000))"
proof -
  let ?r = "m_rnd small_libm" and ?pi = "Fin (m_pi small_libm)"
  have e: "fl_sub ?r (fl_mul ?r (Fin 18) (fl_div ?r ?pi (Fin 180))) (fl_mul ?r (Fin 15) (fl_div ?r ?pi (Fin 180))) = Fin (1 / 20)"
    "fl_mul ?r (Fin 2) ?pi = Fin 6"
    "fl_fun (m_atan small_libm) (fl_mul ?r (fl_sub ?r (Fin 1) (wgs_f small_libm))
       (fl_fun (m_tan small_libm) (fl_mul ?r (Fin 5) (fl_div ?r ?pi (Fin 180))))) = Fin 1"
    "fl_fun (m_sin small_libm) (Fin 1) = Fin (3 / 5)" "fl_fun (m_cos small_libm) (Fin 1) = Fin (4 / 5)"
    by (simp_all add: small_libm_sel fl_eval small_wgs_f)
  have "\<lfloor>(1::rat) / 24000000\<rfloor> = 0" by (simp add: floor_eq_iff)
  then show ?thesis unfolding calculate_target_course_def Let_def assms e small_loop
    by (simp add: small_libm_sel fl_eval fl_fmod_def truncated_def normalized_def Let_def)
qed

end
