(* ===== verification/Obstacle_Properties.thy ===== *)
theory Obstacle_Properties
  imports Obstacle_Line Obstacle_Memory Flyto_Course
begin

text \<open>
  The map for its users: what a loaded map lets pass, what an interrupted reading leaves, the line check, and
  the command to fly to a point on top of it.
\<close>

section \<open>Blocks of a loaded map\<close>









section \<open>A reading with an error\<close>


section \<open>The end of the reading\<close>

text \<open>
  C33. Reading the map ends for every file, with a result or with an access outside an array, unless a line has
  1024 characters or more; then the loop over the lines never ends.
\<close>

theorem reading_ends:
  "get_map_info r alloc f m = Never_Ends \<longleftrightarrow> (\<exists>content. f = Some content \<and> (\<exists>l \<in> set (split_lines content). 1024 \<le> length l))"
proof (cases f)
  case (Some content)
  have "read_lines 1024 (ifstream_of content) = None \<longleftrightarrow> (\<exists>l \<in> set (split_lines content). 1024 \<le> length l)"
    by (auto simp: read_lines_split not_less)
  then show ?thesis using Some by (auto simp: get_map_info_def load_map_def split: option.splits)
qed (simp add: get_map_info_def)

section \<open>Along a line\<close>

text \<open>
  C4. Exact arithmetic; the map is well formed, all coordinates within reach of the line fit \<^verbatim>\<open>S32\<close>, the distances are not
  negative, \<open>z - dz\<close> is below the height of unknown terrain, and sine and cosine are at most 1.  Then
  \<^verbatim>\<open>check_block_around_line_lonlat\<close> returns unless the horizontal distance \<open>d\<close> is zero and nothing is found around the
  start; in that case it never returns.  When it returns "nothing found", the block below every point of the line within the
  map passes the check (\<open>block_passes\<close>; points outside the map count as passed).  Otherwise, if the returned
  length is positive, this holds up to that length and one step \<open>d\<close> beyond; a returned length of zero says nothing.  And
  "block found" has a reason: a block that does not pass within \<open>d\<close> and one block size of a point of the line.
\<close>

theorem line_check:
  assumes "WGS842UTM la lo = (x, y)" "map_ok m" "near_map m x y (len + d)" "0 \<le> len" "0 \<le> d" "0 \<le> dz" "z - dz < no_height"
    "\<bar>cosine (line_angle angle)\<bar> \<le> 1" "\<bar>sine (line_angle angle)\<bar> \<le> 1"
  shows "(check_block_around_line_lonlat exact cosine sine WGS842UTM m la lo z angle len d dz = None \<longleftrightarrow>
      d = 0 \<and> check_block_around exact m x y z 0 dz = Some RET_OVER)
    \<and> (\<forall>ret safe. check_block_around_line_lonlat exact cosine sine WGS842UTM m la lo z angle len d dz = Some (ret, safe) \<longrightarrow>
      ret \<in> {RET_ERR, RET_OVER, RET_OK}
      \<and> (ret = RET_OVER \<longrightarrow> (\<forall>t. 0 \<le> t \<and> t \<le> len \<longrightarrow> line_passes m (cosine (line_angle angle)) (sine (line_angle angle)) x y z dz t))
      \<and> (ret \<noteq> RET_OVER \<longrightarrow> 0 \<le> safe \<and> safe \<le> len \<and>
           (0 < safe \<longrightarrow> (\<forall>t. 0 \<le> t \<and> t \<le> safe + d \<longrightarrow> line_passes m (cosine (line_angle angle)) (sine (line_angle angle)) x y z dz t)))
      \<and> (ret = RET_OK \<longrightarrow> line_alarm m (cosine (line_angle angle)) (sine (line_angle angle)) x y z len d dz))"
proof (cases "d = 0")
  case False
  then have "0 < d" using assms(5) by simp
  from line_outcome[where cosine = cosine and sine = sine and angle = angle, OF assms(2-4) this assms(6-9)] assms(1) False
  show ?thesis by (auto simp: check_block_around_line_lonlat_def)
next
  case True
  have "near_map m x y len" using assms(3) True by simp
  from line_no_distance[where cosine = cosine and sine = sine and angle = angle, OF assms(2) this assms(4,6-9)] assms(1) True
  show ?thesis using assms(4) by (auto simp: check_block_around_line_lonlat_def RET_OVER_def RET_ERR_def RET_OK_def)
qed

section \<open>Flying to a point\<close>

definition way_passes :: "map_state \<Rightarrow> rat \<Rightarrow> rat \<Rightarrow> rat \<Rightarrow> rat \<Rightarrow> rat \<Rightarrow> rat \<Rightarrow> rat \<Rightarrow> bool" where
  "way_passes m c s x y z dz len \<longleftrightarrow> (\<forall>t. 0 \<le> t \<and> t \<le> len \<longrightarrow> line_passes m c s x y z dz t)"

fun flies :: "effect \<Rightarrow> bool" where
  "flies (Request (Fly_To_Point i a b h v)) = True"
| "flies (Request (Fly_To_Point_Update a b h v)) = True"
| "flies e = False"

lemma report_no_flight: "\<not> flies e" if "e \<in> set (uav_reports w code t res tr)"
  using that by (auto simp: uav_reports_def)

lemma refused_no_flight:
  assumes "\<not> validateCoordinates (getUavPoint s) tgt \<or> blocked E (getUavPoint s) tgt \<noteq> RET_OVER"
    "blocked E (getUavPoint s) tgt \<in> {RET_ERR, RET_OVER, RET_OK}"
    "tgt = \<lparr>lon = fc_longitude msg, lat = fc_latitude msg, alt = Fin 0, pt_course = Fin 0\<rparr>"
  shows "filter flies (effects (handleFlytoPoint E msg s)) = filter flies (effects s)"
proof -
  have g: "getUavPoint (s\<lparr>m_lastFlytoStatus := v\<rparr>) = getUavPoint s" for v by (simp add: getUavPoint_def)
  have "filter flies (uav_reports w code t res tr) = []" for w code t res tr using report_no_flight by (simp add: filter_empty_conv)
  then show ?thesis using assms
    by (auto simp: handleFlytoPoint_def Let_def sendResult_def handleUavResult_eq setUavControlMode_def g)
qed

text \<open>The call of the map in \<^verbatim>\<open>handleFlytoPoint\<close>: from the present position at the present altitude, in the direction of
  \<^verbatim>\<open>calculate_target_course\<close>, as far as \<^verbatim>\<open>calculateDistance\<close> says, with 5 metres around and 1 metre below.  The answer is
  \<open>None\<close> where the model has none: the course is computed from unassigned variables, or one of the numbers is not finite.\<close>

definition map_answer :: "libm \<Rightarrow> (rat \<Rightarrow> rat \<Rightarrow> rat \<times> rat) \<Rightarrow> map_state \<Rightarrow> point \<Rightarrow> point \<Rightarrow> int option" where
  "map_answer L WGS842UTM m p q =
     (case (lat p, lon p, alt p, calculate_target_course L p q, calculateDistance L p q) of
        (Fin la, Fin lo, Fin z, Some (Fin heading), Fin distance_m) \<Rightarrow>
          map_option fst (check_block_around_line_lonlat exact (m_cos L) (m_sin L) WGS842UTM m la lo z heading distance_m 5 1)
      | _ \<Rightarrow> None)"

text \<open>The answer that the handler gets is the one of the map.\<close>

definition uses_map :: "flyto_env \<Rightarrow> libm \<Rightarrow> (rat \<Rightarrow> rat \<Rightarrow> rat \<times> rat) \<Rightarrow> map_state \<Rightarrow> point \<Rightarrow> point \<Rightarrow> bool" where
  "uses_map E L WGS842UTM m p q \<longleftrightarrow> map_answer L WGS842UTM m p q = Some (blocked E p q)"

text \<open>
  C2. A command to fly to a point is only sent to the aircraft when the block below every point of the line that the code
  looks at passes the check of the map at the present altitude (\<open>block_passes\<close>), one metre above the terrain.
  The line starts at the projected position of the aircraft, has the direction of \<^verbatim>\<open>calculate_target_course\<close>
  (Vincenty's iteration less a constant of 0.781551 degrees) and the length of \<^verbatim>\<open>calculateDistance\<close> (the great
  circle), both as the source computes them with any rounding and any \<^verbatim>\<open>cmath\<close> that keeps its documented
  ranges; only the arithmetic of the map check itself is taken as exact.  The coordinates, the course and the distance are
  numbers, the map is well formed and the line is near enough for its indices to fit \<^verbatim>\<open>S32\<close>.  Points of the line outside the map
  count as passed.
\<close>

theorem flies_over_passed_line:
  assumes "uses_map E L WGS842UTM m p q" "libm_ok L"
    "p = getUavPoint s" "q = \<lparr>lon = fc_longitude msg, lat = fc_latitude msg, alt = Fin 0, pt_course = Fin 0\<rparr>"
    "lat p = Fin la" "lon p = Fin lo" "alt p = Fin z" "WGS842UTM la lo = (x, y)"
    "calculate_target_course L p q = Some (Fin heading)" "calculateDistance L p q = Fin distance_m"
    "map_ok m" "near_map m x y (distance_m + 5)" "z - 1 < no_height"
    "filter flies (effects (handleFlytoPoint E msg s)) \<noteq> filter flies (effects s)"
  shows "way_passes m (m_cos L (line_angle heading)) (m_sin L (line_angle heading)) x y z 1 distance_m"
proof -
  have one: "\<bar>m_cos L (line_angle heading)\<bar> \<le> 1" "\<bar>m_sin L (line_angle heading)\<bar> \<le> 1"
    using assms(2) by (simp_all add: libm_ok_def)
  obtain ret safe where r: "check_block_around_line_lonlat exact (m_cos L) (m_sin L) WGS842UTM m la lo z heading distance_m 5 1 = Some (ret, safe)"
    "ret \<in> {RET_ERR, RET_OVER, RET_OK}"
    "ret = RET_OVER \<Longrightarrow> \<forall>t. 0 \<le> t \<and> t \<le> distance_m \<longrightarrow>
      line_passes m (m_cos L (line_angle heading)) (m_sin L (line_angle heading)) x y z 1 t"
    using line_outcome[where cosine = "m_cos L" and sine = "m_sin L" and angle = heading,
        OF assms(11,12) distance_nonneg[OF assms(2,10)] _ _ assms(13) one] assms(8)
    by (auto simp: check_block_around_line_lonlat_def)
  have "blocked E p q = ret" using assms(1,5-7,9,10) r(1) by (simp add: uses_map_def map_answer_def)
  then have "ret = RET_OVER" using refused_no_flight[OF _ _ assms(4)] assms(3,14) r(2) by auto
  then show ?thesis using r(3) by (simp add: way_passes_def)
qed

section \<open>A small map\<close>

definition small_lines :: "string list" where
  "small_lines = [''<block_min x=\"0\" y=\"0\" z=\"0\"/>'', ''<block_max x=\"20\" y=\"10\" z=\"20\"/>'', ''<block_size x=\"10\" y=\"10\" z=\"1\"/>'',
     ''<restriction_area id=\"7\">'', ''<height_limit val=\"-1\"/>'', ''<extra_points ref=\"3\"/>'', ''</restriction_area>'',
     ''<points id=\"3\">'', ''<node x=\"-1\" y=\"-1\" z=\"0\"/>'', ''<node x=\"5\" y=\"-1\" z=\"0\"/>'', ''<node x=\"5\" y=\"5\" z=\"0\"/>'', ''</points>'',
     ''<block id=\"1\" x=\"0\" y=\"0\" z=\"2.5\"/>'', ''<block id=\"2\" x=\"10\" y=\"0\" z=\"3\"/>'']"

definition file_of :: "string list \<Rightarrow> string" where "file_of ls = concat (map (\<lambda>l. l @ [newline]) ls)"

definition small_map :: map_state where
  "small_map = \<lparr>gMap = \<lparr>utm_min = zero_node, utm_max = zero_node, block_min = zero_node,
       block_max = \<lparr>px = 20, py = 10, pz = 20\<rparr>, block_size = \<lparr>px = 10, py = 10, pz = 1\<rparr>,
       block_count_x = 2, block_count_y = 1, block_count_z = 20, nodeCount = 3, resdictionCount = 1, groundCount = 0\<rparr>,
     pstRestriction = [\<lparr>ID = 7, extrapointsID = 3, area_type = 0, node_i = 0, node_count = 3, height_limit = - 1,
       min_x = - 1, min_y = - 1, max_x = 5, max_y = 5, area_name = []\<rparr>],
     pstGround = [], pstNode = [\<lparr>px = - 1, py = - 1, pz = 0\<rparr>, \<lparr>px = 5, py = - 1, pz = 0\<rparr>, \<lparr>px = 5, py = 5, pz = 0\<rparr>],
     pstBlock = [\<lparr>resdiction_i = 1, ground_i = 0, z_i = 4, zmax_mm = 2500\<rparr>, \<lparr>resdiction_i = 0, ground_i = 0, z_i = 4, zmax_mm = 3000\<rparr>],
     gu32MapErrCount = 0\<rparr>"

lemma short_small_lines: "\<forall>l \<in> set (split_lines (file_of small_lines)). length l < 1024"
  by code_simp

lemma small_map_loaded: "get_map_info exact (\<lambda>_. True) (Some (file_of small_lines)) start_map = Returned RET_OK small_map"
  unfolding get_map_info_short_lines[OF short_small_lines] by code_simp







text \<open>Westwards from (18, 5): with a step of 2 the prohibited block is found after 8 metres; with a step of 0 the call does
  not return.\<close>

lemma line_check_witness:
  "check_block_around_line_lonlat exact (\<lambda>_. - 1) (\<lambda>_. 0) Pair small_map 18 5 100 180 15 2 1 = Some (RET_OK, 6)
     \<and> way_passes small_map (- 1) 0 18 5 100 1 8 \<and> line_alarm small_map (- 1) 0 18 5 100 15 2 1
     \<and> check_block_around_line_lonlat exact (\<lambda>_. - 1) (\<lambda>_. 0) Pair small_map 18 5 100 180 15 0 1 = None"
proof -
  have c: "check_block_around_line_lonlat exact (\<lambda>_. - 1) (\<lambda>_. 0) Pair small_map 18 5 100 180 15 2 1 = Some (RET_OK, 6)"
    "check_block_around exact small_map 18 5 100 0 1 = Some RET_OVER"
    by code_simp+
  have h: "map_ok small_map" "near_map small_map 18 5 (15 + 2)" "near_map small_map 18 5 (15 + 0)" "100 - 1 < no_height" by code_simp+
  have n: "RET_OK \<noteq> RET_OVER" by (simp add: RET_OK_def RET_OVER_def)
  have two: "way_passes small_map (- 1) 0 18 5 100 1 8 \<and> line_alarm small_map (- 1) 0 18 5 100 15 2 1"
    using conjunct2[OF line_check[OF _ h(1,2) _ _ _ h(4), of Pair 18 5 "\<lambda>_. - 1" 180 "\<lambda>_. 0"], rule_format, of RET_OK 6] c(1) n
    by (simp add: way_passes_def)
  have "check_block_around_line_lonlat exact (\<lambda>_. - 1) (\<lambda>_. 0) Pair small_map 18 5 100 180 15 0 1 = None"
    using conjunct1[OF line_check[OF _ h(1,3) _ _ _ h(4), of Pair 18 5 "\<lambda>_. - 1" 180 "\<lambda>_. 0"]] c(2) by simp
  with two c(1) show ?thesis by simp
qed

definition hovering :: flyto where
  "hovering = flyto_start\<lparr>m_flightInfo := FlightInfo\<lparr>longitude := Fin 15, latitude := Fin 5, seaaltitude := Fin 100\<rparr>\<rparr>"

definition fly_east :: flight_control_message where
  "fly_east = \<lparr>fc_action = ''7'', fc_trans_id = ''t'', fc_direction = [], fc_distance = [], fc_angle = [],
     fc_longitude = Fin 18, fc_latitude = Fin 5, fc_height = Fin 100, fc_max_speed = None\<rparr>"

lemma flies_over_passed_line_witness:
  "filter flies (effects (handleFlytoPoint (good_link\<lparr>blocked := \<lambda>_ _. RET_OVER\<rparr>) fly_east hovering)) = [Request (Fly_To_Point ''id'' (Fin 18) (Fin 5) (Fin 100) 0)]
   \<and> way_passes small_map (4 / 5) (3 / 5) 15 5 100 1 (7963761 / 2500000)"
proof -
  let ?E = "good_link\<lparr>blocked := \<lambda>_ _. RET_OVER\<rparr>"
  define p where "p = getUavPoint hovering"
  define q where "q = \<lparr>lon = fc_longitude fly_east, lat = fc_latitude fly_east, alt = Fin 0, pt_course = Fin 0\<rparr>"
  have p: "p = \<lparr>lon = Fin 15, lat = Fin 5, alt = Fin 100, pt_course = Fin 0\<rparr>" by (simp add: p_def getUavPoint_def hovering_def FlightInfo_def)
  have q: "q = \<lparr>lon = Fin 18, lat = Fin 5, alt = Fin 0, pt_course = Fin 0\<rparr>" by (simp add: q_def fly_east_def)
  have d: "calculateDistance small_libm p q = Fin (7963761 / 2500000)"
    "calculate_target_course small_libm p q = Some (Fin (44609217 / 500000))"
    by (rule small_distance small_course; simp add: p q)+
  have c: "check_block_around_line_lonlat exact (m_cos small_libm) (m_sin small_libm) (\<lambda>la lo. (lo, la)) small_map 5 15 100
      (44609217 / 500000) (7963761 / 2500000) 5 1 = Some (RET_OVER, 5 + 7963761 / 2500000)"
    unfolding small_libm_sel by code_simp
  have u: "uses_map ?E small_libm (\<lambda>la lo. (lo, la)) small_map p q"
    unfolding uses_map_def map_answer_def d unfolding p by (simp add: c)
  have f: "filter flies (effects (handleFlytoPoint ?E fly_east hovering)) = [Request (Fly_To_Point ''id'' (Fin 18) (Fin 5) (Fin 100) 0)]"
    by (simp add: handleFlytoPoint_def getUavPoint_def hovering_def FlightInfo_def flyto_start_def fly_east_def validateCoordinates_def
        good_link_def RET_OVER_def RET_OK_def RET_ERR_def sendRequest_def emit_def sendResult_def handleUavResult_eq uav_reports_def Let_def)
  have e: "effects hovering = []" by (simp add: hovering_def flyto_start_def)
  have h: "map_ok small_map" "near_map small_map 15 5 (7963761 / 2500000 + 5)" "(100 :: rat) - 1 < no_height" by code_simp+
  have a: "m_cos small_libm (line_angle (44609217 / 500000)) = 4 / 5" "m_sin small_libm (line_angle (44609217 / 500000)) = 3 / 5"
    by (simp_all add: small_libm_sel)
  have "way_passes small_map (4 / 5) (3 / 5) 15 5 100 1 (7963761 / 2500000)"
    using flies_over_passed_line[OF u small_libm_ok p_def q_def _ _ _ _ d(2) d(1) h(1) h(2) h(3), of 5 15] f e
    by (simp add: p a)
  then show ?thesis using f by blast
qed

section \<open>Memory\<close>

text \<open>What the first pass finds: the lines counted, the header values read, and the numbers of blocks.\<close>

definition file_map :: "(rat \<Rightarrow> rat) \<Rightarrow> string list \<Rightarrow> map_state \<Rightarrow> PF_MAP_INFO_ST option" where
  "file_map r bufs m =
     (let g = gMap (fold (count_line r) bufs (m\<lparr>gMap := (gMap m)\<lparr>nodeCount := 0, resdictionCount := 0, groundCount := 0,
                block_count_x := 0, block_count_y := 0, block_count_z := 0\<rparr>\<rparr>)) in
      do { cx \<leftarrow> block_count r (px (block_min g)) (px (block_max g)) (px (block_size g));
           cy \<leftarrow> block_count r (py (block_min g)) (py (block_max g)) (py (block_size g));
           cz \<leftarrow> block_count r (pz (block_min g)) (pz (block_max g)) (pz (block_size g));
           Some (g\<lparr>block_count_x := cx, block_count_y := cy, block_count_z := cz\<rparr>) })"

text \<open>The map has a column of blocks, no negative number of rows, and the size of the arrays fits \<^verbatim>\<open>memSize\<close>, an \<^verbatim>\<open>S32\<close>.\<close>

definition map_fits :: "PF_MAP_INFO_ST \<Rightarrow> bool" where
  "map_fits g \<longleftrightarrow> 0 < block_count_x g \<and> 0 \<le> block_count_y g \<and> map_bytes g < 2 ^ 31"

lemma first_pass_some:
  assumes "file_map r bufs m = Some g" "map_fits g"
  shows "\<exists>ret m1. map_get_map_info_count r alloc bufs m = Some (ret, m1) \<and> gMap m1 = g"
proof -
  have b: "0 \<le> block_count_x g * block_count_y g" "8 * (block_count_x g * block_count_y g) \<le> map_bytes g"
    using assms(2) by (simp_all add: map_fits_def map_bytes_def)
  then have "0 \<le> map_bytes g" by linarith
  moreover have "sint (word_of_int (map_bytes g) :: 32 word) = map_bytes g"
    using calculation assms(2) by (simp add: map_fits_def sint_sbintrunc' signed_take_bit_int_eq_self)
  moreover have "\<not> block_count_x g * block_count_y g < - (2 ^ 31)" "\<not> 2 ^ 31 \<le> block_count_x g * block_count_y g"
    using b assms(2) unfolding map_fits_def by linarith+
  ultimately show ?thesis
    using assms by (auto simp: file_map_def map_get_map_info_count_def map_fits_def Let_def split: bind_splits)
qed

text \<open>
  C22. Reading the map never leaves its arrays if the following hold.  The numbers of blocks computed from the header fit \<^verbatim>\<open>S32\<close>
  (\<open>file_map\<close>), the map has at least one column and no negative number of rows, and the arrays together have
  less than \<open>2 ^ 31\<close> bytes, so that \<^verbatim>\<open>memSize\<close> does not wrap.  No line carries the tags of two elements, the names have less than 68
  characters, and every block line has an \<open>x\<close> and either does not parse or has block indices and a height in
  millimetres that fit \<^verbatim>\<open>S32\<close> and is not left of or below the map.  There are at most 127 restricted
  areas.
\<close>

theorem reading_in_bounds:
  assumes "file_map r (map c_string (split_lines content)) m = Some g" "map_fits g"
    "\<forall>buf \<in> set (map c_string (split_lines content)). good_line r g buf" "resdictionCount g \<le> 127"
  shows "get_map_info r alloc (Some content) m \<noteq> Out_Of_Bounds"
proof -
  obtain ret m1 where m1: "map_get_map_info_count r alloc (map c_string (split_lines content)) m = Some (ret, m1)" "gMap m1 = g"
    using first_pass_some[OF assms(1,2)] by blast
  from load_map_in_bounds[OF m1(1)] assms(3,4) m1(2) show ?thesis
    by (auto simp: get_map_info_def read_lines_split split: option.splits)
qed

text \<open>Without the bound on the bytes the arrays can be far too small: for a map of \<open>2 ^ 29 + 1\<close> blocks \<^verbatim>\<open>memSize\<close> is 8.\<close>

definition huge_lines :: "string list" where
  "huge_lines = [''<block_min x=\"0\" y=\"0\" z=\"0\"/>'', ''<block_max x=\"536870913\" y=\"1\" z=\"1\"/>'',
     ''<block_size x=\"1\" y=\"1\" z=\"1\"/>'', ''<block id=\"1\" x=\"500\" y=\"0\" z=\"2.5\"/>'']"

lemma reading_in_bounds_witness:
  "get_map_info exact (\<lambda>_. True) (Some (file_of small_lines)) start_map \<noteq> Out_Of_Bounds
     \<and> get_map_info exact (\<lambda>_. True) (Some (file_of huge_lines)) start_map = Out_Of_Bounds"
proof -
  have c: "file_map exact (map c_string (split_lines (file_of small_lines))) start_map = Some (gMap small_map)"
    unfolding small_map_def by code_simp
  have f: "map_fits (gMap small_map)" by code_simp
  have g: "\<forall>buf \<in> set (map c_string (split_lines (file_of small_lines))). good_line exact (gMap small_map) buf"
    by code_simp
  have "resdictionCount (gMap small_map) \<le> 127" by (simp add: small_map_def)
  with c f g have ok: "get_map_info exact (\<lambda>_. True) (Some (file_of small_lines)) start_map \<noteq> Out_Of_Bounds"
    by (rule reading_in_bounds)
  have s: "\<forall>l \<in> set (split_lines (file_of huge_lines)). length l < 1024" by code_simp
  have "map_get_map_info_count exact (\<lambda>_. True) (map c_string (split_lines (file_of huge_lines))) start_map = None"
    by code_simp
  then have "get_map_info exact (\<lambda>_. True) (Some (file_of huge_lines)) start_map = Out_Of_Bounds"
    unfolding get_map_info_short_lines[OF s] by (simp add: load_map_def)
  with ok show ?thesis ..
qed

end
