(* ===== verification/Polygon_File.thy ===== *)
theory Polygon_File
  imports Obstacle_Polygon Text_Input
begin

text \<open>
  Polygons kept in text files, one node in a line: \<^verbatim>\<open>readPolygonFile\<close>, \<^verbatim>\<open>readPolygonFile2\<close> and the functions over
  several polygons of \<^verbatim>\<open>common/hdmap/pf_map_block_3d.cpp\<close>.  \<open>None\<close> is a loop over the lines that never ends.
\<close>

definition POLYGON_NODE_COUNT_MAX :: nat where "POLYGON_NODE_COUNT_MAX = 1024"

text \<open>The array and the number of nodes in it.\<close>

record polygon =
  nodes :: "PF_NODE_ST list"
  poly_count :: nat

definition polygon_ok :: "polygon \<Rightarrow> bool" where
  "polygon_ok p \<longleftrightarrow> length (nodes p) = POLYGON_NODE_COUNT_MAX \<and> poly_count p \<le> POLYGON_NODE_COUNT_MAX"

fun polygon_lines :: "(rat \<Rightarrow> rat) \<Rightarrow> string list \<Rightarrow> PF_NODE_ST list \<Rightarrow> nat \<Rightarrow> PF_NODE_ST list \<times> nat" where
  "polygon_lines r [] ns n = (ns, n)"
| "polygon_lines r (buf # bufs) ns n =
     (case sscanf r buf ''%lf,%lf'' of
        [Num x, Num y] \<Rightarrow> polygon_lines r bufs (if n < POLYGON_NODE_COUNT_MAX then ns[n := \<lparr>px = x, py = y\<rparr>] else ns) (n + 1)
      | _ \<Rightarrow> polygon_lines r bufs ns n)"

definition readPolygonFile2 :: "(rat \<Rightarrow> rat) \<Rightarrow> string option \<Rightarrow> polygon \<Rightarrow> (bool \<times> polygon) option" where
  "readPolygonFile2 r file p =
     (case file of None \<Rightarrow> Some (False, p)
      | Some content \<Rightarrow>
        do { bufs \<leftarrow> read_lines 1024 (ifstream_of content);
             let (ns, n) = polygon_lines r (map (takeWhile (\<lambda>c. c \<noteq> CHR 0x00)) bufs) (nodes p) 0 in
             Some (n \<le> POLYGON_NODE_COUNT_MAX, p\<lparr>nodes := ns, poly_count := if n \<le> POLYGON_NODE_COUNT_MAX then n else 0\<rparr>) })"

text \<open>The same for the global polygon.\<close>

definition readPolygonFile :: "(rat \<Rightarrow> rat) \<Rightarrow> string option \<Rightarrow> polygon \<Rightarrow> (bool \<times> polygon) option" where
  "readPolygonFile r file gPolygon = readPolygonFile2 r file gPolygon"

fun BxtTest_LoadPolygonFiles :: "(rat \<Rightarrow> rat) \<Rightarrow> (string option \<times> polygon) list \<Rightarrow> (string option \<times> polygon) list option" where
  "BxtTest_LoadPolygonFiles r [] = Some []"
| "BxtTest_LoadPolygonFiles r ((file, p) # ps) =
     do { (_, p) \<leftarrow> readPolygonFile2 r file p; ps \<leftarrow> BxtTest_LoadPolygonFiles r ps; Some ((file, p) # ps) }"

definition BxtTest_CheckPointInPolygons :: "(rat \<Rightarrow> rat) \<Rightarrow> polygon list \<Rightarrow> rat \<Rightarrow> rat \<Rightarrow> bool" where
  "BxtTest_CheckPointInPolygons r polygons x y =
     list_ex (\<lambda>p. isInPolygon r x y (take (poly_count p) (nodes p))) polygons"

text \<open>Reading keeps within the array, whatever the file holds.\<close>

lemma polygon_lines_length: "length (fst (polygon_lines r bufs ns n)) = length ns"
  by (induction bufs arbitrary: ns n) (auto split: list.split scanned.split)

lemma polygon_lines_result: "polygon_lines r bufs ns n = (ns', n') \<Longrightarrow> length ns' = length ns"
  using polygon_lines_length[of r bufs ns n] by simp

lemma readPolygonFile_ok: "\<lbrakk>readPolygonFile2 r file p = Some (b, p'); polygon_ok p\<rbrakk> \<Longrightarrow> polygon_ok p'"
  by (auto simp: readPolygonFile2_def polygon_ok_def dest: polygon_lines_result split: option.splits bind_splits prod.splits)

lemma polygons_ok:
  "\<lbrakk>BxtTest_LoadPolygonFiles r ps = Some ps'; \<forall>(f, p) \<in> set ps. polygon_ok p\<rbrakk> \<Longrightarrow> \<forall>(f, p) \<in> set ps'. polygon_ok p"
proof (induction ps arbitrary: ps')
  case (Cons q ps)
  then show ?case by (cases q) (fastforce dest: readPolygonFile_ok split: bind_splits)
qed simp

text \<open>
  C38. For a point off the boundaries, the ray test of \<^verbatim>\<open>isInPolygon\<close> over several polygons agrees with the test
  \<^verbatim>\<open>pnpoly\<close> that the areas of the map use, for polygons of any form.
\<close>

lemma check_polygons:
  assumes "\<forall>p \<in> set ps. \<not> on_polygon x y (take (poly_count p) (nodes p))"
  shows "BxtTest_CheckPointInPolygons exact ps x y \<longleftrightarrow> (\<exists>p \<in> set ps. pnpoly exact (take (poly_count p) (nodes p)) x y)"
proof -
  have "\<forall>p \<in> set ps. isInPolygon exact x y (take (poly_count p) (nodes p)) = pnpoly exact (take (poly_count p) (nodes p)) x y"
    using assms tests_agree by blast
  then show ?thesis by (simp add: BxtTest_CheckPointInPolygons_def list_ex_iff)
qed

definition triangle :: polygon where
  "triangle = \<lparr>nodes = [\<lparr>px = 0, py = 0\<rparr>, \<lparr>px = 4, py = 0\<rparr>, \<lparr>px = 0, py = 4\<rparr>], poly_count = 3\<rparr>"

lemma check_polygons_witness:
  "BxtTest_CheckPointInPolygons exact [triangle] 1 1 \<and> pnpoly exact (nodes triangle) 1 1"
proof -
  have "\<not> on_polygon 1 1 (take (poly_count triangle) (nodes triangle))" by code_simp
  then have "BxtTest_CheckPointInPolygons exact [triangle] 1 1 \<longleftrightarrow> (\<exists>p \<in> set [triangle]. pnpoly exact (take (poly_count p) (nodes p)) 1 1)"
    by (intro check_polygons) simp
  moreover have "pnpoly exact (take (poly_count triangle) (nodes triangle)) 1 1" "pnpoly exact (nodes triangle) 1 1" by code_simp+
  ultimately show ?thesis by simp
qed

end
