(* ===== verification/Spec2Isabelle.thy ===== *)
theory Spec2Isabelle
  imports Timer_Properties Mbox_Threads Id_Properties Module_Ids Thread_Mid Timer_Service Tcp_Socket Dgram_Socket
    Sctp_Buffer Session_Server Request_Context Flyto Payload Task_Pool Mqtt_Route Mem_Pool
    Obstacle_Properties Polygon_File
begin

text \<open>
  A verification development for the DJI Pilot 2 cloud service.

  \<^bold>\<open>The program.\<close>  One Linux process connects the remote controller of an aircraft (an MQTT broker) with
  an internal platform (Kafka).  It consists of modules; each has an entry function and its own
  thread with a mailbox.  Modules only talk by messages: an identifier, the sender and a block of
  bytes.  The layers, from below:

  \<^item> \<^verbatim>\<open>platform/linux\<close>: intrusive lists, mailboxes, timers, the table from threads to modules.  A timer
    thread ticks the timer manager and puts expiry messages into mailboxes.
  \<^item> \<^verbatim>\<open>platform/network\<close>: sockets.  What the kernel does not take at once is kept in a send buffer and
    sent when the event loop reports the socket as writable.
  \<^item> \<^verbatim>\<open>common\<close>: identifiers of messages, errors, alarms, modules and their names; base classes of the
    modules; the pending requests; thread pools; conversion between JSON and protobuf.
  \<^item> \<^verbatim>\<open>cloud\<close>: \<open>lcf\<close> and \<open>mqtt\<close> route what arrives to \<open>track\<close> (telemetry), \<open>flyto\<close> (flight commands) and
    \<open>payload\<close> (camera and gimbal).  A command becomes a request to the aircraft; the thread that sent it
    waits for the reply, which another thread takes from the module's mailbox, and the result is
    reported to the platform.

  \<^bold>\<open>The theories.\<close>

  \<^item> \<open>Pilot_Prelude\<close>: integer types, lemmas on lists, words and maps, the collections of rewrite rules.
  \<^item> \<open>Double_List\<close> (\<^verbatim>\<open>double_list.h\<close>), \<open>Timer_Manager\<close> (\<^verbatim>\<open>pf_timer_manager.cpp\<close>), \<open>Timer_Properties\<close>: the list
    macros assignment by assignment on a store of nodes; every operation of the timer manager on
    that store, as the code relinks it.  The invariant \<open>tm_inv\<close> says that every list is a ring and
    that the lists partition the blocks; the properties say what an operation does for its callers.
    The locale \<open>node_store\<close> states what the list operations need of the store.
  \<^item> \<open>Ring\<close>, \<open>Mbox\<close>, \<open>Mbox_Properties\<close>, \<open>Mbox_Threads\<close> (\<^verbatim>\<open>pf_mbox.cpp\<close>, \<^verbatim>\<open>msg.h\<close>): mailboxes as circular arrays of
    slots with inline and allocated payloads; \<open>Mbox_Properties\<close> proves them a bounded double-ended queue,
    \<open>Mbox_Threads\<close> what the threads of several modules do with them: one turn of a module's thread, for any
    entry functions, and any interleaving of sends and turns, with payloads of any length.
  \<^item> \<open>Fifo\<close>, \<open>Comm_Queue\<close>, \<open>Comm_Buf\<close> (\<^verbatim>\<open>pf_comm.cpp\<close>), \<open>Mem_Pool\<close> (\<^verbatim>\<open>pf_ex.cpp\<close>): the allocator of the process.
    The contract of a bounded queue; the queues that hold the numbers of free blocks; pools of
    blocks; \<^verbatim>\<open>pf_malloc\<close>, \<^verbatim>\<open>pf_realloc\<close> and \<^verbatim>\<open>pf_free\<close> over six pools and \<^verbatim>\<open>malloc\<close>, with the table of size
    classes.  \<open>mem_inv\<close> ties the pools to the regions in use, \<open>mem_reach\<close> is any sequence of calls.
  \<^item> \<open>Thread_Mid\<close> (\<^verbatim>\<open>pf_mbox.cpp\<close>): the open-addressing table from threads to modules.
  \<^item> \<open>Timer_Service\<close> (\<^verbatim>\<open>pf_timer_service_linux_signal.cpp\<close>): the functions modules call and the tick loop,
    composed from the timer manager and the mailboxes.
  \<^item> \<open>Id_Tables\<close>, \<open>Id_Maps\<close>, \<open>Id_Properties\<close>, \<open>Module_Ids\<close> (\<^verbatim>\<open>common/decl_*\<close>): the X-macro tables entry by
    entry, the enumerations they expand to, the maps between numbers and names.
  \<^item> \<open>Net_Buffer\<close>, \<open>Dgram_Buffer\<close>, \<open>Sctp_Buffer\<close> (\<^verbatim>\<open>net_buffer.cpp\<close>): the send buffers with their pointers as
    addresses of one block, every access checked.  \<open>Tcp_Socket\<close>, \<open>Dgram_Socket\<close>
    (\<^verbatim>\<open>cross_platform_socket.cpp\<close> and others): sending on top of them, against a kernel that may take
    any part of what it is given.
  \<^item> \<open>Request_Context\<close> (\<^verbatim>\<open>requestContextManager.cpp\<close>): threads that wait for replies, as a step relation
    over two kinds of lock.
  \<^item> \<open>Pl_Utils\<close> (\<^verbatim>\<open>pl_utils.cpp\<close>, \<^verbatim>\<open>message_common.cpp\<close>): control mode, reports, heartbeats, and the numbers and
    messages the modules share.  \<open>Track\<close> (\<^verbatim>\<open>trackMain.cpp\<close>), \<open>Flyto_Speed\<close> (\<^verbatim>\<open>moveSpeedTable.h\<close>), \<open>Flyto\<close>
    (\<^verbatim>\<open>flytoController.cpp\<close>), \<open>Payload\<close> (\<^verbatim>\<open>cameraController.cpp\<close>, \<^verbatim>\<open>gimbalController.cpp\<close>): one group of definitions
    per handler, as functions from the state and the answers of the outside to the new state and the
    list of effects in the order of the code.  \<open>Flyto_Course\<close> (\<^verbatim>\<open>flytoController.cpp\<close>): distance and course
    to a target, with Vincenty's iteration round by round.
  \<^item> \<open>Text_Input\<close>: what is used of streams, \<^verbatim>\<open>strstr\<close> and \<^verbatim>\<open>sscanf\<close>.  \<open>Obstacle_Polygon\<close>, \<open>Polygon_File\<close>, \<open>Obstacle_Map\<close>,
    \<open>Obstacle_Area\<close>, \<open>Obstacle_Line\<close>, \<open>Obstacle_Load\<close>, \<open>Obstacle_Loaded\<close>, \<open>Obstacle_Memory\<close>, \<open>Obstacle_Properties\<close>
    (\<^verbatim>\<open>pf_map_block_3d.cpp\<close>): the map of obstacles from the characters of its file to the answer that
    \<open>Flyto\<close> asks for; points in polygons, areas and the blocks they decide for, positions and lines.
  \<^item> \<open>Task_Pool\<close> (\<^verbatim>\<open>ThreadPoolManager.cpp\<close>, the entries of the modules) and \<open>Mqtt_Route\<close> (\<^verbatim>\<open>lcfMain.cpp\<close>,
    \<^verbatim>\<open>mqttsubMain.cpp\<close>, \<^verbatim>\<open>mqttpubMain.cpp\<close>): which thread runs what, and which message goes where.
  \<^item> \<open>Session_Packet\<close>, \<open>Session_Client\<close>, \<open>Session_Server\<close> (\<^verbatim>\<open>platform_netsession_client.cpp\<close>,
    \<^verbatim>\<open>platform_netsession_server.cpp\<close>): messages sent in parts, packets found in a byte stream, parts put
    together again, per connection and per client of a server.

  The interfaces are the locales \<open>node_store\<close> (list operations on a store), \<open>bounded_fifo\<close> (a queue of
  free blocks), \<open>bounded_deque\<close>, which extends it (a mailbox),
  \<open>id_table\<close> (an enumeration with names), \<open>dgram_sender\<close> (a datagram socket) and \<open>packet_framing\<close> (a receiver
  of packets), each interpreted on the model of the code that provides it.

  \<^bold>\<open>What is shown.\<close>  (1) Data structures keep their invariants and implement their abstract
  specification: the timer lists a finite map from timers to remaining ticks, the mailbox a bounded
  double-ended queue, the queue of a pool a bounded queue, the byte ring a byte sequence, the message queues a list of records, sending a
  stream of bytes or records without loss, reordering or duplicates; the regions the allocator hands
  out never overlap, and what is free and what is in use add up to each pool.  (2) Across components: one
  tick of the timer thread puts exactly the due messages into the mailboxes; the service cannot
  be brought into a state in which the timer thread hangs; a kernel that goes on taking data empties the
  send buffer; what a session sends in parts its peer receives as the same messages.  (3) Cloud
  modules: every stick value is within its type's range, a landing is reported once, a timed move sends
  its sticks for the right number of cycles and neutral behind them, unless a message cannot be sent; a
  camera command asks for factors within 2 to 400 when the one in the telemetry is; the aircraft is
  sent to a point only when every block below the line that the code
  checks passes, and which blocks pass is read off the file.  (4) Where the code does not do what it means to,
  the theorem says what it does: overtaken and late replies, a pool in which commands wait for
  replies that cannot be handled, rejected telemetry that resets the position, a send loop that
  stalls, restricted areas that one test of the map takes as limits from below and the other from above.

  \<^bold>\<open>Bounds and fuel.\<close>  Loops that end structurally are \<open>fun\<close>.  Pointer loops over lists are
  \<open>partial_function (option)\<close> and proved to return a value under the invariant, as are the send
  loops, which may return None only if the kernel never stops taking nothing.  The loop of
  \<open>continuousZoom\<close> takes the number of turns left, 20 as in the code.  The number of control cycles
  of a timed move is computed from its duration as in the code.

  \<^bold>\<open>Parameters.\<close>  The kernel's \<open>send\<close>, \<open>sendto\<close> and OpenSSL's \<open>SSL_write\<close>; the allocator (which may fail where
  the code checks it; for the memory pool, \<^verbatim>\<open>malloc\<close> and \<^verbatim>\<open>realloc\<close> return NULL or a block that meets no other); the JSON library and protobuf (accessors with their documented default
  values and exceptions); answers to requests; the clock; rounding of a \<open>float\<close> (numbers are rationals with
  the special values apart, and a rounding function is applied after each operation; theorems about
  places in the map take exact arithmetic); the projection \<^verbatim>\<open>WGS842UTM\<close>; the functions of \<^verbatim>\<open><cmath>\<close>, of which
  \<open>libm_ok\<close> states the documented ranges.

  \<^bold>\<open>Not modelled.\<close>  Log output and statistics counters; reading configuration files; receiving,
  connecting and accepting on sockets; Kafka, FTP, HTTP and Nacos clients, which are
  sequences of calls to libraries outside the repository; a former version of the map; operating-system
  helpers; vendored headers.  The manifest lists each with its reason.

  \<^bold>\<open>What remains.\<close>  The framing of \<^verbatim>\<open>pf_inter_msg_server.cpp\<close>, geofencing and coordinate conversion of
  \<^verbatim>\<open>drc/utils\<close>, and the string helpers of \<^verbatim>\<open>pf_comm.cpp\<close> could be modelled in the same way; nothing above rests
  on them.
\<close>

end
